(* ===== verification/Prelude.thy ===== *)
theory Prelude
  imports
    Main
    "HOL-Library.Word"
    "HOL-Library.List_Lexorder"
    "HOL-Library.Multiset"
    "HOL-Library.Signed_Division"
begin

text \<open>
  The vocabulary every component shares: Go's fixed-width integers, byte slices, the result of a
  Go call that may return an error or panic, and the generic facts on lists and sums the
  component proofs use.

  \<^item> Go's \<open>int\<close>, \<open>int64\<close> and \<open>int32\<close> are values of type \<^typ>\<open>int\<close>; \<open>i64\<close> and \<open>i32\<close> are the
    two's complement wrap-around, applied wherever the source computes on such a value and the
    result may leave the range. Division is \<^term>\<open>(sdiv)\<close>, which truncates towards zero as Go's
    \<open>/\<close> does. \<open>uint64\<close> is a 64-bit word.
  \<^item> A byte slice is a list of 8-bit words; the nil slice and the empty slice are both
    \<^term>\<open>[]\<close>, as they are for \<open>bytes.Equal\<close> and \<open>len\<close>. Where the source distinguishes nil, the
    model has an option. \<open>bytes.Compare\<close> is the lexicographic order of lists.
  \<^item> \<open>result\<close> is the result of a call: a value, a returned error, or a panic.
\<close>

named_theorems go_defs "definitions of small helpers that proofs unfold"
named_theorems inv_intros "rules that establish the invariant of a component after an operation"

section \<open>Integers\<close>

abbreviation MaxInt64 :: int where "MaxInt64 \<equiv> 9223372036854775807"
abbreviation MinInt64 :: int where "MinInt64 \<equiv> - 9223372036854775808"
abbreviation MaxInt32 :: int where "MaxInt32 \<equiv> 2147483647"
abbreviation MinInt32 :: int where "MinInt32 \<equiv> - 2147483648"

definition i64 :: "int \<Rightarrow> int" where
  "i64 x = (x + 9223372036854775808) mod 18446744073709551616 - 9223372036854775808"

definition i32 :: "int \<Rightarrow> int" where
  "i32 x = (x + 2147483648) mod 4294967296 - 2147483648"

definition is_i64 :: "int \<Rightarrow> bool" where
  "is_i64 x \<longleftrightarrow> MinInt64 \<le> x \<and> x \<le> MaxInt64"

definition is_i32 :: "int \<Rightarrow> bool" where
  "is_i32 x \<longleftrightarrow> MinInt32 \<le> x \<and> x \<le> MaxInt32"

lemma i64_id [simp]: "is_i64 x \<Longrightarrow> i64 x = x"
  by (simp add: i64_def is_i64_def)

lemma i32_id [simp]: "is_i32 x \<Longrightarrow> i32 x = x"
  by (simp add: i32_def is_i32_def)

lemma is_i64_i64 [simp]: "is_i64 (i64 x)"
proof -
  have "0 \<le> (x + 9223372036854775808) mod 18446744073709551616"
    and "(x + 9223372036854775808) mod 18446744073709551616 < 18446744073709551616"
    by (rule pos_mod_sign, simp) (rule pos_mod_bound, simp)
  then show ?thesis by (simp add: i64_def is_i64_def)
qed

lemma i64_idI: "MinInt64 \<le> x \<Longrightarrow> x \<le> MaxInt64 \<Longrightarrow> i64 x = x"
  by (simp add: is_i64_def)

lemma i32_idI: "MinInt32 \<le> x \<Longrightarrow> x \<le> MaxInt32 \<Longrightarrow> i32 x = x"
  by (simp add: is_i32_def)

lemma i64_over: "MaxInt64 < x \<Longrightarrow> x \<le> MaxInt64 + 18446744073709551616 \<Longrightarrow> i64 x = x - 18446744073709551616"
  using mod_add_self2 [of "x - 9223372036854775808" "18446744073709551616 :: int"]
  by (simp add: i64_def add.commute)

text \<open>Truncated division agrees with floor division on a non-negative dividend.\<close>

lemma sdiv_nonneg [simp]: "0 \<le> (a::int) \<Longrightarrow> 0 < b \<Longrightarrow> a sdiv b = a div b"
  by (cases "a = 0") (simp_all add: signed_divide_int_def)

lemma sdiv_abs_le: "\<bar>(a::int) sdiv b\<bar> \<le> \<bar>a\<bar>"
  using sdiv_int_range [of a b] by auto

lemma sdiv_abs: "\<bar>(a::int) sdiv b\<bar> = \<bar>a\<bar> div \<bar>b\<bar>"
  by (cases "a = 0"; cases "b = 0") (simp_all add: signed_divide_int_def abs_mult pos_imp_zdiv_nonneg_iff)

lemma le_div_iff_int: "0 < b \<Longrightarrow> a \<le> m div b \<longleftrightarrow> a * b \<le> (m::int)"
proof
  assume b: "0 < b" and "a \<le> m div b"
  then have "a * b \<le> m div b * b" by (simp add: mult_right_mono)
  also have "\<dots> \<le> m" using b by (metis add_le_same_cancel1 div_mult_mod_eq le_add_same_cancel1 pos_mod_sign)
  finally show "a * b \<le> m" .
next
  assume b: "0 < b" and "a * b \<le> m"
  then have "a * b div b \<le> m div b" by (intro zdiv_mono1)
  then show "a \<le> m div b" using b by simp
qed

lemma sdiv_mono: "(a::int) \<le> b \<Longrightarrow> 0 < c \<Longrightarrow> a sdiv c \<le> b sdiv c"
proof (cases "0 \<le> a")
  case True
  assume "a \<le> b" "0 < c"
  with True show ?thesis by (simp add: zdiv_mono1)
next
  case False
  assume ab: "a \<le> b" and c: "0 < c"
  from False c have a: "a sdiv c = - ((- a) div c)"
    by (simp add: signed_divide_int_def)
  show ?thesis
  proof (cases "0 \<le> b")
    case True
    have "0 \<le> (- a) div c" using False c by (simp add: pos_imp_zdiv_nonneg_iff)
    moreover have "0 \<le> b div c" using True c by (simp add: pos_imp_zdiv_nonneg_iff)
    ultimately show ?thesis using a True c by simp
  next
    case bneg: False
    then have b: "b sdiv c = - ((- b) div c)"
      using c by (simp add: signed_divide_int_def)
    have "(- b) div c \<le> (- a) div c" using ab c by (simp add: zdiv_mono1)
    then show ?thesis using a b by simp
  qed
qed

section \<open>Bytes\<close>

type_synonym byte = "8 word"
type_synonym bytes = "byte list"
type_synonym uint64 = "64 word"

section \<open>The result of a call\<close>

datatype go_error =
    Errorf string
  | Wrapf string go_error

datatype 'a result = Ok 'a | Err go_error | Panic string

fun bind_out :: "'a result \<Rightarrow> ('a \<Rightarrow> 'b result) \<Rightarrow> 'b result" where
  "bind_out (Ok a) f = f a"
| "bind_out (Err e) f = Err e"
| "bind_out (Panic s) f = Panic s"

fun map_out :: "('a \<Rightarrow> 'b) \<Rightarrow> 'a result \<Rightarrow> 'b result" where
  "map_out f (Ok a) = Ok (f a)"
| "map_out f (Err e) = Err e"
| "map_out f (Panic s) = Panic s"

fun map_err :: "(go_error \<Rightarrow> go_error) \<Rightarrow> 'a result \<Rightarrow> 'a result" where
  "map_err f (Ok a) = Ok a"
| "map_err f (Err e) = Err (f e)"
| "map_err f (Panic s) = Panic s"

fun is_Ok :: "'a result \<Rightarrow> bool" where
  "is_Ok (Ok a) = True"
| "is_Ok (Err e) = False"
| "is_Ok (Panic s) = False"

lemma bind_out_eq_Ok [simp]: "bind_out m f = Ok b \<longleftrightarrow> (\<exists>a. m = Ok a \<and> f a = Ok b)"
  by (cases m) auto

lemma bind_out_cong [fundef_cong]:
  "m = m' \<Longrightarrow> (\<And>a. m' = Ok a \<Longrightarrow> f a = f' a) \<Longrightarrow> bind_out m f = bind_out m' f'"
  by (cases m') auto

lemma map_out_eq_Ok [simp]: "map_out f m = Ok b \<longleftrightarrow> (\<exists>a. m = Ok a \<and> b = f a)"
  by (cases m) auto

lemma map_err_eq_Ok [simp]: "map_err f m = Ok a \<longleftrightarrow> m = Ok a"
  by (cases m) auto

lemma bind_out_eq_Panic [simp]: "bind_out m f = Panic s \<longleftrightarrow> m = Panic s \<or> (\<exists>a. m = Ok a \<and> f a = Panic s)"
  by (cases m) auto

lemma map_out_eq_Panic [simp]: "map_out f m = Panic s \<longleftrightarrow> m = Panic s"
  by (cases m) auto

lemma map_err_eq_Panic [simp]: "map_err f m = Panic s \<longleftrightarrow> m = Panic s"
  by (cases m) auto

lemma is_Ok_iff: "is_Ok m \<longleftrightarrow> (\<exists>a. m = Ok a)"
  by (cases m) auto

text \<open>A loop whose body may return early with an error or panic.\<close>

fun fold_out :: "('a \<Rightarrow> 's \<Rightarrow> 's result) \<Rightarrow> 'a list \<Rightarrow> 's \<Rightarrow> 's result" where
  "fold_out f [] s = Ok s"
| "fold_out f (x # xs) s = bind_out (f x s) (fold_out f xs)"

lemma fold_out_append [simp]:
  "fold_out f (xs @ ys) s = bind_out (fold_out f xs s) (fold_out f ys)"
proof (induction xs arbitrary: s)
  case (Cons x xs)
  then show ?case by (cases "f x s") auto
qed simp

lemma fold_out_inv:
  assumes "fold_out f xs s = Ok t" "P s"
    and "\<And>x s s'. x \<in> set xs \<Longrightarrow> P s \<Longrightarrow> f x s = Ok s' \<Longrightarrow> P s'"
  shows "P t"
  using assms
proof (induction xs arbitrary: s)
  case (Cons x xs)
  then obtain s' where s': "f x s = Ok s'" "fold_out f xs s' = Ok t" by auto
  have "P s'" using Cons.prems(2,3) s'(1) by auto
  with s'(2) show ?case using Cons.IH Cons.prems(3) by auto
qed simp

lemma fold_out_no_panic:
  assumes "\<And>x s m. f x s \<noteq> Panic m"
  shows "fold_out f xs s \<noteq> Panic m"
  using assms by (induction xs arbitrary: s) auto

lemma fold_out_pure: "fold_out (\<lambda>x s. Ok (f x s)) xs s = Ok (fold f xs s)"
  by (induction xs arbitrary: s) auto

text \<open>Reading a slice: an index out of range panics.\<close>

definition index :: "'a list \<Rightarrow> int \<Rightarrow> 'a result" where
  "index xs i = (if 0 \<le> i \<and> i < int (length xs) then Ok (xs ! nat i) else Panic ''index out of range'')"

lemma index_nat [simp]: "i < length xs \<Longrightarrow> index xs (int i) = Ok (xs ! i)"
  by (simp add: index_def)

lemma index_Ok_iff: "index xs i = Ok x \<longleftrightarrow> 0 \<le> i \<and> i < int (length xs) \<and> x = xs ! nat i"
  by (auto simp: index_def)

text \<open>Writing to a slice in place.\<close>

definition store :: "'a list \<Rightarrow> int \<Rightarrow> 'a \<Rightarrow> ('a list) result" where
  "store xs i v = (if 0 \<le> i \<and> i < int (length xs) then Ok (xs[nat i := v]) else Panic ''index out of range'')"

lemma store_nat [simp]: "i < length xs \<Longrightarrow> store xs (int i) v = Ok (xs[i := v])"
  by (simp add: store_def)

section \<open>Lists and sums\<close>

text \<open>The index of the first element that satisfies a predicate.\<close>

fun find_index :: "('a \<Rightarrow> bool) \<Rightarrow> 'a list \<Rightarrow> nat option" where
  "find_index p [] = None"
| "find_index p (x # xs) = (if p x then Some 0 else map_option Suc (find_index p xs))"

lemma find_index_SomeD:
  "find_index p xs = Some i \<Longrightarrow> i < length xs \<and> p (xs ! i) \<and> (\<forall>j < i. \<not> p (xs ! j))"
proof (induction xs arbitrary: i)
  case Nil
  then show ?case by simp
next
  case (Cons x xs)
  show ?case
  proof (cases "p x")
    case True
    with Cons.prems show ?thesis by simp
  next
    case False
    with Cons.prems obtain k where k: "find_index p xs = Some k" "i = Suc k" by auto
    with Cons.IH [OF k(1)] False show ?thesis
      by (auto simp: less_Suc_eq_0_disj)
  qed
qed

lemma find_index_None_iff: "find_index p xs = None \<longleftrightarrow> (\<forall>x \<in> set xs. \<not> p x)"
  by (induction xs) auto

lemma find_index_unique:
  assumes "i < length xs" "p (xs ! i)" "\<And>j. j < length xs \<Longrightarrow> p (xs ! j) \<Longrightarrow> j = i"
  shows "find_index p xs = Some i"
proof (cases "find_index p xs")
  case None
  with assms(1,2) show ?thesis by (auto simp: find_index_None_iff)
next
  case (Some k)
  with find_index_SomeD [OF Some] assms(3) show ?thesis by auto
qed

lemma sum_list_mset_eq: "mset xs = mset ys \<Longrightarrow> sum_list xs = sum_list (ys :: int list)"
  by (metis sum_mset_sum_list)

lemma sum_list_update_int:
  "i < length xs \<Longrightarrow> sum_list (xs[i := v]) = sum_list xs - xs ! i + (v::int)"
  by (induction xs arbitrary: i) (auto simp: nth_Cons split: nat.splits)

lemma all_less_add: "(\<forall>i < a + n. P i) \<longleftrightarrow> (\<forall>i < a. P i) \<and> (\<forall>j < n. P (a + j))" for a :: nat
proof (intro iffI allI impI)
  fix i assume *: "(\<forall>i < a. P i) \<and> (\<forall>j < n. P (a + j))" "i < a + n"
  then show "P i" by (cases "i < a") (auto dest: spec [of _ "i - a"])
qed auto

lemma upt_shift: "[l..<l + n] = map ((+) l) [0..<n]"
proof -
  have "map (\<lambda>i. i + l) [0..<n] = [l..<n + l]" by (rule map_add_upt)
  moreover have "(\<lambda>i. i + l) = (+) l" by (simp add: fun_eq_iff)
  ultimately show ?thesis by (simp add: add.commute)
qed

text \<open>\<open>strings.Split\<close> on a one-character separator.\<close>

fun split_on :: "'a \<Rightarrow> 'a list \<Rightarrow> 'a list list" where
  "split_on sep [] = [[]]"
| "split_on sep (c # cs) =
     (if c = sep then [] # split_on sep cs
      else case split_on sep cs of p # ps \<Rightarrow> (c # p) # ps | [] \<Rightarrow> [[c]])"

lemma split_on_none: "sep \<notin> set s \<Longrightarrow> split_on sep s = [s]"
  by (induction s) auto

lemma split_on_append: "sep \<notin> set s \<Longrightarrow> split_on sep (s @ sep # t) = s # split_on sep t"
  by (induction s) auto

text \<open>The power held by the indices below a bound that satisfy a predicate.\<close>

definition wsum :: "(nat \<Rightarrow> int) \<Rightarrow> nat \<Rightarrow> (nat \<Rightarrow> bool) \<Rightarrow> int" where
  "wsum w n P = (\<Sum>i<n. if P i then w i else 0)"

lemma wsum_cong: "(\<And>i. i < n \<Longrightarrow> P i = Q i) \<Longrightarrow> wsum w n P = wsum w n Q"
  by (simp add: wsum_def)

lemma wsum_none [simp]: "wsum w n (\<lambda>_. False) = 0"
  by (simp add: wsum_def)

lemma wsum_mono:
  assumes "\<And>i. i < n \<Longrightarrow> 0 \<le> w i" "\<And>i. i < n \<Longrightarrow> P i \<Longrightarrow> Q i"
  shows "wsum w n P \<le> wsum w n Q"
  unfolding wsum_def using assms by (intro sum_mono) auto

lemma wsum_nonneg: "(\<And>i. i < n \<Longrightarrow> 0 \<le> w i) \<Longrightarrow> 0 \<le> wsum w n P"
  unfolding wsum_def by (intro sum_nonneg) auto

lemma wsum_add:
  assumes "k < n" "\<not> P k"
  shows "wsum w n (\<lambda>i. P i \<or> i = k) = wsum w n P + w k"
proof -
  have "wsum w n (\<lambda>i. P i \<or> i = k) = (\<Sum>i<n. (if P i then w i else 0) + (if i = k then w i else 0))"
    unfolding wsum_def using assms by (intro sum.cong) auto
  also have "\<dots> = wsum w n P + (\<Sum>i<n. if i = k then w i else 0)"
    by (simp add: wsum_def sum.distrib)
  also have "(\<Sum>i<n. if i = k then w i else 0) = w k"
    using assms(1) by (simp add: sum.delta)
  finally show ?thesis .
qed

lemma wsum_inclusion:
  "wsum w n P + wsum w n Q = wsum w n (\<lambda>i. P i \<or> Q i) + wsum w n (\<lambda>i. P i \<and> Q i)"
  unfolding wsum_def sum.distrib [symmetric] by (intro sum.cong) auto

text \<open>Two sets of indices that each hold more than a bound share more than the excess.\<close>

lemma wsum_overlap:
  assumes w: "\<And>i. i < n \<Longrightarrow> 0 \<le> w i"
  shows "wsum w n P + wsum w n Q - wsum w n (\<lambda>_. True) \<le> wsum w n (\<lambda>i. P i \<and> Q i)"
proof -
  have "wsum w n (\<lambda>i. P i \<or> Q i) \<le> wsum w n (\<lambda>_. True)"
    using w by (intro wsum_mono) auto
  then show ?thesis using wsum_inclusion [of w n P Q] by linarith
qed

lemma wsum_nth: "wsum (\<lambda>i. f (xs ! i)) (length xs) (\<lambda>_. True) = sum_list (map f xs)"
  by (simp add: wsum_def sum_list_sum_nth atLeast0LessThan)

end
