(* ===== verification/BitArray.thy ===== *)
theory BitArray
  imports Prelude
begin

unbundle bit_operations_syntax

text \<open>
  \<open>libs/bits/bit_array.go\<close>: bit arrays as the votes, the block parts and the gossip routines use
  them. The nil \<open>*BitArray\<close> is \<^term>\<open>None\<close>; the mutex is not modelled, each method is one atomic
  step. An array that comes from a peer may be malformed (\<open>Elems\<close> does not fit \<open>Bits\<close>), so every
  operation that indexes \<open>Elems\<close> has the index panic as a branch. \<open>ba_wf\<close> is what
  \<open>ValidateBasic\<close> checks, \<open>ba_bits\<close> reads the array as a list of booleans, and each
  operation is shown to be total on well-formed arrays and to compute its pointwise meaning.
\<close>

section \<open>The code\<close>

record BitArray =
  Bits :: int
  Elems :: "uint64 list"

definition numElements :: "int \<Rightarrow> int" where
  "numElements bits = i64 (bits + 63) sdiv 64"

text \<open>\<open>make\<close> panics on a negative length.\<close>

definition make_elems :: "int \<Rightarrow> (uint64 list) result" where
  "make_elems n = (if n < 0 then Panic ''makeslice: len out of range'' else Ok (replicate (nat n) 0))"

text \<open>\<open>uint64(1) << uint(k)\<close>: a negative \<open>k\<close> becomes a shift of at least 64 places.\<close>

definition shl1 :: "int \<Rightarrow> uint64" where
  "shl1 k = (if 0 \<le> k then push_bit (nat k) 1 else 0)"

definition NewBitArray :: "int \<Rightarrow> (BitArray option) result" where
  "NewBitArray bits =
     (if bits \<le> 0 then Ok None
      else bind_out (make_elems (numElements bits)) (\<lambda>es. Ok (Some \<lparr>Bits = bits, Elems = es\<rparr>)))"

definition or_elem :: "int \<Rightarrow> uint64 \<Rightarrow> uint64 list \<Rightarrow> (uint64 list) result" where
  "or_elem k m es = bind_out (index es k) (\<lambda>e. Ok (es[nat k := e OR m]))"

definition NewBitArrayFromFn :: "int \<Rightarrow> (int \<Rightarrow> bool) \<Rightarrow> (BitArray option) result" where
  "NewBitArrayFromFn bits fn =
     (if bits \<le> 0 then Ok None
      else bind_out (make_elems (numElements bits)) (\<lambda>es.
           bind_out (fold_out (\<lambda>i es. if fn i then or_elem (i sdiv 64) (shl1 (i smod 64)) es else Ok es)
                       (map int [0..<nat bits]) es) (\<lambda>es'.
           Ok (Some \<lparr>Bits = bits, Elems = es'\<rparr>))))"

definition Size :: "BitArray option \<Rightarrow> int" where
  "Size bA = (case bA of None \<Rightarrow> 0 | Some b \<Rightarrow> Bits b)"

definition getIndex :: "BitArray \<Rightarrow> int \<Rightarrow> bool result" where
  "getIndex b i =
     (if i \<ge> Bits b then Ok False
      else bind_out (index (Elems b) (i sdiv 64)) (\<lambda>e. Ok (e AND shl1 (i smod 64) > 0)))"

definition GetIndex :: "BitArray option \<Rightarrow> int \<Rightarrow> bool result" where
  "GetIndex bA i = (case bA of None \<Rightarrow> Ok False | Some b \<Rightarrow> getIndex b i)"

definition setIndex :: "BitArray \<Rightarrow> int \<Rightarrow> bool \<Rightarrow> (BitArray \<times> bool) result" where
  "setIndex b i v =
     (if i \<ge> Bits b \<or> i sdiv 64 \<ge> int (length (Elems b)) then Ok (b, False)
      else bind_out (index (Elems b) (i sdiv 64)) (\<lambda>e.
           Ok (b\<lparr>Elems := (Elems b)[nat (i sdiv 64) :=
                 (if v then e OR shl1 (i smod 64) else e AND NOT (shl1 (i smod 64)))]\<rparr>, True)))"

definition SetIndex :: "BitArray option \<Rightarrow> int \<Rightarrow> bool \<Rightarrow> (BitArray option \<times> bool) result" where
  "SetIndex bA i v =
     (case bA of None \<Rightarrow> Ok (None, False)
      | Some b \<Rightarrow> map_out (\<lambda>(b', r). (Some b', r)) (setIndex b i v))"

definition Fill :: "BitArray \<Rightarrow> BitArray result" where
  "Fill b = fold_out (\<lambda>i b. map_out fst (setIndex b i True)) (map int [0..<nat (Bits b)]) b"

text \<open>\<open>AddBitArray\<close> widens the receiver to the longer of the two and ORs the other one in.\<close>

definition AddBitArray :: "BitArray option \<Rightarrow> BitArray option \<Rightarrow> BitArray option" where
  "AddBitArray bA b =
     (case (bA, b) of
        (Some x, Some y) \<Rightarrow>
          (let es = Elems x @ replicate (length (Elems y) - length (Elems x)) 0
           in Some \<lparr>Bits = max (Bits x) (Bits y),
                    Elems = map2 (OR) (take (length (Elems y)) es) (Elems y) @ drop (length (Elems y)) es\<rparr>)
      | _ \<Rightarrow> bA)"

text \<open>The builtin \<open>copy\<close> from the start of a slice.\<close>

definition go_copy :: "'a list \<Rightarrow> 'a list \<Rightarrow> 'a list" where
  "go_copy dst src = take (length dst) src @ drop (length src) dst"

definition copyBits :: "BitArray \<Rightarrow> int \<Rightarrow> BitArray result" where
  "copyBits b bits =
     bind_out (make_elems (numElements bits)) (\<lambda>c. Ok \<lparr>Bits = bits, Elems = go_copy c (Elems b)\<rparr>)"

text \<open>Combining the first \<open>n\<close> elements of the receiver with those of the argument.\<close>

definition zip_first :: "nat \<Rightarrow> (uint64 \<Rightarrow> uint64 \<Rightarrow> uint64) \<Rightarrow> uint64 list \<Rightarrow> uint64 list \<Rightarrow> (uint64 list) result" where
  "zip_first n f cs os =
     fold_out (\<lambda>i cs. bind_out (index cs (int i)) (\<lambda>c. bind_out (index os (int i)) (\<lambda>d. Ok (cs[i := f c d]))))
       [0..<n] cs"

definition BA_Or :: "BitArray option \<Rightarrow> BitArray option \<Rightarrow> (BitArray option) result" where
  "BA_Or bA oA =
     (case (bA, oA) of
        (None, None) \<Rightarrow> Ok None
      | (None, Some y) \<Rightarrow> Ok (Some y)
      | (Some x, None) \<Rightarrow> Ok (Some x)
      | (Some x, Some y) \<Rightarrow>
          bind_out (copyBits x (max (Bits x) (Bits y))) (\<lambda>c.
          bind_out (zip_first (min (length (Elems x)) (length (Elems y))) (OR) (Elems c) (Elems y)) (\<lambda>es.
          Ok (Some (c\<lparr>Elems := es\<rparr>)))))"

definition BA_And :: "BitArray option \<Rightarrow> BitArray option \<Rightarrow> (BitArray option) result" where
  "BA_And bA oA =
     (case (bA, oA) of
        (Some x, Some y) \<Rightarrow>
          bind_out (copyBits x (min (Bits x) (Bits y))) (\<lambda>c.
          bind_out (zip_first (length (Elems c)) (AND) (Elems c) (Elems y)) (\<lambda>es.
          Ok (Some (c\<lparr>Elems := es\<rparr>))))
      | _ \<Rightarrow> Ok None)"

definition BA_Not :: "BitArray option \<Rightarrow> BitArray option" where
  "BA_Not bA = map_option (\<lambda>b. b\<lparr>Elems := map NOT (Elems b)\<rparr>) bA"

definition BA_Sub :: "BitArray option \<Rightarrow> BitArray option \<Rightarrow> (BitArray option) result" where
  "BA_Sub bA oA =
     (case (bA, oA) of
        (Some x, Some y) \<Rightarrow>
          bind_out (copyBits x (Bits x)) (\<lambda>c.
          bind_out (zip_first (min (length (Elems x)) (length (Elems y))) (\<lambda>a b. a AND NOT b) (Elems c) (Elems y)) (\<lambda>es.
          Ok (Some (c\<lparr>Elems := es\<rparr>))))
      | _ \<Rightarrow> Ok None)"

definition IsEmpty :: "BitArray option \<Rightarrow> bool" where
  "IsEmpty bA = (case bA of None \<Rightarrow> True | Some b \<Rightarrow> \<not> (\<exists>e \<in> set (Elems b). e > 0))"

definition IsFull :: "BitArray option \<Rightarrow> bool result" where
  "IsFull bA =
     (case bA of None \<Rightarrow> Ok True
      | Some b \<Rightarrow>
          (if Elems b = [] then Panic ''slice bounds out of range''
           else if \<exists>e \<in> set (butlast (Elems b)). NOT e \<noteq> 0 then Ok False
           else (let lastElemBits = i64 (Bits b + 63) smod 64 + 1
                 in Ok ((last (Elems b) + 1) AND (shl1 lastElemBits - 1) = 0))))"

text \<open>The loops over the bits of one element, and over the elements.\<close>

definition scan_bits :: "uint64 \<Rightarrow> nat \<Rightarrow> int \<times> int list \<Rightarrow> int \<times> int list" where
  "scan_bits e n = fold (\<lambda>j (cur, acc). (cur + 1, if e AND shl1 (int j) > 0 then acc @ [cur] else acc)) [0..<n]"

definition scan_elem :: "uint64 \<Rightarrow> int \<times> int list \<Rightarrow> int \<times> int list" where
  "scan_elem e st = (if e = 0 then (fst st + 64, snd st) else scan_bits e 64 st)"

definition GetTrueIndices :: "BitArray \<Rightarrow> (int list) result" where
  "GetTrueIndices b =
     (if Bits b < 0 then Panic ''makeslice: cap out of range''
      else if Elems b = [] then Panic ''index out of range''
      else let st = fold scan_elem (butlast (Elems b)) (0, []);
               numFinalBits = Bits b - fst st
           in Ok (snd (scan_bits (last (Elems b)) (nat numFinalBits) st)))"

text \<open>\<open>bits.OnesCount64\<close> of the standard library.\<close>

definition OnesCount64 :: "uint64 \<Rightarrow> int" where
  "OnesCount64 e = int (length (filter (bit e) [0..<64]))"

definition getNumTrueIndices :: "BitArray option \<Rightarrow> int" where
  "getNumTrueIndices bA =
     (case bA of None \<Rightarrow> 0
      | Some b \<Rightarrow>
          (if Bits b = 0 \<or> Elems b = [] \<or> int (length (Elems b)) \<noteq> numElements (Bits b) then 0
           else (let cnt = sum_list (map OnesCount64 (butlast (Elems b)));
                     numFinalBits = Bits b - (int (length (Elems b)) - 1) * 64
                 in fold (\<lambda>i c. if last (Elems b) AND shl1 (int i) > 0 then c + 1 else c)
                      [0..<nat numFinalBits] cnt)))"

text \<open>
  The search of \<open>getNthTrueIndex\<close>: \<open>Inl\<close> is an early return of the absolute index, \<open>Inr\<close> the
  running count.
\<close>

fun nth_in_elem :: "uint64 \<Rightarrow> int \<Rightarrow> int \<Rightarrow> nat list \<Rightarrow> int \<Rightarrow> int + int" where
  "nth_in_elem e i n [] cnt = Inr cnt"
| "nth_in_elem e i n (j # js) cnt =
     (if e AND shl1 (int j) \<noteq> 0
      then if cnt = n then Inl (i * 64 + int j) else nth_in_elem e i n js (cnt + 1)
      else nth_in_elem e i n js cnt)"

fun nth_in_elems :: "uint64 list \<Rightarrow> int \<Rightarrow> int \<Rightarrow> int \<Rightarrow> int" where
  "nth_in_elems [] i n cnt = -1"
| "nth_in_elems (e # es) i n cnt =
     (if cnt + OnesCount64 e \<ge> n
      then (case nth_in_elem e i n [0..<64] cnt of
              Inl r \<Rightarrow> r
            | Inr cnt' \<Rightarrow> nth_in_elems es (i + 1) n cnt')
      else nth_in_elems es (i + 1) n (cnt + OnesCount64 e))"

definition getNthTrueIndex :: "BitArray \<Rightarrow> int \<Rightarrow> int" where
  "getNthTrueIndex b n = nth_in_elems (Elems b) 0 n 0"

text \<open>\<open>PickRandom\<close>; \<open>intn\<close> is the random source, \<open>cmtrand.Intn\<close>.\<close>

definition PickRandom :: "(int \<Rightarrow> int) \<Rightarrow> BitArray option \<Rightarrow> int \<times> bool" where
  "PickRandom intn bA =
     (case bA of None \<Rightarrow> (0, False)
      | Some b \<Rightarrow>
          (let num = getNumTrueIndices (Some b)
           in if num = 0 then (0, False)
              else let ix = getNthTrueIndex b (intn num)
                   in if ix = -1 then (0, False) else (ix, True)))"

text \<open>\<open>Update\<close> copies elements into the receiver, never changing its size.\<close>

definition BA_Update :: "BitArray option \<Rightarrow> BitArray option \<Rightarrow> BitArray option" where
  "BA_Update bA oA =
     (case (bA, oA) of (Some x, Some y) \<Rightarrow> Some (x\<lparr>Elems := go_copy (Elems x) (Elems y)\<rparr>) | _ \<Rightarrow> bA)"

definition MarshalJSON :: "BitArray option \<Rightarrow> string result" where
  "MarshalJSON bA =
     (case bA of None \<Rightarrow> Ok ''null''
      | Some b \<Rightarrow>
          map_out (\<lambda>s. CHR 0x22 # s @ [CHR 0x22])
            (fold_out (\<lambda>i s. map_out (\<lambda>v. s @ (if v then ''x'' else ''_'')) (getIndex b i))
               (map int [0..<nat (Bits b)]) []))"

text \<open>The regular expression \<open>\A"([_x]*)"\z\<close>: the submatch between the quotes.\<close>

definition json_match :: "string \<Rightarrow> string option" where
  "json_match s =
     (if length s \<ge> 2 \<and> hd s = CHR 0x22 \<and> last s = CHR 0x22 \<and>
         list_all (\<lambda>c. c = CHR ''_'' \<or> c = CHR ''x'') (butlast (tl s))
      then Some (butlast (tl s)) else None)"

definition UnmarshalJSON :: "string \<Rightarrow> BitArray result" where
  "UnmarshalJSON s =
     (if s = ''null'' then Ok \<lparr>Bits = 0, Elems = []\<rparr>
      else case json_match s of
        None \<Rightarrow> Err (Errorf ''bitArray in JSON should be a string of format'')
      | Some bs \<Rightarrow>
          bind_out (NewBitArray (int (length bs))) (\<lambda>bA2.
          case bA2 of
            None \<Rightarrow> Ok \<lparr>Bits = 0, Elems = []\<rparr>
          | Some b2 \<Rightarrow>
              fold_out (\<lambda>i b. if bs ! i = CHR ''x'' then map_out fst (setIndex b (int i) True) else Ok b)
                [0..<length bs] b2))"

definition ToProto :: "BitArray option \<Rightarrow> BitArray option" where
  "ToProto bA = (case bA of None \<Rightarrow> None | Some b \<Rightarrow> if Elems b = [] then None else Some b)"

text \<open>
  \<open>FromProto\<close>: assigning nil to the receiver inside the method changes nothing the caller sees,
  so the receiver keeps its contents; and a message without elements keeps the old ones.
\<close>

definition FromProto :: "BitArray \<Rightarrow> BitArray option \<Rightarrow> BitArray" where
  "FromProto b p =
     (case p of None \<Rightarrow> b
      | Some pb \<Rightarrow> \<lparr>Bits = Bits pb, Elems = (if Elems pb = [] then Elems b else Elems pb)\<rparr>)"

definition BA_ValidateBasic :: "BitArray option \<Rightarrow> unit result" where
  "BA_ValidateBasic bA =
     (case bA of None \<Rightarrow> Ok ()
      | Some b \<Rightarrow>
          if Bits b < 0 then Err (Errorf ''negative number of bits'')
          else if numElements (Bits b) \<noteq> int (length (Elems b))
          then Err (Errorf ''mismatch between specified number of bits and number of elements'')
          else Ok ())"

section \<open>Well-formed arrays and their meaning\<close>

definition ba_wf :: "BitArray \<Rightarrow> bool" where
  "ba_wf b \<longleftrightarrow> 0 \<le> Bits b \<and> Bits b \<le> MaxInt64 - 63 \<and> int (length (Elems b)) = (Bits b + 63) div 64"

text \<open>
  The bit at any position, zero past the last element. An operation may leave bits set between
  \<open>Bits\<close> and the end of the last element (\<open>Not\<close> does); \<open>ba_clean\<close> says there are none.
\<close>

definition ba_bit :: "BitArray \<Rightarrow> nat \<Rightarrow> bool" where
  "ba_bit b i \<longleftrightarrow> i div 64 < length (Elems b) \<and> bit (Elems b ! (i div 64)) (i mod 64)"

definition ba_clean :: "BitArray \<Rightarrow> bool" where
  "ba_clean b \<longleftrightarrow> (\<forall>i \<ge> nat (Bits b). \<not> ba_bit b i)"

definition ba_bits :: "BitArray \<Rightarrow> bool list" where
  "ba_bits b = map (ba_bit b) [0..<nat (Bits b)]"

lemma length_ba_bits [simp]: "length (ba_bits b) = nat (Bits b)"
  by (simp add: ba_bits_def)

lemma nth_ba_bits [simp]: "i < nat (Bits b) \<Longrightarrow> ba_bits b ! i = ba_bit b i"
  by (simp add: ba_bits_def)

lemma numElements_eq: "0 \<le> n \<Longrightarrow> n \<le> MaxInt64 - 63 \<Longrightarrow> numElements n = (n + 63) div 64"
  by (simp add: numElements_def is_i64_def)

lemma ba_wf_elems: "ba_wf b \<Longrightarrow> length (Elems b) = (nat (Bits b) + 63) div 64"
  unfolding ba_wf_def by linarith

lemma ba_wf_index: "ba_wf b \<Longrightarrow> i < nat (Bits b) \<Longrightarrow> i div 64 < length (Elems b)"
  by (simp add: ba_wf_elems div_less_iff_less_mult)

lemma int_sdiv_64 [simp]: "int i sdiv 64 = int (i div 64)" and int_smod_64 [simp]: "int i smod 64 = int (i mod 64)"
proof -
  show d: "int i sdiv 64 = int (i div 64)" by (simp add: zdiv_int)
  have "int i smod 64 = int i - int i sdiv 64 * 64"
    by (metis minus_sdiv_mult_eq_smod)
  then show "int i smod 64 = int (i mod 64)"
    by (simp add: zmod_int minus_div_mult_eq_mod)
qed

lemma bit_shl1 [simp]: "k < 64 \<Longrightarrow> bit (shl1 (int k)) j \<longleftrightarrow> j = k"
  by (auto simp: shl1_def bit_exp_iff)

lemma shl1_int: "shl1 (int k) = push_bit k 1"
  by (simp add: shl1_def)

lemma and_shl1_pos [simp]: "(e AND shl1 (int k) > 0) \<longleftrightarrow> k < 64 \<and> bit e k" for e :: uint64
proof -
  have "e AND shl1 (int k) = 0 \<longleftrightarrow> \<not> (k < 64 \<and> bit e k)"
    by (auto simp: bit_eq_iff [where ?'a = "64 word"] bit_and_iff shl1_int bit_exp_iff)
  then show ?thesis by (simp add: word_gt_0)
qed

lemma getIndex_wf:
  "ba_wf b \<Longrightarrow> i < nat (Bits b) \<Longrightarrow> getIndex b (int i) = Ok (ba_bits b ! i)"
  by (auto simp: getIndex_def ba_wf_index ba_bit_def)

lemma ba_bit_update:
  assumes "k < length (Elems b)"
  shows "ba_bit (b\<lparr>Elems := (Elems b)[k := e]\<rparr>) i = (if i div 64 = k then bit e (i mod 64) else ba_bit b i)"
  using assms by (auto simp: ba_bit_def nth_list_update)

lemma setIndex_wf:
  assumes wf: "ba_wf b" and i: "i < nat (Bits b)"
  shows "\<exists>b'. setIndex b (int i) v = Ok (b', True) \<and> ba_wf b' \<and> Bits b' = Bits b \<and>
           ba_bits b' = (ba_bits b)[i := v]"
proof -
  define e where "e = (if v then Elems b ! (i div 64) OR shl1 (int (i mod 64))
                       else Elems b ! (i div 64) AND NOT (shl1 (int (i mod 64))))"
  define b' where "b' = b\<lparr>Elems := (Elems b)[i div 64 := e]\<rparr>"
  have k: "i div 64 < length (Elems b)" using wf i by (rule ba_wf_index)
  have "setIndex b (int i) v = Ok (b', True)"
    using i k by (simp add: setIndex_def b'_def e_def)
  moreover have "ba_wf b'" using wf by (simp add: b'_def ba_wf_def)
  moreover have "ba_bits b' = (ba_bits b)[i := v]"
  proof (rule nth_equalityI)
    fix j assume "j < length (ba_bits b')"
    then have j: "j < nat (Bits b)" by (simp add: b'_def)
    have eq: "j div 64 = i div 64 \<Longrightarrow> j mod 64 = i mod 64 \<longleftrightarrow> j = i"
      by (metis div_mult_mod_eq)
    have "ba_bit b' j = (if j = i then v else ba_bit b j)"
    proof (cases "j div 64 = i div 64")
      case True
      have "ba_bit b' j = bit e (j mod 64)"
        using k True by (simp add: b'_def ba_bit_update)
      also have "\<dots> = (if j = i then v else bit (Elems b ! (i div 64)) (j mod 64))"
        using eq [OF True] by (auto simp: e_def bit_or_iff bit_and_iff bit_not_iff)
      finally show ?thesis using True k by (simp add: ba_bit_def)
    next
      case False
      with k show ?thesis by (auto simp: b'_def ba_bit_update)
    qed
    with i j show "ba_bits b' ! j = (ba_bits b)[i := v] ! j"
      by (simp add: b'_def nth_list_update)
  qed (simp add: b'_def)
  ultimately show ?thesis by (auto simp: b'_def)
qed

lemma ba_wfI:
  assumes "0 \<le> Bits b" "Bits b \<le> MaxInt64 - 63" "length (Elems b) = (nat (Bits b) + 63) div 64"
  shows "ba_wf b"
  using assms unfolding ba_wf_def by linarith

lemma ValidateBasic_iff_wf:
  assumes "is_i64 (Bits b)"
  shows "BA_ValidateBasic (Some b) = Ok () \<longleftrightarrow> ba_wf b"
proof (cases "0 \<le> Bits b \<and> Bits b \<le> MaxInt64 - 63")
  case True
  then show ?thesis by (auto simp: BA_ValidateBasic_def ba_wf_def numElements_eq)
next
  case False
  show ?thesis
  proof (cases "Bits b < 0")
    case True
    then show ?thesis by (simp add: BA_ValidateBasic_def ba_wf_def)
  next
    case nonneg: False
    then have big: "MaxInt64 - 63 < Bits b" using False by auto
    have "i64 (Bits b + 63) = Bits b + 63 - 18446744073709551616"
      using big assms by (intro i64_over) (auto simp: is_i64_def)
    then have "numElements (Bits b) < 0"
      using big assms by (simp add: numElements_def is_i64_def signed_divide_int_def sgn_if)
    then show ?thesis using nonneg big by (simp add: BA_ValidateBasic_def ba_wf_def)
  qed
qed

lemma NewBitArray_wf:
  assumes "0 < n" "n \<le> MaxInt64 - 63"
  shows "\<exists>b. NewBitArray n = Ok (Some b) \<and> ba_wf b \<and> ba_clean b \<and> Bits b = n \<and> (\<forall>i. \<not> ba_bit b i)"
proof -
  have "0 \<le> numElements n" using assms by (simp add: numElements_eq pos_imp_zdiv_nonneg_iff)
  then have "NewBitArray n = Ok (Some \<lparr>Bits = n, Elems = replicate (nat ((n + 63) div 64)) 0\<rparr>)"
    using assms by (simp add: NewBitArray_def make_elems_def numElements_eq)
  moreover have "nat ((n + 63) div 64) = (nat n + 63) div 64"
    using assms by (simp add: nat_div_distrib nat_add_distrib)
  ultimately show ?thesis
    using assms by (auto simp: ba_bit_def ba_clean_def intro!: ba_wfI)
qed

lemma zip_first_eq:
  assumes "n \<le> length cs" "n \<le> length os"
  shows "zip_first n f cs os = Ok (map2 f (take n cs) (take n os) @ drop n cs)"
  using assms
proof (induction n)
  case 0
  then show ?case by (simp add: zip_first_def)
next
  case (Suc n)
  note IH = Suc.IH [OF Suc_leD [OF Suc.prems(1)] Suc_leD [OF Suc.prems(2)]]
  let ?c1 = "map2 f (take n cs) (take n os) @ drop n cs"
  have len: "length (map2 f (take n cs) (take n os)) = n" using Suc.prems by simp
  have "drop n cs = cs ! n # drop (Suc n) cs" using Suc.prems by (simp add: Cons_nth_drop_Suc)
  then have "?c1[n := f (?c1 ! n) (os ! n)] =
      map2 f (take (Suc n) cs) (take (Suc n) os) @ drop (Suc n) cs"
    using Suc.prems len by (simp add: list_update_append nth_append take_Suc_conv_app_nth)
  moreover have "n < length ?c1" "n < length os"
    using Suc.prems by simp_all
  ultimately show ?case
    using IH by (simp only: zip_first_def upt_Suc_append fold_out_append fold_out.simps bind_out.simps index_nat le0)
qed

lemma copyBits_wf:
  assumes "ba_wf b" "0 \<le> n" "n \<le> MaxInt64 - 63"
  shows "\<exists>c. copyBits b n = Ok c \<and> ba_wf c \<and> Bits c = n \<and> length (Elems c) = (nat n + 63) div 64 \<and>
           (\<forall>k < (nat n + 63) div 64. Elems c ! k = (if k < length (Elems b) then Elems b ! k else 0))"
proof -
  have "0 \<le> numElements n" using assms by (simp add: numElements_eq pos_imp_zdiv_nonneg_iff)
  moreover have "nat ((n + 63) div 64) = (nat n + 63) div 64"
    using assms by (simp add: nat_div_distrib nat_add_distrib)
  ultimately have c: "copyBits b n =
      Ok \<lparr>Bits = n, Elems = go_copy (replicate ((nat n + 63) div 64) 0) (Elems b)\<rparr>"
    using assms by (simp add: copyBits_def make_elems_def numElements_eq)
  define m where "m = (nat n + 63) div 64"
  have "\<forall>k < m. go_copy (replicate m 0) (Elems b) ! k = (if k < length (Elems b) then Elems b ! k else 0)"
    by (auto simp: go_copy_def nth_append)
  moreover have "length (go_copy (replicate m 0) (Elems b)) = m"
    by (simp add: go_copy_def)
  ultimately show ?thesis
    using assms by (intro exI [of _ "\<lparr>Bits = n, Elems = go_copy (replicate m 0) (Elems b)\<rparr>"])
      (simp add: c ba_wfI flip: m_def)
qed

lemma elems_le:
  "ba_wf x \<Longrightarrow> Bits x \<le> n \<Longrightarrow> length (Elems x) \<le> (nat n + 63) div 64"
  by (simp add: ba_wf_elems div_le_mono)

lemma zip_first_bit:
  assumes "length es = length cs" "n \<le> length cs" "n \<le> length os"
    and "es = map2 f (take n cs) (take n os) @ drop n cs"
  shows "k < length es \<Longrightarrow> es ! k = (if k < n then f (cs ! k) (os ! k) else cs ! k)"
  using assms by (auto simp: nth_append)

theorem BA_Sub_wf:
  assumes x: "ba_wf x" and y: "ba_wf y"
  shows "\<exists>c. BA_Sub (Some x) (Some y) = Ok (Some c) \<and> ba_wf c \<and> Bits c = Bits x \<and>
           (\<forall>i. ba_bit c i \<longleftrightarrow> ba_bit x i \<and> \<not> ba_bit y i)"
proof -
  have r: "0 \<le> Bits x" "Bits x \<le> MaxInt64 - 63" using x by (auto simp: ba_wf_def)
  obtain c where c: "copyBits x (Bits x) = Ok c" "ba_wf c" "Bits c = Bits x"
      "length (Elems c) = length (Elems x)" "\<forall>k < length (Elems x). Elems c ! k = Elems x ! k"
    using copyBits_wf [OF x r] by (auto simp: ba_wf_elems [OF x])
  have eq: "Elems c = Elems x" using c(4,5) by (simp add: nth_equalityI)
  define m where "m = min (length (Elems x)) (length (Elems y))"
  define es where "es = map2 (\<lambda>a b. a AND NOT b) (take m (Elems x)) (take m (Elems y)) @ drop m (Elems x)"
  have z: "zip_first m (\<lambda>a b. a AND NOT b) (Elems c) (Elems y) = Ok es"
    unfolding es_def eq by (rule zip_first_eq) (auto simp: m_def)
  have len: "length es = length (Elems x)" by (simp add: es_def m_def)
  have es: "k < length (Elems x) \<Longrightarrow> es ! k = (if k < m then Elems x ! k AND NOT (Elems y ! k) else Elems x ! k)" for k
    by (rule zip_first_bit [OF len _ _ es_def]) (auto simp: m_def len)
  have "ba_bit (c\<lparr>Elems := es\<rparr>) i \<longleftrightarrow> ba_bit x i \<and> \<not> ba_bit y i" for i
    using es [of "i div 64"]
    by (auto simp: ba_bit_def len m_def bit_and_iff bit_not_iff split: if_splits)
  moreover have "ba_wf (c\<lparr>Elems := es\<rparr>)" using c(2,4) by (simp add: ba_wf_def len)
  moreover have "BA_Sub (Some x) (Some y) = Ok (Some (c\<lparr>Elems := es\<rparr>))"
    using c(1) z by (simp add: BA_Sub_def m_def)
  ultimately show ?thesis using c(3) by (intro exI [of _ "c\<lparr>Elems := es\<rparr>"]) simp
qed

theorem BA_And_wf:
  assumes x: "ba_wf x" and y: "ba_wf y"
  shows "\<exists>c. BA_And (Some x) (Some y) = Ok (Some c) \<and> ba_wf c \<and> Bits c = min (Bits x) (Bits y) \<and>
           (\<forall>i < nat (Bits c). ba_bit c i \<longleftrightarrow> ba_bit x i \<and> ba_bit y i)"
proof -
  define n where "n = min (Bits x) (Bits y)"
  have r: "0 \<le> n" "n \<le> MaxInt64 - 63" using x y by (auto simp: ba_wf_def n_def)
  define m where "m = (nat n + 63) div 64"
  have mx: "m \<le> length (Elems x)" and my: "m \<le> length (Elems y)"
    using x y by (simp_all add: ba_wf_elems m_def n_def div_le_mono)
  obtain c where c: "copyBits x n = Ok c" "ba_wf c" "Bits c = n" "length (Elems c) = m"
      "\<forall>k < m. Elems c ! k = Elems x ! k"
    using copyBits_wf [OF x r] mx by (fastforce simp: m_def)
  define es where "es = map2 (AND) (take m (Elems c)) (take m (Elems y)) @ drop m (Elems c)"
  have z: "zip_first m (AND) (Elems c) (Elems y) = Ok es"
    unfolding es_def by (rule zip_first_eq) (use c(4) my in auto)
  have len: "length es = m" using c(4) my by (simp add: es_def)
  have es: "k < m \<Longrightarrow> es ! k = Elems x ! k AND Elems y ! k" for k
    using zip_first_bit [of es "Elems c" m "Elems y" "(AND)" k] c(4,5) my len by (simp add: es_def)
  have "ba_bit (c\<lparr>Elems := es\<rparr>) i \<longleftrightarrow> ba_bit x i \<and> ba_bit y i" if "i < nat n" for i
  proof -
    have "i div 64 < m" using that by (simp add: m_def div_less_iff_less_mult)
    then show ?thesis using es mx my by (auto simp: ba_bit_def len bit_and_iff)
  qed
  moreover have "ba_wf (c\<lparr>Elems := es\<rparr>)" using c(2,4) by (simp add: ba_wf_def len)
  moreover have "BA_And (Some x) (Some y) = Ok (Some (c\<lparr>Elems := es\<rparr>))"
    using c(1,4) z by (simp add: BA_And_def n_def)
  ultimately show ?thesis using c(3) by (intro exI [of _ "c\<lparr>Elems := es\<rparr>"]) (simp add: n_def)
qed

lemma BA_Or_wf:
  assumes x: "ba_wf x" and y: "ba_wf y"
  shows "\<exists>c. BA_Or (Some x) (Some y) = Ok (Some c) \<and> ba_wf c \<and> Bits c = max (Bits x) (Bits y) \<and>
           (\<forall>i. ba_bit c i \<longleftrightarrow> ba_bit x i \<or> (ba_bit y i \<and> i div 64 < length (Elems x)))"
proof -
  define n where "n = max (Bits x) (Bits y)"
  have r: "0 \<le> n" "n \<le> MaxInt64 - 63" using x y by (auto simp: ba_wf_def n_def)
  define l where "l = (nat n + 63) div 64"
  have lx: "length (Elems x) \<le> l" unfolding l_def by (rule elems_le [OF x]) (simp add: n_def)
  obtain c where c: "copyBits x n = Ok c" "ba_wf c" "Bits c = n" "length (Elems c) = l"
      "\<forall>k < l. Elems c ! k = (if k < length (Elems x) then Elems x ! k else 0)"
    using copyBits_wf [OF x r] by (auto simp: l_def)
  define m where "m = min (length (Elems x)) (length (Elems y))"
  define es where "es = map2 (OR) (take m (Elems c)) (take m (Elems y)) @ drop m (Elems c)"
  have ml: "m \<le> l" "m \<le> length (Elems y)" using lx by (auto simp: m_def)
  have z: "zip_first m (OR) (Elems c) (Elems y) = Ok es"
    unfolding es_def by (rule zip_first_eq) (use c(4) ml in auto)
  have len: "length es = l" using c(4) ml by (simp add: es_def)
  have es: "k < l \<Longrightarrow> es ! k = (if k < m then Elems c ! k OR Elems y ! k else Elems c ! k)" for k
    using zip_first_bit [of es "Elems c" m "Elems y" "(OR)" k] c(4) ml len by (simp add: es_def)
  have "ba_bit (c\<lparr>Elems := es\<rparr>) i \<longleftrightarrow> ba_bit x i \<or> (ba_bit y i \<and> i div 64 < length (Elems x))" for i
    using es [of "i div 64"] c(5) lx
    by (cases "i div 64 < length (Elems x)") (auto simp: ba_bit_def len m_def bit_or_iff split: if_splits)
  moreover have "ba_wf (c\<lparr>Elems := es\<rparr>)" using c(2,4) by (simp add: ba_wf_def len)
  moreover have "BA_Or (Some x) (Some y) = Ok (Some (c\<lparr>Elems := es\<rparr>))"
    using c(1) z by (simp add: BA_Or_def n_def m_def)
  ultimately show ?thesis using c(3) by (intro exI [of _ "c\<lparr>Elems := es\<rparr>"]) (simp add: n_def)
qed

lemma AddBitArray_wf:
  assumes x: "ba_wf x" and y: "ba_wf y"
  shows "\<exists>c. AddBitArray (Some x) (Some y) = Some c \<and> ba_wf c \<and> Bits c = max (Bits x) (Bits y) \<and>
           (\<forall>i. ba_bit c i \<longleftrightarrow> ba_bit x i \<or> ba_bit y i)"
proof -
  define n where "n = max (Bits x) (Bits y)"
  define ly where "ly = length (Elems y)"
  define es where "es = Elems x @ replicate (ly - length (Elems x)) 0"
  define rs where "rs = map2 (OR) (take ly es) (Elems y) @ drop ly es"
  have l: "length es = max (length (Elems x)) ly" by (simp add: es_def)
  have lr: "length rs = length es" by (simp add: rs_def ly_def l)
  have e: "k < length es \<Longrightarrow> es ! k = (if k < length (Elems x) then Elems x ! k else 0)" for k
    by (auto simp: es_def nth_append)
  have r: "k < length es \<Longrightarrow> rs ! k = (if k < ly then es ! k OR Elems y ! k else es ! k)" for k
    using zip_first_bit [of rs es ly "Elems y" "(OR)" k] lr l by (simp add: rs_def ly_def)
  have "AddBitArray (Some x) (Some y) = Some \<lparr>Bits = n, Elems = rs\<rparr>"
    by (simp add: AddBitArray_def rs_def es_def ly_def n_def Let_def)
  moreover have "ba_bit \<lparr>Bits = n, Elems = rs\<rparr> i \<longleftrightarrow> ba_bit x i \<or> ba_bit y i" for i
    using r [of "i div 64"] e [of "i div 64"]
    by (auto simp: ba_bit_def lr l ly_def bit_or_iff less_max_iff_disj split: if_splits)
  moreover have "ba_wf \<lparr>Bits = n, Elems = rs\<rparr>"
  proof (rule ba_wfI)
    show "0 \<le> Bits \<lparr>Bits = n, Elems = rs\<rparr>" "Bits \<lparr>Bits = n, Elems = rs\<rparr> \<le> MaxInt64 - 63"
      using x y by (auto simp: n_def ba_wf_def)
    show "length (Elems \<lparr>Bits = n, Elems = rs\<rparr>) = (nat (Bits \<lparr>Bits = n, Elems = rs\<rparr>) + 63) div 64"
      using x y by (cases "Bits x \<le> Bits y")
        (auto simp: lr l ly_def n_def ba_wf_elems max_def div_le_mono not_le dest: div_le_mono [of _ _ 64] antisym)
  qed
  ultimately show ?thesis by (intro exI [of _ "\<lparr>Bits = n, Elems = rs\<rparr>"]) (simp add: n_def)
qed

subsection \<open>Scanning for the set bits\<close>

declare upt_rec_numeral [simp del]

text \<open>The positions of the set bits among the first \<open>n\<close> bits of a list of elements.\<close>

definition trues :: "uint64 list \<Rightarrow> nat \<Rightarrow> nat list" where
  "trues es n = filter (\<lambda>i. bit (es ! (i div 64)) (i mod 64)) [0..<n]"

definition ba_trues :: "BitArray \<Rightarrow> nat list" where
  "ba_trues b = filter (ba_bit b) [0..<nat (Bits b)]"

lemma trues_snoc:
  assumes "n \<le> 64"
  shows "trues (es @ [e]) (64 * length es + n) =
    trues es (64 * length es) @ map ((+) (64 * length es)) (filter (bit e) [0..<n])"
proof -
  let ?l = "64 * length es"
  let ?p = "\<lambda>i. bit ((es @ [e]) ! (i div 64)) (i mod 64)"
  have u: "[0..<?l + n] = [0..<?l] @ map ((+) ?l) [0..<n]"
    using upt_add_eq_append [of 0 ?l n] upt_shift [of ?l n] by simp
  have l: "filter ?p [0..<?l] = trues es ?l"
    unfolding trues_def by (rule filter_cong [OF refl]) (simp add: nth_append less_mult_imp_div_less mult.commute)
  have r: "filter ?p (map ((+) ?l) [0..<n]) = map ((+) ?l) (filter (bit e) [0..<n])"
    unfolding filter_map
    by (rule arg_cong [where f = "map _"], rule filter_cong [OF refl])
       (use assms in \<open>simp add: nth_append\<close>)
  have "trues (es @ [e]) (?l + n) = filter ?p [0..<?l + n]" by (rule trues_def)
  then show ?thesis by (simp only: u filter_append l r)
qed

lemma trues_Cons:
  "trues (e # es) (64 * Suc (length es)) = filter (bit e) [0..<64] @ map ((+) 64) (trues es (64 * length es))"
proof -
  let ?p = "\<lambda>i. bit ((e # es) ! (i div 64)) (i mod 64)"
  have "[0..<64 * Suc (length es)] = [0..<64] @ map ((+) 64) [0..<64 * length es]"
    using upt_add_eq_append [of 0 64 "64 * length es"] upt_shift [of 64 "64 * length es"] by simp
  moreover have "filter ?p [0..<64] = filter (bit e) [0..<64]"
    by (rule filter_cong) auto
  moreover have "filter ?p (map ((+) 64) [0..<64 * length es]) = map ((+) 64) (trues es (64 * length es))"
    unfolding filter_map trues_def
    by (rule arg_cong [where f = "map _"], rule filter_cong) (auto simp: div_add_self1)
  ultimately show ?thesis by (simp add: trues_def)
qed

lemma scan_bits_eq:
  "n \<le> 64 \<Longrightarrow> scan_bits e n (cur, acc) = (cur + int n, acc @ map (\<lambda>j. cur + int j) (filter (bit e) [0..<n]))"
  by (induction n) (auto simp: scan_bits_def)

lemma scan_elem_eq:
  "scan_elem e (cur, acc) = (cur + 64, acc @ map (\<lambda>j. cur + int j) (filter (bit e) [0..<64]))"
  by (auto simp: scan_elem_def scan_bits_eq)

lemma fold_scan_elem:
  "fold scan_elem es (0, []) = (64 * int (length es), map int (trues es (64 * length es)))"
proof (induction es rule: rev_induct)
  case Nil
  then show ?case by (simp add: trues_def)
next
  case (snoc e es)
  have "trues (es @ [e]) (64 * length (es @ [e])) =
      trues es (64 * length es) @ map ((+) (64 * length es)) (filter (bit e) [0..<64])"
    using trues_snoc [of 64 es e] by (simp add: add.commute)
  with snoc show ?case by (simp add: scan_elem_eq)
qed

lemma sum_OnesCount: "sum_list (map OnesCount64 es) = int (length (trues es (64 * length es)))"
proof (induction es)
  case Nil
  then show ?case by (simp add: trues_def)
next
  case (Cons e es)
  have "trues (e # es) (64 * length (e # es)) = filter (bit e) [0..<64] @ map ((+) 64) (trues es (64 * length es))"
    using trues_Cons [of e es] by simp
  with Cons show ?case by (simp only: list.map sum_list.Cons OnesCount64_def length_append length_map of_nat_add)
qed

lemma ba_wf_split:
  assumes "ba_wf b" "0 < Bits b"
  obtains es e n where "Elems b = es @ [e]" "nat (Bits b) = 64 * length es + n" "0 < n" "n \<le> 64"
proof -
  have l: "length (Elems b) = (nat (Bits b) + 63) div 64" using assms(1) by (rule ba_wf_elems)
  then have "Elems b \<noteq> []" using assms(2) by auto
  then obtain es e where es: "Elems b = es @ [e]" by (metis append_butlast_last_id)
  with l have "Suc (length es) = (nat (Bits b) + 63) div 64" by simp
  then have "64 * length es < nat (Bits b)" "nat (Bits b) \<le> 64 * length es + 64"
    by linarith+
  then show ?thesis by (intro that [OF es, of "nat (Bits b) - 64 * length es"]) auto
qed

lemma ba_trues_eq:
  assumes "ba_wf b" shows "ba_trues b = trues (Elems b) (nat (Bits b))"
  unfolding ba_trues_def trues_def
  by (rule filter_cong) (auto simp: ba_bit_def ba_wf_index [OF assms])

theorem GetTrueIndices_wf:
  assumes "ba_wf b" "0 < Bits b"
  shows "GetTrueIndices b = Ok (map int (ba_trues b))"
proof -
  obtain es e n where s: "Elems b = es @ [e]" "nat (Bits b) = 64 * length es + n" "0 < n" "n \<le> 64"
    using ba_wf_split [OF assms] .
  have "ba_trues b = trues es (64 * length es) @ map ((+) (64 * length es)) (filter (bit e) [0..<n])"
    using ba_trues_eq [OF assms(1)] trues_snoc [OF s(4)] s(1,2) by simp
  moreover have "nat (Bits b - 64 * int (length es)) = n" using s(2) assms(2) by linarith
  ultimately show ?thesis
    using s assms(2) by (simp add: GetTrueIndices_def fold_scan_elem scan_bits_eq Let_def)
qed

lemma getNumTrueIndices_wf:
  assumes "ba_wf b"
  shows "getNumTrueIndices (Some b) = int (length (ba_trues b))"
proof (cases "0 < Bits b")
  case False
  then have "Bits b = 0" using assms by (simp add: ba_wf_def)
  then show ?thesis by (simp add: getNumTrueIndices_def ba_trues_def)
next
  case True
  obtain es e n where s: "Elems b = es @ [e]" "nat (Bits b) = 64 * length es + n" "0 < n" "n \<le> 64"
    using ba_wf_split [OF assms True] .
  have c: "n \<le> 64 \<Longrightarrow> fold (\<lambda>i c. if e AND shl1 (int i) > 0 then c + 1 else c) [0..<n] k =
      k + int (length (filter (bit e) [0..<n]))" for k n
    by (induction n) auto
  have "ba_trues b = trues es (64 * length es) @ map ((+) (64 * length es)) (filter (bit e) [0..<n])"
    using ba_trues_eq [OF assms] trues_snoc [OF s(4)] s(1,2) by simp
  moreover have "nat (Bits b - int (length es) * 64) = n" using s(2) True by linarith
  moreover have "numElements (Bits b) = int (length (Elems b))"
    using assms by (simp add: ba_wf_def numElements_eq)
  ultimately show ?thesis
    using True s(1) c [OF s(4)] by (simp add: getNumTrueIndices_def sum_OnesCount Let_def)
qed

lemma nth_in_elem_eq:
  assumes "cnt \<le> n" "set js \<subseteq> {..<64}"
  shows "nth_in_elem e i n js cnt =
    (if n - cnt < int (length (filter (bit e) js)) then Inl (i * 64 + int (filter (bit e) js ! nat (n - cnt)))
     else Inr (cnt + int (length (filter (bit e) js))))"
  using assms
proof (induction js arbitrary: cnt)
  case Nil
  then show ?case by simp
next
  case (Cons j js)
  have j: "(e AND shl1 (int j) \<noteq> 0) = bit e j"
    using Cons.prems(2) and_shl1_pos [of e j] by (simp add: word_neq_0_conv)
  show ?case
  proof (cases "bit e j \<and> cnt \<noteq> n")
    case True
    then have "nat (n - cnt) = Suc (nat (n - (cnt + 1)))" using Cons.prems(1) by linarith
    then show ?thesis using Cons True j by auto
  next
    case False
    then show ?thesis using Cons j by auto
  qed
qed

lemma nth_in_elems_eq:
  assumes "cnt \<le> n"
  shows "nth_in_elems es i n cnt =
    (let ts = trues es (64 * length es)
     in if n - cnt < int (length ts) then i * 64 + int (ts ! nat (n - cnt)) else -1)"
  using assms
proof (induction es arbitrary: i cnt)
  case Nil
  then show ?case by (simp add: trues_def)
next
  case (Cons e es)
  define h ts where "h = filter (bit e) [0..<64]" and "ts = trues es (64 * length es)"
  have t: "trues (e # es) (64 * length (e # es)) = h @ map ((+) 64) ts"
    using trues_Cons [of e es] by (simp add: h_def ts_def)
  have elem: "nth_in_elem e i n [0..<64] cnt =
      (if n - cnt < int (length h) then Inl (i * 64 + int (h ! nat (n - cnt))) else Inr (cnt + int (length h)))"
    unfolding h_def by (rule nth_in_elem_eq [OF Cons.prems]) auto
  have ones: "OnesCount64 e = int (length h)" by (simp add: OnesCount64_def h_def)
  show ?case
  proof (cases "n - cnt < int (length h)")
    case True
    then have "nat (n - cnt) < length h" using Cons.prems by linarith
    then show ?thesis unfolding t Let_def using True by (simp add: elem ones nth_append)
  next
    case False
    then have c: "cnt + int (length h) \<le> n" by linarith
    have "nth_in_elems (e # es) i n cnt = nth_in_elems es (i + 1) n (cnt + int (length h))"
      using False by (simp add: elem ones)
    moreover have "nat (n - cnt) = length h + nat (n - (cnt + int (length h)))" using c by linarith
    ultimately show ?thesis
      unfolding t Let_def Cons.IH [OF c, unfolded Let_def ts_def [symmetric]]
      using False by (simp add: nth_append)
  qed
qed

lemma ba_trues_prefix:
  assumes "ba_wf b"
  obtains rest where "trues (Elems b) (64 * length (Elems b)) = ba_trues b @ rest"
proof -
  have "nat (Bits b) \<le> 64 * length (Elems b)" using ba_wf_elems [OF assms] by linarith
  then have "[0..<64 * length (Elems b)] = [0..<nat (Bits b)] @ [nat (Bits b)..<64 * length (Elems b)]"
    using upt_add_eq_append [of 0 "nat (Bits b)" "64 * length (Elems b) - nat (Bits b)"] by simp
  then show ?thesis using that by (simp add: ba_trues_eq [OF assms] trues_def)
qed

lemma getNthTrueIndex_wf:
  assumes "ba_wf b" "k < length (ba_trues b)"
  shows "getNthTrueIndex b (int k) = int (ba_trues b ! k)"
proof -
  obtain rest where "trues (Elems b) (64 * length (Elems b)) = ba_trues b @ rest"
    using ba_trues_prefix [OF assms(1)] .
  then show ?thesis
    using assms(2) by (simp add: getNthTrueIndex_def nth_in_elems_eq nth_append)
qed

lemma PickRandom_wf:
  assumes "ba_wf b" "\<And>n. 0 < n \<Longrightarrow> 0 \<le> intn n \<and> intn n < n"
  shows "PickRandom intn (Some b) =
    (if ba_trues b = [] then (0, False)
     else (int (ba_trues b ! nat (intn (int (length (ba_trues b))))), True))"
proof (cases "ba_trues b = []")
  case True
  then show ?thesis using getNumTrueIndices_wf [OF assms(1)] by (simp add: PickRandom_def)
next
  case False
  let ?k = "intn (int (length (ba_trues b)))"
  have k: "0 \<le> ?k" "?k < int (length (ba_trues b))" using assms(2) False by simp_all
  then have "getNthTrueIndex b ?k = int (ba_trues b ! nat ?k)"
    using getNthTrueIndex_wf [OF assms(1), of "nat ?k"] by simp
  then show ?thesis
    using False getNumTrueIndices_wf [OF assms(1)] by (simp add: PickRandom_def)
qed

subsection \<open>Full and empty arrays\<close>

lemma take_bit_Suc_eq_0:
  fixes x :: int
  shows "take_bit k (x + 1) = 0 \<longleftrightarrow> (\<forall>j < k. bit x j)"
proof -
  have "take_bit k (x + 1) = 0 \<longleftrightarrow> (x - (2 ^ k - 1)) mod 2 ^ k = 0"
    using mod_add_self2 [of "x - (2 ^ k - 1)" "2 ^ k :: int"] by (simp add: take_bit_eq_mod)
  also have "\<dots> \<longleftrightarrow> take_bit k x = mask k"
    by (simp add: mod_eq_dvd_iff [symmetric] mod_eq_0_iff_dvd take_bit_eq_mod mask_eq_exp_minus_1 zmod_minus1)
  also have "\<dots> \<longleftrightarrow> (\<forall>j < k. bit x j)"
    by (auto simp: bit_eq_iff bit_take_bit_iff bit_mask_iff)
  finally show ?thesis .
qed

lemma low_ones_iff:
  fixes e :: uint64
  assumes "k \<le> 64"
  shows "(e + 1) AND (shl1 (int k) - 1) = 0 \<longleftrightarrow> (\<forall>j < k. bit e j)"
proof -
  have m: "shl1 (int k) - 1 = mask k" by (simp add: shl1_int mask_eq_exp_minus_1)
  have "take_bit k (e + 1) = 0 \<longleftrightarrow> uint (take_bit k (e + 1)) = 0" by (metis uint_0_iff)
  also have "uint (e + 1) = take_bit 64 (uint e + 1)"
    by (simp add: uint_word_ariths take_bit_eq_mod)
  then have "uint (take_bit k (e + 1)) = take_bit k (uint e + 1)"
    using assms by (simp add: unsigned_take_bit_eq min_def)
  finally show ?thesis
    using assms by (auto simp: m take_bit_eq_mask [symmetric] take_bit_Suc_eq_0 bit_uint_iff)
qed

lemma all_ones_iff: "NOT e = 0 \<longleftrightarrow> (\<forall>j < 64. bit e j)" for e :: uint64
  by (auto simp: bit_eq_iff [where ?'a = "64 word"] bit_not_iff)

lemma last_elem_bits:
  assumes "0 < n" "n \<le> 64"
  shows "int (64 * l + n + 63) smod 64 = int n - 1"
proof -
  have "64 * l + n + 63 = (n - 1) + 64 * (l + 1)" using assms by simp
  then have "(64 * l + n + 63) mod 64 = n - 1" using assms by (simp only: mod_mult_self2 mod_less)
  then show ?thesis using assms by (simp only: int_smod_64 of_nat_diff)
qed

lemma IsFull_wf:
  assumes "ba_wf b" "0 < Bits b"
  shows "IsFull (Some b) = Ok (\<forall>i < nat (Bits b). ba_bit b i)"
proof -
  obtain es e n where s: "Elems b = es @ [e]" "nat (Bits b) = 64 * length es + n" "0 < n" "n \<le> 64"
    using ba_wf_split [OF assms] .
  have "Bits b + 63 = int (64 * length es + n + 63)" using s(2) assms(2) by linarith
  moreover have "i64 (Bits b + 63) = Bits b + 63" using assms by (intro i64_idI) (auto simp: ba_wf_def)
  ultimately have k: "i64 (Bits b + 63) smod 64 + 1 = int n"
    using last_elem_bits [OF s(3,4)] by simp
  have "(\<forall>i < 64 * length es + n. ba_bit b i) \<longleftrightarrow>
      (\<forall>i < 64 * length es. ba_bit b i) \<and> (\<forall>j < n. ba_bit b (64 * length es + j))"
    by (rule all_less_add)
  moreover have "(\<forall>i < 64 * length es. ba_bit b i) \<longleftrightarrow> (\<forall>e \<in> set es. \<forall>j < 64. bit e j)"
    unfolding all_set_conv_all_nth
  proof safe
    fix k j assume *: "\<forall>i < 64 * length es. ba_bit b i" "k < length es" "j < (64::nat)"
    then have "64 * k + j < 64 * length es" by linarith
    with * have "ba_bit b (64 * k + j)" by blast
    with *(2,3) show "bit (es ! k) j" by (simp add: ba_bit_def s(1) nth_append)
  next
    fix i assume *: "\<forall>k < length es. \<forall>j < 64. bit (es ! k) j" "i < 64 * length es"
    then have "i div 64 < length es" by (simp add: less_mult_imp_div_less mult.commute)
    with * show "ba_bit b i" by (simp add: ba_bit_def s(1) nth_append)
  qed
  moreover have "(\<forall>j < n. ba_bit b (64 * length es + j)) \<longleftrightarrow> (\<forall>j < n. bit e j)"
    using s(4) by (simp add: ba_bit_def s(1))
  ultimately show ?thesis
    by (auto simp: IsFull_def s(1,2) k low_ones_iff [OF s(4)] Let_def all_ones_iff)
qed

lemma IsEmpty_clean:
  assumes "ba_wf b" "ba_clean b"
  shows "IsEmpty (Some b) \<longleftrightarrow> ba_trues b = []"
proof -
  have "IsEmpty (Some b) \<longleftrightarrow> (\<forall>i. \<not> ba_bit b i)"
  proof
    assume "IsEmpty (Some b)"
    then show "\<forall>i. \<not> ba_bit b i" by (auto simp: IsEmpty_def ba_bit_def word_gt_0 dest!: nth_mem)
  next
    assume z: "\<forall>i. \<not> ba_bit b i"
    have "Elems b ! k = 0" if "k < length (Elems b)" for k
    proof (rule bit_eqI)
      fix j assume "possible_bit TYPE(64 word) j"
      then have "j < 64" by (simp add: possible_bit_word)
      with z [rule_format, of "64 * k + j"] that show "bit (Elems b ! k) j = bit 0 j"
        by (simp add: ba_bit_def)
    qed
    then show "IsEmpty (Some b)" by (auto simp: IsEmpty_def in_set_conv_nth)
  qed
  then show ?thesis using assms(2) by (auto simp: ba_trues_def filter_empty_conv ba_clean_def)
qed

section \<open>The interface the vote sets rely on\<close>

text \<open>
  What a client of a bit array may assume: reading and writing an index in range never panics,
  and a write changes exactly that index.
\<close>

locale bit_vector =
  fixes inv :: "'b \<Rightarrow> bool"
    and bits :: "'b \<Rightarrow> bool list"
    and get :: "'b \<Rightarrow> int \<Rightarrow> bool result"
    and put :: "'b \<Rightarrow> int \<Rightarrow> bool \<Rightarrow> ('b \<times> bool) result"
  assumes get_law: "inv b \<Longrightarrow> i < length (bits b) \<Longrightarrow> get b (int i) = Ok (bits b ! i)"
    and put_law: "inv b \<Longrightarrow> i < length (bits b) \<Longrightarrow>
          \<exists>b'. put b (int i) v = Ok (b', True) \<and> inv b' \<and> bits b' = (bits b)[i := v]"
begin

lemma get_put:
  assumes "inv b" "i < length (bits b)" "j < length (bits b)"
  shows "\<exists>b'. put b (int i) v = Ok (b', True) \<and> get b' (int j) = Ok (if j = i then v else bits b ! j)"
proof -
  obtain b' where b': "put b (int i) v = Ok (b', True)" "inv b'" "bits b' = (bits b)[i := v]"
    using put_law [OF assms(1,2)] by blast
  then have "get b' (int j) = Ok (if j = i then v else bits b ! j)"
    using assms by (simp add: get_law nth_list_update)
  with b'(1) show ?thesis by blast
qed

text \<open>A loop that writes every index of a range from a function.\<close>

lemma put_all:
  assumes "inv b" "n \<le> length (bits b)"
  shows "\<exists>b'. fold_out (\<lambda>i b. map_out fst (put b i (f (nat i)))) (map int [0..<n]) b = Ok b' \<and> inv b' \<and>
           bits b' = map f [0..<n] @ drop n (bits b)"
  using assms(2)
proof (induction n)
  case 0
  with assms(1) show ?case by simp
next
  case (Suc n)
  then obtain b1 where b1: "fold_out (\<lambda>i b. map_out fst (put b i (f (nat i)))) (map int [0..<n]) b = Ok b1"
    "inv b1" "bits b1 = map f [0..<n] @ drop n (bits b)" by auto
  have n: "n < length (bits b1)" using Suc.prems b1(3) by simp
  obtain b' where b': "put b1 (int n) (f n) = Ok (b', True)" "inv b'" "bits b' = (bits b1)[n := f n]"
    using put_law [OF b1(2) n] by blast
  have "drop n (bits b) = bits b ! n # drop (Suc n) (bits b)"
    using Suc.prems by (simp add: Cons_nth_drop_Suc)
  then have "bits b' = map f [0..<Suc n] @ drop (Suc n) (bits b)"
    using b'(3) b1(3) by (simp add: list_update_append)
  with b1(1) b' show ?case by simp
qed

end

interpretation ba: bit_vector ba_wf ba_bits getIndex setIndex
  by unfold_locales (use getIndex_wf setIndex_wf in \<open>fastforce simp: length_ba_bits\<close>)+

section \<open>Filling, and the JSON form\<close>

lemma Fill_wf:
  assumes "ba_wf b"
  shows "\<exists>b'. Fill b = Ok b' \<and> ba_wf b' \<and> ba_bits b' = replicate (nat (Bits b)) True"
  using ba.put_all [OF assms, of "nat (Bits b)" "\<lambda>_. True"]
  by (simp add: Fill_def map_replicate_trivial map_replicate_const)

lemma MarshalJSON_wf:
  assumes "ba_wf b"
  shows "MarshalJSON (Some b) =
    Ok (CHR 0x22 # map (\<lambda>v. if v then CHR ''x'' else CHR ''_'') (ba_bits b) @ [CHR 0x22])"
proof -
  have "fold_out (\<lambda>i s. map_out (\<lambda>v. s @ (if v then ''x'' else ''_'')) (getIndex b i)) (map int [0..<n]) [] =
      Ok (map (\<lambda>v. if v then CHR ''x'' else CHR ''_'') (take n (ba_bits b)))" if "n \<le> nat (Bits b)" for n
    using that
  proof (induction n)
    case (Suc n)
    then show ?case by (simp add: ba.get_law [OF assms] take_Suc_conv_app_nth)
  qed simp
  from this [of "nat (Bits b)"] show ?thesis by (simp add: MarshalJSON_def)
qed

lemma UnmarshalJSON_match:
  assumes "json_match s = Some cs" "s \<noteq> ''null''" "cs \<noteq> []" "int (length cs) \<le> MaxInt64 - 63"
  shows "\<exists>b. UnmarshalJSON s = Ok b \<and> ba_wf b \<and> ba_bits b = map (\<lambda>c. c = CHR ''x'') cs"
proof -
  obtain b0 where b0: "NewBitArray (int (length cs)) = Ok (Some b0)" "ba_wf b0" "Bits b0 = int (length cs)"
      "\<forall>i. \<not> ba_bit b0 i"
    using NewBitArray_wf [of "int (length cs)"] assms(3,4) by auto
  let ?f = "\<lambda>i b. if cs ! i = CHR ''x'' then map_out fst (setIndex b (int i) True) else Ok b"
  have "\<exists>b. fold_out ?f [0..<n] b0 = Ok b \<and> ba_wf b \<and>
      ba_bits b = map (\<lambda>c. c = CHR ''x'') (take n cs) @ replicate (length cs - n) False" if "n \<le> length cs" for n
    using that
  proof (induction n)
    case 0
    have "ba_bits b0 = replicate (length cs) False"
      by (rule nth_equalityI) (simp_all add: b0(3,4))
    then show ?case using b0(2) by simp
  next
    case (Suc n)
    then obtain b where b: "fold_out ?f [0..<n] b0 = Ok b" "ba_wf b"
      "ba_bits b = map (\<lambda>c. c = CHR ''x'') (take n cs) @ replicate (length cs - n) False" by auto
    have n: "n < length (ba_bits b)" using Suc.prems b(3) by simp
    have r: "replicate (length cs - n) False = False # replicate (length cs - Suc n) False"
      using Suc.prems by (metis Suc_diff_Suc Suc_le_eq replicate_Suc)
    have t: "take (Suc n) cs = take n cs @ [cs ! n]" using Suc.prems by (simp add: take_Suc_conv_app_nth)
    obtain b' where b': "setIndex b (int n) True = Ok (b', True)" "ba_wf b'" "ba_bits b' = (ba_bits b)[n := True]"
      using ba.put_law [OF b(2) n] by blast
    show ?case
    proof (cases "cs ! n = CHR ''x''")
      case True
      have "ba_bits b' = map (\<lambda>c. c = CHR ''x'') (take (Suc n) cs) @ replicate (length cs - Suc n) False"
        using True Suc.prems by (simp add: b'(3) b(3) r t list_update_append)
      then show ?thesis using True b(1) b' by simp
    next
      case False
      have "ba_bits b = map (\<lambda>c. c = CHR ''x'') (take (Suc n) cs) @ replicate (length cs - Suc n) False"
        using False by (simp add: b(3) r t)
      then show ?thesis using False b by simp
    qed
  qed
  from this [of "length cs"] show ?thesis
    using assms(1,2) b0(1) by (simp add: UnmarshalJSON_def)
qed

lemma json_roundtrip:
  assumes "ba_wf b" "0 < Bits b"
  shows "\<exists>s b'. MarshalJSON (Some b) = Ok s \<and> UnmarshalJSON s = Ok b' \<and> ba_wf b' \<and> ba_bits b' = ba_bits b"
proof -
  define cs where "cs = map (\<lambda>v. if v then CHR ''x'' else CHR ''_'') (ba_bits b)"
  define s where "s = CHR 0x22 # cs @ [CHR 0x22]"
  have "json_match s = Some cs" by (auto simp: json_match_def s_def cs_def list_all_iff butlast_append)
  moreover have "s \<noteq> ''null''" by (simp add: s_def)
  moreover have "cs \<noteq> []" "int (length cs) \<le> MaxInt64 - 63"
    using assms by (auto simp: cs_def ba_bits_def ba_wf_def)
  ultimately obtain b' where "UnmarshalJSON s = Ok b'" "ba_wf b'" "ba_bits b' = map (\<lambda>c. c = CHR ''x'') cs"
    using UnmarshalJSON_match by blast
  moreover have "map (\<lambda>c. c = CHR ''x'') cs = ba_bits b"
    by (rule nth_equalityI) (auto simp: cs_def)
  ultimately show ?thesis
    using MarshalJSON_wf [OF assms(1)] by (auto simp: s_def cs_def)
qed

section \<open>Properties\<close>

text \<open>C37. \<open>PickRandom\<close> reports success exactly when a bit is set within the array, and then the
  index it returns is in range and set, for every random source that stays in its bounds.\<close>

theorem pick_random_correct:
  assumes "ba_wf b" "\<And>n. 0 < n \<Longrightarrow> 0 \<le> intn n \<and> intn n < n"
  shows "case PickRandom intn (Some b) of (i, ok) \<Rightarrow>
    (ok \<longleftrightarrow> True \<in> set (ba_bits b)) \<and> (ok \<longrightarrow> 0 \<le> i \<and> i < Bits b \<and> getIndex b i = Ok True)"
proof (cases "ba_trues b = []")
  case True
  then show ?thesis using PickRandom_wf [OF assms] by (auto simp: ba_trues_def ba_bits_def filter_empty_conv)
next
  case False
  define i where "i = ba_trues b ! nat (intn (int (length (ba_trues b))))"
  have "i \<in> set (ba_trues b)" unfolding i_def using False assms(2) [of "int (length (ba_trues b))"] by (intro nth_mem) auto
  then have i: "i < nat (Bits b)" "ba_bit b i" by (auto simp: ba_trues_def)
  then have "getIndex b (int i) = Ok True" using getIndex_wf [OF assms(1) i(1)] by simp
  moreover have "True \<in> set (ba_bits b)" using i by (auto simp: ba_bits_def)
  ultimately show ?thesis using PickRandom_wf [OF assms] False i by (simp flip: i_def)
qed

theorem pick_random_correct_witness:
  "case PickRandom (\<lambda>n. n - 1) (Some \<lparr>Bits = 70, Elems = [5, 2]\<rparr>) of (i, ok) \<Rightarrow>
    (ok \<longleftrightarrow> True \<in> set (ba_bits \<lparr>Bits = 70, Elems = [5, 2]\<rparr>)) \<and>
    (ok \<longrightarrow> 0 \<le> i \<and> i < 70 \<and> getIndex \<lparr>Bits = 70, Elems = [5, 2]\<rparr> i = Ok True)"
  using pick_random_correct [of "\<lparr>Bits = 70, Elems = [5, 2]\<rparr>" "\<lambda>n. n - 1"] by (simp add: ba_wf_def)

text \<open>C38. The union and the difference of two valid bit arrays are computed bit by bit, with the
  shorter array padded by zeros; neither operation panics, and both results are valid again.\<close>

theorem bit_array_algebra:
  assumes "ba_wf x" "ba_wf y"
  shows "(\<exists>c. AddBitArray (Some x) (Some y) = Some c \<and> ba_wf c \<and> Bits c = max (Bits x) (Bits y) \<and>
            (\<forall>i. ba_bit c i \<longleftrightarrow> ba_bit x i \<or> ba_bit y i)) \<and>
         (\<exists>c. BA_Sub (Some x) (Some y) = Ok (Some c) \<and> ba_wf c \<and> Bits c = Bits x \<and>
            (\<forall>i. ba_bit c i \<longleftrightarrow> ba_bit x i \<and> \<not> ba_bit y i))"
  using AddBitArray_wf [OF assms] BA_Sub_wf [OF assms] by blast

theorem bit_array_algebra_witness:
  "\<exists>c. BA_Sub (Some \<lparr>Bits = 70, Elems = [5, 2]\<rparr>) (Some \<lparr>Bits = 3, Elems = [4]\<rparr>) = Ok (Some c) \<and> Bits c = 70"
  using bit_array_algebra [of "\<lparr>Bits = 70, Elems = [5, 2]\<rparr>" "\<lparr>Bits = 3, Elems = [4]\<rparr>"]
  by (auto simp: ba_wf_def)

text \<open>The JSON form of a non-empty valid bit array parses back to an array with the same
  bits.\<close>

theorem bit_array_json:
  assumes "ba_wf b" "0 < Bits b"
  shows "\<exists>s b'. MarshalJSON (Some b) = Ok s \<and> UnmarshalJSON s = Ok b' \<and> ba_wf b' \<and> ba_bits b' = ba_bits b"
  using assms by (rule json_roundtrip)

theorem bit_array_json_witness:
  "\<exists>s b'. MarshalJSON (Some \<lparr>Bits = 3, Elems = [5]\<rparr>) = Ok s \<and> UnmarshalJSON s = Ok b' \<and>
     ba_wf b' \<and> ba_bits b' = ba_bits \<lparr>Bits = 3, Elems = [5]\<rparr>"
  using bit_array_json [of "\<lparr>Bits = 3, Elems = [5]\<rparr>"] by (simp add: ba_wf_def)

text \<open>
  \<open>Or\<close> is documented to pad the shorter array on the right. It combines only the elements both
  arrays have, so what the argument sets beyond the receiver's last element is lost.
\<close>

theorem Or_drops_longer_argument:
  "\<exists>c. BA_Or (Some \<lparr>Bits = 1, Elems = [1]\<rparr>) (Some \<lparr>Bits = 65, Elems = [0, 1]\<rparr>) = Ok (Some c) \<and>
     Bits c = 65 \<and> getIndex \<lparr>Bits = 65, Elems = [0, 1]\<rparr> 64 = Ok True \<and> getIndex c 64 = Ok False"
proof -
  let ?x = "\<lparr>Bits = 1, Elems = [1]\<rparr>" and ?y = "\<lparr>Bits = 65, Elems = [0, 1]\<rparr>"
  have wf: "ba_wf ?x" "ba_wf ?y" by (simp_all add: ba_wf_def)
  obtain c where c: "BA_Or (Some ?x) (Some ?y) = Ok (Some c)" "ba_wf c" "Bits c = 65"
      "\<forall>i. ba_bit c i \<longleftrightarrow> ba_bit ?x i \<or> (ba_bit ?y i \<and> i div 64 < 1)"
    using BA_Or_wf [OF wf] by auto
  have "\<not> ba_bit ?x 64" by (simp add: ba_bit_def)
  then have "\<not> ba_bit c 64" using c(4) by auto
  then have "getIndex c 64 = Ok False" using getIndex_wf [OF c(2), of 64] c(3) by simp
  moreover have "getIndex ?y 64 = Ok True"
    using getIndex_wf [OF wf(2), of 64] by (simp add: ba_bit_def)
  ultimately show ?thesis using c(1,3) by blast
qed

text \<open>
  \<open>Not\<close> also flips the unused bits of the last element, so \<open>IsEmpty\<close> of a complement may be false
  although all the bits of the array are zero.
\<close>

theorem Not_leaves_padding:
  "\<exists>c. BA_Not (Some \<lparr>Bits = 1, Elems = [1]\<rparr>) = Some c \<and> ba_bits c = [False] \<and> \<not> IsEmpty (Some c)"
  by (simp add: BA_Not_def IsEmpty_def ba_bits_def ba_bit_def bit_not_iff word_gt_0 upt_rec)

end
