(* ===== verification/SafeMath.thy ===== *)
theory SafeMath
  imports Prelude
begin

text \<open>
  Overflow-checked arithmetic: \<open>libs/math/safemath.go\<close>, \<open>libs/math/fraction.go\<close> and the
  \<open>safeAdd\<close> family of \<open>types/validator_set.go\<close>. Every sum, difference and product is written with
  the wrap-around of the machine type, also the negations inside \<open>safeMul\<close>, and the lemmas say
  when the checks are exact.
\<close>

section \<open>The 64-bit operations of the validator set\<close>

definition safeAdd :: "int \<Rightarrow> int \<Rightarrow> int \<times> bool" where
  "safeAdd a b =
     (if b > 0 \<and> a > i64 (MaxInt64 - b) then (-1, True)
      else if b < 0 \<and> a < i64 (MinInt64 - b) then (-1, True)
      else (i64 (a + b), False))"

definition safeSub :: "int \<Rightarrow> int \<Rightarrow> int \<times> bool" where
  "safeSub a b =
     (if b > 0 \<and> a < i64 (MinInt64 + b) then (-1, True)
      else if b < 0 \<and> a > i64 (MaxInt64 + b) then (-1, True)
      else (i64 (a - b), False))"

definition safeAddClip :: "int \<Rightarrow> int \<Rightarrow> int" where
  "safeAddClip a b =
     (case safeAdd a b of (c, overflow) \<Rightarrow>
        if overflow then if b < 0 then MinInt64 else MaxInt64 else c)"

definition safeSubClip :: "int \<Rightarrow> int \<Rightarrow> int" where
  "safeSubClip a b =
     (case safeSub a b of (c, overflow) \<Rightarrow>
        if overflow then if b > 0 then MinInt64 else MaxInt64 else c)"

definition safeMul :: "int \<Rightarrow> int \<Rightarrow> int \<times> bool" where
  "safeMul a b =
     (if a = 0 \<or> b = 0 then (0, False)
      else let absOfB = (if b < 0 then i64 (- b) else b);
               absOfA = (if a < 0 then i64 (- a) else a)
           in if absOfA > i64 (MaxInt64 sdiv absOfB) then (0, True) else (i64 (a * b), False))"

section \<open>The 32-bit and 8-bit operations\<close>

definition SafeAddInt32 :: "int \<Rightarrow> int \<Rightarrow> int result" where
  "SafeAddInt32 a b =
     (if b > 0 \<and> a > i32 (MaxInt32 - b) then Panic ''int32 overflow''
      else if b < 0 \<and> a < i32 (MinInt32 - b) then Panic ''int32 overflow''
      else Ok (i32 (a + b)))"

definition SafeSubInt32 :: "int \<Rightarrow> int \<Rightarrow> int result" where
  "SafeSubInt32 a b =
     (if b > 0 \<and> a < i32 (MinInt32 + b) then Panic ''int32 overflow''
      else if b < 0 \<and> a > i32 (MaxInt32 + b) then Panic ''int32 overflow''
      else Ok (i32 (a - b)))"

definition SafeConvertInt32 :: "int \<Rightarrow> int result" where
  "SafeConvertInt32 a =
     (if a > MaxInt32 then Panic ''int32 overflow''
      else if a < MinInt32 then Panic ''int32 overflow''
      else Ok (i32 a))"

definition SafeConvertUint8 :: "int \<Rightarrow> byte result" where
  "SafeConvertUint8 a =
     (if a > 255 then Err (Errorf ''uint8 overflow'')
      else if a < 0 then Err (Errorf ''uint8 overflow'')
      else Ok (of_int a))"

definition SafeConvertInt8 :: "int \<Rightarrow> int result" where
  "SafeConvertInt8 a =
     (if a > 127 then Err (Errorf ''int8 overflow'')
      else if a < - 128 then Err (Errorf ''int8 overflow'')
      else Ok ((a + 128) mod 256 - 128))"

section \<open>Fractions\<close>

record Fraction =
  Numerator :: uint64
  Denominator :: uint64

text \<open>The decimal form of an unsigned integer (\<open>%d\<close>), and \<open>strconv.ParseUint(s, 10, 64)\<close>.\<close>

definition digit :: "nat \<Rightarrow> char" where
  "digit d = char_of (48 + d)"

fun fmt_uint :: "nat \<Rightarrow> string" where
  "fmt_uint n = (if n < 10 then [digit n] else fmt_uint (n div 10) @ [digit (n mod 10)])"

declare fmt_uint.simps [simp del]

definition parse_digit :: "char \<Rightarrow> nat \<Rightarrow> nat result" where
  "parse_digit c n =
     (let d = of_char c :: nat
      in if \<not> (48 \<le> d \<and> d \<le> 57) then Err (Errorf ''invalid syntax'')
         else if n * 10 + (d - 48) > 18446744073709551615 then Err (Errorf ''value out of range'')
         else Ok (n * 10 + (d - 48)))"

definition ParseUint :: "string \<Rightarrow> uint64 result" where
  "ParseUint s =
     (if s = [] then Err (Errorf ''invalid syntax'')
      else map_out of_nat (fold_out parse_digit s 0))"

definition Fraction_String :: "Fraction \<Rightarrow> string" where
  "Fraction_String fr = fmt_uint (unat (Numerator fr)) @ ''/'' @ fmt_uint (unat (Denominator fr))"

definition ParseFraction :: "string \<Rightarrow> Fraction result" where
  "ParseFraction f =
     (case split_on CHR ''/'' f of
        [o0, o1] \<Rightarrow>
          bind_out (map_err (Wrapf ''incorrect formatting, err'') (ParseUint o0)) (\<lambda>numerator.
          bind_out (map_err (Wrapf ''incorrect formatting, err'') (ParseUint o1)) (\<lambda>denominator.
          if denominator = 0 then Err (Errorf ''denominator can't be 0'')
          else if uint numerator > MaxInt64 \<or> uint denominator > MaxInt64
          then Err (Errorf ''value overflow'')
          else Ok \<lparr>Numerator = numerator, Denominator = denominator\<rparr>))
      | _ \<Rightarrow> Err (Errorf ''incorrect formating: should have a single slash''))"

section \<open>The checks are exact\<close>

lemma safeAdd_eq:
  assumes "is_i64 a" "is_i64 b"
  shows "safeAdd a b = (if is_i64 (a + b) then (a + b, False) else (-1, True))"
proof -
  have "b > 0 \<Longrightarrow> i64 (MaxInt64 - b) = MaxInt64 - b" "b < 0 \<Longrightarrow> i64 (MinInt64 - b) = MinInt64 - b"
    using assms by (auto intro!: i64_idI simp: is_i64_def)
  then show ?thesis using assms by (auto simp: safeAdd_def is_i64_def i64_idI)
qed

lemma safeSub_eq:
  assumes "is_i64 a" "is_i64 b"
  shows "safeSub a b = (if is_i64 (a - b) then (a - b, False) else (-1, True))"
proof -
  have "b > 0 \<Longrightarrow> i64 (MinInt64 + b) = MinInt64 + b" "b < 0 \<Longrightarrow> i64 (MaxInt64 + b) = MaxInt64 + b"
    using assms by (auto intro!: i64_idI simp: is_i64_def)
  then show ?thesis using assms by (auto simp: safeSub_def is_i64_def i64_idI)
qed

text \<open>Clipped addition is addition followed by saturation.\<close>

definition clip :: "int \<Rightarrow> int" where
  "clip x = max MinInt64 (min MaxInt64 x)"

lemma clip_id [simp]: "is_i64 x \<Longrightarrow> clip x = x"
  by (simp add: clip_def is_i64_def)

lemma is_i64_clip [simp]: "is_i64 (clip x)"
  by (auto simp: clip_def is_i64_def)

lemma clip_mono: "x \<le> y \<Longrightarrow> clip x \<le> clip y"
  by (auto simp: clip_def)

lemma safeAddClip_eq: "is_i64 a \<Longrightarrow> is_i64 b \<Longrightarrow> safeAddClip a b = clip (a + b)"
  by (auto simp: safeAddClip_def safeAdd_eq clip_def is_i64_def)

lemma safeSubClip_eq: "is_i64 a \<Longrightarrow> is_i64 b \<Longrightarrow> safeSubClip a b = clip (a - b)"
  by (auto simp: safeSubClip_def safeSub_eq clip_def is_i64_def)

lemma safeMul_eq:
  assumes "\<bar>a\<bar> \<le> MaxInt64" "\<bar>b\<bar> \<le> MaxInt64"
  shows "safeMul a b = (if \<bar>a * b\<bar> \<le> MaxInt64 then (a * b, False) else (0, True))"
proof (cases "a = 0 \<or> b = 0")
  case True
  then show ?thesis by (auto simp: safeMul_def)
next
  case False
  have n: "(if a < 0 then i64 (- a) else a) = \<bar>a\<bar>" "(if b < 0 then i64 (- b) else b) = \<bar>b\<bar>"
    using assms by (auto intro!: i64_idI)
  have "i64 (MaxInt64 sdiv \<bar>b\<bar>) = MaxInt64 sdiv \<bar>b\<bar>"
    using sdiv_abs_le [of MaxInt64 "\<bar>b\<bar>"] by (intro i64_idI) (simp_all only: abs_le_iff, simp_all)
  then have d: "i64 (MaxInt64 sdiv \<bar>b\<bar>) = MaxInt64 div \<bar>b\<bar>" using False by simp
  have "\<bar>a\<bar> > MaxInt64 div \<bar>b\<bar> \<longleftrightarrow> \<bar>a * b\<bar> > MaxInt64"
    using False le_div_iff_int [of "\<bar>b\<bar>" "\<bar>a\<bar>" MaxInt64] by (simp add: abs_mult flip: not_le)
  moreover have "\<bar>a * b\<bar> \<le> MaxInt64 \<Longrightarrow> i64 (a * b) = a * b" by (rule i64_idI) auto
  ultimately show ?thesis using False unfolding safeMul_def Let_def n d by auto
qed

text \<open>
  The most negative integer escapes the check: its negation wraps to itself, which is below every
  bound, so the product is returned as if it had not overflowed.
\<close>

lemma i64_Min_mult: "i64 (MinInt64 * b) = (if even b then 0 else MinInt64)"
proof (cases "even b")
  case True
  then obtain k where "b = 2 * k" by blast
  then have "MinInt64 * b + 9223372036854775808 = 9223372036854775808 + 18446744073709551616 * (- k)" by simp
  then show ?thesis using True unfolding i64_def by (simp only: mod_mult_self2) simp
next
  case False
  then obtain k where "b = 2 * k + 1" by (elim oddE)
  then have "MinInt64 * b + 9223372036854775808 = 0 + 18446744073709551616 * (- k)" by simp
  then show ?thesis using False unfolding i64_def by (simp only: mod_mult_self2) simp
qed

lemma safeMul_Min:
  assumes "is_i64 a" "is_i64 b"
  shows "safeMul MinInt64 b = (if even b then 0 else MinInt64, False)"
    "a \<noteq> 0 \<Longrightarrow> a \<noteq> MinInt64 \<Longrightarrow> safeMul a MinInt64 = (0, True)"
proof -
  have m: "i64 (- MinInt64) = MinInt64" by (simp add: i64_def)
  show "safeMul MinInt64 b = (if even b then 0 else MinInt64, False)"
  proof (cases "b = 0")
    case False
    define d where "d = (if b < 0 then i64 (- b) else b)"
    have "\<not> MinInt64 > i64 (MaxInt64 sdiv d)" using is_i64_i64 [of "MaxInt64 sdiv d"] by (simp add: is_i64_def del: is_i64_i64)
    then show ?thesis using False m i64_Min_mult [of b] by (simp add: safeMul_def d_def Let_def)
  qed (simp add: safeMul_def)
  have z: "i64 (MaxInt64 sdiv MinInt64) = 0" by (simp add: i64_def signed_divide_int_def)
  assume "a \<noteq> 0" "a \<noteq> MinInt64"
  then show "safeMul a MinInt64 = (0, True)"
    using assms m z by (auto simp: safeMul_def Let_def is_i64_def i64_idI)
qed

lemma SafeAddInt32_eq:
  assumes "is_i32 a" "is_i32 b"
  shows "SafeAddInt32 a b = (if is_i32 (a + b) then Ok (a + b) else Panic ''int32 overflow'')"
proof -
  have "b > 0 \<Longrightarrow> i32 (MaxInt32 - b) = MaxInt32 - b" "b < 0 \<Longrightarrow> i32 (MinInt32 - b) = MinInt32 - b"
    using assms by (auto intro!: i32_idI simp: is_i32_def)
  then show ?thesis using assms by (auto simp: SafeAddInt32_def is_i32_def i32_idI)
qed

lemma SafeSubInt32_eq:
  assumes "is_i32 a" "is_i32 b"
  shows "SafeSubInt32 a b = (if is_i32 (a - b) then Ok (a - b) else Panic ''int32 overflow'')"
proof -
  have "b > 0 \<Longrightarrow> i32 (MinInt32 + b) = MinInt32 + b" "b < 0 \<Longrightarrow> i32 (MaxInt32 + b) = MaxInt32 + b"
    using assms by (auto intro!: i32_idI simp: is_i32_def)
  then show ?thesis using assms by (auto simp: SafeSubInt32_def is_i32_def i32_idI)
qed

lemma SafeConvert_eq:
  "SafeConvertInt32 a = (if is_i32 a then Ok a else Panic ''int32 overflow'')"
  "is_Ok (SafeConvertUint8 a) \<longleftrightarrow> 0 \<le> a \<and> a \<le> 255"
  "SafeConvertInt8 a = (if - 128 \<le> a \<and> a \<le> 127 then Ok a else Err (Errorf ''int8 overflow''))"
  by (auto simp: SafeConvertInt32_def SafeConvertUint8_def SafeConvertInt8_def is_i32_def)

section \<open>Parsing a printed fraction\<close>

lemma of_char_digit: "d < 10 \<Longrightarrow> of_char (digit d) = (48 + d :: nat)"
  by (simp add: digit_def of_char_of)

lemma parse_digit_digit:
  "d < 10 \<Longrightarrow> n * 10 + d \<le> 18446744073709551615 \<Longrightarrow> parse_digit (digit d) n = Ok (n * 10 + d)"
  by (simp add: parse_digit_def of_char_digit)

lemma fmt_uint_not_Nil [simp]: "fmt_uint n \<noteq> []"
  by (subst fmt_uint.simps) simp

lemma parse_fmt_uint:
  "n \<le> 18446744073709551615 \<Longrightarrow> fold_out parse_digit (fmt_uint n) 0 = Ok n"
proof (induction n rule: fmt_uint.induct)
  case (1 n)
  show ?case
  proof (cases "n < 10")
    case True
    then show ?thesis using parse_digit_digit [of n 0] by (simp add: fmt_uint.simps [of n])
  next
    case False
    have "fold_out parse_digit (fmt_uint (n div 10)) 0 = Ok (n div 10)"
      using 1 False by (simp add: div_le_dividend le_trans [of "n div 10" n])
    moreover have "parse_digit (digit (n mod 10)) (n div 10) = Ok n"
      using parse_digit_digit [of "n mod 10" "n div 10"] 1(2) by simp
    ultimately show ?thesis using False by (simp add: fmt_uint.simps [of n])
  qed
qed

lemma ParseUint_fmt: "ParseUint (fmt_uint (unat w)) = Ok w"
proof -
  have "unat w \<le> 18446744073709551615" using unsigned_less [of w, where ?'a = nat] by simp
  then show ?thesis by (simp add: ParseUint_def parse_fmt_uint)
qed

lemma digit_not_slash: "d < 10 \<Longrightarrow> digit d \<noteq> CHR ''/''"
proof
  assume d: "d < 10" and "digit d = CHR ''/''"
  then have "of_char (digit d) = (47 :: nat)" by simp
  with of_char_digit [OF d] show False by simp
qed

lemma fmt_uint_no_slash: "CHR ''/'' \<notin> set (fmt_uint n)"
proof (induction n rule: fmt_uint.induct)
  case (1 n)
  then show ?case
    using digit_not_slash [of n] digit_not_slash [of "n mod 10"] by (subst fmt_uint.simps) auto
qed

lemma ParseFraction_String:
  assumes "Denominator fr \<noteq> 0"
  shows "ParseFraction (Fraction_String fr) =
    (if uint (Numerator fr) \<le> MaxInt64 \<and> uint (Denominator fr) \<le> MaxInt64 then Ok fr
     else Err (Errorf ''value overflow''))"
  using assms
  by (simp add: ParseFraction_def Fraction_String_def split_on_append split_on_none fmt_uint_no_slash
      ParseUint_fmt not_le)

lemma ParseFraction_ok:
  assumes "ParseFraction s = Ok fr"
  shows "Denominator fr \<noteq> 0 \<and> uint (Numerator fr) \<le> MaxInt64 \<and> uint (Denominator fr) \<le> MaxInt64"
  using assms by (auto simp: ParseFraction_def split: list.splits if_splits)

section \<open>Properties\<close>

text \<open>C39. What the overflow-checked 64-bit operations do on all operands. \<open>safeAdd\<close> and \<open>safeSub\<close>
  return the true result and report overflow exactly when it leaves the range, and the clipped
  versions saturate. \<open>safeMul\<close> returns the product when its magnitude is at most \<open>MaxInt64\<close> and
  reports overflow otherwise, a product of exactly \<open>MinInt64\<close> included, unless the first operand is
  \<open>MinInt64\<close>: then it reports nothing and returns the wrapped product, which is 0 for an even second
  operand.\<close>

theorem checked_arithmetic:
  assumes "is_i64 a" "is_i64 b"
  shows "safeAdd a b = (if is_i64 (a + b) then (a + b, False) else (-1, True)) \<and>
    safeSub a b = (if is_i64 (a - b) then (a - b, False) else (-1, True)) \<and>
    safeAddClip a b = clip (a + b) \<and> safeSubClip a b = clip (a - b) \<and>
    safeMul a b = (if a = MinInt64 then (if even b then 0 else MinInt64, False)
                   else if \<bar>a * b\<bar> \<le> MaxInt64 then (a * b, False) else (0, True))"
proof -
  have "safeMul a b = (if \<bar>a * b\<bar> \<le> MaxInt64 then (a * b, False) else (0, True))" if "a \<noteq> MinInt64"
  proof (cases "b = MinInt64")
    case True
    show ?thesis
    proof (cases "a = 0")
      case False
      then have "MaxInt64 < \<bar>a * b\<bar>" using mult_right_mono [of 1 "\<bar>a\<bar>" "\<bar>b\<bar>"] True by (simp add: abs_mult)
      then show ?thesis using safeMul_Min(2) [OF assms False that] True by simp
    qed (simp add: safeMul_def)
  next
    case False
    then show ?thesis using safeMul_eq [of a b] assms that by (auto simp: is_i64_def)
  qed
  then show ?thesis using assms safeMul_Min(1) [OF assms] by (simp add: safeAdd_eq safeSub_eq safeAddClip_eq safeSubClip_eq)
qed

theorem checked_arithmetic_witness:
  "safeAddClip MaxInt64 1 = MaxInt64 \<and> safeMul 4294967296 4294967296 = (0, True) \<and> safeMul MinInt64 2 = (0, False)"
  using checked_arithmetic [of MaxInt64 1] checked_arithmetic [of 4294967296 4294967296] checked_arithmetic [of MinInt64 2]
  by (simp add: is_i64_def clip_def)

text \<open>A fraction that prints is parsed back unchanged whenever both parts fit a signed 64-bit
  integer and the denominator is not zero, and is rejected otherwise; a parsed fraction always
  satisfies these bounds.\<close>

theorem fraction_roundtrip:
  assumes "Denominator fr \<noteq> 0"
  shows "ParseFraction (Fraction_String fr) =
      (if uint (Numerator fr) \<le> MaxInt64 \<and> uint (Denominator fr) \<le> MaxInt64 then Ok fr
       else Err (Errorf ''value overflow'')) \<and>
    (\<forall>s g. ParseFraction s = Ok g \<longrightarrow>
       Denominator g \<noteq> 0 \<and> uint (Numerator g) \<le> MaxInt64 \<and> uint (Denominator g) \<le> MaxInt64)"
  using ParseFraction_String [OF assms] ParseFraction_ok by blast

theorem fraction_roundtrip_witness:
  "ParseFraction (Fraction_String \<lparr>Numerator = 2, Denominator = 3\<rparr>) = Ok \<lparr>Numerator = 2, Denominator = 3\<rparr>"
  using fraction_roundtrip [of "\<lparr>Numerator = 2, Denominator = 3\<rparr>"] by simp

end
