(* ===== verification/Merkle.thy ===== *)
theory Merkle
  imports Prelude
begin

text \<open>
  The RFC 6962 Merkle trees of \<open>crypto/merkle\<close>: the recursive and the iterative root
  (\<open>tree.go\<close>), the hashes with their domain-separating prefixes (\<open>hash.go\<close>) and inclusion proofs
  (\<open>proof.go\<close>).

  \<open>sha\<close> is the hash function \<open>tmhash.Sum\<close> and a parameter of every definition; streaming a
  \<open>hash.Hash\<close> after a reset hashes the concatenation of what was written. A slice of length at
  most \<open>MaxInt64\<close> never makes \<open>1 << uint(bitlen-1)\<close> leave \<open>int64\<close>, as the power is at most the
  length, so \<open>getSplitPoint\<close> needs no wrap-around. The proof nodes live in an explicit heap, a list
  of nodes addressed by position: linking two subtrees mutates their roots, and the trails of the
  leaves see the change only through the shared pointers.
\<close>

section \<open>Hashes\<close>

type_synonym hash_fn = "bytes \<Rightarrow> bytes"

abbreviation tmhash_Size :: nat where "tmhash_Size \<equiv> 32"

definition leafPrefix :: bytes where "leafPrefix = [0]"
definition innerPrefix :: bytes where "innerPrefix = [1]"

definition emptyHash :: "hash_fn \<Rightarrow> bytes" where
  "emptyHash sha = sha []"

definition leafHash :: "hash_fn \<Rightarrow> bytes \<Rightarrow> bytes" where
  "leafHash sha leaf = sha (leafPrefix @ leaf)"

definition leafHashOpt :: "hash_fn \<Rightarrow> bytes \<Rightarrow> bytes" where
  "leafHashOpt sha leaf = sha (concat [leafPrefix, leaf])"

definition innerHash :: "hash_fn \<Rightarrow> bytes \<Rightarrow> bytes \<Rightarrow> bytes" where
  "innerHash sha left right = sha (innerPrefix @ concat [left, right])"

definition innerHashOpt :: "hash_fn \<Rightarrow> bytes \<Rightarrow> bytes \<Rightarrow> bytes" where
  "innerHashOpt sha left right = sha (concat [innerPrefix, left, right])"

lemma leafHashOpt_eq [simp]: "leafHashOpt = leafHash"
  by (simp add: fun_eq_iff leafHashOpt_def leafHash_def)

lemma innerHashOpt_eq [simp]: "innerHashOpt = innerHash"
  by (simp add: fun_eq_iff innerHashOpt_def innerHash_def)

section \<open>The split point\<close>

text \<open>\<open>bits.Len\<close>: the number of bits needed to write a number.\<close>

fun bits_Len :: "nat \<Rightarrow> nat" where
  "bits_Len n = (if n = 0 then 0 else Suc (bits_Len (n div 2)))"

declare bits_Len.simps [simp del]

definition getSplitPoint :: "int \<Rightarrow> int result" where
  "getSplitPoint len =
     (if len < 1 then Panic ''Trying to split a tree with size < 1''
      else let bitlen = bits_Len (nat len);
               k = 2 ^ (bitlen - 1) :: int
           in Ok (if k = len then k div 2 else k))"

lemma bits_Len_bounds: "0 < n \<Longrightarrow> 2 ^ (bits_Len n - 1) \<le> n \<and> n < 2 * 2 ^ (bits_Len n - 1)"
proof (induction n rule: bits_Len.induct)
  case (1 n)
  show ?case
  proof (cases "n = 1")
    case True
    then show ?thesis by (simp add: bits_Len.simps)
  next
    case False
    with 1(2) have m: "0 < n div 2" by linarith
    define b where "b = bits_Len (n div 2) - 1"
    have "2 ^ b \<le> n div 2 \<and> n div 2 < 2 * 2 ^ b" using 1 m by (simp add: b_def)
    then have "2 * 2 ^ b \<le> n \<and> n < 2 * (2 * 2 ^ b)" by linarith
    moreover have "bits_Len n - 1 = Suc b"
      using 1(2) m by (subst bits_Len.simps) (simp add: b_def, subst (1 2) bits_Len.simps, simp)
    ultimately show ?thesis by simp
  qed
qed

text \<open>The split of a number of leaves, as a number.\<close>

definition split_point :: "nat \<Rightarrow> nat" where
  "split_point n = (let k = 2 ^ (bits_Len n - 1) in if k = n then k div 2 else k)"

lemma getSplitPoint_nat: "0 < n \<Longrightarrow> getSplitPoint (int n) = Ok (int (split_point n))"
proof -
  assume n: "0 < n"
  define k :: nat where "k = 2 ^ (bits_Len n - 1)"
  have k: "(2::int) ^ (bits_Len n - 1) = int k" by (simp add: k_def)
  show ?thesis
    using n unfolding getSplitPoint_def split_point_def Let_def nat_int k k_def [symmetric]
    by (simp add: zdiv_int)
qed

text \<open>It is the largest power of two below a length of at least two.\<close>

lemma split_point_power:
  assumes "2 \<le> n"
  obtains j where "split_point n = 2 ^ j" "2 ^ j < n" "n \<le> 2 * 2 ^ j"
proof -
  define b where "b = bits_Len n - 1"
  have b: "2 ^ b \<le> n" "n < 2 * 2 ^ b" using bits_Len_bounds [of n] assms by (auto simp: b_def)
  show ?thesis
  proof (cases "2 ^ b = n")
    case True
    with assms obtain c where c: "b = Suc c" by (cases b) auto
    then have "split_point n = 2 ^ c"
      using True unfolding split_point_def b_def [symmetric] Let_def by (auto simp: c)
    with True c show ?thesis by (intro that [of c]) auto
  next
    case False
    then have "split_point n = 2 ^ b" unfolding split_point_def b_def [symmetric] Let_def by simp
    with False b show ?thesis by (intro that [of b]) auto
  qed
qed

lemma split_point_less: "2 \<le> n \<Longrightarrow> 0 < split_point n \<and> split_point n < n"
  by (rule split_point_power) auto

lemma split_point_bounds: "n \<noteq> 0 \<Longrightarrow> n \<noteq> Suc 0 \<Longrightarrow> 0 < split_point n \<and> split_point n < n"
  by (rule split_point_less) linarith

lemma split_pointI: "2 ^ j < n \<Longrightarrow> n \<le> 2 * 2 ^ j \<Longrightarrow> split_point n = 2 ^ j"
proof -
  assume j: "2 ^ j < n" "n \<le> 2 * 2 ^ j"
  have "1 \<le> (2 ^ j :: nat)" by simp
  then have "2 \<le> n" using j(1) by linarith
  then obtain i where i: "split_point n = 2 ^ i" "2 ^ i < n" "n \<le> 2 * 2 ^ i"
    by (rule split_point_power)
  have "(2::nat) ^ i < 2 ^ Suc j" "(2::nat) ^ j < 2 ^ Suc i" using i j by simp_all
  then have "i < Suc j" "j < Suc i" by (simp_all only: power_strict_increasing_iff one_less_numeral_iff semiring_norm)
  then show ?thesis using i(1) by simp
qed

lemma getSplitPoint_Ok:
  assumes "getSplitPoint (int n) = Ok k" "n \<noteq> 0" "n \<noteq> 1"
  shows "0 < nat k \<and> nat k < n"
  using assms split_point_less [of n] by (auto simp: getSplitPoint_nat)

section \<open>The recursive root\<close>

function hashFromByteSlices :: "hash_fn \<Rightarrow> bytes list \<Rightarrow> bytes result" where
  "hashFromByteSlices sha items =
     (if length items = 0 then Ok (emptyHash sha)
      else if length items = 1 then bind_out (index items 0) (\<lambda>x. Ok (leafHashOpt sha x))
      else bind_out (getSplitPoint (int (length items))) (\<lambda>k.
           bind_out (hashFromByteSlices sha (take (nat k) items)) (\<lambda>left.
           bind_out (hashFromByteSlices sha (drop (nat k) items)) (\<lambda>right.
           Ok (innerHashOpt sha left right)))))"
  by auto
termination
proof (relation "measure (\<lambda>(sha, items). length items)", goal_cases)
  case 1
  show ?case by simp
next
  case (2 sha items k)
  then show ?case using getSplitPoint_Ok [of "length items" k] by simp
next
  case (3 sha items k)
  then show ?case using getSplitPoint_Ok [of "length items" k] by simp
qed

declare hashFromByteSlices.simps [simp del]

definition HashFromByteSlices :: "hash_fn \<Rightarrow> bytes list \<Rightarrow> bytes result" where
  "HashFromByteSlices sha items = hashFromByteSlices sha items"

section \<open>The iterative root\<close>

text \<open>
  One pass over the first \<open>sz\<close> hashes, which writes the next level over the front of the same
  slice: \<open>rp\<close> is the read position and \<open>wp\<close> the write position.
\<close>

function iter_level :: "hash_fn \<Rightarrow> nat \<Rightarrow> nat \<Rightarrow> nat \<Rightarrow> bytes list \<Rightarrow> (bytes list \<times> nat) result" where
  "iter_level sha sz rp wp items =
     (if rp < sz
      then if rp + 1 < sz
           then bind_out (index items (int rp)) (\<lambda>a.
                bind_out (index items (int (rp + 1))) (\<lambda>b.
                bind_out (store items (int wp) (innerHashOpt sha a b)) (\<lambda>items'.
                iter_level sha sz (rp + 2) (wp + 1) items')))
           else bind_out (index items (int rp)) (\<lambda>a.
                bind_out (store items (int wp) a) (\<lambda>items'.
                iter_level sha sz (rp + 1) (wp + 1) items'))
      else Ok (items, wp))"
  by auto
termination by (relation "measure (\<lambda>(sha, sz, rp, wp, items). sz - rp)") auto

declare iter_level.simps [simp del]

lemma iter_level_wp:
  "iter_level sha sz rp wp items = Ok (items', wp') \<Longrightarrow> wp' = wp + (sz - rp + 1) div 2"
proof (induction sha sz rp wp items rule: iter_level.induct)
  case (1 sha sz rp wp items)
  show ?case
  proof (cases "rp < sz")
    case False
    then show ?thesis using 1(3) by (simp add: iter_level.simps [of sha sz rp])
  next
    case True
    show ?thesis
    proof (cases "rp + 1 < sz")
      case two: True
      then obtain a b js where "index items (int rp) = Ok a" "index items (int (rp + 1)) = Ok b"
          "store items (int wp) (innerHashOpt sha a b) = Ok js"
          "iter_level sha sz (rp + 2) (wp + 1) js = Ok (items', wp')"
        using 1(3) True by (auto simp: iter_level.simps [of sha sz rp])
      then have "wp' = wp + 1 + (sz - (rp + 2) + 1) div 2" using 1(1) [OF True two] by blast
      with two show ?thesis by simp
    next
      case one: False
      then obtain a js where "index items (int rp) = Ok a" "store items (int wp) a = Ok js"
          "iter_level sha sz (rp + 1) (wp + 1) js = Ok (items', wp')"
        using 1(3) True by (auto simp: iter_level.simps [of sha sz rp])
      then have "wp' = wp + 1 + (sz - (rp + 1) + 1) div 2" using 1(2) [OF True one] by blast
      with True one show ?thesis by simp
    qed
  qed
qed

function iter_levels :: "hash_fn \<Rightarrow> nat \<Rightarrow> bytes list \<Rightarrow> bytes result" where
  "iter_levels sha sz items =
     (if sz = 0 then Ok (emptyHash sha)
      else if sz = 1 then index items 0
      else bind_out (iter_level sha sz 0 0 items) (\<lambda>(items', wp). iter_levels sha wp items'))"
  by auto
termination
proof (relation "measure (\<lambda>(sha, sz, items). sz)", goal_cases)
  case (2 sha sz items st items' wp)
  then show ?case using iter_level_wp [of sha sz 0 0 items items' wp] by simp
qed simp

declare iter_levels.simps [simp del]

definition HashFromByteSlicesIterative :: "hash_fn \<Rightarrow> bytes list \<Rightarrow> bytes result" where
  "HashFromByteSlicesIterative sha input =
     (let items = map (leafHash sha) input in iter_levels sha (length items) items)"

section \<open>The specification: the tree hash of a list of leaf hashes\<close>

function tree_root :: "hash_fn \<Rightarrow> bytes list \<Rightarrow> bytes" where
  "tree_root sha hs =
     (if length hs = 0 then emptyHash sha else if length hs = 1 then hd hs
      else innerHash sha (tree_root sha (take (split_point (length hs)) hs))
             (tree_root sha (drop (split_point (length hs)) hs)))"
  by auto
termination
proof (relation "measure (\<lambda>(sha, hs). length hs)", goal_cases)
  case (2 sha hs)
  then show ?case using split_point_bounds [of "length hs"] by simp
next
  case (3 sha hs)
  then show ?case using split_point_bounds [of "length hs"] by simp
qed simp

declare tree_root.simps [simp del]

lemma tree_root_Nil [simp]: "tree_root sha [] = emptyHash sha"
  by (simp add: tree_root.simps)

lemma tree_root_single [simp]: "tree_root sha [h] = h"
  by (simp add: tree_root.simps)

lemma tree_root_split:
  "2 \<le> length hs \<Longrightarrow> tree_root sha hs =
     innerHash sha (tree_root sha (take (split_point (length hs)) hs)) (tree_root sha (drop (split_point (length hs)) hs))"
  by (subst tree_root.simps) auto

definition merkle_root :: "hash_fn \<Rightarrow> bytes list \<Rightarrow> bytes" where
  "merkle_root sha items = tree_root sha (map (leafHash sha) items)"

text \<open>An induction on the shape of the tree over a list.\<close>

lemma split_induct [case_names Nil single split]:
  assumes "P []" "\<And>x. P [x]"
    and "\<And>xs. 2 \<le> length xs \<Longrightarrow> P (take (split_point (length xs)) xs) \<Longrightarrow>
           P (drop (split_point (length xs)) xs) \<Longrightarrow> P xs"
  shows "P xs"
proof (induction xs rule: length_induct)
  case (1 xs)
  consider "xs = []" | x where "xs = [x]" | "2 \<le> length xs"
    by (cases xs; cases "tl xs") auto
  then show ?case
  proof cases
    case 3
    then show ?thesis
      using split_point_less [OF 3] by (intro assms(3) [OF 3] 1 [rule_format]) auto
  qed (use assms in simp_all)
qed

theorem hashFromByteSlices_root: "hashFromByteSlices sha items = Ok (merkle_root sha items)"
proof (induction items rule: split_induct)
  case (split xs)
  let ?k = "split_point (length xs)"
  have "merkle_root sha xs = innerHash sha (merkle_root sha (take ?k xs)) (merkle_root sha (drop ?k xs))"
    using split(1) tree_root_split [of "map (leafHash sha) xs" sha] by (simp add: merkle_root_def take_map drop_map)
  moreover have "getSplitPoint (int (length xs)) = Ok (int ?k)"
    using split(1) by (intro getSplitPoint_nat) auto
  ultimately show ?case
    using split by (subst hashFromByteSlices.simps) auto
qed (simp_all add: hashFromByteSlices.simps merkle_root_def index_def)

section \<open>The iterative root is the recursive one\<close>

text \<open>One level up: neighbours are joined, an odd one out is carried over.\<close>

fun pairup :: "hash_fn \<Rightarrow> bytes list \<Rightarrow> bytes list" where
  "pairup sha (a # b # hs) = innerHash sha a b # pairup sha hs"
| "pairup sha hs = hs"

lemma length_pairup [simp]: "length (pairup sha hs) = (length hs + 1) div 2"
  by (induction sha hs rule: pairup.induct) auto

lemma pairup_append: "even (length xs) \<Longrightarrow> pairup sha (xs @ ys) = pairup sha xs @ pairup sha ys"
  by (induction sha xs rule: pairup.induct) auto

lemma tree_root_join:
  assumes "length xs = 2 ^ j" "0 < length ys" "length ys \<le> 2 ^ j"
  shows "tree_root sha (xs @ ys) = innerHash sha (tree_root sha xs) (tree_root sha ys)"
proof -
  have "split_point (length (xs @ ys)) = 2 ^ j" by (rule split_pointI) (use assms in auto)
  moreover have "2 \<le> length (xs @ ys)" using assms one_le_power [of "2::nat" j] by (simp only: length_append)
  ultimately show ?thesis using tree_root_split [of "xs @ ys" sha] assms(1) by simp
qed

lemma tree_root_two: "tree_root sha [a, b] = innerHash sha a b"
  using tree_root_join [of "[a]" 0 "[b]" sha] by simp

lemma tree_root_pairup: "2 \<le> length hs \<Longrightarrow> tree_root sha (pairup sha hs) = tree_root sha hs"
proof (induction hs rule: split_induct)
  case (split hs)
  obtain j where j: "split_point (length hs) = 2 ^ j" "2 ^ j < length hs" "length hs \<le> 2 * 2 ^ j"
    using split(1) by (rule split_point_power)
  define xs ys where "xs = take (2 ^ j) hs" and "ys = drop (2 ^ j) hs"
  have hs: "hs = xs @ ys" and lx: "length xs = 2 ^ j" and ly: "0 < length ys" "length ys \<le> 2 ^ j"
    using j by (simp_all add: xs_def ys_def)
  have root: "tree_root sha hs = innerHash sha (tree_root sha xs) (tree_root sha ys)"
    unfolding hs using lx ly by (rule tree_root_join)
  have ys: "tree_root sha (pairup sha ys) = tree_root sha ys"
  proof (cases "2 \<le> length ys")
    case True
    then show ?thesis using split(3) by (simp add: j(1) ys_def)
  next
    case False
    with ly obtain y where "ys = [y]" by (cases ys) (auto simp: Suc_le_eq)
    then show ?thesis by simp
  qed
  show ?case
  proof (cases j)
    case 0
    with lx ly obtain x y where "xs = [x]" "ys = [y]"
      by (metis One_nat_def length_0_conv length_Suc_conv less_Suc0 linorder_not_less nat_less_le power_0)
    then show ?thesis using root by (simp add: hs)
  next
    case (Suc i)
    then have "2 \<le> length xs" using lx one_le_power [of "2::nat" i] by simp
    then have "tree_root sha (pairup sha xs) = tree_root sha xs"
      using split(2) by (simp only: j(1) xs_def)
    moreover have "pairup sha hs = pairup sha xs @ pairup sha ys"
      unfolding hs using lx Suc by (intro pairup_append) simp
    moreover have "tree_root sha (pairup sha xs @ pairup sha ys) =
        innerHash sha (tree_root sha (pairup sha xs)) (tree_root sha (pairup sha ys))"
      using lx ly Suc by (intro tree_root_join [of _ i]) auto
    ultimately show ?thesis using ys root by simp
  qed
qed auto

lemma iter_level_spec:
  assumes "wp \<le> rp" "rp \<le> sz" "sz \<le> length items"
  shows "\<exists>items' wp'. iter_level sha sz rp wp items = Ok (items', wp') \<and> length items' = length items \<and>
           take wp' items' = take wp items @ pairup sha (drop rp (take sz items))"
  using assms
proof (induction sha sz rp wp items rule: iter_level.induct)
  case (1 sha sz rp wp items)
  note prems = 1(3-5)
  consider (two) "rp + 1 < sz" | (one) "rp + 1 = sz" | (fin) "rp = sz" using prems by linarith
  then show ?case
  proof cases
    case two
    define js where "js = items[wp := innerHash sha (items ! rp) (items ! (rp + 1))]"
    have "\<exists>items' wp'. iter_level sha sz (rp + 2) (wp + 1) js = Ok (items', wp') \<and> length items' = length js \<and>
        take wp' items' = take (wp + 1) js @ pairup sha (drop (rp + 2) (take sz js))"
      using 1(1) [of "items ! rp" "items ! (rp + 1)" js] two prems index_nat [of "Suc rp" items]
      by (simp add: js_def)
    moreover have "take (wp + 1) js = take wp items @ [innerHash sha (items ! rp) (items ! (rp + 1))]"
      using two prems by (simp add: js_def take_Suc_conv_app_nth)
    moreover have "drop (rp + 2) (take sz js) = drop (rp + 2) (take sz items)"
      using prems by (simp add: js_def drop_take drop_update_cancel)
    moreover have "drop rp (take sz items) = items ! rp # items ! (rp + 1) # drop (rp + 2) (take sz items)"
      using two prems Cons_nth_drop_Suc [of rp "take sz items", symmetric]
        Cons_nth_drop_Suc [of "Suc rp" "take sz items", symmetric] by simp
    moreover have "iter_level sha sz rp wp items = iter_level sha sz (rp + 2) (wp + 1) js"
      using two prems by (subst iter_level.simps) (simp add: js_def flip: of_nat_Suc)
    ultimately show ?thesis by (simp add: js_def)
  next
    case one
    define js where "js = items[wp := items ! rp]"
    have "\<exists>items' wp'. iter_level sha sz (rp + 1) (wp + 1) js = Ok (items', wp') \<and> length items' = length js \<and>
        take wp' items' = take (wp + 1) js @ pairup sha (drop (rp + 1) (take sz js))"
      using 1(2) [of "items ! rp" js] one prems by (simp add: js_def)
    moreover have "take (wp + 1) js = take wp items @ [items ! rp]"
      using one prems by (simp add: js_def take_Suc_conv_app_nth)
    moreover have "drop rp (take sz items) = [items ! rp]"
      using one prems Cons_nth_drop_Suc [of rp "take sz items", symmetric] by simp
    moreover have "iter_level sha sz rp wp items = iter_level sha sz (rp + 1) (wp + 1) js"
      using one prems by (subst iter_level.simps) (simp add: js_def)
    ultimately show ?thesis using one by (simp add: js_def)
  next
    case fin
    then show ?thesis by (simp add: iter_level.simps)
  qed
qed

lemma iter_levels_root:
  "sz \<le> length items \<Longrightarrow> iter_levels sha sz items = Ok (tree_root sha (take sz items))"
proof (induction sz arbitrary: items rule: less_induct)
  case (less sz)
  consider "sz = 0" | "sz = 1" | "2 \<le> sz" by linarith
  then show ?case
  proof cases
    case 1
    then show ?thesis by (simp add: iter_levels.simps)
  next
    case 2
    then obtain x xs where "items = x # xs" using less.prems by (cases items) auto
    then show ?thesis using 2 by (simp add: iter_levels.simps index_def)
  next
    case 3
    obtain items' wp where l: "iter_level sha sz 0 0 items = Ok (items', wp)" "length items' = length items"
        "take wp items' = pairup sha (take sz items)"
      using iter_level_spec [of 0 0 sz items sha] less.prems by auto
    have "wp = (sz + 1) div 2" using iter_level_wp [OF l(1)] by simp
    then have wp: "wp < sz" "wp \<le> length items'" using 3 less.prems l(2) by simp_all
    have "iter_levels sha sz items = iter_levels sha wp items'"
      using 3 l(1) by (subst iter_levels.simps) simp
    also have "\<dots> = Ok (tree_root sha (take wp items'))" using wp by (rule less.IH)
    also have "\<dots> = Ok (tree_root sha (take sz items))"
      using 3 less.prems by (simp add: l(3) tree_root_pairup)
    finally show ?thesis .
  qed
qed

lemma HashFromByteSlicesIterative_root: "HashFromByteSlicesIterative sha items = Ok (merkle_root sha items)"
  using iter_levels_root [of "length items" "map (leafHash sha) items" sha]
  by (simp add: HashFromByteSlicesIterative_def merkle_root_def)

end
