(* ===== verification/MerkleProof.thy ===== *)
theory MerkleProof
  imports Merkle
begin

text \<open>
  Inclusion proofs of \<open>crypto/merkle/proof.go\<close>. The trails of \<open>trailsFromByteSlices\<close> are pointers
  into a heap of \<open>ProofNode\<close>s: joining two subtrees allocates the new root and writes the \<open>Parent\<close>
  and sibling fields of the old ones, and \<open>FlattenAunts\<close> follows \<open>Parent\<close> up to the root. The loop
  of \<open>FlattenAunts\<close> has no bound in the source, so it is a partial function whose value is None
  where it would run forever; the proofs show it returns.

  The lemmas show that the generated proofs are exactly the sibling hashes of the specification
  tree and are accepted by \<open>Verify\<close>, and that an accepted proof of a leaf that is not at its place
  in the tree exhibits two different inputs of equal hash.
\<close>

section \<open>The code\<close>

abbreviation MaxAunts :: nat where "MaxAunts \<equiv> 100"

record Proof =
  proof_Total :: int
  proof_Index :: int
  proof_LeafHash :: bytes
  proof_Aunts :: "bytes list"

record ProofNode =
  node_Hash :: bytes
  node_Parent :: "nat option"
  node_Left :: "nat option"
  node_Right :: "nat option"

type_synonym heap = "ProofNode list"

definition new_node :: "bytes \<Rightarrow> heap \<Rightarrow> nat \<times> heap" where
  "new_node hash h =
     (length h, h @ [\<lparr>node_Hash = hash, node_Parent = None, node_Left = None, node_Right = None\<rparr>])"

text \<open>The end of the recursive case: the new root, and the four writes that link the old roots.\<close>

definition join_roots :: "hash_fn \<Rightarrow> nat \<Rightarrow> nat \<Rightarrow> heap \<Rightarrow> nat \<times> heap" where
  "join_roots sha leftRoot rightRoot h =
     (case new_node (innerHash sha (node_Hash (h ! leftRoot)) (node_Hash (h ! rightRoot))) h of (root, h1) \<Rightarrow>
      let h2 = h1[leftRoot := (h1 ! leftRoot)\<lparr>node_Parent := Some root, node_Right := Some rightRoot\<rparr>];
          h3 = h2[rightRoot := (h2 ! rightRoot)\<lparr>node_Parent := Some root, node_Left := Some leftRoot\<rparr>]
      in (root, h3))"

function trailsFromByteSlices :: "hash_fn \<Rightarrow> bytes list \<Rightarrow> heap \<Rightarrow> (nat list \<times> nat \<times> heap) result" where
  "trailsFromByteSlices sha items h =
     (if length items = 0 then (case new_node (emptyHash sha) h of (r, h') \<Rightarrow> Ok ([], r, h'))
      else if length items = 1
      then bind_out (index items 0) (\<lambda>x. case new_node (leafHash sha x) h of (r, h') \<Rightarrow> Ok ([r], r, h'))
      else bind_out (getSplitPoint (int (length items))) (\<lambda>k.
           bind_out (trailsFromByteSlices sha (take (nat k) items) h) (\<lambda>(lefts, leftRoot, h1).
           bind_out (trailsFromByteSlices sha (drop (nat k) items) h1) (\<lambda>(rights, rightRoot, h2).
           case join_roots sha leftRoot rightRoot h2 of (root, h3) \<Rightarrow> Ok (lefts @ rights, root, h3)))))"
  by auto
termination
proof (relation "measure (\<lambda>(sha, items, h). length items)", goal_cases)
  case (2 sha items h k)
  then show ?case using getSplitPoint_Ok [of "length items" k] by simp
next
  case (3 sha items h k)
  then show ?case using getSplitPoint_Ok [of "length items" k] by simp
qed simp

function trailsFromLeafHashes :: "hash_fn \<Rightarrow> bytes list \<Rightarrow> heap \<Rightarrow> (nat list \<times> nat \<times> heap) result" where
  "trailsFromLeafHashes sha leafHashes h =
     (if length leafHashes = 0 then (case new_node (emptyHash sha) h of (r, h') \<Rightarrow> Ok ([], r, h'))
      else if length leafHashes = 1
      then bind_out (index leafHashes 0) (\<lambda>x. case new_node x h of (r, h') \<Rightarrow> Ok ([r], r, h'))
      else bind_out (getSplitPoint (int (length leafHashes))) (\<lambda>k.
           bind_out (trailsFromLeafHashes sha (take (nat k) leafHashes) h) (\<lambda>(lefts, leftRoot, h1).
           bind_out (trailsFromLeafHashes sha (drop (nat k) leafHashes) h1) (\<lambda>(rights, rightRoot, h2).
           case join_roots sha leftRoot rightRoot h2 of (root, h3) \<Rightarrow> Ok (lefts @ rights, root, h3)))))"
  by auto
termination
proof (relation "measure (\<lambda>(sha, items, h). length items)", goal_cases)
  case (2 sha items h k)
  then show ?case using getSplitPoint_Ok [of "length items" k] by simp
next
  case (3 sha items h k)
  then show ?case using getSplitPoint_Ok [of "length items" k] by simp
qed simp

declare trailsFromByteSlices.simps [simp del] trailsFromLeafHashes.simps [simp del]

text \<open>The loop of \<open>FlattenAunts\<close>: \<open>spn\<close> is the current node, \<open>acc\<close> the hashes so far.\<close>

definition aunt_of :: "heap \<Rightarrow> nat \<Rightarrow> bytes list" where
  "aunt_of h p =
     (case node_Left (h ! p) of Some l \<Rightarrow> [node_Hash (h ! l)]
      | None \<Rightarrow> (case node_Right (h ! p) of Some r \<Rightarrow> [node_Hash (h ! r)] | None \<Rightarrow> []))"

partial_function (option) flatten_loop :: "heap \<Rightarrow> nat option \<Rightarrow> bytes list \<Rightarrow> (bytes list) option" where
  "flatten_loop h spn acc =
     (case spn of None \<Rightarrow> Some acc
      | Some p \<Rightarrow> flatten_loop h (node_Parent (h ! p)) (acc @ aunt_of h p))"

declare flatten_loop.simps [code]

definition FlattenAunts :: "heap \<Rightarrow> nat \<Rightarrow> (bytes list) option" where
  "FlattenAunts h spn = flatten_loop h (Some spn) []"

text \<open>
  The loop that builds the proofs from the trails. None of \<open>FlattenAunts\<close>, a loop that would not
  return, is reported as a panic.
\<close>

definition proof_of_trail :: "heap \<Rightarrow> nat \<Rightarrow> nat \<Rightarrow> nat \<Rightarrow> Proof result" where
  "proof_of_trail h tot i trail =
     (case FlattenAunts h trail of
        None \<Rightarrow> Panic ''FlattenAunts does not return''
      | Some aunts \<Rightarrow> Ok \<lparr>proof_Total = int tot, proof_Index = int i,
                          proof_LeafHash = node_Hash (h ! trail), proof_Aunts = aunts\<rparr>)"

definition proofs_of_trails :: "heap \<Rightarrow> nat list \<Rightarrow> nat \<Rightarrow> (Proof list) result" where
  "proofs_of_trails h trails tot =
     fold_out (\<lambda>(i, trail) ps. bind_out (proof_of_trail h tot i trail) (\<lambda>p. Ok (ps @ [p])))
       (enumerate 0 trails) []"

definition ProofsFromByteSlices :: "hash_fn \<Rightarrow> bytes list \<Rightarrow> (bytes \<times> Proof list) result" where
  "ProofsFromByteSlices sha items =
     bind_out (trailsFromByteSlices sha items []) (\<lambda>(trails, rootSPN, h).
     bind_out (proofs_of_trails h trails (length items)) (\<lambda>proofs.
     Ok (node_Hash (h ! rootSPN), proofs)))"

definition ProofsFromLeafHashes :: "hash_fn \<Rightarrow> bytes list \<Rightarrow> (bytes \<times> Proof list) result" where
  "ProofsFromLeafHashes sha leafHashes =
     bind_out (trailsFromLeafHashes sha leafHashes []) (\<lambda>(trails, rootNode, h).
     bind_out (proofs_of_trails h trails (length leafHashes)) (\<lambda>proofs.
     Ok (node_Hash (h ! rootNode), proofs)))"

function computeHashFromAunts :: "hash_fn \<Rightarrow> int \<Rightarrow> int \<Rightarrow> bytes \<Rightarrow> bytes list \<Rightarrow> bytes result" where
  "computeHashFromAunts sha ix tot leaf innerHashes =
     (if ix \<ge> tot \<or> ix < 0 \<or> tot \<le> 0 then Err (Errorf ''invalid index and/or total'')
      else if tot = 1
      then if length innerHashes \<noteq> 0 then Err (Errorf ''unexpected inner hashes'') else Ok leaf
      else if length innerHashes = 0 then Err (Errorf ''expected at least one inner hash'')
      else bind_out (getSplitPoint tot) (\<lambda>numLeft.
           if ix < numLeft
           then bind_out (computeHashFromAunts sha ix numLeft leaf (butlast innerHashes)) (\<lambda>leftHash.
                Ok (innerHash sha leftHash (last innerHashes)))
           else bind_out (computeHashFromAunts sha (ix - numLeft) (tot - numLeft) leaf (butlast innerHashes)) (\<lambda>rightHash.
                Ok (innerHash sha (last innerHashes) rightHash))))"
  by auto
termination
  by (relation "measure (\<lambda>(sha, ix, tot, leaf, innerHashes). length innerHashes)") auto

declare computeHashFromAunts.simps [simp del]

definition computeRootHash :: "hash_fn \<Rightarrow> Proof \<Rightarrow> bytes result" where
  "computeRootHash sha sp =
     computeHashFromAunts sha (proof_Index sp) (proof_Total sp) (proof_LeafHash sp) (proof_Aunts sp)"

definition ComputeRootHash :: "hash_fn \<Rightarrow> Proof \<Rightarrow> bytes result" where
  "ComputeRootHash sha sp =
     (case computeRootHash sha sp of Err e \<Rightarrow> Panic ''ComputeRootHash errored'' | r \<Rightarrow> r)"

text \<open>A nil root hash is rejected, so the root is an option.\<close>

definition Proof_Verify :: "hash_fn \<Rightarrow> Proof \<Rightarrow> bytes option \<Rightarrow> bytes \<Rightarrow> unit result" where
  "Proof_Verify sha sp rootHash leaf =
     (case rootHash of None \<Rightarrow> Err (Errorf ''invalid root hash: cannot be nil'')
      | Some root \<Rightarrow>
          if proof_Total sp < 0 then Err (Errorf ''proof total must be positive'')
          else if proof_Index sp < 0 then Err (Errorf ''proof index cannot be negative'')
          else if proof_LeafHash sp \<noteq> leafHash sha leaf then Err (Errorf ''invalid leaf hash'')
          else bind_out (map_err (Wrapf ''compute root hash'') (computeRootHash sha sp)) (\<lambda>computedHash.
               if computedHash \<noteq> root then Err (Errorf ''invalid root hash'') else Ok ()))"

definition Proof_ValidateBasic :: "Proof \<Rightarrow> unit result" where
  "Proof_ValidateBasic sp =
     (if proof_Total sp < 0 then Err (Errorf ''negative Total'')
      else if proof_Index sp < 0 then Err (Errorf ''negative Index'')
      else if length (proof_LeafHash sp) \<noteq> tmhash_Size then Err (Errorf ''expected LeafHash size'')
      else if length (proof_Aunts sp) > MaxAunts then Err (Errorf ''expected no more than 100 aunts'')
      else if \<exists>auntHash \<in> set (proof_Aunts sp). length auntHash \<noteq> tmhash_Size
      then Err (Errorf ''expected Aunts size'')
      else Ok ())"

text \<open>The protobuf message has the same four fields.\<close>

definition Proof_ToProto :: "Proof option \<Rightarrow> Proof option" where
  "Proof_ToProto sp = map_option (\<lambda>p. \<lparr>proof_Total = proof_Total p, proof_Index = proof_Index p,
     proof_LeafHash = proof_LeafHash p, proof_Aunts = proof_Aunts p\<rparr>) sp"

definition ProofFromProto :: "Proof option \<Rightarrow> bool \<Rightarrow> (Proof option) result" where
  "ProofFromProto pb optional =
     (case pb of
        None \<Rightarrow> if optional then Ok None else Err (Errorf ''nil proof'')
      | Some p \<Rightarrow>
          if proof_LeafHash p = [] \<and> proof_Aunts p = []
          then if optional then Ok None else Err (Errorf ''nil proof'')
          else bind_out (Proof_ValidateBasic p) (\<lambda>_. Ok (Some p)))"

section \<open>The trails\<close>

text \<open>The sibling hashes of leaf \<open>i\<close>, from the leaf up, in the specification tree.\<close>

function spec_aunts :: "hash_fn \<Rightarrow> bytes list \<Rightarrow> nat \<Rightarrow> bytes list" where
  "spec_aunts sha hs i =
     (if length hs < 2 then []
      else let k = split_point (length hs)
           in if i < k then spec_aunts sha (take k hs) i @ [tree_root sha (drop k hs)]
              else spec_aunts sha (drop k hs) (i - k) @ [tree_root sha (take k hs)])"
  by auto
termination
proof (relation "measure (\<lambda>(sha, hs, i). length hs)", goal_cases)
  case (2 sha hs i k)
  then show ?case using split_point_less [of "length hs"] by simp
next
  case (3 sha hs i k)
  then show ?case using split_point_less [of "length hs"] by auto
qed simp

declare spec_aunts.simps [simp del]

lemma spec_aunts_short [simp]: "length hs < 2 \<Longrightarrow> spec_aunts sha hs i = []"
  by (simp add: spec_aunts.simps)

lemma spec_aunts_split:
  "2 \<le> length hs \<Longrightarrow> spec_aunts sha hs i =
     (if i < split_point (length hs)
      then spec_aunts sha (take (split_point (length hs)) hs) i @ [tree_root sha (drop (split_point (length hs)) hs)]
      else spec_aunts sha (drop (split_point (length hs)) hs) (i - split_point (length hs)) @
             [tree_root sha (take (split_point (length hs)) hs)])"
  by (subst spec_aunts.simps) (simp add: Let_def)

text \<open>A path of parent pointers from \<open>p\<close> to \<open>r\<close> that meets the given sibling hashes.\<close>

inductive trail :: "heap \<Rightarrow> nat \<Rightarrow> nat \<Rightarrow> bytes list \<Rightarrow> bool" for h where
  here: "trail h r r []"
| up: "node_Parent (h ! p) = Some q \<Longrightarrow> p < q \<Longrightarrow> aunt_of h p = [a] \<Longrightarrow> trail h q r as \<Longrightarrow> trail h p r (a # as)"

lemma trail_le: "trail h p r as \<Longrightarrow> p \<le> r"
  by (induction rule: trail.induct) auto

lemma trail_snoc:
  "trail h p r as \<Longrightarrow> node_Parent (h ! r) = Some s \<Longrightarrow> r < s \<Longrightarrow> aunt_of h r = [a] \<Longrightarrow> trail h p s (as @ [a])"
  by (induction rule: trail.induct) (auto intro: trail.intros)

lemma trail_frame:
  assumes "trail h p r as" "\<And>q. p \<le> q \<Longrightarrow> q < r \<Longrightarrow> node_Parent (h' ! q) = node_Parent (h ! q) \<and> aunt_of h' q = aunt_of h q"
  shows "trail h' p r as"
  using assms
proof (induction rule: trail.induct)
  case (here r)
  show ?case by (rule trail.here)
next
  case (up p q a r as)
  have "p < r" using up(2,4) trail_le by fastforce
  then have "node_Parent (h' ! p) = Some q" "aunt_of h' p = [a]" using up by simp_all
  moreover have "trail h' q r as" using up by simp
  ultimately show ?case using up(2) by (intro trail.up)
qed

lemma flatten_trail:
  assumes "trail h p r as" "node_Parent (h ! r) = None" "aunt_of h r = []"
  shows "flatten_loop h (Some p) acc = Some (acc @ as)"
  using assms
proof (induction arbitrary: acc rule: trail.induct)
  case (here r)
  then show ?case by (simp add: flatten_loop.simps)
next
  case (up p q a r as)
  then show ?case by (subst flatten_loop.simps) simp
qed

text \<open>What a call with heap \<open>h\<close> gives: new nodes only, the root last, and a trail for each leaf.\<close>

definition sibs_in :: "nat \<Rightarrow> heap \<Rightarrow> bool" where
  "sibs_in lo h \<longleftrightarrow> (\<forall>q s. lo \<le> q \<and> q < length h \<and> (node_Left (h ! q) = Some s \<or> node_Right (h ! q) = Some s) \<longrightarrow>
     lo \<le> s \<and> s < length h)"

definition trails_ok :: "hash_fn \<Rightarrow> bytes list \<Rightarrow> heap \<Rightarrow> nat list \<Rightarrow> nat \<Rightarrow> heap \<Rightarrow> bool" where
  "trails_ok sha hs h ts root h' \<longleftrightarrow>
     (\<exists>new. new \<noteq> [] \<and> h' = h @ new) \<and> root = length h' - 1 \<and> sibs_in (length h) h' \<and>
     h' ! root = \<lparr>node_Hash = tree_root sha hs, node_Parent = None, node_Left = None, node_Right = None\<rparr> \<and>
     length ts = length hs \<and>
     (\<forall>i < length hs. length h \<le> ts ! i \<and> ts ! i \<le> root \<and> node_Hash (h' ! (ts ! i)) = hs ! i \<and>
        trail h' (ts ! i) root (spec_aunts sha hs i))"

lemma sibs_inD:
  "sibs_in lo h \<Longrightarrow> lo \<le> q \<Longrightarrow> q < length h \<Longrightarrow> node_Left (h ! q) = Some s \<or> node_Right (h ! q) = Some s \<Longrightarrow>
     lo \<le> s \<and> s < length h"
  unfolding sibs_in_def by blast

lemma trails_okE:
  assumes "trails_ok sha hs h ts root h'"
  obtains new where "new \<noteq> []" "h' = h @ new" "root = length h' - 1" "sibs_in (length h) h'"
    "h' ! root = \<lparr>node_Hash = tree_root sha hs, node_Parent = None, node_Left = None, node_Right = None\<rparr>"
    "length ts = length hs"
    "\<forall>i < length hs. length h \<le> ts ! i \<and> ts ! i \<le> root \<and> node_Hash (h' ! (ts ! i)) = hs ! i \<and>
        trail h' (ts ! i) root (spec_aunts sha hs i)"
  using assms that unfolding trails_ok_def by blast

lemma trails_ok_single:
  "new_node x h = (r, h') \<Longrightarrow> trails_ok sha [x] h [r] r h'"
  by (auto simp: trails_ok_def new_node_def sibs_in_def nth_append intro: trail.here)

lemma trails_ok_empty:
  "new_node (emptyHash sha) h = (r, h') \<Longrightarrow> trails_ok sha [] h [] r h'"
  by (auto simp: trails_ok_def new_node_def sibs_in_def nth_append)

lemma aunt_of_cong:
  assumes "h' ! q = h ! q" "\<And>s. node_Left (h ! q) = Some s \<or> node_Right (h ! q) = Some s \<Longrightarrow> node_Hash (h' ! s) = node_Hash (h ! s)"
  shows "aunt_of h' q = aunt_of h q"
  using assms by (auto simp: aunt_of_def split: option.splits)

text \<open>The heap after joining the roots at \<open>lr\<close> and \<open>rr\<close>.\<close>

lemma join_roots_nth:
  assumes "join_roots sha lr rr h = (root, h')" "lr < rr" "rr < length h"
  shows "root = length h" "length h' = Suc (length h)"
    "h' ! lr = (h ! lr)\<lparr>node_Parent := Some root, node_Right := Some rr\<rparr>"
    "h' ! rr = (h ! rr)\<lparr>node_Parent := Some root, node_Left := Some lr\<rparr>"
    "h' ! root = \<lparr>node_Hash = innerHash sha (node_Hash (h ! lr)) (node_Hash (h ! rr)),
       node_Parent = None, node_Left = None, node_Right = None\<rparr>"
    "q < length h \<Longrightarrow> q \<noteq> lr \<Longrightarrow> q \<noteq> rr \<Longrightarrow> h' ! q = h ! q"
    "q < length h \<Longrightarrow> node_Hash (h' ! q) = node_Hash (h ! q)"
  using assms by (auto simp: join_roots_def new_node_def Let_def nth_append nth_list_update)

text \<open>A trail to the left or right root becomes one to the new root, with the other root's hash last.\<close>

lemma trail_join:
  assumes j: "join_roots sha lr rr h = (root, h')" "lr < rr" "rr < length h"
    and t: "trail h p r as" and r: "r = lr \<or> r = rr" and p: "r = rr \<Longrightarrow> lr < p"
    and none: "node_Left (h ! r) = None" "node_Right (h ! r) = None"
    and sibs: "sibs_in lo h" "lo \<le> p"
  shows "trail h' p root (as @ [node_Hash (h ! (if r = lr then rr else lr))])"
proof (rule trail_snoc)
  note jr = join_roots_nth [OF j]
  show "trail h' p r as"
  proof (rule trail_frame [OF t])
    fix q assume q: "p \<le> q" "q < r"
    then have "h' ! q = h ! q" using r p j by (intro jr(6)) auto
    moreover have "aunt_of h' q = aunt_of h q"
    proof (rule aunt_of_cong [OF calculation])
      fix s assume "node_Left (h ! q) = Some s \<or> node_Right (h ! q) = Some s"
      then have "s < length h" using sibs_inD [OF sibs(1), of q s] q r sibs(2) j(2,3) by auto
      then show "node_Hash (h' ! s) = node_Hash (h ! s)" by (rule jr(7))
    qed
    ultimately show "node_Parent (h' ! q) = node_Parent (h ! q) \<and> aunt_of h' q = aunt_of h q" by simp
  qed
  show "node_Parent (h' ! r) = Some root" "r < root" using r jr(1,3,4) j(2,3) by auto
  show "aunt_of h' r = [node_Hash (h ! (if r = lr then rr else lr))]"
    using r none jr(3,4) jr(7) [of lr] jr(7) [of rr] j(2,3) by (auto simp: aunt_of_def)
qed

lemma trail_extend:
  assumes "trail h p r as" "r < length h" "lo \<le> p" "sibs_in lo h"
  shows "trail (h @ new) p r as"
proof (rule trail_frame [OF assms(1)])
  fix q assume q: "p \<le> q" "q < r"
  then have "(h @ new) ! q = h ! q" using assms(2) by (simp add: nth_append)
  moreover have "aunt_of (h @ new) q = aunt_of h q"
  proof (rule aunt_of_cong [OF calculation])
    fix s assume "node_Left (h ! q) = Some s \<or> node_Right (h ! q) = Some s"
    then have "s < length h" using sibs_inD [OF assms(4), of q s] q assms(2,3) by simp
    then show "node_Hash ((h @ new) ! s) = node_Hash (h ! s)" by (simp add: nth_append)
  qed
  ultimately show "node_Parent ((h @ new) ! q) = node_Parent (h ! q) \<and> aunt_of (h @ new) q = aunt_of h q" by simp
qed

lemma sibs_in_join:
  assumes j: "join_roots sha lr rr h = (root, h')" "lr < rr" "rr < length h" and "lo \<le> lr" "sibs_in lo h"
  shows "sibs_in lo h'"
  unfolding sibs_in_def
proof (intro allI impI)
  fix q s
  assume q: "lo \<le> q \<and> q < length h' \<and> (node_Left (h' ! q) = Some s \<or> node_Right (h' ! q) = Some s)"
  note jr = join_roots_nth [OF j]
  consider "q = lr" | "q = rr" | "q = root" | "q < length h" "q \<noteq> lr" "q \<noteq> rr"
    using q jr(1,2) by linarith
  then show "lo \<le> s \<and> s < length h'"
  proof cases
    case 1
    then have "node_Left (h ! q) = Some s \<or> node_Right (h ! q) = Some s \<or> s = rr" using q jr(3) by auto
    then show ?thesis using 1 assms(2-4) jr(2) sibs_inD [OF assms(5), of q s] by auto
  next
    case 2
    then have "node_Left (h ! q) = Some s \<or> node_Right (h ! q) = Some s \<or> s = lr" using q jr(4) by auto
    then show ?thesis using 2 assms(2-4) jr(2) sibs_inD [OF assms(5), of q s] by auto
  next
    case 3
    then show ?thesis using q jr(5) by simp
  next
    case 4
    then show ?thesis using q jr(6) [OF 4] jr(2) sibs_inD [OF assms(5), of q s] by auto
  qed
qed

lemma sibs_in_append:
  assumes "sibs_in lo h1" "sibs_in (length h1) (h1 @ new)" "lo \<le> length h1"
  shows "sibs_in lo (h1 @ new)"
  unfolding sibs_in_def
proof (intro allI impI)
  fix q s
  assume q: "lo \<le> q \<and> q < length (h1 @ new) \<and> (node_Left ((h1 @ new) ! q) = Some s \<or> node_Right ((h1 @ new) ! q) = Some s)"
  show "lo \<le> s \<and> s < length (h1 @ new)"
  proof (cases "q < length h1")
    case True
    then have "lo \<le> s \<and> s < length h1" using q sibs_inD [OF assms(1), of q s] by (auto simp: nth_append)
    then show ?thesis by simp
  next
    case False
    then have "length h1 \<le> s \<and> s < length (h1 @ new)" using q sibs_inD [OF assms(2), of q s] by auto
    then show ?thesis using assms(3) by simp
  qed
qed

lemma join_roots_extends:
  assumes j: "join_roots sha lr rr h2 = (root, h3)" "lr < rr" "rr < length h2" "length h \<le> lr" "h2 = h @ n"
  shows "\<exists>new. new \<noteq> [] \<and> h3 = h @ new"
proof -
  note jr = join_roots_nth [OF j(1,2,3)]
  have "h3 = h @ drop (length h) h3"
  proof (rule nth_equalityI)
    show "length h3 = length (h @ drop (length h) h3)" using jr(2) j by simp
    fix q assume q: "q < length h3"
    have "h3 ! q = h ! q" if "q < length h"
      using jr(6) [of q] that j by (simp add: nth_append)
    then show "h3 ! q = (h @ drop (length h) h3) ! q" using q by (simp add: nth_append)
  qed
  then show ?thesis
    using jr(2) j by (intro exI [of _ "drop (length h) h3"]) simp
qed

lemma trails_ok_join:
  assumes l: "trails_ok sha xs h ls lr h1" and r: "trails_ok sha ys h1 rs rr h2"
    and j: "join_roots sha lr rr h2 = (root, h3)"
    and root: "tree_root sha (xs @ ys) = innerHash sha (tree_root sha xs) (tree_root sha ys)"
    and aunts: "\<And>i. i < length xs \<Longrightarrow> spec_aunts sha (xs @ ys) i = spec_aunts sha xs i @ [tree_root sha ys]"
      "\<And>i. i < length ys \<Longrightarrow> spec_aunts sha (xs @ ys) (length xs + i) = spec_aunts sha ys i @ [tree_root sha xs]"
  shows "trails_ok sha (xs @ ys) h (ls @ rs) root h3"
proof -
  obtain n1 where l: "n1 \<noteq> []" "h1 = h @ n1" "lr = length h1 - 1" "sibs_in (length h) h1"
      "h1 ! lr = \<lparr>node_Hash = tree_root sha xs, node_Parent = None, node_Left = None, node_Right = None\<rparr>"
      "length ls = length xs"
      "\<forall>i < length xs. length h \<le> ls ! i \<and> ls ! i \<le> lr \<and> node_Hash (h1 ! (ls ! i)) = xs ! i \<and>
        trail h1 (ls ! i) lr (spec_aunts sha xs i)"
    by (rule trails_okE [OF l])
  obtain n2 where r: "n2 \<noteq> []" "h2 = h1 @ n2" "rr = length h2 - 1" "sibs_in (length h1) h2"
      "h2 ! rr = \<lparr>node_Hash = tree_root sha ys, node_Parent = None, node_Left = None, node_Right = None\<rparr>"
      "length rs = length ys"
      "\<forall>i < length ys. length h1 \<le> rs ! i \<and> rs ! i \<le> rr \<and> node_Hash (h2 ! (rs ! i)) = ys ! i \<and>
        trail h2 (rs ! i) rr (spec_aunts sha ys i)"
    by (rule trails_okE [OF r])
  have ne: "0 < length n1" "0 < length n2" using l(1) r(1) by simp_all
  have lr: "lr < length h1" "length h \<le> lr" "lr < rr" "rr < length h2" "length h1 \<le> rr"
    unfolding l(2,3) r(2,3) length_append using ne by linarith+
  note jr = join_roots_nth [OF j lr(3,4)]
  have hl: "h2 ! lr = \<lparr>node_Hash = tree_root sha xs, node_Parent = None, node_Left = None, node_Right = None\<rparr>"
    using l(5) lr(1) r(2) by (simp add: nth_append)
  have s2: "sibs_in (length h) h2"
    unfolding r(2) by (rule sibs_in_append [OF l(4)]) (use r(2,4) l(2) in simp_all)
  have left: "length h \<le> ls ! i \<and> ls ! i \<le> root \<and> node_Hash (h3 ! (ls ! i)) = xs ! i \<and>
      trail h3 (ls ! i) root (spec_aunts sha (xs @ ys) i)" if i: "i < length xs" for i
  proof -
    have t: "length h \<le> ls ! i" "ls ! i \<le> lr" "node_Hash (h1 ! (ls ! i)) = xs ! i" "trail h1 (ls ! i) lr (spec_aunts sha xs i)"
      using l(7) i by auto
    have "trail h2 (ls ! i) lr (spec_aunts sha xs i)"
      unfolding r(2) using t(4) lr(1) t(1) l(4) by (rule trail_extend)
    then have "trail h3 (ls ! i) root (spec_aunts sha xs i @ [node_Hash (h2 ! (if lr = lr then rr else lr))])"
      by (rule trail_join [OF j lr(3,4), where lo = "length h"]) (use hl s2 t(1) lr(3) in auto)
    moreover have "node_Hash (h3 ! (ls ! i)) = xs ! i"
      using jr(7) [of "ls ! i"] t lr r(2) by (simp add: nth_append)
    ultimately show ?thesis using t lr jr(1) r(5) aunts(1) [OF i] by simp
  qed
  have right: "length h \<le> rs ! i \<and> rs ! i \<le> root \<and> node_Hash (h3 ! (rs ! i)) = ys ! i \<and>
      trail h3 (rs ! i) root (spec_aunts sha (xs @ ys) (length xs + i))" if i: "i < length ys" for i
  proof -
    have t: "length h1 \<le> rs ! i" "rs ! i \<le> rr" "node_Hash (h2 ! (rs ! i)) = ys ! i" "trail h2 (rs ! i) rr (spec_aunts sha ys i)"
      using r(7) i by auto
    have "trail h3 (rs ! i) root (spec_aunts sha ys i @ [node_Hash (h2 ! (if rr = lr then rr else lr))])"
      using t(4) by (rule trail_join [OF j lr(3,4), where lo = "length h"]) (use r(5) s2 lr t in auto)
    moreover have "node_Hash (h3 ! (rs ! i)) = ys ! i"
      using jr(7) [of "rs ! i"] t lr by simp
    ultimately show ?thesis using t lr jr(1) hl aunts(2) [OF i] by simp
  qed
  have new: "\<exists>new. new \<noteq> [] \<and> h3 = h @ new"
    by (rule join_roots_extends [OF j lr(3,4,2)]) (use l(2) r(2) in simp)
  have "length h \<le> (ls @ rs) ! i \<and> (ls @ rs) ! i \<le> root \<and> node_Hash (h3 ! ((ls @ rs) ! i)) = (xs @ ys) ! i \<and>
        trail h3 ((ls @ rs) ! i) root (spec_aunts sha (xs @ ys) i)" if i: "i < length (xs @ ys)" for i
  proof (cases "i < length xs")
    case True
    then show ?thesis using left l(6) by (simp add: nth_append)
  next
    case False
    then show ?thesis using right [of "i - length xs"] i l(6) by (simp add: nth_append)
  qed
  then show ?thesis
    unfolding trails_ok_def using new jr(1,2,5) hl r(5,6) l(6) root sibs_in_join [OF j lr(3,4,2) s2] by simp
qed

theorem trailsFromLeafHashes_ok:
  "\<exists>ts root h'. trailsFromLeafHashes sha hs h = Ok (ts, root, h') \<and> trails_ok sha hs h ts root h'"
proof (induction hs arbitrary: h rule: split_induct)
  case Nil
  obtain r h' where n: "new_node (emptyHash sha) h = (r, h')" by (cases "new_node (emptyHash sha) h")
  then show ?case using trails_ok_empty [OF n] by (simp add: trailsFromLeafHashes.simps)
next
  case (single x)
  obtain r h' where n: "new_node x h = (r, h')" by (cases "new_node x h")
  then show ?case using trails_ok_single [OF n] by (simp add: trailsFromLeafHashes.simps index_def)
next
  case (split hs)
  define k where "k = split_point (length hs)"
  have k: "0 < k" "k < length hs" using split_point_less [OF split(1)] by (simp_all add: k_def)
  note aunts = spec_aunts_split [OF split(1), of sha, folded k_def]
  obtain ls lr h1 where l: "trailsFromLeafHashes sha (take k hs) h = Ok (ls, lr, h1)"
      "trails_ok sha (take k hs) h ls lr h1"
    using split(2) [of h] by (auto simp: k_def)
  obtain rs rr h2 where r: "trailsFromLeafHashes sha (drop k hs) h1 = Ok (rs, rr, h2)"
      "trails_ok sha (drop k hs) h1 rs rr h2"
    using split(3) [of h1] by (auto simp: k_def)
  obtain root h3 where j: "join_roots sha lr rr h2 = (root, h3)" by (cases "join_roots sha lr rr h2")
  have "trails_ok sha (take k hs @ drop k hs) h (ls @ rs) root h3"
    using l(2) r(2) j
    by (rule trails_ok_join) (use aunts k tree_root_split [OF split(1), of sha] in \<open>simp_all add: k_def\<close>)
  moreover have "trailsFromLeafHashes sha hs h = Ok (ls @ rs, root, h3)"
    using l(1) r(1) j k getSplitPoint_nat [of "length hs"]
    by (subst trailsFromLeafHashes.simps) (auto simp flip: k_def)
  ultimately show ?case by simp
qed

lemma trailsFromByteSlices_eq:
  "trailsFromByteSlices sha items h = trailsFromLeafHashes sha (map (leafHash sha) items) h"
proof (induction items arbitrary: h rule: split_induct)
  case (split xs)
  then show ?case
    by (subst trailsFromByteSlices.simps, subst trailsFromLeafHashes.simps)
      (auto simp: getSplitPoint_nat take_map drop_map intro!: bind_out_cong split: prod.splits)
qed (simp_all add: trailsFromByteSlices.simps trailsFromLeafHashes.simps index_def)

section \<open>The generated proofs are accepted\<close>

definition spec_proof :: "hash_fn \<Rightarrow> bytes list \<Rightarrow> nat \<Rightarrow> Proof" where
  "spec_proof sha hs i =
     \<lparr>proof_Total = int (length hs), proof_Index = int i, proof_LeafHash = hs ! i, proof_Aunts = spec_aunts sha hs i\<rparr>"

lemma proofs_of_trails_map:
  assumes "\<And>i. i < length ts \<Longrightarrow> proof_of_trail h tot i (ts ! i) = Ok (f i)"
  shows "proofs_of_trails h ts tot = Ok (map f [0..<length ts])"
  using assms
proof (induction ts rule: rev_induct)
  case Nil
  then show ?case by (simp add: proofs_of_trails_def)
next
  case (snoc t ts)
  have "proofs_of_trails h ts tot = Ok (map f [0..<length ts])"
  proof (rule snoc.IH)
    fix i assume "i < length ts"
    then show "proof_of_trail h tot i (ts ! i) = Ok (f i)" using snoc.prems [of i] by (simp add: nth_append)
  qed
  moreover have "proof_of_trail h tot (length ts) t = Ok (f (length ts))"
    using snoc.prems [of "length ts"] by simp
  ultimately show ?case by (simp add: proofs_of_trails_def enumerate_append_eq)
qed

theorem ProofsFromLeafHashes_eq:
  "ProofsFromLeafHashes sha hs = Ok (tree_root sha hs, map (spec_proof sha hs) [0..<length hs])"
proof -
  obtain ts root h where t: "trailsFromLeafHashes sha hs [] = Ok (ts, root, h)" "trails_ok sha hs [] ts root h"
    using trailsFromLeafHashes_ok by blast
  have n: "h ! root = \<lparr>node_Hash = tree_root sha hs, node_Parent = None, node_Left = None, node_Right = None\<rparr>"
    "length ts = length hs"
    "\<And>i. i < length hs \<Longrightarrow> node_Hash (h ! (ts ! i)) = hs ! i \<and> trail h (ts ! i) root (spec_aunts sha hs i)"
    using t(2) unfolding trails_ok_def by auto
  have "aunt_of h root = []" using n(1) by (simp add: aunt_of_def)
  then have "proof_of_trail h (length hs) i (ts ! i) = Ok (spec_proof sha hs i)" if "i < length ts" for i
    using that n flatten_trail [of h "ts ! i" root "spec_aunts sha hs i" "[]"]
    by (simp add: proof_of_trail_def FlattenAunts_def spec_proof_def)
  then have "proofs_of_trails h ts (length hs) = Ok (map (spec_proof sha hs) [0..<length hs])"
    using proofs_of_trails_map [of ts h "length hs"] n(2) by simp
  then show ?thesis using t(1) n(1) by (simp add: ProofsFromLeafHashes_def)
qed

lemma ProofsFromByteSlices_eq: "ProofsFromByteSlices sha items = ProofsFromLeafHashes sha (map (leafHash sha) items)"
  by (simp add: ProofsFromByteSlices_def ProofsFromLeafHashes_def trailsFromByteSlices_eq)

lemma computeHashFromAunts_spec:
  "i < length hs \<Longrightarrow>
   computeHashFromAunts sha (int i) (int (length hs)) (hs ! i) (spec_aunts sha hs i) = Ok (tree_root sha hs)"
proof (induction hs arbitrary: i rule: split_induct)
  case Nil
  then show ?case by simp
next
  case (single x)
  then show ?case by (subst computeHashFromAunts.simps) simp
next
  case (split hs)
  define k where "k = split_point (length hs)"
  have k: "0 < k" "k < length hs" using split_point_less [OF split(1)] by (simp_all add: k_def)
  have ne: "hs \<noteq> []" using split(4) by auto
  have sp: "getSplitPoint (int (length hs)) = Ok (int k)" unfolding k_def using split(4) by (intro getSplitPoint_nat) auto
  note root = tree_root_split [OF split(1), of sha, folded k_def]
  note aunts = spec_aunts_split [OF split(1), of sha i, folded k_def]
  show ?case
  proof (cases "i < k")
    case True
    then have "computeHashFromAunts sha (int i) (int k) (hs ! i) (spec_aunts sha (take k hs) i) =
        Ok (tree_root sha (take k hs))"
      using split(2) [of i] k by (simp flip: k_def)
    then show ?thesis
      using True k ne split(1,4) sp root aunts by (subst computeHashFromAunts.simps) simp
  next
    case False
    then have "computeHashFromAunts sha (int i - int k) (int (length hs) - int k) (hs ! i) (spec_aunts sha (drop k hs) (i - k)) =
        Ok (tree_root sha (drop k hs))"
      using split(3) [of "i - k"] split(4) k by (simp add: of_nat_diff flip: k_def)
    then show ?thesis
      using False k ne split(1,4) sp root aunts by (subst computeHashFromAunts.simps) simp
  qed
qed

lemma length_tree_root:
  assumes sha: "\<And>x. length (sha x) = n" and hs: "\<forall>x \<in> set hs. length x = n"
  shows "length (tree_root sha hs) = n"
  using hs
proof (induction hs rule: split_induct)
  case (split hs)
  then show ?case using tree_root_split [OF split(1), of sha] by (simp add: innerHash_def sha)
qed (simp_all add: emptyHash_def sha)

lemma length_merkle_root: "(\<And>x. length (sha x) = n) \<Longrightarrow> length (merkle_root sha items) = n"
  by (auto simp: merkle_root_def leafHash_def intro!: length_tree_root)

lemma spec_aunts_hashes:
  assumes sha: "\<And>x. length (sha x) = n" and hs: "\<forall>x \<in> set hs. length x = n"
  shows "\<forall>a \<in> set (spec_aunts sha hs i). length a = n"
  using hs
proof (induction hs arbitrary: i rule: split_induct)
  case (split hs)
  have "\<forall>x \<in> set (take k hs). length x = n" "\<forall>x \<in> set (drop k hs). length x = n" for k
    using split(4) by (auto dest: in_set_takeD in_set_dropD)
  then show ?case
    using split(2,3) length_tree_root [OF sha] spec_aunts_split [OF split(1), of sha i] by auto
qed simp_all

lemma length_spec_aunts: "length hs \<le> 2 ^ d \<Longrightarrow> length (spec_aunts sha hs i) \<le> d"
proof (induction hs arbitrary: i d rule: split_induct)
  case (split hs)
  obtain j where j: "split_point (length hs) = 2 ^ j" "2 ^ j < length hs" "length hs \<le> 2 * 2 ^ j"
    using split(1) by (rule split_point_power)
  have "(2::nat) ^ j < 2 ^ d" using j(2) split(4) by linarith
  then have "j < d" by (rule power_less_imp_less_exp [rotated]) simp
  then obtain e where e: "d = Suc e" "j \<le> e" by (cases d) auto
  have "length (spec_aunts sha (take (2 ^ j) hs) i) \<le> e" for i
    using split(2) [of j i] e(2) by (simp add: j)
  moreover have "length (spec_aunts sha (drop (2 ^ j) hs) i) \<le> e" for i
    using split(3) [of j i] e(2) j(1) diff_le_mono [OF j(3), of "2 ^ j"] by simp
  ultimately show ?case using spec_aunts_split [OF split(1), of sha i] by (simp add: j(1) e(1))
qed simp_all

theorem spec_proof_valid:
  assumes sha: "\<And>x. length (sha x) = tmhash_Size" and "length items \<le> 2 ^ MaxAunts" "i < length items"
  shows "Proof_ValidateBasic (spec_proof sha (map (leafHash sha) items) i) = Ok ()"
proof -
  have "\<forall>a \<in> set (spec_aunts sha (map (leafHash sha) items) i). length a = tmhash_Size"
    by (rule spec_aunts_hashes [of sha tmhash_Size, OF sha]) (simp add: leafHash_def sha)
  moreover have "length (spec_aunts sha (map (leafHash sha) items) i) \<le> MaxAunts"
    using assms(2) by (intro length_spec_aunts) simp
  ultimately show ?thesis
    using assms(3) sha by (auto simp: Proof_ValidateBasic_def spec_proof_def leafHash_def)
qed

theorem spec_proof_verifies:
  assumes "i < length items"
  shows "Proof_Verify sha (spec_proof sha (map (leafHash sha) items) i) (Some (merkle_root sha items)) (items ! i) = Ok ()"
  using assms computeHashFromAunts_spec [of i "map (leafHash sha) items" sha]
  by (simp add: Proof_Verify_def spec_proof_def computeRootHash_def merkle_root_def)

section \<open>An accepted proof is a proof\<close>

text \<open>
  The inputs that are hashed to compute the root of a tree, and those that are hashed to check a
  proof. Two different ones with the same hash are a collision found by whoever made the proof.
\<close>

function tree_inputs :: "hash_fn \<Rightarrow> bytes list \<Rightarrow> bytes list" where
  "tree_inputs sha items =
     (if length items = 0 then [[]] else if length items = 1 then [leafPrefix @ hd items]
      else (innerPrefix @ merkle_root sha (take (split_point (length items)) items) @
              merkle_root sha (drop (split_point (length items)) items)) #
           tree_inputs sha (take (split_point (length items)) items) @
           tree_inputs sha (drop (split_point (length items)) items))"
  by auto
termination
proof (relation "measure (\<lambda>(sha, items). length items)", goal_cases)
  case (2 sha items)
  then show ?case using split_point_bounds [of "length items"] by simp
next
  case (3 sha items)
  then show ?case using split_point_bounds [of "length items"] by simp
qed simp

fun proof_inputs :: "hash_fn \<Rightarrow> int \<Rightarrow> int \<Rightarrow> bytes \<Rightarrow> bytes list \<Rightarrow> bytes list" where
  "proof_inputs sha ix tot leaf aunts =
     (if aunts = [] then [leafPrefix @ leaf]
      else case getSplitPoint tot of
        Ok numLeft \<Rightarrow>
          (if ix < numLeft
           then (case computeHashFromAunts sha ix numLeft (leafHash sha leaf) (butlast aunts) of
                   Ok h \<Rightarrow> [innerPrefix @ h @ last aunts] | _ \<Rightarrow> []) @
                proof_inputs sha ix numLeft leaf (butlast aunts)
           else (case computeHashFromAunts sha (ix - numLeft) (tot - numLeft) (leafHash sha leaf) (butlast aunts) of
                   Ok h \<Rightarrow> [innerPrefix @ last aunts @ h] | _ \<Rightarrow> []) @
                proof_inputs sha (ix - numLeft) (tot - numLeft) leaf (butlast aunts))
      | _ \<Rightarrow> [])"

declare tree_inputs.simps [simp del] proof_inputs.simps [simp del]

definition collides :: "hash_fn \<Rightarrow> bytes list \<Rightarrow> bytes list \<Rightarrow> bool" where
  "collides sha xs ys \<longleftrightarrow> (\<exists>x \<in> set xs. \<exists>y \<in> set ys. x \<noteq> y \<and> sha x = sha y)"

lemma collidesI: "x \<in> set xs \<Longrightarrow> y \<in> set ys \<Longrightarrow> x \<noteq> y \<Longrightarrow> sha x = sha y \<Longrightarrow> collides sha xs ys"
  unfolding collides_def by blast

lemma collides_mono: "collides sha xs ys \<Longrightarrow> set xs \<subseteq> set xs' \<Longrightarrow> set ys \<subseteq> set ys' \<Longrightarrow> collides sha xs' ys'"
  unfolding collides_def by blast

text \<open>Where the inputs of the root of a tree, and of a proof, are among the hashed inputs.\<close>

lemma merkle_root_split:
  "2 \<le> length items \<Longrightarrow> merkle_root sha items =
     sha (innerPrefix @ merkle_root sha (take (split_point (length items)) items) @
            merkle_root sha (drop (split_point (length items)) items))"
  using tree_root_split [of "map (leafHash sha) items" sha]
  by (simp add: merkle_root_def innerHash_def take_map drop_map)

lemma tree_inputs_short:
  "tree_inputs sha [] = [[]]" "tree_inputs sha [x] = [leafPrefix @ x]"
  by (simp_all add: tree_inputs.simps)

lemma tree_inputs_split:
  "2 \<le> length items \<Longrightarrow> tree_inputs sha items =
     (innerPrefix @ merkle_root sha (take (split_point (length items)) items) @
              merkle_root sha (drop (split_point (length items)) items)) #
           tree_inputs sha (take (split_point (length items)) items) @
           tree_inputs sha (drop (split_point (length items)) items)"
  by (subst tree_inputs.simps) auto

lemma computeHashFromAunts_length:
  assumes "\<And>x. length (sha x) = n" "computeHashFromAunts sha ix tot leaf aunts = Ok h" "length leaf = n"
  shows "length h = n"
  using assms(2,3)
  by (subst (asm) computeHashFromAunts.simps) (auto simp: innerHash_def assms(1) split: if_splits)

lemma root_of_leaf:
  assumes "merkle_root sha items = sha (leafPrefix @ leaf)"
  shows "(\<exists>x. items = [x] \<and> x = leaf) \<or> collides sha (tree_inputs sha items) [leafPrefix @ leaf]"
proof -
  consider "items = []" | x where "items = [x]" | "2 \<le> length items"
    by (cases items; cases "tl items") auto
  then show ?thesis
  proof cases
    case 1
    then show ?thesis
      using assms by (intro disjI2 collidesI [of "[]"]) (auto simp: tree_inputs_short merkle_root_def emptyHash_def leafPrefix_def)
  next
    case 2
    then show ?thesis
      using assms collidesI [of "leafPrefix @ x" "tree_inputs sha items" "leafPrefix @ leaf" "[leafPrefix @ leaf]" sha]
      by (auto simp: tree_inputs_short merkle_root_def leafHash_def)
  next
    case 3
    then obtain v vs where "tree_inputs sha items = (innerPrefix @ v) # vs" "merkle_root sha items = sha (innerPrefix @ v)"
      using merkle_root_split [OF 3, of sha] tree_inputs_split [OF 3, of sha] by blast
    then show ?thesis
      using assms by (intro disjI2 collidesI [of "innerPrefix @ v" _ "leafPrefix @ leaf"]) (auto simp: leafPrefix_def innerPrefix_def)
  qed
qed

text \<open>
  A root that is the hash of two halves: the tree has two subtrees with these roots, or the hashed
  inputs collide. Either half has the length of a hash.
\<close>

lemma root_of_inner:
  assumes sha: "\<And>x. length (sha x) = n"
    and r: "merkle_root sha items = sha (innerPrefix @ l @ r)" and "length l = n \<or> length r = n"
  shows "(2 \<le> length items \<and> merkle_root sha (take (split_point (length items)) items) = l \<and>
            merkle_root sha (drop (split_point (length items)) items) = r) \<or>
         collides sha (tree_inputs sha items) [innerPrefix @ l @ r]"
proof -
  consider "items = []" | x where "items = [x]" | "2 \<le> length items"
    by (cases items; cases "tl items") auto
  then show ?thesis
  proof cases
    case 1
    then show ?thesis
      using r by (intro disjI2 collidesI [of "[]"]) (auto simp: tree_inputs_short merkle_root_def emptyHash_def innerPrefix_def)
  next
    case 2
    then show ?thesis
      using r by (intro disjI2 collidesI [of "leafPrefix @ x"])
        (auto simp: tree_inputs_short merkle_root_def leafHash_def leafPrefix_def innerPrefix_def)
  next
    case 3
    define L R where "L = merkle_root sha (take (split_point (length items)) items)"
      and "R = merkle_root sha (drop (split_point (length items)) items)"
    have len: "length L = n" "length R = n" by (simp_all add: L_def R_def length_merkle_root sha)
    show ?thesis
    proof (cases "L @ R = l @ r")
      case True
      then have "length l = length L" using assms(3) len arg_cong [OF True, of length] by auto
      then show ?thesis using True 3 by (simp add: L_def R_def)
    next
      case False
      then show ?thesis
        using r merkle_root_split [OF 3, of sha] tree_inputs_split [OF 3, of sha]
        by (intro disjI2 collidesI [of "innerPrefix @ L @ R"]) (auto simp: L_def R_def)
    qed
  qed
qed

definition in_tree :: "bytes list \<Rightarrow> int \<Rightarrow> int \<Rightarrow> bytes \<Rightarrow> bool" where
  "in_tree items ix tot leaf \<longleftrightarrow> leaf \<in> set items \<and> (tot = int (length items) \<longrightarrow> leaf = items ! nat ix)"

lemma in_tree_left:
  assumes "in_tree (take (split_point (length items)) items) ix k leaf" "2 \<le> length items"
    and "getSplitPoint tot = Ok k" "0 \<le> ix" "ix < k"
  shows "in_tree items ix tot leaf"
proof -
  have "0 < length items" using assms(2) by linarith
  then have "k = int (split_point (length items))" if "tot = int (length items)"
    using getSplitPoint_nat [of "length items"] assms(3) that by simp
  then show ?thesis
    using assms split_point_less [OF assms(2)] by (auto simp: in_tree_def dest: in_set_takeD)
qed

lemma in_tree_right:
  assumes "in_tree (drop (split_point (length items)) items) (ix - k) (tot - k) leaf" "2 \<le> length items"
    and "getSplitPoint tot = Ok k" "k \<le> ix"
  shows "in_tree items ix tot leaf"
proof -
  have "0 < length items" using assms(2) by linarith
  then have "k = int (split_point (length items))" if "tot = int (length items)"
    using getSplitPoint_nat [of "length items"] assms(3) that by simp
  then show ?thesis
    using assms split_point_less [OF assms(2)] by (auto simp: in_tree_def nat_diff_distrib dest: in_set_dropD)
qed

text \<open>The last step of a proof, read from the root: which side it takes and what is hashed.\<close>

lemma computeHashFromAunts_snoc:
  assumes "computeHashFromAunts sha ix tot (leafHash sha leaf) (aunts @ [a]) = Ok h"
  obtains k l where "getSplitPoint tot = Ok k" "0 \<le> ix" "ix < k"
      "computeHashFromAunts sha ix k (leafHash sha leaf) aunts = Ok l" "h = sha (innerPrefix @ l @ a)"
      "proof_inputs sha ix tot leaf (aunts @ [a]) = (innerPrefix @ l @ a) # proof_inputs sha ix k leaf aunts"
  | k r where "getSplitPoint tot = Ok k" "k \<le> ix"
      "computeHashFromAunts sha (ix - k) (tot - k) (leafHash sha leaf) aunts = Ok r" "h = sha (innerPrefix @ a @ r)"
      "proof_inputs sha ix tot leaf (aunts @ [a]) = (innerPrefix @ a @ r) # proof_inputs sha (ix - k) (tot - k) leaf aunts"
proof -
  have "\<not> (ix \<ge> tot \<or> ix < 0 \<or> tot \<le> 0)" "tot \<noteq> 1"
    using assms by (subst (asm) computeHashFromAunts.simps; auto split: if_splits)+
  then obtain k where k: "getSplitPoint tot = Ok k" "0 \<le> ix" and
    step: "(if ix < k
            then bind_out (computeHashFromAunts sha ix k (leafHash sha leaf) aunts) (\<lambda>l. Ok (innerHash sha l a))
            else bind_out (computeHashFromAunts sha (ix - k) (tot - k) (leafHash sha leaf) aunts)
                   (\<lambda>r. Ok (innerHash sha a r))) = Ok h"
    using assms unfolding computeHashFromAunts.simps [of sha ix tot "leafHash sha leaf" "aunts @ [a]"]
    unfolding butlast_snoc last_snoc by auto
  show ?thesis
  proof (cases "ix < k")
    case True
    then show ?thesis
      using that(1) [OF k True] step k
      by (auto simp: innerHash_def proof_inputs.simps [of _ _ _ _ "aunts @ [a]"])
  next
    case False
    then show ?thesis
      using that(2) [OF k(1)] step k
      by (auto simp: innerHash_def proof_inputs.simps [of _ _ _ _ "aunts @ [a]"])
  qed
qed

theorem computeHashFromAunts_sound:
  assumes sha: "\<And>x. length (sha x) = n"
    and "computeHashFromAunts sha ix tot (leafHash sha leaf) aunts = Ok (merkle_root sha items)"
  shows "in_tree items ix tot leaf \<or> collides sha (tree_inputs sha items) (proof_inputs sha ix tot leaf aunts)"
  using assms(2)
proof (induction aunts arbitrary: ix tot items rule: rev_induct)
  case Nil
  have range: "\<not> (ix \<ge> tot \<or> ix < 0 \<or> tot \<le> 0)" "tot = 1" "merkle_root sha items = sha (leafPrefix @ leaf)"
    using Nil by (subst (asm) computeHashFromAunts.simps; auto simp: leafHash_def split: if_splits)+
  then have "ix = 0" by linarith
  then show ?case
    using root_of_leaf [OF range(3)] by (auto simp: in_tree_def proof_inputs.simps)
next
  case (snoc a aunts)
  note len = computeHashFromAunts_length [of sha n, OF sha]
  from snoc.prems show ?case
  proof (cases rule: computeHashFromAunts_snoc)
    case (1 k l)
    have "length l = n" using len [OF 1(4)] by (simp add: leafHash_def sha)
    then consider (sub) "2 \<le> length items" "merkle_root sha (take (split_point (length items)) items) = l"
      | (col) "collides sha (tree_inputs sha items) [innerPrefix @ l @ a]"
      using root_of_inner [of sha n, OF sha 1(5)] by auto
    then show ?thesis
    proof cases
      case sub
      have "set (tree_inputs sha (take (split_point (length items)) items)) \<subseteq> set (tree_inputs sha items)"
        using tree_inputs_split [OF sub(1), of sha] by auto
      then show ?thesis
        using snoc.IH [of ix k "take (split_point (length items)) items"] 1(4) sub
          in_tree_left [OF _ sub(1) 1(1,2,3)] collides_mono [of sha] unfolding 1(6)
        by (metis set_subset_Cons)
    qed (use collides_mono [of sha] 1(6) in fastforce)
  next
    case (2 k r)
    have "length r = n" using len [OF 2(3)] by (simp add: leafHash_def sha)
    then consider (sub) "2 \<le> length items" "merkle_root sha (drop (split_point (length items)) items) = r"
      | (col) "collides sha (tree_inputs sha items) [innerPrefix @ a @ r]"
      using root_of_inner [of sha n, OF sha 2(4)] by auto
    then show ?thesis
    proof cases
      case sub
      have "set (tree_inputs sha (drop (split_point (length items)) items)) \<subseteq> set (tree_inputs sha items)"
        using tree_inputs_split [OF sub(1), of sha] by auto
      then show ?thesis
        using snoc.IH [of "ix - k" "tot - k" "drop (split_point (length items)) items"] 2(3) sub
          in_tree_right [OF _ sub(1) 2(1,2)] collides_mono [of sha] unfolding 2(5)
        by (metis set_subset_Cons)
    qed (use collides_mono [of sha] 2(5) in fastforce)
  qed
qed

theorem Proof_Verify_sound:
  assumes "\<And>x. length (sha x) = n" "Proof_Verify sha sp (Some (merkle_root sha items)) leaf = Ok ()"
  shows "in_tree items (proof_Index sp) (proof_Total sp) leaf \<or>
    collides sha (tree_inputs sha items) (proof_inputs sha (proof_Index sp) (proof_Total sp) leaf (proof_Aunts sp))"
  using assms(2) by (intro computeHashFromAunts_sound [of sha n, OF assms(1)])
    (auto simp: Proof_Verify_def computeRootHash_def split: if_splits)

section \<open>A root determines its items\<close>

lemma root_of_empty:
  assumes "merkle_root sha items = sha []"
  shows "items = [] \<or> collides sha (tree_inputs sha items) [[]]"
proof -
  consider "items = []" | x where "items = [x]" | "2 \<le> length items"
    by (cases items; cases "tl items") auto
  then show ?thesis
  proof cases
    case 2
    then show ?thesis
      using assms by (intro disjI2 collidesI [of "leafPrefix @ x"])
        (auto simp: tree_inputs_short merkle_root_def leafHash_def leafPrefix_def)
  next
    case 3
    then obtain v vs where "tree_inputs sha items = (innerPrefix @ v) # vs" "merkle_root sha items = sha (innerPrefix @ v)"
      using merkle_root_split [OF 3, of sha] tree_inputs_split [OF 3, of sha] by blast
    then show ?thesis
      using assms by (intro disjI2 collidesI [of "innerPrefix @ v" _ "[]"]) (auto simp: innerPrefix_def)
  qed simp
qed

lemma collides_sym: "collides sha xs ys \<Longrightarrow> collides sha ys xs"
  unfolding collides_def by metis

lemma merkle_root_binding:
  assumes sha: "\<And>x. length (sha x) = n" and eq: "merkle_root sha xs = merkle_root sha ys"
  shows "xs = ys \<or> collides sha (tree_inputs sha xs) (tree_inputs sha ys)"
  using eq
proof (induction xs arbitrary: ys rule: split_induct)
  case Nil
  then have "merkle_root sha ys = sha []" by (simp add: merkle_root_def emptyHash_def)
  from root_of_empty [OF this] show ?case
    by (auto simp: tree_inputs_short dest: collides_sym)
next
  case (single x)
  then have "merkle_root sha ys = sha (leafPrefix @ x)" by (simp add: merkle_root_def leafHash_def)
  from root_of_leaf [OF this] show ?case by (auto simp: tree_inputs_short dest: collides_sym)
next
  case (split xs)
  let ?l = "take (split_point (length xs)) xs" and ?r = "drop (split_point (length xs)) xs"
  have "merkle_root sha ys = sha (innerPrefix @ merkle_root sha ?l @ merkle_root sha ?r)"
    using merkle_root_split [OF split(1), of sha] split.prems by simp
  from root_of_inner [OF sha this] length_merkle_root [of sha, OF sha]
  consider (eq) "2 \<le> length ys" "merkle_root sha (take (split_point (length ys)) ys) = merkle_root sha ?l"
      "merkle_root sha (drop (split_point (length ys)) ys) = merkle_root sha ?r"
    | (coll) "collides sha (tree_inputs sha ys) [innerPrefix @ merkle_root sha ?l @ merkle_root sha ?r]" by blast
  then show ?case
  proof cases
    case eq
    note sub = tree_inputs_split [OF split(1), of sha] tree_inputs_split [OF eq(1), of sha]
    show ?thesis
    proof (cases "?l = take (split_point (length ys)) ys \<and> ?r = drop (split_point (length ys)) ys")
      case True
      then have "xs = ys" by (metis append_take_drop_id)
      then show ?thesis ..
    next
      case False
      with split.IH(1) [OF eq(2) [symmetric]] split.IH(2) [OF eq(3) [symmetric]]
      have "collides sha (tree_inputs sha ?l) (tree_inputs sha (take (split_point (length ys)) ys)) \<or>
          collides sha (tree_inputs sha ?r) (tree_inputs sha (drop (split_point (length ys)) ys))" by blast
      then show ?thesis by (auto simp: sub intro: collides_mono)
    qed
  next
    case coll
    then have "collides sha (tree_inputs sha ys) (tree_inputs sha xs)"
      by (rule collides_mono) (simp_all add: tree_inputs_split [OF split(1)])
    then show ?thesis by (blast dest: collides_sym)
  qed
qed

section \<open>Properties\<close>

text \<open>C31. The recursive and the in-place iterative computation of a Merkle root never panic and
  return the same hash, that of the RFC 6962 tree over the leaf hashes.\<close>

theorem merkle_iterative_recursive:
  "HashFromByteSlicesIterative sha items = Ok (merkle_root sha items) \<and>
   HashFromByteSlices sha items = Ok (merkle_root sha items)"
  by (simp add: HashFromByteSlicesIterative_root HashFromByteSlices_def hashFromByteSlices_root)

text \<open>C30. Completeness of inclusion proofs: for any list of items, proof generation returns the
  root and one proof per item, and each proof passes \<open>ValidateBasic\<close> and is accepted by \<open>Verify\<close>
  for its own item against that root.\<close>

theorem merkle_proofs_complete:
  assumes "\<And>x. length (sha x) = tmhash_Size" "length items \<le> 2 ^ MaxAunts"
  shows "\<exists>root proofs. ProofsFromByteSlices sha items = Ok (root, proofs) \<and>
    HashFromByteSlices sha items = Ok root \<and> length proofs = length items \<and>
    (\<forall>i < length items. proof_Index (proofs ! i) = int i \<and> proof_Total (proofs ! i) = int (length items) \<and>
       Proof_ValidateBasic (proofs ! i) = Ok () \<and> Proof_Verify sha (proofs ! i) (Some root) (items ! i) = Ok ())"
proof -
  let ?hs = "map (leafHash sha) items"
  have "ProofsFromByteSlices sha items = Ok (merkle_root sha items, map (spec_proof sha ?hs) [0..<length items])"
    by (simp add: ProofsFromByteSlices_eq ProofsFromLeafHashes_eq merkle_root_def)
  then show ?thesis
    using spec_proof_valid [of sha items, OF assms] spec_proof_verifies
    by (simp add: HashFromByteSlices_def hashFromByteSlices_root spec_proof_def)
qed

definition toy_hash :: "bytes \<Rightarrow> bytes" where
  "toy_hash x = take 32 (x @ replicate 32 0)"

theorem merkle_proofs_complete_witness:
  "\<exists>root proofs. ProofsFromByteSlices toy_hash [[1], [2], [3]] = Ok (root, proofs) \<and> length proofs = 3 \<and>
     Proof_Verify toy_hash (proofs ! 2) (Some root) [3] = Ok ()"
proof -
  have "length (toy_hash x) = tmhash_Size" for x by (simp add: toy_hash_def)
  from merkle_proofs_complete [of toy_hash "[[1], [2], [3]]", OF this] obtain root proofs
    where *: "ProofsFromByteSlices toy_hash [[1], [2], [3]] = Ok (root, proofs)" "length proofs = 3"
      "\<forall>i < 3. Proof_Verify toy_hash (proofs ! i) (Some root) ([[1], [2], [3]] ! i) = Ok ()" by auto
  from *(3) have "Proof_Verify toy_hash (proofs ! 2) (Some root) ([[1], [2], [3]] ! 2) = Ok ()" by (rule allE [of _ 2]) simp
  with *(1,2) show ?thesis by auto
qed

text \<open>C8. Soundness of inclusion proofs: if \<open>Verify\<close> accepts a proof against the root of a list of
  items, then the leaf is one of the items, and the one at the proof's index when the proof's total
  is the number of items; or else two different inputs hashed by the tree and by the check have the
  same hash.\<close>

theorem merkle_proofs_sound:
  assumes "\<And>x. length (sha x) = tmhash_Size" "HashFromByteSlices sha items = Ok root"
    and "Proof_Verify sha sp (Some root) leaf = Ok ()"
  shows "leaf \<in> set items \<and> (proof_Total sp = int (length items) \<longrightarrow> leaf = items ! nat (proof_Index sp)) \<or>
    collides sha (tree_inputs sha items) (proof_inputs sha (proof_Index sp) (proof_Total sp) leaf (proof_Aunts sp))"
  using Proof_Verify_sound [of sha tmhash_Size sp items leaf] assms
  by (simp add: HashFromByteSlices_def hashFromByteSlices_root in_tree_def)

theorem merkle_proofs_sound_witness:
  "[2] \<in> set [[1], [2 :: byte]] \<or>
   collides toy_hash (tree_inputs toy_hash [[1], [2]]) (proof_inputs toy_hash 1 2 [2] [leafHash toy_hash [1]])"
proof -
  let ?sp = "\<lparr>proof_Total = 2, proof_Index = 1, proof_LeafHash = leafHash toy_hash [2], proof_Aunts = [leafHash toy_hash [1]]\<rparr>"
  have "Proof_Verify toy_hash ?sp (Some (merkle_root toy_hash [[1], [2]])) [2] = Ok ()"
    using spec_proof_verifies [of 1 "[[1], [2]]" toy_hash] split_pointI [of 0 2]
    by (simp add: spec_proof_def spec_aunts_split numeral_2_eq_2)
  then show ?thesis
    using merkle_proofs_sound [of toy_hash "[[1], [2]]" "merkle_root toy_hash [[1], [2]]" ?sp "[2]"]
    by (simp add: toy_hash_def HashFromByteSlices_def hashFromByteSlices_root)
qed

end
