(* ===== verification/MerkleParallel.thy ===== *)
theory MerkleParallel
  imports MerkleProof "HOL-Library.Multiset"
begin

text \<open>
  The parallel tree of \<open>crypto/merkle/parallel_tree.go\<close>. Two sources of concurrency:

  \<^item> the workers of \<open>computeLeafHashesParallel\<close> take indices from a closed channel that was filled
    with every index once. A run is the order in which the indices are written, a parameter
    \<open>order\<close>; a channel delivers every queued value exactly once, so the order is a permutation of
    the indices, which is the hypothesis of the lemmas.
  \<^item> the two goroutines of \<open>buildBalancedTree\<close> and \<open>trailsFromLeafHashesParallel\<close> work on disjoint
    halves and are joined before their results are used, so the model runs them one after the
    other. The number of workers only decides whether they are spawned.

  \<open>numCPU\<close> is \<open>runtime.NumCPU()\<close>.
\<close>

section \<open>The code\<close>

abbreviation minItemsForParallel :: nat where "minItemsForParallel \<equiv> 8"
abbreviation minItemsForSmallLeaves :: nat where "minItemsForSmallLeaves \<equiv> 32"
abbreviation minLeafSizeForParallel :: int where "minLeafSizeForParallel \<equiv> 1024"
abbreviation minTreeSizeForParallelBuild :: nat where "minTreeSizeForParallelBuild \<equiv> 16"
abbreviation leafSizeEstimateSampleSize :: nat where "leafSizeEstimateSampleSize \<equiv> 5"

definition estimateAverageLeafSize :: "bytes list \<Rightarrow> int" where
  "estimateAverageLeafSize items =
     (if length items = 0 then 0
      else let sampleSize = min (length items) leafSizeEstimateSampleSize;
               totalSize = sum_list (map (\<lambda>i. int (length (items ! i))) [0..<sampleSize])
           in totalSize sdiv int sampleSize)"

definition computeLeafHashesParallel :: "hash_fn \<Rightarrow> nat list \<Rightarrow> bytes list \<Rightarrow> (bytes list) result" where
  "computeLeafHashesParallel sha order items =
     fold_out (\<lambda>idx leafHashes.
         bind_out (index items (int idx)) (\<lambda>x. store leafHashes (int idx) (leafHashOpt sha x)))
       order (replicate (length items) [])"

function buildBalancedTree :: "hash_fn \<Rightarrow> bytes list \<Rightarrow> int \<Rightarrow> bytes result" where
  "buildBalancedTree sha hashes maxWorkers =
     (if length hashes = 0 then Ok (emptyHash sha)
      else if length hashes = 1 then index hashes 0
      else if length hashes = 2
      then bind_out (index hashes 0) (\<lambda>a. bind_out (index hashes 1) (\<lambda>b. Ok (innerHashOpt sha a b)))
      else bind_out (getSplitPoint (int (length hashes))) (\<lambda>k.
           if length hashes \<ge> minTreeSizeForParallelBuild \<and> maxWorkers > 1
           then bind_out (buildBalancedTree sha (take (nat k) hashes) (maxWorkers sdiv 2)) (\<lambda>left.
                bind_out (buildBalancedTree sha (drop (nat k) hashes) (maxWorkers sdiv 2)) (\<lambda>right.
                Ok (innerHashOpt sha left right)))
           else bind_out (buildBalancedTree sha (take (nat k) hashes) 1) (\<lambda>left.
                bind_out (buildBalancedTree sha (drop (nat k) hashes) 1) (\<lambda>right.
                Ok (innerHashOpt sha left right)))))"
  by auto
termination
  by (relation "measure (\<lambda>(sha, hashes, maxWorkers). length hashes)")
    (auto dest: getSplitPoint_Ok)

definition parallelHash :: "hash_fn \<Rightarrow> int \<Rightarrow> nat list \<Rightarrow> bytes list \<Rightarrow> bytes result" where
  "parallelHash sha numCPU order items =
     (let useParallel = (length items \<ge> minItemsForParallel \<and>
                         (estimateAverageLeafSize items \<ge> minLeafSizeForParallel \<or>
                          length items \<ge> minItemsForSmallLeaves))
      in if \<not> useParallel then HashFromByteSlices sha items
         else bind_out (computeLeafHashesParallel sha order items) (\<lambda>leafHashes.
              buildBalancedTree sha leafHashes numCPU))"

definition ParallelHashFromByteSlices :: "hash_fn \<Rightarrow> int \<Rightarrow> nat list \<Rightarrow> bytes list \<Rightarrow> bytes result" where
  "ParallelHashFromByteSlices sha numCPU order items =
     (if length items = 0 then Ok (emptyHash sha)
      else if length items = 1 then bind_out (index items 0) (\<lambda>x. Ok (leafHash sha x))
      else if length items = 2
      then bind_out (index items 0) (\<lambda>a. bind_out (index items 1) (\<lambda>b.
           Ok (innerHash sha (leafHash sha a) (leafHash sha b))))
      else parallelHash sha numCPU order items)"

function trailsFromLeafHashesParallel ::
  "hash_fn \<Rightarrow> bytes list \<Rightarrow> int \<Rightarrow> heap \<Rightarrow> (nat list \<times> nat \<times> heap) result" where
  "trailsFromLeafHashesParallel sha leafHashes maxWorkers h =
     (if length leafHashes = 0 then (case new_node (emptyHash sha) h of (r, h') \<Rightarrow> Ok ([], r, h'))
      else if length leafHashes = 1
      then bind_out (index leafHashes 0) (\<lambda>x. case new_node x h of (r, h') \<Rightarrow> Ok ([r], r, h'))
      else bind_out (getSplitPoint (int (length leafHashes))) (\<lambda>k.
           if length leafHashes \<ge> minTreeSizeForParallelBuild \<and> maxWorkers > 1
           then bind_out (trailsFromLeafHashesParallel sha (take (nat k) leafHashes) (maxWorkers sdiv 2) h) (\<lambda>(lefts, leftRoot, h1).
                bind_out (trailsFromLeafHashesParallel sha (drop (nat k) leafHashes) (maxWorkers sdiv 2) h1) (\<lambda>(rights, rightRoot, h2).
                case join_roots sha leftRoot rightRoot h2 of (root, h3) \<Rightarrow> Ok (lefts @ rights, root, h3)))
           else bind_out (trailsFromLeafHashesParallel sha (take (nat k) leafHashes) 1 h) (\<lambda>(lefts, leftRoot, h1).
                bind_out (trailsFromLeafHashesParallel sha (drop (nat k) leafHashes) 1 h1) (\<lambda>(rights, rightRoot, h2).
                case join_roots sha leftRoot rightRoot h2 of (root, h3) \<Rightarrow> Ok (lefts @ rights, root, h3)))))"
  by auto
termination
  by (relation "measure (\<lambda>(sha, leafHashes, maxWorkers, h). length leafHashes)")
    (auto dest: getSplitPoint_Ok)

declare buildBalancedTree.simps [simp del] trailsFromLeafHashesParallel.simps [simp del]

definition shouldUseParallelProofs :: "bytes list \<Rightarrow> bool" where
  "shouldUseParallelProofs items =
     (if length items < minItemsForParallel then False
      else estimateAverageLeafSize items \<ge> minLeafSizeForParallel \<or> length items \<ge> minItemsForSmallLeaves)"

definition parallelProofsFromByteSlices ::
  "hash_fn \<Rightarrow> int \<Rightarrow> nat list \<Rightarrow> bytes list \<Rightarrow> (bytes \<times> Proof list) result" where
  "parallelProofsFromByteSlices sha numCPU order items =
     bind_out (computeLeafHashesParallel sha order items) (\<lambda>leafHashes.
     bind_out (trailsFromLeafHashesParallel sha leafHashes numCPU []) (\<lambda>(trails, rootNode, h).
     bind_out (proofs_of_trails h trails (length items)) (\<lambda>proofs.
     Ok (node_Hash (h ! rootNode), proofs))))"

definition ParallelProofsFromByteSlices ::
  "hash_fn \<Rightarrow> int \<Rightarrow> nat list \<Rightarrow> bytes list \<Rightarrow> (bytes \<times> Proof list) result" where
  "ParallelProofsFromByteSlices sha numCPU order items =
     (if length items = 0 then Ok (emptyHash sha, [])
      else if shouldUseParallelProofs items then parallelProofsFromByteSlices sha numCPU order items
      else ProofsFromByteSlices sha items)"

definition shouldUseParallelProofsFromLeafHashes :: "bytes list \<Rightarrow> bool" where
  "shouldUseParallelProofsFromLeafHashes leafHashes =
     (if length leafHashes < minItemsForParallel then False
      else length leafHashes \<ge> minItemsForSmallLeaves)"

definition parallelProofsFromLeafHashes :: "hash_fn \<Rightarrow> int \<Rightarrow> bytes list \<Rightarrow> (bytes \<times> Proof list) result" where
  "parallelProofsFromLeafHashes sha numCPU leafHashes =
     bind_out (trailsFromLeafHashesParallel sha leafHashes numCPU []) (\<lambda>(trails, rootNode, h).
     bind_out (proofs_of_trails h trails (length leafHashes)) (\<lambda>proofs.
     Ok (node_Hash (h ! rootNode), proofs)))"

definition ParallelProofsFromLeafHashes :: "hash_fn \<Rightarrow> int \<Rightarrow> bytes list \<Rightarrow> (bytes \<times> Proof list) result" where
  "ParallelProofsFromLeafHashes sha numCPU leafHashes =
     (if length leafHashes = 0 then Ok (emptyHash sha, [])
      else if shouldUseParallelProofsFromLeafHashes leafHashes
      then parallelProofsFromLeafHashes sha numCPU leafHashes
      else ProofsFromLeafHashes sha leafHashes)"

section \<open>Parallel and sequential agree\<close>

lemma store_all:
  assumes "distinct ixs" "set ixs \<subseteq> {..<length items}" "length acc = length items"
  shows "\<exists>acc'. fold_out (\<lambda>idx hs. bind_out (index items (int idx)) (\<lambda>x. store hs (int idx) (f x))) ixs acc = Ok acc' \<and>
    length acc' = length items \<and>
    (\<forall>i < length items. acc' ! i = (if i \<in> set ixs then f (items ! i) else acc ! i))"
  using assms
proof (induction ixs arbitrary: acc)
  case (Cons j ixs)
  have j: "j < length items" using Cons.prems(2) by simp
  have "\<exists>acc'. fold_out (\<lambda>idx hs. bind_out (index items (int idx)) (\<lambda>x. store hs (int idx) (f x))) ixs (acc[j := f (items ! j)]) = Ok acc' \<and>
    length acc' = length items \<and>
    (\<forall>i < length items. acc' ! i = (if i \<in> set ixs then f (items ! i) else acc[j := f (items ! j)] ! i))"
    using Cons.prems by (intro Cons.IH) auto
  then show ?case using j Cons.prems by (auto simp: nth_list_update)
qed simp

lemma computeLeafHashesParallel_eq:
  assumes "mset order = mset [0..<length items]"
  shows "computeLeafHashesParallel sha order items = Ok (map (leafHash sha) items)"
proof -
  have o: "set order = {..<length items}" "distinct order"
    using mset_eq_setD [OF assms] mset_eq_imp_distinct_iff [OF assms] by (simp_all add: atLeast0LessThan)
  then obtain hs where hs: "computeLeafHashesParallel sha order items = Ok hs" "length hs = length items"
      "\<forall>i < length items. hs ! i = leafHash sha (items ! i)"
    using store_all [of order items "replicate (length items) []" "leafHash sha"]
    by (simp add: computeLeafHashesParallel_def o) blast
  then have "hs = map (leafHash sha) items" by (intro nth_equalityI) auto
  with hs(1) show ?thesis by simp
qed

lemma buildBalancedTree_eq: "buildBalancedTree sha hs w = Ok (tree_root sha hs)"
proof (induction hs arbitrary: w rule: split_induct)
  case (split hs)
  let ?k = "split_point (length hs)"
  have root: "tree_root sha hs = innerHash sha (tree_root sha (take ?k hs)) (tree_root sha (drop ?k hs))"
    using split(1) by (rule tree_root_split)
  have sp: "getSplitPoint (int (length hs)) = Ok (int ?k)"
    using split(1) by (intro getSplitPoint_nat) linarith
  show ?case
  proof (cases "length hs = 2")
    case True
    then obtain a b where hs: "hs = [a, b]" by (cases hs; cases "tl hs") auto
    then show ?thesis by (subst buildBalancedTree.simps) (simp add: tree_root_two index_def)
  next
    case False
    then show ?thesis
      using split sp root by (subst buildBalancedTree.simps) auto
  qed
qed (simp_all add: buildBalancedTree.simps index_def)

lemma trailsFromLeafHashesParallel_eq:
  "trailsFromLeafHashesParallel sha hs w h = trailsFromLeafHashes sha hs h"
proof (induction hs arbitrary: w h rule: split_induct)
  case (split hs)
  have sp: "getSplitPoint (int (length hs)) = Ok (int (split_point (length hs)))"
    using split(1) by (intro getSplitPoint_nat) linarith
  show ?case
    using split sp by (subst trailsFromLeafHashesParallel.simps, subst trailsFromLeafHashes.simps) auto
qed (simp_all add: trailsFromLeafHashesParallel.simps trailsFromLeafHashes.simps)

lemma ParallelHash_eq:
  assumes "mset order = mset [0..<length items]"
  shows "ParallelHashFromByteSlices sha numCPU order items = HashFromByteSlices sha items"
proof -
  consider "items = []" | a where "items = [a]" | a b where "items = [a, b]" | "length items > 2"
    by (cases items; cases "tl items"; cases "tl (tl items)") auto
  then show ?thesis
  proof cases
    case 3
    then show ?thesis
      by (simp add: tree_root_two ParallelHashFromByteSlices_def HashFromByteSlices_def hashFromByteSlices_root merkle_root_def index_def)
  next
    case 4
    then have "ParallelHashFromByteSlices sha numCPU order items = parallelHash sha numCPU order items"
      by (auto simp: ParallelHashFromByteSlices_def)
    then show ?thesis
      by (auto simp: parallelHash_def Let_def computeLeafHashesParallel_eq [OF assms] buildBalancedTree_eq
          HashFromByteSlices_def hashFromByteSlices_root merkle_root_def)
  qed (simp_all add: ParallelHashFromByteSlices_def HashFromByteSlices_def hashFromByteSlices_root merkle_root_def index_def)
qed

lemma parallelProofs_eq:
  "parallelProofsFromLeafHashes sha numCPU hs = ProofsFromLeafHashes sha hs"
  by (simp add: parallelProofsFromLeafHashes_def ProofsFromLeafHashes_def trailsFromLeafHashesParallel_eq)

lemma ParallelProofsFromLeafHashes_eq:
  "ParallelProofsFromLeafHashes sha numCPU hs = ProofsFromLeafHashes sha hs"
  by (auto simp: ParallelProofsFromLeafHashes_def parallelProofs_eq ProofsFromLeafHashes_eq)

lemma ParallelProofsFromByteSlices_eq:
  assumes "mset order = mset [0..<length items]"
  shows "ParallelProofsFromByteSlices sha numCPU order items = ProofsFromByteSlices sha items"
proof -
  have "parallelProofsFromByteSlices sha numCPU order items = ProofsFromByteSlices sha items"
    by (simp add: parallelProofsFromByteSlices_def computeLeafHashesParallel_eq [OF assms]
        ProofsFromByteSlices_eq ProofsFromLeafHashes_def trailsFromLeafHashesParallel_eq)
  then show ?thesis
    by (auto simp: ParallelProofsFromByteSlices_def ProofsFromByteSlices_eq ProofsFromLeafHashes_eq)
qed

section \<open>Properties\<close>

text \<open>C15. The parallel root and the parallel proofs equal the sequential ones, for every number of
  processors and every order in which the workers take the leaf indices from the channel.\<close>

theorem parallel_merkle_equal:
  assumes "mset order = mset [0..<length items]"
  shows "ParallelHashFromByteSlices sha numCPU order items = HashFromByteSlices sha items \<and>
    ParallelProofsFromByteSlices sha numCPU order items = ProofsFromByteSlices sha items \<and>
    ParallelProofsFromLeafHashes sha numCPU items = ProofsFromLeafHashes sha items"
  using ParallelHash_eq [OF assms] ParallelProofsFromByteSlices_eq [OF assms] ParallelProofsFromLeafHashes_eq
  by simp

theorem parallel_merkle_equal_witness:
  "ParallelHashFromByteSlices id 4 (rev [0..<40]) (replicate 40 [7]) = HashFromByteSlices id (replicate 40 [7])"
  using parallel_merkle_equal [of "rev [0..<40]" "replicate 40 [7]"] by simp

end
