(* ===== verification/Proto.thy ===== *)
theory Proto
  imports Prelude
begin

text \<open>
  The wire format of the generated protobuf code (\<open>proto/tendermint/**/*.pb.go\<close>): a message is the
  concatenation of its fields in the order of their numbers, a field is its tag byte and its value,
  and a scalar field with the zero value is left out. The generated code writes the same bytes from
  the end of a buffer backwards.

  The lemmas say that a field can be told from what follows it when that does not start with the
  field's tag, so that a message determines its fields.
\<close>

section \<open>Values\<close>

text \<open>The unsigned varint of \<open>encodeVarint*\<close> and of \<open>encoding/binary\<close>.\<close>

fun uvarint :: "nat \<Rightarrow> bytes" where
  "uvarint n = (if n < 128 then [of_nat n] else of_nat (n mod 128 + 128) # uvarint (n div 128))"

declare uvarint.simps [simp del]

text \<open>\<open>uint64(x)\<close> of a signed integer, and \<open>binary.LittleEndian.PutUint64\<close>.\<close>

definition to_uint64 :: "int \<Rightarrow> nat" where
  "to_uint64 x = nat (x mod 18446744073709551616)"

primrec le_bytes :: "nat \<Rightarrow> nat \<Rightarrow> bytes" where
  "le_bytes 0 n = []"
| "le_bytes (Suc k) n = of_nat (n mod 256) # le_bytes k (n div 256)"

definition pb_varint :: "byte \<Rightarrow> nat \<Rightarrow> bytes" where
  "pb_varint tag v = (if v \<noteq> 0 then tag # uvarint v else [])"

definition pb_sfixed64 :: "byte \<Rightarrow> int \<Rightarrow> bytes" where
  "pb_sfixed64 tag v = (if v \<noteq> 0 then tag # le_bytes 8 (to_uint64 v) else [])"

text \<open>A length-delimited value that is always written, and one that is left out when empty.\<close>

definition pb_msg :: "byte \<Rightarrow> bytes \<Rightarrow> bytes" where
  "pb_msg tag bz = tag # uvarint (length bz) @ bz"

definition pb_bytes :: "byte \<Rightarrow> bytes \<Rightarrow> bytes" where
  "pb_bytes tag bz = (if length bz > 0 then pb_msg tag bz else [])"

section \<open>Reading them back\<close>

lemma byte_of_nat_inj: "(of_nat m :: byte) = of_nat n \<Longrightarrow> m < 256 \<Longrightarrow> n < 256 \<Longrightarrow> m = n"
proof -
  assume "(of_nat m :: byte) = of_nat n" and b: "m < 256" "n < 256"
  then have "unat (of_nat m :: byte) = unat (of_nat n :: byte)" by simp
  then show ?thesis using b by (simp add: unat_of_nat)
qed

lemma uvarint_prefix: "uvarint m @ xs = uvarint n @ ys \<Longrightarrow> m = n \<and> xs = ys"
proof (induction m arbitrary: n rule: uvarint.induct)
  case (1 m)
  define fst_byte :: "nat \<Rightarrow> nat" where "fst_byte k = (if k < 128 then k else k mod 128 + 128)" for k
  have small: "fst_byte k < 256" for k by (simp add: fst_byte_def)
  have u: "uvarint k = of_nat (fst_byte k) # (if k < 128 then [] else uvarint (k div 128))" for k
    by (subst uvarint.simps) (simp add: fst_byte_def)
  have "fst_byte m = fst_byte n"
    using 1(2) u [of m] u [of n] byte_of_nat_inj [OF _ small small, of m n] by simp
  then have c: "m < 128 \<longleftrightarrow> n < 128" and e: "m < 128 \<Longrightarrow> m = n" and f: "m mod 128 = n mod 128"
    by (auto simp: fst_byte_def split: if_splits)
  show ?case
  proof (cases "m < 128")
    case True
    then show ?thesis using 1(2) u [of m] e by simp
  next
    case False
    then have "m div 128 = n div 128 \<and> xs = ys" using 1 u [of m] u [of n] c by simp
    then show ?thesis using f by (metis div_mult_mod_eq)
  qed
qed

lemma uvarint_inj: "uvarint m = uvarint n \<Longrightarrow> m = n"
  using uvarint_prefix [of m "[]" n "[]"] by simp

lemma length_le_bytes [simp]: "length (le_bytes k n) = k"
  by (induction k arbitrary: n) auto

lemma le_bytes_inj: "le_bytes k m = le_bytes k n \<Longrightarrow> m < 256 ^ k \<Longrightarrow> n < 256 ^ k \<Longrightarrow> m = n"
proof (induction k arbitrary: m n)
  case (Suc k)
  then have "m mod 256 = n mod 256" using byte_of_nat_inj [of "m mod 256" "n mod 256"] by simp
  moreover have "m div 256 = n div 256"
    using Suc by (intro Suc.IH) (auto simp: div_less_iff_less_mult mult.commute)
  ultimately show ?case by (metis div_mult_mod_eq)
qed simp

lemma to_uint64_inj: "is_i64 x \<Longrightarrow> is_i64 y \<Longrightarrow> to_uint64 x = to_uint64 y \<Longrightarrow> x = y"
proof -
  assume r: "is_i64 x" "is_i64 y" and "to_uint64 x = to_uint64 y"
  then have "x mod 18446744073709551616 = y mod 18446744073709551616" by (simp add: to_uint64_def)
  then have "18446744073709551616 dvd x - y" by (simp add: mod_eq_dvd_iff)
  then obtain k where "x - y = 18446744073709551616 * k" by (elim dvdE)
  then have k: "x - y = 18446744073709551616 * k" .
  have "x - y < 18446744073709551616" "- 18446744073709551616 < x - y" using r by (auto simp: is_i64_def)
  then have "k < 1" "- 1 < k" unfolding k by linarith+
  then show ?thesis using k by simp
qed

lemma to_uint64_less: "to_uint64 x < 256 ^ 8"
  by (simp add: to_uint64_def nat_less_iff)

lemma to_uint64_0: "is_i64 x \<Longrightarrow> to_uint64 x = 0 \<longleftrightarrow> x = 0"
  using to_uint64_inj [of x 0] by (auto simp: to_uint64_def is_i64_def)

text \<open>What follows a field does not start with its tag.\<close>

definition free_of :: "byte \<Rightarrow> bytes \<Rightarrow> bool" where
  "free_of tag bz \<longleftrightarrow> bz = [] \<or> hd bz \<noteq> tag"

lemma free_of_Nil [simp]: "free_of t []"
  by (simp add: free_of_def)

lemma free_of_fields [simp]:
  "free_of t (pb_varint u v @ xs) \<longleftrightarrow> (if v = 0 then free_of t xs else t \<noteq> u)"
  "free_of t (pb_sfixed64 u x @ xs) \<longleftrightarrow> (if x = 0 then free_of t xs else t \<noteq> u)"
  "free_of t (pb_msg u bz @ xs) \<longleftrightarrow> t \<noteq> u"
  "free_of t (pb_bytes u bz @ xs) \<longleftrightarrow> (if bz = [] then free_of t xs else t \<noteq> u)"
  by (auto simp: free_of_def pb_varint_def pb_sfixed64_def pb_msg_def pb_bytes_def)

lemma pb_varint_prefix:
  "pb_varint t v @ xs = pb_varint t w @ ys \<Longrightarrow> free_of t xs \<Longrightarrow> free_of t ys \<Longrightarrow> v = w \<and> xs = ys"
  using uvarint_prefix [of v xs w ys] by (auto simp: pb_varint_def free_of_def split: if_splits)

lemma pb_sfixed64_prefix:
  "pb_sfixed64 t v @ xs = pb_sfixed64 t w @ ys \<Longrightarrow> is_i64 v \<Longrightarrow> is_i64 w \<Longrightarrow> free_of t xs \<Longrightarrow> free_of t ys \<Longrightarrow>
     v = w \<and> xs = ys"
proof -
  assume *: "pb_sfixed64 t v @ xs = pb_sfixed64 t w @ ys" "is_i64 v" "is_i64 w" "free_of t xs" "free_of t ys"
  have "v = w" if "le_bytes 8 (to_uint64 v) = le_bytes 8 (to_uint64 w)"
    using le_bytes_inj [OF that to_uint64_less to_uint64_less] to_uint64_inj [OF *(2,3)] by simp
  then show ?thesis using * by (auto simp: pb_sfixed64_def free_of_def split: if_splits)
qed

lemma pb_msg_prefix: "pb_msg t bz @ xs = pb_msg t bz' @ ys \<Longrightarrow> bz = bz' \<and> xs = ys"
  using uvarint_prefix [of "length bz" "bz @ xs" "length bz'" "bz' @ ys"] by (auto simp: pb_msg_def)

lemma pb_bytes_prefix:
  "pb_bytes t bz @ xs = pb_bytes t bz' @ ys \<Longrightarrow> free_of t xs \<Longrightarrow> free_of t ys \<Longrightarrow> bz = bz' \<and> xs = ys"
  using pb_msg_prefix [of t bz xs bz' ys] by (auto simp: pb_bytes_def pb_msg_def free_of_def split: if_splits)

lemma pb_varint_inj: "pb_varint t v = pb_varint t w \<Longrightarrow> v = w"
  using pb_varint_prefix [of t v "[]" w "[]"] by simp

lemma pb_msg_inj: "pb_msg t a = pb_msg t b \<Longrightarrow> a = b"
  using pb_msg_prefix [of t a "[]" b "[]"] by simp

lemma pb_bytes_inj: "pb_bytes t a = pb_bytes t b \<Longrightarrow> a = b"
  using pb_bytes_prefix [of t a "[]" b "[]"] by simp

end
