(* ===== verification/ProofOps.thy ===== *)
theory ProofOps
  imports MerkleProof Proto
begin

text \<open>
  Chained proofs of \<open>crypto/merkle\<close>: the operators and their verification (\<open>proof_op.go\<close>), the
  operator for a key-value pair (\<open>proof_value.go\<close>) and key paths (\<open>proof_key_path.go\<close>). A Go string
  is the slice of its bytes. The escaping of a path segment is \<open>url.PathEscape\<close> and
  \<open>url.PathUnescape\<close> of the standard library, the hexadecimal forms are \<open>%X\<close> and
  \<open>hex.DecodeString\<close>. The protobuf form of an operator, \<open>ProofOp()\<close> and \<open>ValueOpDecoder\<close>, is not
  modelled; a decoder is any function a runtime has registered.
\<close>

section \<open>Key paths\<close>

datatype keyEncoding = KeyEncodingURL | KeyEncodingHex | KeyEncodingMax

record Key =
  key_name :: bytes
  key_enc :: keyEncoding

type_synonym KeyPath = "Key list"

abbreviation slash :: byte where "slash \<equiv> 47"
abbreviation percent :: byte where "percent \<equiv> 37"

definition x_colon :: bytes where "x_colon = [120, 58]"

text \<open>Hexadecimal digits.\<close>

definition upperhex :: "byte \<Rightarrow> byte" where
  "upperhex d = (if d < 10 then 48 + d else 55 + d)"

definition ishex :: "byte \<Rightarrow> bool" where
  "ishex c \<longleftrightarrow> (48 \<le> c \<and> c \<le> 57) \<or> (97 \<le> c \<and> c \<le> 102) \<or> (65 \<le> c \<and> c \<le> 70)"

definition unhex :: "byte \<Rightarrow> byte" where
  "unhex c = (if 48 \<le> c \<and> c \<le> 57 then c - 48 else if 97 \<le> c \<and> c \<le> 102 then c - 97 + 10 else c - 65 + 10)"

definition hex_encode :: "bytes \<Rightarrow> bytes" where
  "hex_encode bs = concat (map (\<lambda>b. [upperhex (b div 16), upperhex (b mod 16)]) bs)"

fun hex_DecodeString :: "bytes \<Rightarrow> bytes result" where
  "hex_DecodeString [] = Ok []"
| "hex_DecodeString [c] =
     (if ishex c then Err (Errorf ''encoding/hex: odd length hex string'') else Err (Errorf ''encoding/hex: invalid byte''))"
| "hex_DecodeString (c # d # cs) =
     (if ishex c \<and> ishex d then map_out ((#) (unhex c * 16 + unhex d)) (hex_DecodeString cs)
      else Err (Errorf ''encoding/hex: invalid byte''))"

text \<open>\<open>url.PathEscape\<close> and \<open>url.PathUnescape\<close>.\<close>

definition shouldEscape :: "byte \<Rightarrow> bool" where
  "shouldEscape c =
     (if (97 \<le> c \<and> c \<le> 122) \<or> (65 \<le> c \<and> c \<le> 90) \<or> (48 \<le> c \<and> c \<le> 57) then False
      else if c \<in> {45, 95, 46, 126} then False
      else if c \<in> {36, 38, 43, 44, 47, 58, 59, 61, 63, 64} then c \<in> {47, 59, 44, 63}
      else True)"

definition PathEscape :: "bytes \<Rightarrow> bytes" where
  "PathEscape bs =
     concat (map (\<lambda>c. if shouldEscape c then [percent, upperhex (c div 16), upperhex (c mod 16)] else [c]) bs)"

fun PathUnescape :: "bytes \<Rightarrow> bytes result" where
  "PathUnescape [] = Ok []"
| "PathUnescape (c # cs) =
     (if c = percent
      then case cs of
             d # e # rest \<Rightarrow>
               if ishex d \<and> ishex e then map_out ((#) (unhex d * 16 + unhex e)) (PathUnescape rest)
               else Err (Errorf ''invalid URL escape'')
           | _ \<Rightarrow> Err (Errorf ''invalid URL escape'')
      else map_out ((#) c) (PathUnescape cs))"

definition AppendKey :: "KeyPath \<Rightarrow> bytes \<Rightarrow> keyEncoding \<Rightarrow> KeyPath" where
  "AppendKey pth key enc = pth @ [\<lparr>key_name = key, key_enc = enc\<rparr>]"

definition KeyPath_String :: "KeyPath \<Rightarrow> bytes result" where
  "KeyPath_String pth =
     fold_out (\<lambda>key res.
         case key_enc key of
           KeyEncodingURL \<Rightarrow> Ok (res @ [slash] @ PathEscape (key_name key))
         | KeyEncodingHex \<Rightarrow> Ok (res @ [slash] @ x_colon @ hex_encode (key_name key))
         | _ \<Rightarrow> Panic ''unexpected key encoding type'')
       pth []"

definition decode_part :: "bytes \<Rightarrow> bytes result" where
  "decode_part part =
     (if take 2 part = x_colon
      then map_err (Wrapf ''decoding hex-encoded part'') (hex_DecodeString (drop 2 part))
      else map_err (Wrapf ''decoding url-encoded part'') (PathUnescape part))"

definition KeyPathToKeys :: "bytes \<Rightarrow> (bytes list) result" where
  "KeyPathToKeys path =
     (if path = [] \<or> hd path \<noteq> slash then Err (Errorf ''key path string must start with a forward slash'')
      else fold_out (\<lambda>part keys. map_out (\<lambda>k. keys @ [k]) (decode_part part)) (split_on slash (tl path)) [])"

section \<open>Proof operators\<close>

record ProofOperator =
  op_Run :: "bytes list \<Rightarrow> (bytes list) result"
  op_GetKey :: bytes

text \<open>One operator: its key, when it has one, must be the last of the remaining keys.\<close>

definition run_op :: "ProofOperator \<Rightarrow> bytes list \<times> bytes list \<Rightarrow> (bytes list \<times> bytes list) result" where
  "run_op op st =
     (case st of (keys, args) \<Rightarrow>
        bind_out
          (if length (op_GetKey op) \<noteq> 0
           then if length keys = 0 then Err (Errorf ''key path has insufficient # of parts'')
                else if last keys \<noteq> op_GetKey op then Err (Errorf ''key mismatch on operation'')
                else Ok (butlast keys)
           else Ok keys) (\<lambda>keys'.
        bind_out (op_Run op args) (\<lambda>args'. Ok (keys', args'))))"

definition check_root :: "bytes \<Rightarrow> bytes list \<times> bytes list \<Rightarrow> unit result" where
  "check_root root st =
     (case st of (keys, args) \<Rightarrow>
        bind_out (index args 0) (\<lambda>a.
        if root \<noteq> a then Err (Errorf ''calculated root hash is invalid'')
        else if length keys \<noteq> 0 then Err (Errorf ''keypath not consumed all'')
        else Ok ()))"

definition POZ_VerifyFromKeys :: "ProofOperator list \<Rightarrow> bytes \<Rightarrow> bytes list \<Rightarrow> bytes list \<Rightarrow> unit result" where
  "POZ_VerifyFromKeys poz root keys args =
     bind_out (fold_out run_op poz (keys, args)) (\<lambda>st. check_root root st)"

definition POZ_Verify :: "ProofOperator list \<Rightarrow> bytes \<Rightarrow> bytes \<Rightarrow> bytes list \<Rightarrow> unit result" where
  "POZ_Verify poz root keypath args =
     bind_out (KeyPathToKeys keypath) (\<lambda>keys.
     bind_out (fold_out run_op poz (keys, args)) (\<lambda>st. check_root root st))"

definition POZ_VerifyValue :: "ProofOperator list \<Rightarrow> bytes \<Rightarrow> bytes \<Rightarrow> bytes \<Rightarrow> unit result" where
  "POZ_VerifyValue poz root keypath val = POZ_Verify poz root keypath [val]"

record ProofOp =
  pop_Type :: string
  pop_Key :: bytes
  pop_Data :: bytes

type_synonym OpDecoder = "ProofOp \<Rightarrow> ProofOperator result"

type_synonym ProofRuntime = "string \<rightharpoonup> OpDecoder"

definition NewProofRuntime :: ProofRuntime where
  "NewProofRuntime = Map.empty"

definition RegisterOpDecoder :: "ProofRuntime \<Rightarrow> string \<Rightarrow> OpDecoder \<Rightarrow> ProofRuntime result" where
  "RegisterOpDecoder prt typ dec =
     (if prt typ \<noteq> None then Panic ''already registered for type'' else Ok (prt(typ \<mapsto> dec)))"

definition PRT_Decode :: "ProofRuntime \<Rightarrow> ProofOp \<Rightarrow> ProofOperator result" where
  "PRT_Decode prt pop =
     (case prt (pop_Type pop) of None \<Rightarrow> Err (Errorf ''unrecognized proof type'') | Some decoder \<Rightarrow> decoder pop)"

definition DecodeProof :: "ProofRuntime \<Rightarrow> ProofOp list \<Rightarrow> (ProofOperator list) result" where
  "DecodeProof prt ops =
     fold_out (\<lambda>pop poz.
         bind_out (map_err (Wrapf ''decoding a proof operator'') (PRT_Decode prt pop)) (\<lambda>operator.
         Ok (poz @ [operator])))
       ops []"

definition PRT_Verify :: "ProofRuntime \<Rightarrow> ProofOp list \<Rightarrow> bytes \<Rightarrow> bytes \<Rightarrow> bytes list \<Rightarrow> unit result" where
  "PRT_Verify prt ops root keypath args =
     bind_out (map_err (Wrapf ''decoding proof'') (DecodeProof prt ops)) (\<lambda>poz. POZ_Verify poz root keypath args)"

definition PRT_VerifyFromKeys :: "ProofRuntime \<Rightarrow> ProofOp list \<Rightarrow> bytes \<Rightarrow> bytes list \<Rightarrow> bytes list \<Rightarrow> unit result" where
  "PRT_VerifyFromKeys prt ops root keys args =
     bind_out (map_err (Wrapf ''decoding proof'') (DecodeProof prt ops)) (\<lambda>poz. POZ_VerifyFromKeys poz root keys args)"

definition PRT_VerifyValue :: "ProofRuntime \<Rightarrow> ProofOp list \<Rightarrow> bytes \<Rightarrow> bytes \<Rightarrow> bytes \<Rightarrow> unit result" where
  "PRT_VerifyValue prt ops root keypath val = PRT_Verify prt ops root keypath [val]"

definition PRT_VerifyValueFromKeys :: "ProofRuntime \<Rightarrow> ProofOp list \<Rightarrow> bytes \<Rightarrow> bytes list \<Rightarrow> bytes \<Rightarrow> unit result" where
  "PRT_VerifyValueFromKeys prt ops root keys val = PRT_VerifyFromKeys prt ops root keys [val]"

definition PRT_VerifyAbsence :: "ProofRuntime \<Rightarrow> ProofOp list \<Rightarrow> bytes \<Rightarrow> bytes \<Rightarrow> unit result" where
  "PRT_VerifyAbsence prt ops root keypath = PRT_Verify prt ops root keypath []"

section \<open>Value operators\<close>

record ValueOp =
  vop_key :: bytes
  vop_Proof :: Proof

definition NewValueOp :: "bytes \<Rightarrow> Proof \<Rightarrow> ValueOp" where
  "NewValueOp key prf = \<lparr>vop_key = key, vop_Proof = prf\<rparr>"

definition encodeByteSlice :: "bytes \<Rightarrow> bytes" where
  "encodeByteSlice bz = uvarint (length bz) @ bz"

definition ValueOp_Run :: "hash_fn \<Rightarrow> ValueOp \<Rightarrow> bytes list \<Rightarrow> (bytes list) result" where
  "ValueOp_Run sha op args =
     (if length args \<noteq> 1 then Err (Errorf ''expected 1 arg'')
      else bind_out (index args 0) (\<lambda>val.
           let vhash = sha val;
               bz = encodeByteSlice (vop_key op) @ encodeByteSlice vhash;
               kvhash = leafHash sha bz
           in if kvhash \<noteq> proof_LeafHash (vop_Proof op) then Err (Errorf ''leaf hash mismatch'')
              else bind_out (computeRootHash sha (vop_Proof op)) (\<lambda>rootHash. Ok [rootHash])))"

definition ValueOp_GetKey :: "ValueOp \<Rightarrow> bytes" where
  "ValueOp_GetKey op = vop_key op"

definition value_operator :: "hash_fn \<Rightarrow> ValueOp \<Rightarrow> ProofOperator" where
  "value_operator sha op = \<lparr>op_Run = ValueOp_Run sha op, op_GetKey = ValueOp_GetKey op\<rparr>"

section \<open>Encoding a key path and reading it back\<close>

lemma nibble_cases:
  assumes "d < (16 :: byte)"
  obtains n where "n < 16" "d = of_nat n"
proof (rule that [of "unat d"])
  show "unat d < 16" using assms by (simp add: word_less_nat_alt)
qed simp

lemma nibbles: "(b :: byte) div 16 < 16" "b mod 16 < 16"
proof -
  have "unat b < 256" using unsigned_less [of b, where ?'a = nat] by simp
  then show "b div 16 < 16" "b mod 16 < 16" by (simp_all add: word_less_nat_alt unat_div unat_mod)
qed

lemma hex_digit_table:
  "list_all (\<lambda>n. ishex (upperhex (of_nat n)) \<and> unhex (upperhex (of_nat n)) = of_nat n \<and>
     upperhex (of_nat n) \<noteq> slash) [0..<16]"
  by code_simp

lemma hex_digit:
  assumes "d < (16 :: byte)"
  shows "ishex (upperhex d)" "unhex (upperhex d) = d" "upperhex d \<noteq> slash"
proof -
  obtain n where n: "n < 16" "d = of_nat n" using assms by (rule nibble_cases)
  then show "ishex (upperhex d)" "unhex (upperhex d) = d" "upperhex d \<noteq> slash"
    using hex_digit_table unfolding list_all_iff set_upt by auto
qed

lemma hex_byte: "unhex (upperhex (b div 16)) * 16 + unhex (upperhex (b mod 16)) = b"
  by (simp add: hex_digit nibbles div_mult_mod_eq)

lemma hex_roundtrip: "hex_DecodeString (hex_encode bs) = Ok bs"
  by (induction bs) (simp_all add: hex_encode_def hex_digit nibbles div_mult_mod_eq)

lemma shouldEscape_vals: "shouldEscape percent" "shouldEscape slash" "\<not> shouldEscape 120" "\<not> shouldEscape 58"
  by (simp_all add: shouldEscape_def)

lemma PathUnescape_PathEscape: "PathUnescape (PathEscape bs) = Ok bs"
proof (induction bs)
  case (Cons c cs)
  then show ?case
    using shouldEscape_vals
    by (cases "shouldEscape c") (auto simp: PathEscape_def hex_digit nibbles div_mult_mod_eq)
qed (simp add: PathEscape_def)

lemma no_slash: "slash \<notin> set (PathEscape bs)" "slash \<notin> set (hex_encode bs)" "slash \<notin> set x_colon"
proof -
  have h: "slash \<noteq> upperhex (b div 16)" "slash \<noteq> upperhex (b mod 16)" for b
    using hex_digit(3) [OF nibbles(1), of b] hex_digit(3) [OF nibbles(2), of b] by auto
  show "slash \<notin> set (PathEscape bs)"
    using shouldEscape_vals by (induction bs) (auto simp: PathEscape_def h)
  show "slash \<notin> set (hex_encode bs)"
    by (induction bs) (auto simp: hex_encode_def h)
qed (simp add: x_colon_def)

lemma PathEscape_x_colon: "take 2 (PathEscape bs) = x_colon \<longleftrightarrow> take 2 bs = x_colon"
proof (cases bs)
  case (Cons c cs)
  then show ?thesis
    using shouldEscape_vals
    by (cases cs) (auto simp: PathEscape_def x_colon_def)
qed (simp add: PathEscape_def)

definition segment :: "Key \<Rightarrow> bytes" where
  "segment k = (if key_enc k = KeyEncodingURL then PathEscape (key_name k) else x_colon @ hex_encode (key_name k))"

definition readable :: "Key \<Rightarrow> bool" where
  "readable k \<longleftrightarrow> key_enc k = KeyEncodingHex \<or> (key_enc k = KeyEncodingURL \<and> take 2 (key_name k) \<noteq> x_colon)"

lemma decode_segment: "readable k \<Longrightarrow> decode_part (segment k) = Ok (key_name k)"
proof -
  assume "readable k"
  moreover have "take 2 (x_colon @ v) = x_colon" "drop 2 (x_colon @ v) = v" for v by (simp_all add: x_colon_def)
  ultimately show ?thesis
    by (auto simp: decode_part_def segment_def readable_def PathEscape_x_colon PathUnescape_PathEscape hex_roundtrip)
qed

lemma KeyPath_String_eq:
  assumes "\<forall>k \<in> set pth. readable k"
  shows "KeyPath_String pth = Ok (concat (map (\<lambda>k. slash # segment k) pth))"
  using assms
proof (induction pth rule: rev_induct)
  case (snoc k pth)
  then show ?case by (auto simp: KeyPath_String_def readable_def segment_def)
qed (simp add: KeyPath_String_def)

lemma split_on_segments:
  "sep \<notin> set s \<Longrightarrow> \<forall>t \<in> set ss. sep \<notin> set t \<Longrightarrow> split_on sep (s @ concat (map ((#) sep) ss)) = s # ss"
  by (induction ss arbitrary: s) (auto simp: split_on_none split_on_append)

lemma fold_decode:
  assumes "\<forall>k \<in> set pth. readable k"
  shows "fold_out (\<lambda>part keys. map_out (\<lambda>k. keys @ [k]) (decode_part part)) (map segment pth) acc = Ok (acc @ map key_name pth)"
  using assms by (induction pth arbitrary: acc) (auto simp: decode_segment)

lemma keypath_decode:
  assumes "pth \<noteq> []" "\<forall>k \<in> set pth. readable k"
  shows "bind_out (KeyPath_String pth) KeyPathToKeys = Ok (map key_name pth)"
proof -
  obtain k ks where pth: "pth = k # ks" using assms(1) by (cases pth) auto
  have "slash \<notin> set (segment j)" for j by (simp add: segment_def no_slash)
  then have "split_on slash (segment k @ concat (map ((#) slash) (map segment ks))) = segment k # map segment ks"
    by (intro split_on_segments) auto
  then have "KeyPathToKeys (concat (map (\<lambda>k. slash # segment k) pth)) = Ok (map key_name pth)"
    using fold_decode [OF assms(2), of "[]"] by (simp add: KeyPathToKeys_def pth comp_def)
  then show ?thesis by (simp add: KeyPath_String_eq [OF assms(2)])
qed

section \<open>What an accepted value operator proves\<close>

lemma encodeByteSlice_prefix:
  "encodeByteSlice a @ xs = encodeByteSlice b @ ys \<Longrightarrow> a = b \<and> xs = ys"
proof -
  assume *: "encodeByteSlice a @ xs = encodeByteSlice b @ ys"
  then have "length a = length b \<and> a @ xs = b @ ys"
    by (intro uvarint_prefix) (simp add: encodeByteSlice_def)
  then show ?thesis by auto
qed

text \<open>The leaf of a key-value pair.\<close>

definition kv_leaf :: "hash_fn \<Rightarrow> bytes \<times> bytes \<Rightarrow> bytes" where
  "kv_leaf sha kv = encodeByteSlice (fst kv) @ encodeByteSlice (sha (snd kv))"

lemma kv_leaf_inj: "kv_leaf sha (k, v) = kv_leaf sha (k', v') \<Longrightarrow> k = k' \<and> sha v = sha v'"
proof -
  assume "kv_leaf sha (k, v) = kv_leaf sha (k', v')"
  then have *: "k = k' \<and> encodeByteSlice (sha v) = encodeByteSlice (sha v')"
    by (intro encodeByteSlice_prefix) (simp add: kv_leaf_def)
  then show ?thesis using encodeByteSlice_prefix [of "sha v" "[]" "sha v'" "[]"] by simp
qed

lemma ValueOp_Run_Verify:
  assumes "ValueOp_Run sha op [val] = Ok [root]" "0 \<le> proof_Total (vop_Proof op)" "0 \<le> proof_Index (vop_Proof op)"
  shows "Proof_Verify sha (vop_Proof op) (Some root) (kv_leaf sha (vop_key op, val)) = Ok ()"
  using assms by (auto simp: ValueOp_Run_def Proof_Verify_def Let_def index_def kv_leaf_def split: if_splits)

lemma VerifyFromKeys_single:
  assumes "POZ_VerifyFromKeys [value_operator sha op] root [vop_key op] [val] = Ok ()"
  shows "ValueOp_Run sha op [val] = Ok [root]"
  using assms
  by (auto simp: POZ_VerifyFromKeys_def run_op_def check_root_def value_operator_def ValueOp_GetKey_def
      ValueOp_Run_def index_def Let_def split: if_splits)

lemma computeRootHash_range:
  "computeRootHash sha sp = Ok h \<Longrightarrow> 0 \<le> proof_Index sp \<and> 0 \<le> proof_Total sp"
  unfolding computeRootHash_def by (subst (asm) computeHashFromAunts.simps) (auto split: if_splits)

section \<open>Properties\<close>

text \<open>C36. A key path that is printed is decoded back to its keys, whatever bytes they hold, as long as
  no URL-encoded key starts with \<open>x:\<close>, the marker of a hexadecimal segment. The path with no key is
  printed as the empty string, which is refused by the decoder.\<close>

theorem keypath_roundtrip:
  assumes "\<forall>k \<in> set pth. key_enc k = KeyEncodingHex \<or> (key_enc k = KeyEncodingURL \<and> take 2 (key_name k) \<noteq> x_colon)"
  shows "\<exists>s. KeyPath_String pth = Ok s \<and>
     KeyPathToKeys s = (if pth = [] then Err (Errorf ''key path string must start with a forward slash'') else Ok (map key_name pth))"
proof (cases "pth = []")
  case True
  then show ?thesis by (simp add: KeyPath_String_def KeyPathToKeys_def)
next
  case False
  then show ?thesis using keypath_decode [of pth] KeyPath_String_eq [of pth] assms by (simp add: readable_def)
qed

theorem keypath_roundtrip_witness:
  "\<exists>s. KeyPath_String [\<lparr>key_name = [65, 47, 200], key_enc = KeyEncodingURL\<rparr>, \<lparr>key_name = [1, 2], key_enc = KeyEncodingHex\<rparr>] = Ok s \<and>
     KeyPathToKeys s = Ok [[65, 47, 200], [1, 2]]"
  using keypath_roundtrip [of "[\<lparr>key_name = [65, 47, 200], key_enc = KeyEncodingURL\<rparr>, \<lparr>key_name = [1, 2], key_enc = KeyEncodingHex\<rparr>]"]
  by (simp add: x_colon_def)

text \<open>
  The marker is not escaped by the URL encoding, so the URL-encoded key \<open>x:01\<close> is read back as the
  one-byte key 1, although the encodings are documented to be interchangeable.
\<close>

theorem keypath_url_ambiguous:
  "bind_out (KeyPath_String [\<lparr>key_name = [120, 58, 48, 49], key_enc = KeyEncodingURL\<rparr>]) KeyPathToKeys = Ok [[1]]"
  by (simp add: KeyPath_String_def PathEscape_def shouldEscape_def KeyPathToKeys_def decode_part_def x_colon_def
      ishex_def unhex_def)

text \<open>C34. If a value operator for a key verifies against the root of a tree of key-value pairs, then the
  tree has that key, with a value of the same hash as the claimed one, or two different inputs hashed by
  the tree and by the check have the same hash.\<close>

theorem value_op_sound:
  assumes "\<And>x. length (sha x) = tmhash_Size"
    and "HashFromByteSlices sha (map (kv_leaf sha) kvs) = Ok root"
    and "POZ_VerifyFromKeys [value_operator sha op] root [vop_key op] [val] = Ok ()"
  shows "(\<exists>v. (vop_key op, v) \<in> set kvs \<and> sha v = sha val) \<or>
    collides sha (tree_inputs sha (map (kv_leaf sha) kvs))
      (proof_inputs sha (proof_Index (vop_Proof op)) (proof_Total (vop_Proof op))
        (kv_leaf sha (vop_key op, val)) (proof_Aunts (vop_Proof op)))"
proof -
  have run: "ValueOp_Run sha op [val] = Ok [root]" using assms(3) by (rule VerifyFromKeys_single)
  then have "0 \<le> proof_Index (vop_Proof op) \<and> 0 \<le> proof_Total (vop_Proof op)"
    by (intro computeRootHash_range) (auto simp: ValueOp_Run_def index_def Let_def split: if_splits)
  then have "Proof_Verify sha (vop_Proof op) (Some root) (kv_leaf sha (vop_key op, val)) = Ok ()"
    using run by (intro ValueOp_Run_Verify) auto
  moreover have "root = merkle_root sha (map (kv_leaf sha) kvs)"
    using assms(2) by (simp add: HashFromByteSlices_def hashFromByteSlices_root)
  ultimately have "kv_leaf sha (vop_key op, val) \<in> kv_leaf sha ` set kvs \<or>
    collides sha (tree_inputs sha (map (kv_leaf sha) kvs))
      (proof_inputs sha (proof_Index (vop_Proof op)) (proof_Total (vop_Proof op))
        (kv_leaf sha (vop_key op, val)) (proof_Aunts (vop_Proof op)))"
    using Proof_Verify_sound [of sha tmhash_Size "vop_Proof op" "map (kv_leaf sha) kvs", OF assms(1)]
    by (auto simp: in_tree_def)
  moreover have "\<exists>v. (vop_key op, v) \<in> set kvs \<and> sha v = sha val" if "kv_leaf sha (vop_key op, val) = kv_leaf sha kv" "kv \<in> set kvs" for kv
    using kv_leaf_inj [of sha "vop_key op" val "fst kv" "snd kv"] that by (cases kv) auto
  ultimately show ?thesis by blast
qed

theorem value_op_sound_witness:
  "(\<exists>v. ([1], v) \<in> set [([1], [2])] \<and> toy_hash v = toy_hash [2]) \<or>
    collides toy_hash (tree_inputs toy_hash [kv_leaf toy_hash ([1], [2])])
      (proof_inputs toy_hash 0 1 (kv_leaf toy_hash ([1], [2])) [])"
proof -
  define leaf where "leaf = kv_leaf toy_hash ([1], [2])"
  define op where "op = \<lparr>vop_key = [1], vop_Proof =
    \<lparr>proof_Total = 1, proof_Index = 0, proof_LeafHash = leafHash toy_hash leaf, proof_Aunts = []\<rparr>\<rparr>"
  have c: "computeHashFromAunts toy_hash 0 1 h [] = Ok h" for h
    by (subst computeHashFromAunts.simps) simp
  have "POZ_VerifyFromKeys [value_operator toy_hash op] (leafHash toy_hash leaf) [[1]] [[2]] = Ok ()"
    by (simp add: POZ_VerifyFromKeys_def run_op_def check_root_def value_operator_def ValueOp_GetKey_def
      ValueOp_Run_def index_def Let_def op_def leaf_def kv_leaf_def computeRootHash_def c)
  moreover have "HashFromByteSlices toy_hash [leaf] = Ok (leafHash toy_hash leaf)"
    by (simp add: HashFromByteSlices_def hashFromByteSlices_root merkle_root_def)
  ultimately show ?thesis
    using value_op_sound [of toy_hash "[([1], [2])]" "leafHash toy_hash leaf" op "[2]"]
    by (simp add: leaf_def op_def toy_hash_def)
qed

end
