(* ===== verification/Validator.thy ===== *)
theory Validator
  imports Merkle Proto
begin

text \<open>
  Public keys (\<open>crypto/ed25519\<close>, \<open>crypto/secp256k1\<close>, \<open>crypto/sr25519\<close>, \<open>crypto/encoding\<close>,
  \<open>crypto/batch\<close>) and validators (\<open>types/validator.go\<close>).

  What third-party libraries compute is a parameter: \<open>ripemd160\<close>, and \<open>curve_verify\<close>, the signature
  check of the curve a key belongs to. \<open>sha\<close> is SHA-256. They are the fields of \<open>crypto_env\<close>.
  A public key is an interface value, so a validator without one has None.
\<close>

section \<open>Public keys\<close>

datatype PubKey = Ed25519 bytes | Secp256k1 bytes | Sr25519 bytes

record crypto_env =
  sha :: hash_fn
  ripemd160 :: "bytes \<Rightarrow> bytes"
  curve_verify :: "PubKey \<Rightarrow> bytes \<Rightarrow> bytes \<Rightarrow> bool"

abbreviation ed25519_PubKeySize :: nat where "ed25519_PubKeySize \<equiv> 32"
abbreviation secp256k1_PubKeySize :: nat where "secp256k1_PubKeySize \<equiv> 33"
abbreviation sr25519_PubKeySize :: nat where "sr25519_PubKeySize \<equiv> 32"
abbreviation AddressSize :: nat where "AddressSize \<equiv> 20"

fun PubKey_Bytes :: "PubKey \<Rightarrow> bytes" where
  "PubKey_Bytes (Ed25519 k) = k"
| "PubKey_Bytes (Secp256k1 k) = k"
| "PubKey_Bytes (Sr25519 k) = k"

fun PubKey_Type :: "PubKey \<Rightarrow> string" where
  "PubKey_Type (Ed25519 k) = ''ed25519''"
| "PubKey_Type (Secp256k1 k) = ''secp256k1''"
| "PubKey_Type (Sr25519 k) = ''sr25519''"

definition SumTruncated :: "hash_fn \<Rightarrow> bytes \<Rightarrow> bytes" where
  "SumTruncated h bz = take 20 (h bz)"

fun ed25519_Address :: "crypto_env \<Rightarrow> bytes \<Rightarrow> bytes result" where
  "ed25519_Address cr k =
     (if length k \<noteq> ed25519_PubKeySize then Panic ''pubkey is incorrect size'' else Ok (SumTruncated (sha cr) k))"

fun secp256k1_Address :: "crypto_env \<Rightarrow> bytes \<Rightarrow> bytes result" where
  "secp256k1_Address cr k =
     (if length k \<noteq> secp256k1_PubKeySize then Panic ''length of pubkey is incorrect''
      else Ok (ripemd160 cr (sha cr k)))"

fun sr25519_Address :: "crypto_env \<Rightarrow> bytes \<Rightarrow> bytes result" where
  "sr25519_Address cr k =
     (if length k \<noteq> sr25519_PubKeySize then Panic ''pubkey is incorrect size'' else Ok (SumTruncated (sha cr) k))"

fun PubKey_Address :: "crypto_env \<Rightarrow> PubKey \<Rightarrow> bytes result" where
  "PubKey_Address cr (Ed25519 k) = ed25519_Address cr k"
| "PubKey_Address cr (Secp256k1 k) = secp256k1_Address cr k"
| "PubKey_Address cr (Sr25519 k) = sr25519_Address cr k"

text \<open>Signature checks: the length test of the source, then the library of the curve.\<close>

fun VerifySignature :: "crypto_env \<Rightarrow> PubKey \<Rightarrow> bytes \<Rightarrow> bytes \<Rightarrow> bool" where
  "VerifySignature cr (Ed25519 k) msg sig = (if length sig \<noteq> 64 then False else curve_verify cr (Ed25519 k) msg sig)"
| "VerifySignature cr (Secp256k1 k) msg sig = (if length sig \<noteq> 64 then False else curve_verify cr (Secp256k1 k) msg sig)"
| "VerifySignature cr (Sr25519 k) msg sig = curve_verify cr (Sr25519 k) msg sig"

fun SupportsBatchVerifier :: "PubKey option \<Rightarrow> bool" where
  "SupportsBatchVerifier None = False"
| "SupportsBatchVerifier (Some pk) = (PubKey_Type pk = ''ed25519'' \<or> PubKey_Type pk = ''sr25519'')"

text \<open>The protobuf union of \<open>PubKeyToProto\<close> has no case for sr25519.\<close>

datatype PublicKey_Sum = PublicKey_Ed25519 bytes | PublicKey_Secp256K1 bytes

fun PubKeyToProto :: "PubKey option \<Rightarrow> PublicKey_Sum result" where
  "PubKeyToProto (Some (Ed25519 k)) = Ok (PublicKey_Ed25519 k)"
| "PubKeyToProto (Some (Secp256k1 k)) = Ok (PublicKey_Secp256K1 k)"
| "PubKeyToProto _ = Err (Errorf ''toproto: key type is not supported'')"

fun PubKeyFromProto :: "PublicKey_Sum option \<Rightarrow> PubKey result" where
  "PubKeyFromProto (Some (PublicKey_Ed25519 k)) =
     (if length k \<noteq> ed25519_PubKeySize then Err (Errorf ''invalid size for PubKeyEd25519'') else Ok (Ed25519 k))"
| "PubKeyFromProto (Some (PublicKey_Secp256K1 k)) =
     (if length k \<noteq> secp256k1_PubKeySize then Err (Errorf ''invalid size for PubKeySecp256k1'') else Ok (Secp256k1 k))"
| "PubKeyFromProto None = Err (Errorf ''fromproto: key type is not supported'')"

fun PublicKey_Marshal :: "PublicKey_Sum \<Rightarrow> bytes" where
  "PublicKey_Marshal (PublicKey_Ed25519 k) = pb_msg 0x0a k"
| "PublicKey_Marshal (PublicKey_Secp256K1 k) = pb_msg 0x12 k"

section \<open>Validators\<close>

record Validator =
  Address :: bytes
  PubKey :: "PubKey option"
  VotingPower :: int
  ProposerPriority :: int

definition NewValidator :: "crypto_env \<Rightarrow> PubKey \<Rightarrow> int \<Rightarrow> Validator result" where
  "NewValidator cr pubKey votingPower =
     map_out (\<lambda>a. \<lparr>Address = a, PubKey = Some pubKey, VotingPower = votingPower, ProposerPriority = 0\<rparr>)
       (PubKey_Address cr pubKey)"

fun validatePubKeySize :: "PubKey \<Rightarrow> unit result" where
  "validatePubKeySize (Ed25519 k) =
     (if length k \<noteq> ed25519_PubKeySize then Err (Errorf ''validator public key has wrong size'') else Ok ())"
| "validatePubKeySize (Secp256k1 k) =
     (if length k \<noteq> secp256k1_PubKeySize then Err (Errorf ''validator public key has wrong size'') else Ok ())"
| "validatePubKeySize (Sr25519 k) =
     (if length k \<noteq> sr25519_PubKeySize then Err (Errorf ''validator public key has wrong size'') else Ok ())"

definition Validator_ValidateBasic :: "crypto_env \<Rightarrow> Validator option \<Rightarrow> unit result" where
  "Validator_ValidateBasic cr v =
     (case v of None \<Rightarrow> Err (Errorf ''nil validator'')
      | Some val \<Rightarrow>
         (case PubKey val of None \<Rightarrow> Err (Errorf ''validator does not have a public key'')
          | Some pk \<Rightarrow>
              if VotingPower val < 0 then Err (Errorf ''validator has negative voting power'')
              else bind_out (validatePubKeySize pk) (\<lambda>_.
                   bind_out (PubKey_Address cr pk) (\<lambda>addr.
                   if Address val \<noteq> addr
                   then Err (Errorf ''validator address is incorrectly derived from pubkey'')
                   else Ok ()))))"

text \<open>
  A pointer to a validator of a set: its position and what it points to. The nil receiver is None.
\<close>

type_synonym vptr = "nat \<times> Validator"

definition CompareProposerPriority :: "vptr option \<Rightarrow> vptr \<Rightarrow> vptr result" where
  "CompareProposerPriority v other =
     (case v of None \<Rightarrow> Ok other
      | Some p \<Rightarrow>
          if ProposerPriority (snd p) > ProposerPriority (snd other) then Ok p
          else if ProposerPriority (snd p) < ProposerPriority (snd other) then Ok other
          else if Address (snd p) < Address (snd other) then Ok p
          else if Address (snd p) > Address (snd other) then Ok other
          else Panic ''Cannot compare identical validators'')"

text \<open>The bytes hashed in consensus: \<open>SimpleValidator\<close> with the key and the power.\<close>

definition Validator_Bytes :: "Validator \<Rightarrow> bytes result" where
  "Validator_Bytes v =
     (case PubKeyToProto (PubKey v) of
        Ok pk \<Rightarrow> Ok (pb_msg 0x0a (PublicKey_Marshal pk) @ pb_varint 0x10 (to_uint64 (VotingPower v)))
      | Err e \<Rightarrow> Panic ''key type is not supported''
      | Panic s \<Rightarrow> Panic s)"

record ValidatorProto =
  vp_Address :: bytes
  vp_PubKey :: "PublicKey_Sum option"
  vp_VotingPower :: int
  vp_ProposerPriority :: int

definition Validator_ToProto :: "Validator option \<Rightarrow> ValidatorProto result" where
  "Validator_ToProto v =
     (case v of None \<Rightarrow> Err (Errorf ''nil validator'')
      | Some val \<Rightarrow>
          bind_out (PubKeyToProto (PubKey val)) (\<lambda>pk.
          Ok \<lparr>vp_Address = Address val, vp_PubKey = Some pk, vp_VotingPower = VotingPower val,
              vp_ProposerPriority = ProposerPriority val\<rparr>))"

definition ValidatorFromProto :: "ValidatorProto option \<Rightarrow> Validator result" where
  "ValidatorFromProto vp =
     (case vp of None \<Rightarrow> Err (Errorf ''nil validator'')
      | Some p \<Rightarrow>
          bind_out (PubKeyFromProto (vp_PubKey p)) (\<lambda>pk.
          Ok \<lparr>Address = vp_Address p, PubKey = Some pk, VotingPower = vp_VotingPower p,
              ProposerPriority = vp_ProposerPriority p\<rparr>))"

section \<open>What a validator's bytes determine\<close>

lemma Validator_ValidateBasic_ok:
  assumes "Validator_ValidateBasic cr (Some v) = Ok ()"
  obtains pk where "PubKey v = Some pk" "0 \<le> VotingPower v" "PubKey_Address cr pk = Ok (Address v)"
  using assms by (auto simp: Validator_ValidateBasic_def split: option.splits if_splits)

text \<open>A basic check never panics: the size test guards \<open>Address\<close>.\<close>

lemma Validator_ValidateBasic_no_panic: "Validator_ValidateBasic cr v \<noteq> Panic s"
proof (cases v)
  case (Some val)
  show ?thesis
  proof (cases "PubKey val")
    case key: (Some pk)
    then show ?thesis using Some by (cases pk) (auto simp: Validator_ValidateBasic_def)
  qed (simp add: Some Validator_ValidateBasic_def)
qed (simp add: Validator_ValidateBasic_def)

lemma PublicKey_Marshal_inj: "PublicKey_Marshal a = PublicKey_Marshal b \<Longrightarrow> a = b"
  by (cases a; cases b) (auto dest: uvarint_prefix simp: pb_msg_def)

lemma PubKeyToProto_inj: "PubKeyToProto a = Ok k \<Longrightarrow> PubKeyToProto b = Ok k \<Longrightarrow> a = b"
  by (cases a rule: PubKeyToProto.cases; cases b rule: PubKeyToProto.cases) auto

lemma Validator_Bytes_inj:
  assumes "Validator_Bytes v = Ok bz" "Validator_Bytes w = Ok bz" "is_i64 (VotingPower v)" "is_i64 (VotingPower w)"
  shows "PubKey v = PubKey w \<and> VotingPower v = VotingPower w"
proof -
  obtain k l where k: "PubKeyToProto (PubKey v) = Ok k" "PubKeyToProto (PubKey w) = Ok l"
      and eq: "pb_msg 0x0a (PublicKey_Marshal k) @ pb_varint 0x10 (to_uint64 (VotingPower v)) =
        pb_msg 0x0a (PublicKey_Marshal l) @ pb_varint 0x10 (to_uint64 (VotingPower w))"
    using assms(1,2) by (auto simp: Validator_Bytes_def split: result.splits)
  have m: "PublicKey_Marshal k = PublicKey_Marshal l \<and>
      pb_varint 0x10 (to_uint64 (VotingPower v)) = pb_varint 0x10 (to_uint64 (VotingPower w))"
    using eq by (rule pb_msg_prefix)
  then have "k = l" by (intro PublicKey_Marshal_inj) simp
  moreover have "to_uint64 (VotingPower v) = to_uint64 (VotingPower w)"
    using m pb_varint_inj by blast
  ultimately show ?thesis
    using k PubKeyToProto_inj to_uint64_inj [OF assms(3,4)] by blast
qed

end
