(* ===== verification/ValidatorSet.thy ===== *)
theory ValidatorSet
  imports Validator SafeMath
begin

text \<open>
  The validator set (\<open>types/validator_set.go\<close>): the code. The set is a value that is passed through
  every operation that mutates it; an operation that returns an error after it may have mutated the
  set gives back both. The cached total power is a field, and reading it may fill it.

  \<^item> \<open>sort.Sort\<close> and \<open>sort.Slice\<close> are the library's stable sort by the key of the comparison. The
    sort of the library is not stable, which no result below can tell: elements with equal keys are
    rejected right after (\<open>processChanges\<close>), interchangeable (\<open>verifyUpdates\<close>) or absent
    (addresses are unique).
  \<^item> \<open>Proposer\<close> holds the value of the validator it points to at the time it was set. The pointer
    of the source may alias an element of the list, so that a later change of that element's
    \<open>ProposerPriority\<close> would show through it; no operation here reads the priority through it.
  \<^item> \<open>math/big\<close> is unbounded, and \<open>Div\<close> is Euclidean division, which for a positive divisor is the
    division of the integers here.
\<close>

abbreviation MaxTotalVotingPower :: int where "MaxTotalVotingPower \<equiv> 1152921504606846975"
abbreviation PriorityWindowSizeFactor :: int where "PriorityWindowSizeFactor \<equiv> 2"

record ValidatorSet =
  Validators :: "Validator list"
  Proposer :: "Validator option"
  totalVotingPower :: int
  allKeysHaveSameType :: bool

section \<open>Reading\<close>

definition IsNilOrEmpty :: "ValidatorSet option \<Rightarrow> bool" where
  "IsNilOrEmpty vals = (case vals of None \<Rightarrow> True | Some vs \<Rightarrow> Validators vs = [])"

definition HasAddress :: "ValidatorSet \<Rightarrow> bytes \<Rightarrow> bool" where
  "HasAddress vals address \<longleftrightarrow> (\<exists>val \<in> set (Validators vals). Address val = address)"

definition GetByAddress :: "ValidatorSet \<Rightarrow> bytes \<Rightarrow> int \<times> Validator option" where
  "GetByAddress vals address =
     (case find_index (\<lambda>val. Address val = address) (Validators vals) of
        Some idx \<Rightarrow> (i32 (int idx), Some (Validators vals ! idx))
      | None \<Rightarrow> (-1, None))"

definition GetByIndex :: "ValidatorSet \<Rightarrow> int \<Rightarrow> bytes \<times> Validator option" where
  "GetByIndex vals ix =
     (if ix < 0 \<or> ix \<ge> int (length (Validators vals)) then ([], None)
      else (let val = Validators vals ! nat ix in (Address val, Some val)))"

definition VS_Size :: "ValidatorSet \<Rightarrow> int" where
  "VS_Size vals = int (length (Validators vals))"

definition sum_power :: "int \<Rightarrow> Validator \<Rightarrow> int result" where
  "sum_power s val =
     (let s' = safeAddClip s (VotingPower val)
      in if s' > MaxTotalVotingPower then Err (Errorf ''total voting power exceeds maximum'') else Ok s')"

definition updateTotalVotingPower :: "ValidatorSet \<Rightarrow> ValidatorSet result" where
  "updateTotalVotingPower vals =
     bind_out (fold_out (\<lambda>val s. sum_power s val) (Validators vals) 0) (\<lambda>s. Ok (vals\<lparr>totalVotingPower := s\<rparr>))"

definition TotalVotingPowerSafe :: "ValidatorSet \<Rightarrow> (int \<times> ValidatorSet) result" where
  "TotalVotingPowerSafe vals =
     (if totalVotingPower vals = 0
      then bind_out (updateTotalVotingPower vals) (\<lambda>vals'. Ok (totalVotingPower vals', vals'))
      else Ok (totalVotingPower vals, vals))"

definition panic_on_err :: "'a result \<Rightarrow> 'a result" where
  "panic_on_err r = (case r of Err e \<Rightarrow> Panic ''panic(err)'' | _ \<Rightarrow> r)"

definition TotalVotingPower :: "ValidatorSet \<Rightarrow> (int \<times> ValidatorSet) result" where
  "TotalVotingPower vals =
     (if totalVotingPower vals = 0
      then bind_out (panic_on_err (updateTotalVotingPower vals)) (\<lambda>vals'. Ok (totalVotingPower vals', vals'))
      else Ok (totalVotingPower vals, vals))"

definition VS_Hash :: "crypto_env \<Rightarrow> ValidatorSet \<Rightarrow> bytes result" where
  "VS_Hash cr vals =
     bind_out (fold_out (\<lambda>val bzs. map_out (\<lambda>bz. bzs @ [bz]) (Validator_Bytes val)) (Validators vals) []) (\<lambda>bzs.
     HashFromByteSlices (sha cr) bzs)"

text \<open>\<open>binary.PutVarint\<close>: zig-zag, then unsigned.\<close>

definition varint :: "int \<Rightarrow> bytes" where
  "varint x = uvarint (nat (if x < 0 then -2 * x - 1 else 2 * x))"

definition ProposerPriorityHash :: "crypto_env \<Rightarrow> ValidatorSet \<Rightarrow> bytes" where
  "ProposerPriorityHash cr vals =
     (if Validators vals = [] then []
      else sha cr (concat (map (\<lambda>val. varint (ProposerPriority val)) (Validators vals))))"

definition VS_Copy :: "ValidatorSet \<Rightarrow> ValidatorSet" where
  "VS_Copy vals =
     \<lparr>Validators = Validators vals, Proposer = Proposer vals, totalVotingPower = totalVotingPower vals,
      allKeysHaveSameType = allKeysHaveSameType vals\<rparr>"

section \<open>Proposer priorities\<close>

definition min_max :: "int list \<Rightarrow> int \<times> int" where
  "min_max ps = fold (\<lambda>p (mn, mx). (if p < mn then p else mn, if p > mx then p else mx)) ps (MaxInt64, MinInt64)"

definition computeMaxMinPriorityDiff :: "Validator list \<Rightarrow> int result" where
  "computeMaxMinPriorityDiff vs =
     (if vs = [] then Panic ''empty validator set''
      else case min_max (map ProposerPriority vs) of (mn, mx) \<Rightarrow>
        let diff = i64 (mx - mn) in Ok (if diff < 0 then i64 (-1 * diff) else diff))"

definition RescalePriorities :: "ValidatorSet \<Rightarrow> int \<Rightarrow> ValidatorSet result" where
  "RescalePriorities vals diffMax =
     (if Validators vals = [] then Panic ''empty validator set''
      else if diffMax \<le> 0 then Ok vals
      else bind_out (computeMaxMinPriorityDiff (Validators vals)) (\<lambda>diff.
           let ratio = i64 (i64 (diff + diffMax) - 1) sdiv diffMax
           in if diff > diffMax
              then if ratio = 0 then Panic ''integer divide by zero''
                   else Ok (vals\<lparr>Validators := map (\<lambda>val. val\<lparr>ProposerPriority := i64 (ProposerPriority val sdiv ratio)\<rparr>)
                                (Validators vals)\<rparr>)
              else Ok vals))"

definition computeAvgProposerPriority :: "Validator list \<Rightarrow> int result" where
  "computeAvgProposerPriority vs =
     (if vs = [] then Panic ''division by zero''
      else let avg = sum_list (map ProposerPriority vs) div int (length vs)
           in if is_i64 avg then Ok avg else Panic ''Cannot represent avg ProposerPriority as an int64'')"

definition shiftByAvgProposerPriority :: "ValidatorSet \<Rightarrow> ValidatorSet result" where
  "shiftByAvgProposerPriority vals =
     (if Validators vals = [] then Panic ''empty validator set''
      else bind_out (computeAvgProposerPriority (Validators vals)) (\<lambda>avg.
           Ok (vals\<lparr>Validators := map (\<lambda>val. val\<lparr>ProposerPriority := safeSubClip (ProposerPriority val) avg\<rparr>)
                     (Validators vals)\<rparr>)))"

definition getValWithMostPriority :: "Validator list \<Rightarrow> (vptr option) result" where
  "getValWithMostPriority vs =
     fold_out (\<lambda>val res. map_out Some (CompareProposerPriority res val)) (enumerate 0 vs) None"

definition incrementProposerPriority :: "ValidatorSet \<Rightarrow> (Validator \<times> ValidatorSet) result" where
  "incrementProposerPriority vals =
     (let vs = map (\<lambda>val. val\<lparr>ProposerPriority := safeAddClip (ProposerPriority val) (VotingPower val)\<rparr>) (Validators vals)
      in bind_out (getValWithMostPriority vs) (\<lambda>mostest.
         case mostest of None \<Rightarrow> Panic ''nil pointer dereference''
         | Some (i, m) \<Rightarrow>
             bind_out (TotalVotingPower (vals\<lparr>Validators := vs\<rparr>)) (\<lambda>(total_power, vals').
             let m' = m\<lparr>ProposerPriority := safeSubClip (ProposerPriority m) total_power\<rparr>
             in Ok (m', vals'\<lparr>Validators := vs[i := m']\<rparr>))))"

text \<open>The loop \<open>for i := int32(0); i < times; i++\<close>; the proposer is nil before the first step.\<close>

primrec increment_loop :: "nat \<Rightarrow> ValidatorSet \<Rightarrow> Validator option \<Rightarrow> (Validator option \<times> ValidatorSet) result" where
  "increment_loop 0 vals p = Ok (p, vals)"
| "increment_loop (Suc n) vals p =
     bind_out (incrementProposerPriority vals) (\<lambda>(m, vals'). increment_loop n vals' (Some m))"

definition IncrementProposerPriority :: "ValidatorSet \<Rightarrow> int \<Rightarrow> ValidatorSet result" where
  "IncrementProposerPriority vals n_times =
     (if Validators vals = [] then Panic ''empty validator set''
      else if n_times \<le> 0 then Panic ''Cannot call IncrementProposerPriority with non-positive times''
      else bind_out (TotalVotingPower vals) (\<lambda>(total_power, vals).
           bind_out (RescalePriorities vals (i64 (PriorityWindowSizeFactor * total_power))) (\<lambda>vals.
           bind_out (shiftByAvgProposerPriority vals) (\<lambda>vals.
           bind_out (increment_loop (nat n_times) vals None) (\<lambda>(p, vals).
           Ok (vals\<lparr>Proposer := p\<rparr>))))))"

definition CopyIncrementProposerPriority :: "ValidatorSet \<Rightarrow> int \<Rightarrow> ValidatorSet result" where
  "CopyIncrementProposerPriority vals n_times = IncrementProposerPriority (VS_Copy vals) n_times"

definition findProposer :: "Validator list \<Rightarrow> (vptr option) result" where
  "findProposer vs =
     fold_out (\<lambda>val res.
         case res of
           Some p \<Rightarrow> if Address (snd val) \<noteq> Address (snd p) then map_out Some (CompareProposerPriority res val) else Ok res
         | None \<Rightarrow> map_out Some (CompareProposerPriority res val))
       (enumerate 0 vs) None"

definition GetProposer :: "ValidatorSet \<Rightarrow> (Validator option \<times> ValidatorSet) result" where
  "GetProposer vals =
     (if Validators vals = [] then Ok (None, vals)
      else case Proposer vals of
             Some p \<Rightarrow> Ok (Some p, vals)
           | None \<Rightarrow> bind_out (findProposer (Validators vals)) (\<lambda>p.
               let p' = map_option snd p in Ok (p', vals\<lparr>Proposer := p'\<rparr>)))"

text \<open>Pointer equality is equality of positions.\<close>

definition findPreviousProposer :: "Validator list \<Rightarrow> (vptr option) result" where
  "findPreviousProposer vs =
     fold_out (\<lambda>val prev.
         case prev of None \<Rightarrow> Ok (Some val)
         | Some p \<Rightarrow> bind_out (CompareProposerPriority prev val) (\<lambda>c.
             if fst p = fst c then Ok (Some val) else Ok prev))
       (enumerate 0 vs) None"

section \<open>Updating the set\<close>

definition MaxTotalVotingPower_check :: "Validator \<Rightarrow> unit result" where
  "MaxTotalVotingPower_check v =
     (if VotingPower v < 0 then Err (Errorf ''voting power can't be negative'')
      else if VotingPower v > MaxTotalVotingPower then Err (Errorf ''to prevent clipping/overflow, voting power can't be higher'')
      else Ok ())"

text \<open>The scan of \<open>processChanges\<close>: \<open>prevAddr\<close>, the updates and the removals so far.\<close>

definition process_change ::
  "Validator \<Rightarrow> bytes \<times> Validator list \<times> Validator list \<Rightarrow> (bytes \<times> Validator list \<times> Validator list) result" where
  "process_change valUpdate st =
     (case st of (prevAddr, updates, removals) \<Rightarrow>
        if Address valUpdate = prevAddr then Err (Errorf ''duplicate entry'')
        else bind_out (MaxTotalVotingPower_check valUpdate) (\<lambda>_.
             if VotingPower valUpdate = 0 then Ok (Address valUpdate, updates, removals @ [valUpdate])
             else Ok (Address valUpdate, updates @ [valUpdate], removals)))"

definition processChanges :: "Validator list \<Rightarrow> (Validator list \<times> Validator list) result" where
  "processChanges origChanges =
     map_out snd (fold_out process_change (sort_key Address origChanges) ([], [], []))"

definition delta :: "ValidatorSet \<Rightarrow> Validator \<Rightarrow> int" where
  "delta vals update =
     (case GetByAddress vals (Address update) of
        (_, Some val) \<Rightarrow> i64 (VotingPower update - VotingPower val)
      | (_, None) \<Rightarrow> VotingPower update)"

definition verifyUpdates :: "Validator list \<Rightarrow> ValidatorSet \<Rightarrow> int \<Rightarrow> (int \<times> ValidatorSet) result" where
  "verifyUpdates updates vals removedPower =
     bind_out (TotalVotingPower vals) (\<lambda>(total_power, vals').
     bind_out (fold_out (\<lambda>upd tvpAfterRemovals.
                  let t = i64 (tvpAfterRemovals + delta vals upd)
                  in if t > MaxTotalVotingPower then Err (Errorf ''total voting power of resulting valset exceeds max'') else Ok t)
                (sort_key (delta vals) updates) (i64 (total_power - removedPower))) (\<lambda>tvpAfterRemovals.
     Ok (i64 (tvpAfterRemovals + removedPower), vals')))"

definition numNewValidators :: "Validator list \<Rightarrow> ValidatorSet \<Rightarrow> nat" where
  "numNewValidators updates vals = length (filter (\<lambda>v. \<not> HasAddress vals (Address v)) updates)"

definition computeNewPriorities :: "Validator list \<Rightarrow> ValidatorSet \<Rightarrow> int \<Rightarrow> Validator list" where
  "computeNewPriorities updates vals updatedTotalVotingPower =
     map (\<lambda>valUpdate.
        case GetByAddress vals (Address valUpdate) of
          (_, None) \<Rightarrow> valUpdate\<lparr>ProposerPriority :=
              i64 (- i64 (updatedTotalVotingPower + updatedTotalVotingPower div 8))\<rparr>
        | (_, Some val) \<Rightarrow> valUpdate\<lparr>ProposerPriority := ProposerPriority val\<rparr>)
       updates"

fun merge_updates :: "Validator list \<Rightarrow> Validator list \<Rightarrow> Validator list" where
  "merge_updates (e # existing) (u # updates) =
     (if Address e < Address u then e # merge_updates existing (u # updates)
      else if Address e = Address u then u # merge_updates existing updates
      else u # merge_updates (e # existing) updates)"
| "merge_updates existing [] = existing"
| "merge_updates [] updates = updates"

definition applyUpdates :: "ValidatorSet \<Rightarrow> Validator list \<Rightarrow> ValidatorSet" where
  "applyUpdates vals updates =
     vals\<lparr>Validators := merge_updates (sort_key Address (Validators vals)) updates\<rparr>"

definition verifyRemovals :: "Validator list \<Rightarrow> ValidatorSet \<Rightarrow> int result" where
  "verifyRemovals deletes vals =
     bind_out (fold_out (\<lambda>valUpdate removed.
                  case GetByAddress vals (Address valUpdate) of
                    (_, None) \<Rightarrow> Err (Errorf ''failed to find validator to remove'')
                  | (_, Some val) \<Rightarrow> Ok (i64 (removed + VotingPower val)))
                deletes 0) (\<lambda>removed.
     if length deletes > length (Validators vals) then Panic ''more deletes than validators'' else Ok removed)"

text \<open>
  The loop of \<open>applyRemovals\<close>; reading \<open>existing[0]\<close> of an empty slice panics, and so would writing
  past the end of the result, which has room for exactly the validators that are kept.
\<close>

fun remove_loop :: "Validator list \<Rightarrow> Validator list \<Rightarrow> (Validator list) result" where
  "remove_loop existing [] = Ok existing"
| "remove_loop [] (d # deletes) = Panic ''index out of range''"
| "remove_loop (e # existing) (d # deletes) =
     (if Address e = Address d then remove_loop existing deletes
      else map_out ((#) e) (remove_loop existing (d # deletes)))"

definition applyRemovals :: "ValidatorSet \<Rightarrow> Validator list \<Rightarrow> ValidatorSet result" where
  "applyRemovals vals deletes =
     (if length (Validators vals) < length deletes then Panic ''makeslice: len out of range''
      else map_out (\<lambda>vs. vals\<lparr>Validators := vs\<rparr>) (remove_loop (Validators vals) deletes))"

text \<open>The loop of \<open>checkAllKeysHaveSameType\<close>: the first key type seen so far, \<open>''''\<close> for none.\<close>

fun same_type_loop :: "Validator list \<Rightarrow> string \<Rightarrow> bool result" where
  "same_type_loop [] firstKeyType = Ok True"
| "same_type_loop (val # vs) firstKeyType =
     (case PubKey val of
        None \<Rightarrow> if firstKeyType = [] then same_type_loop vs firstKeyType else Panic ''nil pointer dereference''
      | Some pk \<Rightarrow>
          let t = (if firstKeyType = [] then PubKey_Type pk else firstKeyType)
          in if PubKey_Type pk \<noteq> t then Ok False else same_type_loop vs t)"

definition checkAllKeysHaveSameType :: "ValidatorSet \<Rightarrow> ValidatorSet result" where
  "checkAllKeysHaveSameType vals =
     map_out (\<lambda>b. vals\<lparr>allKeysHaveSameType := b\<rparr>) (same_type_loop (Validators vals) [])"

text \<open>By voting power, descending, then by address, ascending.\<close>

definition power_less :: "Validator \<Rightarrow> Validator \<Rightarrow> bool" where
  "power_less v w =
     (if VotingPower v = VotingPower w then Address v < Address w else VotingPower v > VotingPower w)"

definition sort_by_power :: "Validator list \<Rightarrow> Validator list" where
  "sort_by_power vs = sort_key (\<lambda>v. - VotingPower v) (sort_key Address vs)"

text \<open>
  An error leaves the receiver as it is, up to the cached total power, which \<open>verifyUpdates\<close> may
  have filled: the set after the call is the first component.
\<close>

definition finish_update :: "ValidatorSet \<Rightarrow> Validator list \<Rightarrow> Validator list \<Rightarrow> ValidatorSet result" where
  "finish_update vals updates deletes =
     bind_out (applyRemovals (applyUpdates vals updates) deletes) (\<lambda>vals.
     bind_out (checkAllKeysHaveSameType vals) (\<lambda>vals.
     bind_out (panic_on_err (updateTotalVotingPower vals)) (\<lambda>vals.
     bind_out (TotalVotingPower vals) (\<lambda>(total_power, vals).
     bind_out (RescalePriorities vals (i64 (PriorityWindowSizeFactor * total_power))) (\<lambda>vals.
     bind_out (shiftByAvgProposerPriority vals) (\<lambda>vals.
     Ok (vals\<lparr>Validators := sort_by_power (Validators vals)\<rparr>)))))))"

definition updateWithChangeSet ::
  "ValidatorSet \<Rightarrow> Validator list \<Rightarrow> bool \<Rightarrow> (ValidatorSet \<times> go_error option) result" where
  "updateWithChangeSet vals changes allowDeletes =
     (if changes = [] then Ok (vals, None)
      else case processChanges changes of
        Err e \<Rightarrow> Ok (vals, Some e)
      | Panic s \<Rightarrow> Panic s
      | Ok (updates, deletes) \<Rightarrow>
          if \<not> allowDeletes \<and> deletes \<noteq> []
          then Ok (vals, Some (Errorf ''cannot process validators with voting power 0''))
          else if numNewValidators updates vals = 0 \<and> length (Validators vals) = length deletes
          then Ok (vals, Some (Errorf ''applying the validator changes would result in empty set''))
          else case verifyRemovals deletes vals of
            Err e \<Rightarrow> Ok (vals, Some e)
          | Panic s \<Rightarrow> Panic s
          | Ok removedVotingPower \<Rightarrow>
              (case verifyUpdates updates vals removedVotingPower of
                 Err e \<Rightarrow> map_out (\<lambda>(_, vals'). (vals', Some e)) (TotalVotingPower vals)
               | Panic s \<Rightarrow> Panic s
               | Ok (tvpAfterUpdatesBeforeRemovals, vals') \<Rightarrow>
                   map_out (\<lambda>vals''. (vals'', None))
                     (finish_update vals'
                        (computeNewPriorities updates vals' tvpAfterUpdatesBeforeRemovals) deletes)))"

definition UpdateWithChangeSet :: "ValidatorSet \<Rightarrow> Validator list \<Rightarrow> (ValidatorSet \<times> go_error option) result" where
  "UpdateWithChangeSet vals changes = updateWithChangeSet vals changes True"

definition empty_set :: ValidatorSet where
  "empty_set = \<lparr>Validators = [], Proposer = None, totalVotingPower = 0, allKeysHaveSameType = True\<rparr>"

definition NewValidatorSet :: "Validator list \<Rightarrow> ValidatorSet result" where
  "NewValidatorSet valz =
     bind_out (updateWithChangeSet empty_set valz False) (\<lambda>(vals, err).
     case err of Some e \<Rightarrow> Panic ''Cannot create validator set''
     | None \<Rightarrow> if valz \<noteq> [] then IncrementProposerPriority vals 1 else Ok vals)"

section \<open>Checking and rebuilding\<close>

definition VS_ValidateBasic :: "crypto_env \<Rightarrow> ValidatorSet option \<Rightarrow> unit result" where
  "VS_ValidateBasic cr vals =
     (case vals of None \<Rightarrow> Err (Errorf ''validator set is nil or empty'')
      | Some vs \<Rightarrow>
          if Validators vs = [] then Err (Errorf ''validator set is nil or empty'')
          else bind_out (fold_out (\<lambda>val _. map_err (Wrapf ''invalid validator'') (Validator_ValidateBasic cr (Some val)))
                           (Validators vs) ()) (\<lambda>_.
               bind_out (map_err (Wrapf ''proposer failed validate basic'') (Validator_ValidateBasic cr (Proposer vs))) (\<lambda>_.
               case Proposer vs of None \<Rightarrow> Panic ''nil pointer dereference''
               | Some p \<Rightarrow>
                   if \<exists>val \<in> set (Validators vs). Address val = Address p then Ok ()
                   else Err (Errorf ''proposer not in validator set''))))"

text \<open>The loop over the given validators: \<open>seen\<close> is the set of addresses so far.\<close>

fun check_existing :: "crypto_env \<Rightarrow> Validator list \<Rightarrow> bytes list \<Rightarrow> unit result" where
  "check_existing cr [] seen = Ok ()"
| "check_existing cr (val # vs) seen =
     bind_out (map_err (Wrapf ''can't create validator set'') (Validator_ValidateBasic cr (Some val))) (\<lambda>_.
     if Address val \<in> set seen then Err (Errorf ''duplicate validator address'')
     else check_existing cr vs (Address val # seen))"

definition ValidatorSetFromExistingValidators :: "crypto_env \<Rightarrow> Validator list \<Rightarrow> ValidatorSet result" where
  "ValidatorSetFromExistingValidators cr valz =
     (if valz = [] then Err (Errorf ''validator set is empty'')
      else bind_out (check_existing cr valz []) (\<lambda>_.
           bind_out (checkAllKeysHaveSameType
                \<lparr>Validators = valz, Proposer = None, totalVotingPower = 0, allKeysHaveSameType = False\<rparr>) (\<lambda>vals.
           bind_out (findPreviousProposer valz) (\<lambda>p.
           bind_out (updateTotalVotingPower (vals\<lparr>Proposer := map_option snd p\<rparr>)) (\<lambda>vals.
           Ok (vals\<lparr>Validators := sort_by_power (Validators vals)\<rparr>))))))"

end
