(* ===== verification/ValidatorSetProps.thy ===== *)
theory ValidatorSetProps
  imports ValidatorSet "HOL-Library.Multiset"
begin

text \<open>
  What the operations of the validator set keep and compute: the total voting power never
  overflows, an update is the override of a map from addresses to powers, a failed update changes
  nothing, and the proposer priorities stay in a window that the arithmetic never clips.
\<close>

section \<open>Well-formed sets\<close>

definition power_sum :: "Validator list \<Rightarrow> int" where
  "power_sum vs = sum_list (map VotingPower vs)"

definition addrs :: "Validator list \<Rightarrow> bytes list" where
  "addrs vs = map Address vs"

text \<open>Unique addresses, positive powers and a total within the maximum.\<close>

definition powers_wf :: "Validator list \<Rightarrow> bool" where
  "powers_wf vs \<longleftrightarrow> distinct (addrs vs) \<and> (\<forall>v \<in> set vs. 0 < VotingPower v) \<and> power_sum vs \<le> MaxTotalVotingPower"

definition prios_within :: "int \<Rightarrow> Validator list \<Rightarrow> bool" where
  "prios_within b vs \<longleftrightarrow> (\<forall>v \<in> set vs. \<bar>ProposerPriority v\<bar> \<le> b)"

definition keys_ok :: "Validator list \<Rightarrow> bool" where
  "keys_ok vs \<longleftrightarrow> (\<forall>v \<in> set vs. PubKey v \<noteq> None)"

definition vset_wf :: "ValidatorSet \<Rightarrow> bool" where
  "vset_wf vals \<longleftrightarrow> powers_wf (Validators vals) \<and> keys_ok (Validators vals) \<and>
     prios_within (3 * MaxTotalVotingPower) (Validators vals) \<and>
     (totalVotingPower vals = 0 \<or> totalVotingPower vals = power_sum (Validators vals))"

lemma power_sum_simps [simp]: "power_sum [] = 0" "power_sum (v # vs) = VotingPower v + power_sum vs" "power_sum (vs @ ws) = power_sum vs + power_sum ws"
  by (simp_all add: power_sum_def)

lemma power_sum_mset: "mset vs = mset ws \<Longrightarrow> power_sum vs = power_sum ws"
  unfolding power_sum_def by (metis mset_map sum_mset_sum_list)

lemma power_sum_nonneg: "\<forall>v \<in> set vs. 0 \<le> VotingPower v \<Longrightarrow> 0 \<le> power_sum vs"
  by (induction vs) auto

lemma power_le_sum: "\<forall>v \<in> set vs. 0 \<le> VotingPower v \<Longrightarrow> v \<in> set vs \<Longrightarrow> VotingPower v \<le> power_sum vs"
  by (induction vs) (auto dest: power_sum_nonneg)

lemma powers_wf_mset: "mset vs = mset ws \<Longrightarrow> powers_wf vs = powers_wf ws"
proof -
  assume m: "mset vs = mset ws"
  have "distinct (addrs vs) = distinct (addrs ws)"
    by (rule mset_eq_imp_distinct_iff) (simp add: addrs_def m)
  then show ?thesis using mset_eq_setD [OF m] power_sum_mset [OF m] by (simp add: powers_wf_def)
qed

lemma powers_wf_total:
  assumes "powers_wf vs"
  shows "0 \<le> power_sum vs" "power_sum vs \<le> MaxTotalVotingPower" "vs \<noteq> [] \<Longrightarrow> 0 < power_sum vs"
    "v \<in> set vs \<Longrightarrow> 0 < VotingPower v \<and> VotingPower v \<le> power_sum vs"
proof -
  have nn: "\<forall>v \<in> set vs. 0 \<le> VotingPower v" using assms by (force simp: powers_wf_def)
  show "0 \<le> power_sum vs" "power_sum vs \<le> MaxTotalVotingPower" using assms power_sum_nonneg [OF nn] by (auto simp: powers_wf_def)
  show v: "v \<in> set vs \<Longrightarrow> 0 < VotingPower v \<and> VotingPower v \<le> power_sum vs" for v
    using assms power_le_sum [OF nn] by (auto simp: powers_wf_def)
  assume "vs \<noteq> []"
  then show "0 < power_sum vs" using v [of "hd vs"] by simp
qed

section \<open>The total voting power\<close>

lemma sum_power_fold:
  assumes "\<forall>v \<in> set vs. 0 \<le> VotingPower v \<and> VotingPower v \<le> MaxTotalVotingPower" "0 \<le> s" "s \<le> MaxTotalVotingPower"
  shows "fold_out (\<lambda>val s. sum_power s val) vs s =
    (if s + power_sum vs \<le> MaxTotalVotingPower then Ok (s + power_sum vs)
     else Err (Errorf ''total voting power exceeds maximum''))"
  using assms
proof (induction vs arbitrary: s)
  case (Cons v vs)
  have clip: "safeAddClip s (VotingPower v) = s + VotingPower v"
    using Cons.prems by (simp add: safeAddClip_eq is_i64_def)
  have "0 \<le> power_sum vs" using Cons.prems(1) by (intro power_sum_nonneg) auto
  then show ?case
    using Cons.IH [of "s + VotingPower v"] Cons.prems by (auto simp: sum_power_def clip Let_def)
qed simp

lemma updateTotalVotingPower_wf:
  assumes "powers_wf (Validators vals)"
  shows "updateTotalVotingPower vals = Ok (vals\<lparr>totalVotingPower := power_sum (Validators vals)\<rparr>)"
proof -
  have "\<forall>v \<in> set (Validators vals). 0 \<le> VotingPower v \<and> VotingPower v \<le> MaxTotalVotingPower"
    using powers_wf_total [OF assms] by fastforce
  then show ?thesis
    using sum_power_fold [of "Validators vals" 0] powers_wf_total(2) [OF assms]
    by (simp add: updateTotalVotingPower_def)
qed

lemma TotalVotingPower_wf:
  assumes "powers_wf (Validators vals)" "totalVotingPower vals = 0 \<or> totalVotingPower vals = power_sum (Validators vals)"
  shows "TotalVotingPower vals = Ok (power_sum (Validators vals), vals\<lparr>totalVotingPower := power_sum (Validators vals)\<rparr>)"
  using assms by (auto simp: TotalVotingPower_def updateTotalVotingPower_wf panic_on_err_def)

section \<open>Looking up an address\<close>

lemma GetByAddress_Some:
  assumes "distinct (addrs (Validators vals))" "v \<in> set (Validators vals)"
  shows "snd (GetByAddress vals (Address v)) = Some v"
proof -
  obtain i where i: "i < length (Validators vals)" "Validators vals ! i = v" using assms(2) by (auto simp: in_set_conv_nth)
  have "find_index (\<lambda>val. Address val = Address v) (Validators vals) = Some i"
    by (rule find_index_unique) (use assms(1) i in \<open>auto simp: addrs_def distinct_conv_nth\<close>)
  then show ?thesis using i by (simp add: GetByAddress_def)
qed

lemma GetByAddress_None: "a \<notin> set (addrs (Validators vals)) \<Longrightarrow> GetByAddress vals a = (-1, None)"
  by (auto simp: GetByAddress_def find_index_None_iff addrs_def split: option.splits dest!: find_index_SomeD)

lemma GetByAddress_SomeD: "GetByAddress vals a = (i, Some v) \<Longrightarrow> v \<in> set (Validators vals) \<and> Address v = a"
  by (auto simp: GetByAddress_def split: option.splits dest!: find_index_SomeD)

text \<open>The power an address has in a set, zero when it is absent.\<close>

definition power_at :: "Validator list \<Rightarrow> bytes \<Rightarrow> int" where
  "power_at vs a = sum_list (map VotingPower (filter (\<lambda>v. Address v = a) vs))"

lemma power_at_in: "distinct (addrs vs) \<Longrightarrow> v \<in> set vs \<Longrightarrow> power_at vs (Address v) = VotingPower v"
proof (induction vs)
  case (Cons w vs)
  have "filter (\<lambda>v. Address v = a) vs = []" if "a \<notin> set (addrs vs)" for a
    using that by (auto simp: addrs_def filter_empty_conv)
  then show ?case using Cons by (auto simp: power_at_def addrs_def image_iff)
qed simp

lemma power_at_notin: "a \<notin> set (addrs vs) \<Longrightarrow> power_at vs a = 0"
proof -
  assume "a \<notin> set (addrs vs)"
  then have "filter (\<lambda>v. Address v = a) vs = []" by (auto simp: addrs_def filter_empty_conv)
  then show ?thesis by (simp add: power_at_def)
qed

lemma power_at_sum:
  assumes "distinct as"
  shows "sum_list (map (power_at vs) as) = power_sum (filter (\<lambda>v. Address v \<in> set as) vs)"
proof (induction vs)
  case Nil
  then show ?case by (simp add: power_at_def)
next
  case (Cons v vs)
  have "sum_list (map (power_at (v # vs)) as) =
      sum_list (map (\<lambda>a. (if Address v = a then VotingPower v else 0) + power_at vs a) as)"
    by (intro arg_cong [where f = sum_list] map_cong) (auto simp: power_at_def)
  also have "\<dots> = sum_list (map (\<lambda>a. if Address v = a then VotingPower v else 0) as) + sum_list (map (power_at vs) as)"
    by (simp add: sum_list_addf)
  also have "sum_list (map (\<lambda>a. if Address v = a then VotingPower v else 0) as) = (if Address v \<in> set as then VotingPower v else 0)"
    using assms by (induction as) auto
  finally show ?case using Cons by simp
qed

lemma delta_eq:
  assumes "powers_wf (Validators vals)" "0 \<le> VotingPower u" "VotingPower u \<le> MaxTotalVotingPower"
  shows "delta vals u = VotingPower u - power_at (Validators vals) (Address u)"
proof (cases "Address u \<in> set (addrs (Validators vals))")
  case True
  then obtain v where v: "v \<in> set (Validators vals)" "Address v = Address u" by (auto simp: addrs_def)
  have d: "distinct (addrs (Validators vals))" using assms(1) by (simp add: powers_wf_def)
  have "0 < VotingPower v \<and> VotingPower v \<le> MaxTotalVotingPower"
    using powers_wf_total [OF assms(1)] v(1) by fastforce
  then show ?thesis
    using GetByAddress_Some [OF d v(1)] power_at_in [OF d v(1)] v(2) assms(2,3)
    by (auto simp: delta_def is_i64_def split: prod.splits)
next
  case False
  then show ?thesis by (simp add: delta_def GetByAddress_None power_at_notin)
qed

section \<open>Splitting the changes\<close>

definition power_in_range :: "Validator \<Rightarrow> bool" where
  "power_in_range v \<longleftrightarrow> 0 \<le> VotingPower v \<and> VotingPower v \<le> MaxTotalVotingPower"

lemma check_range: "MaxTotalVotingPower_check v = Ok () \<longleftrightarrow> power_in_range v"
  by (simp add: MaxTotalVotingPower_check_def power_in_range_def)

lemma check_no_panic: "MaxTotalVotingPower_check v \<noteq> Panic s"
  by (simp add: MaxTotalVotingPower_check_def)

lemma process_change_tuple:
  "process_change v (prev, us, ds) =
     (if Address v = prev then Err (Errorf ''duplicate entry'')
      else bind_out (MaxTotalVotingPower_check v) (\<lambda>_.
           if VotingPower v = 0 then Ok (Address v, us, ds @ [v]) else Ok (Address v, us @ [v], ds)))"
  by (simp add: process_change_def)

lemma process_fold:
  assumes "fold_out process_change vs (prev, us, ds) = Ok (prev', us', ds')" "sorted (addrs vs)" "\<forall>a \<in> set (addrs vs). prev \<le> a"
  shows "us' = us @ filter (\<lambda>v. VotingPower v \<noteq> 0) vs \<and> ds' = ds @ filter (\<lambda>v. VotingPower v = 0) vs \<and>
    distinct (addrs vs) \<and> prev \<notin> set (addrs vs) \<and> (\<forall>v \<in> set vs. power_in_range v)"
  using assms
proof (induction vs arbitrary: prev us ds)
  case (Cons v vs)
  have ne: "Address v \<noteq> prev" and r: "power_in_range v" and
    rest: "fold_out process_change vs (Address v, if VotingPower v = 0 then us else us @ [v],
             if VotingPower v = 0 then ds @ [v] else ds) = Ok (prev', us', ds')"
    using Cons.prems(1) by (auto simp: process_change_tuple check_range split: if_splits)
  have "\<forall>a \<in> set (addrs vs). Address v \<le> a" "sorted (addrs vs)" using Cons.prems(2) by (auto simp: addrs_def)
  note IH = Cons.IH [OF rest this(2,1)]
  have "prev < Address v" using ne Cons.prems(3) by (auto simp: addrs_def)
  then have "prev \<notin> set (addrs vs)" using \<open>\<forall>a \<in> set (addrs vs). Address v \<le> a\<close> by fastforce
  with IH ne r show ?case by (auto simp: addrs_def)
qed (simp add: addrs_def)

lemma process_fold_no_panic: "fold_out process_change vs st \<noteq> Panic s"
proof (induction vs arbitrary: st)
  case (Cons v vs)
  obtain p us ds where st: "st = (p, us, ds)" by (cases st)
  show ?case
    using Cons by (cases "MaxTotalVotingPower_check v") (auto simp: st process_change_tuple check_no_panic)
qed simp

lemma sort_addr_facts:
  "mset (sort_key Address vs) = mset vs" "set (sort_key Address vs) = set vs" "sorted (addrs (sort_key Address vs))"
  by (simp_all add: addrs_def)

lemma processChanges_spec:
  assumes "processChanges cs = Ok (us, ds)"
  shows "us = filter (\<lambda>v. VotingPower v \<noteq> 0) (sort_key Address cs)" "ds = filter (\<lambda>v. VotingPower v = 0) (sort_key Address cs)"
    "distinct (addrs cs)" "\<forall>v \<in> set cs. power_in_range v"
proof -
  obtain p where "fold_out process_change (sort_key Address cs) ([], [], []) = Ok (p, us, ds)"
    using assms by (auto simp: processChanges_def)
  then have *: "us = [] @ filter (\<lambda>v. VotingPower v \<noteq> 0) (sort_key Address cs) \<and>
      ds = [] @ filter (\<lambda>v. VotingPower v = 0) (sort_key Address cs) \<and> distinct (addrs (sort_key Address cs)) \<and>
      [] \<notin> set (addrs (sort_key Address cs)) \<and> (\<forall>v \<in> set (sort_key Address cs). power_in_range v)"
    by (rule process_fold) (simp_all add: addrs_def)
  then show "us = filter (\<lambda>v. VotingPower v \<noteq> 0) (sort_key Address cs)" "ds = filter (\<lambda>v. VotingPower v = 0) (sort_key Address cs)"
    "\<forall>v \<in> set cs. power_in_range v" by simp_all
  have "mset (addrs (sort_key Address cs)) = mset (addrs cs)" by (simp add: addrs_def)
  then show "distinct (addrs cs)" using * mset_eq_imp_distinct_iff by blast
qed

lemma processChanges_no_panic: "processChanges cs \<noteq> Panic s"
  using process_fold_no_panic [of "sort_key Address cs" "([], [], [])"]
  by (cases "fold_out process_change (sort_key Address cs) ([], [], [])") (auto simp: processChanges_def)

section \<open>Checking removals and updates\<close>

lemma verifyRemovals_fold:
  assumes wf: "powers_wf (Validators vals)"
    and "fold_out (\<lambda>valUpdate removed.
                  case GetByAddress vals (Address valUpdate) of
                    (_, None) \<Rightarrow> Err (Errorf ''failed to find validator to remove'')
                  | (_, Some val) \<Rightarrow> Ok (i64 (removed + VotingPower val))) ds r = Ok r'"
    and "distinct (addrs ds)" "0 \<le> r"
    and "r + sum_list (map (power_at (Validators vals)) (addrs ds)) \<le> MaxTotalVotingPower"
  shows "r' = r + sum_list (map (power_at (Validators vals)) (addrs ds)) \<and> set (addrs ds) \<subseteq> set (addrs (Validators vals))"
  using assms(2-)
proof (induction ds arbitrary: r)
  case (Cons d ds)
  obtain i v where v: "GetByAddress vals (Address d) = (i, Some v)"
    using Cons.prems(1) by (auto split: prod.splits option.splits)
  have vin: "v \<in> set (Validators vals)" "Address v = Address d" using GetByAddress_SomeD [OF v] by auto
  have dist: "distinct (addrs (Validators vals))" using wf by (simp add: powers_wf_def)
  have pa: "power_at (Validators vals) (Address d) = VotingPower v" using power_at_in [OF dist vin(1)] vin(2) by simp
  have nn: "0 \<le> sum_list (map (power_at (Validators vals)) as)" for as
    by (rule sum_list_nonneg) (use wf in \<open>auto simp: power_at_def powers_wf_def less_imp_le intro!: sum_list_nonneg\<close>)
  have pos: "0 < VotingPower v" using powers_wf_total [OF wf] vin(1) by simp
  then have "i64 (r + VotingPower v) = r + VotingPower v"
    using Cons.prems(3,4) nn [of "addrs ds"] pa by (intro i64_idI) (auto simp: addrs_def)
  then show ?case
    using Cons.IH [of "r + VotingPower v"] Cons.prems v pos pa imageI [OF vin(1), of Address] vin(2)
    by (auto simp: addrs_def)
qed (simp add: addrs_def)

lemma power_sum_filter:
  "power_sum vs = power_sum (filter P vs) + power_sum (filter (\<lambda>v. \<not> P v) vs)"
  by (induction vs) auto

lemma power_sum_filter_le:
  assumes "powers_wf vs" shows "power_sum (filter P vs) \<le> power_sum vs"
proof -
  have "0 \<le> power_sum (filter (\<lambda>v. \<not> P v) vs)"
    using assms by (intro power_sum_nonneg) (auto simp: powers_wf_def less_imp_le)
  then show ?thesis using power_sum_filter [of vs P] by linarith
qed

lemma verifyRemovals_spec:
  assumes wf: "powers_wf (Validators vals)" and d: "distinct (addrs ds)" and ok: "verifyRemovals ds vals = Ok r"
  shows "r = power_sum (filter (\<lambda>v. Address v \<in> set (addrs ds)) (Validators vals))"
    "set (addrs ds) \<subseteq> set (addrs (Validators vals))"
proof -
  have s: "sum_list (map (power_at (Validators vals)) (addrs ds)) =
      power_sum (filter (\<lambda>v. Address v \<in> set (addrs ds)) (Validators vals))"
    using d by (rule power_at_sum)
  have "\<dots> \<le> MaxTotalVotingPower"
    using power_sum_filter_le [OF wf] powers_wf_total(2) [OF wf] by (rule order_trans)
  then have "r = 0 + sum_list (map (power_at (Validators vals)) (addrs ds)) \<and> set (addrs ds) \<subseteq> set (addrs (Validators vals))"
    using ok d s by (intro verifyRemovals_fold [OF wf]) (auto simp: verifyRemovals_def split: if_splits)
  then show "r = power_sum (filter (\<lambda>v. Address v \<in> set (addrs ds)) (Validators vals))"
    "set (addrs ds) \<subseteq> set (addrs (Validators vals))" using s by simp_all
qed

lemma verifyRemovals_no_panic:
  assumes "distinct (addrs ds)" shows "verifyRemovals ds vals \<noteq> Panic s"
proof -
  let ?f = "\<lambda>valUpdate removed. case GetByAddress vals (Address valUpdate) of
      (_, None) \<Rightarrow> Err (Errorf ''failed to find validator to remove'')
    | (_, Some val) \<Rightarrow> Ok (i64 (removed + VotingPower val))"
  have np: "fold_out ?f ds 0 \<noteq> Panic m" for m
    by (rule fold_out_no_panic) (auto split: prod.splits option.splits)
  have "set (addrs ds) \<subseteq> set (addrs (Validators vals))" if "fold_out ?f ds r = Ok r'" for r r'
    using that
  proof (induction ds arbitrary: r)
    case (Cons d ds)
    then obtain i v where "GetByAddress vals (Address d) = (i, Some v)"
        "fold_out ?f ds (i64 (r + VotingPower v)) = Ok r'"
      by (auto split: prod.splits option.splits)
    moreover from this(1) have "Address d \<in> Address ` set (Validators vals)"
      by (metis GetByAddress_SomeD imageI)
    ultimately show ?case using Cons.IH by (simp add: addrs_def)
  qed (simp add: addrs_def)
  then have "length ds \<le> length (Validators vals)" if "fold_out ?f ds 0 = Ok r'" for r'
    using that card_mono [of "set (addrs (Validators vals))" "set (addrs ds)"] distinct_card [OF assms]
      card_length [of "addrs (Validators vals)"] by (auto simp: addrs_def)
  then show ?thesis using np by (cases "fold_out ?f ds 0") (auto simp: verifyRemovals_def)
qed

text \<open>Adding the deltas never wraps, as the old powers that are subtracted were counted before.\<close>

lemma verifyUpdates_fold:
  assumes wf: "powers_wf (Validators vals)"
    and "fold_out (\<lambda>upd t. let t' = i64 (t + delta vals upd)
           in if t' > MaxTotalVotingPower then Err e else Ok t') us t = Ok t'"
    and "\<forall>u \<in> set us. power_in_range u" "t \<le> MaxTotalVotingPower"
    and "sum_list (map (power_at (Validators vals)) (addrs us)) \<le> t"
  shows "t' = t + power_sum us - sum_list (map (power_at (Validators vals)) (addrs us)) \<and> t' \<le> MaxTotalVotingPower"
  using assms(2-)
proof (induction us arbitrary: t)
  case (Cons u us)
  let ?old = "power_at (Validators vals)"
  have nn: "0 \<le> ?old a" "0 \<le> sum_list (map ?old as)" for a as
    using wf by (auto simp: power_at_def powers_wf_def less_imp_le intro!: sum_list_nonneg)
  have u: "0 \<le> VotingPower u" "VotingPower u \<le> MaxTotalVotingPower" using Cons.prems(2) by (auto simp: power_in_range_def)
  have d: "delta vals u = VotingPower u - ?old (Address u)" using delta_eq [OF wf u] .
  have low: "?old (Address u) + sum_list (map ?old (addrs us)) \<le> t" using Cons.prems(4) by (simp add: addrs_def)
  have "i64 (t + delta vals u) = t + delta vals u"
    using d u low nn(2) [of "addrs us"] nn(1) [of "Address u"] Cons.prems(3) by (intro i64_idI) linarith+
  then have step: "t + delta vals u \<le> MaxTotalVotingPower"
      "fold_out (\<lambda>upd t. let t' = i64 (t + delta vals upd)
           in if t' > MaxTotalVotingPower then Err e else Ok t') us (t + delta vals u) = Ok t'"
    using Cons.prems(1) by (auto simp: Let_def split: if_splits)
  have "sum_list (map ?old (addrs us)) \<le> t + delta vals u" using low d u by linarith
  then show ?case using Cons.IH [OF step(2) _ step(1)] Cons.prems(2) d by (simp add: addrs_def)
qed (simp add: addrs_def)

lemma verifyUpdates_no_panic:
  assumes "powers_wf (Validators vals)" "totalVotingPower vals = 0 \<or> totalVotingPower vals = power_sum (Validators vals)"
  shows "verifyUpdates us vals r \<noteq> Panic s"
proof -
  have "fold_out (\<lambda>upd t. let t' = i64 (t + delta vals upd)
      in if t' > MaxTotalVotingPower then Err e else Ok t') xs t \<noteq> Panic m" for e xs t m
    by (rule fold_out_no_panic) (simp add: Let_def)
  then show ?thesis
    using TotalVotingPower_wf [OF assms]
    by (auto simp: verifyUpdates_def)
qed

lemma verifyUpdates_spec:
  assumes wf: "powers_wf (Validators vals)" "totalVotingPower vals = 0 \<or> totalVotingPower vals = power_sum (Validators vals)"
    and us: "\<forall>u \<in> set us. power_in_range u"
    and rem: "0 \<le> removed" "removed + sum_list (map (power_at (Validators vals)) (addrs us)) \<le> power_sum (Validators vals)"
    and ok: "verifyUpdates us vals removed = Ok (tvp, vals')"
  shows "vals' = vals\<lparr>totalVotingPower := power_sum (Validators vals)\<rparr>"
    "tvp = power_sum (Validators vals) + power_sum us - sum_list (map (power_at (Validators vals)) (addrs us))"
    "tvp - removed \<le> MaxTotalVotingPower" "0 \<le> tvp"
proof -
  let ?vs = "Validators vals"
  have P: "0 \<le> power_sum ?vs" "power_sum ?vs \<le> MaxTotalVotingPower" using powers_wf_total [OF wf(1)] by auto
  have old: "0 \<le> sum_list (map (power_at ?vs) (addrs us))"
    using wf(1) by (auto simp: power_at_def powers_wf_def less_imp_le intro!: sum_list_nonneg)
  have pu: "0 \<le> power_sum us" using us by (intro power_sum_nonneg) (simp add: power_in_range_def)
  define us' where "us' = sort_key (delta vals) us"
  have m: "mset us' = mset us" "set us' = set us" by (simp_all add: us'_def)
  have ma: "sum_list (map (power_at ?vs) (addrs us')) = sum_list (map (power_at ?vs) (addrs us))"
    by (rule sum_list_mset_eq) (simp add: addrs_def m(1))
  have r64: "i64 (power_sum ?vs - removed) = power_sum ?vs - removed" using P rem old by (intro i64_idI) linarith+
  obtain t where t: "fold_out (\<lambda>upd t. let t' = i64 (t + delta vals upd)
        in if t' > MaxTotalVotingPower then Err (Errorf ''total voting power of resulting valset exceeds max'') else Ok t')
        us' (power_sum ?vs - removed) = Ok t" "tvp = i64 (t + removed)"
      and v': "vals' = vals\<lparr>totalVotingPower := power_sum ?vs\<rparr>"
    using ok TotalVotingPower_wf [OF wf] r64 by (auto simp: verifyUpdates_def us'_def)
  have t': "t = power_sum ?vs - removed + power_sum us' - sum_list (map (power_at ?vs) (addrs us')) \<and> t \<le> MaxTotalVotingPower"
    using P rem old us m(2) ma by (intro verifyUpdates_fold [OF wf(1) t(1)]) auto
  then have te: "t = power_sum ?vs - removed + power_sum us - sum_list (map (power_at ?vs) (addrs us))"
    using ma power_sum_mset [OF m(1)] by simp
  have "i64 (t + removed) = t + removed" using te t' P rem old pu by (intro i64_idI) linarith+
  then show "vals' = vals\<lparr>totalVotingPower := power_sum ?vs\<rparr>"
    "tvp = power_sum ?vs + power_sum us - sum_list (map (power_at ?vs) (addrs us))"
    "tvp - removed \<le> MaxTotalVotingPower" "0 \<le> tvp"
    using v' t(2) te t' rem old pu P by auto
qed

section \<open>Merging updates and removing\<close>

abbreviation addr_sorted :: "Validator list \<Rightarrow> bool" where
  "addr_sorted vs \<equiv> sorted_wrt (<) (addrs vs)"

lemma addr_sorted_Cons: "addr_sorted (v # vs) \<longleftrightarrow> (\<forall>w \<in> set vs. Address v < Address w) \<and> addr_sorted vs"
  by (auto simp: addrs_def)

lemma addr_sorted_sort: "distinct (addrs vs) \<Longrightarrow> addr_sorted (sort_key Address vs)"
proof -
  assume "distinct (addrs vs)"
  then have "distinct (addrs (sort_key Address vs))"
    using mset_eq_imp_distinct_iff [of "addrs (sort_key Address vs)" "addrs vs"] by (simp add: addrs_def)
  moreover have "sorted (addrs (sort_key Address vs))" by (simp add: addrs_def)
  ultimately show ?thesis by (simp add: strict_sorted_iff)
qed

lemma addr_sorted_filter: "addr_sorted vs \<Longrightarrow> addr_sorted (filter P vs)"
  by (induction vs) (auto simp: addrs_def)

lemma merge_updates_set: "set (merge_updates es us) \<subseteq> set es \<union> set us"
  by (induction es us rule: merge_updates.induct) auto

text \<open>An existing validator with no update, then all updates.\<close>

abbreviation kept :: "Validator list \<Rightarrow> Validator list \<Rightarrow> Validator list" where
  "kept changed es \<equiv> filter (\<lambda>e. Address e \<notin> set (addrs changed)) es"

lemma kept_head:
  assumes "\<forall>e \<in> set es. Address e \<noteq> Address u"
  shows "kept (u # us) es = kept us es"
  using assms by (intro filter_cong) (auto simp: addrs_def)

lemma merge_updates_mset:
  assumes "addr_sorted es" "addr_sorted us"
  shows "mset (merge_updates es us) = mset (kept us es) + mset us"
  using assms
proof (induction es us rule: merge_updates.induct)
  case (1 e es u us)
  note s = "1.prems" [unfolded addr_sorted_Cons]
  consider "Address e < Address u" | "Address e = Address u" | "Address u < Address e" by force
  then show ?case
  proof cases
    case 1
    then have "Address e \<notin> set (addrs (u # us))" using s(2) by (fastforce simp: addrs_def)
    then show ?thesis using 1 "1.IH"(1) "1.prems" s by simp
  next
    case 2
    then have "kept (u # us) es = kept us es" using s(1) by (intro kept_head) auto
    then show ?thesis using 2 "1.IH"(2) s by (simp add: addrs_def)
  next
    case 3
    then have "kept (u # us) (e # es) = kept us (e # es)" using s(1) by (intro kept_head) auto
    moreover have "merge_updates (e # es) (u # us) = u # merge_updates (e # es) us" using 3 by auto
    moreover have "mset (merge_updates (e # es) us) = mset (kept us (e # es)) + mset us"
      using 3 s by (intro "1.IH"(3) "1.prems"(1)) auto
    ultimately show ?thesis by (simp del: filter.simps)
  qed
qed (auto simp: addrs_def)

lemma merge_updates_sorted:
  assumes "addr_sorted es" "addr_sorted us"
  shows "addr_sorted (merge_updates es us)"
  using assms
proof (induction es us rule: merge_updates.induct)
  case (1 e es u us)
  note s = "1.prems" [unfolded addr_sorted_Cons]
  consider "Address e < Address u" | "Address e = Address u" | "Address u < Address e" by force
  then show ?case
  proof cases
    case 1
    then have "\<forall>w \<in> set (merge_updates es (u # us)). Address e < Address w"
      using merge_updates_set [of es "u # us"] s by fastforce
    then show ?thesis using 1 "1.IH"(1) "1.prems" s by (simp add: addr_sorted_Cons)
  next
    case 2
    then have "\<forall>w \<in> set (merge_updates es us). Address u < Address w"
      using merge_updates_set [of es us] s by fastforce
    then show ?thesis using 2 "1.IH"(2) s by (simp add: addr_sorted_Cons)
  next
    case 3
    then have "\<forall>w \<in> set (merge_updates (e # es) us). Address u < Address w"
      using merge_updates_set [of "e # es" us] s by fastforce
    moreover have "merge_updates (e # es) (u # us) = u # merge_updates (e # es) us" using 3 by auto
    moreover have "addr_sorted (merge_updates (e # es) us)"
      using 3 s by (intro "1.IH"(3) "1.prems"(1)) auto
    ultimately show ?thesis by (simp add: addr_sorted_Cons)
  qed
qed (auto simp: addrs_def)

lemma remove_loop_spec:
  assumes "addr_sorted es" "addr_sorted ds" "set (addrs ds) \<subseteq> set (addrs es)"
  shows "remove_loop es ds = Ok (kept ds es)"
  using assms
proof (induction es ds rule: remove_loop.induct)
  case (3 e es d ds)
  note s = "3.prems"(1,2) [unfolded addr_sorted_Cons]
  have below: "Address d \<notin> set (addrs ds)" using s(2) by (force simp: addrs_def)
  have sub: "a = Address e \<or> a \<in> set (addrs es)" if "a \<in> set (addrs (d # ds))" for a
    using "3.prems"(3) that by (auto simp: addrs_def)
  show ?case
  proof (cases "Address e = Address d")
    case True
    then have "kept (d # ds) es = kept ds es" using s(1) by (intro kept_head) auto
    moreover have "set (addrs ds) \<subseteq> set (addrs es)"
    proof
      fix a assume "a \<in> set (addrs ds)"
      moreover from this have "a \<noteq> Address e" using below True by auto
      ultimately show "a \<in> set (addrs es)" using sub [of a] by (auto simp: addrs_def)
    qed
    ultimately show ?thesis using True "3.IH"(1) s by (simp add: addrs_def)
  next
    case False
    then have "Address d \<in> set (addrs es)" using sub [of "Address d"] by (simp add: addrs_def)
    then have "Address e < Address d" using s(1) by (auto simp: addrs_def)
    then have ne: "Address e \<notin> set (addrs (d # ds))" using s(2) by (force simp: addrs_def)
    moreover have "set (addrs (d # ds)) \<subseteq> set (addrs es)"
    proof
      fix a assume "a \<in> set (addrs (d # ds))"
      then show "a \<in> set (addrs es)" using sub [of a] ne by auto
    qed
    then have "remove_loop es (d # ds) = Ok (kept (d # ds) es)"
      using False s "3.prems"(2) by (intro "3.IH"(2)) auto
    ultimately show ?thesis using False by simp
  qed
qed (auto simp: addrs_def)

end
