(* ===== verification/ProposerRotation.thy ===== *)
theory ProposerRotation
  imports ValidatorSetProps
begin

text \<open>
  Choosing proposers: the priorities are rescaled into a window of twice the total power and centered,
  and then every step is a step of a weighted round robin. The clipped arithmetic of the code never
  clips, no validator falls out of the window at the bottom, and so none is elected much more often
  than its share of the power.
\<close>

section \<open>The validator with the most priority\<close>

text \<open>A higher priority wins, and of equal priorities the lower address.\<close>

definition beats :: "Validator \<Rightarrow> Validator \<Rightarrow> bool" where
  "beats v w \<longleftrightarrow> ProposerPriority w < ProposerPriority v \<or>
     ProposerPriority w = ProposerPriority v \<and> Address v < Address w"

definition leads :: "nat \<Rightarrow> Validator list \<Rightarrow> bool" where
  "leads i vs \<longleftrightarrow> i < length vs \<and> (\<forall>j < length vs. j \<noteq> i \<longrightarrow> beats (vs ! i) (vs ! j))"

lemma beats_trans: "beats u v \<Longrightarrow> beats v w \<Longrightarrow> beats u w"
  by (auto simp: beats_def)

lemma beats_total: "Address v \<noteq> Address w \<Longrightarrow> beats v w \<or> beats w v"
  by (auto simp: beats_def)

lemma compare_cases:
  assumes "Address v \<noteq> Address w"
  shows "CompareProposerPriority (Some (i, v)) (j, w) = Ok (if beats v w then (i, v) else (j, w))"
  using assms by (auto simp: CompareProposerPriority_def beats_def)

lemma leads_snoc:
  assumes "leads i vs" "Address (vs ! i) \<noteq> Address v"
  shows "if beats (vs ! i) v then leads i (vs @ [v]) else leads (length vs) (vs @ [v])"
proof (cases "beats (vs ! i) v")
  case True
  then show ?thesis using assms(1) by (auto simp: leads_def nth_append less_Suc_eq)
next
  case False
  then have "beats v (vs ! i)" using beats_total [OF assms(2)] by simp
  then have "beats v (vs ! j)" if "j < length vs" for j
    using assms(1) that beats_trans [of v "vs ! i" "vs ! j"] by (cases "j = i") (auto simp: leads_def)
  then show ?thesis using False by (auto simp: leads_def nth_append less_Suc_eq)
qed

lemma addr_nth [simp]: "i < length vs \<Longrightarrow> Address (vs ! i) \<in> set (addrs vs)"
  by (simp add: addrs_def)

lemma bind_fold_out_Nil: "bind_out m (fold_out f []) = m"
  by (cases m) auto

lemma enumerate_snoc: "enumerate n (vs @ [v]) = enumerate n vs @ [(n + length vs, v)]"
  by (simp add: enumerate_append_eq)

lemma getValWithMostPriority_leads:
  assumes "distinct (addrs vs)"
  shows "(vs = [] \<and> getValWithMostPriority vs = Ok None) \<or>
    (\<exists>i. getValWithMostPriority vs = Ok (Some (i, vs ! i)) \<and> leads i vs)"
  using assms
proof (induction vs rule: rev_induct)
  case Nil
  then show ?case by (simp add: getValWithMostPriority_def)
next
  case (snoc v vs)
  have d: "distinct (addrs vs)" "Address v \<notin> set (addrs vs)" using snoc.prems by (auto simp: addrs_def)
  from snoc.IH [OF d(1)] show ?case
  proof (elim disjE conjE exE)
    assume "vs = []"
    then show ?thesis by (simp add: getValWithMostPriority_def CompareProposerPriority_def leads_def)
  next
    fix i assume g: "getValWithMostPriority vs = Ok (Some (i, vs ! i))" and l: "leads i vs"
    have i: "i < length vs" using l by (simp add: leads_def)
    have ne: "Address (vs ! i) \<noteq> Address v" using d(2) addr_nth [OF i] by metis
    have "getValWithMostPriority (vs @ [v]) = Ok (Some (if beats (vs ! i) v then (i, vs ! i) else (length vs, v)))"
      using g ne by (simp add: getValWithMostPriority_def enumerate_snoc compare_cases)
    then show ?thesis using leads_snoc [OF l ne] i by (cases "beats (vs ! i) v") (auto simp: nth_append)
  qed
qed

lemma findProposer_eq:
  assumes "distinct (addrs vs)"
  shows "findProposer vs = getValWithMostPriority vs"
  using assms
proof (induction vs rule: rev_induct)
  case (snoc v vs)
  have d: "distinct (addrs vs)" "Address v \<notin> set (addrs vs)" using snoc.prems by (auto simp: addrs_def)
  have IH: "findProposer vs = getValWithMostPriority vs" by (rule snoc.IH [OF d(1)])
  from getValWithMostPriority_leads [OF d(1)] show ?case
  proof (elim disjE conjE exE)
    assume "vs = []"
    then show ?thesis by (simp add: findProposer_def getValWithMostPriority_def bind_fold_out_Nil)
  next
    fix i assume g: "getValWithMostPriority vs = Ok (Some (i, vs ! i))" and l: "leads i vs"
    have "i < length vs" using l by (simp add: leads_def)
    then have "Address (vs ! i) \<noteq> Address v" using d(2) addr_nth by metis
    then show ?thesis using g IH by (simp add: findProposer_def getValWithMostPriority_def enumerate_snoc bind_fold_out_Nil)
  qed
qed (simp add: findProposer_def getValWithMostPriority_def)

section \<open>Rescaling and centering\<close>

abbreviation prio_sum :: "Validator list \<Rightarrow> int" where
  "prio_sum vs \<equiv> sum_list (map ProposerPriority vs)"

text \<open>Only the priorities differ.\<close>

definition same_but_prio :: "Validator list \<Rightarrow> Validator list \<Rightarrow> bool" where
  "same_but_prio vs ws \<longleftrightarrow> map (\<lambda>v. v\<lparr>ProposerPriority := 0\<rparr>) vs = map (\<lambda>v. v\<lparr>ProposerPriority := 0\<rparr>) ws"

definition spread_le :: "int \<Rightarrow> Validator list \<Rightarrow> bool" where
  "spread_le d vs \<longleftrightarrow> (\<forall>v \<in> set vs. \<forall>w \<in> set vs. ProposerPriority v \<le> ProposerPriority w + d)"

text \<open>The order of the priorities is kept, though different ones may become equal.\<close>

definition order_kept :: "Validator list \<Rightarrow> Validator list \<Rightarrow> bool" where
  "order_kept vs ws \<longleftrightarrow> length ws = length vs \<and> (\<forall>i < length vs. \<forall>j < length vs.
     ProposerPriority (vs ! i) \<le> ProposerPriority (vs ! j) \<longrightarrow> ProposerPriority (ws ! i) \<le> ProposerPriority (ws ! j))"

lemma order_kept_refl [simp]: "order_kept vs vs"
  by (simp add: order_kept_def)

lemma order_kept_trans: "order_kept us vs \<Longrightarrow> order_kept vs ws \<Longrightarrow> order_kept us ws"
  by (simp add: order_kept_def)

lemma order_kept_map:
  assumes "\<And>v w. v \<in> set vs \<Longrightarrow> w \<in> set vs \<Longrightarrow> ProposerPriority v \<le> ProposerPriority w \<Longrightarrow> f v \<le> f w"
  shows "order_kept vs (map (\<lambda>v. v\<lparr>ProposerPriority := f v\<rparr>) vs)"
  using assms by (simp add: order_kept_def)

lemma same_but_prio_map: "same_but_prio (map (\<lambda>v. v\<lparr>ProposerPriority := f v\<rparr>) vs) vs"
  by (simp add: same_but_prio_def)

lemma same_but_prio_refl [simp]: "same_but_prio vs vs"
  by (simp add: same_but_prio_def)

lemma same_but_prio_trans: "same_but_prio us vs \<Longrightarrow> same_but_prio vs ws \<Longrightarrow> same_but_prio us ws"
  by (simp add: same_but_prio_def)

lemma same_but_prioD:
  assumes "same_but_prio vs ws"
  shows "addrs vs = addrs ws" "map VotingPower vs = map VotingPower ws" "map PubKey vs = map PubKey ws" "length vs = length ws"
proof -
  note eq = assms [unfolded same_but_prio_def]
  show "addrs vs = addrs ws" using arg_cong [OF eq, of "map Address"] by (simp add: addrs_def comp_def)
  show "map VotingPower vs = map VotingPower ws" using arg_cong [OF eq, of "map VotingPower"] by (simp add: comp_def)
  show "map PubKey vs = map PubKey ws" using arg_cong [OF eq, of "map PubKey"] by (simp add: comp_def)
  show "length vs = length ws" using arg_cong [OF eq, of length] by simp
qed

lemma all_map_conv: "(\<forall>v \<in> set vs. P (f v)) \<longleftrightarrow> (\<forall>x \<in> set (map f vs). P x)"
  by simp

lemma same_but_prio_wf:
  assumes "same_but_prio vs ws"
  shows "powers_wf vs = powers_wf ws" "keys_ok vs = keys_ok ws" "power_sum vs = power_sum ws" "vs = [] \<longleftrightarrow> ws = []"
proof -
  note d = same_but_prioD [OF assms]
  show p: "power_sum vs = power_sum ws" using d(2) by (simp add: power_sum_def)
  have "(\<forall>v \<in> set vs. 0 < VotingPower v) = (\<forall>v \<in> set ws. 0 < VotingPower v)"
    unfolding all_map_conv [of vs "\<lambda>x. 0 < x"] all_map_conv [of ws "\<lambda>x. 0 < x"] d(2) ..
  then show "powers_wf vs = powers_wf ws" using d(1) p by (simp add: powers_wf_def)
  show "keys_ok vs = keys_ok ws"
    unfolding keys_ok_def all_map_conv [of vs "\<lambda>x. x \<noteq> None"] all_map_conv [of ws "\<lambda>x. x \<noteq> None"] d(3) ..
  show "vs = [] \<longleftrightarrow> ws = []" using d(4) by auto
qed

lemma min_max_fold:
  assumes "fold (\<lambda>p (mn, mx). (if p < mn then p else mn, if p > mx then p else mx)) (ps :: int list) (a, b) = (mn, mx)"
  shows "mn \<le> a \<and> b \<le> mx \<and> (\<forall>p \<in> set ps. mn \<le> p \<and> p \<le> mx) \<and> (mn = a \<or> mn \<in> set ps) \<and> (mx = b \<or> mx \<in> set ps)"
  using assms
proof (induction ps arbitrary: a b)
  case (Cons p ps)
  show ?case
    using Cons.IH [of "if p < a then p else a" "if p > b then p else b"] Cons.prems by (auto split: if_splits)
qed simp

lemma min_max_spec:
  assumes "min_max ps = (mn, mx)" "ps \<noteq> []" "\<forall>p \<in> set ps. MinInt64 < p \<and> p < MaxInt64"
  shows "mn \<in> set ps" "mx \<in> set ps" "\<forall>p \<in> set ps. mn \<le> p \<and> p \<le> mx"
proof -
  note * = min_max_fold [OF assms(1) [unfolded min_max_def]]
  obtain p where p: "p \<in> set ps" using assms(2) by (cases ps) auto
  show "\<forall>p \<in> set ps. mn \<le> p \<and> p \<le> mx" using * by blast
  have "mn \<le> p" "p \<le> mx" "MinInt64 < p" "p < MaxInt64" using p * assms(3) by auto
  then show "mn \<in> set ps" "mx \<in> set ps" using * by auto
qed

lemma sdiv_shift_le:
  assumes "0 < r" "0 \<le> d" "a \<le> b + d * r"
  shows "a sdiv r \<le> (b::int) sdiv r + d"
proof -
  have neg: "x sdiv r = - ((- x) div r)" if "x < 0" for x
    using that assms(1) by (simp add: signed_divide_int_def)
  have "(b + d * r) sdiv r \<le> b sdiv r + d"
  proof (cases "0 \<le> b")
    case True
    then show ?thesis using assms by simp
  next
    case False
    show ?thesis
    proof (cases "b + d * r < 0")
      case True
      have "(- b - d * r) div r = (- b) div r - d"
        using assms(1) div_mult_self1 [of r "- b" "- d"] by (simp add: algebra_simps)
      then show ?thesis using True False by (simp add: neg algebra_simps)
    next
      case nonneg: False
      have "(b + d * r) sdiv r = b div r + d" using nonneg assms(1) by simp
      moreover have "b div r \<le> - ((- b) div r)"
      proof -
        have "(- b) div r * r \<le> - b" using le_div_iff_int [of r "(- b) div r" "- b"] assms(1) by simp
        then have "b div r \<le> (- ((- b) div r) * r) div r" using assms(1) by (intro zdiv_mono1) auto
        also have "\<dots> = - ((- b) div r)" using assms(1) by (intro nonzero_mult_div_cancel_right) simp
        finally show ?thesis .
      qed
      ultimately show ?thesis using False by (simp add: neg)
    qed
  qed
  then show ?thesis using sdiv_mono [OF assms(3,1)] by linarith
qed

lemma computeMaxMinPriorityDiff_spec:
  assumes "vs \<noteq> []" "prios_within (3 * MaxTotalVotingPower) vs"
  obtains d where "computeMaxMinPriorityDiff vs = Ok d" "spread_le d vs" "0 \<le> d" "d \<le> 6 * MaxTotalVotingPower"
proof -
  obtain mn mx where mm: "min_max (map ProposerPriority vs) = (mn, mx)" by fastforce
  have b: "\<bar>ProposerPriority v\<bar> \<le> 3 * MaxTotalVotingPower" if "v \<in> set vs" for v
    using assms(2) that by (simp add: prios_within_def)
  then have "\<forall>p \<in> set (map ProposerPriority vs). MinInt64 < p \<and> p < MaxInt64" by fastforce
  note s = min_max_spec [OF mm _ this]
  have in_s: "mn \<in> set (map ProposerPriority vs)" "mx \<in> set (map ProposerPriority vs)"
    and all: "\<forall>p \<in> set (map ProposerPriority vs). mn \<le> p \<and> p \<le> mx" using s assms(1) by auto
  then have r: "\<bar>mn\<bar> \<le> 3 * MaxTotalVotingPower" "\<bar>mx\<bar> \<le> 3 * MaxTotalVotingPower" "mn \<le> mx" using b by auto
  then have "i64 (mx - mn) = mx - mn" by (intro i64_idI) auto
  then have "computeMaxMinPriorityDiff vs = Ok (mx - mn)"
    using assms(1) mm r(3) by (simp add: computeMaxMinPriorityDiff_def Let_def)
  moreover have "ProposerPriority v \<le> mx \<and> mn \<le> ProposerPriority w" if "v \<in> set vs" "w \<in> set vs" for v w
    using all that by simp
  then have "spread_le (mx - mn) vs" unfolding spread_le_def by force
  ultimately show ?thesis using that r by auto
qed

lemma ceil_ratio:
  assumes "0 < (m::int)" "0 \<le> d"
  shows "d \<le> m * ((d + m - 1) div m)"
proof -
  have "d + m - 1 = m * ((d + m - 1) div m) + (d + m - 1) mod m" by (rule mult_div_mod_eq [symmetric])
  moreover have "(d + m - 1) mod m < m" using assms(1) by simp
  ultimately show ?thesis by linarith
qed

lemma RescalePriorities_spec:
  assumes "Validators vals \<noteq> []" "prios_within (3 * MaxTotalVotingPower) (Validators vals)"
    "0 < m" "m \<le> 2 * MaxTotalVotingPower"
  obtains ws where "RescalePriorities vals m = Ok (vals\<lparr>Validators := ws\<rparr>)" "same_but_prio ws (Validators vals)"
    "prios_within (3 * MaxTotalVotingPower) ws" "spread_le m ws" "order_kept (Validators vals) ws"
proof -
  let ?vs = "Validators vals"
  obtain d where d: "computeMaxMinPriorityDiff ?vs = Ok d" "spread_le d ?vs" "0 \<le> d" "d \<le> 6 * MaxTotalVotingPower"
    using computeMaxMinPriorityDiff_spec [OF assms(1,2)] .
  show ?thesis
  proof (cases "d \<le> m")
    case True
    then have "RescalePriorities vals m = Ok vals" using d(1) assms(1,3) by (simp add: RescalePriorities_def Let_def)
    moreover have "spread_le m ?vs" using d(2) True by (force simp: spread_le_def)
    ultimately show ?thesis using that [of ?vs] assms(2) by simp
  next
    case False
    define r where "r = (d + m - 1) div m"
    have "i64 (i64 (d + m) - 1) = d + m - 1" using d(3,4) assms(3,4) by (subst i64_idI [of "d + m"]) (auto intro!: i64_idI)
    then have ratio: "i64 (i64 (d + m) - 1) sdiv m = r" using d(3) assms(3) by (simp add: r_def)
    have r: "d \<le> m * r" using ceil_ratio [OF assms(3) d(3)] by (simp add: r_def)
    have rp: "0 < r" using r False assms(3) d(3) by (smt (verit) mult_nonneg_nonpos)
    define ws where "ws = map (\<lambda>val. val\<lparr>ProposerPriority := i64 (ProposerPriority val sdiv r)\<rparr>) ?vs"
    have b: "\<bar>ProposerPriority v sdiv r\<bar> \<le> 3 * MaxTotalVotingPower" if "v \<in> set ?vs" for v
      using assms(2) that sdiv_abs_le [of "ProposerPriority v" r] by (force simp: prios_within_def)
    then have i: "i64 (ProposerPriority v sdiv r) = ProposerPriority v sdiv r" if "v \<in> set ?vs" for v
      using that by (intro i64_idI) fastforce+
    have "RescalePriorities vals m = Ok (vals\<lparr>Validators := ws\<rparr>)"
      using False d(1) assms(1,3) rp ratio by (simp add: RescalePriorities_def Let_def ws_def)
    moreover have "same_but_prio ws ?vs" unfolding ws_def by (rule same_but_prio_map)
    moreover have "prios_within (3 * MaxTotalVotingPower) ws" using b i by (auto simp: prios_within_def ws_def)
    moreover have "spread_le m ws"
    proof -
      have "ProposerPriority v sdiv r \<le> ProposerPriority w sdiv r + m" if "v \<in> set ?vs" "w \<in> set ?vs" for v w
        using d(2) that r rp assms(3) by (intro sdiv_shift_le) (fastforce simp: spread_le_def)+
      then show ?thesis using i by (auto simp: spread_le_def ws_def)
    qed
    moreover have "order_kept ?vs ws"
      unfolding ws_def using rp by (intro order_kept_map) (simp add: i sdiv_mono)
    ultimately show ?thesis by (rule that)
  qed
qed

lemma sum_list_bounds:
  assumes "\<forall>x \<in> set xs. lo \<le> x \<and> x \<le> (hi::int)"
  shows "lo * int (length xs) \<le> sum_list xs \<and> sum_list xs \<le> hi * int (length xs)"
  using assms by (induction xs) (auto simp: algebra_simps)

text \<open>A centered list: the priorities sum to the remainder of the average.\<close>

definition centered :: "Validator list \<Rightarrow> bool" where
  "centered vs \<longleftrightarrow> 0 \<le> prio_sum vs \<and> prio_sum vs < int (length vs)"

lemma avg_between:
  assumes "vs \<noteq> []" "\<forall>v \<in> set vs. lo \<le> ProposerPriority v \<and> ProposerPriority v \<le> hi"
  shows "lo \<le> prio_sum vs div int (length vs)" "prio_sum vs div int (length vs) \<le> hi"
proof -
  have n: "0 < int (length vs)" using assms(1) by simp
  have b: "lo * int (length vs) \<le> prio_sum vs" "prio_sum vs \<le> hi * int (length vs)"
    using sum_list_bounds [of "map ProposerPriority vs" lo hi] assms(2) by auto
  show "lo \<le> prio_sum vs div int (length vs)" using b(1) n by (simp add: le_div_iff_int)
  have "prio_sum vs div int (length vs) \<le> (hi * int (length vs)) div int (length vs)" using b(2) n by (intro zdiv_mono1)
  then show "prio_sum vs div int (length vs) \<le> hi" using n by simp
qed

lemma shiftByAvgProposerPriority_spec:
  assumes "Validators vals \<noteq> []" "prios_within (3 * MaxTotalVotingPower) (Validators vals)"
    "spread_le m (Validators vals)" "m \<le> 2 * MaxTotalVotingPower"
  obtains ws where "shiftByAvgProposerPriority vals = Ok (vals\<lparr>Validators := ws\<rparr>)" "same_but_prio ws (Validators vals)"
    "prios_within m ws" "centered ws" "order_kept (Validators vals) ws"
proof -
  let ?vs = "Validators vals"
  define avg where "avg = prio_sum ?vs div int (length ?vs)"
  have b: "- (3 * MaxTotalVotingPower) \<le> ProposerPriority v" "ProposerPriority v \<le> 3 * MaxTotalVotingPower" if "v \<in> set ?vs" for v
    using assms(2) that by (force simp: prios_within_def)+
  have "is_i64 avg"
    using avg_between [OF assms(1), of "- (3 * MaxTotalVotingPower)" "3 * MaxTotalVotingPower"] b by (auto simp: avg_def is_i64_def)
  moreover have near: "\<bar>ProposerPriority v - avg\<bar> \<le> m" if "v \<in> set ?vs" for v
    using avg_between [OF assms(1), of "ProposerPriority v - m" "ProposerPriority v + m"] assms(3) that
    by (fastforce simp: spread_le_def avg_def)
  then have clip: "safeSubClip (ProposerPriority v) avg = ProposerPriority v - avg" if "v \<in> set ?vs" for v
  proof -
    have "is_i64 (ProposerPriority v - avg)" "is_i64 (ProposerPriority v)"
      using near [OF that] b [OF that] assms(4) by (auto simp: is_i64_def)
    then show ?thesis using \<open>is_i64 avg\<close> by (simp add: safeSubClip_eq)
  qed
  define ws where "ws = map (\<lambda>v. v\<lparr>ProposerPriority := safeSubClip (ProposerPriority v) avg\<rparr>) ?vs"
  ultimately have "shiftByAvgProposerPriority vals = Ok (vals\<lparr>Validators := ws\<rparr>)"
    using assms(1) by (simp add: shiftByAvgProposerPriority_def computeAvgProposerPriority_def avg_def ws_def)
  moreover have "same_but_prio ws ?vs" unfolding ws_def by (rule same_but_prio_map)
  moreover have "prios_within m ws" using near clip by (auto simp: prios_within_def ws_def)
  moreover have "centered ws"
  proof -
    have "prio_sum ws = sum_list (map (\<lambda>v. ProposerPriority v - avg) ?vs)"
      unfolding ws_def by (intro arg_cong [where f = sum_list]) (simp add: clip)
    also have "\<dots> = prio_sum ?vs - avg * int (length ?vs)"
      by (simp add: sum_list_subtractf sum_list_triv)
    also have "\<dots> = prio_sum ?vs mod int (length ?vs)" by (simp add: avg_def minus_div_mult_eq_mod)
    finally show ?thesis using assms(1) by (simp add: centered_def ws_def)
  qed
  moreover have "order_kept ?vs ws" unfolding ws_def by (intro order_kept_map) (simp add: clip)
  ultimately show ?thesis by (rule that)
qed

section \<open>Weighted round robin\<close>

text \<open>
  The specification of a step: every validator gains its power, and the leader, who is elected,
  pays the total. There is no clipping.
\<close>

definition accrue :: "Validator list \<Rightarrow> Validator list" where
  "accrue vs = map (\<lambda>v. v\<lparr>ProposerPriority := ProposerPriority v + VotingPower v\<rparr>) vs"

definition elect :: "nat \<Rightarrow> Validator list \<Rightarrow> Validator list" where
  "elect i vs = (let ws = accrue vs in
     ws[i := (ws ! i)\<lparr>ProposerPriority := ProposerPriority (ws ! i) - power_sum vs\<rparr>])"

inductive round_robin :: "Validator list \<Rightarrow> nat list \<Rightarrow> Validator list \<Rightarrow> bool" where
  rr_nil: "round_robin vs [] vs"
| rr_step: "leads i (accrue vs) \<Longrightarrow> round_robin (elect i vs) ps ws \<Longrightarrow> round_robin vs (i # ps) ws"

inductive_cases round_robin_ConsE: "round_robin vs (i # ps) ws"

definition in_window :: "int \<Rightarrow> int \<Rightarrow> Validator list \<Rightarrow> bool" where
  "in_window lo hi vs \<longleftrightarrow> (\<forall>v \<in> set vs. lo \<le> ProposerPriority v \<and> ProposerPriority v \<le> hi)"

lemma accrue_same [simp]: "same_but_prio (accrue vs) vs"
  unfolding accrue_def by (rule same_but_prio_map)

lemma length_accrue [simp]: "length (accrue vs) = length vs"
  by (simp add: accrue_def)

lemma accrue_sum: "prio_sum (accrue vs) = prio_sum vs + power_sum vs"
  by (simp add: accrue_def power_sum_def comp_def sum_list_addf)

lemma same_but_prio_update:
  "i < length vs \<Longrightarrow> same_but_prio (vs[i := (vs ! i)\<lparr>ProposerPriority := p\<rparr>]) vs"
  by (simp add: same_but_prio_def map_update list_update_same_conv)

lemma elect_same: "i < length vs \<Longrightarrow> same_but_prio (elect i vs) vs"
  unfolding elect_def Let_def
  by (rule same_but_prio_trans [OF same_but_prio_update accrue_same]) simp

lemma elect_sum: "i < length vs \<Longrightarrow> prio_sum (elect i vs) = prio_sum vs"
  by (simp add: elect_def Let_def map_update sum_list_update_int accrue_sum)

lemma leads_max: "leads i vs \<Longrightarrow> v \<in> set vs \<Longrightarrow> ProposerPriority v \<le> ProposerPriority (vs ! i)"
proof -
  assume l: "leads i vs" and "v \<in> set vs"
  then obtain j where j: "j < length vs" "v = vs ! j" by (auto simp: in_set_conv_nth)
  with l show ?thesis by (cases "j = i") (auto simp: leads_def beats_def)
qed

text \<open>The leader has a positive priority after accruing, so what it pays keeps it above the window.\<close>

lemma leader_positive:
  assumes "leads i (accrue vs)" "0 \<le> prio_sum vs" "powers_wf vs"
  shows "0 < ProposerPriority (accrue vs ! i)"
proof -
  have "vs \<noteq> []" using assms(1) by (auto simp: leads_def)
  then have pos: "0 < prio_sum (accrue vs)" using powers_wf_total(3) [OF assms(3)] assms(2) by (simp add: accrue_sum)
  show ?thesis
  proof (rule ccontr)
    assume "\<not> 0 < ProposerPriority (accrue vs ! i)"
    then have "\<forall>v \<in> set (accrue vs). ProposerPriority v \<le> 0" using leads_max [OF assms(1)] by force
    then have "prio_sum (accrue vs) \<le> 0" by (intro sum_list_nonpos) auto
    with pos show False by simp
  qed
qed

lemma elect_window:
  assumes "leads i (accrue vs)" "0 \<le> prio_sum vs" "powers_wf vs" "in_window (- 2 * power_sum vs) hi vs"
  shows "in_window (- 2 * power_sum vs) (hi + power_sum vs) (elect i vs)"
proof -
  have i: "i < length vs" using assms(1) by (simp add: leads_def)
  have acc: "- 2 * power_sum vs \<le> ProposerPriority w" "ProposerPriority w \<le> hi + power_sum vs" if w: "w \<in> set (accrue vs)" for w
  proof -
    obtain v where v: "v \<in> set vs" "ProposerPriority w = ProposerPriority v + VotingPower v"
      using w by (auto simp: accrue_def)
    then show "- 2 * power_sum vs \<le> ProposerPriority w" "ProposerPriority w \<le> hi + power_sum vs"
      using assms(4) powers_wf_total(4) [OF assms(3) v(1)] by (force simp: in_window_def)+
  qed
  have "accrue vs ! i \<in> set (accrue vs)" using i by simp
  note lead = acc [OF this] leader_positive [OF assms(1-3)]
  show ?thesis
    unfolding in_window_def
  proof
    fix w assume "w \<in> set (elect i vs)"
    then have "w \<in> set (accrue vs) \<or> w = (accrue vs ! i)\<lparr>ProposerPriority := ProposerPriority (accrue vs ! i) - power_sum vs\<rparr>"
      using set_update_subset_insert by (fastforce simp: elect_def Let_def)
    then show "- 2 * power_sum vs \<le> ProposerPriority w \<and> ProposerPriority w \<le> hi + power_sum vs"
      using acc lead powers_wf_total(1) [OF assms(3)] by auto
  qed
qed

lemma incrementProposerPriority_spec:
  assumes wf: "powers_wf vs" "vs \<noteq> []" and sum: "0 \<le> prio_sum vs" and
    win: "in_window (- 2 * power_sum vs) hi vs" "hi + power_sum vs \<le> MaxInt64" and
    vals: "Validators vals = vs" "totalVotingPower vals = 0 \<or> totalVotingPower vals = power_sum vs"
  obtains i where "leads i (accrue vs)" "incrementProposerPriority vals =
    Ok (elect i vs ! i, vals\<lparr>totalVotingPower := power_sum vs, Validators := elect i vs\<rparr>)"
proof -
  let ?P = "power_sum vs"
  have P: "0 < ?P" "?P \<le> MaxTotalVotingPower" using powers_wf_total [OF wf(1)] wf(2) by auto
  have "safeAddClip (ProposerPriority v) (VotingPower v) = ProposerPriority v + VotingPower v" if "v \<in> set vs" for v
  proof -
    have "- 2 * ?P \<le> ProposerPriority v" "ProposerPriority v \<le> hi" "0 < VotingPower v" "VotingPower v \<le> ?P"
      using win(1) that powers_wf_total(4) [OF wf(1) that] by (auto simp: in_window_def)
    then show ?thesis using P win(2) by (subst safeAddClip_eq) (auto simp: is_i64_def clip_def)
  qed
  then have acc: "map (\<lambda>v. v\<lparr>ProposerPriority := safeAddClip (ProposerPriority v) (VotingPower v)\<rparr>) vs = accrue vs"
    by (simp add: accrue_def)
  have same: "powers_wf (accrue vs)" "power_sum (accrue vs) = ?P" using wf(1) same_but_prio_wf [OF accrue_same] by auto
  have "distinct (addrs (accrue vs))" using same(1) by (simp add: powers_wf_def)
  then obtain i where i: "getValWithMostPriority (accrue vs) = Ok (Some (i, accrue vs ! i))" "leads i (accrue vs)"
    using getValWithMostPriority_leads wf(2) length_accrue by (metis list.size(3) length_0_conv)
  have il: "i < length vs" using i(2) by (simp add: leads_def)
  have "accrue vs ! i \<in> set (accrue vs)" using il by simp
  then obtain v where v: "v \<in> set vs" "ProposerPriority (accrue vs ! i) = ProposerPriority v + VotingPower v"
    by (auto simp: accrue_def)
  have "ProposerPriority (accrue vs ! i) \<le> hi + ?P" "0 < ProposerPriority (accrue vs ! i)"
    using v win(1) powers_wf_total(4) [OF wf(1) v(1)] leader_positive [OF i(2) sum wf(1)] by (auto simp: in_window_def)
  then have sub: "safeSubClip (ProposerPriority (accrue vs ! i)) ?P = ProposerPriority (accrue vs ! i) - ?P"
    using P win(2) by (subst safeSubClip_eq) (auto simp: is_i64_def clip_def)
  have "TotalVotingPower (vals\<lparr>Validators := accrue vs\<rparr>) =
      Ok (?P, vals\<lparr>Validators := accrue vs, totalVotingPower := ?P\<rparr>)"
    using TotalVotingPower_wf [of "vals\<lparr>Validators := accrue vs\<rparr>"] same vals(2) by simp
  then have "incrementProposerPriority vals =
    Ok (elect i vs ! i, vals\<lparr>totalVotingPower := power_sum vs, Validators := elect i vs\<rparr>)"
    using i(1) il by (simp add: incrementProposerPriority_def Let_def vals(1) acc elect_def sub)
  with i(2) show ?thesis by (rule that)
qed

text \<open>
  The whole loop is a run of the round robin. Over the run the window grows by at most the total per
  step at the top and not at all at the bottom.
\<close>

lemma increment_loop_spec:
  assumes "powers_wf vs" "vs \<noteq> []" "0 \<le> prio_sum vs" "in_window (- 2 * power_sum vs) hi vs"
    "hi + int n * power_sum vs \<le> MaxInt64" "Validators vals = vs" "totalVotingPower vals = power_sum vs"
  shows "\<exists>ps ws. round_robin vs ps ws \<and> length ps = n \<and>
    increment_loop n vals p = Ok (if n = 0 then p else Some (ws ! last ps), vals\<lparr>Validators := ws\<rparr>) \<and>
    same_but_prio ws vs \<and> prio_sum ws = prio_sum vs \<and> in_window (- 2 * power_sum vs) (hi + int n * power_sum vs) ws"
  using assms
proof (induction n arbitrary: vs hi vals p)
  case 0
  then show ?case by (auto intro!: exI [of _ "[]"] exI [of _ vs] rr_nil)
next
  case (Suc n)
  let ?P = "power_sum vs"
  have P: "0 \<le> int n * ?P" using powers_wf_total(1) [OF Suc.prems(1)] by simp
  obtain i where i: "leads i (accrue vs)" "incrementProposerPriority vals =
      Ok (elect i vs ! i, vals\<lparr>totalVotingPower := ?P, Validators := elect i vs\<rparr>)"
    using Suc.prems P by (elim incrementProposerPriority_spec [of vs hi vals]) (auto simp: algebra_simps)
  let ?vs = "elect i vs"
  let ?vals = "vals\<lparr>totalVotingPower := ?P, Validators := ?vs\<rparr>"
  have il: "i < length vs" using i(1) by (simp add: leads_def)
  note same = elect_same [OF il]
  note wf = same_but_prio_wf [OF same]
  have "in_window (- 2 * ?P) (hi + ?P) ?vs" using elect_window [OF i(1)] Suc.prems by simp
  then obtain ps ws where ps: "round_robin ?vs ps ws" "length ps = n"
      "increment_loop n ?vals (Some (?vs ! i)) = Ok (if n = 0 then Some (?vs ! i) else Some (ws ! last ps), ?vals\<lparr>Validators := ws\<rparr>)"
      "same_but_prio ws ?vs" "prio_sum ws = prio_sum ?vs" "in_window (- 2 * ?P) (hi + ?P + int n * ?P) ws"
    using Suc.IH [of ?vs "hi + ?P" ?vals "Some (?vs ! i)"] Suc.prems wf elect_sum [OF il]
    by (auto simp: algebra_simps)
  have "round_robin vs (i # ps) ws" using i(1) ps(1) by (rule rr_step)
  moreover have "increment_loop (Suc n) vals p = Ok (Some (ws ! last (i # ps)), vals\<lparr>Validators := ws\<rparr>)"
    using i(2) ps(1-3) Suc.prems(7) by (cases ps) (auto elim: round_robin.cases)
  moreover have "same_but_prio ws vs" using ps(4) same by (rule same_but_prio_trans)
  moreover have "in_window (- 2 * ?P) (hi + int (Suc n) * ?P) ws" using ps(6) by (simp add: algebra_simps)
  ultimately show ?case
    using ps(2,5) elect_sum [OF il] by (intro exI [of _ "i # ps"] exI [of _ ws]) auto
qed

text \<open>In a run, a priority is what was accrued minus what was paid for each election.\<close>

lemma elect_nth:
  assumes "j < length vs" "i < length vs"
  shows "ProposerPriority (elect i vs ! j) =
    ProposerPriority (vs ! j) + VotingPower (vs ! j) - (if i = j then power_sum vs else 0)"
  using assms by (simp add: elect_def Let_def accrue_def nth_list_update)

lemma round_robin_account:
  assumes "round_robin vs ps ws" "j < length vs"
  shows "ProposerPriority (ws ! j) =
    ProposerPriority (vs ! j) + int (length ps) * VotingPower (vs ! j) - int (count_list ps j) * power_sum vs"
  using assms
proof (induction rule: round_robin.induct)
  case (rr_step i vs ps ws)
  have il: "i < length vs" using rr_step.hyps(1) by (simp add: leads_def)
  note same = elect_same [OF il]
  have "VotingPower (elect i vs ! j) = VotingPower (vs ! j)"
    using same_but_prioD(2,4) [OF same] rr_step.prems by (metis nth_map)
  then show ?case
    using rr_step same_but_prio_wf(3) [OF same] same_but_prioD(4) [OF same] elect_nth [OF rr_step.prems il]
    by (auto simp: algebra_simps)
qed simp

lemma round_robin_share:
  assumes "round_robin vs ps ws" "j < length vs" "0 < power_sum vs" "length ws = length vs"
    "in_window (- 2 * power_sum vs) (2 * power_sum vs) vs" "in_window (- 2 * power_sum vs) hi ws"
  shows "(int (count_list ps j) - 4) * power_sum vs \<le> int (length ps) * VotingPower (vs ! j)"
proof -
  have "ProposerPriority (vs ! j) \<le> 2 * power_sum vs" "- 2 * power_sum vs \<le> ProposerPriority (ws ! j)"
    using assms(2,4,5,6) by (auto simp: in_window_def)
  then show ?thesis using round_robin_account [OF assms(1,2)] by (simp add: algebra_simps)
qed

lemma normalise_spec:
  assumes "powers_wf (Validators vals)" "prios_within (3 * MaxTotalVotingPower) (Validators vals)" "Validators vals \<noteq> []"
    "totalVotingPower vals = power_sum (Validators vals)"
  obtains ws where "bind_out (RescalePriorities vals (i64 (2 * power_sum (Validators vals)))) shiftByAvgProposerPriority =
      Ok (vals\<lparr>Validators := ws\<rparr>)"
    "same_but_prio ws (Validators vals)" "prios_within (2 * power_sum (Validators vals)) ws" "centered ws"
    "order_kept (Validators vals) ws"
proof -
  let ?P = "power_sum (Validators vals)"
  have P: "0 < ?P" "?P \<le> MaxTotalVotingPower" using powers_wf_total [OF assms(1)] assms(3) by auto
  then have i: "i64 (2 * ?P) = 2 * ?P" by (intro i64_idI) auto
  obtain us where us: "RescalePriorities vals (2 * ?P) = Ok (vals\<lparr>Validators := us\<rparr>)" "same_but_prio us (Validators vals)"
    "prios_within (3 * MaxTotalVotingPower) us" "spread_le (2 * ?P) us" "order_kept (Validators vals) us"
    using P by (rule_tac RescalePriorities_spec [OF assms(3,2), of "2 * ?P"]) auto
  have "us \<noteq> []" using same_but_prio_wf(4) [OF us(2)] assms(3) by simp
  then obtain ws where ws: "shiftByAvgProposerPriority (vals\<lparr>Validators := us\<rparr>) = Ok (vals\<lparr>Validators := us, Validators := ws\<rparr>)"
    "same_but_prio ws us" "prios_within (2 * ?P) ws" "centered ws" "order_kept us ws"
    using P us by (rule_tac shiftByAvgProposerPriority_spec [of "vals\<lparr>Validators := us\<rparr>" "2 * ?P"]) auto
  show ?thesis
    using us(1) ws(1) i same_but_prio_trans [OF ws(2) us(2)] ws(3,4) order_kept_trans [OF us(5) ws(5)]
    by (intro that [of ws]) auto
qed

lemma IncrementProposerPriority_spec:
  assumes wf: "vset_wf vals" "Validators vals \<noteq> []" and n: "0 < n" "(2 + n) * power_sum (Validators vals) \<le> 3 * MaxTotalVotingPower"
  obtains vs ps ws where "IncrementProposerPriority vals n = Ok (vals\<lparr>totalVotingPower := power_sum (Validators vals),
        Validators := ws, Proposer := Some (ws ! last ps)\<rparr>)"
    "same_but_prio vs (Validators vals)" "order_kept (Validators vals) vs"
    "prios_within (2 * power_sum (Validators vals)) vs" "centered vs"
    "round_robin vs ps ws" "int (length ps) = n" "same_but_prio ws vs" "prio_sum ws = prio_sum vs"
    "in_window (- 2 * power_sum (Validators vals)) ((2 + n) * power_sum (Validators vals)) ws"
proof -
  let ?P = "power_sum (Validators vals)"
  let ?vals = "vals\<lparr>totalVotingPower := ?P\<rparr>"
  have w: "powers_wf (Validators vals)" "totalVotingPower vals = 0 \<or> totalVotingPower vals = ?P"
    "prios_within (3 * MaxTotalVotingPower) (Validators vals)" using wf(1) by (auto simp: vset_wf_def)
  obtain vs where vs: "bind_out (RescalePriorities ?vals (i64 (2 * ?P))) shiftByAvgProposerPriority = Ok (?vals\<lparr>Validators := vs\<rparr>)"
    "same_but_prio vs (Validators vals)" "prios_within (2 * ?P) vs" "centered vs" "order_kept (Validators vals) vs"
    using w wf(2) by (rule_tac normalise_spec [of ?vals]) auto
  note s = same_but_prio_wf [OF vs(2)]
  have "in_window (- 2 * ?P) (2 * ?P) vs" using vs(3) by (force simp: in_window_def prios_within_def)
  moreover have "0 \<le> prio_sum vs" using vs(4) by (simp add: centered_def)
  ultimately obtain ps ws where l: "round_robin vs ps ws" "length ps = nat n"
      "increment_loop (nat n) (?vals\<lparr>Validators := vs\<rparr>) None = Ok (Some (ws ! last ps), ?vals\<lparr>Validators := ws\<rparr>)"
      "same_but_prio ws vs" "prio_sum ws = prio_sum vs" "in_window (- 2 * ?P) (2 * ?P + n * ?P) ws"
    using increment_loop_spec [of vs "2 * ?P" "nat n" "?vals\<lparr>Validators := vs\<rparr>" None] n w(1) wf(2) s
    by (auto simp: algebra_simps)
  have "IncrementProposerPriority vals n = Ok (vals\<lparr>totalVotingPower := ?P, Validators := ws, Proposer := Some (ws ! last ps)\<rparr>)"
    using wf(2) n(1) TotalVotingPower_wf [OF w(1,2)] vs(1) l(3) by (auto simp: IncrementProposerPriority_def)
  then show ?thesis using vs l n(1) by (intro that [of ws ps vs]) (auto simp: algebra_simps)
qed

section \<open>Properties\<close>

text \<open>C13. On a well-formed, non-empty set, advancing the proposer priority \<open>n\<close> times neither panics nor
  clips, as long as \<open>(2 + n)\<close> times the total power is within three times the maximum (always so for
  \<open>n = 1\<close>). The priorities are first brought into a window of twice the total and centered without
  changing their order; then the result is exactly \<open>n\<close> rounds of a weighted round robin in which the
  validator with the highest priority (lowest address among equals) is elected and pays the total. Keys,
  addresses and powers do not change, the proposer is the last one elected, the sum of the priorities is
  kept, the set stays well-formed, and no validator is elected more than four times beyond its share of
  the power.\<close>

theorem proposer_rotation:
  assumes "vset_wf vals" "Validators vals \<noteq> []" "0 < n"
    "(2 + n) * power_sum (Validators vals) \<le> 3 * MaxTotalVotingPower"
  shows "\<exists>vals' vs ps. IncrementProposerPriority vals n = Ok vals' \<and> vset_wf vals' \<and>
    same_but_prio vs (Validators vals) \<and> order_kept (Validators vals) vs \<and>
    prios_within (2 * power_sum (Validators vals)) vs \<and> centered vs \<and>
    round_robin vs ps (Validators vals') \<and> int (length ps) = n \<and>
    same_but_prio (Validators vals') (Validators vals) \<and> centered (Validators vals') \<and>
    Proposer vals' = Some (Validators vals' ! last ps) \<and>
    (\<forall>j < length vs. (int (count_list ps j) - 4) * power_sum (Validators vals) \<le> n * VotingPower (vs ! j))"
proof -
  let ?P = "power_sum (Validators vals)"
  obtain vs ps ws where r: "IncrementProposerPriority vals n = Ok (vals\<lparr>totalVotingPower := ?P, Validators := ws, Proposer := Some (ws ! last ps)\<rparr>)"
    "same_but_prio vs (Validators vals)" "order_kept (Validators vals) vs" "prios_within (2 * ?P) vs" "centered vs"
    "round_robin vs ps ws" "int (length ps) = n" "same_but_prio ws vs" "prio_sum ws = prio_sum vs"
    "in_window (- 2 * ?P) ((2 + n) * ?P) ws"
    using IncrementProposerPriority_spec [OF assms] .
  have same: "same_but_prio ws (Validators vals)" using r(8,2) by (rule same_but_prio_trans)
  have P: "0 < ?P" "?P \<le> MaxTotalVotingPower"
    using powers_wf_total [of "Validators vals"] assms(1,2) by (auto simp: vset_wf_def)
  have "prios_within (3 * MaxTotalVotingPower) ws" using r(10) assms(4) P by (force simp: in_window_def prios_within_def)
  then have "vset_wf (vals\<lparr>totalVotingPower := ?P, Validators := ws, Proposer := Some (ws ! last ps)\<rparr>)"
    using assms(1) same_but_prio_wf [OF same] by (simp add: vset_wf_def)
  moreover have "centered ws" using r(5,9) same_but_prioD(4) [OF r(8)] by (simp add: centered_def)
  moreover have "(int (count_list ps j) - 4) * ?P \<le> n * VotingPower (vs ! j)" if "j < length vs" for j
  proof -
    have "in_window (- 2 * ?P) (2 * ?P) vs" using r(4) by (force simp: in_window_def prios_within_def)
    then show ?thesis
      using round_robin_share [OF r(6) that, of "(2 + n) * ?P"] P(1) r(7,10) same_but_prioD(4) [OF r(8)]
        same_but_prio_wf(3) [OF r(2)] by simp
  qed
  ultimately show ?thesis
    using r same by (intro exI [of _ "vals\<lparr>totalVotingPower := ?P, Validators := ws, Proposer := Some (ws ! last ps)\<rparr>"]
      exI [of _ vs] exI [of _ ps]) auto
qed

definition sample_key :: "byte \<Rightarrow> PubKey" where
  "sample_key b = Ed25519 (replicate 32 b)"

definition sample_val :: "byte \<Rightarrow> int \<Rightarrow> int \<Rightarrow> Validator" where
  "sample_val b p prio = \<lparr>Address = [b], PubKey = Some (sample_key b), VotingPower = p, ProposerPriority = prio\<rparr>"

definition sample_set :: ValidatorSet where
  "sample_set = \<lparr>Validators = [sample_val 1 10 0, sample_val 2 5 0, sample_val 3 1 0], Proposer = None,
     totalVotingPower = 0, allKeysHaveSameType = True\<rparr>"

lemma sample_set_wf: "vset_wf sample_set" "Validators sample_set \<noteq> []" "power_sum (Validators sample_set) = 16"
  by (simp_all add: vset_wf_def powers_wf_def keys_ok_def prios_within_def addrs_def sample_set_def sample_val_def)

theorem proposer_rotation_witness:
  "\<exists>vals' vs ps. IncrementProposerPriority sample_set 2 = Ok vals' \<and> vset_wf vals' \<and> length ps = 2 \<and>
     round_robin vs ps (Validators vals')"
  using proposer_rotation [of sample_set 2] sample_set_wf by fastforce

end
