(* ===== verification/ValidatorUpdate.thy ===== *)
theory ValidatorUpdate
  imports ProposerRotation
begin

text \<open>
  Updating the validator set: an update is accepted exactly when the changes are well-formed and the
  resulting set is neither empty nor too powerful; then the new set is the old one overridden by the
  changes, and otherwise nothing changes.
\<close>

section \<open>When the checks accept\<close>

lemma process_fold_ok:
  assumes "addr_sorted vs" "prev \<notin> set (addrs vs)" "\<forall>v \<in> set vs. power_in_range v"
  shows "\<exists>p. fold_out process_change vs (prev, us, ds) =
    Ok (p, us @ filter (\<lambda>v. VotingPower v \<noteq> 0) vs, ds @ filter (\<lambda>v. VotingPower v = 0) vs)"
  using assms
proof (induction vs arbitrary: prev us ds)
  case (Cons v vs)
  have "MaxTotalVotingPower_check v = Ok ()" "Address v \<noteq> prev" using Cons.prems by (auto simp: check_range addrs_def)
  moreover have "Address v \<notin> set (addrs vs)" using Cons.prems(1) by (force simp: addr_sorted_Cons addrs_def)
  ultimately show ?case
    using Cons.IH [of "Address v" us "ds @ [v]"] Cons.IH [of "Address v" "us @ [v]" ds] Cons.prems by (auto simp: process_change_tuple addrs_def)
qed simp

lemma processChanges_ok_iff:
  "(\<exists>us ds. processChanges cs = Ok (us, ds)) \<longleftrightarrow>
     distinct (addrs cs) \<and> [] \<notin> set (addrs cs) \<and> (\<forall>v \<in> set cs. power_in_range v)"
proof
  assume "\<exists>us ds. processChanges cs = Ok (us, ds)"
  then obtain us ds where ok: "processChanges cs = Ok (us, ds)" by blast
  then obtain p where "fold_out process_change (sort_key Address cs) ([], [], []) = Ok (p, us, ds)"
    by (auto simp: processChanges_def)
  then have "[] \<notin> set (addrs (sort_key Address cs))" by (rule process_fold [THEN conjunct2, THEN conjunct2, THEN conjunct2, THEN conjunct1])
      (simp_all add: addrs_def)
  then show "distinct (addrs cs) \<and> [] \<notin> set (addrs cs) \<and> (\<forall>v \<in> set cs. power_in_range v)"
    using processChanges_spec [OF ok] by (simp add: addrs_def)
next
  assume *: "distinct (addrs cs) \<and> [] \<notin> set (addrs cs) \<and> (\<forall>v \<in> set cs. power_in_range v)"
  then have "\<exists>p. fold_out process_change (sort_key Address cs) ([], [], []) =
      Ok (p, [] @ filter (\<lambda>v. VotingPower v \<noteq> 0) (sort_key Address cs), [] @ filter (\<lambda>v. VotingPower v = 0) (sort_key Address cs))"
    by (intro process_fold_ok addr_sorted_sort) (simp_all add: addrs_def)
  then show "\<exists>us ds. processChanges cs = Ok (us, ds)" by (auto simp: processChanges_def)
qed

lemma verifyRemovals_ok:
  assumes "distinct (addrs (Validators vals))" "distinct (addrs ds)" "set (addrs ds) \<subseteq> set (addrs (Validators vals))"
  shows "\<exists>r. verifyRemovals ds vals = Ok r"
proof -
  let ?f = "\<lambda>valUpdate removed. case GetByAddress vals (Address valUpdate) of
      (_, None) \<Rightarrow> Err (Errorf ''failed to find validator to remove'')
    | (_, Some val) \<Rightarrow> Ok (i64 (removed + VotingPower val))"
  have "\<exists>r'. fold_out ?f ds r = Ok r'" for r
    using assms(3)
  proof (induction ds arbitrary: r)
    case (Cons d ds)
    then obtain v where v: "v \<in> set (Validators vals)" "Address v = Address d" by (auto simp: addrs_def)
    then obtain i where "GetByAddress vals (Address d) = (i, Some v)"
      using GetByAddress_Some [OF assms(1) v(1)] by (metis prod.collapse)
    then show ?case using Cons by (simp add: addrs_def)
  qed simp
  then obtain r where "fold_out ?f ds 0 = Ok r" by blast
  moreover have "length ds \<le> length (Validators vals)"
    using card_mono [OF _ assms(3)] distinct_card [OF assms(2)] distinct_card [OF assms(1)] by (simp add: addrs_def)
  ultimately show ?thesis by (simp add: verifyRemovals_def)
qed

text \<open>
  The deltas are added in ascending order, so the running total exceeds the maximum at some point only if
  it does at the end.
\<close>

lemma verifyUpdates_fold_ok:
  assumes wf: "powers_wf (Validators vals)"
    and "\<forall>u \<in> set us. power_in_range u" "sorted (map (delta vals) us)"
    and "sum_list (map (power_at (Validators vals)) (addrs us)) \<le> t" "t \<le> MaxTotalVotingPower"
    and "t + sum_list (map (delta vals) us) \<le> MaxTotalVotingPower"
  shows "\<exists>t'. fold_out (\<lambda>upd t. let t' = i64 (t + delta vals upd)
           in if t' > MaxTotalVotingPower then Err e else Ok t') us t = Ok t'"
  using assms(2-)
proof (induction us arbitrary: t)
  case (Cons u us)
  let ?old = "power_at (Validators vals)"
  have nn: "0 \<le> ?old a" "0 \<le> sum_list (map ?old as)" for a as
    using wf by (auto simp: power_at_def powers_wf_def less_imp_le intro!: sum_list_nonneg)
  have u: "0 \<le> VotingPower u" "VotingPower u \<le> MaxTotalVotingPower" using Cons.prems(1) by (auto simp: power_in_range_def)
  have d: "delta vals u = VotingPower u - ?old (Address u)" using delta_eq [OF wf u] .
  have low: "?old (Address u) + sum_list (map ?old (addrs us)) \<le> t" using Cons.prems(3) by (simp add: addrs_def)
  have i: "i64 (t + delta vals u) = t + delta vals u"
    using d u low nn(2) [of "addrs us"] nn(1) [of "Address u"] Cons.prems(4) by (intro i64_idI) linarith+
  have step: "t + delta vals u \<le> MaxTotalVotingPower"
  proof (cases "delta vals u \<le> 0")
    case False
    then have "\<forall>x \<in> set (map (delta vals) us). 0 \<le> x" using Cons.prems(2) by force
    then have "0 \<le> sum_list (map (delta vals) us)" by (intro sum_list_nonneg) blast
    then show ?thesis using Cons.prems(5) by simp
  qed (use Cons.prems(4) in linarith)
  have "sum_list (map ?old (addrs us)) \<le> t + delta vals u" using low d u by linarith
  then show ?case using Cons.IH [of "t + delta vals u"] Cons.prems i step by (simp add: add.assoc)
qed simp

section \<open>The end of an update\<close>

lemma sort_by_power_mset [simp]: "mset (sort_by_power vs) = mset vs"
  by (simp add: sort_by_power_def)

lemma sort_by_power_sorted:
  assumes "distinct (addrs vs)"
  shows "sorted_wrt power_less (sort_by_power vs)"
proof -
  let ?f = "\<lambda>v. - VotingPower v"
  define xs where "xs = sort_key Address vs"
  have xs: "addr_sorted xs" unfolding xs_def by (rule addr_sorted_sort [OF assms])
  define ys where "ys = sort_key ?f xs"
  have sorted: "sorted (map ?f ys)" by (simp add: ys_def)
  have "filter (\<lambda>v. ?f v = k) ys = filter (\<lambda>v. ?f v = k) xs" for k by (simp add: ys_def sort_key_stable)
  then have "addr_sorted (filter (\<lambda>v. ?f v = k) ys)" for k using addr_sorted_filter [OF xs] by metis
  with sorted have "sorted_wrt power_less ys"
  proof (induction ys)
    case (Cons y ys)
    have "addr_sorted (filter (\<lambda>v. ?f v = k) ys)" for k
      using Cons.prems(2) [of k] by (auto simp: addr_sorted_Cons split: if_splits)
    then have IH: "sorted_wrt power_less ys" using Cons.IH Cons.prems(1) by simp
    have "power_less y z" if "z \<in> set ys" for z
    proof (cases "VotingPower y = VotingPower z")
      case True
      then have "Address y < Address z"
        using Cons.prems(2) [of "?f y"] that by (auto simp: addr_sorted_Cons)
      then show ?thesis using True by (simp add: power_less_def)
    next
      case False
      moreover have "VotingPower z \<le> VotingPower y" using Cons.prems(1) that by simp
      ultimately show ?thesis by (simp add: power_less_def)
    qed
    then show ?case using IH by simp
  qed simp
  then show ?thesis by (simp add: sort_by_power_def ys_def xs_def)
qed

lemma same_type_loop_ok: "keys_ok vs \<Longrightarrow> is_Ok (same_type_loop vs t)"
proof (induction vs arbitrary: t)
  case (Cons v vs)
  then obtain pk where "PubKey v = Some pk" by (auto simp: keys_ok_def)
  then show ?case using Cons by (simp add: Let_def keys_ok_def)
qed simp

lemma finish_update_spec:
  assumes us: "addr_sorted us" and ds: "addr_sorted ds" "set (addrs ds) \<inter> set (addrs us) = {}"
    "set (addrs ds) \<subseteq> set (addrs (Validators vals))"
    and dist: "distinct (addrs (Validators vals))"
    and K: "K = kept ds (merge_updates (sort_key Address (Validators vals)) us)" "powers_wf K" "keys_ok K"
      "prios_within (3 * MaxTotalVotingPower) K" "K \<noteq> []"
  obtains ws b where "finish_update vals us ds =
      Ok (vals\<lparr>Validators := sort_by_power ws, totalVotingPower := power_sum K, allKeysHaveSameType := b\<rparr>)"
    "same_but_prio ws K" "prios_within (2 * power_sum K) ws" "centered ws" "order_kept K ws"
proof -
  let ?es = "sort_key Address (Validators vals)"
  define M where "M = merge_updates ?es us"
  have es: "addr_sorted ?es" by (rule addr_sorted_sort [OF dist])
  have M: "addr_sorted M" "mset M = mset (kept us ?es) + mset us"
    using merge_updates_sorted [OF es us] merge_updates_mset [OF es us] by (simp_all add: M_def)
  have sub: "set (addrs ds) \<subseteq> set (addrs M)"
  proof
    fix a assume a: "a \<in> set (addrs ds)"
    then have "a \<in> set (addrs (Validators vals))" and na: "a \<notin> set (addrs us)" using ds(2,3) by blast+
    then obtain e where "e \<in> set ?es" "Address e = a" by (auto simp: addrs_def)
    then have "e \<in># mset (kept us ?es) + mset us" using na by simp
    then show "a \<in> set (addrs M)" using \<open>Address e = a\<close> unfolding M(2) [symmetric] by (auto simp: addrs_def)
  qed
  have rem: "remove_loop M ds = Ok K" using remove_loop_spec [OF M(1) ds(1) sub] by (simp add: K(1) M_def)
  have "distinct (addrs ds)" "distinct (addrs M)" using ds(1) M(1) by (simp_all add: strict_sorted_iff)
  then have "length ds \<le> length M"
    using card_mono [OF _ sub] distinct_card [of "addrs ds"] distinct_card [of "addrs M"] by (simp add: addrs_def)
  then have r1: "applyRemovals (applyUpdates vals us) ds = Ok (vals\<lparr>Validators := K\<rparr>)"
    using rem by (simp add: applyRemovals_def applyUpdates_def M_def [symmetric])
  obtain b where b: "same_type_loop K [] = Ok b" using same_type_loop_ok [OF K(3)] by (auto simp: is_Ok_iff)
  let ?vals = "vals\<lparr>Validators := K, allKeysHaveSameType := b, totalVotingPower := power_sum K\<rparr>"
  have t: "TotalVotingPower ?vals = Ok (power_sum K, ?vals)" using TotalVotingPower_wf [of ?vals] K(2) by simp
  obtain ws where ws: "bind_out (RescalePriorities ?vals (i64 (2 * power_sum K))) shiftByAvgProposerPriority = Ok (?vals\<lparr>Validators := ws\<rparr>)"
    "same_but_prio ws K" "prios_within (2 * power_sum K) ws" "centered ws" "order_kept K ws"
    using K by (rule_tac normalise_spec [of ?vals]) auto
  have "finish_update vals us ds =
      Ok (vals\<lparr>Validators := sort_by_power ws, totalVotingPower := power_sum K, allKeysHaveSameType := b\<rparr>)"
    using r1 b t ws(1) updateTotalVotingPower_wf [of "vals\<lparr>Validators := K, allKeysHaveSameType := b\<rparr>"] K(2)
    by (auto simp: finish_update_def checkAllKeysHaveSameType_def panic_on_err_def)
  then show ?thesis using ws(2-) by (rule that)
qed

section \<open>The set that results\<close>

definition updates_of :: "Validator list \<Rightarrow> Validator list" where
  "updates_of cs = filter (\<lambda>v. VotingPower v \<noteq> 0) (sort_key Address cs)"

definition removals_of :: "Validator list \<Rightarrow> Validator list" where
  "removals_of cs = filter (\<lambda>v. VotingPower v = 0) (sort_key Address cs)"

text \<open>The specification: validators with a change are replaced, or dropped if their new power is zero.\<close>

definition override :: "Validator list \<Rightarrow> Validator list \<Rightarrow> Validator list" where
  "override vs cs = filter (\<lambda>v. Address v \<notin> set (addrs cs)) vs @ filter (\<lambda>v. VotingPower v \<noteq> 0) cs"

abbreviation strip :: "Validator list \<Rightarrow> Validator list" where
  "strip vs \<equiv> map (\<lambda>v. v\<lparr>ProposerPriority := 0\<rparr>) vs"

lemma same_but_prio_strip: "same_but_prio vs ws \<longleftrightarrow> strip vs = strip ws"
  by (simp add: same_but_prio_def)

lemma changes_facts:
  assumes "distinct (addrs cs)"
  shows "addr_sorted (updates_of cs)" "addr_sorted (removals_of cs)"
    "set (addrs (removals_of cs)) \<inter> set (addrs (updates_of cs)) = {}"
    "set (addrs cs) = set (addrs (updates_of cs)) \<union> set (addrs (removals_of cs))"
proof -
  note s = addr_sorted_sort [OF assms]
  show "addr_sorted (updates_of cs)" "addr_sorted (removals_of cs)"
    unfolding updates_of_def removals_of_def by (rule addr_sorted_filter [OF s])+
  show "set (addrs cs) = set (addrs (updates_of cs)) \<union> set (addrs (removals_of cs))"
    by (auto simp: addrs_def updates_of_def removals_of_def)
  have inj: "inj_on Address (set cs)" using assms by (simp add: addrs_def distinct_map)
  show "set (addrs (removals_of cs)) \<inter> set (addrs (updates_of cs)) = {}"
  proof (rule equals0I)
    fix a assume "a \<in> set (addrs (removals_of cs)) \<inter> set (addrs (updates_of cs))"
    then obtain v w where "v \<in> set (removals_of cs)" "w \<in> set (updates_of cs)" "Address v = Address w"
      by (auto simp: addrs_def)
    then show False using inj_onD [OF inj, of v w] by (simp add: removals_of_def updates_of_def)
  qed
qed

lemma power_sum_strip: "power_sum (strip vs) = power_sum vs"
  by (simp add: power_sum_def comp_def)

lemma computeNewPriorities_same: "strip (computeNewPriorities us vals t) = strip us"
  by (auto simp: computeNewPriorities_def split: prod.splits option.splits)

lemma power_sum_override:
  assumes "distinct (addrs cs)"
  shows "power_sum (override vs cs) =
    power_sum vs + power_sum (updates_of cs) - sum_list (map (power_at vs) (addrs (updates_of cs)))
      - power_sum (filter (\<lambda>v. Address v \<in> set (addrs (removals_of cs))) vs)"
proof -
  note f = changes_facts [OF assms]
  let ?u = "set (addrs (updates_of cs))" and ?d = "set (addrs (removals_of cs))"
  have "power_sum (filter (\<lambda>v. Address v \<in> ?u) vs) + power_sum (filter (\<lambda>v. Address v \<in> ?d) vs) =
      power_sum (filter (\<lambda>v. Address v \<in> set (addrs cs)) vs)"
    using f(3,4) by (induction vs) auto
  moreover have "power_sum (filter (\<lambda>v. VotingPower v \<noteq> 0) cs) = power_sum (updates_of cs)"
    by (rule power_sum_mset) (simp add: updates_of_def)
  moreover have "sum_list (map (power_at vs) (addrs (updates_of cs))) = power_sum (filter (\<lambda>v. Address v \<in> ?u) vs)"
    using f(1) by (intro power_at_sum) (simp add: strict_sorted_iff)
  ultimately show ?thesis
    using power_sum_filter [of vs "\<lambda>v. Address v \<in> set (addrs cs)"] by (simp add: override_def)
qed

lemma merged_set:
  assumes cs: "distinct (addrs cs)" and vs: "distinct (addrs vs)" and us: "strip us = strip (updates_of cs)"
    and K: "K = kept (removals_of cs) (merge_updates (sort_key Address vs) us)"
  shows "mset (strip K) = mset (strip (override vs cs))" "set K \<subseteq> set vs \<union> set us" "addr_sorted K"
proof -
  note f = changes_facts [OF cs]
  have a: "addrs us = addrs (updates_of cs)" by (rule same_but_prioD(1)) (simp add: same_but_prio_strip us)
  then have sus: "addr_sorted us" using f(1) by simp
  note es = addr_sorted_sort [OF vs]
  have m: "mset (merge_updates (sort_key Address vs) us) = mset (kept us (sort_key Address vs)) + mset us"
    by (rule merge_updates_mset [OF es sus])
  have in_us: "Address v \<in> set (addrs (updates_of cs))" if "v \<in> set us" for v
    using that by (simp flip: a) (simp add: addrs_def)
  have k1: "kept (removals_of cs) us = us" using f(3) in_us by (subst filter_id_conv) blast
  have k2: "kept (removals_of cs) (kept us (sort_key Address vs)) = filter (\<lambda>v. Address v \<notin> set (addrs cs)) (sort_key Address vs)"
    unfolding filter_filter f(4) a by (rule filter_cong) auto
  have "mset K = mset (kept (removals_of cs) (kept us (sort_key Address vs))) + mset (kept (removals_of cs) us)"
    unfolding K mset_filter m by simp
  then have mK: "mset K = mset (filter (\<lambda>v. Address v \<notin> set (addrs cs)) vs) + mset us"
    unfolding k1 k2 by (simp only: mset_filter mset_sort)
  have "mset (strip us) = mset (strip (filter (\<lambda>v. VotingPower v \<noteq> 0) cs))"
    unfolding us by (simp add: updates_of_def)
  then show "mset (strip K) = mset (strip (override vs cs))" using mK by (simp add: override_def)
  show "set K \<subseteq> set vs \<union> set us" using mset_eq_setD [of K "filter (\<lambda>v. Address v \<notin> set (addrs cs)) vs @ us"] mK by auto
  show "addr_sorted K" unfolding K by (intro addr_sorted_filter merge_updates_sorted es sus)
qed

lemma removed_all_iff:
  "D \<subseteq> A \<Longrightarrow> D \<inter> U = {} \<Longrightarrow> U \<subseteq> A \<and> A = D \<longleftrightarrow> A \<subseteq> U \<union> D \<and> U = {}"
  by auto

lemma override_empty_iff:
  assumes cs: "distinct (addrs cs)" and vs: "distinct (addrs (Validators vals))"
    and sub: "set (addrs (removals_of cs)) \<subseteq> set (addrs (Validators vals))"
  shows "numNewValidators (updates_of cs) vals = 0 \<and> length (Validators vals) = length (removals_of cs) \<longleftrightarrow>
    override (Validators vals) cs = []"
proof -
  note f = changes_facts [OF cs]
  let ?A = "set (addrs (Validators vals))" and ?U = "set (addrs (updates_of cs))" and ?D = "set (addrs (removals_of cs))"
  have "numNewValidators (updates_of cs) vals = 0 \<longleftrightarrow> ?U \<subseteq> ?A"
  proof -
    have "HasAddress vals a \<longleftrightarrow> a \<in> ?A" for a
      unfolding HasAddress_def addrs_def set_map image_iff by (simp only: eq_commute)
    then have "numNewValidators (updates_of cs) vals = 0 \<longleftrightarrow> (\<forall>v \<in> set (updates_of cs). Address v \<in> ?A)"
      by (simp add: numNewValidators_def filter_empty_conv)
    then show ?thesis unfolding addrs_def set_map image_subset_iff .
  qed
  moreover have "card ?A = length (Validators vals)" "card ?D = length (removals_of cs)"
    using distinct_card [OF vs] distinct_card [of "addrs (removals_of cs)"] f(2)
    by (simp_all add: addrs_def strict_sorted_iff)
  then have "length (Validators vals) = length (removals_of cs) \<longleftrightarrow> ?A = ?D"
    using card_subset_eq [OF finite_set sub] by metis
  moreover have "override (Validators vals) cs = [] \<longleftrightarrow> ?A \<subseteq> ?U \<union> ?D \<and> ?U = {}"
  proof -
    have "filter (\<lambda>v. VotingPower v \<noteq> 0) cs = [] \<longleftrightarrow> ?U = {}" by (auto simp: updates_of_def addrs_def filter_empty_conv)
    moreover have "filter (\<lambda>v. Address v \<notin> set (addrs cs)) (Validators vals) = [] \<longleftrightarrow> ?A \<subseteq> ?U \<union> ?D"
      unfolding f(4) [symmetric] by (simp add: filter_empty_conv addrs_def image_subset_iff)
    ultimately show ?thesis by (simp add: override_def)
  qed
  moreover have "?U \<subseteq> ?A \<and> ?A = ?D \<longleftrightarrow> ?A \<subseteq> ?U \<union> ?D \<and> ?U = {}" using sub f(3) by (rule removed_all_iff)
  ultimately show ?thesis by simp
qed

text \<open>The new priorities stay in the range that rescaling handles without overflow.\<close>

lemma computeNewPriorities_within:
  assumes "prios_within (3 * MaxTotalVotingPower) (Validators vals)" "0 \<le> t" "t \<le> 2 * MaxTotalVotingPower"
  shows "prios_within (3 * MaxTotalVotingPower) (computeNewPriorities us vals t)"
proof -
  have d: "0 \<le> t div 8" "t div 8 * 8 \<le> t" using assms(2) le_div_iff_int [of 8 "t div 8" t] by auto
  then have "i64 (t + t div 8) = t + t div 8" using assms(2,3) by (intro i64_idI) linarith+
  moreover have "i64 (- (t + t div 8)) = - (t + t div 8)" using d assms(2,3) by (intro i64_idI) linarith+
  ultimately have new: "\<bar>i64 (- i64 (t + t div 8))\<bar> \<le> 3 * MaxTotalVotingPower" using d assms(2,3) by simp
  have "\<bar>ProposerPriority v\<bar> \<le> 3 * MaxTotalVotingPower" if "GetByAddress vals a = (i, Some v)" for a i v
    using GetByAddress_SomeD [OF that] assms(1) by (simp add: prios_within_def)
  then show ?thesis
    using new by (auto simp: prios_within_def computeNewPriorities_def split: prod.splits option.splits)
qed

lemma computeNewPriorities_keys: "keys_ok us \<Longrightarrow> keys_ok (computeNewPriorities us vals t)"
  by (auto simp: keys_ok_def computeNewPriorities_def split: prod.splits option.splits)

lemma strip_mset_powers:
  assumes "mset (strip vs) = mset (strip ws)"
  shows "power_sum vs = power_sum ws" "(\<forall>v \<in> set vs. 0 < VotingPower v) = (\<forall>v \<in> set ws. 0 < VotingPower v)"
    "vs = [] \<longleftrightarrow> ws = []"
proof -
  show "power_sum vs = power_sum ws" using power_sum_mset [OF assms] by (simp add: power_sum_strip)
  have "(\<forall>v \<in> set (strip vs). 0 < VotingPower v) = (\<forall>v \<in> set (strip ws). 0 < VotingPower v)"
    unfolding mset_eq_setD [OF assms] ..
  then show "(\<forall>v \<in> set vs. 0 < VotingPower v) = (\<forall>v \<in> set ws. 0 < VotingPower v)" by simp
  show "vs = [] \<longleftrightarrow> ws = []" using arg_cong [OF assms, of size] by auto
qed

section \<open>Acceptance\<close>

definition changes_ok :: "Validator list \<Rightarrow> Validator list \<Rightarrow> bool \<Rightarrow> bool" where
  "changes_ok vs cs allowDeletes \<longleftrightarrow>
     distinct (addrs cs) \<and> [] \<notin> set (addrs cs) \<and> (\<forall>v \<in> set cs. power_in_range v) \<and>
     (allowDeletes \<or> (\<forall>v \<in> set cs. VotingPower v \<noteq> 0)) \<and>
     (\<forall>v \<in> set cs. VotingPower v = 0 \<longrightarrow> Address v \<in> set (addrs vs)) \<and>
     override vs cs \<noteq> [] \<and> power_sum (override vs cs) \<le> MaxTotalVotingPower"

lemma removals_subset: "(\<forall>v \<in> set cs. VotingPower v = 0 \<longrightarrow> Address v \<in> A) \<longleftrightarrow> set (addrs (removals_of cs)) \<subseteq> A"
  by (auto simp: removals_of_def addrs_def)

lemma verifyUpdates_ok_iff:
  assumes wf: "vset_wf vals" and cs: "distinct (addrs cs)" "\<forall>v \<in> set cs. power_in_range v"
    and r: "r = power_sum (filter (\<lambda>v. Address v \<in> set (addrs (removals_of cs))) (Validators vals))"
  shows "(\<exists>x. verifyUpdates (updates_of cs) vals r = Ok x) \<longleftrightarrow> power_sum (override (Validators vals) cs) \<le> MaxTotalVotingPower"
    "verifyUpdates (updates_of cs) vals r = Ok (tvp, vals') \<Longrightarrow>
       vals' = vals\<lparr>totalVotingPower := power_sum (Validators vals)\<rparr> \<and> 0 \<le> tvp \<and> tvp \<le> 2 * MaxTotalVotingPower"
proof -
  let ?vs = "Validators vals" and ?us = "updates_of cs"
  have w: "powers_wf ?vs" "totalVotingPower vals = 0 \<or> totalVotingPower vals = power_sum ?vs" using wf by (auto simp: vset_wf_def)
  have us: "\<forall>u \<in> set ?us. power_in_range u" using cs(2) by (simp add: updates_of_def)
  have nn: "0 \<le> sum_list (map (power_at ?vs) as)" for as
    by (rule sum_list_nonneg) (use w(1) in \<open>auto simp: power_at_def powers_wf_def less_imp_le intro!: sum_list_nonneg\<close>)
  have r0: "0 \<le> r" unfolding r using w(1) by (intro power_sum_nonneg) (auto simp: powers_wf_def less_imp_le)
  have rmax: "r \<le> MaxTotalVotingPower" unfolding r using power_sum_filter_le [OF w(1)] powers_wf_total(2) [OF w(1)] by (rule order_trans)
  have ov: "power_sum (override ?vs cs) = power_sum ?vs + power_sum ?us - sum_list (map (power_at ?vs) (addrs ?us)) - r"
    using power_sum_override [OF cs(1)] by (simp add: r)
  have "0 \<le> power_sum (filter (\<lambda>v. Address v \<notin> set (addrs cs)) ?vs)"
    using w(1) by (intro power_sum_nonneg) (auto simp: powers_wf_def less_imp_le)
  moreover have "power_sum (filter (\<lambda>v. VotingPower v \<noteq> 0) cs) = power_sum ?us"
    by (rule power_sum_mset) (simp add: updates_of_def)
  ultimately have room: "r + sum_list (map (power_at ?vs) (addrs ?us)) \<le> power_sum ?vs" using ov by (simp add: override_def)
  note spec = verifyUpdates_spec [OF w us r0 room]
  show "verifyUpdates ?us vals r = Ok (tvp, vals') \<Longrightarrow>
      vals' = vals\<lparr>totalVotingPower := power_sum ?vs\<rparr> \<and> 0 \<le> tvp \<and> tvp \<le> 2 * MaxTotalVotingPower"
    using spec rmax by force
  show "(\<exists>x. verifyUpdates ?us vals r = Ok x) \<longleftrightarrow> power_sum (override ?vs cs) \<le> MaxTotalVotingPower"
  proof
    assume "\<exists>x. verifyUpdates ?us vals r = Ok x"
    then obtain t v' where ok: "verifyUpdates ?us vals r = Ok (t, v')" by auto
    show "power_sum (override ?vs cs) \<le> MaxTotalVotingPower" using spec(2,3) [OF ok] ov by linarith
  next
    assume le: "power_sum (override ?vs cs) \<le> MaxTotalVotingPower"
    let ?s = "sort_key (delta vals) ?us"
    have i: "i64 (power_sum ?vs - r) = power_sum ?vs - r"
      using powers_wf_total(1,2) [OF w(1)] r0 rmax by (intro i64_idI) linarith+
    have m: "sum_list (map (power_at ?vs) (addrs ?s)) = sum_list (map (power_at ?vs) (addrs ?us))"
      by (rule sum_list_mset_eq) (simp add: addrs_def)
    have "sum_list (map (delta vals) ?s) = sum_list (map (delta vals) ?us)" by (rule sum_list_mset_eq) simp
    also have "\<dots> = sum_list (map (\<lambda>u. VotingPower u - power_at ?vs (Address u)) ?us)"
      using us delta_eq [OF w(1)] by (intro arg_cong [where f = sum_list] map_cong) (auto simp: power_in_range_def)
    also have "\<dots> = power_sum ?us - sum_list (map (power_at ?vs) (addrs ?us))"
      by (simp add: power_sum_def addrs_def sum_list_subtractf comp_def)
    finally have "\<exists>t'. fold_out (\<lambda>upd t. let t' = i64 (t + delta vals upd)
        in if t' > MaxTotalVotingPower then Err (Errorf ''total voting power of resulting valset exceeds max'') else Ok t')
        ?s (power_sum ?vs - r) = Ok t'"
      using us m room le ov powers_wf_total(2) [OF w(1)] r0 by (intro verifyUpdates_fold_ok [OF w(1)]) simp_all
    then show "\<exists>x. verifyUpdates ?us vals r = Ok x" using TotalVotingPower_wf [OF w] i by (auto simp: verifyUpdates_def)
  qed
qed

lemma processChanges_result:
  assumes "distinct (addrs cs)" "[] \<notin> set (addrs cs)" "\<forall>v \<in> set cs. power_in_range v"
  shows "processChanges cs = Ok (updates_of cs, removals_of cs)"
proof -
  obtain us ds where ok: "processChanges cs = Ok (us, ds)" using processChanges_ok_iff assms by blast
  then show ?thesis using processChanges_spec [OF ok] by (simp add: updates_of_def removals_of_def)
qed

text \<open>An error, and a set that differs at most in the cached total.\<close>

definition left_unchanged :: "ValidatorSet \<Rightarrow> (ValidatorSet \<times> go_error option) result \<Rightarrow> bool" where
  "left_unchanged vals r \<longleftrightarrow> (\<exists>e t. r = Ok (vals\<lparr>totalVotingPower := t\<rparr>, Some e) \<and>
     t \<in> {totalVotingPower vals, power_sum (Validators vals)})"

lemma left_unchangedI: "r = Ok (vals, Some e) \<Longrightarrow> left_unchanged vals r"
  unfolding left_unchanged_def by (rule exI [of _ e], rule exI [of _ "totalVotingPower vals"]) simp

lemma left_unchanged_total: "r = Ok (vals\<lparr>totalVotingPower := power_sum (Validators vals)\<rparr>, Some e) \<Longrightarrow> left_unchanged vals r"
  unfolding left_unchanged_def by (rule exI [of _ e], rule exI [of _ "power_sum (Validators vals)"]) simp

lemma verified_reject:
  assumes wf: "vset_wf vals" and ne: "cs \<noteq> []" and bad: "\<not> changes_ok (Validators vals) cs allowDeletes"
    and c: "distinct (addrs cs)" "[] \<notin> set (addrs cs)" "\<forall>v \<in> set cs. power_in_range v"
    and rest: "\<not> (\<not> allowDeletes \<and> removals_of cs \<noteq> [])"
      "\<not> (numNewValidators (updates_of cs) vals = 0 \<and> length (Validators vals) = length (removals_of cs))"
  shows "left_unchanged vals (updateWithChangeSet vals cs allowDeletes)"
proof -
  note pr = processChanges_result [OF c]
  have d: "distinct (addrs (removals_of cs))" using changes_facts(2) [OF c(1)] by (simp add: strict_sorted_iff)
  have w: "powers_wf (Validators vals)" "totalVotingPower vals = 0 \<or> totalVotingPower vals = power_sum (Validators vals)"
    "distinct (addrs (Validators vals))" using wf by (auto simp: vset_wf_def powers_wf_def)
  show ?thesis
  proof (cases "verifyRemovals (removals_of cs) vals")
    case (Err e)
    then have "updateWithChangeSet vals cs allowDeletes = Ok (vals, Some e)"
      using pr ne rest by (auto simp: updateWithChangeSet_def)
    then show ?thesis by (rule left_unchangedI)
  next
    case (Panic s)
    then show ?thesis using verifyRemovals_no_panic [OF d] by metis
  next
    case (Ok r)
    note r = verifyRemovals_spec [OF w(1) d Ok]
    have no: "\<forall>v \<in> set cs. VotingPower v = 0 \<longrightarrow> Address v \<in> set (addrs (Validators vals))" using r(2) removals_subset by blast
    have del: "allowDeletes \<or> (\<forall>v \<in> set cs. VotingPower v \<noteq> 0)" using rest(1) by (auto simp: removals_of_def filter_empty_conv)
    have "override (Validators vals) cs \<noteq> []" using rest(2) override_empty_iff [OF c(1) w(3) r(2)] by simp
    then have "\<not> power_sum (override (Validators vals) cs) \<le> MaxTotalVotingPower"
      using bad c no del unfolding changes_ok_def by blast
    then obtain e where e: "verifyUpdates (updates_of cs) vals r = Err e"
      using verifyUpdates_ok_iff(1) [OF wf c(1,3) r(1)] verifyUpdates_no_panic [OF w(1,2)]
      by (cases "verifyUpdates (updates_of cs) vals r") auto
    have "updateWithChangeSet vals cs allowDeletes = Ok (vals\<lparr>totalVotingPower := power_sum (Validators vals)\<rparr>, Some e)"
      using pr ne rest Ok e TotalVotingPower_wf [OF w(1,2)] by (auto simp: updateWithChangeSet_def)
    then show ?thesis by (rule left_unchanged_total)
  qed
qed

lemma updateWithChangeSet_reject:
  assumes wf: "vset_wf vals" and ne: "cs \<noteq> []" and bad: "\<not> changes_ok (Validators vals) cs allowDeletes"
  shows "left_unchanged vals (updateWithChangeSet vals cs allowDeletes)"
proof (cases "processChanges cs")
  case (Err e)
  then show ?thesis using ne by (intro left_unchangedI [of _ _ e]) (simp add: updateWithChangeSet_def)
next
  case (Panic s)
  then show ?thesis using processChanges_no_panic by metis
next
  case (Ok p)
  obtain us ds where "processChanges cs = Ok (us, ds)" using Ok by (cases p) simp
  then have c: "distinct (addrs cs)" "[] \<notin> set (addrs cs)" "\<forall>v \<in> set cs. power_in_range v" using processChanges_ok_iff by blast+
  note pr = processChanges_result [OF c]
  show ?thesis
  proof (cases "\<not> allowDeletes \<and> removals_of cs \<noteq> []")
    case True
    then show ?thesis using pr ne
      by (intro left_unchangedI [of _ _ "Errorf ''cannot process validators with voting power 0''"]) (simp add: updateWithChangeSet_def)
  next
    case nodel: False
    show ?thesis
    proof (cases "numNewValidators (updates_of cs) vals = 0 \<and> length (Validators vals) = length (removals_of cs)")
      case True
      then show ?thesis using pr ne nodel
        by (intro left_unchangedI [of _ _ "Errorf ''applying the validator changes would result in empty set''"])
          (auto simp: updateWithChangeSet_def)
    next
      case False
      with nodel show ?thesis by (intro verified_reject [OF wf ne bad c])
    qed
  qed
qed

lemma merged_wf:
  assumes wf: "vset_wf vals" and keys: "keys_ok cs" and ok: "changes_ok (Validators vals) cs allowDeletes"
    and t: "0 \<le> t" "t \<le> 2 * MaxTotalVotingPower"
    and us: "us = computeNewPriorities (updates_of cs) (vals\<lparr>totalVotingPower := tot\<rparr>) t"
    and K: "K = kept (removals_of cs) (merge_updates (sort_key Address (Validators vals)) us)"
  shows "mset (strip K) = mset (strip (override (Validators vals) cs))" "powers_wf K" "keys_ok K"
    "prios_within (3 * MaxTotalVotingPower) K" "K \<noteq> []"
    "addr_sorted us" "set (addrs (removals_of cs)) \<inter> set (addrs us) = {}"
proof -
  let ?vs = "Validators vals"
  have c: "distinct (addrs cs)" "\<forall>v \<in> set cs. power_in_range v" "override ?vs cs \<noteq> []"
      "power_sum (override ?vs cs) \<le> MaxTotalVotingPower"
    using ok by (auto simp: changes_ok_def)
  note f = changes_facts [OF c(1)]
  have w: "powers_wf ?vs" "distinct (addrs ?vs)" "prios_within (3 * MaxTotalVotingPower) ?vs" "keys_ok ?vs"
    using wf by (auto simp: vset_wf_def powers_wf_def)
  have sus: "strip us = strip (updates_of cs)" unfolding us by (rule computeNewPriorities_same)
  note m = merged_set [OF c(1) w(2) sus K]
  show "mset (strip K) = mset (strip (override ?vs cs))" by (rule m(1))
  show "addr_sorted us" "set (addrs (removals_of cs)) \<inter> set (addrs us) = {}"
    using f(1,3) same_but_prioD(1) [of us "updates_of cs"] sus by (simp_all add: same_but_prio_strip)
  have pos: "\<forall>v \<in> set (override ?vs cs). 0 < VotingPower v"
    using w(1) c(2) by (force simp: override_def powers_wf_def power_in_range_def)
  note kp = strip_mset_powers [OF m(1)]
  show "powers_wf K" using m(3) kp c(4) pos by (simp add: powers_wf_def strict_sorted_iff)
  have "keys_ok (updates_of cs)" using keys by (simp add: keys_ok_def updates_of_def)
  then have "keys_ok us" unfolding us by (rule computeNewPriorities_keys)
  then show "keys_ok K" using w(4) m(2) unfolding keys_ok_def by blast
  have "prios_within (3 * MaxTotalVotingPower) us"
    unfolding us by (rule computeNewPriorities_within) (use w(3) t in simp_all)
  then show "prios_within (3 * MaxTotalVotingPower) K" using w(3) m(2) unfolding prios_within_def by blast
  show "K \<noteq> []" using kp(3) c(3) by simp
qed

lemma updateWithChangeSet_accept:
  assumes wf: "vset_wf vals" and keys: "keys_ok cs" and ne: "cs \<noteq> []" and ok: "changes_ok (Validators vals) cs allowDeletes"
  obtains vals' where "updateWithChangeSet vals cs allowDeletes = Ok (vals', None)" "vset_wf vals'"
    "mset (strip (Validators vals')) = mset (strip (override (Validators vals) cs))"
    "sorted_wrt power_less (Validators vals')" "centered (Validators vals')"
    "prios_within (2 * power_sum (Validators vals')) (Validators vals')" "Proposer vals' = Proposer vals"
    "totalVotingPower vals' = power_sum (Validators vals')"
proof -
  let ?vs = "Validators vals" and ?ds = "removals_of cs"
  have c: "distinct (addrs cs)" "[] \<notin> set (addrs cs)" "\<forall>v \<in> set cs. power_in_range v"
      "\<forall>v \<in> set cs. VotingPower v = 0 \<longrightarrow> Address v \<in> set (addrs ?vs)" "override ?vs cs \<noteq> []"
      "power_sum (override ?vs cs) \<le> MaxTotalVotingPower" "allowDeletes \<or> (\<forall>v \<in> set cs. VotingPower v \<noteq> 0)"
    using ok by (auto simp: changes_ok_def)
  note pr = processChanges_result [OF c(1-3)]
  note f = changes_facts [OF c(1)]
  have sub: "set (addrs ?ds) \<subseteq> set (addrs ?vs)" using c(4) removals_subset by blast
  have d: "distinct (addrs ?ds)" using f(2) by (simp add: strict_sorted_iff)
  have w: "powers_wf ?vs" "distinct (addrs ?vs)" "prios_within (3 * MaxTotalVotingPower) ?vs" "keys_ok ?vs"
    using wf by (auto simp: vset_wf_def powers_wf_def)
  have del: "\<not> (\<not> allowDeletes \<and> ?ds \<noteq> [])" using c(7) by (auto simp: removals_of_def filter_empty_conv)
  obtain r where r: "verifyRemovals ?ds vals = Ok r" using verifyRemovals_ok [OF w(2) d sub] by blast
  note re = verifyRemovals_spec(1) [OF w(1) d r]
  obtain t vals1 where t: "verifyUpdates (updates_of cs) vals r = Ok (t, vals1)"
    using verifyUpdates_ok_iff(1) [OF wf c(1,3) re] c(6) by auto
  have v1: "vals1 = vals\<lparr>totalVotingPower := power_sum ?vs\<rparr>" "0 \<le> t" "t \<le> 2 * MaxTotalVotingPower"
    using verifyUpdates_ok_iff(2) [OF wf c(1,3) re t] by auto
  define us where "us = computeNewPriorities (updates_of cs) (vals\<lparr>totalVotingPower := power_sum ?vs\<rparr>) t"
  define K where "K = kept ?ds (merge_updates (sort_key Address ?vs) us)"
  note K = merged_wf [OF wf keys ok v1(2,3) us_def K_def]
  obtain ws b where fin: "finish_update vals1 us ?ds =
      Ok (vals1\<lparr>Validators := sort_by_power ws, totalVotingPower := power_sum K, allKeysHaveSameType := b\<rparr>)"
    "same_but_prio ws K" "prios_within (2 * power_sum K) ws" "centered ws"
    by (rule finish_update_spec [OF K(6) f(2) K(7), of vals1 K]) (use sub w(2) K in \<open>simp_all add: v1 K_def\<close>)
  let ?vals' = "vals1\<lparr>Validators := sort_by_power ws, totalVotingPower := power_sum K, allKeysHaveSameType := b\<rparr>"
  have guard: "\<not> (numNewValidators (updates_of cs) vals = 0 \<and> length ?vs = length ?ds)"
    using override_empty_iff [OF c(1) w(2) sub] c(5) by simp
  have res: "updateWithChangeSet vals cs allowDeletes = Ok (?vals', None)"
    using pr ne del guard r t fin(1) by (auto simp: updateWithChangeSet_def us_def v1)
  note ws = same_but_prio_wf [OF fin(2)]
  have set_ws: "set (sort_by_power ws) = set ws" using mset_eq_setD [OF sort_by_power_mset] .
  have ps: "power_sum (sort_by_power ws) = power_sum K" using power_sum_mset [OF sort_by_power_mset] ws(3) by metis
  have "powers_wf (sort_by_power ws)" using powers_wf_mset [OF sort_by_power_mset] ws(1) K(2) by metis
  moreover have "0 \<le> power_sum K" "power_sum K \<le> MaxTotalVotingPower" using powers_wf_total [OF K(2)] by auto
  ultimately have "vset_wf ?vals'" using ws(2) K(3) fin(3) ps set_ws by (force simp: vset_wf_def keys_ok_def prios_within_def)
  moreover have "mset (strip (sort_by_power ws)) = mset (strip (override ?vs cs))"
  proof -
    have "mset (strip (sort_by_power ws)) = mset (strip ws)" by simp
    then show ?thesis using K(1) fin(2) unfolding same_but_prio_strip by presburger
  qed
  moreover have "sorted_wrt power_less (sort_by_power ws)"
    using K(2) ws(1) by (intro sort_by_power_sorted) (simp add: powers_wf_def)
  moreover have "centered (sort_by_power ws)"
  proof -
    have "prio_sum (sort_by_power ws) = prio_sum ws" by (rule sum_list_mset_eq) simp
    then show ?thesis using fin(4) mset_eq_length [OF sort_by_power_mset] by (simp add: centered_def)
  qed
  moreover have "prios_within (2 * power_sum (sort_by_power ws)) (sort_by_power ws)"
    using fin(3) ps set_ws by (simp add: prios_within_def)
  ultimately show ?thesis using ps by (intro that [OF res]) (simp_all add: v1)
qed

section \<open>Properties\<close>

text \<open>C12. On a well-formed set, a non-empty list of changes that all have a key is accepted exactly when
  no address is repeated or empty, every new power is between zero and the maximum, zero powers are
  allowed and name members of the set, and the set overridden by the changes is neither empty nor above
  the maximum total power. An accepted update gives that overridden set up to the proposer priorities,
  strictly sorted by power and then address, well-formed again, with the total cached, the priorities
  centered and within twice the total, and the proposer kept. A rejected one returns an error and leaves
  everything but the cached total as it was. The call never panics.\<close>

theorem validator_update:
  assumes "vset_wf vals" "keys_ok cs" "cs \<noteq> []"
  shows "if changes_ok (Validators vals) cs allowDeletes
    then \<exists>vals'. updateWithChangeSet vals cs allowDeletes = Ok (vals', None) \<and> vset_wf vals' \<and>
      mset (strip (Validators vals')) = mset (strip (override (Validators vals) cs)) \<and>
      sorted_wrt power_less (Validators vals') \<and> centered (Validators vals') \<and>
      prios_within (2 * power_sum (Validators vals')) (Validators vals') \<and>
      totalVotingPower vals' = power_sum (Validators vals') \<and> Proposer vals' = Proposer vals
    else left_unchanged vals (updateWithChangeSet vals cs allowDeletes)"
proof (cases "changes_ok (Validators vals) cs allowDeletes")
  case True
  with updateWithChangeSet_accept [OF assms] show ?thesis by metis
next
  case False
  with updateWithChangeSet_reject [OF assms(1,3)] show ?thesis by simp
qed

definition sample_changes :: "Validator list" where
  "sample_changes = [sample_val 3 0 0, sample_val 4 7 0, sample_val 2 6 0]"

lemma sample_changes_ok: "changes_ok (Validators sample_set) sample_changes True" "keys_ok sample_changes" "sample_changes \<noteq> []"
  by (simp_all add: changes_ok_def sample_changes_def sample_set_def sample_val_def addrs_def override_def
      power_in_range_def keys_ok_def)

theorem validator_update_witness:
  "\<exists>vals'. updateWithChangeSet sample_set sample_changes True = Ok (vals', None) \<and> vset_wf vals' \<and>
     totalVotingPower vals' = 23 \<and>
     mset (strip (Validators vals')) = {#sample_val 1 10 0, sample_val 4 7 0, sample_val 2 6 0#}"
proof -
  have "strip (override (Validators sample_set) sample_changes) = [sample_val 1 10 0, sample_val 4 7 0, sample_val 2 6 0]"
    by (simp add: override_def sample_set_def sample_changes_def sample_val_def addrs_def)
  moreover have "power_sum (override (Validators sample_set) sample_changes) = 23"
    by (simp add: override_def sample_set_def sample_changes_def sample_val_def addrs_def)
  ultimately show ?thesis
    using validator_update [OF sample_set_wf(1) sample_changes_ok(2,3), of True] sample_changes_ok(1) strip_mset_powers(1)
    by (smt (verit) mset.simps add_mset_commute)
qed

definition new_set_ok :: "Validator list \<Rightarrow> bool" where
  "new_set_ok vs \<longleftrightarrow> powers_wf vs \<and> [] \<notin> set (addrs vs)"

lemma empty_set_wf: "vset_wf empty_set"
  by (simp add: vset_wf_def empty_set_def powers_wf_def keys_ok_def prios_within_def addrs_def)

lemma new_set_ok_iff: "vs \<noteq> [] \<Longrightarrow> changes_ok (Validators empty_set) vs False \<longleftrightarrow> new_set_ok vs"
proof -
  assume ne: "vs \<noteq> []"
  have f: "filter (\<lambda>v. VotingPower v \<noteq> 0) vs = vs" if "\<forall>v \<in> set vs. VotingPower v \<noteq> 0" using that by (simp add: filter_id_conv)
  have "VotingPower v \<le> MaxTotalVotingPower" if "powers_wf vs" "v \<in> set vs" for v
    using powers_wf_total [OF that(1)] that(2) by fastforce
  then show ?thesis
    using ne f by (auto simp: changes_ok_def new_set_ok_def empty_set_def override_def addrs_def powers_wf_def power_in_range_def
      order_less_le)
qed

lemma same_but_prio_sorted:
  assumes "same_but_prio vs ws" "sorted_wrt power_less ws"
  shows "sorted_wrt power_less vs"
proof -
  have "power_less (v\<lparr>ProposerPriority := 0\<rparr>) (w\<lparr>ProposerPriority := 0\<rparr>) = power_less v w" for v w
    by (simp add: power_less_def)
  then have "sorted_wrt power_less (strip us) = sorted_wrt power_less us" for us by (simp add: sorted_wrt_map)
  then show ?thesis using assms unfolding same_but_prio_strip by metis
qed

lemma round_robin_index: "round_robin vs ps ws \<Longrightarrow> length ws = length vs \<and> (\<forall>i \<in> set ps. i < length vs)"
proof (induction rule: round_robin.induct)
  case (rr_step i vs ps ws)
  then have "i < length vs" by (simp add: leads_def)
  then show ?case using rr_step same_but_prioD(4) [OF elect_same] by fastforce
qed simp

lemma NewValidatorSet_ok:
  assumes "keys_ok vs" "vs \<noteq> []" "new_set_ok vs"
  obtains vals p where "NewValidatorSet vs = Ok vals" "vset_wf vals" "mset (strip (Validators vals)) = mset (strip vs)"
    "sorted_wrt power_less (Validators vals)" "Proposer vals = Some p" "p \<in> set (Validators vals)"
proof -
  have ov: "override (Validators empty_set) vs = vs"
    using assms(3) by (auto simp: override_def empty_set_def new_set_ok_def powers_wf_def filter_id_conv)
  obtain v0 where v0: "updateWithChangeSet empty_set vs False = Ok (v0, None)" "vset_wf v0"
      "mset (strip (Validators v0)) = mset (strip vs)" "sorted_wrt power_less (Validators v0)"
    using updateWithChangeSet_accept [OF empty_set_wf assms(1,2)] new_set_ok_iff assms(2,3) ov by metis
  have ne: "Validators v0 \<noteq> []" using strip_mset_powers(3) [OF v0(3)] assms(2) by simp
  have "(2 + 1) * power_sum (Validators v0) \<le> 3 * MaxTotalVotingPower"
    using powers_wf_total(2) [of "Validators v0"] v0(2) by (simp add: vset_wf_def)
  then obtain us ps ws where r: "IncrementProposerPriority v0 1 = Ok (v0\<lparr>totalVotingPower := power_sum (Validators v0),
        Validators := ws, Proposer := Some (ws ! last ps)\<rparr>)"
    "same_but_prio us (Validators v0)" "round_robin us ps ws" "int (length ps) = 1" "same_but_prio ws us"
    "in_window (- 2 * power_sum (Validators v0)) ((2 + 1) * power_sum (Validators v0)) ws"
    by (rule IncrementProposerPriority_spec [OF v0(2) ne zero_less_one])
  let ?vals = "v0\<lparr>totalVotingPower := power_sum (Validators v0), Validators := ws, Proposer := Some (ws ! last ps)\<rparr>"
  have same: "same_but_prio ws (Validators v0)" using r(5,2) by (rule same_but_prio_trans)
  note w = same_but_prio_wf [OF same]
  have "prios_within (3 * MaxTotalVotingPower) ws"
    using r(6) powers_wf_total(1,2) [of "Validators v0"] v0(2) by (force simp: in_window_def prios_within_def vset_wf_def)
  then have wf: "vset_wf ?vals" using v0(2) w by (simp add: vset_wf_def)
  have "ps \<noteq> []" using r(4) by auto
  then have "last ps < length ws" using round_robin_index [OF r(3)] by auto
  then have "ws ! last ps \<in> set ws" by simp
  moreover have "NewValidatorSet vs = Ok ?vals" using v0(1) assms(2) r(1) by (simp add: NewValidatorSet_def)
  moreover have "mset (strip ws) = mset (strip vs)" using same v0(3) unfolding same_but_prio_strip by metis
  ultimately show ?thesis using wf same_but_prio_sorted [OF same v0(4)] by (intro that [of ?vals "ws ! last ps"]) simp_all
qed

text \<open>C32. A set is created from any non-empty list of validators with keys, distinct non-empty addresses and
  positive powers whose sum is within the maximum. It holds exactly these validators up to their
  priorities, is well-formed, and already has a proposer, one of its members; from any other list the
  constructor panics, except that an empty list gives the empty set.\<close>

theorem new_validator_set:
  assumes "keys_ok vs"
  shows "if vs = [] then NewValidatorSet vs = Ok empty_set
    else if new_set_ok vs
    then \<exists>vals p. NewValidatorSet vs = Ok vals \<and> vset_wf vals \<and> mset (strip (Validators vals)) = mset (strip vs) \<and>
      sorted_wrt power_less (Validators vals) \<and> Proposer vals = Some p \<and> p \<in> set (Validators vals)
    else \<exists>s. NewValidatorSet vs = Panic s"
proof (cases "vs = []")
  case True
  then show ?thesis by (simp add: NewValidatorSet_def updateWithChangeSet_def)
next
  case ne: False
  show ?thesis
  proof (cases "new_set_ok vs")
    case True
    with NewValidatorSet_ok [OF assms ne] ne show ?thesis by metis
  next
    case False
    then have "left_unchanged empty_set (updateWithChangeSet empty_set vs False)"
      using updateWithChangeSet_reject [OF empty_set_wf ne] new_set_ok_iff [OF ne] by simp
    then show ?thesis using False ne by (auto simp: left_unchanged_def NewValidatorSet_def)
  qed
qed

theorem new_validator_set_witness:
  "\<exists>vals p. NewValidatorSet [sample_val 1 10 0, sample_val 2 5 0] = Ok vals \<and> vset_wf vals \<and> Proposer vals = Some p"
  using new_validator_set [of "[sample_val 1 10 0, sample_val 2 5 0]"]
  by (simp add: keys_ok_def sample_val_def new_set_ok_def powers_wf_def addrs_def) blast

end
