(* ===== verification/BlockTypes.thy ===== *)
theory BlockTypes
  imports MerkleProof Validator BitArray
begin

text \<open>
  Part set headers, block identifiers, headers and commits (\<open>types/part_set.go\<close>, \<open>types/block.go\<close>,
  \<open>types/canonical.go\<close>, \<open>types/encoding_helper.go\<close> and the generated marshalling of their
  messages).

  \<^item> A time is the number of nanoseconds since Go's zero time; the location and the monotonic clock
    reading are not part of it, and no function here reads them.
  \<^item> \<open>env\<close> collects what comes from other modules: the hash and the signatures, and the encoding of
    times and of the wrapper messages of gogoproto.
  \<^item> A protobuf message that has the fields of the struct is the same record; \<open>uint32\<close> values are
    integers that the theorems assume in range.
  \<^item> The chain identifier is the byte string of the Go string.
\<close>

type_synonym go_time = int

record env =
  crypto :: crypto_env
  StdTimeMarshal :: "go_time \<Rightarrow> bytes result"
  StringValue_Marshal :: "bytes \<Rightarrow> bytes result"
  Int64Value_Marshal :: "int \<Rightarrow> bytes result"
  BytesValue_Marshal :: "bytes \<Rightarrow> bytes result"

abbreviation (input) MaxBlockPartsCount :: int where "MaxBlockPartsCount \<equiv> 2049"
abbreviation (input) MaxChainIDLen :: nat where "MaxChainIDLen \<equiv> 50"
abbreviation (input) MaxSignatureSize :: nat where "MaxSignatureSize \<equiv> 64"
abbreviation (input) MaxVoteExtensionSize :: nat where "MaxVoteExtensionSize \<equiv> 1048576"
abbreviation (input) MaxVotesCount :: nat where "MaxVotesCount \<equiv> 10000"
abbreviation (input) BlockProtocol :: int where "BlockProtocol \<equiv> 11"

definition ValidateHash :: "bytes \<Rightarrow> unit result" where
  "ValidateHash h =
     (if length h > 0 \<and> length h \<noteq> tmhash_Size then Err (Errorf ''expected size to be 32 bytes'') else Ok ())"

section \<open>Part set headers and block identifiers\<close>

record PartSetHeader =
  psh_Total :: int
  psh_Hash :: bytes

definition PSH_IsZero :: "PartSetHeader \<Rightarrow> bool" where
  "PSH_IsZero psh \<longleftrightarrow> psh_Total psh = 0 \<and> length (psh_Hash psh) = 0"

definition PSH_Equals :: "PartSetHeader \<Rightarrow> PartSetHeader \<Rightarrow> bool" where
  "PSH_Equals psh other \<longleftrightarrow> psh_Total psh = psh_Total other \<and> psh_Hash psh = psh_Hash other"

definition PSH_ValidateBasic :: "PartSetHeader \<Rightarrow> unit result" where
  "PSH_ValidateBasic psh =
     (if psh_Total psh > MaxBlockPartsCount then Err (Errorf ''total exceeds MaxBlockPartsCount'')
      else map_err (Wrapf ''wrong Hash'') (ValidateHash (psh_Hash psh)))"

definition PSH_ToProto :: "PartSetHeader option \<Rightarrow> PartSetHeader" where
  "PSH_ToProto psh = (case psh of None \<Rightarrow> \<lparr>psh_Total = 0, psh_Hash = []\<rparr>
     | Some p \<Rightarrow> \<lparr>psh_Total = psh_Total p, psh_Hash = psh_Hash p\<rparr>)"

definition PartSetHeaderFromProto :: "PartSetHeader option \<Rightarrow> PartSetHeader result" where
  "PartSetHeaderFromProto ppsh =
     (case ppsh of None \<Rightarrow> Err (Errorf ''nil PartSetHeader'')
      | Some p \<Rightarrow> let psh = \<lparr>psh_Total = psh_Total p, psh_Hash = psh_Hash p\<rparr>
          in bind_out (PSH_ValidateBasic psh) (\<lambda>_. Ok psh))"

definition ProtoPartSetHeaderIsZero :: "PartSetHeader \<Rightarrow> bool" where
  "ProtoPartSetHeaderIsZero ppsh \<longleftrightarrow> psh_Total ppsh = 0 \<and> length (psh_Hash ppsh) = 0"

definition PartSetHeader_Marshal :: "PartSetHeader \<Rightarrow> bytes" where
  "PartSetHeader_Marshal m = pb_varint 0x08 (to_uint64 (psh_Total m)) @ pb_bytes 0x12 (psh_Hash m)"

record BlockID =
  bid_Hash :: bytes
  bid_PartSetHeader :: PartSetHeader

definition empty_BlockID :: BlockID where
  "empty_BlockID = \<lparr>bid_Hash = [], bid_PartSetHeader = \<lparr>psh_Total = 0, psh_Hash = []\<rparr>\<rparr>"

definition BlockID_Equals :: "BlockID \<Rightarrow> BlockID \<Rightarrow> bool" where
  "BlockID_Equals blockID other \<longleftrightarrow>
     bid_Hash blockID = bid_Hash other \<and> PSH_Equals (bid_PartSetHeader blockID) (bid_PartSetHeader other)"

text \<open>\<open>fmt.Sprint\<close> puts no space between two strings.\<close>

definition BlockID_Key :: "BlockID \<Rightarrow> bytes" where
  "BlockID_Key blockID =
     bid_Hash blockID @ PartSetHeader_Marshal (PSH_ToProto (Some (bid_PartSetHeader blockID)))"

definition BlockID_ValidateBasic :: "BlockID \<Rightarrow> unit result" where
  "BlockID_ValidateBasic blockID =
     bind_out (map_err (\<lambda>_. Errorf ''wrong Hash'') (ValidateHash (bid_Hash blockID))) (\<lambda>_.
     map_err (Wrapf ''wrong PartSetHeader'') (PSH_ValidateBasic (bid_PartSetHeader blockID)))"

definition BlockID_IsZero :: "BlockID \<Rightarrow> bool" where
  "BlockID_IsZero blockID \<longleftrightarrow> length (bid_Hash blockID) = 0 \<and> PSH_IsZero (bid_PartSetHeader blockID)"

definition BlockID_IsComplete :: "BlockID \<Rightarrow> bool" where
  "BlockID_IsComplete blockID \<longleftrightarrow>
     length (bid_Hash blockID) = tmhash_Size \<and> psh_Total (bid_PartSetHeader blockID) > 0 \<and>
     length (psh_Hash (bid_PartSetHeader blockID)) = tmhash_Size"

definition BlockID_ToProto :: "BlockID option \<Rightarrow> BlockID" where
  "BlockID_ToProto blockID =
     (case blockID of None \<Rightarrow> empty_BlockID
      | Some b \<Rightarrow> \<lparr>bid_Hash = bid_Hash b, bid_PartSetHeader = PSH_ToProto (Some (bid_PartSetHeader b))\<rparr>)"

definition BlockIDFromProto :: "BlockID option \<Rightarrow> BlockID result" where
  "BlockIDFromProto bID =
     (case bID of None \<Rightarrow> Err (Errorf ''nil BlockID'')
      | Some b \<Rightarrow> bind_out (PartSetHeaderFromProto (Some (bid_PartSetHeader b))) (\<lambda>ph.
          let blockID = \<lparr>bid_Hash = bid_Hash b, bid_PartSetHeader = ph\<rparr>
          in bind_out (BlockID_ValidateBasic blockID) (\<lambda>_. Ok blockID)))"

definition ProtoBlockIDIsNil :: "BlockID \<Rightarrow> bool" where
  "ProtoBlockIDIsNil bID \<longleftrightarrow> length (bid_Hash bID) = 0 \<and> ProtoPartSetHeaderIsZero (bid_PartSetHeader bID)"

definition BlockID_Marshal :: "BlockID \<Rightarrow> bytes" where
  "BlockID_Marshal m =
     pb_bytes 0x0a (bid_Hash m) @ pb_msg 0x12 (PartSetHeader_Marshal (bid_PartSetHeader m))"

section \<open>Canonical block identifiers\<close>

definition CanonicalPartSetHeader_Marshal :: "PartSetHeader \<Rightarrow> bytes" where
  "CanonicalPartSetHeader_Marshal m = pb_varint 0x08 (to_uint64 (psh_Total m)) @ pb_bytes 0x12 (psh_Hash m)"

definition CanonicalBlockID_Marshal :: "BlockID \<Rightarrow> bytes" where
  "CanonicalBlockID_Marshal m =
     pb_bytes 0x0a (bid_Hash m) @ pb_msg 0x12 (CanonicalPartSetHeader_Marshal (bid_PartSetHeader m))"

definition CanonicalizePartSetHeader :: "PartSetHeader \<Rightarrow> PartSetHeader" where
  "CanonicalizePartSetHeader psh = psh"

definition CanonicalizeBlockID :: "BlockID \<Rightarrow> (BlockID option) result" where
  "CanonicalizeBlockID bid =
     (case BlockIDFromProto (Some bid) of
        Err e \<Rightarrow> Panic ''panic(err)''
      | Panic s \<Rightarrow> Panic s
      | Ok rbid \<Rightarrow>
          if BlockID_IsZero rbid then Ok None
          else Ok (Some \<lparr>bid_Hash = bid_Hash bid, bid_PartSetHeader = CanonicalizePartSetHeader (bid_PartSetHeader bid)\<rparr>))"

section \<open>Headers\<close>

record Header =
  h_Version_Block :: int
  h_Version_App :: int
  h_ChainID :: bytes
  h_Height :: int
  h_Time :: go_time
  h_LastBlockID :: BlockID
  h_LastCommitHash :: bytes
  h_DataHash :: bytes
  h_ValidatorsHash :: bytes
  h_NextValidatorsHash :: bytes
  h_ConsensusHash :: bytes
  h_AppHash :: bytes
  h_LastResultsHash :: bytes
  h_EvidenceHash :: bytes
  h_ProposerAddress :: bytes

definition Header_Populate ::
  "Header \<Rightarrow> int \<times> int \<Rightarrow> bytes \<Rightarrow> go_time \<Rightarrow> BlockID \<Rightarrow> bytes \<Rightarrow> bytes \<Rightarrow> bytes \<Rightarrow> bytes \<Rightarrow> bytes \<Rightarrow> bytes \<Rightarrow> Header" where
  "Header_Populate h version chainID timestamp lastBlockID valHash nextValHash consensusHash appHash lastResultsHash proposerAddress =
     h\<lparr>h_Version_Block := fst version, h_Version_App := snd version, h_ChainID := chainID, h_Time := timestamp,
       h_LastBlockID := lastBlockID, h_ValidatorsHash := valHash, h_NextValidatorsHash := nextValHash,
       h_ConsensusHash := consensusHash, h_AppHash := appHash, h_LastResultsHash := lastResultsHash,
       h_ProposerAddress := proposerAddress\<rparr>"

definition Header_ValidateBasic :: "Header \<Rightarrow> unit result" where
  "Header_ValidateBasic h =
     (if h_Version_Block h \<noteq> BlockProtocol then Err (Errorf ''block protocol is incorrect'')
      else if length (h_ChainID h) > MaxChainIDLen then Err (Errorf ''chainID is too long'')
      else if h_Height h < 0 then Err (Errorf ''negative Height'')
      else if h_Height h = 0 then Err (Errorf ''zero Height'')
      else bind_out (map_err (Wrapf ''wrong LastBlockID'') (BlockID_ValidateBasic (h_LastBlockID h))) (\<lambda>_.
           bind_out (map_err (Wrapf ''wrong LastCommitHash'') (ValidateHash (h_LastCommitHash h))) (\<lambda>_.
           bind_out (map_err (Wrapf ''wrong DataHash'') (ValidateHash (h_DataHash h))) (\<lambda>_.
           bind_out (map_err (Wrapf ''wrong EvidenceHash'') (ValidateHash (h_EvidenceHash h))) (\<lambda>_.
           if length (h_ProposerAddress h) \<noteq> AddressSize then Err (Errorf ''invalid ProposerAddress length'')
           else bind_out (map_err (Wrapf ''wrong ValidatorsHash'') (ValidateHash (h_ValidatorsHash h))) (\<lambda>_.
                bind_out (map_err (Wrapf ''wrong NextValidatorsHash'') (ValidateHash (h_NextValidatorsHash h))) (\<lambda>_.
                bind_out (map_err (Wrapf ''wrong ConsensusHash'') (ValidateHash (h_ConsensusHash h))) (\<lambda>_.
                map_err (Wrapf ''wrong LastResultsHash'') (ValidateHash (h_LastResultsHash h))))))))))"

text \<open>\<open>cdcEncode\<close> at the three types it is used with; an error of the encoder gives nil.\<close>

definition nil_on_err :: "bytes result \<Rightarrow> bytes result" where
  "nil_on_err r = (case r of Err e \<Rightarrow> Ok [] | _ \<Rightarrow> r)"

definition cdcEncode_string :: "env \<Rightarrow> bytes \<Rightarrow> bytes result" where
  "cdcEncode_string e item = (if length item = 0 then Ok [] else nil_on_err (StringValue_Marshal e item))"

definition cdcEncode_int64 :: "env \<Rightarrow> int \<Rightarrow> bytes result" where
  "cdcEncode_int64 e item = nil_on_err (Int64Value_Marshal e item)"

definition cdcEncode_bytes :: "env \<Rightarrow> bytes \<Rightarrow> bytes result" where
  "cdcEncode_bytes e item = (if length item = 0 then Ok [] else nil_on_err (BytesValue_Marshal e item))"

definition Consensus_Marshal :: "int \<Rightarrow> int \<Rightarrow> bytes" where
  "Consensus_Marshal blk app = pb_varint 0x08 (to_uint64 blk) @ pb_varint 0x10 (to_uint64 app)"

text \<open>The leaves of the header's Merkle tree, in order.\<close>

definition header_leaves :: "env \<Rightarrow> Header \<Rightarrow> (bytes result) list" where
  "header_leaves e h =
     [Ok (Consensus_Marshal (h_Version_Block h) (h_Version_App h)), cdcEncode_string e (h_ChainID h),
      cdcEncode_int64 e (h_Height h), StdTimeMarshal e (h_Time h),
      Ok (BlockID_Marshal (BlockID_ToProto (Some (h_LastBlockID h)))), cdcEncode_bytes e (h_LastCommitHash h),
      cdcEncode_bytes e (h_DataHash h), cdcEncode_bytes e (h_ValidatorsHash h),
      cdcEncode_bytes e (h_NextValidatorsHash h), cdcEncode_bytes e (h_ConsensusHash h),
      cdcEncode_bytes e (h_AppHash h), cdcEncode_bytes e (h_LastResultsHash h),
      cdcEncode_bytes e (h_EvidenceHash h), cdcEncode_bytes e (h_ProposerAddress h)]"

fun sequence :: "('a result) list \<Rightarrow> ('a list) result" where
  "sequence [] = Ok []"
| "sequence (r # rs) = bind_out r (\<lambda>x. map_out ((#) x) (sequence rs))"

text \<open>A nil hash is the empty byte string.\<close>

definition Header_Hash :: "env \<Rightarrow> Header option \<Rightarrow> bytes result" where
  "Header_Hash e h =
     (case h of None \<Rightarrow> Ok []
      | Some hdr \<Rightarrow>
          if length (h_ValidatorsHash hdr) = 0 then Ok []
          else (case StdTimeMarshal e (h_Time hdr) of
                  Err _ \<Rightarrow> Ok []
                | _ \<Rightarrow> bind_out (sequence (header_leaves e hdr)) (HashFromByteSlices (sha (crypto e)))))"

definition HeaderFromProto :: "Header option \<Rightarrow> Header result" where
  "HeaderFromProto ph =
     (case ph of None \<Rightarrow> Err (Errorf ''nil Header'')
      | Some p \<Rightarrow> bind_out (BlockIDFromProto (Some (h_LastBlockID p))) (\<lambda>bi.
          let h = p\<lparr>h_LastBlockID := bi\<rparr> in bind_out (Header_ValidateBasic h) (\<lambda>_. Ok h)))"

definition Header_ToProto :: "Header option \<Rightarrow> Header option" where
  "Header_ToProto h = map_option (\<lambda>p. p\<lparr>h_LastBlockID := BlockID_ToProto (Some (h_LastBlockID p))\<rparr>) h"

end
