(* ===== verification/Vote.thy ===== *)
theory Vote
  imports BlockTypes
begin

text \<open>
  Votes and proposals (\<open>types/vote.go\<close>, \<open>types/proposal.go\<close>, \<open>types/canonical.go\<close>,
  \<open>types/signed_msg_type.go\<close>, \<open>libs/protoio/writer.go\<close>) and the generated marshalling of what is
  signed. \<open>SignedMsgType\<close> is the protobuf enumeration, an integer.
\<close>

abbreviation (input) PrevoteType :: int where "PrevoteType \<equiv> 1"
abbreviation (input) PrecommitType :: int where "PrecommitType \<equiv> 2"
abbreviation (input) ProposalType :: int where "ProposalType \<equiv> 32"

definition IsVoteTypeValid :: "int \<Rightarrow> bool" where
  "IsVoteTypeValid t \<longleftrightarrow> t = PrevoteType \<or> t = PrecommitType"

record Vote =
  v_Type :: int
  v_Height :: int
  v_Round :: int
  v_BlockID :: BlockID
  v_Timestamp :: go_time
  v_ValidatorAddress :: bytes
  v_ValidatorIndex :: int
  v_Signature :: bytes
  v_Extension :: bytes
  v_ExtensionSignature :: bytes

text \<open>The message has the fields of the struct; only the block identifier is converted.\<close>

definition Vote_ToProto :: "Vote \<Rightarrow> Vote" where
  "Vote_ToProto vote = vote\<lparr>v_BlockID := BlockID_ToProto (Some (v_BlockID vote))\<rparr>"

definition VoteFromProto :: "Vote option \<Rightarrow> Vote result" where
  "VoteFromProto pv =
     (case pv of None \<Rightarrow> Err (Errorf ''nil vote'')
      | Some p \<Rightarrow> bind_out (BlockIDFromProto (Some (v_BlockID p))) (\<lambda>blockID. Ok (p\<lparr>v_BlockID := blockID\<rparr>)))"

section \<open>What is signed\<close>

record CanonicalVote =
  cv_Type :: int
  cv_Height :: int
  cv_Round :: int
  cv_BlockID :: "BlockID option"
  cv_Timestamp :: go_time
  cv_ChainID :: bytes

definition CanonicalizeVote :: "bytes \<Rightarrow> Vote \<Rightarrow> CanonicalVote result" where
  "CanonicalizeVote chainID vote =
     map_out (\<lambda>b. \<lparr>cv_Type = v_Type vote, cv_Height = v_Height vote, cv_Round = v_Round vote, cv_BlockID = b,
                  cv_Timestamp = v_Timestamp vote, cv_ChainID = chainID\<rparr>)
       (CanonicalizeBlockID (v_BlockID vote))"

definition pb_opt :: "byte \<Rightarrow> bytes option \<Rightarrow> bytes" where
  "pb_opt tag m = (case m of None \<Rightarrow> [] | Some bz \<Rightarrow> pb_msg tag bz)"

definition CanonicalVote_Marshal :: "env \<Rightarrow> CanonicalVote \<Rightarrow> bytes result" where
  "CanonicalVote_Marshal e m =
     map_out (\<lambda>t.
       pb_varint 0x08 (to_uint64 (cv_Type m)) @ pb_sfixed64 0x11 (cv_Height m) @ pb_sfixed64 0x19 (cv_Round m) @
       pb_opt 0x22 (map_option CanonicalBlockID_Marshal (cv_BlockID m)) @ pb_msg 0x2a t @ pb_bytes 0x32 (cv_ChainID m))
     (StdTimeMarshal e (cv_Timestamp m))"

text \<open>\<open>protoio.MarshalDelimited\<close> of the bytes of a message.\<close>

definition MarshalDelimited :: "bytes \<Rightarrow> bytes" where
  "MarshalDelimited bz = uvarint (length bz) @ bz"

definition must :: "'a result \<Rightarrow> 'a result" where
  "must r = (case r of Err e \<Rightarrow> Panic ''panic(err)'' | _ \<Rightarrow> r)"

definition VoteSignBytes :: "env \<Rightarrow> bytes \<Rightarrow> Vote \<Rightarrow> bytes result" where
  "VoteSignBytes e chainID vote =
     bind_out (CanonicalizeVote chainID vote) (\<lambda>pb.
     must (map_out MarshalDelimited (CanonicalVote_Marshal e pb)))"

definition VoteExtensionSignBytes :: "bytes \<Rightarrow> Vote \<Rightarrow> bytes" where
  "VoteExtensionSignBytes chainID vote =
     MarshalDelimited (pb_bytes 0x0a (v_Extension vote) @ pb_sfixed64 0x11 (v_Height vote) @
       pb_sfixed64 0x19 (v_Round vote) @ pb_bytes 0x22 chainID)"

record Proposal =
  p_Type :: int
  p_Height :: int
  p_Round :: int
  p_POLRound :: int
  p_BlockID :: BlockID
  p_Timestamp :: go_time
  p_Signature :: bytes

definition NewProposal :: "go_time \<Rightarrow> int \<Rightarrow> int \<Rightarrow> int \<Rightarrow> BlockID \<Rightarrow> Proposal" where
  "NewProposal now height round polRound blockID =
     \<lparr>p_Type = ProposalType, p_Height = height, p_Round = round, p_POLRound = polRound, p_BlockID = blockID,
      p_Timestamp = now, p_Signature = []\<rparr>"

definition Proposal_ValidateBasic :: "Proposal \<Rightarrow> unit result" where
  "Proposal_ValidateBasic p =
     (if p_Type p \<noteq> ProposalType then Err (Errorf ''invalid Type'')
      else if p_Height p < 0 then Err (Errorf ''negative Height'')
      else if p_Round p < 0 then Err (Errorf ''negative Round'')
      else if p_POLRound p < -1 then Err (Errorf ''negative POLRound (exception: -1)'')
      else bind_out (map_err (Wrapf ''wrong BlockID'') (BlockID_ValidateBasic (p_BlockID p))) (\<lambda>_.
           if \<not> BlockID_IsComplete (p_BlockID p) then Err (Errorf ''expected a complete, non-empty BlockID'')
           else if length (p_Signature p) = 0 then Err (Errorf ''signature is missing'')
           else if length (p_Signature p) > MaxSignatureSize then Err (Errorf ''signature is too big'')
           else Ok ()))"

definition CanonicalProposal_Marshal :: "env \<Rightarrow> bytes \<Rightarrow> Proposal \<Rightarrow> BlockID option \<Rightarrow> bytes result" where
  "CanonicalProposal_Marshal e chainID p b =
     map_out (\<lambda>t.
       pb_varint 0x08 (to_uint64 ProposalType) @ pb_sfixed64 0x11 (p_Height p) @ pb_sfixed64 0x19 (p_Round p) @
       pb_varint 0x20 (to_uint64 (p_POLRound p)) @
       pb_opt 0x2a (map_option CanonicalBlockID_Marshal b) @ pb_msg 0x32 t @ pb_bytes 0x3a chainID)
     (StdTimeMarshal e (p_Timestamp p))"

definition ProposalSignBytes :: "env \<Rightarrow> bytes \<Rightarrow> Proposal \<Rightarrow> bytes result" where
  "ProposalSignBytes e chainID p =
     bind_out (CanonicalizeBlockID (p_BlockID p)) (\<lambda>b.
     must (map_out MarshalDelimited (CanonicalProposal_Marshal e chainID p b)))"

definition Proposal_ToProto :: "Proposal \<Rightarrow> Proposal" where
  "Proposal_ToProto p = p\<lparr>p_BlockID := BlockID_ToProto (Some (p_BlockID p))\<rparr>"

definition ProposalFromProto :: "Proposal option \<Rightarrow> Proposal result" where
  "ProposalFromProto pp =
     (case pp of None \<Rightarrow> Err (Errorf ''nil proposal'')
      | Some p \<Rightarrow> bind_out (BlockIDFromProto (Some (p_BlockID p))) (\<lambda>blockID.
          let p' = p\<lparr>p_BlockID := blockID\<rparr> in bind_out (Proposal_ValidateBasic p') (\<lambda>_. Ok p')))"

section \<open>Verifying and validating a vote\<close>

definition verifyAndReturnProto :: "env \<Rightarrow> bytes \<Rightarrow> PubKey \<Rightarrow> Vote \<Rightarrow> Vote result" where
  "verifyAndReturnProto e chainID pubKey vote =
     bind_out (PubKey_Address (crypto e) pubKey) (\<lambda>a.
     if a \<noteq> v_ValidatorAddress vote then Err (Errorf ''invalid validator address'')
     else let v = Vote_ToProto vote in
       bind_out (VoteSignBytes e chainID v) (\<lambda>bz.
       if \<not> VerifySignature (crypto e) pubKey bz (v_Signature vote) then Err (Errorf ''invalid signature'') else Ok v))"

definition Vote_Verify :: "env \<Rightarrow> bytes \<Rightarrow> PubKey \<Rightarrow> Vote \<Rightarrow> unit result" where
  "Vote_Verify e chainID pubKey vote = map_out (\<lambda>_. ()) (verifyAndReturnProto e chainID pubKey vote)"

definition VerifyVoteAndExtension :: "env \<Rightarrow> bytes \<Rightarrow> PubKey \<Rightarrow> Vote \<Rightarrow> unit result" where
  "VerifyVoteAndExtension e chainID pubKey vote =
     bind_out (verifyAndReturnProto e chainID pubKey vote) (\<lambda>v.
     if v_Type vote = PrecommitType \<and> \<not> ProtoBlockIDIsNil (v_BlockID v)
     then if length (v_ExtensionSignature vote) = 0 then Err (Errorf ''expected vote extension signature'')
          else if \<not> VerifySignature (crypto e) pubKey (VoteExtensionSignBytes chainID v) (v_ExtensionSignature vote)
          then Err (Errorf ''invalid signature'')
          else Ok ()
     else Ok ())"

definition VerifyExtension :: "env \<Rightarrow> bytes \<Rightarrow> PubKey \<Rightarrow> Vote \<Rightarrow> unit result" where
  "VerifyExtension e chainID pubKey vote =
     (if v_Type vote \<noteq> PrecommitType \<or> BlockID_IsZero (v_BlockID vote) then Ok ()
      else if \<not> VerifySignature (crypto e) pubKey (VoteExtensionSignBytes chainID (Vote_ToProto vote)) (v_ExtensionSignature vote)
      then Err (Errorf ''invalid signature'') else Ok ())"

definition Vote_ValidateBasic :: "Vote \<Rightarrow> unit result" where
  "Vote_ValidateBasic vote =
     (if \<not> IsVoteTypeValid (v_Type vote) then Err (Errorf ''invalid Type'')
      else if v_Height vote \<le> 0 then Err (Errorf ''negative or zero Height'')
      else if v_Round vote < 0 then Err (Errorf ''negative Round'')
      else bind_out (map_err (Wrapf ''wrong BlockID'') (BlockID_ValidateBasic (v_BlockID vote))) (\<lambda>_.
        if \<not> BlockID_IsZero (v_BlockID vote) \<and> \<not> BlockID_IsComplete (v_BlockID vote)
        then Err (Errorf ''blockID must be either empty or complete'')
        else if length (v_ValidatorAddress vote) \<noteq> AddressSize then Err (Errorf ''expected ValidatorAddress size'')
        else if v_ValidatorIndex vote < 0 then Err (Errorf ''negative ValidatorIndex'')
        else if length (v_Signature vote) = 0 then Err (Errorf ''signature is missing'')
        else if length (v_Signature vote) > MaxSignatureSize then Err (Errorf ''signature is too big'')
        else if (v_Type vote \<noteq> PrecommitType \<or> BlockID_IsZero (v_BlockID vote)) \<and> length (v_Extension vote) > 0
        then Err (Errorf ''unexpected vote extension'')
        else if (v_Type vote \<noteq> PrecommitType \<or> BlockID_IsZero (v_BlockID vote)) \<and> length (v_ExtensionSignature vote) > 0
        then Err (Errorf ''unexpected vote extension signature'')
        else if v_Type vote = PrecommitType \<and> \<not> BlockID_IsZero (v_BlockID vote) \<and>
                length (v_ExtensionSignature vote) > MaxSignatureSize
        then Err (Errorf ''vote extension signature is too big'')
        else if v_Type vote = PrecommitType \<and> \<not> BlockID_IsZero (v_BlockID vote) \<and>
                length (v_ExtensionSignature vote) = 0 \<and> length (v_Extension vote) \<noteq> 0
        then Err (Errorf ''vote extension signature absent on vote with extension'')
        else Ok ()))"

definition Vote_EnsureExtension :: "Vote \<Rightarrow> unit result" where
  "Vote_EnsureExtension vote =
     (if v_Type vote \<noteq> PrecommitType then Ok ()
      else if BlockID_IsZero (v_BlockID vote) then Ok ()
      else if length (v_ExtensionSignature vote) > 0 then Ok ()
      else Err (Errorf ''vote extension absent''))"

text \<open>
  Signing a vote with a private validator, a parameter that gives back the signed message. The boolean
  says whether the error is recoverable; the vote is returned as it is left.
\<close>

definition SignAndCheckVote :: "(bytes \<Rightarrow> Vote \<Rightarrow> Vote result) \<Rightarrow> Vote \<Rightarrow> bytes \<Rightarrow> bool \<Rightarrow> (Vote \<times> bool \<times> go_error option) result" where
  "SignAndCheckVote signVote vote chainID extensionsEnabled =
     (case signVote chainID (Vote_ToProto vote) of
        Panic s \<Rightarrow> Panic s
      | Err e \<Rightarrow> Ok (vote, True, Some e)
      | Ok v \<Rightarrow>
          let vote = vote\<lparr>v_Signature := v_Signature v\<rparr>;
              isPrecommit = (v_Type vote = PrecommitType);
              isNil = BlockID_IsZero (v_BlockID vote);
              extSignature = (length (v_ExtensionSignature v) > 0);
              invalid = Errorf ''extensions must be present IFF vote is a non-nil Precommit''
          in if \<not> isPrecommit \<and> extensionsEnabled then Ok (vote, False, Some invalid)
             else if extSignature \<and> (\<not> isPrecommit \<or> isNil) then Ok (vote, False, Some invalid)
             else let vote = vote\<lparr>v_ExtensionSignature := []\<rparr>
                  in if extensionsEnabled \<and> \<not> extSignature \<and> isPrecommit \<and> \<not> isNil
                     then Ok (vote, False, Some invalid)
                     else let vote = (if extensionsEnabled then vote\<lparr>v_ExtensionSignature := v_ExtensionSignature v\<rparr> else vote)
                          in Ok (vote\<lparr>v_Timestamp := v_Timestamp v\<rparr>, True, None))"

section \<open>Block identifiers\<close>

text \<open>A \<open>uint32\<close> value.\<close>

definition is_u32 :: "int \<Rightarrow> bool" where
  "is_u32 x \<longleftrightarrow> 0 \<le> x \<and> x < 4294967296"

definition bid_in_range :: "BlockID \<Rightarrow> bool" where
  "bid_in_range b \<longleftrightarrow> is_u32 (psh_Total (bid_PartSetHeader b))"

lemma is_u32_i64 [simp]: "is_u32 x \<Longrightarrow> is_i64 x"
  by (simp add: is_u32_def is_i64_def)

lemma is_i32_i64 [simp]: "is_i32 x \<Longrightarrow> is_i64 x"
  by (simp add: is_i32_def is_i64_def)

lemma BlockID_Equals_iff [simp]: "BlockID_Equals a b \<longleftrightarrow> a = b"
  by (cases a; cases b; cases "bid_PartSetHeader a"; cases "bid_PartSetHeader b")
     (auto simp: BlockID_Equals_def PSH_Equals_def)

lemma BlockID_IsZero_iff: "BlockID_IsZero b \<longleftrightarrow> b = empty_BlockID"
  by (cases b; cases "bid_PartSetHeader b") (auto simp: BlockID_IsZero_def PSH_IsZero_def empty_BlockID_def)

lemma BlockID_ToProto_id [simp]: "BlockID_ToProto (Some b) = b"
  by (cases b; cases "bid_PartSetHeader b") (simp add: BlockID_ToProto_def PSH_ToProto_def)

lemma Vote_ToProto_id [simp]: "Vote_ToProto v = v"
  by (simp add: Vote_ToProto_def)

lemma zero_not_complete: "BlockID_IsZero b \<Longrightarrow> \<not> BlockID_IsComplete b"
  by (simp add: BlockID_IsZero_def BlockID_IsComplete_def)

lemma BlockIDFromProto_ok: "BlockIDFromProto (Some b) = Ok c \<Longrightarrow> c = b \<and> BlockID_ValidateBasic b = Ok ()"
  by (cases b; cases "bid_PartSetHeader b") (auto simp: BlockIDFromProto_def PartSetHeaderFromProto_def Let_def)

lemma CanonicalizeBlockID_ok:
  "CanonicalizeBlockID b = Ok c \<Longrightarrow> c = (if BlockID_IsZero b then None else Some b)"
proof -
  assume *: "CanonicalizeBlockID b = Ok c"
  then obtain r where r: "BlockIDFromProto (Some b) = Ok r" by (cases "BlockIDFromProto (Some b)") (auto simp: CanonicalizeBlockID_def)
  then have "r = b" using BlockIDFromProto_ok by blast
  then show ?thesis using * r by (cases b) (auto simp: CanonicalizeBlockID_def CanonicalizePartSetHeader_def split: if_splits)
qed

lemma PartSetHeader_Marshal_prefix:
  assumes "PartSetHeader_Marshal p = PartSetHeader_Marshal q" "is_u32 (psh_Total p)" "is_u32 (psh_Total q)"
  shows "p = q"
proof -
  have "to_uint64 (psh_Total p) = to_uint64 (psh_Total q) \<and> pb_bytes 0x12 (psh_Hash p) = pb_bytes 0x12 (psh_Hash q)"
    using assms(1) unfolding PartSetHeader_Marshal_def
    by (rule pb_varint_prefix) (auto simp: free_of_fields(4) [of _ _ _ "[]", simplified])
  then show ?thesis using assms(2,3) to_uint64_inj pb_bytes_inj by (cases p; cases q) auto
qed

lemma CanonicalPartSetHeader_Marshal_eq: "CanonicalPartSetHeader_Marshal = PartSetHeader_Marshal"
  by (simp add: fun_eq_iff CanonicalPartSetHeader_Marshal_def PartSetHeader_Marshal_def)

lemma CanonicalBlockID_Marshal_eq: "CanonicalBlockID_Marshal = BlockID_Marshal"
  by (simp add: fun_eq_iff CanonicalBlockID_Marshal_def BlockID_Marshal_def CanonicalPartSetHeader_Marshal_eq)

lemma BlockID_Marshal_inj:
  assumes "BlockID_Marshal a = BlockID_Marshal b" "bid_in_range a" "bid_in_range b"
  shows "a = b"
proof -
  have "bid_Hash a = bid_Hash b \<and> pb_msg 0x12 (PartSetHeader_Marshal (bid_PartSetHeader a)) = pb_msg 0x12 (PartSetHeader_Marshal (bid_PartSetHeader b))"
    using assms(1) unfolding BlockID_Marshal_def
    by (rule pb_bytes_prefix) (auto simp: free_of_fields(3) [of _ _ _ "[]", simplified])
  then have "bid_Hash a = bid_Hash b" "bid_PartSetHeader a = bid_PartSetHeader b"
    using pb_msg_inj PartSetHeader_Marshal_prefix assms(2,3) by (auto simp: bid_in_range_def)
  then show ?thesis by (cases a; cases b) auto
qed

text \<open>
  The key under which a vote set files a block tells zero and complete identifiers apart; arbitrary
  ones it does not.
\<close>

lemma BlockID_Key_inj:
  assumes "BlockID_Key a = BlockID_Key b" "bid_in_range a" "bid_in_range b"
    "BlockID_IsZero a \<or> BlockID_IsComplete a" "BlockID_IsZero b \<or> BlockID_IsComplete b"
  shows "a = b"
proof -
  have k: "BlockID_Key c = bid_Hash c @ PartSetHeader_Marshal (bid_PartSetHeader c)" for c
    by (cases "bid_PartSetHeader c") (simp add: BlockID_Key_def PSH_ToProto_def)
  have z: "BlockID_Key c = []" if "BlockID_IsZero c" for c
    using that by (auto simp: k BlockID_IsZero_def PSH_IsZero_def PartSetHeader_Marshal_def pb_varint_def pb_bytes_def to_uint64_def)
  have nz: "BlockID_Key c \<noteq> []" if "BlockID_IsComplete c" for c
    using that by (auto simp: k BlockID_IsComplete_def)
  consider "BlockID_IsZero a" "BlockID_IsZero b" | "BlockID_IsComplete a" "BlockID_IsComplete b"
    using assms(1,4,5) z nz by metis
  then show ?thesis
  proof cases
    case 1
    then show ?thesis by (simp add: BlockID_IsZero_iff)
  next
    case 2
    then have "length (bid_Hash a) = length (bid_Hash b)" by (simp add: BlockID_IsComplete_def)
    then have "bid_Hash a = bid_Hash b" "PartSetHeader_Marshal (bid_PartSetHeader a) = PartSetHeader_Marshal (bid_PartSetHeader b)"
      using assms(1) by (simp_all add: k)
    then show ?thesis using PartSetHeader_Marshal_prefix assms(2,3) by (cases a; cases b) (auto simp: bid_in_range_def)
  qed
qed

section \<open>Sign bytes\<close>

lemma MarshalDelimited_inj: "MarshalDelimited a = MarshalDelimited b \<longleftrightarrow> a = b"
  using uvarint_prefix [of "length a" a "length b" b] by (auto simp: MarshalDelimited_def)

lemma must_Ok [simp]: "must r = Ok x \<longleftrightarrow> r = Ok x"
  by (cases r) (auto simp: must_def)

lemma free_of_opt [simp]: "free_of t (pb_opt u m @ xs) \<longleftrightarrow> (if m = None then free_of t xs else t \<noteq> u)"
  by (cases m) (auto simp: pb_opt_def)

lemma pb_opt_prefix:
  assumes "pb_opt t m @ xs = pb_opt t m' @ ys" "free_of t xs" "free_of t ys"
  shows "m = m' \<and> xs = ys"
proof (cases m)
  case None
  then show ?thesis using assms by (cases m') (auto simp: pb_opt_def pb_msg_def free_of_def)
next
  case (Some bz)
  then obtain bz' where "m' = Some bz'" using assms by (cases m') (auto simp: pb_opt_def pb_msg_def free_of_def)
  then show ?thesis using Some assms(1) pb_msg_prefix [of t bz xs bz' ys] by (simp add: pb_opt_def)
qed

lemma free_of_bytes [simp]: "free_of t (pb_bytes u bz) \<longleftrightarrow> bz = [] \<or> t \<noteq> u"
  using free_of_fields(4) [of t u bz "[]"] by simp

text \<open>The form the signed messages share: a type, a height and a round, then the rest.\<close>

lemma hrs_prefix:
  assumes "pb_varint 0x08 t @ pb_sfixed64 0x11 h @ pb_sfixed64 0x19 r @ xs =
           pb_varint 0x08 t' @ pb_sfixed64 0x11 h' @ pb_sfixed64 0x19 r' @ ys"
    "is_i64 h" "is_i64 h'" "is_i64 r" "is_i64 r'"
    "\<And>tag. tag \<in> {0x08, 0x11, 0x19} \<Longrightarrow> free_of tag xs" "\<And>tag. tag \<in> {0x08, 0x11, 0x19} \<Longrightarrow> free_of tag ys"
  shows "t = t' \<and> h = h' \<and> r = r' \<and> xs = ys"
proof -
  have f: "free_of 0x08 xs" "free_of 0x11 xs" "free_of 0x19 xs" "free_of 0x08 ys" "free_of 0x11 ys" "free_of 0x19 ys"
    using assms(6,7) by auto
  have 1: "t = t' \<and> pb_sfixed64 0x11 h @ pb_sfixed64 0x19 r @ xs = pb_sfixed64 0x11 h' @ pb_sfixed64 0x19 r' @ ys"
    using assms(1) by (rule pb_varint_prefix) (use f in auto)
  have 2: "h = h' \<and> pb_sfixed64 0x19 r @ xs = pb_sfixed64 0x19 r' @ ys"
    using 1 [THEN conjunct2] by (rule pb_sfixed64_prefix) (use f assms(2,3) in auto)
  have "r = r' \<and> xs = ys" using 2 [THEN conjunct2] by (rule pb_sfixed64_prefix) (use f assms(4,5) in auto)
  then show ?thesis using 1 2 by simp
qed

definition vote_in_range :: "Vote \<Rightarrow> bool" where
  "vote_in_range v \<longleftrightarrow> is_i32 (v_Type v) \<and> is_i64 (v_Height v) \<and> is_i32 (v_Round v) \<and> bid_in_range (v_BlockID v)"

definition proposal_in_range :: "Proposal \<Rightarrow> bool" where
  "proposal_in_range p \<longleftrightarrow> is_i64 (p_Height p) \<and> is_i32 (p_Round p) \<and> is_i32 (p_POLRound p) \<and> bid_in_range (p_BlockID p)"

abbreviation canonical_bid :: "BlockID \<Rightarrow> bytes option" where
  "canonical_bid b \<equiv> (if BlockID_IsZero b then None else Some (BlockID_Marshal b))"

lemma canonical_bid_inj:
  assumes "canonical_bid a = canonical_bid b" "bid_in_range a" "bid_in_range b"
  shows "a = b"
  using assms BlockID_Marshal_inj by (auto simp: BlockID_IsZero_iff split: if_splits)

lemma VoteSignBytes_Ok:
  assumes "VoteSignBytes e c v = Ok bz"
  obtains t where "StdTimeMarshal e (v_Timestamp v) = Ok t" "bz = MarshalDelimited
    (pb_varint 0x08 (to_uint64 (v_Type v)) @ pb_sfixed64 0x11 (v_Height v) @ pb_sfixed64 0x19 (v_Round v) @
     pb_opt 0x22 (canonical_bid (v_BlockID v)) @ pb_msg 0x2a t @ pb_bytes 0x32 c)"
proof -
  obtain b where b: "CanonicalizeBlockID (v_BlockID v) = Ok b"
    using assms by (auto simp: VoteSignBytes_def CanonicalizeVote_def)
  note b' = CanonicalizeBlockID_ok [OF b]
  show ?thesis
    using assms b b' that
    by (auto simp: VoteSignBytes_def CanonicalizeVote_def CanonicalVote_Marshal_def CanonicalBlockID_Marshal_eq split: if_splits)
qed

lemma ProposalSignBytes_Ok:
  assumes "ProposalSignBytes e c p = Ok bz"
  obtains t where "StdTimeMarshal e (p_Timestamp p) = Ok t" "bz = MarshalDelimited
    (pb_varint 0x08 (to_uint64 ProposalType) @ pb_sfixed64 0x11 (p_Height p) @ pb_sfixed64 0x19 (p_Round p) @
     pb_varint 0x20 (to_uint64 (p_POLRound p)) @
     pb_opt 0x2a (canonical_bid (p_BlockID p)) @ pb_msg 0x32 t @ pb_bytes 0x3a c)"
proof -
  obtain b where b: "CanonicalizeBlockID (p_BlockID p) = Ok b"
    using assms by (auto simp: ProposalSignBytes_def)
  note b' = CanonicalizeBlockID_ok [OF b]
  show ?thesis
    using assms b b' that
    by (auto simp: ProposalSignBytes_def CanonicalProposal_Marshal_def CanonicalBlockID_Marshal_eq split: if_splits)
qed

text \<open>The encoding of times, documented to be the protobuf timestamp, determines the time.\<close>

definition time_encoding_inj :: "env \<Rightarrow> bool" where
  "time_encoding_inj e \<longleftrightarrow> (\<forall>t t' b. StdTimeMarshal e t = Ok b \<and> StdTimeMarshal e t' = Ok b \<longrightarrow> t = t')"

lemma VoteSignBytes_inj:
  assumes inj: "time_encoding_inj e" and r: "vote_in_range v" "vote_in_range w"
    and s: "VoteSignBytes e c v = Ok bz" "VoteSignBytes e d w = Ok bz"
  shows "c = d \<and> v_Type v = v_Type w \<and> v_Height v = v_Height w \<and> v_Round v = v_Round w \<and>
    v_BlockID v = v_BlockID w \<and> v_Timestamp v = v_Timestamp w"
proof -
  obtain t where t: "StdTimeMarshal e (v_Timestamp v) = Ok t" "bz = MarshalDelimited
    (pb_varint 0x08 (to_uint64 (v_Type v)) @ pb_sfixed64 0x11 (v_Height v) @ pb_sfixed64 0x19 (v_Round v) @
     pb_opt 0x22 (canonical_bid (v_BlockID v)) @ pb_msg 0x2a t @ pb_bytes 0x32 c)"
    using s(1) by (rule VoteSignBytes_Ok)
  obtain u where u: "StdTimeMarshal e (v_Timestamp w) = Ok u" "bz = MarshalDelimited
    (pb_varint 0x08 (to_uint64 (v_Type w)) @ pb_sfixed64 0x11 (v_Height w) @ pb_sfixed64 0x19 (v_Round w) @
     pb_opt 0x22 (canonical_bid (v_BlockID w)) @ pb_msg 0x2a u @ pb_bytes 0x32 d)"
    using s(2) by (rule VoteSignBytes_Ok)
  have i: "is_i64 (v_Type v)" "is_i64 (v_Type w)" "is_i64 (v_Height v)" "is_i64 (v_Height w)" "is_i64 (v_Round v)" "is_i64 (v_Round w)"
    "bid_in_range (v_BlockID v)" "bid_in_range (v_BlockID w)" using r by (simp_all add: vote_in_range_def)
  have "to_uint64 (v_Type v) = to_uint64 (v_Type w) \<and> v_Height v = v_Height w \<and> v_Round v = v_Round w \<and>
      pb_opt 0x22 (canonical_bid (v_BlockID v)) @ pb_msg 0x2a t @ pb_bytes 0x32 c =
      pb_opt 0x22 (canonical_bid (v_BlockID w)) @ pb_msg 0x2a u @ pb_bytes 0x32 d"
    using t(2) u(2) i by (intro hrs_prefix) (auto simp: MarshalDelimited_inj)
  then have h: "to_uint64 (v_Type v) = to_uint64 (v_Type w)" "v_Height v = v_Height w" "v_Round v = v_Round w"
    and rest: "pb_opt 0x22 (canonical_bid (v_BlockID v)) @ pb_msg 0x2a t @ pb_bytes 0x32 c =
      pb_opt 0x22 (canonical_bid (v_BlockID w)) @ pb_msg 0x2a u @ pb_bytes 0x32 d" by auto
  have b: "canonical_bid (v_BlockID v) = canonical_bid (v_BlockID w) \<and> pb_msg 0x2a t @ pb_bytes 0x32 c = pb_msg 0x2a u @ pb_bytes 0x32 d"
    using rest by (rule pb_opt_prefix) simp_all
  have "t = u \<and> pb_bytes 0x32 c = pb_bytes 0x32 d" using b [THEN conjunct2] by (rule pb_msg_prefix)
  then have "v_Timestamp v = v_Timestamp w" "c = d"
    using inj t(1) u(1) pb_bytes_inj unfolding time_encoding_inj_def by blast+
  then show ?thesis using h to_uint64_inj i canonical_bid_inj b by blast
qed

lemma ProposalSignBytes_inj:
  assumes inj: "time_encoding_inj e" and r: "proposal_in_range p" "proposal_in_range q"
    and s: "ProposalSignBytes e c p = Ok bz" "ProposalSignBytes e d q = Ok bz"
  shows "c = d \<and> p_Height p = p_Height q \<and> p_Round p = p_Round q \<and> p_POLRound p = p_POLRound q \<and>
    p_BlockID p = p_BlockID q \<and> p_Timestamp p = p_Timestamp q"
proof -
  obtain t where t: "StdTimeMarshal e (p_Timestamp p) = Ok t" "bz = MarshalDelimited
    (pb_varint 0x08 (to_uint64 ProposalType) @ pb_sfixed64 0x11 (p_Height p) @ pb_sfixed64 0x19 (p_Round p) @
     pb_varint 0x20 (to_uint64 (p_POLRound p)) @ pb_opt 0x2a (canonical_bid (p_BlockID p)) @ pb_msg 0x32 t @ pb_bytes 0x3a c)"
    using s(1) by (rule ProposalSignBytes_Ok)
  obtain u where u: "StdTimeMarshal e (p_Timestamp q) = Ok u" "bz = MarshalDelimited
    (pb_varint 0x08 (to_uint64 ProposalType) @ pb_sfixed64 0x11 (p_Height q) @ pb_sfixed64 0x19 (p_Round q) @
     pb_varint 0x20 (to_uint64 (p_POLRound q)) @ pb_opt 0x2a (canonical_bid (p_BlockID q)) @ pb_msg 0x32 u @ pb_bytes 0x3a d)"
    using s(2) by (rule ProposalSignBytes_Ok)
  have i: "is_i64 (p_Height p)" "is_i64 (p_Height q)" "is_i64 (p_Round p)" "is_i64 (p_Round q)" "is_i64 (p_POLRound p)" "is_i64 (p_POLRound q)"
    "bid_in_range (p_BlockID p)" "bid_in_range (p_BlockID q)" using r by (simp_all add: proposal_in_range_def)
  have "to_uint64 ProposalType = to_uint64 ProposalType \<and> p_Height p = p_Height q \<and> p_Round p = p_Round q \<and>
      pb_varint 0x20 (to_uint64 (p_POLRound p)) @ pb_opt 0x2a (canonical_bid (p_BlockID p)) @ pb_msg 0x32 t @ pb_bytes 0x3a c =
      pb_varint 0x20 (to_uint64 (p_POLRound q)) @ pb_opt 0x2a (canonical_bid (p_BlockID q)) @ pb_msg 0x32 u @ pb_bytes 0x3a d"
    using t(2) u(2) i by (intro hrs_prefix) (auto simp: MarshalDelimited_inj)
  then have h: "p_Height p = p_Height q" "p_Round p = p_Round q"
    and rest: "pb_varint 0x20 (to_uint64 (p_POLRound p)) @ pb_opt 0x2a (canonical_bid (p_BlockID p)) @ pb_msg 0x32 t @ pb_bytes 0x3a c =
      pb_varint 0x20 (to_uint64 (p_POLRound q)) @ pb_opt 0x2a (canonical_bid (p_BlockID q)) @ pb_msg 0x32 u @ pb_bytes 0x3a d" by auto
  have l: "to_uint64 (p_POLRound p) = to_uint64 (p_POLRound q) \<and> pb_opt 0x2a (canonical_bid (p_BlockID p)) @ pb_msg 0x32 t @ pb_bytes 0x3a c =
      pb_opt 0x2a (canonical_bid (p_BlockID q)) @ pb_msg 0x32 u @ pb_bytes 0x3a d"
    using rest by (rule pb_varint_prefix) auto
  have b: "canonical_bid (p_BlockID p) = canonical_bid (p_BlockID q) \<and> pb_msg 0x32 t @ pb_bytes 0x3a c = pb_msg 0x32 u @ pb_bytes 0x3a d"
    using l [THEN conjunct2] by (rule pb_opt_prefix) simp_all
  have "t = u \<and> pb_bytes 0x3a c = pb_bytes 0x3a d" using b [THEN conjunct2] by (rule pb_msg_prefix)
  then have "p_Timestamp p = p_Timestamp q" "c = d"
    using inj t(1) u(1) pb_bytes_inj unfolding time_encoding_inj_def by blast+
  then show ?thesis using h l to_uint64_inj i canonical_bid_inj b by blast
qed

lemma vote_proposal_differ:
  assumes "vote_in_range v" "proposal_in_range p" "IsVoteTypeValid (v_Type v)"
    and s: "VoteSignBytes e c v = Ok bz" "ProposalSignBytes e' d p = Ok bz'"
  shows "bz \<noteq> bz'"
proof
  assume eq: "bz = bz'"
  obtain t where t: "StdTimeMarshal e (v_Timestamp v) = Ok t" "bz = MarshalDelimited
    (pb_varint 0x08 (to_uint64 (v_Type v)) @ pb_sfixed64 0x11 (v_Height v) @ pb_sfixed64 0x19 (v_Round v) @
     pb_opt 0x22 (canonical_bid (v_BlockID v)) @ pb_msg 0x2a t @ pb_bytes 0x32 c)"
    using s(1) by (rule VoteSignBytes_Ok)
  obtain u where u: "StdTimeMarshal e' (p_Timestamp p) = Ok u" "bz' = MarshalDelimited
    (pb_varint 0x08 (to_uint64 ProposalType) @ pb_sfixed64 0x11 (p_Height p) @ pb_sfixed64 0x19 (p_Round p) @
     pb_varint 0x20 (to_uint64 (p_POLRound p)) @ pb_opt 0x2a (canonical_bid (p_BlockID p)) @ pb_msg 0x32 u @ pb_bytes 0x3a d)"
    using s(2) by (rule ProposalSignBytes_Ok)
  have "to_uint64 (v_Type v) = to_uint64 ProposalType \<and> v_Height v = p_Height p \<and> v_Round v = p_Round p \<and>
      pb_opt 0x22 (canonical_bid (v_BlockID v)) @ pb_msg 0x2a t @ pb_bytes 0x32 c =
      pb_varint 0x20 (to_uint64 (p_POLRound p)) @ pb_opt 0x2a (canonical_bid (p_BlockID p)) @ pb_msg 0x32 u @ pb_bytes 0x3a d"
    using t(2) u(2) eq assms(1,2)
    by (intro hrs_prefix) (auto simp: MarshalDelimited_inj vote_in_range_def proposal_in_range_def)
  then show False using assms(3) by (auto simp: IsVoteTypeValid_def to_uint64_def)
qed

lemma extension_differs:
  assumes "n \<noteq> 0"
  shows "MarshalDelimited (pb_varint 0x08 n @ xs) \<noteq> VoteExtensionSignBytes c w"
proof -
  have "hd (pb_varint 0x08 n @ xs) = 0x08" using assms by (simp add: pb_varint_def)
  moreover have "free_of 0x08 (pb_bytes 0x0a (v_Extension w) @ pb_sfixed64 0x11 (v_Height w) @ pb_sfixed64 0x19 (v_Round w) @ pb_bytes 0x22 c)"
    by simp
  moreover have "pb_varint 0x08 n @ xs \<noteq> []" using assms by (simp add: pb_varint_def)
  ultimately show ?thesis unfolding VoteExtensionSignBytes_def MarshalDelimited_inj free_of_def by metis
qed

section \<open>Properties\<close>

text \<open>C21. What a validator signs determines what it voted for: if the sign bytes of two votes are equal, the
  votes agree on the chain, the type, the height, the round, the block and the time, and the same holds
  for two proposals and their proof-of-lock round. The values are those a Go vote or proposal can hold,
  and the encoding of times is assumed to determine the time.\<close>

theorem sign_bytes_injective:
  assumes "time_encoding_inj e"
  shows "(vote_in_range v \<and> vote_in_range w \<and> VoteSignBytes e c v = Ok bz \<and> VoteSignBytes e d w = Ok bz \<longrightarrow>
      c = d \<and> v_Type v = v_Type w \<and> v_Height v = v_Height w \<and> v_Round v = v_Round w \<and>
      v_BlockID v = v_BlockID w \<and> v_Timestamp v = v_Timestamp w) \<and>
    (proposal_in_range p \<and> proposal_in_range q \<and> ProposalSignBytes e c p = Ok bz \<and> ProposalSignBytes e d q = Ok bz \<longrightarrow>
      c = d \<and> p_Height p = p_Height q \<and> p_Round p = p_Round q \<and> p_POLRound p = p_POLRound q \<and>
      p_BlockID p = p_BlockID q \<and> p_Timestamp p = p_Timestamp q)"
  using VoteSignBytes_inj [OF assms] ProposalSignBytes_inj [OF assms] by blast

definition toy_crypto :: crypto_env where
  "toy_crypto = \<lparr>sha = toy_hash, ripemd160 = toy_hash, curve_verify = (\<lambda>pk m s. s = m)\<rparr>"

definition zigzag :: "int \<Rightarrow> nat" where
  "zigzag t = nat (if t < 0 then - 2 * t - 1 else 2 * t)"

definition toy_env :: env where
  "toy_env = \<lparr>crypto = toy_crypto, StdTimeMarshal = (\<lambda>t. Ok (uvarint (zigzag t))),
     StringValue_Marshal = (\<lambda>s. Ok (pb_bytes 0x0a s)), Int64Value_Marshal = (\<lambda>x. Ok (pb_varint 0x08 (to_uint64 x))),
     BytesValue_Marshal = (\<lambda>s. Ok (pb_bytes 0x0a s))\<rparr>"

lemma CanonicalizeBlockID_empty: "CanonicalizeBlockID empty_BlockID = Ok None"
  by (simp add: CanonicalizeBlockID_def BlockIDFromProto_def PartSetHeaderFromProto_def BlockID_ValidateBasic_def
    PSH_ValidateBasic_def ValidateHash_def empty_BlockID_def BlockID_IsZero_def PSH_IsZero_def Let_def)

lemma zigzag_inj: "zigzag t = zigzag t' \<Longrightarrow> t = t'"
proof -
  assume "zigzag t = zigzag t'"
  then have "(if t < 0 then - 2 * t - 1 else 2 * t) = (if t' < 0 then - 2 * t' - 1 else 2 * t')"
    unfolding zigzag_def by (subst (asm) eq_nat_nat_iff) auto
  then show ?thesis by presburger
qed

lemma toy_env_time: "time_encoding_inj toy_env"
  unfolding time_encoding_inj_def toy_env_def by (auto dest: uvarint_inj zigzag_inj)

definition sample_vote :: Vote where
  "sample_vote = \<lparr>v_Type = 2, v_Height = 5, v_Round = 0, v_BlockID = empty_BlockID, v_Timestamp = 7,
     v_ValidatorAddress = replicate 20 1, v_ValidatorIndex = 0, v_Signature = [1], v_Extension = [], v_ExtensionSignature = []\<rparr>"

theorem sign_bytes_injective_witness:
  "vote_in_range sample_vote \<and>
   VoteSignBytes toy_env [99] sample_vote \<noteq> VoteSignBytes toy_env [99] (sample_vote\<lparr>v_Height := 6\<rparr>)"
proof -
  have r: "vote_in_range sample_vote" "vote_in_range (sample_vote\<lparr>v_Height := 6\<rparr>)"
    by (simp_all add: vote_in_range_def sample_vote_def is_i32_def is_i64_def bid_in_range_def is_u32_def empty_BlockID_def)
  have "\<exists>b. VoteSignBytes toy_env [99] sample_vote = Ok b"
    by (simp add: VoteSignBytes_def CanonicalizeVote_def CanonicalizeBlockID_empty sample_vote_def CanonicalVote_Marshal_def toy_env_def)
  then obtain b where b: "VoteSignBytes toy_env [99] sample_vote = Ok b" ..
  have "VoteSignBytes toy_env [99] (sample_vote\<lparr>v_Height := 6\<rparr>) \<noteq> Ok b"
    using sign_bytes_injective [OF toy_env_time, of sample_vote "sample_vote\<lparr>v_Height := 6\<rparr>" "[99]" b "[99]"] r b
    by (auto simp: sample_vote_def)
  then show ?thesis using b r by auto
qed

text \<open>C22. A signature for one kind of message is never one for another: the sign bytes of a vote of a valid
  type, of a proposal and of a vote extension are different, whatever the messages and the chains.\<close>

theorem sign_bytes_separated:
  assumes "vote_in_range v" "proposal_in_range p" "IsVoteTypeValid (v_Type v)"
    "VoteSignBytes e c v = Ok bz" "ProposalSignBytes e d p = Ok bz'"
  shows "bz \<noteq> bz' \<and> bz \<noteq> VoteExtensionSignBytes c' w \<and> bz' \<noteq> VoteExtensionSignBytes c' w"
proof -
  have "to_uint64 (v_Type v) \<noteq> 0" "to_uint64 ProposalType \<noteq> 0" using assms(3) by (auto simp: IsVoteTypeValid_def to_uint64_def)
  note n = this
  have "bz \<noteq> VoteExtensionSignBytes c' w"
    using assms(4) by (rule VoteSignBytes_Ok) (simp add: extension_differs [OF n(1)])
  moreover have "bz' \<noteq> VoteExtensionSignBytes c' w"
    using assms(5) by (rule ProposalSignBytes_Ok) (simp only: extension_differs [OF n(2)] not_False_eq_True)
  ultimately show ?thesis using vote_proposal_differ [OF assms] by simp
qed

definition sample_proposal :: Proposal where
  "sample_proposal = \<lparr>p_Type = 32, p_Height = 5, p_Round = 0, p_POLRound = -1, p_BlockID = empty_BlockID, p_Timestamp = 7, p_Signature = [1]\<rparr>"

theorem sign_bytes_separated_witness:
  "\<exists>b b'. VoteSignBytes toy_env [99] sample_vote = Ok b \<and> ProposalSignBytes toy_env [99] sample_proposal = Ok b' \<and> b \<noteq> b'"
proof -
  obtain b where b: "VoteSignBytes toy_env [99] sample_vote = Ok b"
    by (simp add: VoteSignBytes_def CanonicalizeVote_def CanonicalizeBlockID_empty sample_vote_def CanonicalVote_Marshal_def toy_env_def)
  obtain b' where b': "ProposalSignBytes toy_env [99] sample_proposal = Ok b'"
    by (simp add: ProposalSignBytes_def CanonicalizeBlockID_empty sample_proposal_def CanonicalProposal_Marshal_def toy_env_def)
  have "vote_in_range sample_vote" "proposal_in_range sample_proposal" "IsVoteTypeValid (v_Type sample_vote)"
    by (simp_all add: vote_in_range_def proposal_in_range_def sample_vote_def sample_proposal_def is_i32_def is_i64_def bid_in_range_def
      is_u32_def empty_BlockID_def IsVoteTypeValid_def)
  from sign_bytes_separated [OF this b b', of "[]" sample_vote] show ?thesis using b b' by simp
qed

end
