(* ===== verification/Commit.thy ===== *)
theory Commit
  imports Vote
begin

text \<open>
  Commits: the precommits of a block, kept with the next one (\<open>types/block.go\<close>), without and with
  vote extensions. \<open>BlockIDFlag\<close> is a byte. The memoised hash and bit array are fields, and the
  methods that fill them give back the struct.
\<close>

abbreviation (input) BlockIDFlagAbsent :: int where "BlockIDFlagAbsent \<equiv> 1"
abbreviation (input) BlockIDFlagCommit :: int where "BlockIDFlagCommit \<equiv> 2"
abbreviation (input) BlockIDFlagNil :: int where "BlockIDFlagNil \<equiv> 3"

section \<open>Signatures of a commit\<close>

record CommitSig =
  cs_BlockIDFlag :: int
  cs_ValidatorAddress :: bytes
  cs_Timestamp :: go_time
  cs_Signature :: bytes

definition MaxCommitBytes :: "int \<Rightarrow> int" where
  "MaxCommitBytes valCount = i64 (91 + i64 ((109 + 2) * valCount))"

definition NewCommitSigAbsent :: CommitSig where
  "NewCommitSigAbsent = \<lparr>cs_BlockIDFlag = BlockIDFlagAbsent, cs_ValidatorAddress = [], cs_Timestamp = 0, cs_Signature = []\<rparr>"

definition CommitSig_BlockID :: "CommitSig \<Rightarrow> BlockID \<Rightarrow> BlockID result" where
  "CommitSig_BlockID cs commitBlockID =
     (if cs_BlockIDFlag cs = BlockIDFlagAbsent then Ok empty_BlockID
      else if cs_BlockIDFlag cs = BlockIDFlagCommit then Ok commitBlockID
      else if cs_BlockIDFlag cs = BlockIDFlagNil then Ok empty_BlockID
      else Panic ''Unknown BlockIDFlag'')"

definition CommitSig_ValidateBasic :: "CommitSig \<Rightarrow> unit result" where
  "CommitSig_ValidateBasic cs =
     (if cs_BlockIDFlag cs \<noteq> BlockIDFlagAbsent \<and> cs_BlockIDFlag cs \<noteq> BlockIDFlagCommit \<and> cs_BlockIDFlag cs \<noteq> BlockIDFlagNil
      then Err (Errorf ''unknown BlockIDFlag'')
      else if cs_BlockIDFlag cs = BlockIDFlagAbsent
      then if length (cs_ValidatorAddress cs) \<noteq> 0 then Err (Errorf ''validator address is present'')
           else if cs_Timestamp cs \<noteq> 0 then Err (Errorf ''time is present'')
           else if length (cs_Signature cs) \<noteq> 0 then Err (Errorf ''signature is present'')
           else Ok ()
      else if length (cs_ValidatorAddress cs) \<noteq> AddressSize then Err (Errorf ''expected ValidatorAddress size'')
      else if length (cs_Signature cs) = 0 then Err (Errorf ''signature is missing'')
      else if length (cs_Signature cs) > MaxSignatureSize then Err (Errorf ''signature is too big'')
      else Ok ())"

definition CommitSig_ToProto :: "CommitSig option \<Rightarrow> CommitSig option" where
  "CommitSig_ToProto cs =
     map_option (\<lambda>c. \<lparr>cs_BlockIDFlag = cs_BlockIDFlag c, cs_ValidatorAddress = cs_ValidatorAddress c,
                     cs_Timestamp = cs_Timestamp c, cs_Signature = cs_Signature c\<rparr>) cs"

text \<open>The flag of the message is an \<open>int32\<close>, and the conversion keeps its low byte.\<close>

definition CommitSig_FromProto :: "CommitSig \<Rightarrow> CommitSig result" where
  "CommitSig_FromProto csp =
     (let cs = csp\<lparr>cs_BlockIDFlag := cs_BlockIDFlag csp mod 256\<rparr>
      in bind_out (CommitSig_ValidateBasic cs) (\<lambda>_. Ok cs))"

definition CommitSig_Marshal :: "env \<Rightarrow> CommitSig \<Rightarrow> bytes result" where
  "CommitSig_Marshal e m =
     map_out (\<lambda>t. pb_varint 0x08 (to_uint64 (cs_BlockIDFlag m)) @ pb_bytes 0x12 (cs_ValidatorAddress m) @
                  pb_msg 0x1a t @ pb_bytes 0x22 (cs_Signature m))
       (StdTimeMarshal e (cs_Timestamp m))"

definition Vote_CommitSig :: "Vote option \<Rightarrow> CommitSig result" where
  "Vote_CommitSig vote =
     (case vote of None \<Rightarrow> Ok NewCommitSigAbsent
      | Some v \<Rightarrow>
          bind_out (if BlockID_IsComplete (v_BlockID v) then Ok BlockIDFlagCommit
                    else if BlockID_IsZero (v_BlockID v) then Ok BlockIDFlagNil
                    else Panic ''Invalid vote - expected BlockID to be either empty or complete'') (\<lambda>blockIDFlag.
          Ok \<lparr>cs_BlockIDFlag = blockIDFlag, cs_ValidatorAddress = v_ValidatorAddress v,
              cs_Timestamp = v_Timestamp v, cs_Signature = v_Signature v\<rparr>))"

record ExtendedCommitSig =
  ecs_CommitSig :: CommitSig
  ecs_Extension :: bytes
  ecs_ExtensionSignature :: bytes

definition NewExtendedCommitSigAbsent :: ExtendedCommitSig where
  "NewExtendedCommitSigAbsent = \<lparr>ecs_CommitSig = NewCommitSigAbsent, ecs_Extension = [], ecs_ExtensionSignature = []\<rparr>"

definition Vote_ExtendedCommitSig :: "Vote option \<Rightarrow> ExtendedCommitSig result" where
  "Vote_ExtendedCommitSig vote =
     (case vote of None \<Rightarrow> Ok NewExtendedCommitSigAbsent
      | Some v \<Rightarrow> map_out (\<lambda>cs. \<lparr>ecs_CommitSig = cs, ecs_Extension = v_Extension v,
                                ecs_ExtensionSignature = v_ExtensionSignature v\<rparr>) (Vote_CommitSig vote))"

definition ECS_ValidateBasic :: "ExtendedCommitSig \<Rightarrow> unit result" where
  "ECS_ValidateBasic ecs =
     bind_out (CommitSig_ValidateBasic (ecs_CommitSig ecs)) (\<lambda>_.
     if cs_BlockIDFlag (ecs_CommitSig ecs) = BlockIDFlagCommit
     then if length (ecs_Extension ecs) > MaxVoteExtensionSize then Err (Errorf ''vote extension is too big'')
          else if length (ecs_ExtensionSignature ecs) > MaxSignatureSize then Err (Errorf ''vote extension signature is too big'')
          else Ok ()
     else if length (ecs_ExtensionSignature ecs) = 0 \<and> length (ecs_Extension ecs) \<noteq> 0
     then Err (Errorf ''vote extension signature absent on vote with extension'')
     else Ok ())"

definition ECS_EnsureExtension :: "ExtendedCommitSig \<Rightarrow> bool \<Rightarrow> unit result" where
  "ECS_EnsureExtension ecs extEnabled =
     (let flag = cs_BlockIDFlag (ecs_CommitSig ecs)
      in if extEnabled
         then if flag = BlockIDFlagCommit \<and> length (ecs_ExtensionSignature ecs) = 0
              then Err (Errorf ''vote extension signature is missing'')
              else if flag \<noteq> BlockIDFlagCommit \<and> length (ecs_Extension ecs) \<noteq> 0
              then Err (Errorf ''non-commit vote extension present'')
              else if flag \<noteq> BlockIDFlagCommit \<and> length (ecs_ExtensionSignature ecs) \<noteq> 0
              then Err (Errorf ''non-commit vote extension signature present'')
              else Ok ()
         else if length (ecs_Extension ecs) \<noteq> 0 then Err (Errorf ''vote extension present but extensions disabled'')
         else if length (ecs_ExtensionSignature ecs) \<noteq> 0 then Err (Errorf ''vote extension signature present but extensions disabled'')
         else Ok ())"

definition ECS_ToProto :: "ExtendedCommitSig option \<Rightarrow> ExtendedCommitSig option" where
  "ECS_ToProto ecs =
     map_option (\<lambda>s. \<lparr>ecs_CommitSig = the (CommitSig_ToProto (Some (ecs_CommitSig s))), ecs_Extension = ecs_Extension s,
                     ecs_ExtensionSignature = ecs_ExtensionSignature s\<rparr>) ecs"

definition ECS_FromProto :: "ExtendedCommitSig \<Rightarrow> ExtendedCommitSig result" where
  "ECS_FromProto ecsp =
     (let ecs = ecsp\<lparr>ecs_CommitSig := (ecs_CommitSig ecsp)\<lparr>cs_BlockIDFlag := cs_BlockIDFlag (ecs_CommitSig ecsp) mod 256\<rparr>\<rparr>
      in bind_out (ECS_ValidateBasic ecs) (\<lambda>_. Ok ecs))"

section \<open>Commits\<close>

record Commit =
  cm_Height :: int
  cm_Round :: int
  cm_BlockID :: BlockID
  cm_Signatures :: "CommitSig list"
  cm_hash :: "bytes option"

definition Commit_Clone :: "Commit \<Rightarrow> Commit" where
  "Commit_Clone commit = commit\<lparr>cm_Signatures := cm_Signatures commit\<rparr>"

definition Commit_GetVote :: "Commit \<Rightarrow> int \<Rightarrow> Vote result" where
  "Commit_GetVote commit valIdx =
     bind_out (index (cm_Signatures commit) valIdx) (\<lambda>commitSig.
     bind_out (CommitSig_BlockID commitSig (cm_BlockID commit)) (\<lambda>b.
     Ok \<lparr>v_Type = PrecommitType, v_Height = cm_Height commit, v_Round = cm_Round commit, v_BlockID = b,
         v_Timestamp = cs_Timestamp commitSig, v_ValidatorAddress = cs_ValidatorAddress commitSig,
         v_ValidatorIndex = valIdx, v_Signature = cs_Signature commitSig, v_Extension = [], v_ExtensionSignature = []\<rparr>))"

definition Commit_VoteSignBytes :: "env \<Rightarrow> Commit \<Rightarrow> bytes \<Rightarrow> int \<Rightarrow> bytes result" where
  "Commit_VoteSignBytes e commit chainID valIdx =
     bind_out (Commit_GetVote commit valIdx) (\<lambda>v. VoteSignBytes e chainID (Vote_ToProto v))"

definition Commit_Size :: "Commit option \<Rightarrow> int" where
  "Commit_Size commit = (case commit of None \<Rightarrow> 0 | Some c \<Rightarrow> int (length (cm_Signatures c)))"

definition Commit_ValidateBasic :: "Commit \<Rightarrow> unit result" where
  "Commit_ValidateBasic commit =
     (if cm_Height commit < 0 then Err (Errorf ''negative Height'')
      else if cm_Round commit < 0 then Err (Errorf ''negative Round'')
      else if cm_Height commit \<ge> 1
      then if BlockID_IsZero (cm_BlockID commit) then Err (Errorf ''commit cannot be for nil block'')
           else bind_out (map_err (Wrapf ''wrong BlockID'') (BlockID_ValidateBasic (cm_BlockID commit))) (\<lambda>_.
             if length (cm_Signatures commit) = 0 then Err (Errorf ''no signatures in commit'')
             else fold_out (\<lambda>commitSig _. map_err (\<lambda>_. Errorf ''wrong CommitSig'') (CommitSig_ValidateBasic commitSig))
                    (cm_Signatures commit) ())
      else Ok ())"

text \<open>The hash of a nil commit is nil.\<close>

definition Commit_Hash :: "env \<Rightarrow> Commit option \<Rightarrow> (bytes \<times> Commit option) result" where
  "Commit_Hash e commit =
     (case commit of None \<Rightarrow> Ok ([], None)
      | Some c \<Rightarrow>
          (case cm_hash c of Some h \<Rightarrow> Ok (h, commit)
           | None \<Rightarrow>
               bind_out (fold_out (\<lambda>commitSig bs. map_out (\<lambda>bz. bs @ [bz]) (must (CommitSig_Marshal e commitSig)))
                           (cm_Signatures c) []) (\<lambda>bs.
               bind_out (HashFromByteSlices (sha (crypto e)) bs) (\<lambda>h.
               Ok (h, Some (c\<lparr>cm_hash := Some h\<rparr>))))))"

definition Commit_ToProto :: "Commit option \<Rightarrow> Commit option" where
  "Commit_ToProto commit =
     map_option (\<lambda>c. \<lparr>cm_Height = cm_Height c, cm_Round = cm_Round c, cm_BlockID = BlockID_ToProto (Some (cm_BlockID c)),
                     cm_Signatures = map (\<lambda>s. the (CommitSig_ToProto (Some s))) (cm_Signatures c), cm_hash = None\<rparr>) commit"

definition from_protos :: "('a \<Rightarrow> 'b result) \<Rightarrow> 'a list \<Rightarrow> ('b list) result" where
  "from_protos f xs = fold_out (\<lambda>x ys. map_out (\<lambda>y. ys @ [y]) (f x)) xs []"

definition CommitFromProto :: "Commit option \<Rightarrow> Commit result" where
  "CommitFromProto cp =
     (case cp of None \<Rightarrow> Err (Errorf ''nil Commit'')
      | Some c \<Rightarrow>
          if length (cm_Signatures c) > MaxVotesCount then Err (Errorf ''commit has too many signatures'')
          else bind_out (BlockIDFromProto (Some (cm_BlockID c))) (\<lambda>bi.
               bind_out (from_protos CommitSig_FromProto (cm_Signatures c)) (\<lambda>sigs.
               let commit = \<lparr>cm_Height = cm_Height c, cm_Round = cm_Round c, cm_BlockID = bi, cm_Signatures = sigs, cm_hash = None\<rparr>
               in bind_out (Commit_ValidateBasic commit) (\<lambda>_. Ok commit))))"

section \<open>Extended commits\<close>

record ExtendedCommit =
  ec_Height :: int
  ec_Round :: int
  ec_BlockID :: BlockID
  ec_ExtendedSignatures :: "ExtendedCommitSig list"
  ec_bitArray :: "BitArray option"

definition EC_Clone :: "ExtendedCommit \<Rightarrow> ExtendedCommit" where
  "EC_Clone ec = ec\<lparr>ec_ExtendedSignatures := ec_ExtendedSignatures ec\<rparr>"

definition WrappedExtendedCommit :: "Commit \<Rightarrow> ExtendedCommit" where
  "WrappedExtendedCommit commit =
     \<lparr>ec_Height = cm_Height commit, ec_Round = cm_Round commit, ec_BlockID = cm_BlockID commit,
      ec_ExtendedSignatures = map (\<lambda>s. \<lparr>ecs_CommitSig = s, ecs_Extension = [], ecs_ExtensionSignature = []\<rparr>) (cm_Signatures commit),
      ec_bitArray = None\<rparr>"

definition EC_EnsureExtensions :: "ExtendedCommit \<Rightarrow> bool \<Rightarrow> unit result" where
  "EC_EnsureExtensions ec extEnabled =
     fold_out (\<lambda>ecs _. ECS_EnsureExtension ecs extEnabled) (ec_ExtendedSignatures ec) ()"

definition EC_ToCommit :: "ExtendedCommit \<Rightarrow> Commit" where
  "EC_ToCommit ec =
     \<lparr>cm_Height = ec_Height ec, cm_Round = ec_Round ec, cm_BlockID = ec_BlockID ec,
      cm_Signatures = map ecs_CommitSig (ec_ExtendedSignatures ec), cm_hash = None\<rparr>"

definition GetExtendedVote :: "ExtendedCommit \<Rightarrow> int \<Rightarrow> Vote result" where
  "GetExtendedVote ec valIndex =
     bind_out (index (ec_ExtendedSignatures ec) valIndex) (\<lambda>ecs.
     bind_out (CommitSig_BlockID (ecs_CommitSig ecs) (ec_BlockID ec)) (\<lambda>b.
     Ok \<lparr>v_Type = PrecommitType, v_Height = ec_Height ec, v_Round = ec_Round ec, v_BlockID = b,
         v_Timestamp = cs_Timestamp (ecs_CommitSig ecs), v_ValidatorAddress = cs_ValidatorAddress (ecs_CommitSig ecs),
         v_ValidatorIndex = valIndex, v_Signature = cs_Signature (ecs_CommitSig ecs), v_Extension = ecs_Extension ecs,
         v_ExtensionSignature = ecs_ExtensionSignature ecs\<rparr>))"

definition EC_Size :: "ExtendedCommit option \<Rightarrow> int" where
  "EC_Size ec = (case ec of None \<Rightarrow> 0 | Some c \<Rightarrow> int (length (ec_ExtendedSignatures c)))"

definition EC_BitArray :: "ExtendedCommit \<Rightarrow> (BitArray option \<times> ExtendedCommit) result" where
  "EC_BitArray ec =
     (case ec_bitArray ec of
        Some b \<Rightarrow> Ok (Some b, ec)
      | None \<Rightarrow>
          map_out (\<lambda>b. (b, ec\<lparr>ec_bitArray := b\<rparr>))
            (NewBitArrayFromFn (int (length (ec_ExtendedSignatures ec)))
               (\<lambda>i. cs_BlockIDFlag (ecs_CommitSig (ec_ExtendedSignatures ec ! nat i)) \<noteq> BlockIDFlagAbsent)))"

definition EC_IsCommit :: "ExtendedCommit \<Rightarrow> bool" where
  "EC_IsCommit ec \<longleftrightarrow> length (ec_ExtendedSignatures ec) \<noteq> 0"

definition EC_ValidateBasic :: "ExtendedCommit \<Rightarrow> unit result" where
  "EC_ValidateBasic ec =
     (if ec_Height ec < 0 then Err (Errorf ''negative Height'')
      else if ec_Round ec < 0 then Err (Errorf ''negative Round'')
      else if ec_Height ec \<ge> 1
      then if BlockID_IsZero (ec_BlockID ec) then Err (Errorf ''extended commit cannot be for nil block'')
           else if length (ec_ExtendedSignatures ec) = 0 then Err (Errorf ''no signatures in commit'')
           else fold_out (\<lambda>s _. map_err (\<lambda>_. Errorf ''wrong ExtendedCommitSig'') (ECS_ValidateBasic s)) (ec_ExtendedSignatures ec) ()
      else Ok ())"

definition EC_ToProto :: "ExtendedCommit option \<Rightarrow> ExtendedCommit option" where
  "EC_ToProto ec =
     map_option (\<lambda>c. \<lparr>ec_Height = ec_Height c, ec_Round = ec_Round c, ec_BlockID = BlockID_ToProto (Some (ec_BlockID c)),
                     ec_ExtendedSignatures = map (\<lambda>s. the (ECS_ToProto (Some s))) (ec_ExtendedSignatures c), ec_bitArray = None\<rparr>) ec"

definition ExtendedCommitFromProto :: "ExtendedCommit option \<Rightarrow> ExtendedCommit result" where
  "ExtendedCommitFromProto ecp =
     (case ecp of None \<Rightarrow> Err (Errorf ''nil ExtendedCommit'')
      | Some c \<Rightarrow>
          if length (ec_ExtendedSignatures c) > MaxVotesCount then Err (Errorf ''extended commit has too many signatures'')
          else bind_out (BlockIDFromProto (Some (ec_BlockID c))) (\<lambda>bi.
               bind_out (from_protos ECS_FromProto (ec_ExtendedSignatures c)) (\<lambda>sigs.
               let ec = \<lparr>ec_Height = ec_Height c, ec_Round = ec_Round c, ec_BlockID = bi, ec_ExtendedSignatures = sigs, ec_bitArray = None\<rparr>
               in bind_out (EC_ValidateBasic ec) (\<lambda>_. Ok ec))))"

text \<open>The largest payload a block can carry; too small a limit panics.\<close>

definition MaxDataBytes :: "int \<Rightarrow> int \<Rightarrow> int \<Rightarrow> int result" where
  "MaxDataBytes maxBytes evidenceBytes valsCount =
     (let maxDataBytes = i64 (i64 (i64 (i64 (maxBytes - 11) - 623) - MaxCommitBytes valsCount) - evidenceBytes)
      in if maxDataBytes < 0 then Panic ''Negative MaxDataBytes'' else Ok maxDataBytes)"

definition MaxDataBytesNoEvidence :: "int \<Rightarrow> int \<Rightarrow> int result" where
  "MaxDataBytesNoEvidence maxBytes valsCount =
     (let maxDataBytes = i64 (i64 (i64 (maxBytes - 11) - 623) - MaxCommitBytes valsCount)
      in if maxDataBytes < 0 then Panic ''Negative MaxDataBytesNoEvidence'' else Ok maxDataBytes)"

end
