(* ===== verification/Params.thy ===== *)
theory Params
  imports Vote
begin

text \<open>
  Consensus parameters (\<open>types/params.go\<close>). The message has the groups of the struct, each of which may
  be missing. \<open>MaxBlockSizeBytes\<close> is a variable of the package, and an argument here. Durations are
  integers of nanoseconds.
\<close>

abbreviation (input) DefaultMaxBlockSizeBytes :: int where "DefaultMaxBlockSizeBytes \<equiv> 134217728"
abbreviation (input) BlockPartSizeBytes :: int where "BlockPartSizeBytes \<equiv> 65536"

definition MaxBlockPartsCount :: "int \<Rightarrow> int" where
  "MaxBlockPartsCount maxBlockSizeBytes = (maxBlockSizeBytes mod 4294967296) div BlockPartSizeBytes + 1"

definition ABCIPubKeyTypes :: "string list" where
  "ABCIPubKeyTypes = [''ed25519'', ''secp256k1'']"

record BlockParams =
  bp_MaxBytes :: int
  bp_MaxGas :: int

record EvidenceParams =
  ep_MaxAgeNumBlocks :: int
  ep_MaxAgeDuration :: int
  ep_MaxBytes :: int

record ValidatorParams =
  PubKeyTypes :: "string list"

record VersionParams =
  vp_App :: uint64

record ABCIParams =
  VoteExtensionsEnableHeight :: int

record ConsensusParams =
  cp_Block :: BlockParams
  cp_Evidence :: EvidenceParams
  cp_Validator :: ValidatorParams
  cp_Version :: VersionParams
  cp_ABCI :: ABCIParams

record ConsensusParamsProto =
  pp_Block :: "BlockParams option"
  pp_Evidence :: "EvidenceParams option"
  pp_Validator :: "ValidatorParams option"
  pp_Version :: "VersionParams option"
  pp_Abci :: "ABCIParams option"

definition VoteExtensionsEnabled :: "ABCIParams \<Rightarrow> int \<Rightarrow> bool result" where
  "VoteExtensionsEnabled a h =
     (if h < 1 then Panic ''cannot check if vote extensions enabled for height''
      else if VoteExtensionsEnableHeight a = 0 then Ok False
      else Ok (VoteExtensionsEnableHeight a \<le> h))"

definition DefaultBlockParams :: BlockParams where
  "DefaultBlockParams = \<lparr>bp_MaxBytes = 22020096, bp_MaxGas = -1\<rparr>"

definition DefaultEvidenceParams :: EvidenceParams where
  "DefaultEvidenceParams =
     \<lparr>ep_MaxAgeNumBlocks = 100000, ep_MaxAgeDuration = 48 * 3600000000000, ep_MaxBytes = 1048576\<rparr>"

definition DefaultValidatorParams :: ValidatorParams where
  "DefaultValidatorParams = \<lparr>PubKeyTypes = [''ed25519'']\<rparr>"

definition DefaultVersionParams :: VersionParams where
  "DefaultVersionParams = \<lparr>vp_App = 0\<rparr>"

definition DefaultABCIParams :: ABCIParams where
  "DefaultABCIParams = \<lparr>VoteExtensionsEnableHeight = 0\<rparr>"

definition DefaultConsensusParams :: ConsensusParams where
  "DefaultConsensusParams =
     \<lparr>cp_Block = DefaultBlockParams, cp_Evidence = DefaultEvidenceParams, cp_Validator = DefaultValidatorParams,
      cp_Version = DefaultVersionParams, cp_ABCI = DefaultABCIParams\<rparr>"

definition IsValidPubkeyType :: "ValidatorParams \<Rightarrow> string \<Rightarrow> bool" where
  "IsValidPubkeyType params pubkeyType \<longleftrightarrow> pubkeyType \<in> set (PubKeyTypes params)"

definition CP_ValidateBasic :: "int \<Rightarrow> ConsensusParams \<Rightarrow> unit result" where
  "CP_ValidateBasic maxBlockSizeBytes params =
     (if bp_MaxBytes (cp_Block params) = 0 then Err (Errorf ''block.MaxBytes cannot be 0'')
      else if bp_MaxBytes (cp_Block params) < -1 then Err (Errorf ''block.MaxBytes must be -1 or greater than 0'')
      else if bp_MaxBytes (cp_Block params) > maxBlockSizeBytes then Err (Errorf ''block.MaxBytes is too big'')
      else if bp_MaxGas (cp_Block params) < -1 then Err (Errorf ''block.MaxGas must be greater or equal to -1'')
      else if ep_MaxAgeNumBlocks (cp_Evidence params) \<le> 0 then Err (Errorf ''evidence.MaxAgeNumBlocks must be greater than 0'')
      else if ep_MaxAgeDuration (cp_Evidence params) \<le> 0 then Err (Errorf ''evidence.MaxAgeDuration must be greater than 0'')
      else let maxBytes = (if bp_MaxBytes (cp_Block params) = -1 then maxBlockSizeBytes else bp_MaxBytes (cp_Block params))
      in if ep_MaxBytes (cp_Evidence params) > maxBytes then Err (Errorf ''evidence.MaxBytesEvidence is greater than upper bound'')
      else if ep_MaxBytes (cp_Evidence params) < 0 then Err (Errorf ''evidence.MaxBytes must be non negative'')
      else if VoteExtensionsEnableHeight (cp_ABCI params) < 0 then Err (Errorf ''ABCI.VoteExtensionsEnableHeight cannot be negative'')
      else if length (PubKeyTypes (cp_Validator params)) = 0 then Err (Errorf ''len(Validator.PubKeyTypes) must be greater than 0'')
      else fold_out (\<lambda>keyType _. if keyType \<notin> set ABCIPubKeyTypes then Err (Errorf ''unknown pubkey type'') else Ok ())
             (PubKeyTypes (cp_Validator params)) ())"

definition ValidateUpdate :: "ConsensusParams \<Rightarrow> ConsensusParamsProto option \<Rightarrow> int \<Rightarrow> unit result" where
  "ValidateUpdate params updated h =
     (case Option.bind updated pp_Abci of None \<Rightarrow> Ok ()
      | Some abci \<Rightarrow>
          let old = VoteExtensionsEnableHeight (cp_ABCI params); new = VoteExtensionsEnableHeight abci
          in if new < 0 then Err (Errorf ''VoteExtensionsEnableHeight must be positive'')
             else if old \<le> 0 \<and> new = 0 then Ok ()
             else if old = new then Ok ()
             else if old > 0 \<and> new = 0
             then if old \<le> h then Err (Errorf ''vote extensions cannot be disabled once enabled'') else Ok ()
             else if new \<le> h then Err (Errorf ''vote extensions cannot be updated to a past or current height'')
             else if old \<le> 0 then Ok ()
             else if old \<le> h then Err (Errorf ''vote extensions cannot be modified once enabled'')
             else Ok ())"

definition HashedParams_Marshal :: "int \<Rightarrow> int \<Rightarrow> bytes" where
  "HashedParams_Marshal blockMaxBytes blockMaxGas =
     pb_varint 0x08 (to_uint64 blockMaxBytes) @ pb_varint 0x10 (to_uint64 blockMaxGas)"

definition CP_Hash :: "crypto_env \<Rightarrow> ConsensusParams \<Rightarrow> bytes" where
  "CP_Hash cr params = sha cr (HashedParams_Marshal (bp_MaxBytes (cp_Block params)) (bp_MaxGas (cp_Block params)))"

definition CP_Update :: "ConsensusParams \<Rightarrow> ConsensusParamsProto option \<Rightarrow> ConsensusParams" where
  "CP_Update params params2 =
     (case params2 of None \<Rightarrow> params
      | Some p2 \<Rightarrow>
          let res = (case pp_Block p2 of None \<Rightarrow> params
                     | Some b \<Rightarrow> params\<lparr>cp_Block := \<lparr>bp_MaxBytes = bp_MaxBytes b, bp_MaxGas = bp_MaxGas b\<rparr>\<rparr>);
              res = (case pp_Evidence p2 of None \<Rightarrow> res
                     | Some ev \<Rightarrow> res\<lparr>cp_Evidence := \<lparr>ep_MaxAgeNumBlocks = ep_MaxAgeNumBlocks ev,
                         ep_MaxAgeDuration = ep_MaxAgeDuration ev, ep_MaxBytes = ep_MaxBytes ev\<rparr>\<rparr>);
              res = (case pp_Validator p2 of None \<Rightarrow> res | Some v \<Rightarrow> res\<lparr>cp_Validator := \<lparr>PubKeyTypes = PubKeyTypes v\<rparr>\<rparr>);
              res = (case pp_Version p2 of None \<Rightarrow> res | Some v \<Rightarrow> res\<lparr>cp_Version := \<lparr>vp_App = vp_App v\<rparr>\<rparr>)
          in (case pp_Abci p2 of None \<Rightarrow> res
              | Some a \<Rightarrow> res\<lparr>cp_ABCI := \<lparr>VoteExtensionsEnableHeight = VoteExtensionsEnableHeight a\<rparr>\<rparr>))"

definition CP_ToProto :: "ConsensusParams \<Rightarrow> ConsensusParamsProto" where
  "CP_ToProto params =
     \<lparr>pp_Block = Some \<lparr>bp_MaxBytes = bp_MaxBytes (cp_Block params), bp_MaxGas = bp_MaxGas (cp_Block params)\<rparr>,
      pp_Evidence = Some \<lparr>ep_MaxAgeNumBlocks = ep_MaxAgeNumBlocks (cp_Evidence params),
        ep_MaxAgeDuration = ep_MaxAgeDuration (cp_Evidence params), ep_MaxBytes = ep_MaxBytes (cp_Evidence params)\<rparr>,
      pp_Validator = Some \<lparr>PubKeyTypes = PubKeyTypes (cp_Validator params)\<rparr>,
      pp_Version = Some \<lparr>vp_App = vp_App (cp_Version params)\<rparr>,
      pp_Abci = Some \<lparr>VoteExtensionsEnableHeight = VoteExtensionsEnableHeight (cp_ABCI params)\<rparr>\<rparr>"

text \<open>A message without one of the first four groups is a nil dereference.\<close>

definition ConsensusParamsFromProto :: "ConsensusParamsProto \<Rightarrow> ConsensusParams result" where
  "ConsensusParamsFromProto pb =
     (case (pp_Block pb, pp_Evidence pb, pp_Validator pb, pp_Version pb) of
        (Some b, Some ev, Some va, Some ve) \<Rightarrow>
          Ok \<lparr>cp_Block = \<lparr>bp_MaxBytes = bp_MaxBytes b, bp_MaxGas = bp_MaxGas b\<rparr>,
              cp_Evidence = \<lparr>ep_MaxAgeNumBlocks = ep_MaxAgeNumBlocks ev,
                ep_MaxAgeDuration = ep_MaxAgeDuration ev, ep_MaxBytes = ep_MaxBytes ev\<rparr>,
              cp_Validator = \<lparr>PubKeyTypes = PubKeyTypes va\<rparr>,
              cp_Version = \<lparr>vp_App = vp_App ve\<rparr>,
              cp_ABCI = \<lparr>VoteExtensionsEnableHeight =
                (case pp_Abci pb of None \<Rightarrow> 0 | Some a \<Rightarrow> VoteExtensionsEnableHeight a)\<rparr>\<rparr>
      | _ \<Rightarrow> Panic ''nil pointer dereference'')"

section \<open>Updates\<close>

lemma CP_Update_ABCI:
  "cp_ABCI (CP_Update params updated) =
     (case Option.bind updated pp_Abci of None \<Rightarrow> cp_ABCI params | Some a \<Rightarrow> a)"
  by (auto simp: CP_Update_def Let_def split: option.splits)

lemma CP_roundtrip: "ConsensusParamsFromProto (CP_ToProto p) = Ok p"
  by (cases p) (simp add: ConsensusParamsFromProto_def CP_ToProto_def)

lemma HashedParams_inj:
  assumes "HashedParams_Marshal a b = HashedParams_Marshal c d" "is_i64 a" "is_i64 b" "is_i64 c" "is_i64 d"
  shows "a = c \<and> b = d"
proof -
  have "to_uint64 a = to_uint64 c \<and> pb_varint 0x10 (to_uint64 b) = pb_varint 0x10 (to_uint64 d)"
    using assms(1) unfolding HashedParams_Marshal_def
    by (rule pb_varint_prefix) (auto simp: free_of_fields(1) [of _ _ _ "[]", simplified])
  moreover have "to_uint64 b = to_uint64 d" if "pb_varint 0x10 (to_uint64 b) = pb_varint 0x10 (to_uint64 d)"
    using that pb_varint_prefix [where xs = "[]" and ys = "[]"] by (auto simp: free_of_def)
  ultimately show ?thesis using assms(2-5) to_uint64_inj by auto
qed

text \<open>C35. An accepted parameter update, applied at height \<open>h\<close>, leaves alone at which heights up to \<open>h\<close>
  vote extensions are enabled, and once they are enabled at \<open>h\<close> it changes nothing for any later height
  either: for parameters whose enable height is not negative, as \<open>ValidateBasic\<close> demands. So only an
  enable height that still lies ahead can be moved or cancelled.\<close>

theorem vote_extensions_fixed:
  assumes "ValidateUpdate params updated h = Ok ()" "0 \<le> VoteExtensionsEnableHeight (cp_ABCI params)"
    "1 \<le> k" "k \<le> h \<or> VoteExtensionsEnabled (cp_ABCI params) h = Ok True"
  shows "VoteExtensionsEnabled (cp_ABCI (CP_Update params updated)) k = VoteExtensionsEnabled (cp_ABCI params) k"
  using assms by (auto simp: ValidateUpdate_def CP_Update_ABCI VoteExtensionsEnabled_def Let_def
    split: option.splits if_splits)

theorem vote_extensions_fixed_witness:
  "VoteExtensionsEnabled (cp_ABCI (CP_Update
     (DefaultConsensusParams\<lparr>cp_ABCI := \<lparr>VoteExtensionsEnableHeight = 7\<rparr>\<rparr>)
     (Some \<lparr>pp_Block = None, pp_Evidence = None, pp_Validator = None, pp_Version = None,
            pp_Abci = Some \<lparr>VoteExtensionsEnableHeight = 12\<rparr>\<rparr>))) 5 =
   VoteExtensionsEnabled (cp_ABCI (DefaultConsensusParams\<lparr>cp_ABCI := \<lparr>VoteExtensionsEnableHeight = 7\<rparr>\<rparr>)) 5"
  by (rule vote_extensions_fixed [where h = 5])
     (simp_all add: ValidateUpdate_def DefaultConsensusParams_def)

lemma params_hash_binding:
  assumes "CP_Hash cr p = CP_Hash cr q"
    "is_i64 (bp_MaxBytes (cp_Block p))" "is_i64 (bp_MaxGas (cp_Block p))"
    "is_i64 (bp_MaxBytes (cp_Block q))" "is_i64 (bp_MaxGas (cp_Block q))"
  shows "cp_Block p = cp_Block q \<or>
    collides (sha cr) [HashedParams_Marshal (bp_MaxBytes (cp_Block p)) (bp_MaxGas (cp_Block p))]
      [HashedParams_Marshal (bp_MaxBytes (cp_Block q)) (bp_MaxGas (cp_Block q))]"
  using assms HashedParams_inj
  by (cases "cp_Block p"; cases "cp_Block q") (fastforce simp: CP_Hash_def collides_def)

end
