(* ===== verification/VoteSet.thy ===== *)
theory VoteSet
  imports Commit ValidatorSetProps Params
begin

text \<open>
  The vote set (\<open>types/vote_set.go\<close>): the votes of one height, round and type, with the first block
  that gathers more than two thirds of the voting power. A vote set is a value passed through the
  operations that mutate it. The map from block keys to \<open>blockVotes\<close> holds the structs its pointers
  point to. The mutex is not modelled: every exported operation holds it for its whole body, so the
  operations are atomic steps.
\<close>

record blockVotes =
  bv_peerMaj23 :: bool
  bv_bitArray :: "BitArray option"
  bv_votes :: "Vote option list"
  bv_sum :: int

record VoteSet =
  vs_chainID :: bytes
  vs_height :: int
  vs_round :: int
  vs_signedMsgType :: int
  vs_valSet :: ValidatorSet
  vs_extensionsEnabled :: bool
  vs_votesBitArray :: "BitArray option"
  vs_votes :: "Vote option list"
  vs_sum :: int
  vs_maj23 :: "BlockID option"
  vs_votesByBlock :: "bytes \<rightharpoonup> blockVotes"
  vs_peerMaj23s :: "string \<rightharpoonup> BlockID"

datatype vote_error = VoteError go_error | ErrVoteConflictingVotes Vote Vote

definition newBlockVotes :: "bool \<Rightarrow> int \<Rightarrow> blockVotes result" where
  "newBlockVotes peerMaj23 numValidators =
     map_out (\<lambda>b. \<lparr>bv_peerMaj23 = peerMaj23, bv_bitArray = b, bv_votes = replicate (nat numValidators) None, bv_sum = 0\<rparr>)
       (NewBitArray numValidators)"

definition bv_addVerifiedVote :: "blockVotes \<Rightarrow> Vote \<Rightarrow> int \<Rightarrow> blockVotes result" where
  "bv_addVerifiedVote vs vote votingPower =
     bind_out (index (bv_votes vs) (v_ValidatorIndex vote)) (\<lambda>existing.
     case existing of
       Some _ \<Rightarrow> Ok vs
     | None \<Rightarrow>
         bind_out (SetIndex (bv_bitArray vs) (v_ValidatorIndex vote) True) (\<lambda>(b, _).
         bind_out (store (bv_votes vs) (v_ValidatorIndex vote) (Some vote)) (\<lambda>votes.
         Ok (vs\<lparr>bv_bitArray := b, bv_votes := votes, bv_sum := i64 (bv_sum vs + votingPower)\<rparr>))))"

definition bv_getByIndex :: "blockVotes option \<Rightarrow> int \<Rightarrow> (Vote option) result" where
  "bv_getByIndex vs ix = (case vs of None \<Rightarrow> Ok None | Some b \<Rightarrow> index (bv_votes b) ix)"

section \<open>Construction\<close>

definition NewVoteSet :: "bytes \<Rightarrow> int \<Rightarrow> int \<Rightarrow> int \<Rightarrow> ValidatorSet \<Rightarrow> VoteSet result" where
  "NewVoteSet chainID height round signedMsgType valSet =
     (if height = 0 then Panic ''Cannot make VoteSet for height == 0''
      else map_out (\<lambda>b. \<lparr>vs_chainID = chainID, vs_height = height, vs_round = round, vs_signedMsgType = signedMsgType,
             vs_valSet = valSet, vs_extensionsEnabled = False, vs_votesBitArray = b,
             vs_votes = replicate (nat (VS_Size valSet)) None, vs_sum = 0, vs_maj23 = None,
             vs_votesByBlock = Map.empty, vs_peerMaj23s = Map.empty\<rparr>)
           (NewBitArray (VS_Size valSet)))"

definition NewExtendedVoteSet :: "bytes \<Rightarrow> int \<Rightarrow> int \<Rightarrow> int \<Rightarrow> ValidatorSet \<Rightarrow> VoteSet result" where
  "NewExtendedVoteSet chainID height round signedMsgType valSet =
     map_out (\<lambda>vs. vs\<lparr>vs_extensionsEnabled := True\<rparr>) (NewVoteSet chainID height round signedMsgType valSet)"

section \<open>Adding a vote\<close>

definition vs_getVote :: "VoteSet \<Rightarrow> int \<Rightarrow> bytes \<Rightarrow> (Vote option) result" where
  "vs_getVote voteSet valIndex blockKey =
     bind_out (index (vs_votes voteSet) valIndex) (\<lambda>existing.
     if (case existing of Some v \<Rightarrow> BlockID_Key (v_BlockID v) = blockKey | None \<Rightarrow> False) then Ok existing
     else bv_getByIndex (vs_votesByBlock voteSet blockKey) valIndex)"

text \<open>The votes of a block that has just won are copied over to the canonical votes.\<close>

definition copy_votes :: "Vote option list \<Rightarrow> Vote option list \<Rightarrow> (Vote option list) result" where
  "copy_votes from to =
     fold_out (\<lambda>(i, vote) votes. case vote of None \<Rightarrow> Ok votes | Some v \<Rightarrow> store votes i (Some v))
       (zip (map int [0..<length from]) from) to"

text \<open>The first part of \<open>addVerifiedVote\<close>: the canonical votes, and a conflicting vote if there is one.\<close>

definition add_canonical :: "VoteSet \<Rightarrow> Vote \<Rightarrow> bytes \<Rightarrow> int \<Rightarrow> (VoteSet \<times> Vote option) result" where
  "add_canonical voteSet vote blockKey votingPower =
     (let valIndex = v_ValidatorIndex vote
      in bind_out (index (vs_votes voteSet) valIndex) (\<lambda>existing.
      case existing of
        Some ex \<Rightarrow>
          if BlockID_Equals (v_BlockID ex) (v_BlockID vote) then Panic ''addVerifiedVote does not expect duplicate votes''
          else if (case vs_maj23 voteSet of Some m \<Rightarrow> BlockID_Key m = blockKey | None \<Rightarrow> False)
          then bind_out (store (vs_votes voteSet) valIndex (Some vote)) (\<lambda>votes.
               bind_out (SetIndex (vs_votesBitArray voteSet) valIndex True) (\<lambda>(b, _).
               Ok (voteSet\<lparr>vs_votes := votes, vs_votesBitArray := b\<rparr>, Some ex)))
          else Ok (voteSet, Some ex)
      | None \<Rightarrow>
          bind_out (store (vs_votes voteSet) valIndex (Some vote)) (\<lambda>votes.
          bind_out (SetIndex (vs_votesBitArray voteSet) valIndex True) (\<lambda>(b, _).
          Ok (voteSet\<lparr>vs_votes := votes, vs_votesBitArray := b, vs_sum := i64 (vs_sum voteSet + votingPower)\<rparr>, None)))))"

text \<open>The last part: the votes of the block, and the majority.\<close>

definition add_by_block :: "VoteSet \<Rightarrow> blockVotes \<Rightarrow> Vote \<Rightarrow> bytes \<Rightarrow> int \<Rightarrow> VoteSet result" where
  "add_by_block voteSet votesByBlock vote blockKey votingPower =
     bind_out (TotalVotingPower (vs_valSet voteSet)) (\<lambda>(total_power, valSet).
     let origSum = bv_sum votesByBlock;
         quorum = i64 (i64 (total_power * 2) sdiv 3 + 1)
     in bind_out (bv_addVerifiedVote votesByBlock vote votingPower) (\<lambda>votesByBlock.
        let voteSet = voteSet\<lparr>vs_valSet := valSet, vs_votesByBlock := (vs_votesByBlock voteSet)(blockKey \<mapsto> votesByBlock)\<rparr>
        in if origSum < quorum \<and> quorum \<le> bv_sum votesByBlock \<and> vs_maj23 voteSet = None
           then bind_out (copy_votes (bv_votes votesByBlock) (vs_votes voteSet)) (\<lambda>votes.
                Ok (voteSet\<lparr>vs_votes := votes, vs_maj23 := Some (v_BlockID vote)\<rparr>))
           else Ok voteSet))"

definition vs_addVerifiedVote :: "VoteSet \<Rightarrow> Vote \<Rightarrow> bytes \<Rightarrow> int \<Rightarrow> (VoteSet \<times> bool \<times> Vote option) result" where
  "vs_addVerifiedVote voteSet vote blockKey votingPower =
     bind_out (add_canonical voteSet vote blockKey votingPower) (\<lambda>(voteSet, conflicting).
     case vs_votesByBlock voteSet blockKey of
       Some votesByBlock \<Rightarrow>
         if conflicting \<noteq> None \<and> \<not> bv_peerMaj23 votesByBlock then Ok (voteSet, False, conflicting)
         else map_out (\<lambda>s. (s, True, conflicting)) (add_by_block voteSet votesByBlock vote blockKey votingPower)
     | None \<Rightarrow>
         if conflicting \<noteq> None then Ok (voteSet, False, conflicting)
         else bind_out (newBlockVotes False (VS_Size (vs_valSet voteSet))) (\<lambda>votesByBlock.
              map_out (\<lambda>s. (s, True, conflicting)) (add_by_block voteSet votesByBlock vote blockKey votingPower)))"

definition reject :: "VoteSet \<Rightarrow> go_error \<Rightarrow> (VoteSet \<times> bool \<times> vote_error option) result" where
  "reject voteSet e = Ok (voteSet, False, Some (VoteError e))"

definition ErrVoteInvalidValidatorIndex :: go_error where "ErrVoteInvalidValidatorIndex = Errorf ''invalid validator index''"
definition ErrVoteInvalidValidatorAddress :: go_error where "ErrVoteInvalidValidatorAddress = Errorf ''invalid validator address''"
definition ErrVoteUnexpectedStep :: go_error where "ErrVoteUnexpectedStep = Errorf ''unexpected step''"
definition ErrVoteNonDeterministicSignature :: go_error where "ErrVoteNonDeterministicSignature = Errorf ''non-deterministic signature''"
definition ErrVoteNil :: go_error where "ErrVoteNil = Errorf ''nil vote''"

definition check_signature :: "env \<Rightarrow> VoteSet \<Rightarrow> Vote \<Rightarrow> PubKey \<Rightarrow> unit result" where
  "check_signature e voteSet vote pubKey =
     (if vs_extensionsEnabled voteSet
      then map_err (Wrapf ''failed to verify extended vote'') (VerifyVoteAndExtension e (vs_chainID voteSet) pubKey vote)
      else bind_out (map_err (Wrapf ''failed to verify vote'') (Vote_Verify e (vs_chainID voteSet) pubKey vote)) (\<lambda>_.
           if length (v_ExtensionSignature vote) > 0 \<or> length (v_Extension vote) > 0
           then Err (Errorf ''unexpected vote extension data present in vote'') else Ok ()))"

text \<open>A validator without a key is a nil dereference.\<close>

definition need_key :: "PubKey option \<Rightarrow> PubKey result" where
  "need_key k = (case k of None \<Rightarrow> Panic ''nil pointer dereference'' | Some p \<Rightarrow> Ok p)"

definition vs_addVote :: "env \<Rightarrow> VoteSet \<Rightarrow> Vote option \<Rightarrow> (VoteSet \<times> bool \<times> vote_error option) result" where
  "vs_addVote e voteSet vote_ptr =
     (case vote_ptr of None \<Rightarrow> reject voteSet ErrVoteNil
      | Some vote \<Rightarrow>
     let valIndex = v_ValidatorIndex vote; valAddr = v_ValidatorAddress vote; blockKey = BlockID_Key (v_BlockID vote)
     in if valIndex < 0 then reject voteSet (Wrapf ''index < 0'' ErrVoteInvalidValidatorIndex)
        else if length valAddr = 0 then reject voteSet (Wrapf ''empty address'' ErrVoteInvalidValidatorAddress)
        else if v_Height vote \<noteq> vs_height voteSet \<or> v_Round vote \<noteq> vs_round voteSet \<or> v_Type vote \<noteq> vs_signedMsgType voteSet
        then reject voteSet (Wrapf ''unexpected height/round/type'' ErrVoteUnexpectedStep)
        else (case GetByIndex (vs_valSet voteSet) valIndex of
            (_, None) \<Rightarrow> reject voteSet (Wrapf ''cannot find validator'' ErrVoteInvalidValidatorIndex)
          | (lookupAddr, Some val) \<Rightarrow>
              if valAddr \<noteq> lookupAddr
              then reject voteSet (Wrapf ''vote.ValidatorAddress does not match address'' ErrVoteInvalidValidatorAddress)
              else bind_out (vs_getVote voteSet valIndex blockKey) (\<lambda>known.
                case known of
                  Some existing \<Rightarrow>
                    if v_Signature existing = v_Signature vote then Ok (voteSet, False, None)
                    else reject voteSet (Wrapf ''existing vote'' ErrVoteNonDeterministicSignature)
                | None \<Rightarrow>
                    bind_out (need_key (PubKey val)) (\<lambda>pubKey.
                    case check_signature e voteSet vote pubKey of
                      Panic s \<Rightarrow> Panic s
                    | Err er \<Rightarrow> reject voteSet er
                    | Ok _ \<Rightarrow>
                        bind_out (vs_addVerifiedVote voteSet vote blockKey (VotingPower val)) (\<lambda>(voteSet, added, conflicting).
                        case conflicting of
                          Some c \<Rightarrow> Ok (voteSet, added, Some (ErrVoteConflictingVotes c vote))
                        | None \<Rightarrow> if \<not> added then Panic ''Expected to add non-conflicting vote''
                                  else Ok (voteSet, added, None))))))"

definition AddVote :: "env \<Rightarrow> VoteSet option \<Rightarrow> Vote option \<Rightarrow> (VoteSet \<times> bool \<times> vote_error option) result" where
  "AddVote e voteSet vote =
     (case voteSet of None \<Rightarrow> Panic ''AddVote() on nil VoteSet'' | Some vs \<Rightarrow> vs_addVote e vs vote)"

definition SetPeerMaj23 :: "VoteSet option \<Rightarrow> string \<Rightarrow> BlockID \<Rightarrow> (VoteSet \<times> go_error option) result" where
  "SetPeerMaj23 vs_ptr peerID blockID =
     (case vs_ptr of None \<Rightarrow> Panic ''SetPeerMaj23() on nil VoteSet''
      | Some voteSet \<Rightarrow>
     let blockKey = BlockID_Key blockID
     in case vs_peerMaj23s voteSet peerID of
          Some existing \<Rightarrow>
            if BlockID_Equals existing blockID then Ok (voteSet, None)
            else Ok (voteSet, Some (Errorf ''setPeerMaj23: Received conflicting blockID from peer''))
        | None \<Rightarrow>
            let voteSet = voteSet\<lparr>vs_peerMaj23s := (vs_peerMaj23s voteSet)(peerID \<mapsto> blockID)\<rparr>
            in (case vs_votesByBlock voteSet blockKey of
                  Some b \<Rightarrow>
                    if bv_peerMaj23 b then Ok (voteSet, None)
                    else Ok (voteSet\<lparr>vs_votesByBlock := (vs_votesByBlock voteSet)(blockKey \<mapsto> b\<lparr>bv_peerMaj23 := True\<rparr>)\<rparr>, None)
                | None \<Rightarrow>
                    map_out (\<lambda>b. (voteSet\<lparr>vs_votesByBlock := (vs_votesByBlock voteSet)(blockKey \<mapsto> b)\<rparr>, None))
                      (newBlockVotes True (VS_Size (vs_valSet voteSet)))))"

section \<open>Reading\<close>

text \<open>A nil vote set reads as empty.\<close>

definition vs_GetHeight :: "VoteSet option \<Rightarrow> int" where
  "vs_GetHeight vs = (case vs of None \<Rightarrow> 0 | Some s \<Rightarrow> vs_height s)"

definition vs_GetRound :: "VoteSet option \<Rightarrow> int" where
  "vs_GetRound vs = (case vs of None \<Rightarrow> -1 | Some s \<Rightarrow> vs_round s)"

definition vs_Type :: "VoteSet option \<Rightarrow> int" where
  "vs_Type vs = (case vs of None \<Rightarrow> 0 | Some s \<Rightarrow> vs_signedMsgType s mod 256)"

definition vs_Size :: "VoteSet option \<Rightarrow> int" where
  "vs_Size vs = (case vs of None \<Rightarrow> 0 | Some s \<Rightarrow> VS_Size (vs_valSet s))"

definition vs_BitArray :: "VoteSet option \<Rightarrow> BitArray option" where
  "vs_BitArray vs = (case vs of None \<Rightarrow> None | Some s \<Rightarrow> vs_votesBitArray s)"

definition BitArrayByBlockID :: "VoteSet option \<Rightarrow> BlockID \<Rightarrow> BitArray option" where
  "BitArrayByBlockID vs blockID =
     (case vs of None \<Rightarrow> None
      | Some s \<Rightarrow> (case vs_votesByBlock s (BlockID_Key blockID) of None \<Rightarrow> None | Some b \<Rightarrow> bv_bitArray b))"

definition vs_GetByIndex :: "VoteSet option \<Rightarrow> int \<Rightarrow> (Vote option) result" where
  "vs_GetByIndex vs valIndex = (case vs of None \<Rightarrow> Ok None | Some s \<Rightarrow> index (vs_votes s) valIndex)"

definition vs_List :: "VoteSet option \<Rightarrow> Vote list" where
  "vs_List vs = (case vs of None \<Rightarrow> [] | Some s \<Rightarrow> List.map_filter (\<lambda>v. v) (vs_votes s))"

definition vs_GetByAddress :: "VoteSet option \<Rightarrow> bytes \<Rightarrow> (Vote option) result" where
  "vs_GetByAddress vs address =
     (case vs of None \<Rightarrow> Ok None
      | Some s \<Rightarrow> (case GetByAddress (vs_valSet s) address of
          (_, None) \<Rightarrow> Panic ''GetByAddress(address) returned nil''
        | (valIndex, Some _) \<Rightarrow> index (vs_votes s) valIndex))"

definition HasTwoThirdsMajority :: "VoteSet option \<Rightarrow> bool" where
  "HasTwoThirdsMajority vs = (case vs of None \<Rightarrow> False | Some s \<Rightarrow> vs_maj23 s \<noteq> None)"

definition vs_IsCommit :: "VoteSet option \<Rightarrow> bool" where
  "vs_IsCommit vs = (case vs of None \<Rightarrow> False | Some s \<Rightarrow> vs_signedMsgType s = PrecommitType \<and> vs_maj23 s \<noteq> None)"

text \<open>Reading the total power may fill the validator set's cache, so the vote set is given back.\<close>

definition HasTwoThirdsAny :: "VoteSet option \<Rightarrow> (bool \<times> VoteSet option) result" where
  "HasTwoThirdsAny vs =
     (case vs of None \<Rightarrow> Ok (False, None)
      | Some s \<Rightarrow> map_out (\<lambda>(t, vals). (vs_sum s > i64 (t * 2) sdiv 3, Some (s\<lparr>vs_valSet := vals\<rparr>)))
                    (TotalVotingPower (vs_valSet s)))"

definition HasAll :: "VoteSet option \<Rightarrow> (bool \<times> VoteSet option) result" where
  "HasAll vs =
     (case vs of None \<Rightarrow> Ok (False, None)
      | Some s \<Rightarrow> map_out (\<lambda>(t, vals). (vs_sum s = t, Some (s\<lparr>vs_valSet := vals\<rparr>))) (TotalVotingPower (vs_valSet s)))"

definition TwoThirdsMajority :: "VoteSet option \<Rightarrow> BlockID \<times> bool" where
  "TwoThirdsMajority vs =
     (case vs of None \<Rightarrow> (empty_BlockID, False)
      | Some s \<Rightarrow> (case vs_maj23 s of Some b \<Rightarrow> (b, True) | None \<Rightarrow> (empty_BlockID, False)))"

section \<open>The commit\<close>

definition commit_sig_for :: "BlockID \<Rightarrow> Vote option \<Rightarrow> ExtendedCommitSig result" where
  "commit_sig_for maj23 v =
     map_out (\<lambda>sig. if cs_BlockIDFlag (ecs_CommitSig sig) = BlockIDFlagCommit \<and> \<not> BlockID_Equals (v_BlockID (the v)) maj23
                    then NewExtendedCommitSigAbsent else sig)
       (Vote_ExtendedCommitSig v)"

definition MakeExtendedCommit :: "VoteSet \<Rightarrow> ABCIParams \<Rightarrow> ExtendedCommit result" where
  "MakeExtendedCommit voteSet ap =
     (if vs_signedMsgType voteSet \<noteq> PrecommitType then Panic ''Cannot MakeExtendCommit() unless VoteSet.Type is PrecommitType''
      else case vs_maj23 voteSet of
        None \<Rightarrow> Panic ''Cannot MakeExtendCommit() unless a blockhash has +2/3''
      | Some maj23 \<Rightarrow>
          bind_out (from_protos (commit_sig_for maj23) (vs_votes voteSet)) (\<lambda>sigs.
          let ec = \<lparr>ec_Height = vs_GetHeight (Some voteSet), ec_Round = vs_GetRound (Some voteSet), ec_BlockID = maj23,
                    ec_ExtendedSignatures = sigs, ec_bitArray = None\<rparr>
          in bind_out (VoteExtensionsEnabled ap (ec_Height ec)) (\<lambda>enabled.
             bind_out (must (EC_EnsureExtensions ec enabled)) (\<lambda>_. Ok ec))))"

definition add_sig :: "env \<Rightarrow> Vote \<Rightarrow> VoteSet \<Rightarrow> VoteSet result" where
  "add_sig e vote voteSet =
     bind_out (must (Vote_ValidateBasic vote)) (\<lambda>_.
     bind_out (AddVote e (Some voteSet) (Some vote)) (\<lambda>(voteSet, added, err).
     if \<not> added \<or> err \<noteq> None then Panic ''failed to reconstruct vote set from commit'' else Ok voteSet))"

definition addSigsToVoteSet :: "env \<Rightarrow> ExtendedCommit \<Rightarrow> VoteSet \<Rightarrow> VoteSet result" where
  "addSigsToVoteSet e ec voteSet =
     fold_out (\<lambda>idx voteSet.
         if cs_BlockIDFlag (ecs_CommitSig (ec_ExtendedSignatures ec ! idx)) = BlockIDFlagAbsent then Ok voteSet
         else bind_out (GetExtendedVote ec (i32 (int idx))) (\<lambda>vote. add_sig e vote voteSet))
       [0..<length (ec_ExtendedSignatures ec)] voteSet"

definition ToExtendedVoteSet :: "env \<Rightarrow> ExtendedCommit \<Rightarrow> bytes \<Rightarrow> ValidatorSet \<Rightarrow> VoteSet result" where
  "ToExtendedVoteSet e ec chainID vals =
     bind_out (NewExtendedVoteSet chainID (ec_Height ec) (ec_Round ec) PrecommitType vals) (addSigsToVoteSet e ec)"

definition ToVoteSet :: "env \<Rightarrow> Commit \<Rightarrow> bytes \<Rightarrow> ValidatorSet \<Rightarrow> VoteSet result" where
  "ToVoteSet e commit chainID vals =
     bind_out (NewVoteSet chainID (cm_Height commit) (cm_Round commit) PrecommitType vals) (
     fold_out (\<lambda>idx voteSet.
         if cs_BlockIDFlag (cm_Signatures commit ! idx) = BlockIDFlagAbsent then Ok voteSet
         else bind_out (Commit_GetVote commit (i32 (int idx))) (\<lambda>vote. add_sig e vote voteSet))
       [0..<length (cm_Signatures commit)])"

end
