(* ===== verification/VotingPower.thy ===== *)
theory VotingPower
  imports ValidatorSetProps
begin

text \<open>
  The arithmetic of quorums, as an interface: members of a set hold positive weights, and more than two
  thirds of the weight is a quorum. Vote sets, commit verification and the light client rest on these
  facts through the interpretation on the validator set's voting powers.
\<close>

locale weighted =
  fixes wf :: "'a \<Rightarrow> bool" and members :: "'a \<Rightarrow> nat" and weight :: "'a \<Rightarrow> nat \<Rightarrow> int"
  assumes weight_pos: "wf a \<Longrightarrow> i < members a \<Longrightarrow> 0 < weight a i"
begin

lemma power_mono:
  assumes "wf a" "\<And>i. i < members a \<Longrightarrow> P i \<Longrightarrow> Q i"
  shows "wsum (weight a) (members a) P \<le> wsum (weight a) (members a) Q"
  using assms weight_pos by (intro wsum_mono) (auto simp: less_imp_le)

lemma power_nonneg: "wf a \<Longrightarrow> 0 \<le> wsum (weight a) (members a) P"
  using weight_pos by (intro wsum_nonneg) (auto simp: less_imp_le)

lemma power_le_total: "wf a \<Longrightarrow> wsum (weight a) (members a) P \<le> wsum (weight a) (members a) (\<lambda>_. True)"
  by (rule power_mono) auto

text \<open>Two quorums share more than a third of the weight.\<close>

lemma quorum_intersection:
  assumes "wf a" "2 * wsum (weight a) (members a) (\<lambda>_. True) < 3 * wsum (weight a) (members a) P"
    "2 * wsum (weight a) (members a) (\<lambda>_. True) < 3 * wsum (weight a) (members a) Q"
  shows "wsum (weight a) (members a) (\<lambda>_. True) < 3 * wsum (weight a) (members a) (\<lambda>i. P i \<and> Q i)"
  using wsum_overlap [of "members a" "weight a" P Q] assms weight_pos by (auto simp: less_imp_le)

lemma quorum_unique:
  assumes "wf a" "2 * wsum (weight a) (members a) (\<lambda>_. True) < 3 * wsum (weight a) (members a) P"
    "2 * wsum (weight a) (members a) (\<lambda>_. True) < 3 * wsum (weight a) (members a) Q"
    "\<And>i. i < members a \<Longrightarrow> P i \<Longrightarrow> \<not> Q i"
  shows False
proof -
  have "wsum (weight a) (members a) (\<lambda>i. P i \<and> Q i) = wsum (weight a) (members a) (\<lambda>_. False)"
    using assms(4) by (intro wsum_cong) auto
  then show False using quorum_intersection [OF assms(1-3)] power_nonneg [OF assms(1), of "\<lambda>_. True"] by simp
qed

text \<open>A quorum and more than a third share a member.\<close>

lemma third_meets_quorum:
  assumes "wf a" "2 * wsum (weight a) (members a) (\<lambda>_. True) < 3 * wsum (weight a) (members a) P"
    "wsum (weight a) (members a) (\<lambda>_. True) \<le> 3 * wsum (weight a) (members a) Q"
  shows "\<exists>i < members a. P i \<and> Q i"
proof (rule ccontr)
  assume "\<not> ?thesis"
  then have "wsum (weight a) (members a) (\<lambda>i. P i \<and> Q i) = wsum (weight a) (members a) (\<lambda>_. False)"
    by (intro wsum_cong) auto
  then show False using wsum_overlap [of "members a" "weight a" P Q] assms weight_pos by (auto simp: less_imp_le)
qed

end

definition val_power :: "ValidatorSet \<Rightarrow> nat \<Rightarrow> int" where
  "val_power vals i = VotingPower (Validators vals ! i)"

definition val_count :: "ValidatorSet \<Rightarrow> nat" where
  "val_count vals = length (Validators vals)"

definition powers_ok :: "ValidatorSet \<Rightarrow> bool" where
  "powers_ok vals \<longleftrightarrow> powers_wf (Validators vals) \<and>
     (totalVotingPower vals = 0 \<or> totalVotingPower vals = power_sum (Validators vals))"

text \<open>The power of the validators whose index satisfies a predicate.\<close>

definition power_of :: "ValidatorSet \<Rightarrow> (nat \<Rightarrow> bool) \<Rightarrow> int" where
  "power_of vals P = wsum (val_power vals) (val_count vals) P"

definition total_power :: "ValidatorSet \<Rightarrow> int" where
  "total_power vals = power_of vals (\<lambda>_. True)"

interpretation vp: weighted powers_ok val_count val_power
  by unfold_locales (auto simp: powers_ok_def powers_wf_def val_count_def val_power_def)

lemmas power_of_mono = vp.power_mono [folded power_of_def]
  and power_of_nonneg = vp.power_nonneg [folded power_of_def]
  and power_of_le_total = vp.power_le_total [folded power_of_def, folded total_power_def]
  and two_quorums = vp.quorum_intersection [folded power_of_def, folded total_power_def]
  and disjoint_quorums = vp.quorum_unique [folded power_of_def, folded total_power_def]
  and third_and_quorum = vp.third_meets_quorum [folded power_of_def, folded total_power_def]

lemma total_power_eq: "total_power vals = power_sum (Validators vals)"
  using wsum_nth [of VotingPower "Validators vals"]
  by (simp add: total_power_def power_of_def val_power_def [abs_def] val_count_def power_sum_def)

lemma total_power_bounds:
  assumes "powers_ok vals" shows "0 \<le> total_power vals" "total_power vals \<le> MaxTotalVotingPower"
  using assms powers_wf_total by (auto simp: total_power_eq powers_ok_def)

lemma power_of_bounds:
  assumes "powers_ok vals" shows "0 \<le> power_of vals P" "power_of vals P \<le> MaxTotalVotingPower"
  using power_of_nonneg [OF assms] order_trans [OF power_of_le_total total_power_bounds(2)] assms by auto

lemma TotalVotingPower_total:
  assumes "powers_ok vals"
  shows "TotalVotingPower vals = Ok (total_power vals, vals\<lparr>totalVotingPower := total_power vals\<rparr>)"
  using assms by (auto simp: powers_ok_def TotalVotingPower_wf total_power_eq)

lemma powers_ok_cache [simp]: "powers_ok vals \<Longrightarrow> powers_ok (vals\<lparr>totalVotingPower := total_power vals\<rparr>)"
  by (simp add: powers_ok_def total_power_eq)

lemma same_validators [simp]:
  "power_of (vals\<lparr>totalVotingPower := t\<rparr>) = power_of vals" "total_power (vals\<lparr>totalVotingPower := t\<rparr>) = total_power vals"
  "val_count (vals\<lparr>totalVotingPower := t\<rparr>) = val_count vals" "val_power (vals\<lparr>totalVotingPower := t\<rparr>) = val_power vals"
  by (simp_all add: power_of_def [abs_def] total_power_def val_count_def val_power_def [abs_def])

lemma power_of_add:
  assumes "i < val_count vals" "\<not> P i"
  shows "power_of vals (\<lambda>j. P j \<or> j = i) = power_of vals P + val_power vals i"
  using assms wsum_add by (simp add: power_of_def)

lemma power_of_cong: "(\<And>i. i < val_count vals \<Longrightarrow> P i = Q i) \<Longrightarrow> power_of vals P = power_of vals Q"
  unfolding power_of_def by (rule wsum_cong)

lemma power_of_none [simp]: "power_of vals (\<lambda>_. False) = 0"
  by (simp add: power_of_def)

lemma length_le_power_sum: "\<forall>v \<in> set vs. 0 < VotingPower v \<Longrightarrow> int (length vs) \<le> power_sum vs"
  by (induction vs) auto

lemma val_count_bound: "powers_ok vals \<Longrightarrow> int (val_count vals) \<le> MaxTotalVotingPower"
  using length_le_power_sum [of "Validators vals"] by (auto simp: powers_ok_def powers_wf_def val_count_def)

lemma vset_wf_powers_ok: "vset_wf vals \<Longrightarrow> powers_ok vals"
  by (simp add: vset_wf_def powers_ok_def)

text \<open>The quorum of the code, two thirds of the total plus one, is a bare majority of more than two thirds.\<close>

definition quorum :: "ValidatorSet \<Rightarrow> int" where
  "quorum vals = total_power vals * 2 div 3 + 1"

lemma quorum_code:
  assumes "powers_ok vals"
  shows "i64 (i64 (total_power vals * 2) sdiv 3 + 1) = quorum vals" "i64 (total_power vals * 2) sdiv 3 = total_power vals * 2 div 3"
proof -
  have b: "0 \<le> total_power vals" "total_power vals \<le> MaxTotalVotingPower" using total_power_bounds [OF assms] by auto
  then have "i64 (total_power vals * 2) = total_power vals * 2" by (intro i64_idI) auto
  moreover have "0 \<le> total_power vals * 2 div 3 \<and> total_power vals * 2 div 3 \<le> MaxTotalVotingPower" using b by auto
  ultimately show "i64 (i64 (total_power vals * 2) sdiv 3 + 1) = quorum vals"
    "i64 (total_power vals * 2) sdiv 3 = total_power vals * 2 div 3"
    using b by (auto simp: quorum_def intro: i64_idI)
qed

lemma quorum_iff: "quorum vals \<le> x \<longleftrightarrow> 2 * total_power vals < 3 * x"
  unfolding quorum_def by linarith

end
