(* ===== verification/VoteSetProps.thy ===== *)
theory VoteSetProps
  imports VoteSet VotingPower
begin

text \<open>
  What a vote set keeps, whatever votes and claims arrive in whatever order: its sums are the powers of
  the validators it has votes of, the votes it holds were verified, and it reports a majority for a
  block exactly when validators with more than two thirds of the power are recorded as voting for it.
\<close>

declare not_None_eq [simp del]

section \<open>The invariant\<close>

abbreviation vkey :: "Vote \<Rightarrow> bytes" where
  "vkey v \<equiv> BlockID_Key (v_BlockID v)"

text \<open>The block identifiers a vote that passed \<open>ValidateBasic\<close> can have.\<close>

definition bid_ok :: "BlockID \<Rightarrow> bool" where
  "bid_ok b \<longleftrightarrow> bid_in_range b \<and> (BlockID_IsZero b \<or> BlockID_IsComplete b)"

lemma key_eq_iff: "bid_ok a \<Longrightarrow> bid_ok b \<Longrightarrow> BlockID_Key a = BlockID_Key b \<longleftrightarrow> a = b"
  using BlockID_Key_inj by (auto simp: bid_ok_def)

text \<open>A vote that passed \<open>ValidateBasic\<close>, as every vote from a peer or from the node itself has.\<close>

definition vote_ok :: "Vote \<Rightarrow> bool" where
  "vote_ok v \<longleftrightarrow> Vote_ValidateBasic v = Ok () \<and> bid_in_range (v_BlockID v)"

lemma vote_ok_bid: "vote_ok v \<Longrightarrow> bid_ok (v_BlockID v)"
  by (auto simp: vote_ok_def Vote_ValidateBasic_def bid_ok_def split: if_splits)

text \<open>A vote of the validator with index \<open>i\<close> for this height, round and type, with a verified signature.\<close>

definition genuine :: "env \<Rightarrow> VoteSet \<Rightarrow> nat \<Rightarrow> Vote \<Rightarrow> bool" where
  "genuine e s i v \<longleftrightarrow> i < val_count (vs_valSet s) \<and> v_ValidatorIndex v = int i \<and>
     v_Height v = vs_height s \<and> v_Round v = vs_round s \<and> v_Type v = vs_signedMsgType s \<and>
     v_ValidatorAddress v = Address (Validators (vs_valSet s) ! i) \<and>
     (\<exists>pk. PubKey (Validators (vs_valSet s) ! i) = Some pk \<and> check_signature e s v pk = Ok ())"

lemma genuine_signature:
  assumes "genuine e s i v"
  shows "\<exists>pk bz. PubKey (Validators (vs_valSet s) ! i) = Some pk \<and> VoteSignBytes e (vs_chainID s) v = Ok bz \<and>
    VerifySignature (crypto e) pk bz (v_Signature v)"
proof -
  obtain pk where pk: "PubKey (Validators (vs_valSet s) ! i) = Some pk" "check_signature e s v pk = Ok ()"
    using assms by (auto simp: genuine_def)
  have "is_Ok (verifyAndReturnProto e (vs_chainID s) pk v)"
    using pk(2) by (auto simp: check_signature_def Vote_Verify_def VerifyVoteAndExtension_def is_Ok_iff split: if_splits)
  then show ?thesis using pk(1) by (auto simp: is_Ok_iff verifyAndReturnProto_def Let_def split: if_splits)
qed

text \<open>What no operation changes.\<close>

definition same_config :: "VoteSet \<Rightarrow> VoteSet \<Rightarrow> bool" where
  "same_config s t \<longleftrightarrow> vs_chainID s = vs_chainID t \<and> vs_height s = vs_height t \<and> vs_round s = vs_round t \<and>
     vs_signedMsgType s = vs_signedMsgType t \<and> Validators (vs_valSet s) = Validators (vs_valSet t) \<and>
     vs_extensionsEnabled s = vs_extensionsEnabled t"

lemma same_config_refl [simp]: "same_config s s"
  by (simp add: same_config_def)

lemma same_config_trans: "same_config s t \<Longrightarrow> same_config t u \<Longrightarrow> same_config s u"
  by (simp add: same_config_def)

lemma genuine_config: "same_config s t \<Longrightarrow> genuine e t = genuine e s"
  by (simp add: same_config_def genuine_def [abs_def] check_signature_def val_count_def)

lemma power_config:
  assumes "same_config s t"
  shows "val_count (vs_valSet t) = val_count (vs_valSet s)" "val_power (vs_valSet t) = val_power (vs_valSet s)"
    "power_of (vs_valSet t) = power_of (vs_valSet s)" "total_power (vs_valSet t) = total_power (vs_valSet s)"
    "quorum (vs_valSet t) = quorum (vs_valSet s)"
  using assms by (simp_all add: same_config_def val_count_def val_power_def [abs_def] power_of_def [abs_def] total_power_def quorum_def)

text \<open>An array of votes with its bit array and the power it adds up to.\<close>

definition tally :: "ValidatorSet \<Rightarrow> BitArray option \<Rightarrow> Vote option list \<Rightarrow> int \<Rightarrow> bool" where
  "tally vals ba votes s \<longleftrightarrow> length votes = val_count vals \<and>
     (votes \<noteq> [] \<longrightarrow> (\<exists>b. ba = Some b \<and> ba_wf b \<and> ba_bits b = map (\<lambda>v. v \<noteq> None) votes)) \<and>
     s = power_of vals (\<lambda>i. votes ! i \<noteq> None)"

lemma tally_set:
  assumes "tally vals ba votes s" "i < val_count vals"
  shows "\<exists>b r. SetIndex ba (int i) True = Ok (b, r) \<and> store votes (int i) (Some v) = Ok (votes[i := Some v]) \<and>
    tally vals b (votes[i := Some v]) (power_of vals (\<lambda>j. votes ! j \<noteq> None \<or> j = i))"
proof -
  have len: "length votes = val_count vals" using assms(1) by (simp add: tally_def)
  then have "votes \<noteq> []" using assms(2) by auto
  then obtain b where b: "ba = Some b" "ba_wf b" "ba_bits b = map (\<lambda>v. v \<noteq> None) votes"
    using assms(1) by (auto simp: tally_def)
  have "i < length (ba_bits b)" using b(3) len assms(2) by simp
  then obtain b' where b': "setIndex b (int i) True = Ok (b', True)" "ba_wf b'" "ba_bits b' = (ba_bits b)[i := True]"
    using ba.put_law [OF b(2)] by blast
  have "power_of vals (\<lambda>j. votes ! j \<noteq> None \<or> j = i) = power_of vals (\<lambda>j. votes[i := Some v] ! j \<noteq> None)"
    using len assms(2) by (intro power_of_cong) (auto simp: nth_list_update)
  moreover have "map (\<lambda>v. v \<noteq> None) (votes[i := Some v]) = (map (\<lambda>v. v \<noteq> None) votes)[i := True]"
    by (simp add: map_update)
  ultimately have "tally vals (Some b') (votes[i := Some v]) (power_of vals (\<lambda>j. votes ! j \<noteq> None \<or> j = i))"
    using b b' len by (simp add: tally_def)
  then show ?thesis using b(1) b'(1) len assms(2) by (simp add: SetIndex_def exI)
qed

lemma tally_sum_new:
  assumes "powers_ok vals" "tally vals ba votes s" "i < val_count vals" "votes ! i = None"
  shows "i64 (s + val_power vals i) = power_of vals (\<lambda>j. votes ! j \<noteq> None \<or> j = i)"
proof -
  have "s + val_power vals i = power_of vals (\<lambda>j. votes ! j \<noteq> None \<or> j = i)"
    using assms power_of_add [of i vals "\<lambda>j. votes ! j \<noteq> None"] by (simp add: tally_def)
  moreover have "is_i64 (power_of vals P)" for P
    using power_of_bounds [OF assms(1), of P] by (simp add: is_i64_def)
  ultimately show ?thesis by simp
qed

lemma tally_old: "tally vals ba votes s \<Longrightarrow> votes ! i \<noteq> None \<Longrightarrow> power_of vals (\<lambda>j. votes ! j \<noteq> None \<or> j = i) = s"
  by (auto simp: tally_def intro!: power_of_cong)

text \<open>
  The invariant, up to indices \<open>X\<close> whose canonical vote is not yet filed under its block: \<open>vs_addVerifiedVote\<close>
  passes through such a state.
\<close>

definition filed :: "env \<Rightarrow> VoteSet \<Rightarrow> bytes \<Rightarrow> blockVotes \<Rightarrow> bool" where
  "filed e s k b \<longleftrightarrow> tally (vs_valSet s) (bv_bitArray b) (bv_votes b) (bv_sum b) \<and>
     (\<forall>i < val_count (vs_valSet s). \<forall>v. bv_votes b ! i = Some v \<longrightarrow>
        genuine e s i v \<and> vote_ok v \<and> vkey v = k \<and> vs_votes s ! i \<noteq> None)"

definition canonical :: "env \<Rightarrow> (nat \<Rightarrow> bool) \<Rightarrow> VoteSet \<Rightarrow> bool" where
  "canonical e X s \<longleftrightarrow> tally (vs_valSet s) (vs_votesBitArray s) (vs_votes s) (vs_sum s) \<and>
     (\<forall>i < val_count (vs_valSet s). \<forall>v. vs_votes s ! i = Some v \<longrightarrow>
        genuine e s i v \<and> vote_ok v \<and>
        (X i \<or> vs_maj23 s \<noteq> None \<or> (\<exists>b. vs_votesByBlock s (vkey v) = Some b \<and> bv_votes b ! i = Some v)))"

definition majority :: "VoteSet \<Rightarrow> bool" where
  "majority s \<longleftrightarrow> (case vs_maj23 s of
       None \<Rightarrow> \<forall>k b. vs_votesByBlock s k = Some b \<longrightarrow> bv_sum b < quorum (vs_valSet s)
     | Some m \<Rightarrow> bid_ok m \<and> (\<exists>b. vs_votesByBlock s (BlockID_Key m) = Some b \<and> quorum (vs_valSet s) \<le> bv_sum b \<and>
         (\<forall>i < val_count (vs_valSet s). bv_votes b ! i \<noteq> None \<longrightarrow>
            (\<exists>v. vs_votes s ! i = Some v \<and> vkey v = BlockID_Key m))))"

definition voteset_inv :: "env \<Rightarrow> (nat \<Rightarrow> bool) \<Rightarrow> VoteSet \<Rightarrow> bool" where
  "voteset_inv e X s \<longleftrightarrow> powers_ok (vs_valSet s) \<and> canonical e X s \<and> majority s \<and>
     (\<forall>k b. vs_votesByBlock s k = Some b \<longrightarrow> filed e s k b)"

definition voteset_wf :: "env \<Rightarrow> VoteSet \<Rightarrow> bool" where
  "voteset_wf e s \<longleftrightarrow> voteset_inv e (\<lambda>_. False) s"

lemmas voteset_defs = voteset_inv_def canonical_def majority_def filed_def

section \<open>The operations keep it\<close>

lemma NewBitArray_tally:
  assumes "powers_ok vals"
  shows "\<exists>b. NewBitArray (VS_Size vals) = Ok b \<and> tally vals b (replicate (val_count vals) None) 0"
proof (cases "val_count vals = 0")
  case True
  then show ?thesis by (simp add: NewBitArray_def VS_Size_def val_count_def tally_def power_of_def wsum_def)
next
  case False
  have "VS_Size vals = int (val_count vals)" by (simp add: VS_Size_def val_count_def)
  then obtain b where b: "NewBitArray (VS_Size vals) = Ok (Some b)" "ba_wf b" "Bits b = int (val_count vals)" "\<forall>i. \<not> ba_bit b i"
    using NewBitArray_wf [of "VS_Size vals"] val_count_bound [OF assms] False by auto
  have "ba_bits b = replicate (val_count vals) False"
    using b by (intro nth_equalityI) (auto simp: ba_bits_def)
  moreover have "power_of vals (\<lambda>i. replicate (val_count vals) None ! i \<noteq> (None :: Vote option)) = 0"
    using power_of_cong [of vals _ "\<lambda>_. False"] by simp
  ultimately show ?thesis using b by (auto simp: tally_def)
qed

lemma NewVoteSet_wf:
  assumes "powers_ok vals" "h \<noteq> 0"
  shows "\<exists>s. NewVoteSet chainID h r t vals = Ok s \<and> voteset_wf e s \<and> vs_chainID s = chainID \<and> vs_height s = h \<and>
    vs_round s = r \<and> vs_signedMsgType s = t \<and> vs_valSet s = vals \<and> \<not> vs_extensionsEnabled s \<and> vs_maj23 s = None \<and>
    vs_votes s = replicate (val_count vals) None \<and> vs_votesByBlock s = Map.empty \<and> vs_peerMaj23s s = Map.empty"
proof -
  obtain b where b: "NewBitArray (VS_Size vals) = Ok b" "tally vals b (replicate (val_count vals) None) 0"
    using NewBitArray_tally [OF assms(1)] by blast
  then show ?thesis using assms
    by (simp add: NewVoteSet_def voteset_wf_def voteset_defs) (simp add: VS_Size_def val_count_def)
qed

lemma newBlockVotes_filed:
  assumes "powers_ok (vs_valSet s)"
  shows "\<exists>b. newBlockVotes p (VS_Size (vs_valSet s)) = Ok b \<and> filed e s k b \<and> bv_sum b = 0 \<and>
    bv_votes b = replicate (val_count (vs_valSet s)) None"
proof -
  obtain b where "NewBitArray (VS_Size (vs_valSet s)) = Ok b" "tally (vs_valSet s) b (replicate (val_count (vs_valSet s)) None) 0"
    using NewBitArray_tally [OF assms] by blast
  then show ?thesis by (auto simp: newBlockVotes_def filed_def VS_Size_def val_count_def)
qed

lemma bv_add_filed:
  assumes "powers_ok (vs_valSet s)" "filed e s k b" "genuine e s i v" "vote_ok v" "vkey v = k"
    "vs_votes s ! i \<noteq> None" "bv_votes b ! i = None"
  shows "\<exists>b'. bv_addVerifiedVote b v (val_power (vs_valSet s) i) = Ok b' \<and> filed e s k b' \<and>
    bv_votes b' = (bv_votes b)[i := Some v] \<and> bv_peerMaj23 b' = bv_peerMaj23 b"
proof -
  have i: "i < val_count (vs_valSet s)" "v_ValidatorIndex v = int i" using assms(3) by (auto simp: genuine_def)
  have t: "tally (vs_valSet s) (bv_bitArray b) (bv_votes b) (bv_sum b)" using assms(2) by (simp add: filed_def)
  then have len: "length (bv_votes b) = val_count (vs_valSet s)" by (simp add: tally_def)
  obtain ba r where ba: "SetIndex (bv_bitArray b) (int i) True = Ok (ba, r)"
      "store (bv_votes b) (int i) (Some v) = Ok ((bv_votes b)[i := Some v])"
      "tally (vs_valSet s) ba ((bv_votes b)[i := Some v]) (power_of (vs_valSet s) (\<lambda>j. bv_votes b ! j \<noteq> None \<or> j = i))"
    using tally_set [OF t i(1)] by blast
  have "bv_addVerifiedVote b v (val_power (vs_valSet s) i) =
      Ok (b\<lparr>bv_bitArray := ba, bv_votes := (bv_votes b)[i := Some v],
            bv_sum := power_of (vs_valSet s) (\<lambda>j. bv_votes b ! j \<noteq> None \<or> j = i)\<rparr>)"
    using i len assms(7) ba tally_sum_new [OF assms(1) t i(1) assms(7)] by (simp add: bv_addVerifiedVote_def)
  moreover have "filed e s k (b\<lparr>bv_bitArray := ba, bv_votes := (bv_votes b)[i := Some v],
            bv_sum := power_of (vs_valSet s) (\<lambda>j. bv_votes b ! j \<noteq> None \<or> j = i)\<rparr>)"
    using assms(2-6) ba(3) len i(1) by (simp add: filed_def nth_list_update)
  ultimately show ?thesis by simp
qed

lemma copy_votes_eq:
  assumes "length xs = length ys"
  shows "\<exists>zs. copy_votes xs ys = Ok zs \<and> length zs = length ys \<and>
    (\<forall>i < length ys. zs ! i = (if xs ! i = None then ys ! i else xs ! i))"
proof -
  let ?f = "\<lambda>(i, vote) votes. case vote of None \<Rightarrow> Ok votes | Some v \<Rightarrow> store votes i (Some v)"
  have "\<exists>zs. fold_out ?f (zip (map int [0..<n]) (take n xs)) ys = Ok zs \<and> length zs = length ys \<and>
      (\<forall>i < length ys. zs ! i = (if i < n \<and> xs ! i \<noteq> None then xs ! i else ys ! i))" if "n \<le> length xs" for n
    using that
  proof (induction n)
    case (Suc n)
    then obtain zs where zs: "fold_out ?f (zip (map int [0..<n]) (take n xs)) ys = Ok zs" "length zs = length ys"
      "\<forall>i < length ys. zs ! i = (if i < n \<and> xs ! i \<noteq> None then xs ! i else ys ! i)" by auto
    have "zip (map int [0..<Suc n]) (take (Suc n) xs) = zip (map int [0..<n]) (take n xs) @ [(int n, xs ! n)]"
      using Suc.prems by (simp add: take_Suc_conv_app_nth)
    then show ?case using zs Suc.prems assms
      by (cases "xs ! n") (auto simp: nth_list_update less_Suc_eq)
  qed simp
  from this [of "length xs"] show ?thesis using assms by (auto simp: copy_votes_def)
qed

lemma filedD:
  assumes "filed e s k b" "i < val_count (vs_valSet s)" "bv_votes b ! i = Some v"
  shows "genuine e s i v" "vote_ok v" "vkey v = k" "vs_votes s ! i \<noteq> None"
  using assms by (auto simp: filed_def)

lemma canonicalD:
  assumes "canonical e X s" "i < val_count (vs_valSet s)" "vs_votes s ! i = Some v"
  shows "genuine e s i v" "vote_ok v"
    "X i \<or> vs_maj23 s \<noteq> None \<or> (\<exists>b. vs_votesByBlock s (vkey v) = Some b \<and> bv_votes b ! i = Some v)"
  using assms unfolding canonical_def by blast+

lemma filed_config:
  assumes "same_config s t" "\<And>i. i < val_count (vs_valSet s) \<Longrightarrow> vs_votes s ! i \<noteq> None \<Longrightarrow> vs_votes t ! i \<noteq> None" "filed e s k b"
  shows "filed e t k b"
proof -
  have "tally (vs_valSet t) = tally (vs_valSet s)"
    using power_config [OF assms(1)] by (simp add: tally_def [abs_def])
  then show ?thesis using assms power_config [OF assms(1)] genuine_config [OF assms(1)] by (simp add: filed_def)
qed

lemma tally_config: "same_config s t \<Longrightarrow> tally (vs_valSet t) = tally (vs_valSet s)"
  using power_config [of s t] by (simp add: tally_def [abs_def])

text \<open>Filing a verified vote under its block, and finding the majority.\<close>

lemma add_by_block_wf:
  assumes inv: "voteset_inv e X s" and X: "\<And>j. X j \<Longrightarrow> j = i \<and> vs_votes s ! i = Some v"
    and v: "genuine e s i v" "vote_ok v" "vs_votes s ! i \<noteq> None"
    and maj: "\<And>m. vs_maj23 s = Some m \<Longrightarrow> BlockID_Key m = vkey v \<Longrightarrow> vs_votes s ! i = Some v"
    and b: "filed e s (vkey v) b" "bv_votes b ! i = None"
      "vs_votesByBlock s (vkey v) = Some b \<or> vs_votesByBlock s (vkey v) = None \<and> bv_votes b = replicate (val_count (vs_valSet s)) None \<and> bv_sum b = 0"
  shows "\<exists>t. add_by_block s b v (vkey v) (val_power (vs_valSet s) i) = Ok t \<and> voteset_wf e t \<and> same_config s t \<and>
    (vs_maj23 s \<noteq> None \<longrightarrow> vs_maj23 t = vs_maj23 s) \<and> vs_peerMaj23s t = vs_peerMaj23s s \<and>
    (\<forall>j < val_count (vs_valSet s). vs_votes t ! j = None \<longleftrightarrow> vs_votes s ! j = None) \<and>
    (vs_votes s ! i = Some v \<longrightarrow> vs_votes t ! i = Some v) \<and> (\<forall>k. k \<noteq> vkey v \<longrightarrow> vs_votesByBlock t k = vs_votesByBlock s k)"
proof -
  have ok: "powers_ok (vs_valSet s)" and cn: "canonical e X s" using inv by (simp_all add: voteset_inv_def)
  obtain b' where b': "bv_addVerifiedVote b v (val_power (vs_valSet s) i) = Ok b'" "filed e s (vkey v) b'"
      "bv_votes b' = (bv_votes b)[i := Some v]"
    using bv_add_filed [OF ok b(1) v(1,2) refl v(3) b(2)] by blast
  have i: "i < val_count (vs_valSet s)" using v(1) by (simp add: genuine_def)
  have len: "length (bv_votes b) = val_count (vs_valSet s)" "length (bv_votes b') = val_count (vs_valSet s)"
      "length (vs_votes s) = val_count (vs_valSet s)"
    using b(1) b'(2) inv by (auto simp: voteset_defs tally_def)
  define vals where "vals = (vs_valSet s)\<lparr>totalVotingPower := total_power (vs_valSet s)\<rparr>"
  define u where "u = s\<lparr>vs_valSet := vals, vs_votesByBlock := (vs_votesByBlock s)(vkey v \<mapsto> b')\<rparr>"
  have u: "same_config s u" "powers_ok (vs_valSet u)" using ok by (simp_all add: u_def vals_def same_config_def)
  note cfg = power_config [OF u(1)] genuine_config [OF u(1)] tally_config [OF u(1)]
  have filed: "filed e u k c" if "vs_votesByBlock u k = Some c" for k c
    using that inv b'(2) by (intro filed_config [OF u(1)]) (auto simp: u_def voteset_inv_def split: if_splits)
  show ?thesis
  proof (cases "bv_sum b < quorum (vs_valSet s) \<and> quorum (vs_valSet s) \<le> bv_sum b' \<and> vs_maj23 s = None")
    case True
    obtain zs where zs: "copy_votes (bv_votes b') (vs_votes s) = Ok zs" "length zs = length (vs_votes s)"
        "\<forall>j < length (vs_votes s). zs ! j = (if bv_votes b' ! j = None then vs_votes s ! j else bv_votes b' ! j)"
      using copy_votes_eq [of "bv_votes b'" "vs_votes s"] len by auto
    have zn: "zs ! j = None \<longleftrightarrow> vs_votes s ! j = None" if "j < val_count (vs_valSet s)" for j
      using that zs(3) len b'(2) by (cases "bv_votes b' ! j") (auto simp: filed_def)
    define t where "t = u\<lparr>vs_votes := zs, vs_maj23 := Some (v_BlockID v)\<rparr>"
    have "add_by_block s b v (vkey v) (val_power (vs_valSet s) i) = Ok t"
      using True b'(1) zs(1) quorum_code(1) [OF ok]
      by (simp add: add_by_block_def TotalVotingPower_total [OF ok] Let_def t_def u_def vals_def)
    moreover have t: "same_config s t" using u(1) by (simp add: t_def same_config_def)
    moreover have "voteset_wf e t"
    proof -
      note tcfg = power_config [OF t] genuine_config [OF t] tally_config [OF t]
      have "tally (vs_valSet s) (vs_votesBitArray s) zs (vs_sum s)"
      proof -
        have "map (\<lambda>v. v \<noteq> None) zs = map (\<lambda>v. v \<noteq> None) (vs_votes s)"
          using zn zs(2) len(3) by (auto intro!: nth_equalityI)
        moreover have "power_of (vs_valSet s) (\<lambda>j. zs ! j \<noteq> None) = power_of (vs_valSet s) (\<lambda>j. vs_votes s ! j \<noteq> None)"
          using zn by (intro power_of_cong) auto
        ultimately show ?thesis using inv zs(2) by (auto simp: voteset_defs tally_def)
      qed
      moreover have "genuine e s j w \<and> vote_ok w" if "j < val_count (vs_valSet s)" "zs ! j = Some w" for j w
        using that zs(3) len b'(2) inv by (cases "bv_votes b' ! j") (auto simp: voteset_defs)
      ultimately have "canonical e (\<lambda>_. False) t"
        unfolding canonical_def tcfg by (simp add: t_def u_def)
      moreover have "majority t"
      proof -
        have "\<exists>w. zs ! j = Some w \<and> vkey w = vkey v" if j: "j < val_count (vs_valSet s)" "bv_votes b' ! j \<noteq> None" for j
        proof -
          obtain w where w: "bv_votes b' ! j = Some w" using j(2) by blast
          then show ?thesis using zs(3) len(3) j(1) filedD(3) [OF b'(2) j(1) w] by simp
        qed
        then show ?thesis using True vote_ok_bid [OF v(2)] unfolding majority_def tcfg by (simp add: t_def u_def)
      qed
      moreover have "filed e t k c" if "vs_votesByBlock t k = Some c" for k c
      proof (rule filed_config)
        show "filed e u k c" using that by (intro filed) (simp add: t_def)
        show "same_config u t" by (simp add: t_def same_config_def)
        show "vs_votes t ! j \<noteq> None" if "j < val_count (vs_valSet u)" "vs_votes u ! j \<noteq> None" for j
          using that zn by (simp add: t_def u_def vals_def)
      qed
      ultimately show ?thesis using u(2) by (simp add: voteset_wf_def voteset_inv_def t_def)
    qed
    moreover have "vs_maj23 s = None" using True by simp
    moreover have "\<forall>j < val_count (vs_valSet s). vs_votes t ! j = None \<longleftrightarrow> vs_votes s ! j = None" "vs_votes t ! i = Some v"
      using zn zs(3) b'(3) len i by (auto simp: t_def)
    ultimately show ?thesis by (auto simp: t_def u_def)
  next
    case False
    then have eq: "add_by_block s b v (vkey v) (val_power (vs_valSet s) i) = Ok u"
      using b'(1) quorum_code(1) [OF ok]
      by (auto simp: add_by_block_def TotalVotingPower_total [OF ok] Let_def u_def vals_def)
    have can: "canonical e (\<lambda>_. False) u"
    proof -
      have "vs_maj23 s \<noteq> None \<or> (\<exists>c. vs_votesByBlock u (vkey w) = Some c \<and> bv_votes c ! j = Some w)"
        if w: "j < val_count (vs_valSet s)" "vs_votes s ! j = Some w" for j w
      proof -
        consider "X j" | "vs_maj23 s \<noteq> None" | c where "vs_votesByBlock s (vkey w) = Some c" "bv_votes c ! j = Some w"
          using canonicalD(3) [OF cn w] by blast
        then show ?thesis
        proof cases
          case 1
          then have "j = i" "w = v" using X [OF 1] w(2) by auto
          then show ?thesis using b'(3) i len by (simp add: u_def)
        next
          case 3
          then have "j \<noteq> i" if "vkey w = vkey v" using that b(2,3) w(1) by auto
          then show ?thesis using 3 b(3) b'(3) w(1) by (auto simp: u_def)
        qed simp
      qed
      then show ?thesis using inv unfolding voteset_inv_def canonical_def cfg by (simp add: u_def)
    qed
    have le: "bv_sum b \<le> bv_sum b'"
    proof -
      have "bv_sum b = power_of (vs_valSet s) (\<lambda>j. bv_votes b ! j \<noteq> None)" "bv_sum b' = power_of (vs_valSet s) (\<lambda>j. bv_votes b' ! j \<noteq> None)"
        using b(1) b'(2) by (auto simp: filed_def tally_def)
      then show ?thesis using b'(3) len i power_of_mono [OF ok] by (simp add: nth_list_update)
    qed
    have "majority u"
    proof (cases "vs_maj23 s")
      case None
      have "bv_sum b < quorum (vs_valSet s)"
        using b(3) inv None total_power_bounds(1) [OF ok] by (auto simp: voteset_inv_def majority_def quorum_def)
      then have "bv_sum b' < quorum (vs_valSet s)" using False None by simp
      then show ?thesis using inv None unfolding voteset_inv_def majority_def cfg by (simp add: u_def)
    next
      case (Some m)
      then obtain c where c: "bid_ok m" "vs_votesByBlock s (BlockID_Key m) = Some c" "quorum (vs_valSet s) \<le> bv_sum c"
          "\<And>j. j < val_count (vs_valSet s) \<Longrightarrow> bv_votes c ! j \<noteq> None \<Longrightarrow> \<exists>w. vs_votes s ! j = Some w \<and> vkey w = BlockID_Key m"
        using inv by (auto simp: voteset_inv_def majority_def)
      show ?thesis
      proof (cases "BlockID_Key m = vkey v")
        case True
        then have "c = b" using c(2) b(3) by auto
        have "\<exists>w. vs_votes s ! j = Some w \<and> vkey w = BlockID_Key m" if "j < val_count (vs_valSet s)" "bv_votes b' ! j \<noteq> None" for j
          using that c(4) [of j] \<open>c = b\<close> maj [OF Some True] True b'(3) len by (cases "j = i") auto
        then show ?thesis using Some c(1,3) \<open>c = b\<close> le True unfolding majority_def cfg by (simp add: u_def)
      next
        case False
        then show ?thesis using Some c unfolding majority_def cfg by (simp add: u_def)
      qed
    qed
    then have "voteset_wf e u" using can u(2) filed by (simp add: voteset_wf_def voteset_inv_def)
    then show ?thesis using eq u(1) by (auto simp: u_def)
  qed
qed

text \<open>Setting the canonical vote of a validator that had none, or in favour of the majority.\<close>

lemma set_canonical:
  assumes inv: "voteset_wf e s" and v: "genuine e s i v" "vote_ok v"
    and why: "vs_votes s ! i = None \<or> (\<exists>m. vs_maj23 s = Some m \<and> BlockID_Key m = vkey v)"
    and t: "tally (vs_valSet s) b ((vs_votes s)[i := Some v]) c"
  shows "voteset_inv e (\<lambda>j. j = i \<and> vs_maj23 s = None)
    (s\<lparr>vs_votes := (vs_votes s)[i := Some v], vs_votesBitArray := b, vs_sum := c\<rparr>)" (is "voteset_inv e ?X ?t")
proof -
  have cn: "canonical e (\<lambda>_. False) s" and mj: "majority s" and fl: "\<And>k b. vs_votesByBlock s k = Some b \<Longrightarrow> filed e s k b"
    using inv by (auto simp: voteset_wf_def voteset_inv_def)
  have i: "i < val_count (vs_valSet s)" "i < length (vs_votes s)"
    using v(1) t by (auto simp: genuine_def tally_def)
  have cfg: "same_config s ?t" by (simp add: same_config_def)
  have "canonical e ?X ?t"
    unfolding canonical_def power_config [OF cfg] genuine_config [OF cfg] tally_config [OF cfg]
  proof (intro conjI allI impI)
    fix j w assume j: "j < val_count (vs_valSet s)" and w: "vs_votes ?t ! j = Some w"
    then have w': "j = i \<Longrightarrow> w = v" "j \<noteq> i \<Longrightarrow> vs_votes s ! j = Some w" using i by auto
    show "genuine e s j w" "vote_ok w"
      using w' canonicalD(1,2) [OF cn j] v by (cases "j = i"; blast)+
    show "(j = i \<and> vs_maj23 s = None) \<or> vs_maj23 ?t \<noteq> None \<or> (\<exists>b. vs_votesByBlock ?t (vkey w) = Some b \<and> bv_votes b ! j = Some w)"
      using w' canonicalD(3) [OF cn j] by (cases "j = i") auto
  qed (use t in simp)
  moreover have "majority ?t"
  proof (cases "vs_maj23 s")
    case None
    then show ?thesis using mj by (simp add: majority_def)
  next
    case (Some m)
    then obtain c where c: "bid_ok m" "vs_votesByBlock s (BlockID_Key m) = Some c" "quorum (vs_valSet s) \<le> bv_sum c"
        "\<And>j. j < val_count (vs_valSet s) \<Longrightarrow> bv_votes c ! j \<noteq> None \<Longrightarrow> \<exists>w. vs_votes s ! j = Some w \<and> vkey w = BlockID_Key m"
      using mj by (auto simp: majority_def)
    have "vkey v = BlockID_Key m" if "bv_votes c ! i \<noteq> None"
      using c(4) [OF i(1) that] why Some by auto
    then have "\<exists>w. (vs_votes s)[i := Some v] ! j = Some w \<and> vkey w = BlockID_Key m" if "j < val_count (vs_valSet s)" "bv_votes c ! j \<noteq> None" for j
      using that c(4) [of j] i by (cases "j = i") auto
    then show ?thesis using Some c(1-3) by (simp add: majority_def)
  qed
  moreover have "filed e ?t k b" if "vs_votesByBlock ?t k = Some b" for k b
    using filed_config [OF cfg _ fl [of k b]] that i by (simp add: nth_list_update)
  ultimately show ?thesis using inv by (simp add: voteset_inv_def voteset_wf_def)
qed

text \<open>The canonical vote of a verified vote that is not known yet.\<close>

lemma add_canonical_wf:
  assumes wf: "voteset_wf e s" and v: "genuine e s i v" "vote_ok v"
    and new: "vs_getVote s (int i) (vkey v) = Ok None"
  shows "\<exists>t X. add_canonical s v (vkey v) (val_power (vs_valSet s) i) = Ok (t, vs_votes s ! i) \<and> voteset_inv e X t \<and> same_config s t \<and>
    (\<forall>j. X j \<longrightarrow> j = i \<and> vs_votes t ! i = Some v) \<and> vs_votes t ! i \<noteq> None \<and>
    (\<forall>m. vs_maj23 t = Some m \<longrightarrow> BlockID_Key m = vkey v \<longrightarrow> vs_votes t ! i = Some v) \<and>
    (vs_votes s ! i \<noteq> None \<longrightarrow> X = (\<lambda>_. False)) \<and> (vs_votes s ! i = None \<longrightarrow> vs_votes t ! i = Some v) \<and>
    (\<forall>j. vs_votes s ! j \<noteq> None \<longrightarrow> vs_votes t ! j \<noteq> None) \<and>
    vs_maj23 t = vs_maj23 s \<and> vs_votesByBlock t = vs_votesByBlock s \<and> vs_peerMaj23s t = vs_peerMaj23s s"
proof -
  have cn: "canonical e (\<lambda>_. False) s" and ok: "powers_ok (vs_valSet s)" using wf by (auto simp: voteset_wf_def voteset_inv_def)
  have i: "i < val_count (vs_valSet s)" "v_ValidatorIndex v = int i" using v(1) by (auto simp: genuine_def)
  have ta: "tally (vs_valSet s) (vs_votesBitArray s) (vs_votes s) (vs_sum s)" using cn by (simp add: canonical_def)
  then have len: "length (vs_votes s) = val_count (vs_valSet s)" by (simp add: tally_def)
  obtain b r where b: "SetIndex (vs_votesBitArray s) (int i) True = Ok (b, r)"
      "store (vs_votes s) (int i) (Some v) = Ok ((vs_votes s)[i := Some v])"
      "tally (vs_valSet s) b ((vs_votes s)[i := Some v]) (power_of (vs_valSet s) (\<lambda>j. vs_votes s ! j \<noteq> None \<or> j = i))"
    using tally_set [OF ta i(1)] by blast
  let ?t = "\<lambda>c. s\<lparr>vs_votes := (vs_votes s)[i := Some v], vs_votesBitArray := b, vs_sum := c\<rparr>"
  have cfg: "same_config s (?t c)" for c by (simp add: same_config_def)
  have keep: "\<forall>j. vs_votes s ! j \<noteq> None \<longrightarrow> (vs_votes s)[i := Some v] ! j \<noteq> None"
    using len i(1) by (simp add: nth_list_update)
  show ?thesis
  proof (cases "vs_votes s ! i")
    case None
    let ?c = "power_of (vs_valSet s) (\<lambda>j. vs_votes s ! j \<noteq> None \<or> j = i)"
    have "add_canonical s v (vkey v) (val_power (vs_valSet s) i) = Ok (?t ?c, None)"
      using None i len b tally_sum_new [OF ok ta i(1) None] by (simp add: add_canonical_def Let_def)
    then show ?thesis using set_canonical [OF wf v _ b(3)] None cfg [of ?c] len i(1) keep
      by (intro exI [of _ "?t ?c"] exI [of _ "\<lambda>j. j = i \<and> vs_maj23 s = None"]) simp
  next
    case (Some ex)
    have ne: "vkey ex \<noteq> vkey v" using new Some i(1) len by (auto simp: vs_getVote_def split: if_splits)
    show ?thesis
    proof (cases "\<exists>m. vs_maj23 s = Some m \<and> BlockID_Key m = vkey v")
      case True
      have c: "power_of (vs_valSet s) (\<lambda>j. vs_votes s ! j \<noteq> None \<or> j = i) = vs_sum s" using tally_old [OF ta] Some by simp
      have "add_canonical s v (vkey v) (val_power (vs_valSet s) i) = Ok (?t (vs_sum s), Some ex)"
        using True Some ne i len b by (auto simp: add_canonical_def Let_def)
      then show ?thesis using set_canonical [OF wf v _ b(3)] True Some cfg [of "vs_sum s"] len i(1) c keep
        by (intro exI [of _ "?t (vs_sum s)"] exI [of _ "\<lambda>_. False"]) auto
    next
      case False
      then have "add_canonical s v (vkey v) (val_power (vs_valSet s) i) = Ok (s, Some ex)"
        using Some ne i len by (auto simp: add_canonical_def Let_def split: option.splits)
      then show ?thesis using False Some wf by (intro exI [of _ s] exI [of _ "\<lambda>_. False"]) (auto simp: voteset_wf_def)
    qed
  qed
qed

lemma addVerifiedVote_wf:
  assumes wf: "voteset_wf e s" and v: "genuine e s i v" "vote_ok v"
    and new: "vs_getVote s (int i) (vkey v) = Ok None"
  shows "\<exists>t added. vs_addVerifiedVote s v (vkey v) (val_power (vs_valSet s) i) = Ok (t, added, vs_votes s ! i) \<and>
    voteset_wf e t \<and> same_config s t \<and> (vs_votes s ! i = None \<longrightarrow> added) \<and>
    (vs_maj23 s \<noteq> None \<longrightarrow> vs_maj23 t = vs_maj23 s) \<and> vs_peerMaj23s t = vs_peerMaj23s s \<and>
    (vs_votes s ! i = None \<longrightarrow> vs_votes t ! i = Some v) \<and> vs_votes t ! i \<noteq> None \<and>
    (\<forall>j < val_count (vs_valSet s). vs_votes s ! j \<noteq> None \<longrightarrow> vs_votes t ! j \<noteq> None) \<and>
    (\<forall>k. k \<noteq> vkey v \<longrightarrow> vs_votesByBlock t k = vs_votesByBlock s k)"
proof -
  obtain t X where t: "add_canonical s v (vkey v) (val_power (vs_valSet s) i) = Ok (t, vs_votes s ! i)"
      "voteset_inv e X t" "same_config s t" "\<forall>j. X j \<longrightarrow> j = i \<and> vs_votes t ! i = Some v" "vs_votes t ! i \<noteq> None"
      "\<forall>m. vs_maj23 t = Some m \<longrightarrow> BlockID_Key m = vkey v \<longrightarrow> vs_votes t ! i = Some v"
      "vs_votes s ! i \<noteq> None \<longrightarrow> X = (\<lambda>_. False)"
      "vs_votes s ! i = None \<longrightarrow> vs_votes t ! i = Some v" "\<forall>j. vs_votes s ! j \<noteq> None \<longrightarrow> vs_votes t ! j \<noteq> None"
      "vs_maj23 t = vs_maj23 s" "vs_votesByBlock t = vs_votesByBlock s" "vs_peerMaj23s t = vs_peerMaj23s s"
    using add_canonical_wf [OF wf v new] by (elim exE conjE) (rule that)
  have g: "genuine e t i v" using v(1) genuine_config [OF t(3)] by simp
  have ok: "powers_ok (vs_valSet t)" using t(2) by (simp add: voteset_inv_def)
  have i: "i < val_count (vs_valSet s)" using v(1) by (simp add: genuine_def)
  have early: ?thesis if "vs_addVerifiedVote s v (vkey v) (val_power (vs_valSet s) i) = Ok (t, False, vs_votes s ! i)" "vs_votes s ! i \<noteq> None"
    using that t by (auto simp: voteset_wf_def)
  have late: ?thesis
    if "vs_addVerifiedVote s v (vkey v) (val_power (vs_valSet s) i) =
          map_out (\<lambda>s'. (s', True, vs_votes s ! i)) (add_by_block t b v (vkey v) (val_power (vs_valSet s) i))"
      and b: "filed e t (vkey v) b" "bv_votes b ! i = None"
      "vs_votesByBlock t (vkey v) = Some b \<or> vs_votesByBlock t (vkey v) = None \<and> bv_votes b = replicate (val_count (vs_valSet t)) None \<and> bv_sum b = 0" for b
  proof -
    have "\<exists>u. add_by_block t b v (vkey v) (val_power (vs_valSet t) i) = Ok u \<and> voteset_wf e u \<and> same_config t u \<and>
        (vs_maj23 t \<noteq> None \<longrightarrow> vs_maj23 u = vs_maj23 t) \<and> vs_peerMaj23s u = vs_peerMaj23s t \<and>
        (\<forall>j < val_count (vs_valSet t). vs_votes u ! j = None \<longleftrightarrow> vs_votes t ! j = None) \<and>
        (vs_votes t ! i = Some v \<longrightarrow> vs_votes u ! i = Some v) \<and> (\<forall>k. k \<noteq> vkey v \<longrightarrow> vs_votesByBlock u k = vs_votesByBlock t k)"
      by (rule add_by_block_wf [OF t(2) _ g v(2) t(5) _ b]) (use t(4,6) in auto)
    then obtain u where "add_by_block t b v (vkey v) (val_power (vs_valSet t) i) = Ok u" "voteset_wf e u" "same_config t u"
        "vs_maj23 t \<noteq> None \<longrightarrow> vs_maj23 u = vs_maj23 t" "vs_peerMaj23s u = vs_peerMaj23s t"
        "\<forall>j < val_count (vs_valSet t). vs_votes u ! j = None \<longleftrightarrow> vs_votes t ! j = None"
        "vs_votes t ! i = Some v \<longrightarrow> vs_votes u ! i = Some v" "\<forall>k. k \<noteq> vkey v \<longrightarrow> vs_votesByBlock u k = vs_votesByBlock t k"
      by blast
    moreover have "val_count (vs_valSet t) = val_count (vs_valSet s)" "val_power (vs_valSet t) = val_power (vs_valSet s)"
      using power_config [OF t(3)] by auto
    ultimately show ?thesis using that(1) t(5,8-12) i same_config_trans [OF t(3)]
      by (intro exI [of _ u] exI [of _ True]) simp
  qed
  show ?thesis
  proof (cases "vs_votesByBlock t (vkey v)")
    case (Some b)
    have f: "filed e t (vkey v) b" using t(2) Some by (simp add: voteset_inv_def)
    then have "length (bv_votes b) = val_count (vs_valSet s)" using power_config(1) [OF t(3)] by (simp add: filed_def tally_def)
    then have n: "bv_votes b ! i = None"
      using new Some i unfolding t(11) by (auto simp: vs_getVote_def bv_getByIndex_def split: if_splits)
    show ?thesis
    proof (cases "vs_votes s ! i \<noteq> None \<and> \<not> bv_peerMaj23 b")
      case True
      then show ?thesis using Some t(1) by (intro early) (auto simp: vs_addVerifiedVote_def)
    next
      case False
      show ?thesis by (rule late [OF _ f n]) (use Some t(1) False in \<open>auto simp: vs_addVerifiedVote_def\<close>)
    qed
  next
    case None
    obtain b where b: "newBlockVotes False (VS_Size (vs_valSet t)) = Ok b" "filed e t (vkey v) b" "bv_sum b = 0"
        "bv_votes b = replicate (val_count (vs_valSet t)) None"
      using newBlockVotes_filed [OF ok] by blast
    show ?thesis
    proof (cases "vs_votes s ! i")
      case N: None
      have "bv_votes b ! i = None" using b(4) i power_config(1) [OF t(3)] by simp
      then show ?thesis by (intro late [OF _ b(2)]) (use None N t(1) b in \<open>auto simp: vs_addVerifiedVote_def\<close>)
    next
      case (Some c)
      then show ?thesis using None t(1) by (intro early) (auto simp: vs_addVerifiedVote_def)
    qed
  qed
qed

text \<open>What \<open>AddVote\<close> does: either it leaves the set alone, or it adds a genuine vote that it did not know.\<close>

lemma addVote_cases:
  assumes "vs_addVote e s vo = Ok (t, added, err)" "voteset_wf e s"
  obtains (rejected) "t = s" "\<not> added" "err = None \<or> (\<exists>x. err = Some (VoteError x))"
  | (verified) v i conflicting where "vo = Some v" "genuine e s i v" "vs_getVote s (int i) (vkey v) = Ok None"
      "vs_addVerifiedVote s v (vkey v) (val_power (vs_valSet s) i) = Ok (t, added, conflicting)"
      "err = map_option (\<lambda>c. ErrVoteConflictingVotes c v) conflicting" "conflicting = None \<Longrightarrow> added"
proof (cases vo)
  case None
  then show thesis using assms(1) rejected by (auto simp: vs_addVote_def reject_def)
next
  case (Some v)
  have keep: thesis if "vs_addVote e s vo = Ok (s, False, x)" "x = None \<or> (\<exists>y. x = Some (VoteError y))" for x
    using that assms(1) rejected by auto
  have err: thesis if "vs_addVote e s vo = reject s x" for x
    using that keep by (auto simp: reject_def)
  consider "v_ValidatorIndex v < 0" | "0 \<le> v_ValidatorIndex v" "v_ValidatorAddress v = []"
    | "0 \<le> v_ValidatorIndex v" "v_ValidatorAddress v \<noteq> []" "v_Height v \<noteq> vs_height s \<or> v_Round v \<noteq> vs_round s \<or> v_Type v \<noteq> vs_signedMsgType s"
    | "0 \<le> v_ValidatorIndex v" "v_ValidatorAddress v \<noteq> []" "v_Height v = vs_height s" "v_Round v = vs_round s" "v_Type v = vs_signedMsgType s"
    by fastforce
  then show thesis
  proof cases
    case 4
    define i where "i = nat (v_ValidatorIndex v)"
    have i: "v_ValidatorIndex v = int i" using 4 by (simp add: i_def)
    let ?val = "Validators (vs_valSet s) ! i"
    show thesis
    proof (cases "i < val_count (vs_valSet s) \<and> v_ValidatorAddress v = Address ?val")
      case False
      then show thesis using Some 4 i
        by (cases "i < val_count (vs_valSet s)") (auto simp: vs_addVote_def GetByIndex_def val_count_def Let_def intro!: err)
    next
      case True
      then have go: "vs_addVote e s vo = bind_out (vs_getVote s (int i) (vkey v)) (\<lambda>known. case known of
            Some existing \<Rightarrow> if v_Signature existing = v_Signature v then Ok (s, False, None)
                             else reject s (Wrapf ''existing vote'' ErrVoteNonDeterministicSignature)
          | None \<Rightarrow> bind_out (need_key (PubKey ?val)) (\<lambda>pubKey. case check_signature e s v pubKey of
                Panic x \<Rightarrow> Panic x | Err er \<Rightarrow> reject s er
              | Ok _ \<Rightarrow> bind_out (vs_addVerifiedVote s v (vkey v) (VotingPower ?val)) (\<lambda>(voteSet, added, conflicting).
                  case conflicting of Some c \<Rightarrow> Ok (voteSet, added, Some (ErrVoteConflictingVotes c v))
                  | None \<Rightarrow> if \<not> added then Panic ''Expected to add non-conflicting vote'' else Ok (voteSet, added, None))))"
        using Some 4 i by (simp add: vs_addVote_def GetByIndex_def val_count_def Let_def)
      then obtain known where known: "vs_getVote s (int i) (vkey v) = Ok known"
        using assms(1) by (cases "vs_getVote s (int i) (vkey v)") auto
      show thesis
      proof (cases known)
        case S: (Some ex)
        then show thesis using go known by (cases "v_Signature ex = v_Signature v") (auto intro: err keep)
      next
        case N: None
        then obtain pk where pk: "PubKey ?val = Some pk" using go known assms(1) by (cases "PubKey ?val") (auto simp: need_key_def)
        show thesis
        proof (cases "check_signature e s v pk")
          case (Ok x)
          have "bind_out (vs_addVerifiedVote s v (vkey v) (VotingPower ?val)) (\<lambda>(voteSet, added, conflicting).
                  case conflicting of Some c \<Rightarrow> Ok (voteSet, added, Some (ErrVoteConflictingVotes c v))
                  | None \<Rightarrow> if \<not> added then Panic ''Expected to add non-conflicting vote'' else Ok (voteSet, added, None)) = Ok (t, added, err)"
            using go known N pk Ok assms(1) by (simp add: need_key_def)
          then obtain u a c where u: "vs_addVerifiedVote s v (vkey v) (VotingPower ?val) = Ok (u, a, c)" "u = t" "a = added"
              "err = map_option (\<lambda>c. ErrVoteConflictingVotes c v) c" "c = None \<Longrightarrow> added"
            by (auto split: option.splits if_splits)
          moreover have "genuine e s i v" using 4 i True pk Ok by (simp add: genuine_def)
          ultimately show thesis using known N by (intro verified [OF Some, of i c]) (simp_all add: val_power_def)
        qed (use go known N pk assms(1) err in \<open>auto simp: need_key_def\<close>)
      qed
    qed
  qed (use Some in \<open>auto simp: vs_addVote_def Let_def intro: err\<close>)
qed

text \<open>The steps a vote set takes. Votes that reach it have passed \<open>ValidateBasic\<close>.\<close>

inductive vs_step :: "env \<Rightarrow> VoteSet \<Rightarrow> VoteSet \<Rightarrow> bool" for e where
  add: "vs_addVote e s (Some v) = Ok (t, added, err) \<Longrightarrow> vote_ok v \<Longrightarrow> vs_step e s t"
| claim: "SetPeerMaj23 (Some s) peer b = Ok (t, err) \<Longrightarrow> vs_step e s t"

inductive vs_steps :: "env \<Rightarrow> VoteSet \<Rightarrow> VoteSet \<Rightarrow> bool" for e where
  none: "vs_steps e s s"
| more: "vs_steps e s t \<Longrightarrow> vs_step e t u \<Longrightarrow> vs_steps e s u"

lemma addVote_wf:
  assumes "vs_addVote e s (Some v) = Ok (t, added, err)" "voteset_wf e s" "vote_ok v"
  shows "voteset_wf e t" "same_config s t" "vs_maj23 s \<noteq> None \<Longrightarrow> vs_maj23 t = vs_maj23 s"
proof -
  have "voteset_wf e t \<and> same_config s t \<and> (vs_maj23 s \<noteq> None \<longrightarrow> vs_maj23 t = vs_maj23 s)"
    using assms(1,2)
  proof (cases rule: addVote_cases)
    case (verified w i c)
    then show ?thesis using addVerifiedVote_wf [OF assms(2) verified(2) _ verified(3)] assms(3) by auto
  qed (use assms(2) in simp)
  then show "voteset_wf e t" "same_config s t" "vs_maj23 s \<noteq> None \<Longrightarrow> vs_maj23 t = vs_maj23 s" by auto
qed

lemma claimed_wf:
  assumes wf: "voteset_wf e s" and f: "filed e s k b"
    and b: "\<And>c. vs_votesByBlock s k = Some c \<Longrightarrow> bv_votes b = bv_votes c \<and> bv_sum b = bv_sum c"
      "vs_votesByBlock s k = None \<Longrightarrow> bv_sum b = 0"
  shows "voteset_wf e (s\<lparr>vs_peerMaj23s := p, vs_votesByBlock := (vs_votesByBlock s)(k \<mapsto> b)\<rparr>)" (is "voteset_wf e ?t")
proof -
  have cn: "canonical e (\<lambda>_. False) s" and mj: "majority s" and ok: "powers_ok (vs_valSet s)"
    and fl: "\<And>k b. vs_votesByBlock s k = Some b \<Longrightarrow> filed e s k b"
    using wf by (auto simp: voteset_wf_def voteset_inv_def)
  have cfg: "same_config s ?t" by (simp add: same_config_def)
  have "canonical e (\<lambda>_. False) ?t"
    unfolding canonical_def power_config [OF cfg] genuine_config [OF cfg] tally_config [OF cfg]
  proof (intro conjI allI impI)
    fix j w assume j: "j < val_count (vs_valSet s)" and "vs_votes ?t ! j = Some w"
    then have w: "vs_votes s ! j = Some w" by simp
    show "genuine e s j w" "vote_ok w" using canonicalD [OF cn j w] by auto
    show "False \<or> vs_maj23 ?t \<noteq> None \<or> (\<exists>c. vs_votesByBlock ?t (vkey w) = Some c \<and> bv_votes c ! j = Some w)"
      using canonicalD(3) [OF cn j w] b(1) by (cases "vkey w = k") auto
  qed (use cn in \<open>simp add: canonical_def\<close>)
  moreover have "majority ?t"
  proof (cases "vs_maj23 s")
    case None
    have "bv_sum b < quorum (vs_valSet s)"
      using b mj None total_power_bounds(1) [OF ok]
      by (cases "vs_votesByBlock s k") (auto simp: majority_def quorum_def)
    then show ?thesis using mj None by (simp add: majority_def)
  next
    case (Some m)
    then show ?thesis using mj b(1) by (cases "BlockID_Key m = k") (auto simp: majority_def)
  qed
  moreover have "filed e ?t j c" if "vs_votesByBlock ?t j = Some c" for j c
  proof (rule filed_config [OF cfg])
    show "filed e s j c" using that f fl by (auto split: if_splits)
  qed simp
  ultimately show ?thesis using ok by (simp add: voteset_wf_def voteset_inv_def)
qed

lemma SetPeerMaj23_wf:
  assumes "SetPeerMaj23 (Some s) peer m = Ok (t, err)" "voteset_wf e s"
  shows "voteset_wf e t \<and> same_config s t \<and> vs_maj23 t = vs_maj23 s \<and> vs_votes t = vs_votes s"
proof -
  let ?k = "BlockID_Key m" and ?p = "(vs_peerMaj23s s)(peer \<mapsto> m)"
  have ok: "powers_ok (vs_valSet s)" and fl: "\<And>k b. vs_votesByBlock s k = Some b \<Longrightarrow> filed e s k b"
    using assms(2) by (auto simp: voteset_wf_def voteset_inv_def)
  have goal: ?thesis
    if "t = s\<lparr>vs_peerMaj23s := ?p, vs_votesByBlock := (vs_votesByBlock s)(?k \<mapsto> b)\<rparr>" "filed e s ?k b"
      "\<And>c. vs_votesByBlock s ?k = Some c \<Longrightarrow> bv_votes b = bv_votes c \<and> bv_sum b = bv_sum c"
      "vs_votesByBlock s ?k = None \<Longrightarrow> bv_sum b = 0" for b
    using claimed_wf [OF assms(2) that(2-4)] that(1) by (simp add: same_config_def)
  show ?thesis
  proof (cases "vs_peerMaj23s s peer")
    case (Some x)
    then show ?thesis using assms by (cases "x = m") (auto simp: SetPeerMaj23_def Let_def)
  next
    case N: None
    show ?thesis
    proof (cases "vs_votesByBlock s ?k")
      case None
      obtain b where b: "newBlockVotes True (VS_Size (vs_valSet s)) = Ok b" "filed e s ?k b" "bv_sum b = 0"
        using newBlockVotes_filed [OF ok] by blast
      then show ?thesis using assms(1) N None by (intro goal [of b]) (auto simp: SetPeerMaj23_def Let_def)
    next
      case (Some b)
      have f: "filed e s ?k (b\<lparr>bv_peerMaj23 := True\<rparr>)" using fl [OF Some] by (simp add: filed_def)
      show ?thesis
      proof (cases "bv_peerMaj23 b")
        case True
        then have "(vs_votesByBlock s)(?k \<mapsto> b\<lparr>bv_peerMaj23 := True\<rparr>) = vs_votesByBlock s"
          using Some by (auto simp: fun_eq_iff)
        then show ?thesis using assms(1) N Some True f
          by (intro goal [of "b\<lparr>bv_peerMaj23 := True\<rparr>"]) (auto simp: SetPeerMaj23_def Let_def)
      next
        case False
        then show ?thesis using assms(1) N Some f
          by (intro goal [of "b\<lparr>bv_peerMaj23 := True\<rparr>"]) (auto simp: SetPeerMaj23_def Let_def)
      qed
    qed
  qed
qed

lemma vs_step_wf:
  assumes "vs_step e s t" "voteset_wf e s"
  shows "voteset_wf e t \<and> same_config s t \<and> (vs_maj23 s \<noteq> None \<longrightarrow> vs_maj23 t = vs_maj23 s) \<and>
    (\<forall>j < val_count (vs_valSet s). vs_votes s ! j \<noteq> None \<longrightarrow> vs_votes t ! j \<noteq> None)"
  using assms(1)
proof cases
  case (add v added err)
  from add(1) assms(2) show ?thesis
  proof (cases rule: addVote_cases)
    case (verified w i c)
    then have "vote_ok w" using add(2) by simp
    then show ?thesis using addVerifiedVote_wf [OF assms(2) verified(2) _ verified(3)] verified(4) by auto
  qed (use assms(2) in simp)
next
  case (claim peer b err)
  then show ?thesis using SetPeerMaj23_wf [OF _ assms(2)] by simp
qed

lemma vs_steps_wf:
  assumes "vs_steps e s t" "voteset_wf e s"
  shows "voteset_wf e t \<and> same_config s t \<and> (vs_maj23 s \<noteq> None \<longrightarrow> vs_maj23 t = vs_maj23 s) \<and>
    (\<forall>j < val_count (vs_valSet s). vs_votes s ! j \<noteq> None \<longrightarrow> vs_votes t ! j \<noteq> None)"
  using assms
proof (induction rule: vs_steps.induct)
  case (more s t u)
  then have t: "voteset_wf e t" "same_config s t" by auto
  then show ?case using more vs_step_wf [OF more.hyps(2) t(1)] same_config_trans [OF t(2)] power_config(1) [OF t(2)] by auto
qed simp

text \<open>The vote sets of one height, round and type over a validator set, after any steps.\<close>

definition vote_set_of :: "env \<Rightarrow> bytes \<Rightarrow> int \<Rightarrow> int \<Rightarrow> int \<Rightarrow> ValidatorSet \<Rightarrow> VoteSet \<Rightarrow> bool" where
  "vote_set_of e chainID h r t vals s \<longleftrightarrow> powers_ok vals \<and>
     (\<exists>s0. (NewVoteSet chainID h r t vals = Ok s0 \<or> NewExtendedVoteSet chainID h r t vals = Ok s0) \<and> vs_steps e s0 s)"

lemma NewExtended_wf:
  assumes "NewExtendedVoteSet chainID h r t vals = Ok s" "powers_ok vals"
  shows "voteset_wf e s"
proof -
  obtain s0 where s0: "NewVoteSet chainID h r t vals = Ok s0" "s = s0\<lparr>vs_extensionsEnabled := True\<rparr>"
    using assms(1) by (auto simp: NewExtendedVoteSet_def)
  then have "h \<noteq> 0" by (auto simp: NewVoteSet_def)
  then have "voteset_wf e s0" "vs_votes s0 = replicate (val_count vals) None" "vs_valSet s0 = vals" "vs_maj23 s0 = None" "vs_votesByBlock s0 = Map.empty"
    using NewVoteSet_wf [OF assms(2), of h chainID r t e] s0(1) by (auto simp: NewVoteSet_def split: if_splits)
  then show ?thesis using s0(2) by (simp add: voteset_wf_def voteset_defs)
qed

lemma vote_set_of_wf:
  assumes "vote_set_of e chainID h r t vals s"
  shows "voteset_wf e s" "powers_ok vals" "vs_chainID s = chainID" "vs_height s = h" "vs_round s = r" "vs_signedMsgType s = t"
    "Validators (vs_valSet s) = Validators vals"
proof -
  obtain s0 where s0: "NewVoteSet chainID h r t vals = Ok s0 \<or> NewExtendedVoteSet chainID h r t vals = Ok s0" "vs_steps e s0 s"
      and ok: "powers_ok vals"
    using assms by (auto simp: vote_set_of_def)
  have "h \<noteq> 0" using s0(1) by (auto simp: NewVoteSet_def NewExtendedVoteSet_def)
  then have "voteset_wf e s0" using s0(1) NewVoteSet_wf [OF ok, of h chainID r t e] NewExtended_wf [OF _ ok] by auto
  moreover have "vs_chainID s0 = chainID" "vs_height s0 = h" "vs_round s0 = r" "vs_signedMsgType s0 = t" "vs_valSet s0 = vals"
    using s0(1) by (auto simp: NewVoteSet_def NewExtendedVoteSet_def split: if_splits)
  ultimately show "voteset_wf e s" "powers_ok vals" "vs_chainID s = chainID" "vs_height s = h" "vs_round s = r" "vs_signedMsgType s = t"
      "Validators (vs_valSet s) = Validators vals"
    using vs_steps_wf [OF s0(2)] ok by (auto simp: same_config_def)
qed

section \<open>Majorities\<close>

definition votes_for :: "VoteSet \<Rightarrow> BlockID \<Rightarrow> nat \<Rightarrow> bool" where
  "votes_for s b i \<longleftrightarrow> (\<exists>v. vs_votes s ! i = Some v \<and> v_BlockID v = b)"

lemma same_Validators_power:
  assumes "Validators vals = Validators vals'"
  shows "power_of vals = power_of vals'" "total_power vals = total_power vals'" "val_count vals = val_count vals'"
  using assms by (simp_all add: power_of_def [abs_def] total_power_def val_count_def val_power_def [abs_def])

lemma majority_sound:
  assumes "voteset_wf e s" "vs_maj23 s = Some b"
  shows "2 * total_power (vs_valSet s) < 3 * power_of (vs_valSet s) (votes_for s b)" "bid_ok b"
proof -
  have inv: "canonical e (\<lambda>_. False) s" "majority s" "powers_ok (vs_valSet s)" and fl: "\<And>k c. vs_votesByBlock s k = Some c \<Longrightarrow> filed e s k c"
    using assms(1) by (auto simp: voteset_wf_def voteset_inv_def)
  then obtain c where c: "bid_ok b" "vs_votesByBlock s (BlockID_Key b) = Some c" "quorum (vs_valSet s) \<le> bv_sum c"
      "\<And>i. i < val_count (vs_valSet s) \<Longrightarrow> bv_votes c ! i \<noteq> None \<Longrightarrow> \<exists>v. vs_votes s ! i = Some v \<and> vkey v = BlockID_Key b"
    using assms(2) by (auto simp: majority_def)
  have "bv_sum c = power_of (vs_valSet s) (\<lambda>i. bv_votes c ! i \<noteq> None)"
    using fl [OF c(2)] by (simp add: filed_def tally_def)
  also have "\<dots> \<le> power_of (vs_valSet s) (votes_for s b)"
  proof (rule power_of_mono [OF inv(3)])
    fix i assume i: "i < val_count (vs_valSet s)" "bv_votes c ! i \<noteq> None"
    then obtain v where v: "vs_votes s ! i = Some v" "vkey v = BlockID_Key b" using c(4) by blast
    then show "votes_for s b i" using vote_ok_bid [OF canonicalD(2) [OF inv(1) i(1) v(1)]] c(1) key_eq_iff by (auto simp: votes_for_def)
  qed
  finally show "2 * total_power (vs_valSet s) < 3 * power_of (vs_valSet s) (votes_for s b)"
    using c(3) by (simp add: quorum_iff [symmetric])
  show "bid_ok b" by fact
qed

lemma majority_complete:
  assumes "voteset_wf e s" "2 * total_power (vs_valSet s) < 3 * power_of (vs_valSet s) (votes_for s b)"
  shows "vs_maj23 s = Some b"
proof -
  have inv: "canonical e (\<lambda>_. False) s" "majority s" "powers_ok (vs_valSet s)" and fl: "\<And>k c. vs_votesByBlock s k = Some c \<Longrightarrow> filed e s k c"
    using assms(1) by (auto simp: voteset_wf_def voteset_inv_def)
  show ?thesis
  proof (cases "vs_maj23 s")
    case (Some m)
    have "votes_for s b i \<Longrightarrow> \<not> votes_for s m i" if "b \<noteq> m" for i using that by (auto simp: votes_for_def)
    then show ?thesis using disjoint_quorums [OF inv(3) assms(2) majority_sound(1) [OF assms(1) Some]] Some by blast
  next
    case None
    have "\<exists>i < val_count (vs_valSet s). votes_for s b i"
    proof (rule ccontr)
      assume "\<not> ?thesis"
      then have "power_of (vs_valSet s) (votes_for s b) = power_of (vs_valSet s) (\<lambda>_. False)" by (intro power_of_cong) auto
      then show False using assms(2) total_power_bounds(1) [OF inv(3)] by simp
    qed
    then obtain i v where i: "i < val_count (vs_valSet s)" "vs_votes s ! i = Some v" "v_BlockID v = b" by (auto simp: votes_for_def)
    then obtain c where c: "vs_votesByBlock s (BlockID_Key b) = Some c" using canonicalD(3) [OF inv(1) i(1,2)] None by auto
    have "power_of (vs_valSet s) (votes_for s b) \<le> power_of (vs_valSet s) (\<lambda>i. bv_votes c ! i \<noteq> None)"
    proof (rule power_of_mono [OF inv(3)])
      fix i assume i: "i < val_count (vs_valSet s)" "votes_for s b i"
      then obtain v where v: "vs_votes s ! i = Some v" "v_BlockID v = b" by (auto simp: votes_for_def)
      then show "bv_votes c ! i \<noteq> None" using canonicalD(3) [OF inv(1) i(1) v(1)] None c by auto
    qed
    moreover have "bv_sum c = power_of (vs_valSet s) (\<lambda>i. bv_votes c ! i \<noteq> None)"
      using fl [OF c] by (simp add: filed_def tally_def)
    moreover have "bv_sum c < quorum (vs_valSet s)" using inv(2) c None by (simp add: majority_def)
    ultimately show ?thesis using assms(2) quorum_iff [of "vs_valSet s"] by (metis not_le order_less_le_trans)
  qed
qed

lemma TwoThirdsMajority_iff: "TwoThirdsMajority (Some s) = (b, True) \<longleftrightarrow> vs_maj23 s = Some b"
  by (cases "vs_maj23 s") (auto simp: TwoThirdsMajority_def)

section \<open>Accepting votes\<close>

lemma getVote_unknown:
  assumes "voteset_wf e s" "i < val_count (vs_valSet s)" "vs_votes s ! i = None"
  shows "vs_getVote s (int i) k = Ok None"
proof -
  have cn: "canonical e (\<lambda>_. False) s" and fl: "\<And>k b. vs_votesByBlock s k = Some b \<Longrightarrow> filed e s k b"
    using assms(1) by (auto simp: voteset_wf_def voteset_inv_def)
  have len: "length (vs_votes s) = val_count (vs_valSet s)" using cn by (simp add: canonical_def tally_def)
  have "bv_getByIndex (vs_votesByBlock s k) (int i) = Ok None"
  proof (cases "vs_votesByBlock s k")
    case (Some b)
    then have "length (bv_votes b) = val_count (vs_valSet s)" using fl by (simp add: filed_def tally_def)
    moreover have "bv_votes b ! i = None"
      using filedD(4) [OF fl [OF Some] assms(2)] assms(3) by (cases "bv_votes b ! i") auto
    ultimately show ?thesis using Some assms(2) by (simp add: bv_getByIndex_def)
  qed (simp add: bv_getByIndex_def)
  then show ?thesis using len assms(2,3) by (simp add: vs_getVote_def)
qed

lemma addVote_new:
  assumes "voteset_wf e s" "genuine e s i v" "vote_ok v" "v_ValidatorAddress v \<noteq> []"
    "vs_getVote s (int i) (vkey v) = Ok None"
  shows "\<exists>t added. vs_addVote e s (Some v) = Ok (t, added, map_option (\<lambda>c. ErrVoteConflictingVotes c v) (vs_votes s ! i)) \<and>
    voteset_wf e t \<and> same_config s t \<and> (vs_votes s ! i = None \<longrightarrow> added \<and> vs_votes t ! i = Some v) \<and>
    vs_peerMaj23s t = vs_peerMaj23s s \<and> (\<forall>k. k \<noteq> vkey v \<longrightarrow> vs_votesByBlock t k = vs_votesByBlock s k)"
proof -
  obtain t added where t: "vs_addVerifiedVote s v (vkey v) (val_power (vs_valSet s) i) = Ok (t, added, vs_votes s ! i)"
      "voteset_wf e t" "same_config s t" "vs_votes s ! i = None \<longrightarrow> added" "vs_votes s ! i = None \<longrightarrow> vs_votes t ! i = Some v"
      "vs_peerMaj23s t = vs_peerMaj23s s" "\<forall>k. k \<noteq> vkey v \<longrightarrow> vs_votesByBlock t k = vs_votesByBlock s k"
    using addVerifiedVote_wf [OF assms(1-3,5)] by (elim exE conjE) (rule that)
  obtain pk where pk: "PubKey (Validators (vs_valSet s) ! i) = Some pk" "check_signature e s v pk = Ok ()"
    using assms(2) by (auto simp: genuine_def)
  have "vs_addVote e s (Some v) = Ok (t, added, map_option (\<lambda>c. ErrVoteConflictingVotes c v) (vs_votes s ! i))"
    using assms(2,4,5) pk t(1,4)
    by (auto simp: vs_addVote_def genuine_def GetByIndex_def val_count_def Let_def need_key_def val_power_def split: option.splits)
  then show ?thesis using t by auto
qed

lemma addVote_recorded:
  assumes "vs_addVote e s (Some v) = Ok (t, added, None)" "voteset_wf e s" "vote_ok v"
  shows "\<exists>i. v_ValidatorIndex v = int i \<and> i < val_count (vs_valSet s) \<and> vs_votes t ! i \<noteq> None"
proof -
  obtain i where i: "v_ValidatorIndex v = int i" "i < val_count (vs_valSet s)"
    using assms(1) zero_le_imp_eq_int [of "v_ValidatorIndex v"]
    by (auto simp: vs_addVote_def GetByIndex_def val_count_def Let_def reject_def split: if_splits)
  from assms(1,2) show ?thesis
  proof (cases rule: addVote_cases)
    case rejected
    have "vs_votes s ! i \<noteq> None"
    proof
      assume n: "vs_votes s ! i = None"
      from getVote_unknown [OF assms(2) i(2) n]
      show False using assms(1) rejected i
        by (cases "check_signature e s v (the (PubKey (Validators (vs_valSet s) ! i)))")
           (auto simp: vs_addVote_def GetByIndex_def val_count_def Let_def reject_def need_key_def
             split: if_splits option.splits)
    qed
    then show ?thesis using rejected i by auto
  next
    case (verified w j c)
    then have "j = i" using i(1) by (simp add: genuine_def)
    then show ?thesis using addVerifiedVote_wf [OF assms(2) verified(2) _ verified(3)] verified assms(3) i by auto
  qed
qed

end
