(* ===== verification/CommitVerification.thy ===== *)
theory CommitVerification
  imports VoteSetProps
begin

text \<open>
  Verifying a commit (\<open>types/validation.go\<close>): one signature after the other, or in a batch. The batch
  verifiers of the curve library are parameters, with what their wrappers check before in the model
  (\<open>crypto/ed25519/ed25519.go\<close>, \<open>crypto/sr25519/batch.go\<close>, \<open>crypto/batch/batch.go\<close>). The caches of
  the validator set that reading the total power and the proposer may fill are not given back.
\<close>

record batch_env =
  be_verify :: "(PubKey \<times> bytes \<times> bytes) list \<Rightarrow> bool \<times> bool list"
  be_sr25519_decode :: "bytes \<Rightarrow> bytes \<Rightarrow> bool"

abbreviation (input) batchVerifyThreshold :: nat where "batchVerifyThreshold \<equiv> 2"

definition proposer_key :: "ValidatorSet \<Rightarrow> (PubKey option) result" where
  "proposer_key vals =
     bind_out (GetProposer vals) (\<lambda>(p, _).
     case p of None \<Rightarrow> Panic ''nil pointer dereference'' | Some v \<Rightarrow> Ok (PubKey v))"

definition shouldBatchVerify :: "ValidatorSet \<Rightarrow> Commit \<Rightarrow> bool result" where
  "shouldBatchVerify vals commit =
     (if length (cm_Signatures commit) \<ge> batchVerifyThreshold
      then bind_out (proposer_key vals) (\<lambda>k. Ok (SupportsBatchVerifier k \<and> allKeysHaveSameType vals))
      else Ok False)"

section \<open>Batches\<close>

fun CreateBatchVerifier :: "PubKey option \<Rightarrow> (string option) result" where
  "CreateBatchVerifier None = Panic ''nil pointer dereference''"
| "CreateBatchVerifier (Some pk) = Ok (if PubKey_Type pk = ''ed25519'' \<or> PubKey_Type pk = ''sr25519'' then Some (PubKey_Type pk) else None)"

fun ed25519_Add :: "PubKey option \<Rightarrow> bytes \<Rightarrow> bytes \<Rightarrow> unit result" where
  "ed25519_Add (Some (Ed25519 k)) msg signature =
     (if length k \<noteq> ed25519_PubKeySize then Err (Errorf ''pubkey size is incorrect'')
      else if length signature \<noteq> 64 then Err (Errorf ''invalid signature'')
      else Ok ())"
| "ed25519_Add _ msg signature = Err (Errorf ''pubkey is not Ed25519'')"

fun sr25519_Add :: "batch_env \<Rightarrow> PubKey option \<Rightarrow> bytes \<Rightarrow> bytes \<Rightarrow> unit result" where
  "sr25519_Add be (Some (Sr25519 k)) msg signature =
     (if \<not> be_sr25519_decode be k signature then Err (Errorf ''sr25519: invalid public key or signature'') else Ok ())"
| "sr25519_Add be _ msg signature = Err (Errorf ''sr25519: pubkey is not sr25519'')"

definition batch_Add :: "batch_env \<Rightarrow> string \<Rightarrow> PubKey option \<Rightarrow> bytes \<Rightarrow> bytes \<Rightarrow> unit result" where
  "batch_Add be kind key msg signature =
     (if kind = ''ed25519'' then ed25519_Add key msg signature else sr25519_Add be key msg signature)"

section \<open>The loops\<close>

record verification =
  vf_chainID :: bytes
  vf_vals :: ValidatorSet
  vf_commit :: Commit
  vf_votingPowerNeeded :: int
  vf_ignoreSig :: "CommitSig \<Rightarrow> bool"
  vf_countSig :: "CommitSig \<Rightarrow> bool"
  vf_countAllSignatures :: bool
  vf_lookUpByIndex :: bool

text \<open>The validator of a signature, and the validators seen so far; none where the signature is skipped.\<close>

definition find_validator :: "verification \<Rightarrow> nat \<Rightarrow> CommitSig \<Rightarrow> (int \<rightharpoonup> nat) \<Rightarrow> ((Validator \<times> (int \<rightharpoonup> nat)) option) result" where
  "find_validator f idx commitSig seenVals =
     (if vf_lookUpByIndex f
      then bind_out (index (Validators (vf_vals f)) (int idx)) (\<lambda>val.
           if Address val \<noteq> cs_ValidatorAddress commitSig then Err (Errorf ''validator address mismatch'')
           else Ok (Some (val, seenVals)))
      else case GetByAddress (vf_vals f) (cs_ValidatorAddress commitSig) of
             (_, None) \<Rightarrow> Ok None
           | (valIdx, Some val) \<Rightarrow>
               if seenVals valIdx \<noteq> None then Err (Errorf ''double vote'')
               else Ok (Some (val, seenVals(valIdx \<mapsto> idx))))"

definition tally_sig :: "verification \<Rightarrow> CommitSig \<Rightarrow> Validator \<Rightarrow> int \<Rightarrow> int" where
  "tally_sig f commitSig val tallied =
     (if vf_countSig f commitSig then i64 (tallied + VotingPower val) else tallied)"

fun batch_loop :: "env \<Rightarrow> batch_env \<Rightarrow> string \<Rightarrow> verification \<Rightarrow> (nat \<times> CommitSig) list \<Rightarrow> (int \<rightharpoonup> nat) \<Rightarrow> int \<Rightarrow>
    (nat \<times> PubKey \<times> bytes \<times> bytes) list \<Rightarrow> ((nat \<times> PubKey \<times> bytes \<times> bytes) list \<times> int) result" where
  "batch_loop e be kind f [] seenVals tallied batch = Ok (batch, tallied)"
| "batch_loop e be kind f ((idx, commitSig) # rest) seenVals tallied batch =
     (if vf_ignoreSig f commitSig then batch_loop e be kind f rest seenVals tallied batch
      else bind_out (find_validator f idx commitSig seenVals) (\<lambda>r.
        case r of None \<Rightarrow> batch_loop e be kind f rest seenVals tallied batch
        | Some (val, seenVals) \<Rightarrow>
            bind_out (Commit_VoteSignBytes e (vf_commit f) (vf_chainID f) (i32 (int idx))) (\<lambda>voteSignBytes.
            bind_out (batch_Add be kind (PubKey val) voteSignBytes (cs_Signature commitSig)) (\<lambda>_.
            let batch = batch @ [(idx, the (PubKey val), voteSignBytes, cs_Signature commitSig)];
                tallied = tally_sig f commitSig val tallied
            in if \<not> vf_countAllSignatures f \<and> tallied > vf_votingPowerNeeded f then Ok (batch, tallied)
               else batch_loop e be kind f rest seenVals tallied batch))))"

definition ErrNotEnoughVotingPowerSigned :: go_error where
  "ErrNotEnoughVotingPowerSigned = Errorf ''invalid commit -- insufficient voting power''"

definition verifyCommitBatch :: "env \<Rightarrow> batch_env \<Rightarrow> verification \<Rightarrow> unit result" where
  "verifyCommitBatch e be f =
     bind_out (proposer_key (vf_vals f)) (\<lambda>k.
     bind_out (CreateBatchVerifier k) (\<lambda>bv.
     if bv = None \<or> length (cm_Signatures (vf_commit f)) < batchVerifyThreshold
     then Err (Errorf ''unsupported signature algorithm or insufficient signatures for batch verification'')
     else bind_out (batch_loop e be (the bv) f (enumerate 0 (cm_Signatures (vf_commit f))) Map.empty 0 []) (\<lambda>(batch, tallied).
       if tallied \<le> vf_votingPowerNeeded f then Err ErrNotEnoughVotingPowerSigned
       else let (ok, validSigs) = be_verify be (map snd batch)
            in if ok then Ok ()
               else if False \<in> set validSigs then Err (Errorf ''wrong signature'')
               else Err (Errorf ''BUG: batch verification failed with no invalid signatures''))))"

fun single_loop :: "env \<Rightarrow> verification \<Rightarrow> (nat \<times> CommitSig) list \<Rightarrow> (int \<rightharpoonup> nat) \<Rightarrow> int \<Rightarrow> unit result" where
  "single_loop e f [] seenVals tallied =
     (if tallied \<le> vf_votingPowerNeeded f then Err ErrNotEnoughVotingPowerSigned else Ok ())"
| "single_loop e f ((idx, commitSig) # rest) seenVals tallied =
     (if vf_ignoreSig f commitSig then single_loop e f rest seenVals tallied
      else if CommitSig_ValidateBasic commitSig \<noteq> Ok () then Err (Errorf ''invalid signatures'')
      else bind_out (find_validator f idx commitSig seenVals) (\<lambda>r.
        case r of None \<Rightarrow> single_loop e f rest seenVals tallied
        | Some (val, seenVals) \<Rightarrow>
            (case PubKey val of None \<Rightarrow> Err (Errorf ''validator has a nil PubKey'')
             | Some pk \<Rightarrow>
                 bind_out (Commit_VoteSignBytes e (vf_commit f) (vf_chainID f) (i32 (int idx))) (\<lambda>voteSignBytes.
                 if \<not> VerifySignature (crypto e) pk voteSignBytes (cs_Signature commitSig) then Err (Errorf ''wrong signature'')
                 else let tallied = tally_sig f commitSig val tallied
                      in if \<not> vf_countAllSignatures f \<and> tallied > vf_votingPowerNeeded f then Ok ()
                         else single_loop e f rest seenVals tallied))))"

definition verifyCommitSingle :: "env \<Rightarrow> verification \<Rightarrow> unit result" where
  "verifyCommitSingle e f = single_loop e f (enumerate 0 (cm_Signatures (vf_commit f))) Map.empty 0"

section \<open>The entry points\<close>

definition verifyBasicValsAndCommit :: "ValidatorSet option \<Rightarrow> Commit option \<Rightarrow> int \<Rightarrow> BlockID \<Rightarrow> unit result" where
  "verifyBasicValsAndCommit vals_ptr commit_ptr height blockID =
     (case vals_ptr of None \<Rightarrow> Err (Errorf ''nil validator set'')
      | Some vals \<Rightarrow> (case commit_ptr of None \<Rightarrow> Err (Errorf ''nil commit'')
      | Some commit \<Rightarrow>
          if VS_Size vals \<noteq> int (length (cm_Signatures commit)) then Err (Errorf ''invalid commit -- wrong set size'')
          else if height \<noteq> cm_Height commit then Err (Errorf ''invalid commit -- wrong height'')
          else if \<not> BlockID_Equals blockID (cm_BlockID commit) then Err (Errorf ''invalid commit -- wrong block ID'')
          else Ok ()))"

definition verify_batch_or_single :: "env \<Rightarrow> batch_env \<Rightarrow> verification \<Rightarrow> unit result" where
  "verify_batch_or_single e be f =
     bind_out (shouldBatchVerify (vf_vals f) (vf_commit f)) (\<lambda>b.
     if b then verifyCommitBatch e be f else verifyCommitSingle e f)"

definition VerifyCommit :: "env \<Rightarrow> batch_env \<Rightarrow> bytes \<Rightarrow> ValidatorSet option \<Rightarrow> BlockID \<Rightarrow> int \<Rightarrow> Commit option \<Rightarrow> unit result" where
  "VerifyCommit e be chainID vals blockID height commit =
     bind_out (verifyBasicValsAndCommit vals commit height blockID) (\<lambda>_.
     bind_out (TotalVotingPower (the vals)) (\<lambda>(t, _).
     verify_batch_or_single e be
       \<lparr>vf_chainID = chainID, vf_vals = the vals, vf_commit = the commit, vf_votingPowerNeeded = i64 (t * 2) sdiv 3,
        vf_ignoreSig = (\<lambda>c. cs_BlockIDFlag c = BlockIDFlagAbsent), vf_countSig = (\<lambda>c. cs_BlockIDFlag c = BlockIDFlagCommit),
        vf_countAllSignatures = True, vf_lookUpByIndex = True\<rparr>))"

definition verifyCommitLightInternal ::
    "env \<Rightarrow> batch_env \<Rightarrow> bytes \<Rightarrow> ValidatorSet option \<Rightarrow> BlockID \<Rightarrow> int \<Rightarrow> Commit option \<Rightarrow> bool \<Rightarrow> unit result" where
  "verifyCommitLightInternal e be chainID vals blockID height commit countAllSignatures =
     bind_out (verifyBasicValsAndCommit vals commit height blockID) (\<lambda>_.
     bind_out (TotalVotingPower (the vals)) (\<lambda>(t, _).
     verify_batch_or_single e be
       \<lparr>vf_chainID = chainID, vf_vals = the vals, vf_commit = the commit, vf_votingPowerNeeded = i64 (t * 2) sdiv 3,
        vf_ignoreSig = (\<lambda>c. cs_BlockIDFlag c \<noteq> BlockIDFlagCommit), vf_countSig = (\<lambda>_. True),
        vf_countAllSignatures = countAllSignatures, vf_lookUpByIndex = True\<rparr>))"

definition VerifyCommitLight :: "env \<Rightarrow> batch_env \<Rightarrow> bytes \<Rightarrow> ValidatorSet option \<Rightarrow> BlockID \<Rightarrow> int \<Rightarrow> Commit option \<Rightarrow> unit result" where
  "VerifyCommitLight e be chainID vals blockID height commit =
     verifyCommitLightInternal e be chainID vals blockID height commit False"

definition VerifyCommitLightAllSignatures ::
    "env \<Rightarrow> batch_env \<Rightarrow> bytes \<Rightarrow> ValidatorSet option \<Rightarrow> BlockID \<Rightarrow> int \<Rightarrow> Commit option \<Rightarrow> unit result" where
  "VerifyCommitLightAllSignatures e be chainID vals blockID height commit =
     verifyCommitLightInternal e be chainID vals blockID height commit True"

text \<open>\<open>int64\<close> of a \<open>uint64\<close> is the signed value of the word.\<close>

definition verifyCommitLightTrustingInternal ::
    "env \<Rightarrow> batch_env \<Rightarrow> bytes \<Rightarrow> ValidatorSet option \<Rightarrow> Commit option \<Rightarrow> Fraction \<Rightarrow> bool \<Rightarrow> unit result" where
  "verifyCommitLightTrustingInternal e be chainID vals_ptr commit_ptr trustLevel countAllSignatures =
     (case vals_ptr of None \<Rightarrow> Err (Errorf ''nil validator set'')
      | Some vals \<Rightarrow>
     if Denominator trustLevel = 0 then Err (Errorf ''trustLevel has zero Denominator'')
     else case commit_ptr of None \<Rightarrow> Err (Errorf ''nil commit'')
      | Some commit \<Rightarrow>
          bind_out (TotalVotingPower vals) (\<lambda>(t, _).
          let (m, overflow) = safeMul t (sint (Numerator trustLevel))
          in if overflow then Err (Errorf ''int64 overflow while calculating voting power needed'')
             else verify_batch_or_single e be
               \<lparr>vf_chainID = chainID, vf_vals = vals, vf_commit = commit,
                vf_votingPowerNeeded = i64 (m sdiv sint (Denominator trustLevel)),
                vf_ignoreSig = (\<lambda>c. cs_BlockIDFlag c \<noteq> BlockIDFlagCommit), vf_countSig = (\<lambda>_. True),
                vf_countAllSignatures = countAllSignatures, vf_lookUpByIndex = False\<rparr>))"

definition VerifyCommitLightTrusting ::
    "env \<Rightarrow> batch_env \<Rightarrow> bytes \<Rightarrow> ValidatorSet option \<Rightarrow> Commit option \<Rightarrow> Fraction \<Rightarrow> unit result" where
  "VerifyCommitLightTrusting e be chainID vals commit trustLevel =
     verifyCommitLightTrustingInternal e be chainID vals commit trustLevel False"

definition VerifyCommitLightTrustingAllSignatures ::
    "env \<Rightarrow> batch_env \<Rightarrow> bytes \<Rightarrow> ValidatorSet option \<Rightarrow> Commit option \<Rightarrow> Fraction \<Rightarrow> unit result" where
  "VerifyCommitLightTrustingAllSignatures e be chainID vals commit trustLevel =
     verifyCommitLightTrustingInternal e be chainID vals commit trustLevel True"

end
