(* ===== verification/CommitVerificationProps.thy ===== *)
theory CommitVerificationProps
  imports CommitVerification
begin

text \<open>
  What accepting a commit means. A reference loop \<open>spec_loop\<close> says which signatures are counted; the single and
  the batch loop accept exactly what it accepts, and its tally is the power of the validators that signed.
\<close>

section \<open>Batches and single signatures\<close>

text \<open>
  What the library documents of its batch verifier, and of decoding keys and signatures: a batch verifies
  when it is not empty and each of its signatures does.
\<close>

definition batch_verifier_ok :: "crypto_env \<Rightarrow> batch_env \<Rightarrow> bool" where
  "batch_verifier_ok cr be \<longleftrightarrow>
     (\<forall>items. fst (be_verify be items) = (items \<noteq> [] \<and> (\<forall>(pk, m, s) \<in> set items. curve_verify cr pk m s))) \<and>
     (\<forall>k m s. curve_verify cr (Sr25519 k) m s \<longrightarrow> be_sr25519_decode be k s)"

definition kind_ok :: "crypto_env \<Rightarrow> string \<Rightarrow> Validator \<Rightarrow> bool" where
  "kind_ok cr kind val \<longleftrightarrow> (\<exists>pk. PubKey val = Some pk \<and> PubKey_Type pk = kind \<and> is_Ok (PubKey_Address cr pk))"

lemma batch_Add_verify:
  assumes "batch_Add be kind (Some pk) m s = Ok ()"
  shows "VerifySignature cr pk m s = curve_verify cr pk m s"
  using assms by (cases pk) (auto simp: batch_Add_def split: if_splits)

lemma verify_batch_Add:
  assumes "VerifySignature cr pk m s" "PubKey_Type pk = kind" "is_Ok (PubKey_Address cr pk)" "kind = ''ed25519'' \<or> kind = ''sr25519''"
    "batch_verifier_ok cr be"
  shows "batch_Add be kind (Some pk) m s = Ok ()"
  using assms by (cases pk) (auto simp: batch_Add_def batch_verifier_ok_def split: if_splits)

lemma find_validator_in: "find_validator f idx cs seen = Ok (Some (val, seen')) \<Longrightarrow> val \<in> set (Validators (vf_vals f))"
  by (auto simp: find_validator_def index_Ok_iff GetByAddress_def split: if_splits option.splits dest!: find_index_SomeD)

definition sigs_basic :: "verification \<Rightarrow> (nat \<times> CommitSig) list \<Rightarrow> bool" where
  "sigs_basic f xs \<longleftrightarrow> (\<forall>(i, cs) \<in> set xs. \<not> vf_ignoreSig f cs \<longrightarrow> CommitSig_ValidateBasic cs = Ok ())"

lemma batch_loop_added:
  assumes "batch_loop e be kind f xs seen t batch = Ok (batch', t')"
  shows "\<exists>new. batch' = batch @ new \<and> (\<forall>(i, pk, m, s) \<in> set new. batch_Add be kind (Some pk) m s = Ok ()) \<and> (new = [] \<longrightarrow> t' = t)"
  using assms
proof (induction xs arbitrary: seen t batch)
  case (Cons x xs)
  obtain idx cs where x: "x = (idx, cs)" by (cases x)
  show ?case
  proof (cases "vf_ignoreSig f cs")
    case True
    then show ?thesis using Cons x by simp
  next
    case False
    then obtain r where r: "find_validator f idx cs seen = Ok r" using Cons.prems x by auto
    show ?thesis
    proof (cases r)
      case None
      then show ?thesis using Cons r x False by simp
    next
      case (Some p)
      obtain val seen' where p: "p = (val, seen')" by (cases p)
      obtain bz where bz: "Commit_VoteSignBytes e (vf_commit f) (vf_chainID f) (i32 (int idx)) = Ok bz"
          "batch_Add be kind (PubKey val) bz (cs_Signature cs) = Ok ()"
        using Cons.prems x False r Some p by auto
      obtain pk where pk: "PubKey val = Some pk" using bz(2) by (cases "PubKey val") (auto simp: batch_Add_def split: if_splits)
      let ?b = "batch @ [(idx, pk, bz, cs_Signature cs)]"
      show ?thesis
      proof (cases "\<not> vf_countAllSignatures f \<and> tally_sig f cs val t > vf_votingPowerNeeded f")
        case True
        then show ?thesis using Cons.prems x False r Some p bz pk by (auto simp: Let_def)
      next
        case nt: False
        then have "batch_loop e be kind f xs seen' (tally_sig f cs val t) ?b = Ok (batch', t')"
          using Cons.prems x False r Some p bz pk by (auto simp: Let_def)
        from Cons.IH [OF this] show ?thesis using bz(2) pk by auto
      qed
    qed
  qed
qed simp

text \<open>
  The reference: a signature after the other, without the basic validation of the single loop. Both loops
  agree with it.
\<close>

fun spec_loop :: "env \<Rightarrow> verification \<Rightarrow> (nat \<times> CommitSig) list \<Rightarrow> (int \<rightharpoonup> nat) \<Rightarrow> int \<Rightarrow> bool" where
  "spec_loop e f [] seen t \<longleftrightarrow> vf_votingPowerNeeded f < t"
| "spec_loop e f ((idx, cs) # rest) seen t \<longleftrightarrow>
     (if vf_ignoreSig f cs then spec_loop e f rest seen t
      else case find_validator f idx cs seen of
        Ok None \<Rightarrow> spec_loop e f rest seen t
      | Ok (Some (val, seen')) \<Rightarrow>
          (\<exists>pk bz. PubKey val = Some pk \<and> Commit_VoteSignBytes e (vf_commit f) (vf_chainID f) (i32 (int idx)) = Ok bz \<and>
             VerifySignature (crypto e) pk bz (cs_Signature cs)) \<and>
          (\<not> vf_countAllSignatures f \<and> tally_sig f cs val t > vf_votingPowerNeeded f \<or> spec_loop e f rest seen' (tally_sig f cs val t))
      | _ \<Rightarrow> False)"

lemma single_loop_step:
  "single_loop e f ((idx, cs) # xs) seen t = Ok () \<longleftrightarrow>
     (if vf_ignoreSig f cs then single_loop e f xs seen t = Ok ()
      else CommitSig_ValidateBasic cs = Ok () \<and> (case find_validator f idx cs seen of
        Ok None \<Rightarrow> single_loop e f xs seen t = Ok ()
      | Ok (Some (val, seen')) \<Rightarrow>
          (\<exists>pk bz. PubKey val = Some pk \<and> Commit_VoteSignBytes e (vf_commit f) (vf_chainID f) (i32 (int idx)) = Ok bz \<and>
             VerifySignature (crypto e) pk bz (cs_Signature cs)) \<and>
          (\<not> vf_countAllSignatures f \<and> tally_sig f cs val t > vf_votingPowerNeeded f \<or> single_loop e f xs seen' (tally_sig f cs val t) = Ok ())
      | _ \<Rightarrow> False))"
proof (cases "find_validator f idx cs seen")
  case (Ok r)
  show ?thesis
  proof (cases r)
    case (Some p)
    obtain val seen' where p: "p = (val, seen')" by (cases p)
    show ?thesis using Ok Some p by (cases "PubKey val") (auto simp: Let_def)
  qed (use Ok in auto)
qed auto

lemma single_spec: "single_loop e f xs seen t = Ok () \<Longrightarrow> spec_loop e f xs seen t"
proof (induction xs arbitrary: seen t)
  case (Cons x xs)
  obtain idx cs where x: "x = (idx, cs)" by (cases x)
  show ?case using Cons.prems Cons.IH unfolding x single_loop_step spec_loop.simps
    by (cases "find_validator f idx cs seen") (auto split: if_splits option.splits)
qed (simp split: if_splits)

lemma spec_single: "sigs_basic f xs \<Longrightarrow> spec_loop e f xs seen t \<Longrightarrow> single_loop e f xs seen t = Ok ()"
proof (induction xs arbitrary: seen t)
  case (Cons x xs)
  obtain idx cs where x: "x = (idx, cs)" by (cases x)
  have sb: "sigs_basic f xs" "\<not> vf_ignoreSig f cs \<Longrightarrow> CommitSig_ValidateBasic cs = Ok ()"
    using Cons.prems(1) x by (simp_all add: sigs_basic_def)
  show ?case using Cons.prems(2) sb(2) Cons.IH [OF sb(1)] unfolding x single_loop_step spec_loop.simps
    by (cases "find_validator f idx cs seen") (auto split: if_splits option.splits)
qed simp

text \<open>The batch at a signature that is not ignored and has a validator.\<close>

lemma batch_loop_step:
  assumes "\<not> vf_ignoreSig f cs" "find_validator f idx cs seen = Ok (Some (val, seen'))"
  shows "batch_loop e be kind f ((idx, cs) # xs) seen t batch = Ok r \<longleftrightarrow>
    (\<exists>pk bz. PubKey val = Some pk \<and> Commit_VoteSignBytes e (vf_commit f) (vf_chainID f) (i32 (int idx)) = Ok bz \<and>
       batch_Add be kind (Some pk) bz (cs_Signature cs) = Ok () \<and>
       (if \<not> vf_countAllSignatures f \<and> tally_sig f cs val t > vf_votingPowerNeeded f
        then r = (batch @ [(idx, pk, bz, cs_Signature cs)], tally_sig f cs val t)
        else batch_loop e be kind f xs seen' (tally_sig f cs val t) (batch @ [(idx, pk, bz, cs_Signature cs)]) = Ok r))"
proof (cases "PubKey val")
  case None
  then show ?thesis using assms by (auto simp: batch_Add_def)
next
  case (Some pk)
  then show ?thesis using assms by (auto simp: Let_def)
qed

abbreviation (input) all_verified :: "env \<Rightarrow> (nat \<times> PubKey \<times> bytes \<times> bytes) list \<Rightarrow> bool" where
  "all_verified e items \<equiv> \<forall>(i, pk, m, s) \<in> set items. VerifySignature (crypto e) pk m s"

lemma batch_spec:
  assumes "batch_loop e be kind f xs seen t batch = Ok (batch @ new, t')" "vf_votingPowerNeeded f < t'" "all_verified e new"
  shows "spec_loop e f xs seen t"
  using assms
proof (induction xs arbitrary: seen t batch new)
  case (Cons x xs)
  obtain idx cs where x: "x = (idx, cs)" by (cases x)
  show ?case
  proof (cases "vf_ignoreSig f cs")
    case True
    then show ?thesis using Cons x by simp
  next
    case ni: False
    then obtain r where r: "find_validator f idx cs seen = Ok r" using Cons.prems(1) x by auto
    show ?thesis
    proof (cases r)
      case None
      then show ?thesis using Cons r x ni by simp
    next
      case (Some p)
      obtain val seen' where p: "p = (val, seen')" by (cases p)
      let ?t = "tally_sig f cs val t"
      obtain pk bz where pk: "PubKey val = Some pk" "Commit_VoteSignBytes e (vf_commit f) (vf_chainID f) (i32 (int idx)) = Ok bz"
        "if \<not> vf_countAllSignatures f \<and> ?t > vf_votingPowerNeeded f
         then (batch @ new, t') = (batch @ [(idx, pk, bz, cs_Signature cs)], ?t)
         else batch_loop e be kind f xs seen' ?t (batch @ [(idx, pk, bz, cs_Signature cs)]) = Ok (batch @ new, t')"
        using Cons.prems(1) unfolding x batch_loop_step [OF ni r [unfolded Some p]] by blast
      show ?thesis
      proof (cases "\<not> vf_countAllSignatures f \<and> ?t > vf_votingPowerNeeded f")
        case True
        then have "new = [(idx, pk, bz, cs_Signature cs)]" using pk(3) by simp
        then show ?thesis using x ni r Some p pk(1,2) Cons.prems(3) True by auto
      next
        case False
        then have l: "batch_loop e be kind f xs seen' ?t (batch @ [(idx, pk, bz, cs_Signature cs)]) = Ok (batch @ new, t')" using pk(3) by simp
        obtain new' where n: "new = (idx, pk, bz, cs_Signature cs) # new'" using batch_loop_added [OF l] by auto
        have "spec_loop e f xs seen' ?t"
          using Cons.IH [of seen' ?t "batch @ [(idx, pk, bz, cs_Signature cs)]" new'] l n Cons.prems(2,3) by simp
        then show ?thesis using x ni r Some p pk(1,2) Cons.prems(3) n by auto
      qed
    qed
  qed
qed simp

lemma spec_batch:
  assumes "kind = ''ed25519'' \<or> kind = ''sr25519''" "batch_verifier_ok (crypto e) be"
    "\<forall>val \<in> set (Validators (vf_vals f)). kind_ok (crypto e) kind val" "spec_loop e f xs seen t"
  shows "\<exists>new t'. batch_loop e be kind f xs seen t batch = Ok (batch @ new, t') \<and> vf_votingPowerNeeded f < t' \<and> all_verified e new"
  using assms(4)
proof (induction xs arbitrary: seen t batch)
  case (Cons x xs)
  obtain idx cs where x: "x = (idx, cs)" by (cases x)
  show ?case
  proof (cases "vf_ignoreSig f cs")
    case True
    then show ?thesis using Cons x by simp
  next
    case ni: False
    then obtain r where r: "find_validator f idx cs seen = Ok r" using Cons.prems x by (auto split: result.splits)
    show ?thesis
    proof (cases r)
      case None
      then show ?thesis using Cons r x ni by simp
    next
      case (Some p)
      obtain val seen' where p: "p = (val, seen')" by (cases p)
      let ?t = "tally_sig f cs val t"
      obtain pk bz where pk: "PubKey val = Some pk" "Commit_VoteSignBytes e (vf_commit f) (vf_chainID f) (i32 (int idx)) = Ok bz"
          "VerifySignature (crypto e) pk bz (cs_Signature cs)"
          "\<not> vf_countAllSignatures f \<and> ?t > vf_votingPowerNeeded f \<or> spec_loop e f xs seen' ?t"
        using Cons.prems x ni r Some p by auto
      let ?it = "(idx, pk, bz, cs_Signature cs)"
      have "kind_ok (crypto e) kind val" using find_validator_in [OF r [unfolded Some p]] assms(3) by blast
      then have add: "batch_Add be kind (Some pk) bz (cs_Signature cs) = Ok ()"
        using verify_batch_Add [OF pk(3) _ _ assms(1,2)] pk(1) by (auto simp: kind_ok_def)
      note step = batch_loop_step [OF ni r [unfolded Some p], of e be kind xs t batch]
      show ?thesis
      proof (cases "\<not> vf_countAllSignatures f \<and> ?t > vf_votingPowerNeeded f")
        case True
        then have "batch_loop e be kind f (x # xs) seen t batch = Ok (batch @ [?it], ?t)" unfolding x step using pk add by auto
        then show ?thesis using True pk(3) by auto
      next
        case False
        then obtain new t' where n: "batch_loop e be kind f xs seen' ?t (batch @ [?it]) = Ok ((batch @ [?it]) @ new, t')"
            "vf_votingPowerNeeded f < t'" "all_verified e new"
          using Cons.IH [of seen' ?t "batch @ [?it]"] pk(4) by blast
        have "batch_loop e be kind f (x # xs) seen t batch = Ok (batch @ ?it # new, t')"
          unfolding x step using pk(1,2) add False n(1) by auto
        then show ?thesis using n(2,3) pk(3) by (intro exI [of _ "?it # new"] exI [of _ t']) auto
      qed
    qed
  qed
qed auto

lemma batch_accepts:
  assumes "batch_verifier_ok (crypto e) be" "verifyCommitBatch e be f = Ok ()"
  shows "spec_loop e f (enumerate 0 (cm_Signatures (vf_commit f))) Map.empty 0"
proof -
  let ?xs = "enumerate 0 (cm_Signatures (vf_commit f))"
  obtain kind batch t where l: "batch_loop e be kind f ?xs Map.empty 0 [] = Ok (batch, t)" "vf_votingPowerNeeded f < t"
      "fst (be_verify be (map snd batch))"
    using assms(2) by (auto simp: verifyCommitBatch_def Let_def case_prod_beta not_le split: if_splits)
  have "\<forall>(i, pk, m, s) \<in> set batch. batch_Add be kind (Some pk) m s = Ok ()" using batch_loop_added [OF l(1)] by simp
  moreover have "\<forall>(i, pk, m, s) \<in> set batch. curve_verify (crypto e) pk m s"
    using l(3) assms(1) by (fastforce simp: batch_verifier_ok_def)
  ultimately have "all_verified e batch" using batch_Add_verify by fastforce
  with batch_spec [of e be kind f ?xs Map.empty 0 "[]" batch t] l show ?thesis by simp
qed

lemma accepts_batch:
  assumes "batch_verifier_ok (crypto e) be" "spec_loop e f (enumerate 0 (cm_Signatures (vf_commit f))) Map.empty 0"
    "proposer_key (vf_vals f) = Ok (Some pk)" "SupportsBatchVerifier (Some pk)" "2 \<le> length (cm_Signatures (vf_commit f))"
    "\<forall>val \<in> set (Validators (vf_vals f)). kind_ok (crypto e) (PubKey_Type pk) val" "0 \<le> vf_votingPowerNeeded f"
  shows "verifyCommitBatch e be f = Ok ()"
proof -
  let ?xs = "enumerate 0 (cm_Signatures (vf_commit f))"
  have k: "PubKey_Type pk = ''ed25519'' \<or> PubKey_Type pk = ''sr25519''" using assms(4) by simp
  obtain batch t where l: "batch_loop e be (PubKey_Type pk) f ?xs Map.empty 0 [] = Ok (batch, t)" "vf_votingPowerNeeded f < t" "all_verified e batch"
    using spec_batch [OF k assms(1,6,2), of "[]"] by auto
  have "\<forall>(i, pk', m, s) \<in> set batch. batch_Add be (PubKey_Type pk) (Some pk') m s = Ok ()" using batch_loop_added [OF l(1)] by simp
  then have "\<forall>(i, pk, m, s) \<in> set batch. curve_verify (crypto e) pk m s" using batch_Add_verify l(3) by fastforce
  moreover have "batch \<noteq> []" using batch_loop_added [OF l(1)] l(2) assms(7) by auto
  ultimately have "fst (be_verify be (map snd batch))" using assms(1) by (fastforce simp: batch_verifier_ok_def)
  then show ?thesis using l(1,2) assms(3,5) k by (auto simp: verifyCommitBatch_def Let_def split: prod.splits)
qed

section \<open>What an accepted commit proves\<close>

text \<open>
  Validator \<open>i\<close> of the set has signed: a signature of the commit that counts carries the validator's address
  and verifies, under the validator's key, for the precommit the commit stands for at that position.
\<close>

definition has_signed :: "env \<Rightarrow> verification \<Rightarrow> nat \<Rightarrow> nat \<Rightarrow> bool" where
  "has_signed e f i idx \<longleftrightarrow> i < val_count (vf_vals f) \<and> idx < length (cm_Signatures (vf_commit f)) \<and>
     (let cs = cm_Signatures (vf_commit f) ! idx
      in \<not> vf_ignoreSig f cs \<and> vf_countSig f cs \<and> Address (Validators (vf_vals f) ! i) = cs_ValidatorAddress cs \<and>
         (\<exists>pk bz. PubKey (Validators (vf_vals f) ! i) = Some pk \<and>
            Commit_VoteSignBytes e (vf_commit f) (vf_chainID f) (i32 (int idx)) = Ok bz \<and>
            VerifySignature (crypto e) pk bz (cs_Signature cs)))"

definition signer :: "env \<Rightarrow> verification \<Rightarrow> nat \<Rightarrow> bool" where
  "signer e f i \<longleftrightarrow> (\<exists>idx. has_signed e f i idx \<and> (vf_lookUpByIndex f \<longrightarrow> idx = i))"

text \<open>Validators that were counted before position \<open>k\<close>.\<close>

definition counted :: "env \<Rightarrow> verification \<Rightarrow> nat \<Rightarrow> (int \<rightharpoonup> nat) \<Rightarrow> nat set \<Rightarrow> bool" where
  "counted e f k seen T \<longleftrightarrow> (\<forall>i \<in> T. i < val_count (vf_vals f) \<and> signer e f i \<and>
     (if vf_lookUpByIndex f then i < k else seen (int i) \<noteq> None))"

lemma find_validator_cases:
  assumes "find_validator f idx cs seen = Ok (Some (val, seen'))" "is_i32 (int (val_count (vf_vals f)))"
  obtains i where "i < val_count (vf_vals f)" "val = Validators (vf_vals f) ! i" "Address val = cs_ValidatorAddress cs"
    "if vf_lookUpByIndex f then i = idx \<and> seen' = seen else seen (int i) = None \<and> seen' = seen(int i \<mapsto> idx)"
proof (cases "vf_lookUpByIndex f")
  case True
  then show thesis using assms(1) by (intro that [of idx]) (auto simp: find_validator_def index_Ok_iff val_count_def split: if_splits)
next
  case False
  then obtain j where j: "find_index (\<lambda>v. Address v = cs_ValidatorAddress cs) (Validators (vf_vals f)) = Some j"
    using assms(1) by (auto simp: find_validator_def GetByAddress_def split: option.splits)
  then have jn: "j < val_count (vf_vals f)" "Address (Validators (vf_vals f) ! j) = cs_ValidatorAddress cs"
    using find_index_SomeD [OF j] by (auto simp: val_count_def)
  then have "i32 (int j) = int j" using assms(2) by (intro i32_idI) (auto simp: is_i32_def)
  then show thesis using assms(1) j jn False
    by (intro that [of j]) (auto simp: find_validator_def GetByAddress_def split: if_splits)
qed

lemma counted_mono: "counted e f k seen T \<Longrightarrow> k \<le> k' \<Longrightarrow> counted e f k' seen T"
  by (fastforce simp: counted_def split: if_splits)

lemma spec_loop_sound:
  assumes "spec_loop e f xs seen t" "xs = drop k (enumerate 0 (cm_Signatures (vf_commit f)))"
    "counted e f k seen T" "t = power_of (vf_vals f) (\<lambda>i. i \<in> T)"
    "powers_ok (vf_vals f)" "is_i32 (int (val_count (vf_vals f)))"
  shows "vf_votingPowerNeeded f < power_of (vf_vals f) (signer e f)"
  using assms
proof (induction xs arbitrary: seen t k T)
  case Nil
  have "power_of (vf_vals f) (\<lambda>i. i \<in> T) \<le> power_of (vf_vals f) (signer e f)"
    using Nil.prems(3) by (intro power_of_mono [OF assms(5)]) (simp add: counted_def)
  then show ?case using Nil.prems(1,4) by (simp split: if_splits)
next
  case (Cons x xs)
  let ?sigs = "cm_Signatures (vf_commit f)"
  have k: "k < length ?sigs" using Cons.prems(2) by (cases "k < length ?sigs") auto
  have "drop k (enumerate 0 ?sigs) = (k, ?sigs ! k) # drop (Suc k) (enumerate 0 ?sigs)"
    using k by (simp add: Cons_nth_drop_Suc [symmetric] nth_enumerate_eq)
  then have x: "x = (k, ?sigs ! k)" and xs: "xs = drop (Suc k) (enumerate 0 ?sigs)" using Cons.prems(2) by auto
  let ?cs = "?sigs ! k"
  have skip: ?case if "spec_loop e f xs seen t"
    using Cons.IH [OF that xs counted_mono [OF Cons.prems(3)] Cons.prems(4-6)] by simp
  show ?case
  proof (cases "vf_ignoreSig f ?cs")
    case True
    then show ?thesis using Cons.prems(1) x by (intro skip) simp
  next
    case ni: False
    then obtain r where r: "find_validator f k ?cs seen = Ok r" using Cons.prems(1) x by (auto split: result.splits)
    show ?thesis
    proof (cases r)
      case None
      then show ?thesis using Cons.prems(1) x ni r by (intro skip) simp
    next
      case (Some p)
      obtain val seen' where p: "p = (val, seen')" by (cases p)
      obtain i where i: "i < val_count (vf_vals f)" "val = Validators (vf_vals f) ! i" "Address val = cs_ValidatorAddress ?cs"
          "if vf_lookUpByIndex f then i = k \<and> seen' = seen else seen (int i) = None \<and> seen' = seen(int i \<mapsto> k)"
        using find_validator_cases [OF r [unfolded Some p] Cons.prems(6)] .
      obtain pk bz where pk: "PubKey val = Some pk" "Commit_VoteSignBytes e (vf_commit f) (vf_chainID f) (i32 (int k)) = Ok bz"
          "VerifySignature (crypto e) pk bz (cs_Signature ?cs)"
        using Cons.prems(1) x ni r Some p by auto
      define T' where "T' = (if vf_countSig f ?cs then insert i T else T)"
      have sg: "signer e f i" if "vf_countSig f ?cs"
      proof -
        have "has_signed e f i k" using that i(1-3) pk ni k by (simp add: has_signed_def Let_def)
        then show ?thesis using i(4) by (auto simp: signer_def split: if_splits)
      qed
      have T': "counted e f (Suc k) seen' T'"
        unfolding counted_def
      proof
        fix j assume "j \<in> T'"
        then consider "j = i" "vf_countSig f ?cs" | "j \<in> T" by (auto simp: T'_def split: if_splits)
        then show "j < val_count (vf_vals f) \<and> signer e f j \<and> (if vf_lookUpByIndex f then j < Suc k else seen' (int j) \<noteq> None)"
        proof cases
          case 1
          then show ?thesis using i sg by (auto split: if_splits)
        next
          case 2
          then have "j < val_count (vf_vals f)" "signer e f j" "if vf_lookUpByIndex f then j < k else seen (int j) \<noteq> None"
            using Cons.prems(3) unfolding counted_def by blast+
          then show ?thesis using i(4) by (cases "vf_lookUpByIndex f") simp_all
        qed
      qed
      have "i \<notin> T" using Cons.prems(3) i(4) by (auto simp: counted_def split: if_splits)
      then have t': "tally_sig f ?cs val t = power_of (vf_vals f) (\<lambda>j. j \<in> T')"
      proof -
        have "power_of (vf_vals f) (\<lambda>j. j \<in> insert i T) = power_of (vf_vals f) (\<lambda>j. j \<in> T \<or> j = i)"
          by (rule power_of_cong) auto
        also have "\<dots> = t + VotingPower val"
          using power_of_add [OF i(1), of "\<lambda>j. j \<in> T"] \<open>i \<notin> T\<close> Cons.prems(4) i(2) by (simp add: val_power_def)
        finally have sum: "power_of (vf_vals f) (\<lambda>j. j \<in> insert i T) = t + VotingPower val" .
        have "is_i64 (power_of (vf_vals f) P)" for P
          using power_of_bounds [OF assms(5), of P] by (simp add: is_i64_def)
        from this [of "\<lambda>j. j \<in> insert i T"] have "i64 (t + VotingPower val) = t + VotingPower val" unfolding sum by simp
        then show ?thesis using sum Cons.prems(4) unfolding tally_sig_def T'_def by (cases "vf_countSig f ?cs") (simp_all only: if_True if_False simp_thms)
      qed
      show ?thesis
      proof (cases "\<not> vf_countAllSignatures f \<and> tally_sig f ?cs val t > vf_votingPowerNeeded f")
        case True
        have "power_of (vf_vals f) (\<lambda>j. j \<in> T') \<le> power_of (vf_vals f) (signer e f)"
          using T' by (intro power_of_mono [OF assms(5)]) (simp add: counted_def)
        then show ?thesis using True t' by simp
      next
        case False
        then have "spec_loop e f xs seen' (tally_sig f ?cs val t)"
          using Cons.prems(1) x ni r Some p pk by auto
        from Cons.IH [OF this xs T' t' Cons.prems(5,6)] show ?thesis .
      qed
    qed
  qed
qed

lemma verify_accepts:
  assumes "batch_verifier_ok (crypto e) be" "verify_batch_or_single e be f = Ok ()"
  shows "spec_loop e f (enumerate 0 (cm_Signatures (vf_commit f))) Map.empty 0"
  using assms batch_accepts single_spec
  by (auto simp: verify_batch_or_single_def verifyCommitSingle_def split: if_splits)

lemma verify_sound:
  assumes "batch_verifier_ok (crypto e) be" "verify_batch_or_single e be f = Ok ()"
    "powers_ok (vf_vals f)" "is_i32 (int (val_count (vf_vals f)))"
  shows "vf_votingPowerNeeded f < power_of (vf_vals f) (signer e f)"
  using spec_loop_sound [OF verify_accepts [OF assms(1,2)], of 0 "{}"] assms(3,4) by (simp add: counted_def)

text \<open>The precommit for the commit's block that a signature of the commit stands for.\<close>

definition precommit_of :: "Commit \<Rightarrow> nat \<Rightarrow> Vote" where
  "precommit_of commit i = (let cs = cm_Signatures commit ! i in
     \<lparr>v_Type = PrecommitType, v_Height = cm_Height commit, v_Round = cm_Round commit, v_BlockID = cm_BlockID commit,
      v_Timestamp = cs_Timestamp cs, v_ValidatorAddress = cs_ValidatorAddress cs, v_ValidatorIndex = int i,
      v_Signature = cs_Signature cs, v_Extension = [], v_ExtensionSignature = []\<rparr>)"

text \<open>A validator whose signature for that precommit is in the commit at some position.\<close>

definition precommit_signed :: "env \<Rightarrow> bytes \<Rightarrow> Commit \<Rightarrow> Validator \<Rightarrow> nat \<Rightarrow> bool" where
  "precommit_signed e chainID commit val idx \<longleftrightarrow> idx < length (cm_Signatures commit) \<and>
     cs_BlockIDFlag (cm_Signatures commit ! idx) = BlockIDFlagCommit \<and>
     Address val = cs_ValidatorAddress (cm_Signatures commit ! idx) \<and>
     (\<exists>pk bz. PubKey val = Some pk \<and> VoteSignBytes e chainID (precommit_of commit idx) = Ok bz \<and>
        VerifySignature (crypto e) pk bz (cs_Signature (cm_Signatures commit ! idx)))"

lemma Commit_VoteSignBytes_precommit:
  assumes "cs_BlockIDFlag (cm_Signatures c ! i) = BlockIDFlagCommit" "i < length (cm_Signatures c)" "is_i32 (int i)"
  shows "Commit_VoteSignBytes e c chainID (i32 (int i)) = VoteSignBytes e chainID (precommit_of c i)"
  using assms by (simp add: Commit_VoteSignBytes_def Commit_GetVote_def CommitSig_BlockID_def precommit_of_def Let_def)

lemma signer_precommit:
  assumes "signer e f i" "\<And>cs. \<not> vf_ignoreSig f cs \<and> vf_countSig f cs \<Longrightarrow> cs_BlockIDFlag cs = BlockIDFlagCommit"
    "is_i32 (int (length (cm_Signatures (vf_commit f))))"
  shows "\<exists>idx. precommit_signed e (vf_chainID f) (vf_commit f) (Validators (vf_vals f) ! i) idx \<and> (vf_lookUpByIndex f \<longrightarrow> idx = i)"
proof -
  obtain idx where idx: "has_signed e f i idx" "vf_lookUpByIndex f \<longrightarrow> idx = i" using assms(1) by (auto simp: signer_def)
  then have i: "idx < length (cm_Signatures (vf_commit f))" "cs_BlockIDFlag (cm_Signatures (vf_commit f) ! idx) = BlockIDFlagCommit" "is_i32 (int idx)"
    using assms(2,3) by (auto simp: has_signed_def Let_def is_i32_def)
  have "precommit_signed e (vf_chainID f) (vf_commit f) (Validators (vf_vals f) ! i) idx"
    using idx(1) i Commit_VoteSignBytes_precommit [OF i(2,1,3)] by (auto simp: has_signed_def precommit_signed_def Let_def)
  then show ?thesis using idx(2) by blast
qed

lemma basic_ok:
  "verifyBasicValsAndCommit (Some vals) (Some commit) h b = Ok () \<longleftrightarrow>
     length (cm_Signatures commit) = val_count vals \<and> cm_Height commit = h \<and> cm_BlockID commit = b"
  by (auto simp: verifyBasicValsAndCommit_def VS_Size_def val_count_def)

lemma two_thirds_needed:
  assumes "batch_verifier_ok (crypto e) be" "powers_ok vals" "is_i32 (int (val_count vals))"
    "length (cm_Signatures commit) = val_count vals"
    "verify_batch_or_single e be \<lparr>vf_chainID = chainID, vf_vals = vals, vf_commit = commit,
       vf_votingPowerNeeded = i64 (total_power vals * 2) sdiv 3, vf_ignoreSig = ig, vf_countSig = ct,
       vf_countAllSignatures = a, vf_lookUpByIndex = True\<rparr> = Ok ()"
    "\<And>cs. \<not> ig cs \<and> ct cs \<Longrightarrow> cs_BlockIDFlag cs = BlockIDFlagCommit"
  shows "2 * total_power vals < 3 * power_of vals (\<lambda>i. precommit_signed e chainID commit (Validators vals ! i) i)"
proof -
  let ?f = "\<lparr>vf_chainID = chainID, vf_vals = vals, vf_commit = commit,
       vf_votingPowerNeeded = i64 (total_power vals * 2) sdiv 3, vf_ignoreSig = ig, vf_countSig = ct,
       vf_countAllSignatures = a, vf_lookUpByIndex = True\<rparr>"
  have "i64 (total_power vals * 2) sdiv 3 < power_of vals (signer e ?f)"
    using verify_sound [OF assms(1,5)] assms(2,3) by simp
  also have "\<dots> \<le> power_of vals (\<lambda>i. precommit_signed e chainID commit (Validators vals ! i) i)"
    using signer_precommit [of e ?f] assms(3,4,6) by (intro power_of_mono [OF assms(2)]) fastforce
  finally have "quorum vals \<le> power_of vals (\<lambda>i. precommit_signed e chainID commit (Validators vals ! i) i)"
    using quorum_code(2) [OF assms(2)] by (simp add: quorum_def)
  then show ?thesis by (simp add: quorum_iff)
qed

section \<open>What is accepted\<close>

lemma commit_two_thirds:
  assumes "batch_verifier_ok (crypto e) be" "powers_ok vals" "is_i32 (int (val_count vals))"
    "VerifyCommit e be chainID (Some vals) b h (Some commit) = Ok () \<or>
     VerifyCommitLight e be chainID (Some vals) b h (Some commit) = Ok () \<or>
     VerifyCommitLightAllSignatures e be chainID (Some vals) b h (Some commit) = Ok ()"
  shows "cm_Height commit = h \<and> cm_BlockID commit = b \<and> length (cm_Signatures commit) = val_count vals \<and>
    2 * total_power vals < 3 * power_of vals (\<lambda>i. precommit_signed e chainID commit (Validators vals ! i) i)"
proof -
  have basic: "verifyBasicValsAndCommit (Some vals) (Some commit) h b = Ok ()"
    using assms(4) by (auto simp: VerifyCommit_def VerifyCommitLight_def VerifyCommitLightAllSignatures_def verifyCommitLightInternal_def)
  then have len: "length (cm_Signatures commit) = val_count vals" by (simp add: basic_ok)
  note needed = two_thirds_needed [OF assms(1-3) len]
  have "2 * total_power vals < 3 * power_of vals (\<lambda>i. precommit_signed e chainID commit (Validators vals ! i) i)"
    using assms(4) basic TotalVotingPower_total [OF assms(2)]
    by (auto simp: VerifyCommit_def VerifyCommitLight_def VerifyCommitLightAllSignatures_def verifyCommitLightInternal_def elim!: needed)
  then show ?thesis using basic by (simp add: basic_ok)
qed

lemma commit_trusted_fraction:
  assumes "batch_verifier_ok (crypto e) be" "powers_ok vals" "is_i32 (int (val_count vals))" "is_i32 (int (length (cm_Signatures commit)))"
    "0 \<le> sint (Numerator l)" "0 \<le> sint (Denominator l)"
    "VerifyCommitLightTrusting e be chainID (Some vals) (Some commit) l = Ok () \<or>
     VerifyCommitLightTrustingAllSignatures e be chainID (Some vals) (Some commit) l = Ok ()"
  shows "total_power vals * sint (Numerator l) <
    sint (Denominator l) * power_of vals (\<lambda>i. \<exists>idx. precommit_signed e chainID commit (Validators vals ! i) idx)"
proof -
  let ?n = "sint (Numerator l)" and ?d = "sint (Denominator l)" and ?t = "total_power vals"
  have t: "0 \<le> ?t" "?t \<le> MaxTotalVotingPower" using total_power_bounds [OF assms(2)] by auto
  have n64: "is_i64 ?n" "is_i64 ?d" using sint_range_size [of "Numerator l"] sint_range_size [of "Denominator l"]
    by (simp_all add: is_i64_def word_size)
  obtain a where "verifyCommitLightTrustingInternal e be chainID (Some vals) (Some commit) l a = Ok ()"
    using assms(7) by (auto simp: VerifyCommitLightTrusting_def VerifyCommitLightTrustingAllSignatures_def)
  then have ok: "Denominator l \<noteq> 0" "\<not> snd (safeMul ?t ?n)"
      "verify_batch_or_single e be \<lparr>vf_chainID = chainID, vf_vals = vals, vf_commit = commit,
         vf_votingPowerNeeded = i64 (fst (safeMul ?t ?n) sdiv ?d),
         vf_ignoreSig = (\<lambda>c. cs_BlockIDFlag c \<noteq> BlockIDFlagCommit), vf_countSig = (\<lambda>_. True),
         vf_countAllSignatures = a, vf_lookUpByIndex = False\<rparr> = Ok ()" (is "verify_batch_or_single e be ?f = _")
    using TotalVotingPower_total [OF assms(2)]
    by (auto simp: verifyCommitLightTrustingInternal_def Let_def case_prod_beta split: if_splits)
  have d: "0 < ?d" using ok(1) assms(6) by (simp add: order_less_le) (metis signed_0 signed_word_eqI)
  have m: "fst (safeMul ?t ?n) = ?t * ?n" "\<bar>?t * ?n\<bar> \<le> MaxInt64"
    using safeMul_eq [of ?t ?n] ok(2) n64 t assms(5) by (auto simp: is_i64_def split: if_splits)
  have nn: "0 \<le> ?t * ?n" using t assms(5) by simp
  have "i64 (?t * ?n sdiv ?d) = ?t * ?n div ?d"
    using nn d m(2) sdiv_abs_le [of "?t * ?n" ?d] by (simp add: i64_idI abs_le_iff)
  then have "?t * ?n div ?d < power_of vals (signer e ?f)"
    using verify_sound [OF assms(1) ok(3)] assms(2,3) m(1) by simp
  also have "\<dots> \<le> power_of vals (\<lambda>i. \<exists>idx. precommit_signed e chainID commit (Validators vals ! i) idx)"
    using signer_precommit [of e ?f] assms(4) by (intro power_of_mono [OF assms(2)]) fastforce
  finally have "\<not> power_of vals (\<lambda>i. \<exists>idx. precommit_signed e chainID commit (Validators vals ! i) idx) \<le> ?t * ?n div ?d" by simp
  then show ?thesis unfolding le_div_iff_int [OF d] by (simp add: mult.commute)
qed

end
