(* ===== verification/VoteSetMajority.thy ===== *)
theory VoteSetMajority
  imports VoteSetProps
begin

text \<open>
  The properties of vote sets that consensus relies on, each with an instance: a chain with one
  validator.
\<close>

section \<open>A vote set of one validator\<close>

text \<open>A validator whose key signs the given messages only; signatures have the length of the code's check.\<close>

definition demo_sign :: "bytes \<Rightarrow> bytes" where
  "demo_sign m = take 64 (m @ replicate 64 0)"

definition demo_hash :: hash_fn where
  "demo_hash m = replicate 32 (if length m = 32 then hd m else 1)"

definition demo_env :: "bytes list \<Rightarrow> env" where
  "demo_env ms = toy_env\<lparr>crypto := toy_crypto\<lparr>sha := demo_hash, curve_verify := (\<lambda>pk m s. m \<in> set ms \<and> s = demo_sign m)\<rparr>\<rparr>"

definition demo_val :: Validator where
  "demo_val = \<lparr>Address = replicate 20 7, PubKey = Some (Ed25519 (replicate 32 7)), VotingPower = 1, ProposerPriority = 0\<rparr>"

definition demo_vals :: ValidatorSet where
  "demo_vals = \<lparr>Validators = [demo_val], Proposer = Some demo_val, totalVotingPower = 1, allKeysHaveSameType = True\<rparr>"

definition demo_bid :: "byte \<Rightarrow> BlockID" where
  "demo_bid b = \<lparr>bid_Hash = replicate 32 b, bid_PartSetHeader = \<lparr>psh_Total = 1, psh_Hash = replicate 32 b\<rparr>\<rparr>"

definition demo_unsigned :: "byte \<Rightarrow> Vote" where
  "demo_unsigned b = \<lparr>v_Type = 2, v_Height = 5, v_Round = 0, v_BlockID = demo_bid b, v_Timestamp = 7,
     v_ValidatorAddress = replicate 20 7, v_ValidatorIndex = 0, v_Signature = [], v_Extension = [], v_ExtensionSignature = []\<rparr>"

definition demo_bytes :: "byte \<Rightarrow> bytes" where
  "demo_bytes b = (case VoteSignBytes toy_env [99] (demo_unsigned b) of Ok m \<Rightarrow> m | _ \<Rightarrow> [])"

definition demo_vote :: "byte \<Rightarrow> Vote" where
  "demo_vote b = (demo_unsigned b)\<lparr>v_Signature := demo_sign (demo_bytes b)\<rparr>"

lemma demo_bid_ok [simp]: "bid_ok (demo_bid b)" "demo_bid b = demo_bid c \<longleftrightarrow> b = c"
  by (auto simp: bid_ok_def bid_in_range_def is_u32_def demo_bid_def BlockID_IsComplete_def)

lemma demo_bid_range [simp]: "bid_in_range (demo_bid b)"
  by (simp add: bid_in_range_def is_u32_def demo_bid_def)

lemma demo_signed_only: "VerifySignature (crypto (demo_env ms)) (Ed25519 k) m s \<Longrightarrow> m \<in> set ms"
  by (auto simp: demo_env_def toy_crypto_def split: if_splits)

lemma VoteSignBytes_demo: "VoteSignBytes (demo_env ms) c v = VoteSignBytes toy_env c v"
  by (simp add: VoteSignBytes_def CanonicalVote_Marshal_def demo_env_def)

lemma demo_CanonicalizeBlockID: "CanonicalizeBlockID (demo_bid b) = Ok (Some (demo_bid b))"
  by (simp add: CanonicalizeBlockID_def BlockIDFromProto_def PartSetHeaderFromProto_def BlockID_ValidateBasic_def
    PSH_ValidateBasic_def ValidateHash_def demo_bid_def BlockID_IsZero_def PSH_IsZero_def CanonicalizePartSetHeader_def Let_def)

lemma demo_sign_bytes:
  "VoteSignBytes toy_env [99] (demo_unsigned b) = Ok (demo_bytes b)" "VoteSignBytes toy_env [99] (demo_vote b) = Ok (demo_bytes b)"
proof -
  have "\<exists>m. VoteSignBytes toy_env [99] (demo_unsigned b) = Ok m"
    by (simp add: VoteSignBytes_def CanonicalizeVote_def demo_CanonicalizeBlockID demo_unsigned_def CanonicalVote_Marshal_def toy_env_def)
  then show *: "VoteSignBytes toy_env [99] (demo_unsigned b) = Ok (demo_bytes b)" by (auto simp: demo_bytes_def)
  show "VoteSignBytes toy_env [99] (demo_vote b) = Ok (demo_bytes b)"
    using * by (simp add: demo_vote_def demo_unsigned_def VoteSignBytes_def CanonicalizeVote_def)
qed

lemma demo_vote_sel [simp]:
  "v_Type (demo_vote b) = 2" "v_Height (demo_vote b) = 5" "v_Round (demo_vote b) = 0" "v_BlockID (demo_vote b) = demo_bid b"
  "v_ValidatorIndex (demo_vote b) = 0" "v_ValidatorAddress (demo_vote b) = replicate 20 7"
  "v_Extension (demo_vote b) = []" "v_ExtensionSignature (demo_vote b) = []" "v_Signature (demo_vote b) = demo_sign (demo_bytes b)"
  by (simp_all add: demo_vote_def demo_unsigned_def)

lemma demo_verify: "demo_bytes b \<in> set ms \<Longrightarrow> Vote_Verify (demo_env ms) [99] (Ed25519 (replicate 32 7)) (demo_vote b) = Ok ()"
  by (simp add: Vote_Verify_def verifyAndReturnProto_def VoteSignBytes_demo demo_sign_bytes SumTruncated_def Let_def)
     (simp add: demo_env_def toy_crypto_def demo_hash_def demo_sign_def)

lemma demo_vote_ok [simp]: "vote_ok (demo_vote b)"
proof -
  have "BlockID_ValidateBasic (demo_bid b) = Ok ()" "BlockID_IsComplete (demo_bid b)" "\<not> BlockID_IsZero (demo_bid b)"
    by (simp_all add: BlockID_ValidateBasic_def PSH_ValidateBasic_def ValidateHash_def demo_bid_def BlockID_IsComplete_def BlockID_IsZero_def)
  then show ?thesis by (simp add: vote_ok_def Vote_ValidateBasic_def IsVoteTypeValid_def demo_sign_def)
qed

lemma demo_check:
  "demo_bytes b \<in> set ms \<Longrightarrow> vs_chainID s = [99] \<Longrightarrow> \<not> vs_extensionsEnabled s \<Longrightarrow>
     check_signature (demo_env ms) s (demo_vote b) (Ed25519 (replicate 32 7)) = Ok ()"
  by (simp add: check_signature_def demo_verify)

lemma demo_vals [simp]: "powers_ok demo_vals" "val_count demo_vals = 1" "Validators demo_vals = [demo_val]" "total_power demo_vals = 1"
  by (simp_all add: powers_ok_def powers_wf_def addrs_def demo_vals_def demo_val_def val_count_def total_power_eq)

text \<open>An empty vote set, and one with a vote for block \<open>b\<close>.\<close>

lemma demo_new: "\<exists>s. vote_set_of (demo_env ms) [99] 5 0 2 demo_vals s \<and> vs_votes s ! 0 = None \<and> \<not> vs_extensionsEnabled s \<and> vs_chainID s = [99] \<and>
    vs_votesByBlock s = Map.empty \<and> vs_peerMaj23s s = Map.empty"
proof -
  obtain s where "NewVoteSet [99] 5 0 2 demo_vals = Ok s" "vs_votes s = replicate (val_count demo_vals) None" "\<not> vs_extensionsEnabled s" "vs_chainID s = [99]"
      "vs_votesByBlock s = Map.empty" "vs_peerMaj23s s = Map.empty"
    using NewVoteSet_wf [of demo_vals 5 "[99]" 0 2] by auto
  then show ?thesis using vs_steps.none by (intro exI [of _ s]) (auto simp: vote_set_of_def)
qed

lemma demo_genuine:
  assumes "vote_set_of (demo_env ms) [99] 5 0 2 demo_vals s" "\<not> vs_extensionsEnabled s" "demo_bytes b \<in> set ms"
  shows "genuine (demo_env ms) s 0 (demo_vote b)"
  using vote_set_of_wf [OF assms(1)] demo_check [OF assms(3)] assms(2)
  by (simp add: genuine_def val_count_def demo_val_def)

lemma vote_set_of_step: "vote_set_of e c h r t vals s \<Longrightarrow> vs_step e s s' \<Longrightarrow> vote_set_of e c h r t vals s'"
  using vs_steps.more by (fastforce simp: vote_set_of_def)

lemma demo_voted:
  assumes "demo_bytes b \<in> set ms"
  shows "\<exists>s. vote_set_of (demo_env ms) [99] 5 0 2 demo_vals s \<and> vs_votes s ! 0 = Some (demo_vote b) \<and> \<not> vs_extensionsEnabled s \<and>
    vs_chainID s = [99] \<and> TwoThirdsMajority (Some s) = (demo_bid b, True) \<and> vs_peerMaj23s s = Map.empty \<and>
    (\<forall>c. c \<noteq> b \<longrightarrow> vs_votesByBlock s (BlockID_Key (demo_bid c)) = None) \<and>
    (\<exists>s0. vote_set_of (demo_env ms) [99] 5 0 2 demo_vals s0 \<and> AddVote (demo_env ms) (Some s0) (Some (demo_vote b)) = Ok (s, True, None))"
proof -
  obtain s where s: "vote_set_of (demo_env ms) [99] 5 0 2 demo_vals s" "vs_votes s ! 0 = None" "\<not> vs_extensionsEnabled s" "vs_chainID s = [99]"
      "vs_votesByBlock s = Map.empty" "vs_peerMaj23s s = Map.empty"
    using demo_new by blast
  note wf = vote_set_of_wf [OF s(1)]
  have g: "genuine (demo_env ms) s 0 (demo_vote b)" using demo_genuine s assms by blast
  have n: "(0::nat) < val_count (vs_valSet s)" using wf(7) by (simp add: val_count_def)
  obtain t where t: "vs_addVote (demo_env ms) s (Some (demo_vote b)) = Ok (t, True, None)" "voteset_wf (demo_env ms) t" "same_config s t"
      "vs_votes t ! 0 = Some (demo_vote b)" "vs_peerMaj23s t = Map.empty" "\<forall>k. k \<noteq> vkey (demo_vote b) \<longrightarrow> vs_votesByBlock t k = None"
    using addVote_new [OF wf(1) g _ _ getVote_unknown [OF wf(1) n s(2)]] s(2,5,6) by auto
  have v: "vote_set_of (demo_env ms) [99] 5 0 2 demo_vals t"
    using vote_set_of_step [OF s(1) vs_step.add [OF t(1)]] by simp
  have "power_of (vs_valSet t) (votes_for t (demo_bid b)) = 1" "total_power (vs_valSet t) = 1"
    using same_Validators_power [of "vs_valSet t" demo_vals] vote_set_of_wf(7) [OF v] t(4)
    by (simp_all add: power_of_def wsum_def votes_for_def val_power_def demo_val_def)
  then have "vs_maj23 t = Some (demo_bid b)" using majority_complete [OF t(2), of "demo_bid b"] by simp
  moreover have "BlockID_Key (demo_bid c) \<noteq> BlockID_Key (demo_bid b)" if "c \<noteq> b" for c
    using that key_eq_iff [of "demo_bid c" "demo_bid b"] by simp
  ultimately show ?thesis using v t s by (intro exI [of _ t]) (auto simp: TwoThirdsMajority_iff AddVote_def same_config_def)
qed

lemma demo_claim:
  assumes "vote_set_of e c h r t vals s" "vs_peerMaj23s s = Map.empty"
  shows "\<exists>s'. SetPeerMaj23 (Some s) p m = Ok (s', None) \<and> vs_peerMaj23s s' p = Some m"
proof -
  have "powers_ok (vs_valSet s)" using vote_set_of_wf(1) [OF assms(1)] by (simp add: voteset_wf_def voteset_inv_def)
  then obtain b where "newBlockVotes True (VS_Size (vs_valSet s)) = Ok b" using newBlockVotes_filed by blast
  then show ?thesis using assms(2) by (auto simp: SetPeerMaj23_def Let_def split: option.splits)
qed

lemma demo_conflict:
  assumes "vote_set_of (demo_env [demo_bytes 1, demo_bytes 2]) [99] 5 0 2 demo_vals s" "vs_votes s ! 0 = Some (demo_vote 1)"
    "\<not> vs_extensionsEnabled s" "vs_votesByBlock s (BlockID_Key (demo_bid 2)) = None"
  shows "\<exists>s' added. AddVote (demo_env [demo_bytes 1, demo_bytes 2]) (Some s) (Some (demo_vote 2)) =
    Ok (s', added, Some (ErrVoteConflictingVotes (demo_vote 1) (demo_vote 2)))"
proof -
  note wf = vote_set_of_wf [OF assms(1)]
  have g: "genuine (demo_env [demo_bytes 1, demo_bytes 2]) s 0 (demo_vote 2)" using demo_genuine assms(1,3) by simp
  have "length (vs_votes s) = 1"
    using wf(1,7) by (simp add: voteset_wf_def voteset_defs tally_def val_count_def)
  moreover have "BlockID_Key (demo_bid 1) \<noteq> BlockID_Key (demo_bid 2)" using key_eq_iff [of "demo_bid 1" "demo_bid 2"] by simp
  ultimately have "vs_getVote s (int 0) (vkey (demo_vote 2)) = Ok None"
    using assms(2,4) by (simp add: vs_getVote_def index_def bv_getByIndex_def)
  from addVote_new [OF wf(1) g _ _ this] show ?thesis using assms(2) by (auto simp: AddVote_def)
qed

text \<open>The validator has signed nothing else.\<close>

lemma demo_only:
  assumes "vote_set_of (demo_env [demo_bytes 1]) [99] 5 0 2 demo_vals s" "\<not> vs_extensionsEnabled s"
    "genuine (demo_env [demo_bytes 1]) s 0 v" "vote_ok v"
  shows "v_BlockID v = demo_bid 1"
proof -
  note wf = vote_set_of_wf [OF assms(1)]
  have "Vote_Verify (demo_env [demo_bytes 1]) [99] (Ed25519 (replicate 32 7)) v = Ok ()"
    using assms(2,3) wf by (auto simp: genuine_def check_signature_def demo_val_def)
  then have "VoteSignBytes toy_env [99] v = Ok (demo_bytes 1)"
    by (auto simp: Vote_Verify_def verifyAndReturnProto_def VoteSignBytes_demo Let_def
      simp del: VerifySignature.simps dest!: demo_signed_only split: if_splits)
  moreover have "vote_in_range v" "vote_in_range (demo_vote 1)"
    using assms(3,4) wf by (auto simp: vote_in_range_def genuine_def is_i32_def is_i64_def vote_ok_def)
  ultimately show ?thesis using VoteSignBytes_inj [OF toy_env_time, of v "demo_vote 1" "[99]" "demo_bytes 1" "[99]"] demo_sign_bytes(2) by simp
qed

section \<open>What a vote set promises\<close>

text \<open>C6. A vote set reports a two-thirds majority for a block exactly when validators holding more than two
  thirds of the total voting power are recorded as voting for it, and \<open>HasTwoThirdsAny\<close> and \<open>HasAll\<close> exactly
  when more than two thirds, or all, of the power has voted at all: after any sequence of votes and peer
  claims, conflicting votes included. Every recorded vote is a verified vote of that validator.\<close>

theorem two_thirds_majority_exact:
  assumes "vote_set_of e chainID h r t vals s"
  shows "(TwoThirdsMajority (Some s) = (b, True) \<longleftrightarrow> 2 * total_power vals < 3 * power_of vals (votes_for s b)) \<and>
    map_out fst (HasTwoThirdsAny (Some s)) = Ok (2 * total_power vals < 3 * power_of vals (\<lambda>i. vs_votes s ! i \<noteq> None)) \<and>
    map_out fst (HasAll (Some s)) = Ok (power_of vals (\<lambda>i. vs_votes s ! i \<noteq> None) = total_power vals) \<and>
    (\<forall>i < val_count vals. \<forall>v. vs_votes s ! i = Some v \<longrightarrow> genuine e s i v)"
proof (intro conjI)
  note wf = vote_set_of_wf [OF assms]
  note same = same_Validators_power [OF wf(7)]
  have ok: "powers_ok (vs_valSet s)" and cn: "canonical e (\<lambda>_. False) s" using wf(1) by (auto simp: voteset_wf_def voteset_inv_def)
  show "TwoThirdsMajority (Some s) = (b, True) \<longleftrightarrow> 2 * total_power vals < 3 * power_of vals (votes_for s b)"
    unfolding TwoThirdsMajority_iff
    using majority_sound(1) [OF wf(1), unfolded same] majority_complete [OF wf(1), unfolded same] by blast
  have sum: "vs_sum s = power_of vals (\<lambda>i. vs_votes s ! i \<noteq> None)" using cn by (simp add: canonical_def tally_def same)
  have any: "total_power vals * 2 div 3 < x \<longleftrightarrow> 2 * total_power vals < 3 * x" for x
    using quorum_iff [of vals x] unfolding quorum_def by linarith
  show "map_out fst (HasTwoThirdsAny (Some s)) = Ok (2 * total_power vals < 3 * power_of vals (\<lambda>i. vs_votes s ! i \<noteq> None))"
    by (simp add: HasTwoThirdsAny_def TotalVotingPower_total [OF ok] quorum_code(2) [OF ok, unfolded same] same any sum)
  show "map_out fst (HasAll (Some s)) = Ok (power_of vals (\<lambda>i. vs_votes s ! i \<noteq> None) = total_power vals)"
    by (simp add: HasAll_def TotalVotingPower_total [OF ok] same sum)
  show "\<forall>i < val_count vals. \<forall>v. vs_votes s ! i = Some v \<longrightarrow> genuine e s i v" using canonicalD(1) [OF cn] by (simp add: same)
qed

theorem two_thirds_majority_exact_witness:
  "\<exists>s. vote_set_of (demo_env [demo_bytes 1]) [99] 5 0 2 demo_vals s \<and> TwoThirdsMajority (Some s) = (demo_bid 1, True) \<and>
     2 * total_power demo_vals < 3 * power_of demo_vals (votes_for s (demo_bid 1))"
proof -
  obtain s where s: "vote_set_of (demo_env [demo_bytes 1]) [99] 5 0 2 demo_vals s" "TwoThirdsMajority (Some s) = (demo_bid 1, True)"
    using demo_voted [of 1 "[demo_bytes 1]"] by auto
  show ?thesis using two_thirds_majority_exact [OF s(1), of "demo_bid 1"] s by blast
qed

text \<open>C24. A majority is final: no later vote or peer claim changes it.\<close>

theorem majority_final:
  assumes "vote_set_of e chainID h r t vals s" "TwoThirdsMajority (Some s) = (b, True)" "vs_steps e s s'"
  shows "TwoThirdsMajority (Some s') = (b, True)"
  using vs_steps_wf [OF assms(3) vote_set_of_wf(1) [OF assms(1)]] assms(2)
  by (simp add: TwoThirdsMajority_iff)

theorem majority_final_witness:
  "\<exists>s s'. TwoThirdsMajority (Some s) = (demo_bid 1, True) \<and> vs_peerMaj23s s' ''peer'' = Some (demo_bid 2) \<and>
     TwoThirdsMajority (Some s') = (demo_bid 1, True)"
proof -
  obtain s where s: "vote_set_of (demo_env [demo_bytes 1]) [99] 5 0 2 demo_vals s" "TwoThirdsMajority (Some s) = (demo_bid 1, True)"
      "vs_peerMaj23s s = Map.empty"
    using demo_voted [of 1 "[demo_bytes 1]"] by auto
  obtain s' where s': "SetPeerMaj23 (Some s) ''peer'' (demo_bid 2) = Ok (s', None)" "vs_peerMaj23s s' ''peer'' = Some (demo_bid 2)"
    using demo_claim [OF s(1,3)] by blast
  have "vs_steps (demo_env [demo_bytes 1]) s s'" using vs_steps.more [OF vs_steps.none vs_step.claim [OF s'(1)]] .
  from majority_final [OF s(1,2) this] show ?thesis using s(2) s'(2) by blast
qed

text \<open>C9. Accountable safety: if two nodes see majorities for different blocks at the same height, round and
  vote type of a chain, then validators with more than a third of the voting power have each signed two
  different votes, and the two nodes hold both.\<close>

theorem conflicting_majorities_accountable:
  assumes "vote_set_of e chainID h r t vals s" "vote_set_of e chainID h r t vals s'"
    "TwoThirdsMajority (Some s) = (b, True)" "TwoThirdsMajority (Some s') = (b', True)" "b \<noteq> b'"
  shows "total_power vals < 3 * power_of vals (\<lambda>i. \<exists>v v'. vs_votes s ! i = Some v \<and> vs_votes s' ! i = Some v' \<and>
    genuine e s i v \<and> genuine e s' i v' \<and> v_BlockID v = b \<and> v_BlockID v' = b')"
proof -
  note wf = vote_set_of_wf [OF assms(1)] and wf' = vote_set_of_wf [OF assms(2)]
  note [simp] = same_Validators_power [OF wf(7)] same_Validators_power [OF wf'(7)]
  have cn: "canonical e (\<lambda>_. False) s" "canonical e (\<lambda>_. False) s'" using wf(1) wf'(1) by (auto simp: voteset_wf_def voteset_inv_def)
  have "vs_maj23 s = Some b" "vs_maj23 s' = Some b'" using assms(3,4) by (simp_all add: TwoThirdsMajority_iff)
  then have "2 * total_power vals < 3 * power_of vals (votes_for s b)" "2 * total_power vals < 3 * power_of vals (votes_for s' b')"
    using majority_sound(1) [OF wf(1)] majority_sound(1) [OF wf'(1)] by auto
  from two_quorums [OF wf(2) this]
  have "total_power vals < 3 * power_of vals (\<lambda>i. votes_for s b i \<and> votes_for s' b' i)" .
  also have "\<dots> = 3 * power_of vals (\<lambda>i. \<exists>v v'. vs_votes s ! i = Some v \<and> vs_votes s' ! i = Some v' \<and>
      genuine e s i v \<and> genuine e s' i v' \<and> v_BlockID v = b \<and> v_BlockID v' = b')"
    using canonicalD(1) [OF cn(1)] canonicalD(1) [OF cn(2)]
    by (intro arg_cong [where f = "\<lambda>x. 3 * x"] power_of_cong) (auto simp: votes_for_def)
  finally show ?thesis .
qed

theorem conflicting_majorities_accountable_witness:
  "\<exists>s s'. TwoThirdsMajority (Some s) = (demo_bid 1, True) \<and> TwoThirdsMajority (Some s') = (demo_bid 2, True) \<and>
     total_power demo_vals < 3 * power_of demo_vals (\<lambda>i. \<exists>v v'. vs_votes s ! i = Some v \<and> vs_votes s' ! i = Some v' \<and>
       genuine (demo_env [demo_bytes 1, demo_bytes 2]) s i v \<and> genuine (demo_env [demo_bytes 1, demo_bytes 2]) s' i v' \<and>
       v_BlockID v = demo_bid 1 \<and> v_BlockID v' = demo_bid 2)"
proof -
  let ?e = "demo_env [demo_bytes 1, demo_bytes 2]"
  obtain s where s: "vote_set_of ?e [99] 5 0 2 demo_vals s" "TwoThirdsMajority (Some s) = (demo_bid 1, True)"
    using demo_voted [of 1 "[demo_bytes 1, demo_bytes 2]"] by auto
  obtain s' where s': "vote_set_of ?e [99] 5 0 2 demo_vals s'" "TwoThirdsMajority (Some s') = (demo_bid 2, True)"
    using demo_voted [of 2 "[demo_bytes 1, demo_bytes 2]"] by auto
  from conflicting_majorities_accountable [OF s(1) s'(1) s(2) s'(2)] show ?thesis using s(2) s'(2) by auto
qed

text \<open>C26. A validator's vote is accepted: a vote for this height, round and type, with the validator's address
  and a valid signature, from a validator no vote is known of, is added and recorded, without an error.\<close>

theorem new_vote_accepted:
  assumes "vote_set_of e chainID h r t vals s" "i < val_count vals" "vs_votes s ! i = None"
    "v_ValidatorIndex v = int i" "v_Height v = h" "v_Round v = r" "v_Type v = t" "vote_ok v"
    "v_ValidatorAddress v = Address (Validators vals ! i)" "Address (Validators vals ! i) \<noteq> []"
    "PubKey (Validators vals ! i) = Some pk" "check_signature e s v pk = Ok ()"
  shows "\<exists>s'. AddVote e (Some s) (Some v) = Ok (s', True, None) \<and> vs_votes s' ! i = Some v"
proof -
  note wf = vote_set_of_wf [OF assms(1)]
  have g: "genuine e s i v" using assms wf by (simp add: genuine_def val_count_def)
  then have "i < val_count (vs_valSet s)" by (simp add: genuine_def)
  from addVote_new [OF wf(1) g assms(8) _ getVote_unknown [OF wf(1) this assms(3)]] show ?thesis
    using assms(3,9,10) by (auto simp: AddVote_def)
qed

theorem new_vote_accepted_witness:
  "\<exists>s s'. vs_votes s ! 0 = None \<and>
     AddVote (demo_env [demo_bytes 1]) (Some s) (Some (demo_vote 1)) = Ok (s', True, None) \<and> vs_votes s' ! 0 = Some (demo_vote 1)"
proof -
  obtain s where s: "vote_set_of (demo_env [demo_bytes 1]) [99] 5 0 2 demo_vals s" "vs_votes s ! 0 = None" "\<not> vs_extensionsEnabled s" "vs_chainID s = [99]"
    using demo_new by blast
  have "check_signature (demo_env [demo_bytes 1]) s (demo_vote 1) (Ed25519 (replicate 32 7)) = Ok ()" using s by (intro demo_check) auto
  from new_vote_accepted [OF s(1) _ s(2) _ _ _ _ _ _ _ _ this] show ?thesis using s(2) by (auto simp: demo_val_def)
qed

text \<open>C25. No conflict is reported without a double signing: a conflicting-votes error carries the new vote and an
  earlier one, both verified votes of the same validator for this height, round and type, for different blocks.
  Any other error leaves the vote set as it was.\<close>

theorem conflict_is_double_signing:
  assumes "vote_set_of e chainID h r t vals s" "vote_ok v" "AddVote e (Some s) (Some v) = Ok (s', added, Some err)"
  shows "case err of
      ErrVoteConflictingVotes a b \<Rightarrow> b = v \<and> v_BlockID a \<noteq> v_BlockID b \<and> (\<exists>i. genuine e s i a \<and> genuine e s i b)
    | VoteError _ \<Rightarrow> s' = s \<and> \<not> added"
proof -
  note wf = vote_set_of_wf [OF assms(1)]
  have cn: "canonical e (\<lambda>_. False) s" using wf(1) by (simp add: voteset_wf_def voteset_inv_def)
  then have len: "length (vs_votes s) = val_count (vs_valSet s)" by (simp add: canonical_def tally_def)
  have "vs_addVote e s (Some v) = Ok (s', added, Some err)" using assms(3) by (simp add: AddVote_def)
  from this wf(1) show ?thesis
  proof (cases rule: addVote_cases)
    case (verified w i c)
    obtain u a where "vs_addVerifiedVote s v (vkey v) (val_power (vs_valSet s) i) = Ok (u, a, vs_votes s ! i)"
      using addVerifiedVote_wf [OF wf(1) verified(2) _ verified(3)] assms(2) verified(1) by auto
    then have c: "c = vs_votes s ! i" using verified(1,4) by simp
    have i: "i < val_count (vs_valSet s)" using verified(2) by (simp add: genuine_def)
    obtain x where x: "vs_votes s ! i = Some x" "err = ErrVoteConflictingVotes x w" using verified(5) c by (cases "vs_votes s ! i") auto
    have "v_BlockID x \<noteq> v_BlockID w" using verified(3) x(1) i len by (auto simp: vs_getVote_def)
    then show ?thesis using x verified(1,2) canonicalD(1) [OF cn i x(1)] by auto
  qed auto
qed

theorem conflict_is_double_signing_witness:
  "\<exists>s s' added. AddVote (demo_env [demo_bytes 1, demo_bytes 2]) (Some s) (Some (demo_vote 2)) =
       Ok (s', added, Some (ErrVoteConflictingVotes (demo_vote 1) (demo_vote 2))) \<and>
     (\<exists>i. genuine (demo_env [demo_bytes 1, demo_bytes 2]) s i (demo_vote 1) \<and> genuine (demo_env [demo_bytes 1, demo_bytes 2]) s i (demo_vote 2))"
proof -
  let ?e = "demo_env [demo_bytes 1, demo_bytes 2]"
  obtain s where s: "vote_set_of ?e [99] 5 0 2 demo_vals s" "vs_votes s ! 0 = Some (demo_vote 1)" "\<not> vs_extensionsEnabled s"
      "vs_votesByBlock s (BlockID_Key (demo_bid 2)) = None"
    using demo_voted [of 1 "[demo_bytes 1, demo_bytes 2]"] by auto
  obtain s' added where s': "AddVote ?e (Some s) (Some (demo_vote 2)) = Ok (s', added, Some (ErrVoteConflictingVotes (demo_vote 1) (demo_vote 2)))"
    using demo_conflict [OF s] by blast
  from conflict_is_double_signing [OF s(1) _ s'] show ?thesis using s' by auto
qed

text \<open>C23. A majority is reached: if validators with more than two thirds of the power sign only votes for one
  block, and a vote of each of them has been handed to \<open>AddVote\<close> at some point and was not refused, then the vote
  set reports the majority for that block, whatever else arrived in between.\<close>

theorem majority_reached:
  assumes "vote_set_of e chainID h r t vals s"
    "\<forall>i \<in> H. i < val_count vals" "2 * total_power vals < 3 * power_of vals (\<lambda>i. i \<in> H)"
    "\<forall>i \<in> H. \<exists>v s1 s2 added. vote_set_of e chainID h r t vals s1 \<and> v_ValidatorIndex v = int i \<and> vote_ok v \<and>
       AddVote e (Some s1) (Some v) = Ok (s2, added, None) \<and> vs_steps e s2 s"
    "\<forall>i \<in> H. \<forall>v. genuine e s i v \<and> vote_ok v \<longrightarrow> v_BlockID v = b"
  shows "TwoThirdsMajority (Some s) = (b, True)"
proof -
  note wf = vote_set_of_wf [OF assms(1)]
  note same = same_Validators_power [OF wf(7)]
  have cn: "canonical e (\<lambda>_. False) s" and ok: "powers_ok vals" using wf(1,2) by (simp_all add: voteset_wf_def voteset_inv_def)
  have "votes_for s b i" if i: "i \<in> H" for i
  proof -
    obtain v s1 s2 added where v: "vote_set_of e chainID h r t vals s1" "v_ValidatorIndex v = int i" "vote_ok v"
        "vs_addVote e s1 (Some v) = Ok (s2, added, None)" "vs_steps e s2 s"
      using assms(4) i by (auto simp: AddVote_def)
    note wf1 = vote_set_of_wf [OF v(1)]
    have s2: "voteset_wf e s2" "same_config s1 s2" using addVote_wf [OF v(4) wf1(1) v(3)] by auto
    have n: "i < val_count (vs_valSet s2)" "vs_votes s2 ! i \<noteq> None"
      using addVote_recorded [OF v(4) wf1(1) v(3)] v(2) power_config(1) [OF s2(2)] by auto
    then obtain w where "vs_votes s ! i = Some w" using vs_steps_wf [OF v(5) s2(1)] by (auto simp: not_None_eq)
    moreover have "i < val_count (vs_valSet s)" using assms(2) i same by simp
    ultimately show ?thesis using canonicalD(1,2) [OF cn] assms(5) i by (auto simp: votes_for_def)
  qed
  then have "power_of vals (\<lambda>i. i \<in> H) \<le> power_of vals (votes_for s b)" by (intro power_of_mono [OF ok])
  then have "2 * total_power vals < 3 * power_of vals (votes_for s b)" using assms(3) by linarith
  then show ?thesis using majority_complete [OF wf(1), unfolded same] by (simp add: TwoThirdsMajority_iff)
qed

theorem majority_reached_witness:
  "\<exists>s. vote_set_of (demo_env [demo_bytes 1]) [99] 5 0 2 demo_vals s \<and> TwoThirdsMajority (Some s) = (demo_bid 1, True)"
proof -
  let ?e = "demo_env [demo_bytes 1]"
  obtain s s0 where s: "vote_set_of ?e [99] 5 0 2 demo_vals s" "vote_set_of ?e [99] 5 0 2 demo_vals s0"
      "AddVote ?e (Some s0) (Some (demo_vote 1)) = Ok (s, True, None)" "\<not> vs_extensionsEnabled s"
    using demo_voted [of 1 "[demo_bytes 1]"] by auto
  have "\<exists>v s1 s2 added. vote_set_of ?e [99] 5 0 2 demo_vals s1 \<and> v_ValidatorIndex v = int 0 \<and> vote_ok v \<and>
      AddVote ?e (Some s1) (Some v) = Ok (s2, added, None) \<and> vs_steps ?e s2 s"
    using s(2,3) vs_steps.none by (intro exI [of _ "demo_vote 1"] exI [of _ s0] exI [of _ s] exI [of _ True]) simp
  moreover have "v_BlockID v = demo_bid 1" if "genuine ?e s 0 v \<and> vote_ok v" for v
    using demo_only [OF s(1,4)] that by simp
  moreover have "2 * total_power demo_vals < 3 * power_of demo_vals (\<lambda>i. i \<in> {0})"
    by (simp add: power_of_def wsum_def val_power_def demo_val_def)
  ultimately have "TwoThirdsMajority (Some s) = (demo_bid 1, True)"
    using majority_reached [OF s(1), of "{0}" "demo_bid 1"] by simp
  then show ?thesis using s(1) by blast
qed

end
