(* ===== verification/VerifiedCommits.thy ===== *)
theory VerifiedCommits
  imports CommitVerificationProps VoteSetMajority
begin

text \<open>
  The properties of commit verification that consensus, the light client and block sync rely on, and that the
  commit of a vote set verifies.
\<close>

section \<open>The commit of a vote set\<close>

lemma spec_loop_complete:
  assumes "xs = drop k (enumerate 0 (cm_Signatures (vf_commit f)))" "k \<le> length (cm_Signatures (vf_commit f))"
    "vf_lookUpByIndex f" "vf_countAllSignatures f" "powers_ok (vf_vals f)"
    "length (cm_Signatures (vf_commit f)) = val_count (vf_vals f)"
    "\<And>i. i < val_count (vf_vals f) \<Longrightarrow> \<not> vf_ignoreSig f (cm_Signatures (vf_commit f) ! i) \<Longrightarrow>
       Address (Validators (vf_vals f) ! i) = cs_ValidatorAddress (cm_Signatures (vf_commit f) ! i) \<and>
       (\<exists>pk bz. PubKey (Validators (vf_vals f) ! i) = Some pk \<and>
            Commit_VoteSignBytes e (vf_commit f) (vf_chainID f) (i32 (int i)) = Ok bz \<and>
            VerifySignature (crypto e) pk bz (cs_Signature (cm_Signatures (vf_commit f) ! i)))"
    "vf_votingPowerNeeded f < power_of (vf_vals f) (\<lambda>i. \<not> vf_ignoreSig f (cm_Signatures (vf_commit f) ! i) \<and>
       vf_countSig f (cm_Signatures (vf_commit f) ! i))"
    "t = power_of (vf_vals f) (\<lambda>i. i < k \<and> \<not> vf_ignoreSig f (cm_Signatures (vf_commit f) ! i) \<and>
       vf_countSig f (cm_Signatures (vf_commit f) ! i))"
  shows "spec_loop e f xs seen t"
  using assms(1,2,9)
proof (induction xs arbitrary: k t)
  case Nil
  let ?C = "\<lambda>i. \<not> vf_ignoreSig f (cm_Signatures (vf_commit f) ! i) \<and> vf_countSig f (cm_Signatures (vf_commit f) ! i)"
  have "k = length (cm_Signatures (vf_commit f))" using Nil.prems by simp
  then have "t = power_of (vf_vals f) ?C" unfolding Nil.prems(3) using assms(6) by (intro power_of_cong) auto
  then show ?case using assms(8) by simp
next
  case (Cons x xs)
  let ?sigs = "cm_Signatures (vf_commit f)"
  let ?C = "\<lambda>i. \<not> vf_ignoreSig f (?sigs ! i) \<and> vf_countSig f (?sigs ! i)"
  have k: "k < length ?sigs" using Cons.prems(1) by (cases "k < length ?sigs") auto
  have "drop k (enumerate 0 ?sigs) = (k, ?sigs ! k) # drop (Suc k) (enumerate 0 ?sigs)"
    using k by (simp add: Cons_nth_drop_Suc [symmetric] nth_enumerate_eq)
  then have x: "x = (k, ?sigs ! k)" and xs: "xs = drop (Suc k) (enumerate 0 ?sigs)" using Cons.prems(1) by auto
  have kn: "k < val_count (vf_vals f)" using k assms(6) by simp
  have IH: "spec_loop e f xs seen (power_of (vf_vals f) (\<lambda>i. i < Suc k \<and> ?C i))"
    using Cons.IH [OF xs _ refl] k by simp
  show ?case
  proof (cases "?C k")
    case False
    have "power_of (vf_vals f) (\<lambda>i. i < Suc k \<and> ?C i) = t"
      unfolding Cons.prems(3) using False by (intro power_of_cong) (auto simp: less_Suc_eq)
    then show ?thesis using IH x assms(3) assms(7) [OF kn] False kn k
      by (auto simp: find_validator_def index_def val_count_def tally_sig_def)
  next
    case True
    have "power_of (vf_vals f) (\<lambda>i. i < Suc k \<and> ?C i) = power_of (vf_vals f) (\<lambda>i. (i < k \<and> ?C i) \<or> i = k)"
      using True by (intro power_of_cong) (auto simp: less_Suc_eq)
    also have "\<dots> = t + val_power (vf_vals f) k"
      unfolding Cons.prems(3) using kn by (subst power_of_add) auto
    finally have p: "power_of (vf_vals f) (\<lambda>i. i < Suc k \<and> ?C i) = t + val_power (vf_vals f) k" .
    have "is_i64 (power_of (vf_vals f) P)" for P
      using power_of_bounds [OF assms(5), of P] by (simp add: is_i64_def)
    from this [of "\<lambda>i. i < Suc k \<and> ?C i"] have "i64 (t + val_power (vf_vals f) k) = t + val_power (vf_vals f) k" unfolding p by simp
    then show ?thesis using IH [unfolded p] x assms(3) assms(7) [OF kn] True kn k
      by (auto simp: find_validator_def index_def val_count_def tally_sig_def val_power_def)
  qed
qed

lemma from_protos_Ok:
  "from_protos f xs = Ok ys \<longleftrightarrow> length ys = length xs \<and> (\<forall>i < length xs. f (xs ! i) = Ok (ys ! i))"
proof -
  have "fold_out (\<lambda>x ys. map_out (\<lambda>y. ys @ [y]) (f x)) xs zs = Ok ys \<longleftrightarrow>
      (\<exists>us. ys = zs @ us \<and> length us = length xs \<and> (\<forall>i < length xs. f (xs ! i) = Ok (us ! i)))" for zs
  proof (induction xs arbitrary: zs)
    case (Cons x xs)
    show ?case
    proof
      assume "fold_out (\<lambda>x ys. map_out (\<lambda>y. ys @ [y]) (f x)) (x # xs) zs = Ok ys"
      then obtain y us where "f x = Ok y" "ys = zs @ y # us" "length us = length xs" "\<forall>i < length xs. f (xs ! i) = Ok (us ! i)"
        using Cons.IH by auto
      then show "\<exists>us. ys = zs @ us \<and> length us = length (x # xs) \<and> (\<forall>i < length (x # xs). f ((x # xs) ! i) = Ok (us ! i))"
        by (intro exI [of _ "y # us"]) (auto simp: less_Suc_eq_0_disj)
    next
      assume "\<exists>us. ys = zs @ us \<and> length us = length (x # xs) \<and> (\<forall>i < length (x # xs). f ((x # xs) ! i) = Ok (us ! i))"
      then obtain y us where "f x = Ok y" "ys = zs @ y # us" "length us = length xs" "\<forall>i < length xs. f (xs ! i) = Ok (us ! i)"
        by (auto simp: length_Suc_conv All_less_Suc2)
      then show "fold_out (\<lambda>x ys. map_out (\<lambda>y. ys @ [y]) (f x)) (x # xs) zs = Ok ys" using Cons.IH by auto
    qed
  qed auto
  then show ?thesis by (simp add: from_protos_def)
qed

lemma fold_out_unit: "fold_out (\<lambda>x _. f x) xs () = Ok () \<longleftrightarrow> (\<forall>x \<in> set xs. f x = Ok ())"
  by (induction xs) (auto simp: unit_eq)

text \<open>The signature a vote set's commit has for a canonical vote.\<close>

definition committed_sig :: "BlockID \<Rightarrow> Vote \<Rightarrow> ExtendedCommitSig" where
  "committed_sig m v =
     (if BlockID_IsComplete (v_BlockID v) \<and> v_BlockID v \<noteq> m then NewExtendedCommitSigAbsent
      else \<lparr>ecs_CommitSig = \<lparr>cs_BlockIDFlag = (if BlockID_IsComplete (v_BlockID v) then BlockIDFlagCommit else BlockIDFlagNil),
             cs_ValidatorAddress = v_ValidatorAddress v, cs_Timestamp = v_Timestamp v, cs_Signature = v_Signature v\<rparr>,
            ecs_Extension = v_Extension v, ecs_ExtensionSignature = v_ExtensionSignature v\<rparr>)"

lemma commit_sig_for_eq:
  "commit_sig_for m None = Ok NewExtendedCommitSigAbsent"
  "vote_ok v \<Longrightarrow> commit_sig_for m (Some v) = Ok (committed_sig m v)"
proof -
  show "commit_sig_for m None = Ok NewExtendedCommitSigAbsent"
    by (simp add: commit_sig_for_def Vote_ExtendedCommitSig_def NewExtendedCommitSigAbsent_def NewCommitSigAbsent_def)
  assume "vote_ok v"
  then have "BlockID_IsZero (v_BlockID v) \<or> BlockID_IsComplete (v_BlockID v)" using vote_ok_bid by (simp add: bid_ok_def)
  then show "commit_sig_for m (Some v) = Ok (committed_sig m v)"
    by (auto simp: commit_sig_for_def Vote_ExtendedCommitSig_def Vote_CommitSig_def committed_sig_def)
qed

lemma committed_sig_extension:
  assumes "genuine e s i v" "vote_ok v" "vs_signedMsgType s = PrecommitType"
  shows "ECS_EnsureExtension (committed_sig m v) (vs_extensionsEnabled s) = Ok ()"
proof -
  obtain pk where c: "check_signature e s v pk = Ok ()" and t: "v_Type v = PrecommitType" using assms(1,3) by (auto simp: genuine_def)
  have z: "BlockID_IsZero (v_BlockID v) \<Longrightarrow> v_Extension v = [] \<and> v_ExtensionSignature v = []"
    using assms(2) by (auto simp: vote_ok_def Vote_ValidateBasic_def split: if_splits)
  have zc: "BlockID_IsZero (v_BlockID v) \<or> BlockID_IsComplete (v_BlockID v)" using vote_ok_bid [OF assms(2)] by (simp add: bid_ok_def)
  show ?thesis
  proof (cases "vs_extensionsEnabled s")
    case True
    have "v_ExtensionSignature v \<noteq> []" if "BlockID_IsComplete (v_BlockID v)"
    proof -
      have "\<not> ProtoBlockIDIsNil (v_BlockID v)" using that by (auto simp: ProtoBlockIDIsNil_def BlockID_IsComplete_def)
      then show ?thesis using c True t by (auto simp: check_signature_def VerifyVoteAndExtension_def verifyAndReturnProto_def Let_def split: if_splits)
    qed
    then show ?thesis using True z zc zero_not_complete
      by (auto simp: ECS_EnsureExtension_def committed_sig_def NewExtendedCommitSigAbsent_def NewCommitSigAbsent_def)
  next
    case False
    then have "v_ExtensionSignature v = []" "v_Extension v = []" using c by (auto simp: check_signature_def split: if_splits)
    then show ?thesis using False by (auto simp: ECS_EnsureExtension_def committed_sig_def NewExtendedCommitSigAbsent_def)
  qed
qed

lemma absent_extension: "ECS_EnsureExtension NewExtendedCommitSigAbsent b = Ok ()"
  by (simp add: ECS_EnsureExtension_def NewExtendedCommitSigAbsent_def NewCommitSigAbsent_def)

text \<open>The commit of a vote set with a majority for a block.\<close>

definition vote_sig :: "BlockID \<Rightarrow> Vote option \<Rightarrow> ExtendedCommitSig" where
  "vote_sig m v = (case v of None \<Rightarrow> NewExtendedCommitSigAbsent | Some v \<Rightarrow> committed_sig m v)"

lemma MakeExtendedCommit_ok:
  assumes "voteset_wf e s" "vs_signedMsgType s = PrecommitType" "vs_maj23 s = Some m" "1 \<le> vs_height s"
    "VoteExtensionsEnabled ap (vs_height s) = Ok (vs_extensionsEnabled s)"
  shows "MakeExtendedCommit s ap = Ok \<lparr>ec_Height = vs_height s, ec_Round = vs_round s, ec_BlockID = m,
    ec_ExtendedSignatures = map (vote_sig m) (vs_votes s), ec_bitArray = None\<rparr>"
proof -
  have cn: "canonical e (\<lambda>_. False) s" using assms(1) by (simp add: voteset_wf_def voteset_inv_def)
  then have len: "length (vs_votes s) = val_count (vs_valSet s)" by (simp add: canonical_def tally_def)
  have sig: "commit_sig_for m (vs_votes s ! i) = Ok (vote_sig m (vs_votes s ! i)) \<and>
      ECS_EnsureExtension (vote_sig m (vs_votes s ! i)) (vs_extensionsEnabled s) = Ok ()" if "i < length (vs_votes s)" for i
  proof (cases "vs_votes s ! i")
    case None
    then show ?thesis using commit_sig_for_eq(1) absent_extension by (simp add: vote_sig_def)
  next
    case (Some v)
    have "genuine e s i v" "vote_ok v" using canonicalD(1,2) [OF cn _ Some] that len by auto
    then show ?thesis using Some commit_sig_for_eq(2) committed_sig_extension [OF _ _ assms(2)] by (simp add: vote_sig_def)
  qed
  then have "from_protos (commit_sig_for m) (vs_votes s) = Ok (map (vote_sig m) (vs_votes s))" by (simp add: from_protos_Ok)
  moreover have "\<forall>x \<in> set (map (vote_sig m) (vs_votes s)). ECS_EnsureExtension x (vs_extensionsEnabled s) = Ok ()"
    using sig by (auto simp: in_set_conv_nth)
  ultimately show ?thesis using assms(2-5)
    by (simp add: MakeExtendedCommit_def vs_GetHeight_def vs_GetRound_def Let_def EC_EnsureExtensions_def fold_out_unit)
qed

lemma VoteSignBytes_cong:
  "v_Type v = v_Type w \<Longrightarrow> v_Height v = v_Height w \<Longrightarrow> v_Round v = v_Round w \<Longrightarrow> v_BlockID v = v_BlockID w \<Longrightarrow>
     v_Timestamp v = v_Timestamp w \<Longrightarrow> VoteSignBytes e c v = VoteSignBytes e c w"
  by (simp add: VoteSignBytes_def CanonicalizeVote_def)

text \<open>The proposer has a key, and where all keys are said to have one type they have the proposer's.\<close>

definition keys_consistent :: "crypto_env \<Rightarrow> ValidatorSet \<Rightarrow> bool" where
  "keys_consistent cr vals \<longleftrightarrow> (\<exists>pk. proposer_key vals = Ok (Some pk) \<and>
     (allKeysHaveSameType vals \<longrightarrow> (\<forall>val \<in> set (Validators vals). kind_ok cr (PubKey_Type pk) val)))"

lemma verify_complete:
  assumes "batch_verifier_ok (crypto e) be" "keys_consistent (crypto e) (vf_vals f)"
    "sigs_basic f (enumerate 0 (cm_Signatures (vf_commit f)))"
    "spec_loop e f (enumerate 0 (cm_Signatures (vf_commit f))) Map.empty 0" "0 \<le> vf_votingPowerNeeded f"
  shows "verify_batch_or_single e be f = Ok ()"
proof -
  obtain pk where pk: "proposer_key (vf_vals f) = Ok (Some pk)"
      "allKeysHaveSameType (vf_vals f) \<longrightarrow> (\<forall>val \<in> set (Validators (vf_vals f)). kind_ok (crypto e) (PubKey_Type pk) val)"
    using assms(2) by (auto simp: keys_consistent_def)
  have single: "verifyCommitSingle e f = Ok ()" using spec_single [OF assms(3,4)] by (simp add: verifyCommitSingle_def)
  show ?thesis
  proof (cases "2 \<le> length (cm_Signatures (vf_commit f)) \<and> SupportsBatchVerifier (Some pk) \<and> allKeysHaveSameType (vf_vals f)")
    case True
    then have "verifyCommitBatch e be f = Ok ()" using accepts_batch [OF assms(1,4) pk(1)] pk(2) assms(5) by blast
    then show ?thesis using True pk(1) by (simp add: verify_batch_or_single_def shouldBatchVerify_def)
  next
    case False
    then show ?thesis using single pk(1) by (auto simp: verify_batch_or_single_def shouldBatchVerify_def)
  qed
qed


lemma vote_commit_sig:
  assumes "genuine e s i v" "vote_ok v" "vs_signedMsgType s = PrecommitType"
    "cs_BlockIDFlag (ecs_CommitSig (committed_sig m v)) \<noteq> BlockIDFlagAbsent"
  defines "cs \<equiv> ecs_CommitSig (committed_sig m v)"
  shows "Address (Validators (vs_valSet s) ! i) = cs_ValidatorAddress cs" "CommitSig_ValidateBasic cs = Ok ()"
    "\<exists>b. CommitSig_BlockID cs m = Ok b \<and> b = v_BlockID v" "cs_Timestamp cs = v_Timestamp v" "cs_Signature cs = v_Signature v"
    "cs_BlockIDFlag cs = BlockIDFlagCommit \<longleftrightarrow> BlockID_IsComplete (v_BlockID v) \<and> v_BlockID v = m"
proof -
  have nb: "\<not> (BlockID_IsComplete (v_BlockID v) \<and> v_BlockID v \<noteq> m)"
    using assms(4) by (auto simp: committed_sig_def NewExtendedCommitSigAbsent_def NewCommitSigAbsent_def split: if_splits)
  have z: "BlockID_IsZero (v_BlockID v) \<or> BlockID_IsComplete (v_BlockID v)" using vote_ok_bid [OF assms(2)] by (simp add: bid_ok_def)
  have "v_ValidatorAddress v = Address (Validators (vs_valSet s) ! i)" using assms(1) by (simp add: genuine_def)
  moreover have "length (v_ValidatorAddress v) = AddressSize" "v_Signature v \<noteq> []" "length (v_Signature v) \<le> MaxSignatureSize"
    using assms(2) by (auto simp: vote_ok_def Vote_ValidateBasic_def split: if_splits)
  ultimately show "Address (Validators (vs_valSet s) ! i) = cs_ValidatorAddress cs" "CommitSig_ValidateBasic cs = Ok ()"
      "cs_Timestamp cs = v_Timestamp v" "cs_Signature cs = v_Signature v"
    using nb by (auto simp: cs_def committed_sig_def CommitSig_ValidateBasic_def)
  show "\<exists>b. CommitSig_BlockID cs m = Ok b \<and> b = v_BlockID v"
    using nb z by (auto simp: cs_def committed_sig_def CommitSig_BlockID_def BlockID_IsZero_iff)
  show "cs_BlockIDFlag cs = BlockIDFlagCommit \<longleftrightarrow> BlockID_IsComplete (v_BlockID v) \<and> v_BlockID v = m"
    using nb by (auto simp: cs_def committed_sig_def)
qed

text \<open>The signatures of a vote set's commit verify.\<close>

lemma vote_commit_verifies:
  assumes "genuine e s i v" "vote_ok v" "vs_signedMsgType s = PrecommitType" "is_i32 (int i)" "i < length (cm_Signatures c)"
    "cm_Signatures c ! i = ecs_CommitSig (committed_sig m v)" "cs_BlockIDFlag (cm_Signatures c ! i) \<noteq> BlockIDFlagAbsent"
    "cm_Height c = vs_height s" "cm_Round c = vs_round s" "cm_BlockID c = m"
  shows "\<exists>pk bz. PubKey (Validators (vs_valSet s) ! i) = Some pk \<and>
    Commit_VoteSignBytes e c (vs_chainID s) (i32 (int i)) = Ok bz \<and> VerifySignature (crypto e) pk bz (cs_Signature (cm_Signatures c ! i))"
proof -
  note sig = vote_commit_sig [OF assms(1-3), of m, folded assms(6), OF assms(7)]
  obtain pk bz where pk: "PubKey (Validators (vs_valSet s) ! i) = Some pk" and bz: "VoteSignBytes e (vs_chainID s) v = Ok bz"
      "VerifySignature (crypto e) pk bz (v_Signature v)"
    using genuine_signature [OF assms(1)] by blast
  have v: "v_Type v = PrecommitType" "v_Height v = vs_height s" "v_Round v = vs_round s" using assms(1,3) by (simp_all add: genuine_def)
  have "Commit_VoteSignBytes e c (vs_chainID s) (i32 (int i)) = VoteSignBytes e (vs_chainID s) v"
    using assms(4,5,8-10) sig(3,4) v
    by (auto simp: Commit_VoteSignBytes_def Commit_GetVote_def intro!: VoteSignBytes_cong)
  then show ?thesis using pk bz sig(5) by auto
qed

text \<open>A precommit vote set with a majority for a block gives a commit that verifies.\<close>

lemma vote_set_commit:
  assumes "vote_set_of e chainID h r PrecommitType vals s" "TwoThirdsMajority (Some s) = (b, True)" "\<not> BlockID_IsZero b"
    "1 \<le> h" "VoteExtensionsEnabled ap h = Ok (vs_extensionsEnabled s)"
    "batch_verifier_ok (crypto e) be" "keys_consistent (crypto e) vals" "is_i32 (int (val_count vals))"
  shows "\<exists>ec. MakeExtendedCommit s ap = Ok ec \<and> VerifyCommit e be chainID (Some vals) b h (Some (EC_ToCommit ec)) = Ok ()"
proof -
  note wf = vote_set_of_wf [OF assms(1)]
  note same = same_Validators_power [OF wf(7)]
  have cn: "canonical e (\<lambda>_. False) s" using wf(1) by (simp add: voteset_wf_def voteset_inv_def)
  have len: "length (vs_votes s) = val_count vals" using cn by (simp add: canonical_def tally_def same)
  have m: "vs_maj23 s = Some b" using assms(2) by (simp add: TwoThirdsMajority_iff)
  define ec where "ec = \<lparr>ec_Height = vs_height s, ec_Round = vs_round s, ec_BlockID = b,
    ec_ExtendedSignatures = map (vote_sig b) (vs_votes s), ec_bitArray = None\<rparr>"
  define c where "c = EC_ToCommit ec"
  have ec: "MakeExtendedCommit s ap = Ok ec"
    using MakeExtendedCommit_ok [OF wf(1) _ m] wf(4,6) assms(4,5) by (simp add: ec_def)
  have c: "cm_Height c = vs_height s" "cm_Round c = vs_round s" "cm_BlockID c = b" "length (cm_Signatures c) = val_count vals"
    "\<And>i. i < val_count vals \<Longrightarrow> cm_Signatures c ! i = ecs_CommitSig (vote_sig b (vs_votes s ! i))"
    using len by (simp_all add: c_def ec_def EC_ToCommit_def)
  define f where "f = \<lparr>vf_chainID = chainID, vf_vals = vals, vf_commit = c, vf_votingPowerNeeded = i64 (total_power vals * 2) sdiv 3,
        vf_ignoreSig = (\<lambda>c. cs_BlockIDFlag c = BlockIDFlagAbsent), vf_countSig = (\<lambda>c. cs_BlockIDFlag c = BlockIDFlagCommit),
        vf_countAllSignatures = True, vf_lookUpByIndex = True\<rparr>"
  have voted: "\<exists>v. vs_votes s ! i = Some v \<and> genuine e s i v \<and> vote_ok v \<and> cm_Signatures c ! i = ecs_CommitSig (committed_sig b v)"
    if "i < val_count vals" "cs_BlockIDFlag (cm_Signatures c ! i) \<noteq> BlockIDFlagAbsent" for i
    using that c(5) canonicalD(1,2) [OF cn] same(3)
    by (cases "vs_votes s ! i") (auto simp: vote_sig_def NewExtendedCommitSigAbsent_def NewCommitSigAbsent_def)
  have i32: "is_i32 (int i)" if "i < val_count vals" for i using that assms(8) by (auto simp: is_i32_def)
  have "sigs_basic f (enumerate 0 (cm_Signatures c))"
    unfolding sigs_basic_def
  proof clarify
    fix i cs assume "(i, cs) \<in> set (enumerate 0 (cm_Signatures c))" and n: "\<not> vf_ignoreSig f cs"
    then have i: "i < val_count vals" "cs = cm_Signatures c ! i" using c(4) by (auto simp: in_set_enumerate_eq)
    then obtain v where v: "genuine e s i v" "vote_ok v" "cs = ecs_CommitSig (committed_sig b v)" using voted n by (auto simp: f_def)
    show "CommitSig_ValidateBasic cs = Ok ()" using vote_commit_sig(2) [OF v(1,2) wf(6)] n v(3) by (auto simp: f_def)
  qed
  moreover have "spec_loop e f (enumerate 0 (cm_Signatures c)) Map.empty 0"
  proof (rule spec_loop_complete [where k = 0])
    fix i assume i: "i < val_count (vf_vals f)" and n: "\<not> vf_ignoreSig f (cm_Signatures (vf_commit f) ! i)"
    then obtain v where v: "genuine e s i v" "vote_ok v" "cm_Signatures c ! i = ecs_CommitSig (committed_sig b v)" using voted by (auto simp: f_def)
    show "Address (Validators (vf_vals f) ! i) = cs_ValidatorAddress (cm_Signatures (vf_commit f) ! i) \<and>
       (\<exists>pk bz. PubKey (Validators (vf_vals f) ! i) = Some pk \<and>
            Commit_VoteSignBytes e (vf_commit f) (vf_chainID f) (i32 (int i)) = Ok bz \<and>
            VerifySignature (crypto e) pk bz (cs_Signature (cm_Signatures (vf_commit f) ! i)))"
      using vote_commit_sig(1) [OF v(1,2) wf(6), of b] vote_commit_verifies [OF v(1,2) wf(6) i32 _ v(3) _ c(1-3)] i n v(3) c(4) wf(3,7)
      by (auto simp: f_def)
  next
    have complete: "BlockID_IsComplete b" using majority_sound(2) [OF wf(1) m] assms(3) by (simp add: bid_ok_def)
    have "2 * total_power vals < 3 * power_of vals (votes_for s b)" using majority_sound(1) [OF wf(1) m] by (simp add: same)
    also have "power_of vals (votes_for s b) \<le> power_of vals (\<lambda>i. \<not> vf_ignoreSig f (cm_Signatures c ! i) \<and> vf_countSig f (cm_Signatures c ! i))"
      using complete c(5) by (intro power_of_mono [OF wf(2)]) (auto simp: votes_for_def f_def vote_sig_def committed_sig_def)
    finally show "vf_votingPowerNeeded f < power_of (vf_vals f) (\<lambda>i. \<not> vf_ignoreSig f (cm_Signatures (vf_commit f) ! i) \<and>
       vf_countSig f (cm_Signatures (vf_commit f) ! i))"
      unfolding quorum_iff [symmetric] by (simp add: f_def quorum_code(2) [OF wf(2)] quorum_def)
  qed (use c(4) wf(2) in \<open>auto simp: f_def\<close>)
  moreover have "0 \<le> vf_votingPowerNeeded f"
    using quorum_code(2) [OF wf(2)] total_power_bounds(1) [OF wf(2)] by (simp add: f_def)
  ultimately have "verify_batch_or_single e be f = Ok ()"
    using verify_complete [OF assms(6)] assms(7) by (simp add: f_def)
  moreover have "verifyBasicValsAndCommit (Some vals) (Some c) h b = Ok ()" using c wf(4) by (simp add: basic_ok)
  ultimately have "VerifyCommit e be chainID (Some vals) b h (Some c) = Ok ()"
    using TotalVotingPower_total [OF wf(2)] by (simp add: VerifyCommit_def f_def)
  then show ?thesis using ec by (auto simp: c_def)
qed

section \<open>An instance\<close>

definition demo_batch :: "crypto_env \<Rightarrow> batch_env" where
  "demo_batch cr = \<lparr>be_verify = (\<lambda>items. (items \<noteq> [] \<and> list_all (\<lambda>(pk, m, s). curve_verify cr pk m s) items, map (\<lambda>(pk, m, s). curve_verify cr pk m s) items)),
     be_sr25519_decode = (\<lambda>k s. True)\<rparr>"

definition demo_commit_sig :: CommitSig where
  "demo_commit_sig = \<lparr>cs_BlockIDFlag = BlockIDFlagCommit, cs_ValidatorAddress = replicate 20 7, cs_Timestamp = 7,
     cs_Signature = demo_sign (demo_bytes 1)\<rparr>"

definition demo_commit :: "CommitSig list \<Rightarrow> Commit" where
  "demo_commit sigs = \<lparr>cm_Height = 5, cm_Round = 0, cm_BlockID = demo_bid 1, cm_Signatures = demo_commit_sig # sigs,
     cm_hash = None\<rparr>"

lemma demo_batch_ok: "batch_verifier_ok cr (demo_batch cr)"
  by (simp add: batch_verifier_ok_def demo_batch_def list_all_iff)

lemma demo_proposer: "proposer_key demo_vals = Ok (Some (Ed25519 (replicate 32 7)))"
  by (simp add: proposer_key_def GetProposer_def findProposer_def CompareProposerPriority_def demo_vals_def demo_val_def Let_def)

lemma demo_keys: "keys_consistent (crypto (demo_env ms)) demo_vals"
  by (simp add: keys_consistent_def demo_proposer kind_ok_def is_Ok_iff) (simp add: demo_val_def SumTruncated_def)

lemma demo_sig_basic [simp]: "CommitSig_ValidateBasic demo_commit_sig = Ok ()"
  by (simp add: CommitSig_ValidateBasic_def demo_commit_sig_def demo_sign_def)

lemma demo_commit_bytes: "Commit_VoteSignBytes (demo_env ms) (demo_commit sigs) [99] 0 = Ok (demo_bytes 1)"
proof -
  have "Commit_VoteSignBytes (demo_env ms) (demo_commit sigs) [99] 0 = VoteSignBytes (demo_env ms) [99] (demo_unsigned 1)"
    by (simp add: Commit_VoteSignBytes_def Commit_GetVote_def CommitSig_BlockID_def demo_commit_def demo_commit_sig_def index_def i32_idI)
       (rule VoteSignBytes_cong; simp add: demo_unsigned_def i32_idI)
  then show ?thesis by (simp add: VoteSignBytes_demo demo_sign_bytes)
qed

lemma demo_commit_verify: "VerifySignature (crypto (demo_env [demo_bytes 1])) (Ed25519 (replicate 32 7)) (demo_bytes 1) (cs_Signature demo_commit_sig)"
  by (simp add: demo_env_def demo_commit_sig_def demo_sign_def toy_crypto_def)

lemma demo_GetByAddress: "GetByAddress demo_vals (replicate 20 7) = (0, Some demo_val)"
  by (simp add: GetByAddress_def demo_val_def i32_idI)

lemma demo_loop:
  assumes "vf_vals f = demo_vals" "vf_commit f = demo_commit sigs" "\<not> vf_ignoreSig f demo_commit_sig" "vf_countSig f demo_commit_sig" "vf_chainID f = [99]"
    "vf_votingPowerNeeded f = 0" "\<forall>cs \<in> set sigs. vf_ignoreSig f cs"
  shows "verifyCommitSingle (demo_env [demo_bytes 1]) f = Ok ()"
proof -
  have rest: "single_loop e f (enumerate k sigs) seen 1 = Ok ()" for e k seen
    using assms(7) by (induction sigs arbitrary: k) (auto simp: assms(6))
  have "Address demo_val = cs_ValidatorAddress demo_commit_sig" "VotingPower demo_val = 1" "PubKey demo_val = Some (Ed25519 (replicate 32 7))"
      "cs_ValidatorAddress demo_commit_sig = replicate 20 7"
    by (simp_all add: demo_val_def demo_commit_sig_def)
  then show ?thesis
    using assms(1-5) rest demo_commit_verify
    by (auto simp: verifyCommitSingle_def demo_commit_def [of sigs] find_validator_def index_def demo_GetByAddress
      demo_commit_bytes [unfolded demo_commit_def] tally_sig_def assms(6) Let_def i32_idI i64_idI
      simp del: VerifySignature.simps)
qed

section \<open>The properties\<close>

text \<open>C3. An accepted commit is signed by more than two thirds: if \<open>VerifyCommit\<close>, \<open>VerifyCommitLight\<close> or
  \<open>VerifyCommitLightAllSignatures\<close> accepts a commit for a block and height, one signature after the other or in a
  batch, then the commit is for that block and height, and validators with more than two thirds of the voting power
  have valid signatures in it for a precommit of that block at that height.\<close>

theorem verified_commit_two_thirds:
  assumes "batch_verifier_ok (crypto e) be" "powers_ok vals" "is_i32 (int (val_count vals))"
    "VerifyCommit e be chainID (Some vals) b h (Some commit) = Ok () \<or>
     VerifyCommitLight e be chainID (Some vals) b h (Some commit) = Ok () \<or>
     VerifyCommitLightAllSignatures e be chainID (Some vals) b h (Some commit) = Ok ()"
  shows "cm_Height commit = h \<and> cm_BlockID commit = b \<and> length (cm_Signatures commit) = val_count vals \<and>
    2 * total_power vals < 3 * power_of vals (\<lambda>i. precommit_signed e chainID commit (Validators vals ! i) i)"
  using assms by (rule commit_two_thirds)

theorem verified_commit_two_thirds_witness:
  "VerifyCommit (demo_env [demo_bytes 1]) (demo_batch (crypto (demo_env [demo_bytes 1]))) [99] (Some demo_vals) (demo_bid 1) 5
      (Some (demo_commit [])) = Ok () \<and>
   2 * total_power demo_vals < 3 * power_of demo_vals (\<lambda>i. precommit_signed (demo_env [demo_bytes 1]) [99] (demo_commit []) (Validators demo_vals ! i) i)"
proof -
  have "length (cm_Signatures (demo_commit [])) = 1" "cm_Height (demo_commit []) = 5" "cm_BlockID (demo_commit []) = demo_bid 1"
    by (simp_all add: demo_commit_def)
  moreover have "cs_BlockIDFlag demo_commit_sig = BlockIDFlagCommit" by (simp add: demo_commit_sig_def)
  ultimately have "VerifyCommit (demo_env [demo_bytes 1]) (demo_batch (crypto (demo_env [demo_bytes 1]))) [99] (Some demo_vals) (demo_bid 1) 5
      (Some (demo_commit [])) = Ok ()"
    using TotalVotingPower_total [OF demo_vals(1)]
    by (simp add: VerifyCommit_def basic_ok verify_batch_or_single_def shouldBatchVerify_def i64_idI demo_loop [where sigs = "[]"])
  then show ?thesis
    using verified_commit_two_thirds [of "demo_env [demo_bytes 1]" "demo_batch (crypto (demo_env [demo_bytes 1]))" demo_vals "[99]" "demo_bid 1" 5 "demo_commit []"]
    by (simp add: is_i32_def demo_batch_ok)
qed

text \<open>C11. The commit a node makes is one every node accepts: when a precommit vote set reports a majority for a block,
  \<open>MakeExtendedCommit\<close> returns, and \<open>VerifyCommit\<close> accepts the commit for that block and height.\<close>

theorem made_commit_verifies:
  assumes "vote_set_of e chainID h r PrecommitType vals s" "TwoThirdsMajority (Some s) = (b, True)" "\<not> BlockID_IsZero b"
    "1 \<le> h" "VoteExtensionsEnabled ap h = Ok (vs_extensionsEnabled s)"
    "batch_verifier_ok (crypto e) be" "keys_consistent (crypto e) vals" "is_i32 (int (val_count vals))"
  shows "\<exists>ec. MakeExtendedCommit s ap = Ok ec \<and> VerifyCommit e be chainID (Some vals) b h (Some (EC_ToCommit ec)) = Ok ()"
  using assms by (rule vote_set_commit)

theorem made_commit_verifies_witness:
  "\<exists>s ec. TwoThirdsMajority (Some s) = (demo_bid 1, True) \<and> MakeExtendedCommit s \<lparr>VoteExtensionsEnableHeight = 0\<rparr> = Ok ec \<and>
     VerifyCommit (demo_env [demo_bytes 1]) (demo_batch (crypto (demo_env [demo_bytes 1]))) [99] (Some demo_vals) (demo_bid 1) 5
       (Some (EC_ToCommit ec)) = Ok ()"
proof -
  obtain s where s: "vote_set_of (demo_env [demo_bytes 1]) [99] 5 0 2 demo_vals s" "\<not> vs_extensionsEnabled s"
      "TwoThirdsMajority (Some s) = (demo_bid 1, True)"
    using demo_voted [of 1 "[demo_bytes 1]"] by auto
  moreover have "\<not> BlockID_IsZero (demo_bid 1)" by (simp add: demo_bid_def BlockID_IsZero_def)
  moreover have "VoteExtensionsEnabled \<lparr>VoteExtensionsEnableHeight = 0\<rparr> 5 = Ok (vs_extensionsEnabled s)"
    using s(2) by (simp add: VoteExtensionsEnabled_def)
  ultimately show ?thesis
    using made_commit_verifies [OF s(1,3) _ _ _ demo_batch_ok demo_keys, of "\<lparr>VoteExtensionsEnableHeight = 0\<rparr>"]
    by (auto simp: is_i32_def)
qed

text \<open>C19. Trusting verification: if \<open>VerifyCommitLightTrusting\<close> accepts a commit against a trusted validator set and a
  trust level, then validators of that set with more than that fraction of its voting power have each signed a
  precommit for the commit's block, no validator counted twice.\<close>

theorem trusted_commit_fraction:
  assumes "batch_verifier_ok (crypto e) be" "powers_ok vals" "is_i32 (int (val_count vals))" "is_i32 (int (length (cm_Signatures commit)))"
    "0 \<le> sint (Numerator l)" "0 \<le> sint (Denominator l)"
    "VerifyCommitLightTrusting e be chainID (Some vals) (Some commit) l = Ok () \<or>
     VerifyCommitLightTrustingAllSignatures e be chainID (Some vals) (Some commit) l = Ok ()"
  shows "total_power vals * sint (Numerator l) <
    sint (Denominator l) * power_of vals (\<lambda>i. \<exists>idx. precommit_signed e chainID commit (Validators vals ! i) idx)"
  using assms by (rule commit_trusted_fraction)

theorem trusted_commit_fraction_witness:
  "VerifyCommitLightTrusting (demo_env [demo_bytes 1]) (demo_batch (crypto (demo_env [demo_bytes 1]))) [99] (Some demo_vals)
      (Some (demo_commit [])) \<lparr>Numerator = 1, Denominator = 3\<rparr> = Ok () \<and>
   1 < 3 * power_of demo_vals (\<lambda>i. \<exists>idx. precommit_signed (demo_env [demo_bytes 1]) [99] (demo_commit []) (Validators demo_vals ! i) idx)"
proof -
  have "length (cm_Signatures (demo_commit [])) = 1" by (simp add: demo_commit_def)
  moreover have "cs_BlockIDFlag demo_commit_sig = BlockIDFlagCommit" by (simp add: demo_commit_sig_def)
  ultimately have "VerifyCommitLightTrusting (demo_env [demo_bytes 1]) (demo_batch (crypto (demo_env [demo_bytes 1]))) [99] (Some demo_vals)
      (Some (demo_commit [])) \<lparr>Numerator = 1, Denominator = 3\<rparr> = Ok ()"
    using TotalVotingPower_total [OF demo_vals(1)]
    by (simp add: VerifyCommitLightTrusting_def verifyCommitLightTrustingInternal_def verify_batch_or_single_def shouldBatchVerify_def
      safeMul_eq i64_idI demo_loop [where sigs = "[]"])
  then show ?thesis
    using trusted_commit_fraction [of "demo_env [demo_bytes 1]" "demo_batch (crypto (demo_env [demo_bytes 1]))" demo_vals "demo_commit []"
        "\<lparr>Numerator = 1, Denominator = 3\<rparr>" "[99]"] \<open>length (cm_Signatures (demo_commit [])) = 1\<close>
    by (simp add: is_i32_def demo_batch_ok)
qed

text \<open>C20. Batch verification accepts exactly what single verification accepts: for a commit whose signatures pass
  \<open>ValidateBasic\<close>, validators with keys of the batch's type and a needed power that is not negative, so that a batch
  without signatures, which the library refuses, has not enough power for single verification either.\<close>

theorem batch_single_equivalent:
  assumes "batch_verifier_ok (crypto e) be" "sigs_basic f (enumerate 0 (cm_Signatures (vf_commit f)))"
    "proposer_key (vf_vals f) = Ok (Some pk)" "SupportsBatchVerifier (Some pk)" "2 \<le> length (cm_Signatures (vf_commit f))"
    "\<forall>val \<in> set (Validators (vf_vals f)). kind_ok (crypto e) (PubKey_Type pk) val" "0 \<le> vf_votingPowerNeeded f"
  shows "verifyCommitBatch e be f = Ok () \<longleftrightarrow> verifyCommitSingle e f = Ok ()"
  unfolding verifyCommitSingle_def
  using batch_accepts [OF assms(1)] accepts_batch [OF assms(1) _ assms(3-7)] spec_single [OF assms(2)] single_spec by blast

theorem batch_single_equivalent_witness:
  "\<exists>f. length (cm_Signatures (vf_commit f)) = 2 \<and>
     verifyCommitSingle (demo_env [demo_bytes 1]) f = Ok () \<and>
     verifyCommitBatch (demo_env [demo_bytes 1]) (demo_batch (crypto (demo_env [demo_bytes 1]))) f = Ok ()"
proof -
  let ?f = "\<lparr>vf_chainID = [99], vf_vals = demo_vals, vf_commit = demo_commit [NewCommitSigAbsent], vf_votingPowerNeeded = 0,
    vf_ignoreSig = (\<lambda>c. cs_BlockIDFlag c = BlockIDFlagAbsent), vf_countSig = (\<lambda>c. cs_BlockIDFlag c = BlockIDFlagCommit),
    vf_countAllSignatures = True, vf_lookUpByIndex = True\<rparr>"
  have flag: "cs_BlockIDFlag demo_commit_sig = BlockIDFlagCommit" by (simp add: demo_commit_sig_def)
  have single: "verifyCommitSingle (demo_env [demo_bytes 1]) ?f = Ok ()"
    by (rule demo_loop [where sigs = "[NewCommitSigAbsent]"]) (simp_all add: flag NewCommitSigAbsent_def)
  have basic: "sigs_basic ?f (enumerate 0 (cm_Signatures (vf_commit ?f)))"
    by (auto simp: sigs_basic_def demo_commit_def NewCommitSigAbsent_def)
  have kinds: "\<forall>val \<in> set (Validators (vf_vals ?f)). kind_ok (crypto (demo_env [demo_bytes 1])) (PubKey_Type (Ed25519 (replicate 32 7))) val"
    by (simp add: kind_ok_def demo_val_def is_Ok_iff SumTruncated_def)
  have "verifyCommitBatch (demo_env [demo_bytes 1]) (demo_batch (crypto (demo_env [demo_bytes 1]))) ?f = Ok ()"
    using batch_single_equivalent [OF demo_batch_ok basic _ _ _ kinds] single demo_proposer
    by (simp add: demo_commit_def)
  then show ?thesis using single by (intro exI [of _ ?f]) (simp add: demo_commit_def)
qed

end
