(* ===== verification/ProtoReader.thy ===== *)
theory ProtoReader
  imports Vote
begin

text \<open>
  Reading protobuf messages back: the generated \<open>Unmarshal\<close> of the signed messages
  (\<open>proto/tendermint/types/canonical.pb.go\<close>) and the delimited reader
  (\<open>libs/protoio/reader.go\<close>).

  The generated code repeats one loop for every message, and the model has that loop once: it reads a
  tag, looks the field number up in the table of the message's fields, reads the value of the field
  and skips a field it does not know. It is written over the bytes that are left, where the code has
  an index. Decoding a time is a parameter.
\<close>

unbundle bit_operations_syntax

abbreviation (input) ErrIntOverflow :: go_error where "ErrIntOverflow \<equiv> Errorf ''proto: integer overflow''"
abbreviation (input) ErrInvalidLength :: go_error where "ErrInvalidLength \<equiv> Errorf ''proto: negative length found during unmarshaling''"
abbreviation (input) ErrUnexpectedEOF :: go_error where "ErrUnexpectedEOF \<equiv> Errorf ''unexpected EOF''"

section \<open>Values\<close>

fun rd_varint :: "nat \<Rightarrow> uint64 \<Rightarrow> bytes \<Rightarrow> (uint64 \<times> bytes) result" where
  "rd_varint shift acc [] = (if shift \<ge> 64 then Err ErrIntOverflow else Err ErrUnexpectedEOF)"
| "rd_varint shift acc (b # bs) =
     (if shift \<ge> 64 then Err ErrIntOverflow
      else let acc = acc OR push_bit shift (ucast (b AND 0x7F))
           in if b < 0x80 then Ok (acc, bs) else rd_varint (shift + 7) acc bs)"

text \<open>\<open>binary.LittleEndian.Uint64\<close>.\<close>

primrec le_nat :: "bytes \<Rightarrow> nat" where
  "le_nat [] = 0"
| "le_nat (b # bs) = unat b + 256 * le_nat bs"

definition rd_fixed64 :: "bytes \<Rightarrow> (uint64 \<times> bytes) result" where
  "rd_fixed64 bs = (if length bs < 8 then Err ErrUnexpectedEOF else Ok (of_nat (le_nat (take 8 bs)), drop 8 bs))"

definition rd_bytes :: "bytes \<Rightarrow> (bytes \<times> bytes) result" where
  "rd_bytes bs =
     bind_out (rd_varint 0 0 bs) (\<lambda>(n, rest).
     if sint n < 0 then Err ErrInvalidLength
     else if sint n > int (length rest) then Err ErrUnexpectedEOF
     else Ok (take (unat n) rest, drop (unat n) rest))"

lemma rd_varint_shorter: "rd_varint s a bs = Ok (v, rest) \<Longrightarrow> length rest < length bs"
  by (induction s a bs rule: rd_varint.induct) (auto simp: Let_def split: if_splits)

lemma rd_fixed64_shorter: "rd_fixed64 bs = Ok (v, rest) \<Longrightarrow> length rest < length bs"
  by (auto simp: rd_fixed64_def split: if_splits)

lemma rd_bytes_shorter: "rd_bytes bs = Ok (v, rest) \<Longrightarrow> length rest < length bs"
  using rd_varint_shorter [of 0 0 bs] by (fastforce simp: rd_bytes_def split: if_splits prod.splits)

section \<open>Fields\<close>

text \<open>The code skips a value of a group by its depth.\<close>

definition skip_value :: "uint64 \<Rightarrow> nat \<Rightarrow> bytes \<Rightarrow> (nat \<times> bytes) result" where
  "skip_value wireType depth bs =
     (if wireType = 0 then map_out (\<lambda>(_, rest). (depth, rest)) (rd_varint 0 0 bs)
      else if wireType = 1 then map_out (\<lambda>(_, rest). (depth, rest)) (rd_fixed64 bs)
      else if wireType = 2 then map_out (\<lambda>(_, rest). (depth, rest)) (rd_bytes bs)
      else if wireType = 3 then Ok (Suc depth, bs)
      else if wireType = 4 then (if depth = 0 then Err (Errorf ''proto: unexpected end of group'') else Ok (depth - 1, bs))
      else if wireType = 5 then (if length bs < 4 then Err ErrUnexpectedEOF else Ok (depth, drop 4 bs))
      else Err (Errorf ''proto: illegal wireType''))"

lemma skip_value_le: "skip_value w d bs = Ok (d', rest) \<Longrightarrow> length rest \<le> length bs"
  using rd_varint_shorter [of 0 0 bs] rd_fixed64_shorter [of bs] rd_bytes_shorter [of bs]
  by (fastforce simp: skip_value_def split: if_splits)

function skipCanonical :: "nat \<Rightarrow> bytes \<Rightarrow> bytes result" where
  "skipCanonical depth bs =
     (if bs = [] then Err ErrUnexpectedEOF
      else bind_out (rd_varint 0 0 bs) (\<lambda>(wire, rest).
           bind_out (skip_value (wire AND 7) depth rest) (\<lambda>(depth', rest').
           if depth' = 0 then Ok rest' else skipCanonical depth' rest')))"
  by auto
termination
  by (relation "measure (length \<circ> snd)") (auto dest!: rd_varint_shorter skip_value_le)

declare skipCanonical.simps [simp del]

lemma skipCanonical_shorter: "skipCanonical d bs = Ok rest \<Longrightarrow> length rest < length bs"
proof (induction d bs arbitrary: rest rule: skipCanonical.induct)
  case (1 depth bs)
  from "1.prems" obtain wire r d' r' where r: "bs \<noteq> []" "rd_varint 0 0 bs = Ok (wire, r)" "skip_value (wire AND 7) depth r = Ok (d', r')"
      "(if d' = 0 then Ok r' else skipCanonical d' r') = Ok rest"
    by (subst (asm) skipCanonical.simps) (auto split: if_splits)
  have "length rest \<le> length r'"
    using r(4) "1.IH" [OF r(1,2) refl r(3) refl] by (cases "d' = 0") fastforce+
  then show ?case using rd_varint_shorter [OF r(2)] skip_value_le [OF r(3)] by simp
qed

datatype 'm pb_field =
    VarintField "uint64 \<Rightarrow> 'm \<Rightarrow> 'm"
  | Fixed64Field "uint64 \<Rightarrow> 'm \<Rightarrow> 'm"
  | BytesField "bytes \<Rightarrow> 'm \<Rightarrow> 'm result"
  | PackedField "uint64 list \<Rightarrow> 'm \<Rightarrow> 'm"

text \<open>A packed field: numbers are read until its bytes are used up; the last one may reach over its end.\<close>

function rd_packed :: "nat \<Rightarrow> bytes \<Rightarrow> (uint64 list \<times> bytes) result" where
  "rd_packed n bs =
     (if n = 0 then Ok ([], bs)
      else bind_out (rd_varint 0 0 bs) (\<lambda>(v, rest).
           map_out (\<lambda>(vs, r). (v # vs, r)) (rd_packed (n - (length bs - length rest)) rest)))"
  by auto
termination
  by (relation "measure (length \<circ> snd)") (auto dest!: rd_varint_shorter)

declare rd_packed.simps [simp del]

lemma rd_packed_le: "rd_packed n bs = Ok (vs, rest) \<Longrightarrow> length rest \<le> length bs"
proof (induction n bs arbitrary: vs rest rule: rd_packed.induct)
  case (1 n bs)
  show ?case
  proof (cases "n = 0")
    case True
    then show ?thesis using "1.prems" by (simp add: rd_packed.simps)
  next
    case False
    then obtain v r vs' where r: "rd_varint 0 0 bs = Ok (v, r)" "rd_packed (n - (length bs - length r)) r = Ok (vs', rest)"
      using "1.prems" by (subst (asm) rd_packed.simps) auto
    show ?thesis using "1.IH" [OF False r(1) refl r(2)] rd_varint_shorter [OF r(1)] by simp
  qed
qed

fun rd_field :: "'m pb_field \<Rightarrow> uint64 \<Rightarrow> bytes \<Rightarrow> 'm \<Rightarrow> ('m \<times> bytes) result" where
  "rd_field (VarintField f) wireType bs m =
     (if wireType \<noteq> 0 then Err (Errorf ''proto: wrong wireType'') else map_out (\<lambda>(v, rest). (f v m, rest)) (rd_varint 0 0 bs))"
| "rd_field (Fixed64Field f) wireType bs m =
     (if wireType \<noteq> 1 then Err (Errorf ''proto: wrong wireType'') else map_out (\<lambda>(v, rest). (f v m, rest)) (rd_fixed64 bs))"
| "rd_field (BytesField f) wireType bs m =
     (if wireType \<noteq> 2 then Err (Errorf ''proto: wrong wireType'')
      else bind_out (rd_bytes bs) (\<lambda>(v, rest). map_out (\<lambda>m'. (m', rest)) (f v m)))"
| "rd_field (PackedField f) wireType bs m =
     (if wireType = 0 then map_out (\<lambda>(v, rest). (f [v] m, rest)) (rd_varint 0 0 bs)
      else if wireType = 2
      then bind_out (rd_varint 0 0 bs) (\<lambda>(n, rest).
           if sint n < 0 then Err ErrInvalidLength
           else if sint n > int (length rest) then Err ErrUnexpectedEOF
           else map_out (\<lambda>(vs, rest'). (f vs m, rest')) (rd_packed (unat n) rest))
      else Err (Errorf ''proto: wrong wireType''))"

lemma rd_field_shorter: "rd_field f w bs m = Ok (m', rest) \<Longrightarrow> length rest < length bs"
proof (cases f)
  case (PackedField g)
  assume "rd_field f w bs m = Ok (m', rest)"
  then show ?thesis using PackedField
    by (fastforce split: if_splits prod.splits dest: rd_varint_shorter rd_packed_le)
qed (auto split: if_splits dest: rd_varint_shorter rd_fixed64_shorter rd_bytes_shorter)

definition field_num :: "uint64 \<Rightarrow> int" where
  "field_num wire = sint (ucast (drop_bit 3 wire) :: 32 word)"

function pb_unmarshal :: "(int \<rightharpoonup> 'm pb_field) \<Rightarrow> bytes \<Rightarrow> 'm \<Rightarrow> 'm result" where
  "pb_unmarshal tbl bs m =
     (if bs = [] then Ok m
      else bind_out (rd_varint 0 0 bs) (\<lambda>(wire, rest).
        if wire AND 7 = 4 then Err (Errorf ''proto: wiretype end group for non-group'')
        else if field_num wire \<le> 0 then Err (Errorf ''proto: illegal tag'')
        else case tbl (field_num wire) of
               None \<Rightarrow> bind_out (skipCanonical 0 bs) (\<lambda>rest. pb_unmarshal tbl rest m)
             | Some f \<Rightarrow> bind_out (rd_field f (wire AND 7) rest m) (\<lambda>(m', rest'). pb_unmarshal tbl rest' m')))"
  by auto
termination
  by (relation "measure (\<lambda>(_, bs, _). length bs)") (auto dest!: rd_varint_shorter rd_field_shorter skipCanonical_shorter)

declare pb_unmarshal.simps [simp del]

section \<open>The signed messages\<close>

definition CanonicalPartSetHeader_Unmarshal :: "bytes \<Rightarrow> PartSetHeader \<Rightarrow> PartSetHeader result" where
  "CanonicalPartSetHeader_Unmarshal = pb_unmarshal [
     1 \<mapsto> VarintField (\<lambda>v m. m\<lparr>psh_Total := uint (ucast v :: 32 word)\<rparr>),
     2 \<mapsto> BytesField (\<lambda>bz m. Ok (m\<lparr>psh_Hash := bz\<rparr>))]"

definition CanonicalBlockID_Unmarshal :: "bytes \<Rightarrow> BlockID \<Rightarrow> BlockID result" where
  "CanonicalBlockID_Unmarshal = pb_unmarshal [
     1 \<mapsto> BytesField (\<lambda>bz m. Ok (m\<lparr>bid_Hash := bz\<rparr>)),
     2 \<mapsto> BytesField (\<lambda>bz m. map_out (\<lambda>p. m\<lparr>bid_PartSetHeader := p\<rparr>) (CanonicalPartSetHeader_Unmarshal bz (bid_PartSetHeader m)))]"

definition CanonicalVote_Unmarshal :: "(bytes \<Rightarrow> go_time result) \<Rightarrow> bytes \<Rightarrow> CanonicalVote \<Rightarrow> CanonicalVote result" where
  "CanonicalVote_Unmarshal timeUnmarshal = pb_unmarshal [
     1 \<mapsto> VarintField (\<lambda>v m. m\<lparr>cv_Type := sint (ucast v :: 32 word)\<rparr>),
     2 \<mapsto> Fixed64Field (\<lambda>v m. m\<lparr>cv_Height := sint v\<rparr>),
     3 \<mapsto> Fixed64Field (\<lambda>v m. m\<lparr>cv_Round := sint v\<rparr>),
     4 \<mapsto> BytesField (\<lambda>bz m. map_out (\<lambda>b. m\<lparr>cv_BlockID := Some b\<rparr>)
            (CanonicalBlockID_Unmarshal bz (case cv_BlockID m of None \<Rightarrow> empty_BlockID | Some b \<Rightarrow> b))),
     5 \<mapsto> BytesField (\<lambda>bz m. map_out (\<lambda>t. m\<lparr>cv_Timestamp := t\<rparr>) (timeUnmarshal bz)),
     6 \<mapsto> BytesField (\<lambda>bz m. Ok (m\<lparr>cv_ChainID := bz\<rparr>))]"

record CanonicalProposal =
  cp_Type :: int
  cp_Height :: int
  cp_Round :: int
  cp_POLRound :: int
  cp_BlockID :: "BlockID option"
  cp_Timestamp :: go_time
  cp_ChainID :: bytes

definition CanonicalProposal_Unmarshal :: "(bytes \<Rightarrow> go_time result) \<Rightarrow> bytes \<Rightarrow> CanonicalProposal \<Rightarrow> CanonicalProposal result" where
  "CanonicalProposal_Unmarshal timeUnmarshal = pb_unmarshal [
     1 \<mapsto> VarintField (\<lambda>v m. m\<lparr>cp_Type := sint (ucast v :: 32 word)\<rparr>),
     2 \<mapsto> Fixed64Field (\<lambda>v m. m\<lparr>cp_Height := sint v\<rparr>),
     3 \<mapsto> Fixed64Field (\<lambda>v m. m\<lparr>cp_Round := sint v\<rparr>),
     4 \<mapsto> VarintField (\<lambda>v m. m\<lparr>cp_POLRound := sint v\<rparr>),
     5 \<mapsto> BytesField (\<lambda>bz m. map_out (\<lambda>b. m\<lparr>cp_BlockID := Some b\<rparr>)
            (CanonicalBlockID_Unmarshal bz (case cp_BlockID m of None \<Rightarrow> empty_BlockID | Some b \<Rightarrow> b))),
     6 \<mapsto> BytesField (\<lambda>bz m. map_out (\<lambda>t. m\<lparr>cp_Timestamp := t\<rparr>) (timeUnmarshal bz)),
     7 \<mapsto> BytesField (\<lambda>bz m. Ok (m\<lparr>cp_ChainID := bz\<rparr>))]"

text \<open>\<open>binary.ReadUvarint\<close>, \<open>i\<close> bytes read before.\<close>

fun ReadUvarint :: "nat \<Rightarrow> uint64 \<Rightarrow> bytes \<Rightarrow> (uint64 \<times> bytes) result" where
  "ReadUvarint i x [] = (if i = 10 then Err (Errorf ''binary: varint overflows a 64-bit integer'') else Err ErrUnexpectedEOF)"
| "ReadUvarint i x (b # bs) =
     (if i = 10 then Err (Errorf ''binary: varint overflows a 64-bit integer'')
      else if b < 0x80
      then if i = 9 \<and> b > 1 then Err (Errorf ''binary: varint overflows a 64-bit integer'')
           else Ok (x OR push_bit (7 * i) (ucast b), bs)
      else ReadUvarint (Suc i) (x OR push_bit (7 * i) (ucast (b AND 0x7F))) bs)"

text \<open>Reading one message, \<open>unmarshal\<close> that of the message, from the bytes of a reader of at most \<open>maxSize\<close>.\<close>

definition ReadMsg :: "nat \<Rightarrow> (bytes \<Rightarrow> 'm result) \<Rightarrow> bytes \<Rightarrow> ('m \<times> bytes) result" where
  "ReadMsg maxSize unmarshal data =
     bind_out (ReadUvarint 0 0 data) (\<lambda>(l, rest).
     if l \<ge> 0x7FFFFFFFFFFFFFFF \<or> sint l < 0 \<or> i64 (int (length data - length rest) + sint l) < 0
     then Err (Errorf ''invalid out-of-range message length'')
     else if sint l > int maxSize then Err (Errorf ''message exceeds max size'')
     else if length rest < unat l then Err ErrUnexpectedEOF
     else map_out (\<lambda>m. (m, drop (unat l) rest)) (unmarshal (take (unat l) rest)))"

definition UnmarshalDelimited :: "bytes \<Rightarrow> (bytes \<Rightarrow> 'm result) \<Rightarrow> 'm result" where
  "UnmarshalDelimited data unmarshal = map_out fst (ReadMsg (length data) unmarshal data)"

section \<open>Round trips\<close>

lemma unat_byte: "n < 256 \<Longrightarrow> unat (of_nat n :: byte) = n"
  by (simp add: unat_of_nat)

lemma varint_low: "(of_nat n :: uint64) = of_nat (n mod 128) OR push_bit 7 (of_nat (n div 128))"
proof -
  have "take_bit 7 n OR push_bit 7 (drop_bit 7 n) = n"
    by (simp add: bit_eq_iff bit_or_iff bit_take_bit_iff bit_push_bit_iff bit_drop_bit_eq) (metis le_add_diff_inverse not_le)
  then have "(of_nat n :: uint64) = of_nat (take_bit 7 n OR push_bit 7 (drop_bit 7 n))" by simp
  also have "\<dots> = of_nat (take_bit 7 n) OR push_bit 7 (of_nat (drop_bit 7 n))"
    by (simp add: of_nat_or_eq of_nat_push_bit)
  finally show ?thesis by (simp add: take_bit_eq_mod drop_bit_eq_div)
qed

lemma byte_and_127: "unat ((b :: byte) AND 0x7F) = unat b mod 128"
proof -
  have "(0x7F :: byte) = mask 7" by (simp add: mask_eq_exp_minus_1)
  then have "b AND 0x7F = take_bit 7 b" by (simp add: take_bit_eq_mask)
  then show ?thesis by (simp add: unsigned_take_bit_eq) (simp add: take_bit_eq_mod)
qed

lemma ucast_byte_127: "ucast ((b :: byte) AND 0x7F) = (of_nat (unat b mod 128) :: uint64)"
  unfolding byte_and_127 [symmetric] of_nat_unat ..

lemma rd_varint_byte:
  assumes "s < 64"
  shows "n < 128 \<Longrightarrow> rd_varint s acc (of_nat n # xs) = Ok (acc OR push_bit s (of_nat n), xs)"
    "rd_varint s acc (of_nat (n mod 128 + 128) # xs) = rd_varint (s + 7) (acc OR push_bit s (of_nat (n mod 128))) xs"
proof -
have "b < 0x80 \<longleftrightarrow> unat b < 128" for b :: byte by (simp add: word_less_nat_alt)
  moreover have "unat (of_nat (n mod 128 + 128) :: byte) = n mod 128 + 128" by (rule unat_byte) simp
  moreover have "unat (of_nat n :: byte) = n" if "n < 128" using that by (intro unat_byte) simp
  ultimately show "n < 128 \<Longrightarrow> rd_varint s acc (of_nat n # xs) = Ok (acc OR push_bit s (of_nat n), xs)"
      "rd_varint s acc (of_nat (n mod 128 + 128) # xs) = rd_varint (s + 7) (acc OR push_bit s (of_nat (n mod 128))) xs"
    using assms by (simp_all add: Let_def ucast_byte_127 del: of_nat_add)
qed

lemma rd_varint_uvarint:
  assumes "n * 2 ^ s < 2 ^ 64" "s < 64"
  shows "rd_varint s acc (uvarint n @ xs) = Ok (acc OR push_bit s (of_nat n), xs)"
  using assms
proof (induction n arbitrary: s acc rule: uvarint.induct)
  case (1 n)
  show ?case
  proof (cases "n < 128")
    case True
    then show ?thesis using "1.prems" rd_varint_byte(1) [OF "1.prems"(2) True] by (simp add: uvarint.simps)
  next
    case False
    have "(2::nat) ^ (s + 7) \<le> n * 2 ^ s" using False by (simp add: power_add)
    also have "\<dots> < 2 ^ 64" by fact
    finally have s: "s + 7 < 64" using power_less_imp_less_exp [of "2::nat" "s + 7" 64] by simp
    have "n div 128 * 2 ^ (s + 7) \<le> n * 2 ^ s"
      using mult_le_mono1 [of "n div 128 * 128" n "2 ^ s"] by (simp add: power_add mult.assoc mult.commute [of 128])
    then have IH: "rd_varint (s + 7) (acc OR push_bit s (of_nat (n mod 128))) (uvarint (n div 128) @ xs) =
        Ok ((acc OR push_bit s (of_nat (n mod 128))) OR push_bit (s + 7) (of_nat (n div 128)), xs)"
      using "1.IH" [OF False, of "s + 7"] s "1.prems"(1) by simp
    have "push_bit s (of_nat (n mod 128)) OR push_bit (s + 7) (of_nat (n div 128)) = (push_bit s (of_nat n) :: uint64)"
      by (simp add: varint_low [of n] push_bit_or push_bit_push_bit add.commute)
    then show ?thesis
      using False IH rd_varint_byte(2) [OF "1.prems"(2), of acc n] by (subst uvarint.simps) (simp add: or.assoc del: of_nat_add)
  qed
qed

lemma rd_varint_ok: "n < 2 ^ 64 \<Longrightarrow> rd_varint 0 0 (uvarint n @ xs) = Ok (of_nat n, xs)"
  using rd_varint_uvarint [of n 0 0 xs] by simp

lemma le_nat_le_bytes: "n < 256 ^ k \<Longrightarrow> le_nat (le_bytes k n) = n"
proof (induction k arbitrary: n)
  case (Suc k)
  then have "n div 256 < 256 ^ k" by (simp add: div_less_iff_less_mult mult.commute)
  moreover have "unat (of_nat (n mod 256) :: byte) = n mod 256" by (rule unat_byte) simp
  ultimately show ?case using Suc.IH by simp
qed simp

lemma sint_to_uint64: "is_i64 x \<Longrightarrow> sint (of_nat (to_uint64 x) :: uint64) = x"
proof -
  assume x: "is_i64 x"
  have "(of_nat (to_uint64 x) :: uint64) = word_of_int (x mod 18446744073709551616)"
    by (simp add: to_uint64_def)
  also have "\<dots> = word_of_int x" by (simp add: word_of_int_eq_iff take_bit_eq_mod)
  finally have "(of_nat (to_uint64 x) :: uint64) = word_of_int x" .
  then show ?thesis using x by (simp add: is_i64_def sint_sbintrunc' signed_take_bit_int_eq_self)
qed

lemma rd_fixed64_ok: "is_i64 x \<Longrightarrow> rd_fixed64 (le_bytes 8 (to_uint64 x) @ xs) = Ok (of_nat (to_uint64 x), xs)"
  using le_nat_le_bytes [OF to_uint64_less] by (simp add: rd_fixed64_def)

lemma rd_bytes_ok: "length bz < 2 ^ 63 \<Longrightarrow> rd_bytes (uvarint (length bz) @ bz @ xs) = Ok (bz, xs)"
proof -
  assume l: "length bz < 2 ^ 63"
  have "unat (of_nat (length bz) :: uint64) = length bz" using l by (simp add: unat_of_nat)
  moreover have "sint (of_nat (length bz) :: uint64) = int (length bz)"
    using l by (simp add: signed_of_nat signed_take_bit_int_eq_self)
  ultimately show ?thesis using l by (simp add: rd_bytes_def rd_varint_ok)
qed

text \<open>The field number and the wire type of a one-byte tag.\<close>

definition tag_is :: "byte \<Rightarrow> int \<Rightarrow> uint64 \<Rightarrow> bool" where
  "tag_is t num w \<longleftrightarrow> t < 0x80 \<and> field_num (ucast (t AND 0x7F)) = num \<and> 0 < num \<and> ucast (t AND 0x7F) AND 7 = w \<and> w \<noteq> 4"

lemma pb_unmarshal_Nil [simp]: "pb_unmarshal tbl [] m = Ok m"
  by (simp add: pb_unmarshal.simps)

lemma pb_unmarshal_field:
  assumes "tag_is t num w" "tbl num = Some f" "rd_field f w bs m = Ok (m', rest)"
  shows "pb_unmarshal tbl (t # bs) m = pb_unmarshal tbl rest m'"
  using assms by (subst pb_unmarshal.simps) (simp add: tag_is_def)

lemma pb_unmarshal_varint:
  assumes "tag_is t num 0" "tbl num = Some (VarintField f)" "v < 2 ^ 64"
  shows "pb_unmarshal tbl (pb_varint t v @ xs) m = pb_unmarshal tbl xs (if v = 0 then m else f (of_nat v) m)"
  using pb_unmarshal_field [where tbl = tbl, OF assms(1,2), of "uvarint v @ xs" m] assms(3) by (simp add: pb_varint_def rd_varint_ok)

lemma pb_unmarshal_sfixed64:
  assumes "tag_is t num 1" "tbl num = Some (Fixed64Field f)" "is_i64 v"
  shows "pb_unmarshal tbl (pb_sfixed64 t v @ xs) m = pb_unmarshal tbl xs (if v = 0 then m else f (of_nat (to_uint64 v)) m)"
  using pb_unmarshal_field [where tbl = tbl, OF assms(1,2), of "le_bytes 8 (to_uint64 v) @ xs" m] assms(3) by (simp add: pb_sfixed64_def rd_fixed64_ok)

lemma pb_unmarshal_msg:
  assumes "tag_is t num 2" "tbl num = Some (BytesField f)" "f bz m = Ok m'" "length bz < 2 ^ 63"
  shows "pb_unmarshal tbl (pb_msg t bz @ xs) m = pb_unmarshal tbl xs m'"
  using pb_unmarshal_field [where tbl = tbl, OF assms(1,2), of "uvarint (length bz) @ bz @ xs" m] assms(3,4) by (simp add: pb_msg_def rd_bytes_ok)

lemma pb_unmarshal_bytes:
  assumes "tag_is t num 2" "tbl num = Some (BytesField (\<lambda>bz m. Ok (f bz m)))" "length bz < 2 ^ 63"
  shows "pb_unmarshal tbl (pb_bytes t bz @ xs) m = pb_unmarshal tbl xs (if bz = [] then m else f bz m)"
  using pb_unmarshal_msg [where tbl = tbl, OF assms(1,2), of bz m "f bz m"] assms(3) by (simp add: pb_bytes_def)

lemma pb_unmarshal_opt:
  assumes "tag_is t num 2" "tbl num = Some (BytesField f)" "\<And>bz. z = Some bz \<Longrightarrow> f bz m = Ok m' \<and> length bz < 2 ^ 63" "z = None \<Longrightarrow> m' = m"
  shows "pb_unmarshal tbl (pb_opt t z @ xs) m = pb_unmarshal tbl xs m'"
  using pb_unmarshal_msg [where tbl = tbl, OF assms(1,2)] assms(3,4) by (cases z) (auto simp: pb_opt_def)

lemma tags [simp]: "tag_is 0x08 1 0" "tag_is 0x11 2 1" "tag_is 0x19 3 1" "tag_is 0x20 4 0" "tag_is 0x0a 1 2" "tag_is 0x12 2 2"
  "tag_is 0x22 4 2" "tag_is 0x2a 5 2" "tag_is 0x32 6 2" "tag_is 0x3a 7 2"
  by (simp_all add: tag_is_def field_num_def)

lemma to_uint64_bound: "to_uint64 x < 18446744073709551616"
  using to_uint64_less [of x] by simp

lemma uint_u32: "is_u32 x \<Longrightarrow> uint (ucast (of_nat (to_uint64 x) :: uint64) :: 32 word) = x"
proof -
  assume "is_u32 x"
  then have x: "0 \<le> x" "x < 4294967296" "to_uint64 x = nat x" by (auto simp: is_u32_def to_uint64_def)
  have "uint (of_nat (nat x) :: uint64) = x" using x by (simp add: uint_word_of_int)
  then show ?thesis using x by (simp add: unsigned_ucast_eq take_bit_int_eq_self)
qed

lemma sint_i32: "is_i32 x \<Longrightarrow> sint (ucast (of_nat (to_uint64 x) :: uint64) :: 32 word) = x"
proof -
  assume x: "is_i32 x"
  have "(of_nat (to_uint64 x) :: uint64) = word_of_int x"
    by (simp add: to_uint64_def word_of_int_eq_iff take_bit_eq_mod)
  then have "(ucast (of_nat (to_uint64 x) :: uint64) :: 32 word) = word_of_int x"
    by (simp add: unsigned_of_int word_of_int_eq_iff)
  then show ?thesis using x by (simp add: is_i32_def signed_of_int signed_take_bit_int_eq_self)
qed


lemma pb_unmarshal_last:
  assumes "tag_is t num 2" "tbl num = Some (BytesField (\<lambda>bz m. Ok (f bz m)))" "length bz < 2 ^ 63"
  shows "pb_unmarshal tbl (pb_bytes t bz) m = Ok (if bz = [] then m else f bz m)"
  using pb_unmarshal_bytes [where tbl = tbl and xs = "[]", OF assms, of m] by simp

lemma PartSetHeader_Unmarshal_Marshal:
  assumes "is_u32 (psh_Total p)" "length (psh_Hash p) < 2 ^ 63"
  shows "CanonicalPartSetHeader_Unmarshal (PartSetHeader_Marshal p) \<lparr>psh_Total = 0, psh_Hash = []\<rparr> = Ok p"
  unfolding CanonicalPartSetHeader_Unmarshal_def PartSetHeader_Marshal_def
  using assms by (cases p) (simp add: pb_unmarshal_varint [where num = 1] pb_unmarshal_last [where num = 2] to_uint64_bound uint_u32 to_uint64_0)

lemma BlockID_Unmarshal_Marshal:
  assumes "bid_in_range b" "length (BlockID_Marshal b) < 2 ^ 63"
  shows "CanonicalBlockID_Unmarshal (BlockID_Marshal b) empty_BlockID = Ok b"
proof -
  have l: "length (PartSetHeader_Marshal (bid_PartSetHeader b)) < 2 ^ 63" "length (bid_Hash b) < 2 ^ 63"
    "length (psh_Hash (bid_PartSetHeader b)) < 2 ^ 63"
    using assms(2) by (auto simp: BlockID_Marshal_def pb_bytes_def pb_msg_def PartSetHeader_Marshal_def split: if_splits)
  note p = PartSetHeader_Unmarshal_Marshal [OF _ l(3)]
  show ?thesis
    unfolding CanonicalBlockID_Unmarshal_def BlockID_Marshal_def
    using assms(1) p l
    by (cases b) (simp add: pb_unmarshal_bytes [where num = 1] pb_unmarshal_msg [where num = 2 and xs = "[]", simplified] empty_BlockID_def bid_in_range_def)
qed

lemma ReadUvarint_uvarint:
  assumes "n * 2 ^ (7 * i) < 2 ^ 64" "i \<le> 9"
  shows "ReadUvarint i x (uvarint n @ xs) = Ok (x OR push_bit (7 * i) (of_nat n), xs)"
  using assms
proof (induction n arbitrary: i x rule: uvarint.induct)
  case (1 n)
  have b: "b < 0x80 \<longleftrightarrow> unat b < 128" "b > 1 \<longleftrightarrow> unat b > 1" for b :: byte by (simp_all add: word_less_nat_alt)
  show ?case
  proof (cases "n < 128")
    case True
    have "i = 9 \<longrightarrow> \<not> Suc 0 < n" using "1.prems"(1) by auto
    moreover have "ucast (of_nat n :: byte) = (of_nat n :: uint64)"
      using True by (simp add: unsigned_of_nat) (simp add: take_bit_nat_eq_self)
    ultimately show ?thesis using True "1.prems"(2) by (subst uvarint.simps) (simp add: b unat_byte)
  next
    case False
    have "(2::nat) ^ (7 * Suc i) \<le> n * 2 ^ (7 * i)" using False by (simp add: power_add)
    also have "\<dots> < 2 ^ 64" by fact
    finally have s: "7 * Suc i < 64" using power_less_imp_less_exp [of "2::nat" "7 * Suc i" 64] by simp
    have "n div 128 * 2 ^ (7 * Suc i) \<le> n * 2 ^ (7 * i)"
      using mult_le_mono1 [of "n div 128 * 128" n "2 ^ (7 * i)"] by (simp add: power_add mult.assoc mult.commute [of 128])
    then have IH: "ReadUvarint (Suc i) y (uvarint (n div 128) @ xs) = Ok (y OR push_bit (7 * Suc i) (of_nat (n div 128)), xs)" for y
      using "1.IH" [OF False, of "Suc i"] s "1.prems"(1) by simp
    have "ucast (of_nat (n mod 128 + 128) AND 0x7F :: byte) = (of_nat (n mod 128) :: uint64)"
      using unat_byte [of "n mod 128 + 128"] by (simp add: ucast_byte_127 del: of_nat_add)
    moreover have "push_bit (7 * i) (of_nat (n mod 128)) OR push_bit (7 * Suc i) (of_nat (n div 128)) = (push_bit (7 * i) (of_nat n) :: uint64)"
      by (simp add: varint_low [of n] push_bit_or push_bit_push_bit add.commute)
    ultimately show ?thesis
      using False s IH unat_byte [of "n mod 128 + 128"] by (subst uvarint.simps) (simp add: or.assoc b del: of_nat_add)
  qed
qed

lemma UnmarshalDelimited_MarshalDelimited:
  assumes "int (length (MarshalDelimited bz)) < MaxInt64"
  shows "UnmarshalDelimited (MarshalDelimited bz) unmarshal = unmarshal bz"
proof -
  let ?l = "of_nat (length bz) :: uint64"
  have b: "int (length (uvarint (length bz))) + int (length bz) < MaxInt64" using assms by (simp add: MarshalDelimited_def)
  have l: "unat ?l = length bz" "sint ?l = int (length bz)"
    using b by (simp_all add: unat_of_nat signed_of_nat signed_take_bit_int_eq_self)
  have "i64 (int (length (uvarint (length bz))) + int (length bz)) = int (length (uvarint (length bz))) + int (length bz)"
    using b by (simp add: is_i64_def)
  moreover have "\<not> 0x7FFFFFFFFFFFFFFF \<le> ?l" using b l(1) by (simp add: word_le_nat_alt)
  ultimately show ?thesis
    using ReadUvarint_uvarint [of "length bz" 0 0 bz] b l
    by (simp add: UnmarshalDelimited_def ReadMsg_def MarshalDelimited_def) (cases "unmarshal bz"; simp)
qed

text \<open>What the decoder of the time library promises.\<close>

definition time_decodes :: "env \<Rightarrow> (bytes \<Rightarrow> go_time result) \<Rightarrow> bool" where
  "time_decodes e tu \<longleftrightarrow> (\<forall>t bz. StdTimeMarshal e t = Ok bz \<longrightarrow> tu bz = Ok t)"

definition zero_CanonicalVote :: CanonicalVote where
  "zero_CanonicalVote = \<lparr>cv_Type = 0, cv_Height = 0, cv_Round = 0, cv_BlockID = None, cv_Timestamp = 0, cv_ChainID = []\<rparr>"

definition zero_CanonicalProposal :: CanonicalProposal where
  "zero_CanonicalProposal = \<lparr>cp_Type = 0, cp_Height = 0, cp_Round = 0, cp_POLRound = 0, cp_BlockID = None, cp_Timestamp = 0, cp_ChainID = []\<rparr>"

lemma pb_unmarshal_bid:
  assumes "tag_is t num 2" "tbl num = Some (BytesField (\<lambda>bz m. map_out (\<lambda>b. upd b m) (CanonicalBlockID_Unmarshal bz (case get m of None \<Rightarrow> empty_BlockID | Some b \<Rightarrow> b))))"
    "get m = None" "\<And>b. bid = Some b \<Longrightarrow> bid_in_range b \<and> length (BlockID_Marshal b) < 2 ^ 63"
  shows "pb_unmarshal tbl (pb_opt t (map_option BlockID_Marshal bid) @ xs) m = pb_unmarshal tbl xs (case bid of None \<Rightarrow> m | Some b \<Rightarrow> upd b m)"
  using assms(3,4) BlockID_Unmarshal_Marshal
  by (intro pb_unmarshal_opt [where tbl = tbl, OF assms(1,2)]) (auto split: option.splits)

lemma canonical_bid_option:
  "CanonicalizeBlockID b = Ok c \<Longrightarrow> canonical_bid b = map_option BlockID_Marshal c \<and> (\<forall>d. c = Some d \<longrightarrow> d = b)"
  using CanonicalizeBlockID_ok [of b c] by auto

lemma vote_sign_bytes_decode:
  assumes "VoteSignBytes e c v = Ok bz" "time_decodes e tu" "vote_in_range v" "int (length bz) < MaxInt64"
  shows "UnmarshalDelimited bz (\<lambda>b. CanonicalVote_Unmarshal tu b zero_CanonicalVote) = CanonicalizeVote c v"
proof -
  obtain b where b: "CanonicalizeBlockID (v_BlockID v) = Ok b" using assms(1) by (auto simp: VoteSignBytes_def CanonicalizeVote_def)
  note bid = canonical_bid_option [OF b]
  let ?m = "\<lambda>t. pb_varint 0x08 (to_uint64 (v_Type v)) @ pb_sfixed64 0x11 (v_Height v) @ pb_sfixed64 0x19 (v_Round v) @
     pb_opt 0x22 (map_option BlockID_Marshal b) @ pb_msg 0x2a t @ pb_bytes 0x32 c"
  obtain t where t: "StdTimeMarshal e (v_Timestamp v) = Ok t" and bz: "bz = MarshalDelimited (?m t)"
    by (rule VoteSignBytes_Ok [OF assms(1), unfolded bid [THEN conjunct1]])
  have l: "length t < 2 ^ 63" "length c < 2 ^ 63" "\<And>d. b = Some d \<Longrightarrow> length (BlockID_Marshal d) < 2 ^ 63"
    using assms(4) unfolding bz by (auto simp: MarshalDelimited_def pb_msg_def pb_bytes_def pb_opt_def split: if_splits)
  have r: "bid_in_range (v_BlockID v)" "is_i32 (v_Type v)" "is_i64 (v_Height v)" "is_i32 (v_Round v)" using assms(3) by (simp_all add: vote_in_range_def)
  have "CanonicalVote_Unmarshal tu (?m t) zero_CanonicalVote = Ok \<lparr>cv_Type = v_Type v, cv_Height = v_Height v, cv_Round = v_Round v, cv_BlockID = b,
                  cv_Timestamp = v_Timestamp v, cv_ChainID = c\<rparr>"
    unfolding CanonicalVote_Unmarshal_def zero_CanonicalVote_def
    apply (rule trans [OF pb_unmarshal_varint [where num = 1]], simp, simp, simp add: to_uint64_bound)
    apply (rule trans [OF pb_unmarshal_sfixed64 [where num = 2]], simp, simp, simp add: r)
    apply (rule trans [OF pb_unmarshal_sfixed64 [where num = 3]], simp, simp, simp add: r)
    apply (rule trans [OF pb_unmarshal_bid [where num = 4 and get = cv_BlockID and upd = "\<lambda>b m. m\<lparr>cv_BlockID := Some b\<rparr>"]], simp, simp, simp)
    using bid l r(1) apply simp
    apply (rule trans [OF pb_unmarshal_msg [where num = 5]], simp, simp)
    using t assms(2) apply (simp add: time_decodes_def)
    using l apply simp
    apply (rule trans [OF pb_unmarshal_last [where num = 6]], simp, simp)
    using l apply simp
    using r bid apply (cases b) apply (simp_all add: to_uint64_0 sint_i32 sint_to_uint64)
    done
  then show ?thesis using UnmarshalDelimited_MarshalDelimited [of "?m t" "\<lambda>b. CanonicalVote_Unmarshal tu b zero_CanonicalVote"] assms(4) b
    unfolding bz by (simp add: CanonicalizeVote_def)
qed

definition CanonicalizeProposal :: "bytes \<Rightarrow> Proposal \<Rightarrow> CanonicalProposal result" where
  "CanonicalizeProposal chainID proposal =
     map_out (\<lambda>b. \<lparr>cp_Type = ProposalType, cp_Height = p_Height proposal, cp_Round = p_Round proposal, cp_POLRound = p_POLRound proposal,
                  cp_BlockID = b, cp_Timestamp = p_Timestamp proposal, cp_ChainID = chainID\<rparr>)
       (CanonicalizeBlockID (p_BlockID proposal))"

lemma proposal_sign_bytes_decode:
  assumes "ProposalSignBytes e c p = Ok bz" "time_decodes e tu" "proposal_in_range p" "int (length bz) < MaxInt64"
  shows "UnmarshalDelimited bz (\<lambda>b. CanonicalProposal_Unmarshal tu b zero_CanonicalProposal) = CanonicalizeProposal c p"
proof -
  obtain b where b: "CanonicalizeBlockID (p_BlockID p) = Ok b" using assms(1) by (auto simp: ProposalSignBytes_def)
  note bid = canonical_bid_option [OF b]
  let ?m = "\<lambda>t. pb_varint 0x08 (to_uint64 ProposalType) @ pb_sfixed64 0x11 (p_Height p) @ pb_sfixed64 0x19 (p_Round p) @
     pb_varint 0x20 (to_uint64 (p_POLRound p)) @
     pb_opt 0x2a (map_option BlockID_Marshal b) @ pb_msg 0x32 t @ pb_bytes 0x3a c"
  obtain t where t: "StdTimeMarshal e (p_Timestamp p) = Ok t" and bz: "bz = MarshalDelimited (?m t)"
    by (rule ProposalSignBytes_Ok [OF assms(1), unfolded bid [THEN conjunct1]])
  have l: "length t < 2 ^ 63" "length c < 2 ^ 63" "\<And>d. b = Some d \<Longrightarrow> length (BlockID_Marshal d) < 2 ^ 63"
    using assms(4) unfolding bz by (auto simp: MarshalDelimited_def pb_msg_def pb_bytes_def pb_opt_def split: if_splits)
  have r: "bid_in_range (p_BlockID p)" "is_i64 (p_Height p)" "is_i32 (p_Round p)" "is_i32 (p_POLRound p)"
    using assms(3) by (simp_all add: proposal_in_range_def)
  have "CanonicalProposal_Unmarshal tu (?m t) zero_CanonicalProposal = Ok \<lparr>cp_Type = ProposalType, cp_Height = p_Height p, cp_Round = p_Round p,
      cp_POLRound = p_POLRound p, cp_BlockID = b, cp_Timestamp = p_Timestamp p, cp_ChainID = c\<rparr>"
    unfolding CanonicalProposal_Unmarshal_def zero_CanonicalProposal_def
    apply (rule trans [OF pb_unmarshal_varint [where num = 1]], simp, simp, simp add: to_uint64_bound)
    apply (rule trans [OF pb_unmarshal_sfixed64 [where num = 2]], simp, simp, simp add: r)
    apply (rule trans [OF pb_unmarshal_sfixed64 [where num = 3]], simp, simp, simp add: r)
    apply (rule trans [OF pb_unmarshal_varint [where num = 4]], simp, simp, simp add: to_uint64_bound)
    apply (rule trans [OF pb_unmarshal_bid [where num = 5 and get = cp_BlockID and upd = "\<lambda>b m. m\<lparr>cp_BlockID := Some b\<rparr>"]], simp, simp, simp)
    using bid l r(1) apply simp
    apply (rule trans [OF pb_unmarshal_msg [where num = 6]], simp, simp)
    using t assms(2) apply (simp add: time_decodes_def)
    using l apply simp
    apply (rule trans [OF pb_unmarshal_last [where num = 7]], simp, simp)
    using l apply simp
    using r bid sint_i32 [of ProposalType] apply (cases b) apply (simp_all add: to_uint64_0 sint_i32 sint_to_uint64 is_i64_def is_i32_def)
    done
  then show ?thesis using UnmarshalDelimited_MarshalDelimited [of "?m t" "\<lambda>b. CanonicalProposal_Unmarshal tu b zero_CanonicalProposal"] assms(4) b
    unfolding bz by (simp add: CanonicalizeProposal_def)
qed

end
