(* ===== verification/PrivVal.thy ===== *)
theory PrivVal
  imports ProtoReader
begin

text \<open>
  The file-backed private validator (\<open>privval/file.go\<close>) and the bytes signed for raw messages
  (\<open>types/priv_validator.go\<close>). The JSON text of a file is represented by the values it encodes;
  whether an atomic write succeeds is an argument of the operations that write. The private key is its
  signing function. \<open>proto.Equal\<close>, decoding a time and the clock are parameters.
\<close>

abbreviation (input) stepNone :: int where "stepNone \<equiv> 0"
abbreviation (input) stepPropose :: int where "stepPropose \<equiv> 1"
abbreviation (input) stepPrevote :: int where "stepPrevote \<equiv> 2"
abbreviation (input) stepPrecommit :: int where "stepPrecommit \<equiv> 3"

definition voteToStep :: "Vote \<Rightarrow> int result" where
  "voteToStep vote =
     (if v_Type vote = PrevoteType then Ok stepPrevote
      else if v_Type vote = PrecommitType then Ok stepPrecommit
      else Panic ''Unknown vote type'')"

record PrivKey =
  key_PubKey :: PubKey
  key_Sign :: "bytes \<Rightarrow> bytes result"

record FilePVKey =
  k_Address :: bytes
  k_PubKey :: PubKey
  k_PrivKey :: PrivKey
  k_filePath :: string

record FilePVLastSignState =
  lss_Height :: int
  lss_Round :: int
  lss_Step :: int
  lss_Signature :: "bytes option"
  lss_SignBytes :: "bytes option"
  lss_filePath :: string

record FilePV =
  pv_Key :: FilePVKey
  pv_LastSignState :: FilePVLastSignState

record pv_env =
  pe_env :: env
  StdTimeUnmarshal :: "bytes \<Rightarrow> go_time result"
  EqualVote :: "CanonicalVote \<Rightarrow> CanonicalVote \<Rightarrow> bool"
  EqualProposal :: "CanonicalProposal \<Rightarrow> CanonicalProposal \<Rightarrow> bool"
  Now :: go_time

section \<open>Files\<close>

text \<open>What the JSON of a file encodes; an empty slice with \<open>omitempty\<close> is left out.\<close>

datatype saved = SavedKey PrivKey | SavedState int int int "bytes option" "bytes option"

type_synonym files = "string \<rightharpoonup> saved"

definition omitempty :: "bytes option \<Rightarrow> bytes option" where
  "omitempty b = (if b = Some [] then None else b)"

definition Key_Save :: "bool \<Rightarrow> files \<Rightarrow> FilePVKey \<Rightarrow> files result" where
  "Key_Save w fs pvKey =
     (if k_filePath pvKey = '''' then Panic ''cannot save PrivValidator key: filePath not set''
      else if \<not> w then Panic ''write failed''
      else Ok (fs(k_filePath pvKey \<mapsto> SavedKey (k_PrivKey pvKey))))"

definition LSS_Save :: "bool \<Rightarrow> files \<Rightarrow> FilePVLastSignState \<Rightarrow> files result" where
  "LSS_Save w fs lss =
     (if lss_filePath lss = '''' then Panic ''cannot save FilePVLastSignState: filePath not set''
      else if \<not> w then Panic ''write failed''
      else Ok (fs(lss_filePath lss \<mapsto> SavedState (lss_Height lss) (lss_Round lss) (lss_Step lss)
             (omitempty (lss_Signature lss)) (omitempty (lss_SignBytes lss)))))"

definition PV_Save :: "bool \<Rightarrow> bool \<Rightarrow> files \<Rightarrow> FilePV \<Rightarrow> files result" where
  "PV_Save w1 w2 fs pv = bind_out (Key_Save w1 fs (pv_Key pv)) (\<lambda>fs. LSS_Save w2 fs (pv_LastSignState pv))"

definition NewFilePV :: "crypto_env \<Rightarrow> PrivKey \<Rightarrow> string \<Rightarrow> string \<Rightarrow> FilePV result" where
  "NewFilePV cr privKey keyFilePath stateFilePath =
     map_out (\<lambda>addr. \<lparr>pv_Key = \<lparr>k_Address = addr, k_PubKey = key_PubKey privKey, k_PrivKey = privKey, k_filePath = keyFilePath\<rparr>,
        pv_LastSignState = \<lparr>lss_Height = 0, lss_Round = 0, lss_Step = stepNone, lss_Signature = None, lss_SignBytes = None,
          lss_filePath = stateFilePath\<rparr>\<rparr>)
       (PubKey_Address cr (key_PubKey privKey))"

text \<open>A file that cannot be read ends the program.\<close>

definition loadFilePV :: "crypto_env \<Rightarrow> files \<Rightarrow> string \<Rightarrow> string \<Rightarrow> bool \<Rightarrow> FilePV result" where
  "loadFilePV cr fs keyFilePath stateFilePath loadState =
     (case fs keyFilePath of Some (SavedKey privKey) \<Rightarrow>
        bind_out (PubKey_Address cr (key_PubKey privKey)) (\<lambda>addr.
        let pvKey = \<lparr>k_Address = addr, k_PubKey = key_PubKey privKey, k_PrivKey = privKey, k_filePath = keyFilePath\<rparr> in
        if loadState
        then case fs stateFilePath of
               Some (SavedState h r s sig bz) \<Rightarrow>
                 Ok \<lparr>pv_Key = pvKey, pv_LastSignState = \<lparr>lss_Height = h, lss_Round = r, lss_Step = s, lss_Signature = sig,
                     lss_SignBytes = bz, lss_filePath = stateFilePath\<rparr>\<rparr>
             | _ \<Rightarrow> Panic ''Error reading PrivValidator state''
        else Ok \<lparr>pv_Key = pvKey, pv_LastSignState = \<lparr>lss_Height = 0, lss_Round = 0, lss_Step = 0, lss_Signature = None,
               lss_SignBytes = None, lss_filePath = stateFilePath\<rparr>\<rparr>)
      | _ \<Rightarrow> Panic ''Error reading PrivValidator key'')"

definition LoadFilePV :: "crypto_env \<Rightarrow> files \<Rightarrow> string \<Rightarrow> string \<Rightarrow> FilePV result" where
  "LoadFilePV cr fs keyFilePath stateFilePath = loadFilePV cr fs keyFilePath stateFilePath True"

definition LoadFilePVEmptyState :: "crypto_env \<Rightarrow> files \<Rightarrow> string \<Rightarrow> string \<Rightarrow> FilePV result" where
  "LoadFilePVEmptyState cr fs keyFilePath stateFilePath = loadFilePV cr fs keyFilePath stateFilePath False"

text \<open>The generated key is an argument.\<close>

definition LoadOrGenFilePV :: "crypto_env \<Rightarrow> PrivKey \<Rightarrow> bool \<Rightarrow> bool \<Rightarrow> files \<Rightarrow> string \<Rightarrow> string \<Rightarrow> (files \<times> FilePV) result" where
  "LoadOrGenFilePV cr generated w1 w2 fs keyFilePath stateFilePath =
     (if fs keyFilePath \<noteq> None then map_out (Pair fs) (LoadFilePV cr fs keyFilePath stateFilePath)
      else bind_out (NewFilePV cr generated keyFilePath stateFilePath) (\<lambda>pv. map_out (\<lambda>fs. (fs, pv)) (PV_Save w1 w2 fs pv)))"

definition LSS_reset :: "FilePVLastSignState \<Rightarrow> FilePVLastSignState" where
  "LSS_reset lss = lss\<lparr>lss_Height := 0, lss_Round := 0, lss_Step := 0, lss_Signature := None, lss_SignBytes := None\<rparr>"

definition PV_Reset :: "bool \<Rightarrow> bool \<Rightarrow> files \<Rightarrow> FilePV \<Rightarrow> (files \<times> FilePV) result" where
  "PV_Reset w1 w2 fs pv =
     (let pv = pv\<lparr>pv_LastSignState := LSS_reset (pv_LastSignState pv)\<rparr> in map_out (\<lambda>fs. (fs, pv)) (PV_Save w1 w2 fs pv))"

section \<open>Signing\<close>

definition CheckHRS :: "FilePVLastSignState \<Rightarrow> int \<Rightarrow> int \<Rightarrow> int \<Rightarrow> bool result" where
  "CheckHRS lss height round step =
     (if lss_Height lss > height then Err (Errorf ''height regression'')
      else if lss_Height lss = height then
        if lss_Round lss > round then Err (Errorf ''round regression'')
        else if lss_Round lss = round then
          if lss_Step lss > step then Err (Errorf ''step regression'')
          else if lss_Step lss = step then
            if lss_SignBytes lss \<noteq> None then
              if lss_Signature lss = None then Panic ''pv: Signature is nil but SignBytes is not!''
              else Ok True
            else Err (Errorf ''no SignBytes found'')
          else Ok False
        else Ok False
      else Ok False)"

definition saveSigned :: "bool \<Rightarrow> files \<Rightarrow> FilePV \<Rightarrow> int \<Rightarrow> int \<Rightarrow> int \<Rightarrow> bytes \<Rightarrow> bytes \<Rightarrow> (files \<times> FilePV) result" where
  "saveSigned w fs pv height round step signBytes sig =
     (let pv = pv\<lparr>pv_LastSignState := (pv_LastSignState pv)\<lparr>lss_Height := height, lss_Round := round, lss_Step := step,
           lss_Signature := Some sig, lss_SignBytes := Some signBytes\<rparr>\<rparr>
      in map_out (\<lambda>fs. (fs, pv)) (LSS_Save w fs (pv_LastSignState pv)))"

definition checkVotesOnlyDifferByTimestamp :: "pv_env \<Rightarrow> bytes \<Rightarrow> bytes \<Rightarrow> (go_time \<times> bool) result" where
  "checkVotesOnlyDifferByTimestamp E lastSignBytes newSignBytes =
     bind_out (must (UnmarshalDelimited lastSignBytes (\<lambda>b. CanonicalVote_Unmarshal (StdTimeUnmarshal E) b zero_CanonicalVote))) (\<lambda>lastVote.
     bind_out (must (UnmarshalDelimited newSignBytes (\<lambda>b. CanonicalVote_Unmarshal (StdTimeUnmarshal E) b zero_CanonicalVote))) (\<lambda>newVote.
     let lastTime = cv_Timestamp lastVote
     in Ok (lastTime, EqualVote E (newVote\<lparr>cv_Timestamp := Now E\<rparr>) (lastVote\<lparr>cv_Timestamp := Now E\<rparr>))))"

definition checkProposalsOnlyDifferByTimestamp :: "pv_env \<Rightarrow> bytes \<Rightarrow> bytes \<Rightarrow> (go_time \<times> bool) result" where
  "checkProposalsOnlyDifferByTimestamp E lastSignBytes newSignBytes =
     bind_out (must (UnmarshalDelimited lastSignBytes (\<lambda>b. CanonicalProposal_Unmarshal (StdTimeUnmarshal E) b zero_CanonicalProposal))) (\<lambda>lastProposal.
     bind_out (must (UnmarshalDelimited newSignBytes (\<lambda>b. CanonicalProposal_Unmarshal (StdTimeUnmarshal E) b zero_CanonicalProposal))) (\<lambda>newProposal.
     let lastTime = cp_Timestamp lastProposal
     in Ok (lastTime, EqualProposal E (newProposal\<lparr>cp_Timestamp := Now E\<rparr>) (lastProposal\<lparr>cp_Timestamp := Now E\<rparr>))))"

text \<open>The result is the files, the validator and the message as they are left, with the error returned if any.\<close>

type_synonym 'm signed = "(files \<times> FilePV \<times> 'm \<times> go_error option) result"

definition returns :: "files \<Rightarrow> FilePV \<Rightarrow> 'm \<Rightarrow> 'a result \<Rightarrow> ('a \<Rightarrow> 'm signed) \<Rightarrow> 'm signed" where
  "returns fs pv m r f = (case r of Ok a \<Rightarrow> f a | Err err \<Rightarrow> Ok (fs, pv, m, Some err) | Panic s \<Rightarrow> Panic s)"

text \<open>The signature of the vote extension, of non-nil precommits only.\<close>

definition sign_extension :: "FilePV \<Rightarrow> bytes \<Rightarrow> Vote \<Rightarrow> bytes result" where
  "sign_extension pv chainID vote =
     (if v_Type vote = PrecommitType \<and> \<not> ProtoBlockIDIsNil (v_BlockID vote)
      then key_Sign (k_PrivKey (pv_Key pv)) (VoteExtensionSignBytes chainID vote)
      else if length (v_Extension vote) > 0 then Err (Errorf ''unexpected vote extension'')
      else Ok [])"

definition signVote :: "pv_env \<Rightarrow> bool \<Rightarrow> files \<Rightarrow> FilePV \<Rightarrow> bytes \<Rightarrow> Vote \<Rightarrow> Vote signed" where
  "signVote E w fs pv chainID vote =
     bind_out (voteToStep vote) (\<lambda>step.
     let height = v_Height vote; round = v_Round vote; lss = pv_LastSignState pv in
     returns fs pv vote (CheckHRS lss height round step) (\<lambda>sameHRS.
     bind_out (VoteSignBytes (pe_env E) chainID vote) (\<lambda>signBytes.
     returns fs pv vote (sign_extension pv chainID vote) (\<lambda>extSig.
     if sameHRS
     then if Some signBytes = lss_SignBytes lss
          then Ok (fs, pv, vote\<lparr>v_Signature := the (lss_Signature lss), v_ExtensionSignature := extSig\<rparr>, None)
          else bind_out (checkVotesOnlyDifferByTimestamp E (the (lss_SignBytes lss)) signBytes) (\<lambda>(timestamp, ok).
               if ok then Ok (fs, pv, vote\<lparr>v_Timestamp := timestamp, v_Signature := the (lss_Signature lss),
                                            v_ExtensionSignature := extSig\<rparr>, None)
               else Ok (fs, pv, vote\<lparr>v_ExtensionSignature := extSig\<rparr>, Some (Errorf ''conflicting data'')))
     else returns fs pv vote (key_Sign (k_PrivKey (pv_Key pv)) signBytes) (\<lambda>sig.
          map_out (\<lambda>(fs, pv). (fs, pv, vote\<lparr>v_Signature := sig, v_ExtensionSignature := extSig\<rparr>, None))
            (saveSigned w fs pv height round step signBytes sig))))))"

definition signProposal :: "pv_env \<Rightarrow> bool \<Rightarrow> files \<Rightarrow> FilePV \<Rightarrow> bytes \<Rightarrow> Proposal \<Rightarrow> Proposal signed" where
  "signProposal E w fs pv chainID proposal =
     (let height = p_Height proposal; round = p_Round proposal; step = stepPropose; lss = pv_LastSignState pv in
     returns fs pv proposal (CheckHRS lss height round step) (\<lambda>sameHRS.
     bind_out (ProposalSignBytes (pe_env E) chainID proposal) (\<lambda>signBytes.
     if sameHRS
     then if Some signBytes = lss_SignBytes lss
          then Ok (fs, pv, proposal\<lparr>p_Signature := the (lss_Signature lss)\<rparr>, None)
          else bind_out (checkProposalsOnlyDifferByTimestamp E (the (lss_SignBytes lss)) signBytes) (\<lambda>(timestamp, ok).
               if ok then Ok (fs, pv, proposal\<lparr>p_Timestamp := timestamp, p_Signature := the (lss_Signature lss)\<rparr>, None)
               else Ok (fs, pv, proposal, Some (Errorf ''conflicting data'')))
     else returns fs pv proposal (key_Sign (k_PrivKey (pv_Key pv)) signBytes) (\<lambda>sig.
          map_out (\<lambda>(fs, pv). (fs, pv, proposal\<lparr>p_Signature := sig\<rparr>, None))
            (saveSigned w fs pv height round step signBytes sig)))))"

definition SignVote :: "pv_env \<Rightarrow> bool \<Rightarrow> files \<Rightarrow> FilePV \<Rightarrow> bytes \<Rightarrow> Vote \<Rightarrow> Vote signed" where
  "SignVote E w fs pv chainID vote =
     map_out (\<lambda>(fs, pv, vote, err). (fs, pv, vote, map_option (Wrapf ''error signing vote'') err)) (signVote E w fs pv chainID vote)"

definition SignProposal :: "pv_env \<Rightarrow> bool \<Rightarrow> files \<Rightarrow> FilePV \<Rightarrow> bytes \<Rightarrow> Proposal \<Rightarrow> Proposal signed" where
  "SignProposal E w fs pv chainID proposal =
     map_out (\<lambda>(fs, pv, proposal, err). (fs, pv, proposal, map_option (Wrapf ''error signing proposal'') err))
       (signProposal E w fs pv chainID proposal)"

section \<open>Raw bytes\<close>

definition RawBytesSignBytesPrefix :: bytes where
  "RawBytesSignBytesPrefix = map (\<lambda>c. of_nat (of_char c)) ''COMET::RAW_BYTES::SIGN''"

definition SignRawBytesRequest_Marshal :: "bytes \<Rightarrow> bytes \<Rightarrow> bytes \<Rightarrow> bytes" where
  "SignRawBytesRequest_Marshal chainID rawBytes uniqueID = pb_bytes 0x0a chainID @ pb_bytes 0x12 rawBytes @ pb_bytes 0x1a uniqueID"

definition RawBytesMessageSignBytes :: "bytes \<Rightarrow> bytes \<Rightarrow> bytes \<Rightarrow> bytes result" where
  "RawBytesMessageSignBytes chainID uniqueID rawBytes =
     (if chainID = [] then Err (Errorf ''chainID cannot be empty'')
      else if uniqueID = [] then Err (Errorf ''uniqueID cannot be empty'')
      else if length rawBytes = 0 then Err (Errorf ''rawBytes cannot be empty'')
      else Ok (RawBytesSignBytesPrefix @ MarshalDelimited (SignRawBytesRequest_Marshal chainID rawBytes uniqueID)))"

definition SignRawBytes :: "FilePV \<Rightarrow> bytes \<Rightarrow> bytes \<Rightarrow> bytes \<Rightarrow> bytes result" where
  "SignRawBytes pv chainID uniqueID rawBytes =
     bind_out (map_err (Wrapf ''error signing raw bytes'') (RawBytesMessageSignBytes chainID uniqueID rawBytes)) (\<lambda>signBytes.
     key_Sign (k_PrivKey (pv_Key pv)) signBytes)"

end
