(* ===== verification/PrivValProps.thy ===== *)
theory PrivValProps
  imports PrivVal "HOL-Library.Product_Lexorder"
begin

text \<open>
  A signer over time: every request, with crashes and restarts, keeps a ledger with one signed byte string for
  each slot of a height, a round and a step.
\<close>

section \<open>The slots of a signer\<close>

text \<open>Everything signed for consensus has a slot: its height, its round and its step.\<close>

datatype message = VoteMsg bytes Vote | ProposalMsg bytes Proposal

fun msg_slot :: "message \<Rightarrow> int \<times> int \<times> int" where
  "msg_slot (VoteMsg c v) = (v_Height v, v_Round v, if v_Type v = PrevoteType then stepPrevote else stepPrecommit)"
| "msg_slot (ProposalMsg c p) = (p_Height p, p_Round p, stepPropose)"

fun msg_bytes :: "env \<Rightarrow> message \<Rightarrow> bytes result" where
  "msg_bytes e (VoteMsg c v) = VoteSignBytes e c v"
| "msg_bytes e (ProposalMsg c p) = ProposalSignBytes e c p"

fun msg_sig :: "message \<Rightarrow> bytes" where
  "msg_sig (VoteMsg c v) = v_Signature v"
| "msg_sig (ProposalMsg c p) = p_Signature p"

text \<open>A message of Go values: in the range of their types, a vote or a proposal, its sign bytes a slice.\<close>

fun msg_go :: "env \<Rightarrow> message \<Rightarrow> bool" where
  "msg_go e (VoteMsg c v) \<longleftrightarrow> vote_in_range v \<and> IsVoteTypeValid (v_Type v) \<and>
     (\<forall>bz. VoteSignBytes e c v = Ok bz \<longrightarrow> int (length bz) < MaxInt64)"
| "msg_go e (ProposalMsg c p) \<longleftrightarrow> proposal_in_range p \<and>
     (\<forall>bz. ProposalSignBytes e c p = Ok bz \<longrightarrow> int (length bz) < MaxInt64)"

fun lss_slot :: "FilePVLastSignState \<Rightarrow> int \<times> int \<times> int" where
  "lss_slot lss = (lss_Height lss, lss_Round lss, lss_Step lss)"

declare lss_slot.simps [simp del]

lemma CheckHRS_Ok:
  "CheckHRS lss h r s = Ok b \<longleftrightarrow> (lss_slot lss < (h, r, s) \<and> \<not> b) \<or>
     (lss_slot lss = (h, r, s) \<and> lss_SignBytes lss \<noteq> None \<and> lss_Signature lss \<noteq> None \<and> b)"
  by (auto simp: CheckHRS_def lss_slot.simps)

text \<open>What the libraries promise.\<close>

definition pv_lib_ok :: "pv_env \<Rightarrow> bool" where
  "pv_lib_ok E \<longleftrightarrow> time_decodes (pe_env E) (StdTimeUnmarshal E) \<and> (\<forall>a b. EqualVote E a b \<longleftrightarrow> a = b) \<and> (\<forall>a b. EqualProposal E a b \<longleftrightarrow> a = b)"

text \<open>The last signature is that of a message of the slot.\<close>

definition last_signed :: "pv_env \<Rightarrow> PrivKey \<Rightarrow> FilePVLastSignState \<Rightarrow> bool" where
  "last_signed E key lss \<longleftrightarrow> (\<forall>bz. lss_SignBytes lss = Some bz \<longrightarrow>
     (\<exists>m. msg_go (pe_env E) m \<and> msg_slot m = lss_slot lss \<and> msg_bytes (pe_env E) m = Ok bz) \<and>
     (\<forall>sig. lss_Signature lss = Some sig \<longrightarrow> key_Sign key bz = Ok sig))"

lemma sign_bytes_canonical:
  assumes "VoteSignBytes e c v = Ok bz" "CanonicalizeVote c v = CanonicalizeVote d w"
  shows "VoteSignBytes e d w = Ok bz"
  using assms by (simp add: VoteSignBytes_def)

lemma ProposalSignBytes_canonical:
  assumes "ProposalSignBytes e c p = Ok bz" "CanonicalizeProposal c p = CanonicalizeProposal d q"
  shows "ProposalSignBytes e d q = Ok bz"
proof -
  obtain b where b: "CanonicalizeBlockID (p_BlockID p) = Ok b" using assms(1) by (auto simp: ProposalSignBytes_def)
  then have "CanonicalizeBlockID (p_BlockID q) = Ok b \<and> c = d \<and> p_Height p = p_Height q \<and> p_Round p = p_Round q \<and> p_POLRound p = p_POLRound q \<and>
      p_Timestamp p = p_Timestamp q"
    using assms(2) by (cases "CanonicalizeBlockID (p_BlockID q)") (auto simp: CanonicalizeProposal_def)
  then show ?thesis using assms(1) b by (simp add: ProposalSignBytes_def CanonicalProposal_Marshal_def)
qed

lemma vote_resign:
  assumes "pv_lib_ok E" "msg_go (pe_env E) m" "msg_bytes (pe_env E) m = Ok old" "msg_go (pe_env E) (VoteMsg c v)" "msg_slot m = msg_slot (VoteMsg c v)"
    "VoteSignBytes (pe_env E) c v = Ok new" "checkVotesOnlyDifferByTimestamp E old new = Ok (t, True)"
  shows "VoteSignBytes (pe_env E) c (v\<lparr>v_Timestamp := t\<rparr>) = Ok old"
proof (cases m)
  case (VoteMsg d w)
  have dec: "UnmarshalDelimited bz (\<lambda>b. CanonicalVote_Unmarshal (StdTimeUnmarshal E) b zero_CanonicalVote) = CanonicalizeVote d v"
    if "VoteSignBytes (pe_env E) d v = Ok bz" "msg_go (pe_env E) (VoteMsg d v)" for d v bz
    using vote_sign_bytes_decode [OF that(1)] assms(1) that by (simp add: pv_lib_ok_def)
  obtain cw where cw: "CanonicalizeVote d w = Ok cw" using assms(3) VoteMsg by (auto simp: VoteSignBytes_def)
  obtain cv where cv: "CanonicalizeVote c v = Ok cv" using assms(6) by (auto simp: VoteSignBytes_def)
  have "t = cv_Timestamp cw \<and> cv\<lparr>cv_Timestamp := Now E\<rparr> = cw\<lparr>cv_Timestamp := Now E\<rparr>"
    using assms(1-4,6,7) VoteMsg dec [of d w old] dec [of c v new] cw cv
    by (auto simp: checkVotesOnlyDifferByTimestamp_def pv_lib_ok_def Let_def)
  then have "CanonicalizeVote c (v\<lparr>v_Timestamp := t\<rparr>) = CanonicalizeVote d w"
    using cw cv by (cases cw; cases cv) (auto simp: CanonicalizeVote_def)
  then show ?thesis using sign_bytes_canonical [of "pe_env E" d w old c "v\<lparr>v_Timestamp := t\<rparr>"] assms(3) VoteMsg by simp
next
  case (ProposalMsg d p)
  then show ?thesis using assms(5) by (simp split: if_splits)
qed

lemma proposal_resign:
  assumes "pv_lib_ok E" "msg_go (pe_env E) m" "msg_bytes (pe_env E) m = Ok old" "msg_go (pe_env E) (ProposalMsg c p)" "msg_slot m = msg_slot (ProposalMsg c p)"
    "ProposalSignBytes (pe_env E) c p = Ok new" "checkProposalsOnlyDifferByTimestamp E old new = Ok (t, True)"
  shows "ProposalSignBytes (pe_env E) c (p\<lparr>p_Timestamp := t\<rparr>) = Ok old"
proof (cases m)
  case (ProposalMsg d q)
  have dec: "UnmarshalDelimited bz (\<lambda>b. CanonicalProposal_Unmarshal (StdTimeUnmarshal E) b zero_CanonicalProposal) = CanonicalizeProposal d p"
    if "ProposalSignBytes (pe_env E) d p = Ok bz" "msg_go (pe_env E) (ProposalMsg d p)" for d p bz
    using proposal_sign_bytes_decode [OF that(1)] assms(1) that by (simp add: pv_lib_ok_def)
  obtain cw where cw: "CanonicalizeProposal d q = Ok cw" using assms(3) ProposalMsg by (auto simp: ProposalSignBytes_def CanonicalizeProposal_def)
  obtain cv where cv: "CanonicalizeProposal c p = Ok cv" using assms(6) by (auto simp: ProposalSignBytes_def CanonicalizeProposal_def)
  have "t = cp_Timestamp cw \<and> cv\<lparr>cp_Timestamp := Now E\<rparr> = cw\<lparr>cp_Timestamp := Now E\<rparr>"
    using assms(1-4,6,7) ProposalMsg dec [of d q old] dec [of c p new] cw cv
    by (auto simp: checkProposalsOnlyDifferByTimestamp_def pv_lib_ok_def Let_def)
  then have "CanonicalizeProposal d q = CanonicalizeProposal c (p\<lparr>p_Timestamp := t\<rparr>)"
    using cw cv by (cases cw; cases cv) (auto simp: CanonicalizeProposal_def)
  then show ?thesis using ProposalSignBytes_canonical [of "pe_env E" d q old c "p\<lparr>p_Timestamp := t\<rparr>"] assms(3) ProposalMsg by simp
next
  case (VoteMsg d v)
  then show ?thesis using assms(5) by (simp split: if_splits)
qed

section \<open>One request\<close>

text \<open>
  A request either releases a message of the last slot again, or signs a message of a later slot and saves
  it first, or fails and leaves the validator and its files as they are.
\<close>

definition resigned :: "pv_env \<Rightarrow> FilePV \<Rightarrow> message \<Rightarrow> bool" where
  "resigned E pv m \<longleftrightarrow> msg_go (pe_env E) m \<and> msg_slot m = lss_slot (pv_LastSignState pv) \<and>
     (\<exists>bz. lss_SignBytes (pv_LastSignState pv) = Some bz \<and> msg_bytes (pe_env E) m = Ok bz \<and> lss_Signature (pv_LastSignState pv) = Some (msg_sig m))"

definition newly_signed :: "pv_env \<Rightarrow> files \<Rightarrow> FilePV \<Rightarrow> message \<Rightarrow> files \<Rightarrow> FilePV \<Rightarrow> bool" where
  "newly_signed E fs pv m fs' pv' \<longleftrightarrow> lss_slot (pv_LastSignState pv) < msg_slot m \<and> msg_go (pe_env E) m \<and>
     (\<exists>bz. msg_bytes (pe_env E) m = Ok bz \<and> key_Sign (k_PrivKey (pv_Key pv)) bz = Ok (msg_sig m) \<and>
        pv' = pv\<lparr>pv_LastSignState := (pv_LastSignState pv)\<lparr>lss_Height := fst (msg_slot m), lss_Round := fst (snd (msg_slot m)),
          lss_Step := snd (snd (msg_slot m)), lss_Signature := Some (msg_sig m), lss_SignBytes := Some bz\<rparr>\<rparr> \<and>
        fs' = fs(lss_filePath (pv_LastSignState pv) \<mapsto> SavedState (fst (msg_slot m)) (fst (snd (msg_slot m))) (snd (snd (msg_slot m)))
          (omitempty (Some (msg_sig m))) (omitempty (Some bz))))"

definition request_outcome :: "pv_env \<Rightarrow> files \<Rightarrow> FilePV \<Rightarrow> files \<Rightarrow> FilePV \<Rightarrow> message \<Rightarrow> go_error option \<Rightarrow> bool" where
  "request_outcome E fs pv fs' pv' m err \<longleftrightarrow>
     (if err = None then fs' = fs \<and> pv' = pv \<and> resigned E pv m \<or> newly_signed E fs pv m fs' pv' else fs' = fs \<and> pv' = pv)"

lemma returns_Ok:
  "returns fs pv m r f = Ok x \<longleftrightarrow> (\<exists>a. r = Ok a \<and> f a = Ok x) \<or> (\<exists>err. r = Err err \<and> x = (fs, pv, m, Some err))"
  by (cases r) (auto simp: returns_def)

lemma saveSigned_Ok:
  "saveSigned w fs pv h r s bz sig = Ok (fs', pv') \<Longrightarrow>
     pv' = pv\<lparr>pv_LastSignState := (pv_LastSignState pv)\<lparr>lss_Height := h, lss_Round := r, lss_Step := s, lss_Signature := Some sig, lss_SignBytes := Some bz\<rparr>\<rparr> \<and>
     fs' = fs(lss_filePath (pv_LastSignState pv) \<mapsto> SavedState h r s (omitempty (Some sig)) (omitempty (Some bz)))"
  by (auto simp: saveSigned_def LSS_Save_def Let_def split: if_splits)

lemma VoteSignBytes_unsigned [simp]:
  "VoteSignBytes e c (v\<lparr>v_Signature := s\<rparr>) = VoteSignBytes e c v" "VoteSignBytes e c (v\<lparr>v_ExtensionSignature := x\<rparr>) = VoteSignBytes e c v"
  by (simp_all add: VoteSignBytes_def CanonicalizeVote_def)

lemma ProposalSignBytes_unsigned [simp]: "ProposalSignBytes e c (p\<lparr>p_Signature := s\<rparr>) = ProposalSignBytes e c p"
  by (simp add: ProposalSignBytes_def CanonicalProposal_Marshal_def)

lemma voteToStep_slot: "voteToStep v = Ok s \<Longrightarrow> msg_slot (VoteMsg c v) = (v_Height v, v_Round v, s)"
  by (auto simp: voteToStep_def split: if_splits)

lemma signVote_outcome:
  assumes "signVote E w fs pv c v = Ok (fs', pv', v', err)" "pv_lib_ok E" "last_signed E key (pv_LastSignState pv)" "msg_go (pe_env E) (VoteMsg c v)"
  shows "request_outcome E fs pv fs' pv' (VoteMsg c v') err"
proof -
  let ?lss = "pv_LastSignState pv"
  obtain s where s: "voteToStep v = Ok s" using assms(1) by (auto simp: signVote_def)
  note slot = voteToStep_slot [OF s, of c]
  show ?thesis
  proof (cases err)
    case (Some e)
    then show ?thesis using assms(1) by (auto simp: signVote_def Let_def request_outcome_def returns_Ok split: if_splits)
  next
    case None
    obtain same bz ext where b: "CheckHRS ?lss (v_Height v) (v_Round v) s = Ok same" "VoteSignBytes (pe_env E) c v = Ok bz" "sign_extension pv c v = Ok ext"
      using assms(1) s None by (auto simp: signVote_def Let_def returns_Ok)
    show ?thesis
    proof (cases same)
      case False
      then obtain sig where sig: "key_Sign (k_PrivKey (pv_Key pv)) bz = Ok sig" "saveSigned w fs pv (v_Height v) (v_Round v) s bz sig = Ok (fs', pv')"
          "v' = v\<lparr>v_Signature := sig, v_ExtensionSignature := ext\<rparr>"
        using assms(1) s b None by (auto simp: signVote_def Let_def returns_Ok)
      have "lss_slot ?lss < msg_slot (VoteMsg c v)" using b(1) False slot by (simp add: CheckHRS_Ok)
      then have "newly_signed E fs pv (VoteMsg c v') fs' pv'"
        using saveSigned_Ok [OF sig(2)] sig b(2) slot assms(4) by (simp add: newly_signed_def vote_in_range_def del: fun_upd_apply)
      then show ?thesis using None by (simp add: request_outcome_def)
    next
      case True
      obtain old osig where old: "lss_SignBytes ?lss = Some old" "lss_Signature ?lss = Some osig" "lss_slot ?lss = msg_slot (VoteMsg c v)"
        using b(1) True slot by (auto simp: CheckHRS_Ok not_None_eq)
      obtain m where m: "msg_go (pe_env E) m" "msg_slot m = msg_slot (VoteMsg c v)" "msg_bytes (pe_env E) m = Ok old"
        using assms(3) old by (auto simp: last_signed_def)
      consider "bz = old" "v' = v\<lparr>v_Signature := osig, v_ExtensionSignature := ext\<rparr>" "fs' = fs" "pv' = pv"
        | t where "checkVotesOnlyDifferByTimestamp E old bz = Ok (t, True)" "fs' = fs" "pv' = pv"
            "v' = v\<lparr>v_Timestamp := t, v_Signature := osig, v_ExtensionSignature := ext\<rparr>"
        using assms(1) s b True None old(1,2) by (auto simp: signVote_def Let_def returns_Ok split: if_splits)
      then have "resigned E pv (VoteMsg c v') \<and> fs' = fs \<and> pv' = pv"
      proof cases
        case 1
        then show ?thesis using b(2) old assms(4) by (simp add: resigned_def vote_in_range_def)
      next
        case 2
        have "int (length old) < MaxInt64" using m(1,3) by (cases m) auto
        then show ?thesis using 2 vote_resign [OF assms(2) m(1,3) assms(4) m(2) b(2) 2(1)] old assms(4) by (simp add: resigned_def vote_in_range_def)
      qed
      then show ?thesis using None by (simp add: request_outcome_def)
    qed
  qed
qed

lemma signProposal_outcome:
  assumes "signProposal E w fs pv c p = Ok (fs', pv', p', err)" "pv_lib_ok E" "last_signed E key (pv_LastSignState pv)" "msg_go (pe_env E) (ProposalMsg c p)"
  shows "request_outcome E fs pv fs' pv' (ProposalMsg c p') err"
proof (cases err)
  case (Some e)
  then show ?thesis using assms(1) by (auto simp: signProposal_def Let_def request_outcome_def returns_Ok split: if_splits)
next
  case None
  let ?lss = "pv_LastSignState pv"
  obtain same bz where b: "CheckHRS ?lss (p_Height p) (p_Round p) stepPropose = Ok same" "ProposalSignBytes (pe_env E) c p = Ok bz"
    using assms(1) None by (auto simp: signProposal_def Let_def returns_Ok)
  show ?thesis
  proof (cases same)
    case False
    then obtain sig where sig: "key_Sign (k_PrivKey (pv_Key pv)) bz = Ok sig" "saveSigned w fs pv (p_Height p) (p_Round p) stepPropose bz sig = Ok (fs', pv')"
        "p' = p\<lparr>p_Signature := sig\<rparr>"
      using assms(1) b None by (auto simp: signProposal_def Let_def returns_Ok)
    have "lss_slot ?lss < msg_slot (ProposalMsg c p)" using b(1) False by (simp add: CheckHRS_Ok)
    then have "newly_signed E fs pv (ProposalMsg c p') fs' pv'"
      using saveSigned_Ok [OF sig(2)] sig b(2) assms(4) by (simp add: newly_signed_def proposal_in_range_def del: fun_upd_apply)
    then show ?thesis using None by (simp add: request_outcome_def)
  next
    case True
    obtain old osig where old: "lss_SignBytes ?lss = Some old" "lss_Signature ?lss = Some osig" "lss_slot ?lss = msg_slot (ProposalMsg c p)"
      using b(1) True by (auto simp: CheckHRS_Ok not_None_eq)
    obtain m where m: "msg_go (pe_env E) m" "msg_slot m = msg_slot (ProposalMsg c p)" "msg_bytes (pe_env E) m = Ok old"
      using assms(3) old by (auto simp: last_signed_def)
    consider "bz = old" "p' = p\<lparr>p_Signature := osig\<rparr>" "fs' = fs" "pv' = pv"
      | t where "checkProposalsOnlyDifferByTimestamp E old bz = Ok (t, True)" "fs' = fs" "pv' = pv" "p' = p\<lparr>p_Timestamp := t, p_Signature := osig\<rparr>"
      using assms(1) b True None old(1,2) by (auto simp: signProposal_def Let_def returns_Ok split: if_splits)
    then have "resigned E pv (ProposalMsg c p') \<and> fs' = fs \<and> pv' = pv"
    proof cases
      case 1
      then show ?thesis using b(2) old assms(4) by (simp add: resigned_def proposal_in_range_def)
    next
      case 2
      have "int (length old) < MaxInt64" using m(1,3) by (cases m) auto
      then show ?thesis using 2 proposal_resign [OF assms(2) m(1,3) assms(4) m(2) b(2) 2(1)] old assms(4) by (simp add: resigned_def proposal_in_range_def)
    qed
    then show ?thesis using None by (simp add: request_outcome_def)
  qed
qed

section \<open>A signer over time\<close>

text \<open>
  A signer serves requests, and may crash at any time: before a request, or in one after the signature has
  been saved and before it is released. A panic ends it too. It starts again from its files.
\<close>

record signer =
  sg_files :: files
  sg_running :: "FilePV option"
  sg_released :: "message list"

inductive pv_step :: "pv_env \<Rightarrow> string \<Rightarrow> string \<Rightarrow> signer \<Rightarrow> signer \<Rightarrow> bool" for E keyPath statePath where
  vote: "sg_running s = Some pv \<Longrightarrow> msg_go (pe_env E) (VoteMsg c v) \<Longrightarrow> SignVote E w (sg_files s) pv c v = Ok (fs, pv', v', err) \<Longrightarrow>
    pv_step E keyPath statePath s
      \<lparr>sg_files = fs, sg_running = Some pv', sg_released = (if err = None then [VoteMsg c v'] else []) @ sg_released s\<rparr>"
| proposal: "sg_running s = Some pv \<Longrightarrow> msg_go (pe_env E) (ProposalMsg c p) \<Longrightarrow> SignProposal E w (sg_files s) pv c p = Ok (fs, pv', p', err) \<Longrightarrow>
    pv_step E keyPath statePath s
      \<lparr>sg_files = fs, sg_running = Some pv', sg_released = (if err = None then [ProposalMsg c p'] else []) @ sg_released s\<rparr>"
| vote_lost: "sg_running s = Some pv \<Longrightarrow> msg_go (pe_env E) (VoteMsg c v) \<Longrightarrow> SignVote E w (sg_files s) pv c v = Ok (fs, pv', v', err) \<Longrightarrow>
    pv_step E keyPath statePath s (s\<lparr>sg_files := fs, sg_running := None\<rparr>)"
| proposal_lost: "sg_running s = Some pv \<Longrightarrow> msg_go (pe_env E) (ProposalMsg c p) \<Longrightarrow> SignProposal E w (sg_files s) pv c p = Ok (fs, pv', p', err) \<Longrightarrow>
    pv_step E keyPath statePath s (s\<lparr>sg_files := fs, sg_running := None\<rparr>)"
| crash: "pv_step E keyPath statePath s (s\<lparr>sg_running := None\<rparr>)"
| restart: "sg_running s = None \<Longrightarrow> LoadFilePV (crypto (pe_env E)) (sg_files s) keyPath statePath = Ok pv \<Longrightarrow>
    pv_step E keyPath statePath s (s\<lparr>sg_running := Some pv\<rparr>)"

inductive pv_steps :: "pv_env \<Rightarrow> string \<Rightarrow> string \<Rightarrow> signer \<Rightarrow> signer \<Rightarrow> bool" for E keyPath statePath where
  none: "pv_steps E keyPath statePath s s"
| more: "pv_steps E keyPath statePath s s' \<Longrightarrow> pv_step E keyPath statePath s' s'' \<Longrightarrow> pv_steps E keyPath statePath s s''"

text \<open>A signer that has been set up with a new key, and what it may become.\<close>

definition signer_of :: "pv_env \<Rightarrow> PrivKey \<Rightarrow> signer \<Rightarrow> bool" where
  "signer_of E key s \<longleftrightarrow> (\<exists>keyPath statePath pv fs fs'. keyPath \<noteq> statePath \<and> fs keyPath = None \<and>
     LoadOrGenFilePV (crypto (pe_env E)) key True True fs keyPath statePath = Ok (fs', pv) \<and>
     pv_steps E keyPath statePath \<lparr>sg_files = fs', sg_running = Some pv, sg_released = []\<rparr> s)"

text \<open>
  The abstract signer is a ledger: for each slot, the one byte string signed for it. The messages released
  are signatures of what the ledger says, and its last slot is that of the signer's state.
\<close>

definition in_ledger :: "pv_env \<Rightarrow> PrivKey \<Rightarrow> (int \<times> int \<times> int \<rightharpoonup> bytes) \<Rightarrow> message \<Rightarrow> bool" where
  "in_ledger E key L m \<longleftrightarrow> msg_go (pe_env E) m \<and> (\<exists>b. L (msg_slot m) = Some b \<and> msg_bytes (pe_env E) m = Ok b \<and> key_Sign key b = Ok (msg_sig m))"

definition released_ok :: "pv_env \<Rightarrow> PrivKey \<Rightarrow> int \<times> int \<times> int \<Rightarrow> bytes option \<Rightarrow> message list \<Rightarrow> bool" where
  "released_ok E key slot bz ms \<longleftrightarrow>
     (\<exists>L. list_all (in_ledger E key L) ms \<and> (\<forall>x. L x \<noteq> None \<longrightarrow> x \<le> slot) \<and> (L slot \<noteq> None \<longrightarrow> L slot = bz))"

definition signer_inv :: "pv_env \<Rightarrow> string \<Rightarrow> string \<Rightarrow> PrivKey \<Rightarrow> signer \<Rightarrow> bool" where
  "signer_inv E keyPath statePath key s \<longleftrightarrow> keyPath \<noteq> statePath \<and> sg_files s keyPath = Some (SavedKey key) \<and>
     (\<exists>lss. lss_filePath lss = statePath \<and> last_signed E key lss \<and>
        sg_files s statePath = Some (SavedState (lss_Height lss) (lss_Round lss) (lss_Step lss) (omitempty (lss_Signature lss)) (lss_SignBytes lss)) \<and>
        (\<forall>pv. sg_running s = Some pv \<longrightarrow> k_PrivKey (pv_Key pv) = key \<and> pv_LastSignState pv = lss) \<and>
        released_ok E key (lss_slot lss) (lss_SignBytes lss) (sg_released s))"

lemma msg_bytes_nonempty: "msg_bytes e m = Ok bz \<Longrightarrow> omitempty (Some bz) = Some bz"
proof -
  have "uvarint n \<noteq> []" for n by (subst uvarint.simps) simp
  moreover assume "msg_bytes e m = Ok bz"
  ultimately show ?thesis by (cases m) (auto simp: omitempty_def MarshalDelimited_def elim!: VoteSignBytes_Ok ProposalSignBytes_Ok)
qed

lemma omitempty_idem [simp]: "omitempty (omitempty b) = omitempty b"
  by (simp add: omitempty_def)

lemma last_signed_omitempty:
  "last_signed E key lss \<Longrightarrow> last_signed E key (lss\<lparr>lss_Signature := omitempty (lss_Signature lss)\<rparr>)"
  by (auto simp: last_signed_def omitempty_def lss_slot.simps split: if_splits)

lemma in_ledger_upd:
  "list_all (in_ledger E key L) ms \<Longrightarrow> L x = None \<or> L x = Some b \<Longrightarrow> list_all (in_ledger E key (L(x \<mapsto> b))) ms"
  by (induction ms) (auto simp: in_ledger_def)

lemma released_resign:
  assumes "released_ok E key slot (Some b) ms" "msg_go (pe_env E) m" "msg_slot m = slot" "msg_bytes (pe_env E) m = Ok b" "key_Sign key b = Ok (msg_sig m)"
  shows "released_ok E key slot (Some b) (m # ms)"
proof -
  obtain L where L: "list_all (in_ledger E key L) ms" "\<forall>x. L x \<noteq> None \<longrightarrow> x \<le> slot" "L slot = None \<or> L slot = Some b"
    using assms(1) by (auto simp: released_ok_def)
  have "list_all (in_ledger E key (L(slot \<mapsto> b))) (m # ms)"
    using in_ledger_upd [OF L(1,3)] assms(2-5) by (simp add: in_ledger_def)
  then show ?thesis unfolding released_ok_def using L(2) by (intro exI [of _ "L(slot \<mapsto> b)"]) simp
qed

lemma released_new:
  assumes "released_ok E key slot bz ms" "msg_go (pe_env E) m" "slot < msg_slot m" "msg_bytes (pe_env E) m = Ok b" "key_Sign key b = Ok (msg_sig m)"
  shows "released_ok E key (msg_slot m) (Some b) (m # ms)"
proof -
  obtain L where L: "list_all (in_ledger E key L) ms" "\<And>x. L x \<noteq> None \<Longrightarrow> x \<le> slot" using assms(1) by (auto simp: released_ok_def)
  have "L (msg_slot m) = None" using L(2) assms(3) not_less by blast
  then have "list_all (in_ledger E key (L(msg_slot m \<mapsto> b))) (m # ms)"
    using in_ledger_upd [OF L(1)] assms(2,4,5) by (simp add: in_ledger_def)
  moreover have "x \<le> msg_slot m" if "(L(msg_slot m \<mapsto> b)) x \<noteq> None" for x
    using that L(2) [of x] assms(3) by (cases "x = msg_slot m") auto
  ultimately show ?thesis unfolding released_ok_def by (intro exI [of _ "L(msg_slot m \<mapsto> b)"]) simp
qed

lemma request_inv:
  assumes inv: "signer_inv E kp sp key s" and pv: "sg_running s = Some pv" and out: "request_outcome E (sg_files s) pv fs pv' m err"
  shows "signer_inv E kp sp key \<lparr>sg_files = fs, sg_running = Some pv', sg_released = (if err = None then [m] else []) @ sg_released s\<rparr>"
proof -
  define lss where "lss = pv_LastSignState pv"
  have kp: "kp \<noteq> sp" "sg_files s kp = Some (SavedKey key)"
    and lss: "lss_filePath lss = sp" "last_signed E key lss" "k_PrivKey (pv_Key pv) = key"
      "sg_files s sp = Some (SavedState (lss_Height lss) (lss_Round lss) (lss_Step lss) (omitempty (lss_Signature lss)) (lss_SignBytes lss))"
    and rel: "released_ok E key (lss_slot lss) (lss_SignBytes lss) (sg_released s)"
    using inv pv by (auto simp: signer_inv_def lss_def)
  consider (re) "err = None" "fs = sg_files s" "pv' = pv" "resigned E pv m" | (new) "err = None" "newly_signed E (sg_files s) pv m fs pv'"
    | (err) "err \<noteq> None" "fs = sg_files s" "pv' = pv"
    using out by (auto simp: request_outcome_def split: if_splits)
  then show ?thesis
  proof cases
    case re
    then obtain b where b: "msg_go (pe_env E) m" "msg_slot m = lss_slot lss" "lss_SignBytes lss = Some b" "msg_bytes (pe_env E) m = Ok b" "lss_Signature lss = Some (msg_sig m)"
      by (auto simp: resigned_def lss_def)
    then have "key_Sign key b = Ok (msg_sig m)" using lss(2) by (simp add: last_signed_def)
    then have "released_ok E key (lss_slot lss) (lss_SignBytes lss) (m # sg_released s)" using released_resign rel b by simp
    then show ?thesis using re kp lss by (auto simp: signer_inv_def lss_def)
  next
    case new
    define lss' where "lss' = lss\<lparr>lss_Height := fst (msg_slot m), lss_Round := fst (snd (msg_slot m)),
          lss_Step := snd (snd (msg_slot m)), lss_Signature := Some (msg_sig m)\<rparr>"
    obtain b where b: "lss_slot lss < msg_slot m" "msg_go (pe_env E) m" "msg_bytes (pe_env E) m = Ok b" "key_Sign key b = Ok (msg_sig m)"
        "pv' = pv\<lparr>pv_LastSignState := lss'\<lparr>lss_SignBytes := Some b\<rparr>\<rparr>"
        "fs = (sg_files s)(sp \<mapsto> SavedState (fst (msg_slot m)) (fst (snd (msg_slot m))) (snd (snd (msg_slot m))) (omitempty (Some (msg_sig m))) (omitempty (Some b)))"
      using new(2) lss(1,3) unfolding newly_signed_def lss_def [symmetric] lss'_def by auto
    have slot: "lss_slot (lss'\<lparr>lss_SignBytes := Some b\<rparr>) = msg_slot m" by (simp add: lss'_def lss_slot.simps)
    have "last_signed E key (lss'\<lparr>lss_SignBytes := Some b\<rparr>)"
      using b slot unfolding last_signed_def by (auto simp: lss'_def)
    moreover have "released_ok E key (msg_slot m) (Some b) (m # sg_released s)" using released_new [OF rel b(2,1,3,4)] .
    ultimately show ?thesis
      using new(1) kp lss(1,3) b(5,6) slot msg_bytes_nonempty [OF b(3)]
      unfolding signer_inv_def by (auto simp: lss'_def)
  next
    case err
    then show ?thesis using kp lss rel by (auto simp: signer_inv_def lss_def)
  qed
qed

lemma SignVote_outcome:
  assumes "signer_inv E kp sp key s" "pv_lib_ok E" "sg_running s = Some pv" "msg_go (pe_env E) (VoteMsg c v)"
    "SignVote E w (sg_files s) pv c v = Ok (fs, pv', v', err)"
  shows "request_outcome E (sg_files s) pv fs pv' (VoteMsg c v') err"
proof -
  obtain err' where e: "signVote E w (sg_files s) pv c v = Ok (fs, pv', v', err')" "err = None \<longleftrightarrow> err' = None"
    using assms(5) by (auto simp: SignVote_def)
  have "last_signed E key (pv_LastSignState pv)" using assms(1,3) by (auto simp: signer_inv_def)
  from signVote_outcome [OF e(1) assms(2) this assms(4)] show ?thesis using e(2) by (simp add: request_outcome_def)
qed

lemma SignProposal_outcome:
  assumes "signer_inv E kp sp key s" "pv_lib_ok E" "sg_running s = Some pv" "msg_go (pe_env E) (ProposalMsg c p)"
    "SignProposal E w (sg_files s) pv c p = Ok (fs, pv', p', err)"
  shows "request_outcome E (sg_files s) pv fs pv' (ProposalMsg c p') err"
proof -
  obtain err' where e: "signProposal E w (sg_files s) pv c p = Ok (fs, pv', p', err')" "err = None \<longleftrightarrow> err' = None"
    using assms(5) by (auto simp: SignProposal_def)
  have "last_signed E key (pv_LastSignState pv)" using assms(1,3) by (auto simp: signer_inv_def)
  from signProposal_outcome [OF e(1) assms(2) this assms(4)] show ?thesis using e(2) by (simp add: request_outcome_def)
qed

lemma released_tl: "released_ok E key slot bz (xs @ ms) \<Longrightarrow> released_ok E key slot bz ms"
  unfolding released_ok_def by (simp only: list_all_append) blast

lemma signer_inv_stop: "signer_inv E kp sp key s \<Longrightarrow> signer_inv E kp sp key (s\<lparr>sg_running := None\<rparr>)"
  by (auto simp: signer_inv_def)

lemma signer_inv_lost:
  "signer_inv E kp sp key \<lparr>sg_files = fs, sg_running = r, sg_released = xs @ sg_released s\<rparr> \<Longrightarrow>
     signer_inv E kp sp key (s\<lparr>sg_files := fs, sg_running := None\<rparr>)"
  by (auto simp: signer_inv_def dest: released_tl)

lemma signer_inv_restart:
  assumes "signer_inv E kp sp key s" "LoadFilePV cr (sg_files s) kp sp = Ok pv"
  shows "signer_inv E kp sp key (s\<lparr>sg_running := Some pv\<rparr>)"
proof -
  obtain lss where lss: "kp \<noteq> sp" "sg_files s kp = Some (SavedKey key)" "lss_filePath lss = sp" "last_signed E key lss"
      "sg_files s sp = Some (SavedState (lss_Height lss) (lss_Round lss) (lss_Step lss) (omitempty (lss_Signature lss)) (lss_SignBytes lss))"
      "released_ok E key (lss_slot lss) (lss_SignBytes lss) (sg_released s)"
    using assms(1) by (auto simp: signer_inv_def)
  let ?lss = "lss\<lparr>lss_Signature := omitempty (lss_Signature lss)\<rparr>"
  have "pv_LastSignState pv = ?lss" "k_PrivKey (pv_Key pv) = key"
    using assms(2) lss(2,3,5) by (auto simp: LoadFilePV_def loadFilePV_def Let_def)
  then show ?thesis
    unfolding signer_inv_def using lss last_signed_omitempty [OF lss(4)]
    by (intro conjI exI [of _ ?lss]) (auto simp: lss_slot.simps)
qed

lemma pv_step_inv: "pv_step E kp sp s s' \<Longrightarrow> pv_lib_ok E \<Longrightarrow> signer_inv E kp sp key s \<Longrightarrow> signer_inv E kp sp key s'"
proof (induction rule: pv_step.induct)
  case (vote s pv c v w fs pv' v' err)
  show ?case by (rule request_inv [OF vote.prems(2) vote.hyps(1) SignVote_outcome [OF vote.prems(2,1) vote.hyps]])
next
  case (proposal s pv c p w fs pv' p' err)
  show ?case by (rule request_inv [OF proposal.prems(2) proposal.hyps(1) SignProposal_outcome [OF proposal.prems(2,1) proposal.hyps]])
next
  case (vote_lost s pv c v w fs pv' v' err)
  show ?case by (rule signer_inv_lost [OF request_inv [OF vote_lost.prems(2) vote_lost.hyps(1) SignVote_outcome [OF vote_lost.prems(2,1) vote_lost.hyps]]])
next
  case (proposal_lost s pv c p w fs pv' p' err)
  show ?case by (rule signer_inv_lost [OF request_inv [OF proposal_lost.prems(2) proposal_lost.hyps(1) SignProposal_outcome [OF proposal_lost.prems(2,1) proposal_lost.hyps]]])
qed (auto intro: signer_inv_stop signer_inv_restart)

lemma signer_of_inv: "signer_of E key s \<Longrightarrow> pv_lib_ok E \<Longrightarrow> \<exists>kp sp. signer_inv E kp sp key s"
proof -
  assume "signer_of E key s" and lib: "pv_lib_ok E"
  then obtain kp sp pv fs fs' where s: "kp \<noteq> sp" "fs kp = None"
      "LoadOrGenFilePV (crypto (pe_env E)) key True True fs kp sp = Ok (fs', pv)"
      "pv_steps E kp sp \<lparr>sg_files = fs', sg_running = Some pv, sg_released = []\<rparr> s"
    by (auto simp: signer_of_def)
  have "signer_inv E kp sp key \<lparr>sg_files = fs', sg_running = Some pv, sg_released = []\<rparr>"
    using s(1-3) by (auto simp: signer_inv_def LoadOrGenFilePV_def NewFilePV_def PV_Save_def Key_Save_def LSS_Save_def last_signed_def
      released_ok_def omitempty_def split: if_splits)
  with s(4) have "signer_inv E kp sp key s" by (induction rule: pv_steps.induct) (auto intro: pv_step_inv [OF _ lib])
  then show ?thesis by blast
qed

lemma released_unique:
  assumes "signer_of E key s" "pv_lib_ok E" "m \<in> set (sg_released s)" "m' \<in> set (sg_released s)" "msg_slot m = msg_slot m'"
  shows "\<exists>b. msg_go (pe_env E) m \<and> msg_go (pe_env E) m' \<and> msg_bytes (pe_env E) m = Ok b \<and> msg_bytes (pe_env E) m' = Ok b \<and>
    key_Sign key b = Ok (msg_sig m) \<and> msg_sig m = msg_sig m'"
proof -
  obtain kp sp where "signer_inv E kp sp key s" using signer_of_inv [OF assms(1,2)] by blast
  then obtain L where "list_all (in_ledger E key L) (sg_released s)" by (auto simp: signer_inv_def released_ok_def)
  then have "in_ledger E key L m" "in_ledger E key L m'" using assms(3,4) by (auto simp: list_all_iff)
  then show ?thesis using assms(5) by (auto simp: in_ledger_def)
qed

lemma pv_lib_time: "pv_lib_ok E \<Longrightarrow> time_encoding_inj (pe_env E)"
  unfolding pv_lib_ok_def time_decodes_def time_encoding_inj_def by (metis result.inject(1))

section \<open>Signing again\<close>

lemma sign_fresh_vote:
  assumes "IsVoteTypeValid (v_Type v)" "lss_slot (pv_LastSignState pv) < msg_slot (VoteMsg c v)" "VoteSignBytes (pe_env E) c v = Ok bz"
    "sign_extension pv c v = Ok ext" "key_Sign (k_PrivKey (pv_Key pv)) bz = Ok sig" "lss_filePath (pv_LastSignState pv) \<noteq> ''''"
  shows "\<exists>fs' pv'. SignVote E True fs pv c v = Ok (fs', pv', v\<lparr>v_Signature := sig, v_ExtensionSignature := ext\<rparr>, None)"
proof -
  obtain s where s: "voteToStep v = Ok s" using assms(1) by (auto simp: voteToStep_def IsVoteTypeValid_def)
  have "CheckHRS (pv_LastSignState pv) (v_Height v) (v_Round v) s = Ok False"
    using assms(2) voteToStep_slot [OF s] by (simp add: CheckHRS_Ok)
  then show ?thesis
    using s assms(3-6) by (simp add: SignVote_def signVote_def returns_def saveSigned_def LSS_Save_def Let_def)
qed

lemma vote_canonical:
  assumes "VoteSignBytes e c v = Ok bz"
  shows "CanonicalizeVote c v = Ok \<lparr>cv_Type = v_Type v, cv_Height = v_Height v, cv_Round = v_Round v,
     cv_BlockID = (if BlockID_IsZero (v_BlockID v) then None else Some (v_BlockID v)), cv_Timestamp = v_Timestamp v, cv_ChainID = c\<rparr>"
proof -
  obtain b where "CanonicalizeBlockID (v_BlockID v) = Ok b" using assms by (auto simp: VoteSignBytes_def CanonicalizeVote_def)
  then show ?thesis using CanonicalizeBlockID_ok by (simp add: CanonicalizeVote_def)
qed

lemma check_votes:
  assumes "pv_lib_ok E" "msg_go (pe_env E) (VoteMsg c v)" "VoteSignBytes (pe_env E) c v = Ok old"
    "msg_go (pe_env E) (VoteMsg d w)" "VoteSignBytes (pe_env E) d w = Ok new" "msg_slot (VoteMsg c v) = msg_slot (VoteMsg d w)"
  shows "checkVotesOnlyDifferByTimestamp E old new = Ok (v_Timestamp v, c = d \<and> v_BlockID v = v_BlockID w)"
proof -
  have dec: "UnmarshalDelimited bz (\<lambda>b. CanonicalVote_Unmarshal (StdTimeUnmarshal E) b zero_CanonicalVote) = CanonicalizeVote d v"
    if "VoteSignBytes (pe_env E) d v = Ok bz" "msg_go (pe_env E) (VoteMsg d v)" for d v bz
    using vote_sign_bytes_decode [OF that(1)] assms(1) that by (simp add: pv_lib_ok_def)
  have "v_Type v = v_Type w" using assms(2,4,6) by (auto simp: IsVoteTypeValid_def)
  moreover have "(if BlockID_IsZero (v_BlockID w) then None else Some (v_BlockID w)) = (if BlockID_IsZero (v_BlockID v) then None else Some (v_BlockID v)) \<longleftrightarrow>
      v_BlockID v = v_BlockID w"
    by (auto simp: BlockID_IsZero_iff)
  ultimately show ?thesis
    using dec [OF assms(3,2)] dec [OF assms(5,4)] vote_canonical [OF assms(3)] vote_canonical [OF assms(5)] assms(1,6)
    by (simp add: checkVotesOnlyDifferByTimestamp_def Let_def pv_lib_ok_def must_def) auto
qed

lemma sign_same_slot:
  assumes "pv_lib_ok E" "msg_go (pe_env E) (VoteMsg c v)" "VoteSignBytes (pe_env E) c v = Ok old"
    "lss_SignBytes (pv_LastSignState pv) = Some old" "lss_Signature (pv_LastSignState pv) = Some sig"
    "lss_slot (pv_LastSignState pv) = msg_slot (VoteMsg c v)"
    "msg_go (pe_env E) (VoteMsg d w)" "msg_slot (VoteMsg d w) = msg_slot (VoteMsg c v)"
    "VoteSignBytes (pe_env E) d w = Ok new" "sign_extension pv d w = Ok ext"
  shows "SignVote E b fs pv d w =
    (if c = d \<and> v_BlockID v = v_BlockID w
     then Ok (fs, pv, w\<lparr>v_Timestamp := v_Timestamp v, v_Signature := sig, v_ExtensionSignature := ext\<rparr>, None)
     else Ok (fs, pv, w\<lparr>v_ExtensionSignature := ext\<rparr>, Some (Wrapf ''error signing vote'' (Errorf ''conflicting data''))))"
proof -
  obtain s where s: "voteToStep w = Ok s" using assms(7) by (auto simp: voteToStep_def IsVoteTypeValid_def)
  have hrs: "CheckHRS (pv_LastSignState pv) (v_Height w) (v_Round w) s = Ok True"
    using assms(4-6,8) voteToStep_slot [OF s, of d] by (simp add: CheckHRS_Ok)
  show ?thesis
  proof (cases "new = old")
    case True
    then have "c = d \<and> v_BlockID v = v_BlockID w \<and> v_Timestamp v = v_Timestamp w"
      using VoteSignBytes_inj [OF pv_lib_time [OF assms(1)], of v w c old d] assms(2,3,7,9) by simp
    then show ?thesis using s hrs assms(4,5,9,10) True
      by (simp add: SignVote_def signVote_def returns_def Let_def)
  next
    case False
    then show ?thesis using s hrs assms(4,5,9,10) check_votes [OF assms(1-3,7,9) assms(8) [symmetric]]
      by (simp add: SignVote_def signVote_def returns_def Let_def)
  qed
qed

lemma LoadFilePV_state:
  assumes "LoadFilePV cr fs kp sp = Ok pv"
  obtains h r st sig bz where "fs sp = Some (SavedState h r st sig bz)"
    "pv_LastSignState pv = \<lparr>lss_Height = h, lss_Round = r, lss_Step = st, lss_Signature = sig, lss_SignBytes = bz, lss_filePath = sp\<rparr>"
proof -
  obtain k where k: "fs kp = Some (SavedKey k)" using assms
    by (cases "fs kp"; cases "the (fs kp)") (auto simp: LoadFilePV_def loadFilePV_def)
  then obtain h r st sig bz where "fs sp = Some (SavedState h r st sig bz)" using assms
    by (cases "fs sp"; cases "the (fs sp)") (auto simp: LoadFilePV_def loadFilePV_def Let_def)
  then show ?thesis using that k assms by (auto simp: LoadFilePV_def loadFilePV_def Let_def)
qed

lemma signed_then_loaded:
  assumes "SignVote E b fs pv c v = Ok (fs', pv1, v', None)" "request_outcome E fs pv fs' pv1 (VoteMsg c v') None"
    "lss_filePath (pv_LastSignState pv) = sp"
    "fs sp = Some (SavedState (lss_Height (pv_LastSignState pv)) (lss_Round (pv_LastSignState pv)) (lss_Step (pv_LastSignState pv))
       (omitempty (lss_Signature (pv_LastSignState pv))) (lss_SignBytes (pv_LastSignState pv)))"
    "LoadFilePV cr fs' kp sp = Ok pv2" "v_Signature v' \<noteq> []"
  shows "\<exists>bz. VoteSignBytes (pe_env E) c v' = Ok bz \<and> lss_SignBytes (pv_LastSignState pv2) = Some bz \<and>
    lss_Signature (pv_LastSignState pv2) = Some (v_Signature v') \<and> lss_slot (pv_LastSignState pv2) = msg_slot (VoteMsg c v') \<and>
    msg_go (pe_env E) (VoteMsg c v')"
proof -
  obtain h r st sig bz where st: "fs' sp = Some (SavedState h r st sig bz)"
      and pv2: "pv_LastSignState pv2 = \<lparr>lss_Height = h, lss_Round = r, lss_Step = st, lss_Signature = sig, lss_SignBytes = bz, lss_filePath = sp\<rparr>"
    by (rule LoadFilePV_state [OF assms(5)])
  have ne: "omitempty (Some (v_Signature v')) = Some (v_Signature v')" using assms(6) by (simp add: omitempty_def)
  consider "fs' = fs" "resigned E pv (VoteMsg c v')" | "newly_signed E fs pv (VoteMsg c v') fs' pv1"
    using assms(2) by (auto simp: request_outcome_def)
  then show ?thesis
  proof cases
    case 1
    then show ?thesis using assms(4) st pv2 ne by (auto simp: resigned_def lss_slot.simps simp del: msg_go.simps msg_slot.simps)
  next
    case 2
    then obtain bz' where "VoteSignBytes (pe_env E) c v' = Ok bz'" "msg_go (pe_env E) (VoteMsg c v')"
        "fs' = fs(sp \<mapsto> SavedState (fst (msg_slot (VoteMsg c v'))) (fst (snd (msg_slot (VoteMsg c v')))) (snd (snd (msg_slot (VoteMsg c v'))))
          (omitempty (Some (v_Signature v'))) (omitempty (Some bz')))"
      using assms(3) by (auto simp: newly_signed_def simp del: msg_go.simps msg_slot.simps)
    moreover have "omitempty (Some bz') = Some bz'" using msg_bytes_nonempty [of "pe_env E" "VoteMsg c v'" bz'] calculation(1) by simp
    ultimately show ?thesis using st pv2 ne by (auto simp: lss_slot.simps simp del: msg_go.simps msg_slot.simps)
  qed
qed

end
