(* ===== verification/SignerSafety.thy ===== *)
theory SignerSafety
  imports PrivValProps VoteSetMajority
begin

text \<open>
  The properties of signers, and of the vote sets that count their votes: with honest signers for more than two
  thirds of the voting power, no two nodes see different majorities in one round.
\<close>

section \<open>A signer of one validator\<close>

primrec toy_unvarint :: "bytes \<Rightarrow> nat" where
  "toy_unvarint [] = 0"
| "toy_unvarint (b # bs) = (if unat b < 128 then unat b else unat b - 128 + 128 * toy_unvarint bs)"

definition unzigzag :: "nat \<Rightarrow> int" where
  "unzigzag n = (if even n then int n div 2 else - ((int n + 1) div 2))"

definition toy_time :: "bytes \<Rightarrow> go_time result" where
  "toy_time bz = Ok (unzigzag (toy_unvarint bz))"

lemma toy_unvarint_uvarint: "toy_unvarint (uvarint n) = n"
proof (induction n rule: uvarint.induct)
  case (1 n)
  then show ?case by (subst uvarint.simps) (auto simp: unat_byte unat_byte [of "n mod 128 + 128", simplified])
qed

lemma toy_time_decodes: "time_decodes toy_env toy_time"
proof -
  have "unzigzag (zigzag t) = t" for t unfolding unzigzag_def zigzag_def by (auto simp: even_nat_iff)
  then show ?thesis by (simp add: time_decodes_def toy_env_def toy_time_def toy_unvarint_uvarint)
qed

definition demo_pv_env :: "bytes list \<Rightarrow> pv_env" where
  "demo_pv_env ms = \<lparr>pe_env = demo_env ms, StdTimeUnmarshal = toy_time, EqualVote = (=), EqualProposal = (=), Now = 0\<rparr>"

definition demo_key :: PrivKey where
  "demo_key = \<lparr>key_PubKey = Ed25519 (replicate 32 7), key_Sign = (\<lambda>m. Ok (demo_sign m))\<rparr>"

lemma demo_pv_env_sel [simp]: "pe_env (demo_pv_env ms) = demo_env ms"
  by (simp add: demo_pv_env_def)

lemma demo_lib: "pv_lib_ok (demo_pv_env ms)"
  using toy_time_decodes by (simp add: pv_lib_ok_def demo_pv_env_def time_decodes_def demo_env_def)

lemma length_uvarint: "length (uvarint n) \<le> Suc n"
proof (induction n rule: uvarint.induct)
  case (1 n)
  show ?case
  proof (cases "n < 128")
    case True
    then show ?thesis by (simp add: uvarint.simps)
  next
    case False
    then show ?thesis using 1 by (subst uvarint.simps) simp
  qed
qed

lemma pb_lengths:
  "length (pb_varint tag v) \<le> v + 2" "length (pb_sfixed64 tag x) \<le> 9" "length (pb_msg tag bz) \<le> 2 * length bz + 2"
  "length (pb_bytes tag bz) \<le> 2 * length bz + 2" "length (pb_opt tag (Some bz)) \<le> 2 * length bz + 2"
  "length (MarshalDelimited bz) \<le> 2 * length bz + 1"
  using length_uvarint [of v] length_uvarint [of "length bz"]
  by (simp_all add: pb_varint_def pb_sfixed64_def pb_msg_def pb_bytes_def pb_opt_def MarshalDelimited_def)

text \<open>A vote for block \<open>b\<close> with the time \<open>t\<close>, not signed yet.\<close>

definition demo_request :: "byte \<Rightarrow> go_time \<Rightarrow> Vote" where
  "demo_request b t = (demo_unsigned b)\<lparr>v_Timestamp := t\<rparr>"

lemma demo_request_sel [simp]:
  "v_Type (demo_request b t) = 2" "v_Height (demo_request b t) = 5" "v_Round (demo_request b t) = 0" "v_BlockID (demo_request b t) = demo_bid b"
  "v_Timestamp (demo_request b t) = t"
  by (simp_all add: demo_request_def demo_unsigned_def)

lemma demo_request_bytes: "\<exists>bz. VoteSignBytes (demo_env ms) [99] (demo_request b t) = Ok bz"
  by (simp add: VoteSignBytes_demo)
     (simp add: VoteSignBytes_def CanonicalizeVote_def demo_CanonicalizeBlockID CanonicalVote_Marshal_def toy_env_def)

lemma demo_request_go:
  assumes "0 \<le> t" "t \<le> 100"
  shows "msg_go (demo_env ms) (VoteMsg [99] (demo_request b t))"
proof -
  have "int (length bz) < MaxInt64" if "VoteSignBytes (demo_env ms) [99] (demo_request b t) = Ok bz" for bz
  proof -
    have time: "StdTimeMarshal (demo_env ms) t = Ok (uvarint (zigzag t))" by (simp add: demo_env_def toy_env_def)
    have z: "\<not> BlockID_IsZero (demo_bid b)" by (simp add: demo_bid_def BlockID_IsZero_def)
    let ?m = "pb_varint 0x08 (to_uint64 2) @ pb_sfixed64 0x11 5 @ pb_sfixed64 0x19 0 @
       pb_opt 0x22 (Some (BlockID_Marshal (demo_bid b))) @ pb_msg 0x2a (uvarint (zigzag t)) @ pb_bytes 0x32 [99]"
    have bz: "bz = MarshalDelimited ?m"
      using that by (rule VoteSignBytes_Ok) (use time z in simp)
    have "zigzag t \<le> 200" using assms by (simp add: zigzag_def)
    then have "length (uvarint (zigzag t)) \<le> 201" using length_uvarint [of "zigzag t"] by simp
    moreover have "length (PartSetHeader_Marshal (bid_PartSetHeader (demo_bid b))) \<le> 100"
      using pb_lengths(1) [of "0x08" "to_uint64 1"] pb_lengths(4) [of "0x12" "replicate 32 b"]
      by (simp add: PartSetHeader_Marshal_def demo_bid_def to_uint64_def)
    then have "length (BlockID_Marshal (demo_bid b)) \<le> 300"
      using pb_lengths(4) [of "0x0a" "replicate 32 b"] pb_lengths(3) [of "0x12" "PartSetHeader_Marshal (bid_PartSetHeader (demo_bid b))"]
      by (simp add: BlockID_Marshal_def demo_bid_def)
    moreover have "to_uint64 2 = 2" by (simp add: to_uint64_def)
    ultimately have "length ?m \<le> 2000"
      using pb_lengths(1) [of "0x08" 2] pb_lengths(2) [of "0x11" 5] pb_lengths(2) [of "0x19" 0] pb_lengths(5) [of "0x22" "BlockID_Marshal (demo_bid b)"]
        pb_lengths(3) [of "0x2a" "uvarint (zigzag t)"] pb_lengths(4) [of "0x32" "[99]"] by simp
    then show ?thesis using pb_lengths(6) [of ?m] unfolding bz by simp
  qed
  then show ?thesis by (simp add: vote_in_range_def IsVoteTypeValid_def is_i32_def is_i64_def)
qed

lemma demo_signer:
  "\<exists>s pv. signer_of (demo_pv_env ms) demo_key s \<and> sg_running s = Some pv \<and> sg_released s = [] \<and> lss_slot (pv_LastSignState pv) = (0, 0, 0) \<and>
     k_PrivKey (pv_Key pv) = demo_key \<and> lss_filePath (pv_LastSignState pv) = ''state''"
proof -
  obtain pv fs' where "LoadOrGenFilePV (crypto (demo_env ms)) demo_key True True Map.empty ''key'' ''state'' = Ok (fs', pv)"
      "lss_slot (pv_LastSignState pv) = (0, 0, 0)" "k_PrivKey (pv_Key pv) = demo_key" "lss_filePath (pv_LastSignState pv) = ''state''"
    by (simp add: LoadOrGenFilePV_def NewFilePV_def PV_Save_def Key_Save_def LSS_Save_def demo_key_def SumTruncated_def lss_slot.simps)
  then show ?thesis unfolding signer_of_def
    by (intro exI [of _ "\<lparr>sg_files = fs', sg_running = Some pv, sg_released = []\<rparr>"] exI [of _ pv] conjI
      exI [of _ "''key''"] exI [of _ "''state''"] exI [of _ "Map.empty"] exI [of _ fs']) (simp_all add: pv_steps.none)
qed

definition demo_ext :: "byte \<Rightarrow> bytes" where
  "demo_ext b = demo_sign (VoteExtensionSignBytes [99] (demo_unsigned b))"

lemma demo_extension: "k_PrivKey (pv_Key pv) = demo_key \<Longrightarrow> sign_extension pv [99] (demo_request b t) = Ok (demo_ext b)"
proof -
  have "\<not> ProtoBlockIDIsNil (demo_bid b)" by (simp add: ProtoBlockIDIsNil_def demo_bid_def)
  moreover have "VoteExtensionSignBytes [99] (demo_request b t) = VoteExtensionSignBytes [99] (demo_unsigned b)"
    by (simp add: VoteExtensionSignBytes_def demo_request_def)
  moreover assume "k_PrivKey (pv_Key pv) = demo_key"
  ultimately show ?thesis by (simp add: sign_extension_def demo_key_def demo_ext_def)
qed

definition demo_released :: "byte \<Rightarrow> Vote" where
  "demo_released b = (demo_vote b)\<lparr>v_ExtensionSignature := demo_ext b\<rparr>"

lemma demo_signs:
  "\<exists>s pv fs pv'. signer_of (demo_pv_env ms) demo_key s \<and> sg_running s = Some pv \<and> sg_released s = [] \<and>
     lss_filePath (pv_LastSignState pv) = ''state'' \<and> k_PrivKey (pv_Key pv) = demo_key \<and>
     SignVote (demo_pv_env ms) True (sg_files s) pv [99] (demo_request b 7) = Ok (fs, pv', demo_released b, None)"
proof -
  obtain s pv where s: "signer_of (demo_pv_env ms) demo_key s" "sg_running s = Some pv" "sg_released s = []" "lss_slot (pv_LastSignState pv) = (0, 0, 0)"
      "k_PrivKey (pv_Key pv) = demo_key" "lss_filePath (pv_LastSignState pv) = ''state''"
    using demo_signer by blast
  have r: "demo_request b 7 = demo_unsigned b" by (simp add: demo_request_def demo_unsigned_def)
  then have bz: "VoteSignBytes (demo_env ms) [99] (demo_request b 7) = Ok (demo_bytes b)" by (simp add: VoteSignBytes_demo demo_sign_bytes)
  have "\<exists>fs' pv'. SignVote (demo_pv_env ms) True (sg_files s) pv [99] (demo_request b 7) =
      Ok (fs', pv', (demo_request b 7)\<lparr>v_Signature := demo_sign (demo_bytes b), v_ExtensionSignature := demo_ext b\<rparr>, None)"
    using s(4-6) bz demo_extension [OF s(5)]
    by (intro sign_fresh_vote [where bz = "demo_bytes b"]) (simp_all add: IsVoteTypeValid_def demo_key_def)
  then show ?thesis using s r by (auto simp: demo_released_def demo_vote_def)
qed

lemma signer_of_step: "signer_of E key s \<Longrightarrow> (\<And>kp sp. pv_step E kp sp s s') \<Longrightarrow> signer_of E key s'"
  unfolding signer_of_def by (blast intro: pv_steps.more)

lemma demo_again:
  assumes "signer_of (demo_pv_env ms) demo_key s" "sg_running s = Some pv" "k_PrivKey (pv_Key pv) = demo_key"
    "SignVote (demo_pv_env ms) True (sg_files s) pv [99] (demo_request b 7) = Ok (fs, pv', demo_released b, None)"
  shows "SignVote (demo_pv_env ms) True fs pv' [99] (demo_request b 9) = Ok (fs, pv', demo_released b, None)"
proof -
  let ?E = "demo_pv_env ms" and ?lss = "pv_LastSignState pv'"
  obtain kp sp where inv: "signer_inv ?E kp sp demo_key s" using signer_of_inv [OF assms(1) demo_lib] by blast
  have out: "request_outcome ?E (sg_files s) pv fs pv' (VoteMsg [99] (demo_released b)) None"
    using SignVote_outcome [OF inv demo_lib assms(2) _ assms(4)] demo_request_go [of 7 ms b] by (simp del: msg_go.simps)
  have bz: "VoteSignBytes (demo_env ms) [99] (demo_released b) = Ok (demo_bytes b)"
    by (simp add: demo_released_def VoteSignBytes_demo demo_sign_bytes)
  have slot: "msg_slot (VoteMsg [99] (demo_released b)) = msg_slot (VoteMsg [99] (demo_request b 9))" by (simp add: demo_released_def)
  have lss: "lss_SignBytes ?lss = Some (demo_bytes b)" "lss_Signature ?lss = Some (demo_sign (demo_bytes b))"
      "lss_slot ?lss = msg_slot (VoteMsg [99] (demo_released b))" "msg_go (demo_env ms) (VoteMsg [99] (demo_released b))"
      "k_PrivKey (pv_Key pv') = demo_key"
    using out bz assms(3)
    by (auto simp: request_outcome_def resigned_def newly_signed_def lss_slot.simps demo_released_def simp del: msg_go.simps)
  obtain new where new: "VoteSignBytes (demo_env ms) [99] (demo_request b 9) = Ok new" using demo_request_bytes by blast
  have "(demo_request b 9)\<lparr>v_Timestamp := v_Timestamp (demo_released b), v_Signature := demo_sign (demo_bytes b), v_ExtensionSignature := demo_ext b\<rparr> = demo_released b"
    by (simp add: demo_released_def demo_vote_def demo_request_def demo_unsigned_def)
  then show ?thesis
    using sign_same_slot [of ?E "[99]" "demo_released b" "demo_bytes b" pv' "demo_sign (demo_bytes b)" "[99]" "demo_request b 9" new "demo_ext b" True fs]
      demo_lib lss bz slot demo_request_go [of 9 ms b] new demo_extension [OF lss(5)] by (simp add: demo_released_def del: msg_go.simps)
qed

text \<open>C2. No double signing: whatever requests a file-backed validator serves, with crashes and restarts at any
  point, two votes it has released for one height, round and type are votes for one block, on one chain and with
  one time, and carry one signature; and so for proposals.\<close>

theorem no_double_signing:
  assumes "signer_of E key s" "pv_lib_ok E"
  shows "(VoteMsg c v \<in> set (sg_released s) \<and> VoteMsg d w \<in> set (sg_released s) \<and>
      v_Height v = v_Height w \<and> v_Round v = v_Round w \<and> v_Type v = v_Type w \<longrightarrow>
        c = d \<and> v_BlockID v = v_BlockID w \<and> v_Timestamp v = v_Timestamp w \<and> v_Signature v = v_Signature w) \<and>
    (ProposalMsg c p \<in> set (sg_released s) \<and> ProposalMsg d q \<in> set (sg_released s) \<and> p_Height p = p_Height q \<and> p_Round p = p_Round q \<longrightarrow>
        c = d \<and> p_BlockID p = p_BlockID q \<and> p_POLRound p = p_POLRound q \<and> p_Timestamp p = p_Timestamp q \<and> p_Signature p = p_Signature q)"
proof (rule conjI; rule impI)
  assume *: "VoteMsg c v \<in> set (sg_released s) \<and> VoteMsg d w \<in> set (sg_released s) \<and>
      v_Height v = v_Height w \<and> v_Round v = v_Round w \<and> v_Type v = v_Type w"
  then obtain b where b: "msg_go (pe_env E) (VoteMsg c v)" "msg_go (pe_env E) (VoteMsg d w)" "VoteSignBytes (pe_env E) c v = Ok b"
      "VoteSignBytes (pe_env E) d w = Ok b" "v_Signature v = v_Signature w"
    using released_unique [OF assms, of "VoteMsg c v" "VoteMsg d w"] by (simp del: msg_go.simps) (elim exE conjE, rule that)
  then show "c = d \<and> v_BlockID v = v_BlockID w \<and> v_Timestamp v = v_Timestamp w \<and> v_Signature v = v_Signature w"
    using VoteSignBytes_inj [OF pv_lib_time [OF assms(2)], of v w c b d] by simp
next
  assume *: "ProposalMsg c p \<in> set (sg_released s) \<and> ProposalMsg d q \<in> set (sg_released s) \<and> p_Height p = p_Height q \<and> p_Round p = p_Round q"
  then obtain b where b: "msg_go (pe_env E) (ProposalMsg c p)" "msg_go (pe_env E) (ProposalMsg d q)" "ProposalSignBytes (pe_env E) c p = Ok b"
      "ProposalSignBytes (pe_env E) d q = Ok b" "p_Signature p = p_Signature q"
    using released_unique [OF assms, of "ProposalMsg c p" "ProposalMsg d q"] by (simp del: msg_go.simps) (elim exE conjE, rule that)
  then show "c = d \<and> p_BlockID p = p_BlockID q \<and> p_POLRound p = p_POLRound q \<and> p_Timestamp p = p_Timestamp q \<and> p_Signature p = p_Signature q"
    using ProposalSignBytes_inj [OF pv_lib_time [OF assms(2)], of p q c b d] by simp
qed

theorem no_double_signing_witness:
  "\<exists>s. signer_of (demo_pv_env []) demo_key s \<and> sg_released s = [VoteMsg [99] (demo_released 1), VoteMsg [99] (demo_released 1)] \<and>
     (\<forall>w. VoteMsg [99] w \<in> set (sg_released s) \<and> v_Height w = 5 \<and> v_Round w = 0 \<and> v_Type w = 2 \<longrightarrow> v_BlockID w = demo_bid 1)"
proof -
  let ?E = "demo_pv_env []"
  obtain s pv fs pv' where s: "signer_of ?E demo_key s" "sg_running s = Some pv" "sg_released s = []" "k_PrivKey (pv_Key pv) = demo_key"
      "SignVote ?E True (sg_files s) pv [99] (demo_request 1 7) = Ok (fs, pv', demo_released 1, None)"
    using demo_signs by blast
  let ?s1 = "\<lparr>sg_files = fs, sg_running = Some pv', sg_released = [VoteMsg [99] (demo_released 1)]\<rparr>"
  let ?s2 = "\<lparr>sg_files = fs, sg_running = Some pv', sg_released = [VoteMsg [99] (demo_released 1), VoteMsg [99] (demo_released 1)]\<rparr>"
  have go: "msg_go (pe_env ?E) (VoteMsg [99] (demo_request 1 t))" if "0 \<le> t" "t \<le> 100" for t using demo_request_go [OF that] by (simp del: msg_go.simps)
  have "signer_of ?E demo_key ?s1"
    using signer_of_step [OF s(1)] pv_step.vote [OF s(2) go s(5)] s(3) by simp
  then have s2: "signer_of ?E demo_key ?s2"
    using signer_of_step [of ?E demo_key ?s1 ?s2] pv_step.vote [of ?s1 pv' ?E "[99]" "demo_request 1 9" True fs pv' "demo_released 1" None]
      demo_again [OF s(1,2,4,5)] go [of 9] by (simp del: msg_go.simps)
  have "v_BlockID w = demo_bid 1" if "VoteMsg [99] w \<in> set (sg_released ?s2)" "v_Height w = 5" "v_Round w = 0" "v_Type w = 2" for w
    using no_double_signing [OF s2 demo_lib, of "[99]" w "[99]" "demo_released 1"] that by (simp add: demo_released_def)
  then show ?thesis using s2 by (intro exI [of _ ?s2]) simp
qed

text \<open>C27. Signing again after a crash: after a vote has been signed, and whether or not the signature was received, the
  validator loaded from its files gives that signature and time again to any request for the same block in the same
  slot, and refuses every request for another block or chain in that slot; its files do not change.\<close>

theorem resign_after_crash:
  assumes "signer_of E key s" "pv_lib_ok E" "sg_running s = Some pv" "msg_go (pe_env E) (VoteMsg c v)"
    "SignVote E b (sg_files s) pv c v = Ok (fs, pv1, v', None)" "v_Signature v' \<noteq> []"
    "LoadFilePV (crypto (pe_env E)) fs keyPath (lss_filePath (pv_LastSignState pv)) = Ok pv2"
    "msg_go (pe_env E) (VoteMsg d w)" "v_Height w = v_Height v" "v_Round w = v_Round v" "v_Type w = v_Type v"
    "VoteSignBytes (pe_env E) d w = Ok bz" "sign_extension pv2 d w = Ok ext"
  shows "SignVote E b' fs pv2 d w =
    (if c = d \<and> v_BlockID v = v_BlockID w
     then Ok (fs, pv2, w\<lparr>v_Timestamp := v_Timestamp v', v_Signature := v_Signature v', v_ExtensionSignature := ext\<rparr>, None)
     else Ok (fs, pv2, w\<lparr>v_ExtensionSignature := ext\<rparr>, Some (Wrapf ''error signing vote'' (Errorf ''conflicting data''))))"
proof -
  obtain kp sp where inv: "signer_inv E kp sp key s" using signer_of_inv [OF assms(1,2)] by blast
  note out = SignVote_outcome [OF inv assms(2-5)]
  have sp: "lss_filePath (pv_LastSignState pv) = sp" "sg_files s sp = Some (SavedState (lss_Height (pv_LastSignState pv)) (lss_Round (pv_LastSignState pv))
      (lss_Step (pv_LastSignState pv)) (omitempty (lss_Signature (pv_LastSignState pv))) (lss_SignBytes (pv_LastSignState pv)))"
    using inv assms(3) by (auto simp: signer_inv_def)
  obtain old where old: "VoteSignBytes (pe_env E) c v' = Ok old" "lss_SignBytes (pv_LastSignState pv2) = Some old"
      "lss_Signature (pv_LastSignState pv2) = Some (v_Signature v')" "lss_slot (pv_LastSignState pv2) = msg_slot (VoteMsg c v')"
      "msg_go (pe_env E) (VoteMsg c v')"
    using signed_then_loaded [OF assms(5) out sp assms(7) [unfolded sp(1)] assms(6)] by (elim exE conjE) (rule that)
  have same: "v_Height v' = v_Height v \<and> v_Round v' = v_Round v \<and> v_Type v' = v_Type v \<and> v_BlockID v' = v_BlockID v"
    using assms(5) by (auto simp: SignVote_def signVote_def Let_def returns_Ok split: if_splits)
  then have "msg_slot (VoteMsg d w) = msg_slot (VoteMsg c v')" using assms(9-11) by simp
  from sign_same_slot [OF assms(2) old(5,1,2,3,4) assms(8) this assms(12,13), of b' fs] show ?thesis using same by simp
qed

theorem resign_after_crash_witness:
  "\<exists>fs pv. SignVote (demo_pv_env []) True fs pv [99] (demo_request 1 9) = Ok (fs, pv, demo_released 1, None) \<and>
     is_Ok (SignVote (demo_pv_env []) True fs pv [99] (demo_request 2 7)) \<and>
     (\<exists>v err. SignVote (demo_pv_env []) True fs pv [99] (demo_request 2 7) = Ok (fs, pv, v, Some err))"
proof -
  let ?E = "demo_pv_env []"
  obtain s pv fs pv' where s: "signer_of ?E demo_key s" "sg_running s = Some pv" "lss_filePath (pv_LastSignState pv) = ''state''"
      "SignVote ?E True (sg_files s) pv [99] (demo_request 1 7) = Ok (fs, pv', demo_released 1, None)"
    using demo_signs by blast
  have go: "msg_go (pe_env ?E) (VoteMsg [99] (demo_request b t))" if "0 \<le> t" "t \<le> 100" for b t using demo_request_go [OF that] by (simp del: msg_go.simps)
  have "signer_of ?E demo_key \<lparr>sg_files = fs, sg_running = Some pv', sg_released = VoteMsg [99] (demo_released 1) # sg_released s\<rparr>"
    using signer_of_step [OF s(1)] pv_step.vote [OF s(2) go s(4)] by simp
  then obtain kp sp where inv: "signer_inv ?E kp sp demo_key \<lparr>sg_files = fs, sg_running = Some pv', sg_released = VoteMsg [99] (demo_released 1) # sg_released s\<rparr>"
    using signer_of_inv [OF _ demo_lib] by blast
  have "lss_filePath (pv_LastSignState pv') = ''state''"
    using s(3,4) by (auto simp: SignVote_def signVote_def Let_def returns_Ok saveSigned_def split: if_splits)
  then obtain pv2 where pv2: "LoadFilePV (crypto (pe_env ?E)) fs kp (lss_filePath (pv_LastSignState pv)) = Ok pv2" "k_PrivKey (pv_Key pv2) = demo_key"
    using inv s(3) by (auto simp: signer_inv_def LoadFilePV_def loadFilePV_def Let_def demo_key_def SumTruncated_def)
  have sig: "v_Signature (demo_released 1) \<noteq> []" by (simp add: demo_released_def demo_sign_def)
  have "\<exists>bz. VoteSignBytes (pe_env ?E) [99] (demo_request b t) = Ok bz" for b t using demo_request_bytes by simp
  then obtain bz1 bz2 where bz: "VoteSignBytes (pe_env ?E) [99] (demo_request 1 9) = Ok bz1" "VoteSignBytes (pe_env ?E) [99] (demo_request 2 7) = Ok bz2" by blast
  note again = resign_after_crash [OF s(1) demo_lib s(2) go s(4) sig pv2(1) go _ _ _ _ demo_extension [OF pv2(2)], where b' = True]
  have "(demo_request 1 9)\<lparr>v_Timestamp := v_Timestamp (demo_released 1), v_Signature := v_Signature (demo_released 1), v_ExtensionSignature := demo_ext 1\<rparr> = demo_released 1"
    by (simp add: demo_released_def demo_vote_def demo_request_def demo_unsigned_def)
  then have "SignVote ?E True fs pv2 [99] (demo_request 1 9) = Ok (fs, pv2, demo_released 1, None)" using again [of 9 1 bz1] bz(1) by simp
  moreover have "\<exists>v err. SignVote ?E True fs pv2 [99] (demo_request 2 7) = Ok (fs, pv2, v, Some err)" using again [of 7 2 bz2] bz(2) by simp
  ultimately show ?thesis by (intro exI [of _ fs] exI [of _ pv2]) auto
qed

section \<open>Agreement in a round\<close>

text \<open>
  An honest validator signs votes with its signer only: whatever vote verifies under its key is one the signer
  has released.
\<close>

definition honest :: "env \<Rightarrow> Validator \<Rightarrow> bool" where
  "honest e val \<longleftrightarrow> (\<exists>E key sg pk. pe_env E = e \<and> pv_lib_ok E \<and> signer_of E key sg \<and> PubKey val = Some pk \<and>
     (\<forall>c v bz sig. VoteSignBytes e c v = Ok bz \<and> VerifySignature (crypto e) pk bz sig \<longrightarrow>
        (\<exists>m \<in> set (sg_released sg). msg_bytes e m = Ok bz)))"

lemma released_vote:
  assumes "pv_lib_ok E" "signer_of E key sg" "m \<in> set (sg_released sg)" "msg_bytes (pe_env E) m = Ok bz"
    "VoteSignBytes (pe_env E) c v = Ok bz" "vote_in_range v" "IsVoteTypeValid (v_Type v)"
  shows "\<exists>d w. m = VoteMsg d w \<and> msg_slot m = msg_slot (VoteMsg c v)"
proof -
  have go: "msg_go (pe_env E) m" using released_unique [OF assms(2,1,3,3) refl] by blast
  show ?thesis
  proof (cases m)
    case (VoteMsg d w)
    then show ?thesis using VoteSignBytes_inj [OF pv_lib_time [OF assms(1)], of v w c bz d] assms(4-6) go by simp
  next
    case (ProposalMsg d p)
    then show ?thesis using vote_proposal_differ [OF assms(6) _ assms(7,5), of p "pe_env E" d bz] assms(4) go by simp
  qed
qed

lemma vote_ok_range:
  assumes "vote_ok v"
  shows "IsVoteTypeValid (v_Type v)" "is_i64 (v_Height v) \<Longrightarrow> is_i32 (v_Round v) \<Longrightarrow> vote_in_range v"
proof -
  show "IsVoteTypeValid (v_Type v)" using assms by (cases "IsVoteTypeValid (v_Type v)") (simp_all add: vote_ok_def Vote_ValidateBasic_def)
  then show "is_i64 (v_Height v) \<Longrightarrow> is_i32 (v_Round v) \<Longrightarrow> vote_in_range v"
    using assms by (auto simp: vote_in_range_def vote_ok_def IsVoteTypeValid_def is_i32_def)
qed

lemma honest_once:
  assumes "honest e (Validators vals ! i)" "genuine e s i v" "genuine e s' i v'" "vote_ok v" "vote_ok v'"
    "Validators (vs_valSet s) = Validators vals" "Validators (vs_valSet s') = Validators vals"
    "vs_height s = vs_height s'" "vs_round s = vs_round s'" "vs_signedMsgType s = vs_signedMsgType s'" "is_i64 (vs_height s')" "is_i32 (vs_round s')"
  shows "v_BlockID v = v_BlockID v'"
proof -
  obtain E key sg pk where E: "pe_env E = e" "pv_lib_ok E" "signer_of E key sg" "PubKey (Validators vals ! i) = Some pk"
      and only: "\<And>c v bz sig. VoteSignBytes e c v = Ok bz \<Longrightarrow> VerifySignature (crypto e) pk bz sig \<Longrightarrow> \<exists>m \<in> set (sg_released sg). msg_bytes e m = Ok bz"
    using assms(1) unfolding honest_def by blast
  have rng: "vote_in_range v" "vote_in_range v'" "IsVoteTypeValid (v_Type v)" "IsVoteTypeValid (v_Type v')"
    using vote_ok_range [OF assms(4)] vote_ok_range [OF assms(5)] assms(2,3,8-12) by (simp_all add: genuine_def)
  obtain bz where bz: "VoteSignBytes e (vs_chainID s) v = Ok bz" "VerifySignature (crypto e) pk bz (v_Signature v)"
    using genuine_signature [OF assms(2)] assms(6) E(4) by auto
  obtain m where m: "m \<in> set (sg_released sg)" "msg_bytes e m = Ok bz" using only [OF bz] by blast
  obtain bz' where bz': "VoteSignBytes e (vs_chainID s') v' = Ok bz'" "VerifySignature (crypto e) pk bz' (v_Signature v')"
    using genuine_signature [OF assms(3)] assms(7) E(4) by auto
  obtain m' where m': "m' \<in> set (sg_released sg)" "msg_bytes e m' = Ok bz'" using only [OF bz'] by blast
  have "msg_slot (VoteMsg (vs_chainID s) v) = msg_slot (VoteMsg (vs_chainID s') v')" using assms(2,3,8-10) by (simp add: genuine_def)
  then have "msg_slot m = msg_slot m'"
    using released_vote [OF E(2,3) m(1), unfolded E(1), OF m(2) bz(1) rng(1,3)] released_vote [OF E(2,3) m'(1), unfolded E(1), OF m'(2) bz'(1) rng(2,4)] by auto
  then have "bz = bz'" using released_unique [OF E(3,2) m(1) m'(1)] m(2) m'(2) E(1) by auto
  then show ?thesis using VoteSignBytes_inj [OF pv_lib_time [OF E(2)], unfolded E(1), OF rng(1,2) bz(1)] bz'(1) by simp
qed

text \<open>C1. Agreement in a round: if validators with at least two thirds of the voting power sign with a file-backed
  signer each, then any two nodes that see a majority at one height, round and vote type see it for the same block.\<close>

theorem round_agreement:
  assumes "vote_set_of e chainID h r t vals s" "vote_set_of e chainID h r t vals s'" "is_i64 h" "is_i32 r"
    "TwoThirdsMajority (Some s) = (b, True)" "TwoThirdsMajority (Some s') = (b', True)"
    "3 * power_of vals (\<lambda>i. \<not> honest e (Validators vals ! i)) \<le> total_power vals"
  shows "b = b'"
proof -
  note wf = vote_set_of_wf [OF assms(1)] and wf' = vote_set_of_wf [OF assms(2)]
  note [simp] = same_Validators_power [OF wf(7)] same_Validators_power [OF wf'(7)]
  have cn: "canonical e (\<lambda>_. False) s" "canonical e (\<lambda>_. False) s'" using wf(1) wf'(1) by (auto simp: voteset_wf_def voteset_inv_def)
  have "vs_maj23 s = Some b" "vs_maj23 s' = Some b'" using assms(5,6) by (simp_all add: TwoThirdsMajority_iff)
  then have "2 * total_power vals < 3 * power_of vals (votes_for s b)" "2 * total_power vals < 3 * power_of vals (votes_for s' b')"
    using majority_sound(1) [OF wf(1)] majority_sound(1) [OF wf'(1)] by auto
  from two_quorums [OF wf(2) this] assms(7)
  have "\<not> power_of vals (\<lambda>i. votes_for s b i \<and> votes_for s' b' i) \<le> power_of vals (\<lambda>i. \<not> honest e (Validators vals ! i))" by simp
  then obtain i where i: "i < val_count vals" "votes_for s b i" "votes_for s' b' i" "honest e (Validators vals ! i)"
    using power_of_mono [OF wf(2), of "\<lambda>i. votes_for s b i \<and> votes_for s' b' i" "\<lambda>i. \<not> honest e (Validators vals ! i)"] by blast
  obtain v v' where v: "vs_votes s ! i = Some v" "v_BlockID v = b" "vs_votes s' ! i = Some v'" "v_BlockID v' = b'"
    using i(2,3) by (auto simp: votes_for_def)
  have "v_BlockID v = v_BlockID v'"
    using honest_once [OF i(4) canonicalD(1) [OF cn(1) _ v(1)] canonicalD(1) [OF cn(2) _ v(3)] canonicalD(2) [OF cn(1) _ v(1)] canonicalD(2) [OF cn(2) _ v(3)]]
      wf wf' assms(3,4) i(1) by simp
  then show ?thesis using v by simp
qed

lemma demo_honest: "honest (demo_env [demo_bytes 1]) demo_val"
proof -
  let ?E = "demo_pv_env [demo_bytes 1]"
  obtain s pv fs pv' where s: "signer_of ?E demo_key s" "sg_running s = Some pv" "sg_released s = []"
      "SignVote ?E True (sg_files s) pv [99] (demo_request 1 7) = Ok (fs, pv', demo_released 1, None)"
    using demo_signs by blast
  let ?s1 = "\<lparr>sg_files = fs, sg_running = Some pv', sg_released = [VoteMsg [99] (demo_released 1)]\<rparr>"
  have go: "msg_go (pe_env ?E) (VoteMsg [99] (demo_request 1 7))" using demo_request_go [of 7] by (simp del: msg_go.simps)
  have "signer_of ?E demo_key ?s1" using signer_of_step [OF s(1)] pv_step.vote [OF s(2) go s(4)] s(3) by simp
  moreover have "msg_bytes (demo_env [demo_bytes 1]) (VoteMsg [99] (demo_released 1)) = Ok (demo_bytes 1)"
    by (simp add: demo_released_def VoteSignBytes_demo demo_sign_bytes)
  ultimately show ?thesis unfolding honest_def
    using demo_lib demo_signed_only [of "[demo_bytes 1]"]
    by (intro exI [of _ ?E] exI [of _ demo_key] exI [of _ ?s1] exI [of _ "Ed25519 (replicate 32 7)"] conjI)
       (auto simp: demo_val_def simp del: VerifySignature.simps)
qed

theorem round_agreement_witness:
  "\<exists>s s' b'. TwoThirdsMajority (Some s) = (demo_bid 1, True) \<and> TwoThirdsMajority (Some s') = (b', True) \<and> demo_bid 1 = b'"
proof -
  let ?e = "demo_env [demo_bytes 1]"
  obtain s where s: "vote_set_of ?e [99] 5 0 2 demo_vals s" "TwoThirdsMajority (Some s) = (demo_bid 1, True)"
    using demo_voted [of 1 "[demo_bytes 1]"] by auto
  have "power_of demo_vals (\<lambda>i. \<not> honest ?e (Validators demo_vals ! i)) = 0"
    using demo_honest by (simp add: power_of_def wsum_def val_power_def)
  then show ?thesis using round_agreement [OF s(1,1) _ _ s(2,2)] s(2) by (auto simp: is_i64_def is_i32_def)
qed

section \<open>Sign bytes\<close>

text \<open>C28. Sign bytes decode: the sign bytes of a vote and of a proposal are read back as the canonical vote and
  proposal they were made from.\<close>

theorem sign_bytes_roundtrip:
  assumes "time_decodes e tu" "int (length bz) < MaxInt64"
  shows "(VoteSignBytes e c v = Ok bz \<and> vote_in_range v \<longrightarrow>
      UnmarshalDelimited bz (\<lambda>b. CanonicalVote_Unmarshal tu b zero_CanonicalVote) = CanonicalizeVote c v) \<and>
    (ProposalSignBytes e c p = Ok bz \<and> proposal_in_range p \<longrightarrow>
      UnmarshalDelimited bz (\<lambda>b. CanonicalProposal_Unmarshal tu b zero_CanonicalProposal) = CanonicalizeProposal c p)"
  using vote_sign_bytes_decode proposal_sign_bytes_decode assms by blast

theorem sign_bytes_roundtrip_witness:
  "\<exists>cv. UnmarshalDelimited (demo_bytes 1) (\<lambda>b. CanonicalVote_Unmarshal toy_time b zero_CanonicalVote) = Ok cv \<and>
     cv_Height cv = 5 \<and> cv_BlockID cv = Some (demo_bid 1) \<and> cv_ChainID cv = [99]"
proof -
  have r: "demo_request 1 7 = demo_unsigned 1" by (simp add: demo_request_def demo_unsigned_def)
  have bz: "VoteSignBytes toy_env [99] (demo_unsigned 1) = Ok (demo_bytes 1)" by (rule demo_sign_bytes)
  then have "VoteSignBytes (demo_env []) [99] (demo_unsigned 1) = Ok (demo_bytes 1)" by (simp add: VoteSignBytes_demo)
  then have "vote_in_range (demo_unsigned 1)" "int (length (demo_bytes 1)) < MaxInt64"
    using demo_request_go [of 7 "[]" 1] r by simp_all
  then have "UnmarshalDelimited (demo_bytes 1) (\<lambda>b. CanonicalVote_Unmarshal toy_time b zero_CanonicalVote) = CanonicalizeVote [99] (demo_unsigned 1)"
    using sign_bytes_roundtrip [OF toy_time_decodes, of "demo_bytes 1" "[99]" "demo_unsigned 1"] bz by simp
  then show ?thesis by (simp add: CanonicalizeVote_def demo_CanonicalizeBlockID demo_unsigned_def)
qed

lemma raw_prefix: "\<exists>xs. RawBytesSignBytesPrefix = 67 # 79 # xs"
  by (simp add: RawBytesSignBytesPrefix_def)

lemma delimited_not_raw:
  assumes "\<And>y ys. m = y # ys \<Longrightarrow> y \<noteq> 79"
  shows "RawBytesSignBytesPrefix @ zs \<noteq> MarshalDelimited m"
proof
  assume *: "RawBytesSignBytesPrefix @ zs = MarshalDelimited m"
  obtain ps where "RawBytesSignBytesPrefix = 67 # 79 # ps" using raw_prefix by blast
  then have "uvarint (length m) @ m = 67 # 79 # (ps @ zs)" using * unfolding MarshalDelimited_def by (metis append_Cons)
  then obtain xs where xs: "uvarint (length m) @ m = 67 # 79 # xs" by blast
  have "length m < 128"
  proof (rule ccontr)
    assume "\<not> length m < 128"
    then have "(of_nat (length m mod 128 + 128) :: byte) = 67" using xs by (subst (asm) uvarint.simps) simp
    then have "unat (of_nat (length m mod 128 + 128) :: byte) = unat (67 :: byte)" by (simp only:)
    then show False using unat_byte [of "length m mod 128 + 128"] by simp
  qed
  then have "m = 79 # xs" using xs by (subst (asm) uvarint.simps) simp
  then show False using assms by blast
qed

text \<open>C29. Raw bytes are separate: what \<open>SignRawBytes\<close> signs is never the sign bytes of a vote of a valid type, of
  a proposal or of a vote extension.\<close>

theorem raw_bytes_separated:
  assumes "RawBytesMessageSignBytes chainID uniqueID rawBytes = Ok bz" "IsVoteTypeValid (v_Type v)"
  shows "VoteSignBytes e c v \<noteq> Ok bz \<and> ProposalSignBytes e c p \<noteq> Ok bz \<and> VoteExtensionSignBytes c w \<noteq> bz"
proof -
  obtain zs where bz: "bz = RawBytesSignBytesPrefix @ zs" using assms(1) by (auto simp: RawBytesMessageSignBytes_def split: if_splits)
  have "to_uint64 (v_Type v) \<noteq> 0" "to_uint64 ProposalType \<noteq> 0" using assms(2) by (auto simp: IsVoteTypeValid_def to_uint64_def)
  then have "VoteSignBytes e c v \<noteq> Ok bz" "ProposalSignBytes e c p \<noteq> Ok bz"
    using delimited_not_raw [of "0x08 # ms" for ms] unfolding bz
    by (auto simp: pb_varint_def elim!: VoteSignBytes_Ok ProposalSignBytes_Ok)
  moreover have "VoteExtensionSignBytes c w \<noteq> bz"
    unfolding bz VoteExtensionSignBytes_def
    by (intro not_sym [OF delimited_not_raw]) (auto simp: pb_bytes_def pb_msg_def pb_sfixed64_def split: if_splits)
  ultimately show ?thesis by simp
qed

theorem raw_bytes_separated_witness:
  "\<exists>bz. RawBytesMessageSignBytes [99] [1] [2] = Ok bz \<and> VoteSignBytes toy_env [99] (demo_unsigned 1) \<noteq> Ok bz"
proof -
  obtain bz where "RawBytesMessageSignBytes [99] [1] [2] = Ok bz" by (simp add: RawBytesMessageSignBytes_def)
  then show ?thesis using raw_bytes_separated [of "[99]" "[1]" "[2]" bz "demo_unsigned 1" toy_env "[99]"]
    by (auto simp: IsVoteTypeValid_def demo_unsigned_def)
qed

end
