(* ===== verification/LightTypes.thy ===== *)
theory LightTypes
  imports CommitVerification
begin

text \<open>
  Signed headers and light blocks (\<open>types/block.go\<close>, \<open>types/light.go\<close>) and the protobuf form of
  validator sets (\<open>types/validator_set.go\<close>). A pointer that may be nil is an option.
\<close>

section \<open>Validator sets\<close>

record ValidatorSetProto =
  vsp_Validators :: "ValidatorProto list"
  vsp_Proposer :: "ValidatorProto option"
  vsp_TotalVotingPower :: int

definition VS_ToProto :: "ValidatorSet option \<Rightarrow> ValidatorSetProto result" where
  "VS_ToProto vals =
     (if IsNilOrEmpty vals then Ok \<lparr>vsp_Validators = [], vsp_Proposer = None, vsp_TotalVotingPower = 0\<rparr>
      else bind_out (from_protos (\<lambda>v. Validator_ToProto (Some v)) (Validators (the vals))) (\<lambda>valsProto.
           bind_out (map_err (Wrapf ''toProto: validatorSet proposer error'') (Validator_ToProto (Proposer (the vals)))) (\<lambda>valProposer.
           Ok \<lparr>vsp_Validators = valsProto, vsp_Proposer = Some valProposer, vsp_TotalVotingPower = 0\<rparr>)))"

definition ValidatorSetFromProto :: "crypto_env \<Rightarrow> ValidatorSetProto option \<Rightarrow> ValidatorSet result" where
  "ValidatorSetFromProto cr vp =
     (case vp of None \<Rightarrow> Err (Errorf ''nil validator set'')
      | Some p \<Rightarrow>
          bind_out (from_protos (\<lambda>v. ValidatorFromProto (Some v)) (vsp_Validators p)) (\<lambda>valz.
          bind_out (checkAllKeysHaveSameType \<lparr>Validators = valz, Proposer = None, totalVotingPower = 0, allKeysHaveSameType = False\<rparr>) (\<lambda>vals.
          bind_out (map_err (Wrapf ''fromProto: validatorSet proposer error'') (ValidatorFromProto (vsp_Proposer p))) (\<lambda>proposer.
          bind_out (TotalVotingPowerSafe (vals\<lparr>Proposer := Some proposer\<rparr>)) (\<lambda>(_, vals).
          bind_out (VS_ValidateBasic cr (Some vals)) (\<lambda>_. Ok vals))))))"

section \<open>Signed headers\<close>

record SignedHeader =
  sh_Header :: "Header option"
  sh_Commit :: "Commit option"

definition SH_IsEmpty :: "SignedHeader \<Rightarrow> bool" where
  "SH_IsEmpty sh \<longleftrightarrow> sh_Header sh = None \<and> sh_Commit sh = None"

definition SH_ValidateBasic :: "env \<Rightarrow> SignedHeader \<Rightarrow> bytes \<Rightarrow> unit result" where
  "SH_ValidateBasic e sh chainID =
     (case sh_Header sh of None \<Rightarrow> Err (Errorf ''missing header'')
      | Some h \<Rightarrow> (case sh_Commit sh of None \<Rightarrow> Err (Errorf ''missing commit'')
      | Some c \<Rightarrow>
          bind_out (map_err (Wrapf ''invalid header'') (Header_ValidateBasic h)) (\<lambda>_.
          bind_out (map_err (Wrapf ''invalid commit'') (Commit_ValidateBasic c)) (\<lambda>_.
          if h_ChainID h \<noteq> chainID then Err (Errorf ''header belongs to another chain'')
          else if cm_Height c \<noteq> h_Height h then Err (Errorf ''header and commit height mismatch'')
          else bind_out (Header_Hash e (Some h)) (\<lambda>hhash.
               if hhash \<noteq> bid_Hash (cm_BlockID c) then Err (Errorf ''commit signs another block'') else Ok ())))))"

definition SH_ToProto :: "SignedHeader option \<Rightarrow> SignedHeader option" where
  "SH_ToProto sh = map_option (\<lambda>s. \<lparr>sh_Header = Header_ToProto (sh_Header s), sh_Commit = Commit_ToProto (sh_Commit s)\<rparr>) sh"

definition SignedHeaderFromProto :: "SignedHeader option \<Rightarrow> SignedHeader result" where
  "SignedHeaderFromProto shp =
     (case shp of None \<Rightarrow> Err (Errorf ''nil SignedHeader'')
      | Some p \<Rightarrow>
          bind_out (case sh_Header p of None \<Rightarrow> Ok None | Some h \<Rightarrow> map_out Some (HeaderFromProto (Some h))) (\<lambda>h.
          bind_out (case sh_Commit p of None \<Rightarrow> Ok None | Some c \<Rightarrow> map_out Some (CommitFromProto (Some c))) (\<lambda>c.
          Ok \<lparr>sh_Header = h, sh_Commit = c\<rparr>)))"

section \<open>Light blocks\<close>

record LightBlock =
  lb_SignedHeader :: "SignedHeader option"
  lb_ValidatorSet :: "ValidatorSet option"

definition LB_ValidateBasic :: "env \<Rightarrow> LightBlock \<Rightarrow> bytes \<Rightarrow> unit result" where
  "LB_ValidateBasic e lb chainID =
     (case lb_SignedHeader lb of None \<Rightarrow> Err (Errorf ''missing signed header'')
      | Some sh \<Rightarrow> (case lb_ValidatorSet lb of None \<Rightarrow> Err (Errorf ''missing validator set'')
      | Some vals \<Rightarrow>
          bind_out (map_err (Wrapf ''invalid signed header'') (SH_ValidateBasic e sh chainID)) (\<lambda>_.
          bind_out (map_err (Wrapf ''invalid validator set'') (VS_ValidateBasic (crypto e) (Some vals))) (\<lambda>_.
          bind_out (VS_Hash (crypto e) vals) (\<lambda>valSetHash.
          if h_ValidatorsHash (the (sh_Header sh)) \<noteq> valSetHash
          then Err (Errorf ''expected validator hash of header to match validator set hash'') else Ok ())))))"

record LightBlockProto =
  lbp_SignedHeader :: "SignedHeader option"
  lbp_ValidatorSet :: "ValidatorSetProto option"

definition LB_ToProto :: "LightBlock \<Rightarrow> LightBlockProto result" where
  "LB_ToProto lb =
     bind_out (case lb_ValidatorSet lb of None \<Rightarrow> Ok None | Some v \<Rightarrow> map_out Some (VS_ToProto (Some v))) (\<lambda>vals.
     Ok \<lparr>lbp_SignedHeader = SH_ToProto (lb_SignedHeader lb), lbp_ValidatorSet = vals\<rparr>)"

definition LightBlockFromProto :: "crypto_env \<Rightarrow> LightBlockProto option \<Rightarrow> LightBlock result" where
  "LightBlockFromProto cr pb =
     (case pb of None \<Rightarrow> Err (Errorf ''nil light block'')
      | Some p \<Rightarrow>
          bind_out (case lbp_SignedHeader p of None \<Rightarrow> Ok None | Some sh \<Rightarrow> map_out Some (SignedHeaderFromProto (Some sh))) (\<lambda>sh.
          bind_out (case lbp_ValidatorSet p of None \<Rightarrow> Ok None | Some vp \<Rightarrow> map_out Some (ValidatorSetFromProto cr (Some vp))) (\<lambda>vals.
          Ok \<lparr>lb_SignedHeader = sh, lb_ValidatorSet = vals\<rparr>)))"

text \<open>Reading a field of the header of a light block; a nil pointer on the way panics.\<close>

definition sh_hdr :: "SignedHeader \<Rightarrow> Header result" where
  "sh_hdr sh = (case sh_Header sh of None \<Rightarrow> Panic ''nil pointer dereference'' | Some h \<Rightarrow> Ok h)"

definition lb_hdr :: "LightBlock \<Rightarrow> Header result" where
  "lb_hdr lb = (case lb_SignedHeader lb of None \<Rightarrow> Panic ''nil pointer dereference'' | Some sh \<Rightarrow> sh_hdr sh)"

definition lb_Hash :: "env \<Rightarrow> LightBlock \<Rightarrow> bytes result" where
  "lb_Hash e lb = (case lb_SignedHeader lb of None \<Rightarrow> Panic ''nil pointer dereference'' | Some sh \<Rightarrow> Header_Hash e (sh_Header sh))"

end
