(* ===== verification/LightVerifier.thy ===== *)
theory LightVerifier
  imports LightTypes
begin

text \<open>
  The light client's verification of one header against another (\<open>light/verifier.go\<close>) with its errors
  (\<open>light/errors.go\<close>, \<open>light/provider/errors.go\<close>) and trust options (\<open>light/trust_options.go\<close>). A
  function that returns only an error gives it as an option: none is success.
\<close>

datatype light_error =
    ErrOldHeaderExpired go_time go_time
  | ErrNewValSetCantBeTrusted
  | ErrInvalidHeader go_error
  | ErrVerificationFailed int int light_error
  | ErrFailedHeaderCrossReferencing
  | ErrLightClientAttack
  | ErrNoWitnesses
  | ErrConflictingHeaders LightBlock nat
  | ErrProposerPrioritiesDiverge nat
  | ErrBadWitness light_error nat
  | ErrHeightTooHigh
  | ErrLightBlockNotFound
  | ErrNoResponse
  | ErrCanceled
  | ErrDeadlineExceeded
  | ErrBadLightBlock go_error
  | ErrStoreLightBlockNotFound
  | ErrNoDivergence
  | LightErr go_error
  | LightWrap string light_error

definition DefaultTrustLevel :: Fraction where
  "DefaultTrustLevel = \<lparr>Numerator = 1, Denominator = 3\<rparr>"

definition HeaderExpired :: "Header \<Rightarrow> int \<Rightarrow> go_time \<Rightarrow> bool" where
  "HeaderExpired h trustingPeriod now \<longleftrightarrow> \<not> h_Time h + trustingPeriod > now"

definition verifyNewHeaderAndVals :: "env \<Rightarrow> SignedHeader \<Rightarrow> ValidatorSet option \<Rightarrow> Header \<Rightarrow> go_time \<Rightarrow> int \<Rightarrow> unit result" where
  "verifyNewHeaderAndVals e untrustedHeader untrustedVals trusted now maxClockDrift =
     bind_out (map_err (Wrapf ''untrustedHeader.ValidateBasic failed'') (SH_ValidateBasic e untrustedHeader (h_ChainID trusted))) (\<lambda>_.
     bind_out (sh_hdr untrustedHeader) (\<lambda>untrusted.
     if h_Height untrusted \<le> h_Height trusted then Err (Errorf ''expected new header height to be greater than one of old header'')
     else if \<not> h_Time untrusted > h_Time trusted then Err (Errorf ''expected new header time to be after old header time'')
     else if \<not> h_Time untrusted < now + maxClockDrift then Err (Errorf ''new header has a time from the future'')
     else bind_out (case untrustedVals of None \<Rightarrow> Panic ''nil pointer dereference'' | Some vals \<Rightarrow> VS_Hash (crypto e) vals) (\<lambda>hash.
          if h_ValidatorsHash untrusted \<noteq> hash then Err (Errorf ''expected new header validators to match those that were supplied'')
          else Ok ())))"

text \<open>Continue after a call that returns no error, else return what becomes of its error.\<close>

definition on_err :: "unit result \<Rightarrow> (go_error \<Rightarrow> light_error) \<Rightarrow> (light_error option) result \<Rightarrow> (light_error option) result" where
  "on_err r f k = (case r of Ok _ \<Rightarrow> k | Err e \<Rightarrow> Ok (Some (f e)) | Panic s \<Rightarrow> Panic s)"

definition commit_blockID :: "SignedHeader \<Rightarrow> BlockID result" where
  "commit_blockID sh = (case sh_Commit sh of None \<Rightarrow> Panic ''nil pointer dereference'' | Some c \<Rightarrow> Ok (cm_BlockID c))"

definition VerifyNonAdjacent ::
  "env \<Rightarrow> batch_env \<Rightarrow> SignedHeader \<Rightarrow> ValidatorSet option \<Rightarrow> SignedHeader \<Rightarrow> ValidatorSet option \<Rightarrow> int \<Rightarrow> go_time \<Rightarrow> int \<Rightarrow>
     Fraction \<Rightarrow> (light_error option) result" where
  "VerifyNonAdjacent e be trustedHeader trustedVals untrustedHeader untrustedVals trustingPeriod now maxClockDrift trustLevel =
     bind_out (sh_hdr untrustedHeader) (\<lambda>untrusted.
     bind_out (sh_hdr trustedHeader) (\<lambda>trusted.
     if h_Height untrusted = i64 (h_Height trusted + 1) then Ok (Some (LightErr (Errorf ''headers must be non adjacent in height'')))
     else if HeaderExpired trusted trustingPeriod now then Ok (Some (ErrOldHeaderExpired (h_Time trusted + trustingPeriod) now))
     else on_err (verifyNewHeaderAndVals e untrustedHeader untrustedVals trusted now maxClockDrift) ErrInvalidHeader
         (on_err (VerifyCommitLightTrusting e be (h_ChainID trusted) trustedVals (sh_Commit untrustedHeader) trustLevel)
             (\<lambda>err. if err = ErrNotEnoughVotingPowerSigned then ErrNewValSetCantBeTrusted else LightErr err)
           (bind_out (commit_blockID untrustedHeader) (\<lambda>blockID.
            on_err (VerifyCommitLight e be (h_ChainID trusted) untrustedVals blockID (h_Height untrusted) (sh_Commit untrustedHeader))
              ErrInvalidHeader (Ok None))))))"

definition VerifyAdjacent ::
  "env \<Rightarrow> batch_env \<Rightarrow> SignedHeader \<Rightarrow> SignedHeader \<Rightarrow> ValidatorSet option \<Rightarrow> int \<Rightarrow> go_time \<Rightarrow> int \<Rightarrow> (light_error option) result" where
  "VerifyAdjacent e be trustedHeader untrustedHeader untrustedVals trustingPeriod now maxClockDrift =
     bind_out (sh_hdr untrustedHeader) (\<lambda>untrusted.
     bind_out (sh_hdr trustedHeader) (\<lambda>trusted.
     if h_Height untrusted \<noteq> i64 (h_Height trusted + 1) then Ok (Some (LightErr (Errorf ''headers must be adjacent in height'')))
     else if HeaderExpired trusted trustingPeriod now then Ok (Some (ErrOldHeaderExpired (h_Time trusted + trustingPeriod) now))
     else on_err (verifyNewHeaderAndVals e untrustedHeader untrustedVals trusted now maxClockDrift) ErrInvalidHeader
         (if h_ValidatorsHash untrusted \<noteq> h_NextValidatorsHash trusted
          then Ok (Some (LightErr (Errorf ''expected old header next validators to match those from new header'')))
          else bind_out (commit_blockID untrustedHeader) (\<lambda>blockID.
               on_err (VerifyCommitLight e be (h_ChainID trusted) untrustedVals blockID (h_Height untrusted) (sh_Commit untrustedHeader))
                 ErrInvalidHeader (Ok None)))))"

definition Verify ::
  "env \<Rightarrow> batch_env \<Rightarrow> SignedHeader \<Rightarrow> ValidatorSet option \<Rightarrow> SignedHeader \<Rightarrow> ValidatorSet option \<Rightarrow> int \<Rightarrow> go_time \<Rightarrow> int \<Rightarrow>
     Fraction \<Rightarrow> (light_error option) result" where
  "Verify e be trustedHeader trustedVals untrustedHeader untrustedVals trustingPeriod now maxClockDrift trustLevel =
     bind_out (sh_hdr untrustedHeader) (\<lambda>untrusted.
     bind_out (sh_hdr trustedHeader) (\<lambda>trusted.
     if h_Height untrusted \<noteq> i64 (h_Height trusted + 1)
     then VerifyNonAdjacent e be trustedHeader trustedVals untrustedHeader untrustedVals trustingPeriod now maxClockDrift trustLevel
     else VerifyAdjacent e be trustedHeader untrustedHeader untrustedVals trustingPeriod now maxClockDrift))"

text \<open>The multiplication is of \<open>uint64\<close> and wraps.\<close>

definition ValidateTrustLevel :: "Fraction \<Rightarrow> unit result" where
  "ValidateTrustLevel lvl =
     (if Numerator lvl * 3 < Denominator lvl \<or> Numerator lvl > Denominator lvl \<or> Denominator lvl = 0
      then Err (Errorf ''trustLevel must be within [1/3, 1]'') else Ok ())"

definition VerifyBackwards :: "env \<Rightarrow> Header \<Rightarrow> Header \<Rightarrow> (light_error option) result" where
  "VerifyBackwards e untrustedHeader trustedHeader =
     on_err (Header_ValidateBasic untrustedHeader) ErrInvalidHeader
       (if h_ChainID untrustedHeader \<noteq> h_ChainID trustedHeader then Ok (Some (ErrInvalidHeader (Errorf ''header belongs to another chain'')))
        else if \<not> h_Time untrustedHeader < h_Time trustedHeader
        then Ok (Some (ErrInvalidHeader (Errorf ''expected older header time to be before new header time'')))
        else bind_out (Header_Hash e (Some untrustedHeader)) (\<lambda>hash.
             if hash \<noteq> bid_Hash (h_LastBlockID trustedHeader)
             then Ok (Some (ErrInvalidHeader (Errorf ''older header hash does not match trusted header's last block''))) else Ok None))"

record TrustOptions =
  to_Period :: int
  to_Height :: int
  to_Hash :: bytes

definition TrustOptions_ValidateBasic :: "TrustOptions \<Rightarrow> unit result" where
  "TrustOptions_ValidateBasic opts =
     (if to_Period opts \<le> 0 then Err (Errorf ''negative or zero period'')
      else if to_Height opts \<le> 0 then Err (Errorf ''zero or negative height'')
      else if length (to_Hash opts) \<noteq> 32 then Err (Errorf ''expected hash size'')
      else Ok ())"

end
