(* ===== verification/LightStore.thy ===== *)
theory LightStore
  imports LightVerifier
begin

text \<open>
  The store of trusted light blocks (\<open>light/store/db/db.go\<close>). The database is the list of the stored blocks
  under their heights in the order of an iterator, which is ascending: \<open>lbKey\<close> pads the height to twenty
  digits. The prefix contains no slash, so that \<open>parseLbKey\<close> reads back every key \<open>lbKey\<close> wrote, and the
  database does not fail. A stored block is the protobuf message of the block; \<open>size\<close> is a \<open>uint16\<close>.
\<close>

record light_store =
  ls_db :: "(int \<times> LightBlockProto) list"
  ls_size :: nat

fun db_set :: "int \<Rightarrow> 'v \<Rightarrow> (int \<times> 'v) list \<Rightarrow> (int \<times> 'v) list" where
  "db_set k v [] = [(k, v)]"
| "db_set k v ((k', v') # db) = (if k < k' then (k, v) # (k', v') # db else if k = k' then (k, v) # db else (k', v') # db_set k v db)"

definition db_delete :: "int \<Rightarrow> (int \<times> 'v) list \<Rightarrow> (int \<times> 'v) list" where
  "db_delete k db = filter (\<lambda>(k', _). k' \<noteq> k) db"

definition store_save :: "light_store \<Rightarrow> int \<Rightarrow> LightBlockProto \<Rightarrow> light_store" where
  "store_save s h p = \<lparr>ls_db = db_set h p (ls_db s), ls_size = (ls_size s + 1) mod 65536\<rparr>"

definition store_delete :: "light_store \<Rightarrow> int \<Rightarrow> light_store" where
  "store_delete s h = \<lparr>ls_db = db_delete h (ls_db s), ls_size = (ls_size s + 65535) mod 65536\<rparr>"

definition SaveLightBlock :: "light_store \<Rightarrow> LightBlock \<Rightarrow> light_store result" where
  "SaveLightBlock s lb =
     bind_out (lb_hdr lb) (\<lambda>h.
     if h_Height h \<le> 0 then Panic ''negative or zero height''
     else bind_out (map_err (Wrapf ''unable to convert light block to protobuf'') (LB_ToProto lb)) (\<lambda>lbpb.
          Ok (store_save s (h_Height h) lbpb)))"

definition DeleteLightBlock :: "light_store \<Rightarrow> int \<Rightarrow> light_store result" where
  "DeleteLightBlock s height =
     (if height \<le> 0 then Panic ''negative or zero height''
      else Ok (store_delete s height))"

definition Store_LightBlock :: "crypto_env \<Rightarrow> light_store \<Rightarrow> int \<Rightarrow> (light_error + LightBlock) result" where
  "Store_LightBlock cr s height =
     (if height \<le> 0 then Panic ''negative or zero height''
      else (case map_of (ls_db s) height of
              None \<Rightarrow> Ok (Inl ErrStoreLightBlockNotFound)
            | Some p \<Rightarrow> (case LightBlockFromProto cr (Some p) of
                           Ok lb \<Rightarrow> Ok (Inr lb)
                         | Err err \<Rightarrow> Ok (Inl (LightErr (Wrapf ''proto conversion error'' err)))
                         | Panic m \<Rightarrow> Panic m)))"

definition LastLightBlockHeight :: "light_store \<Rightarrow> int" where
  "LastLightBlockHeight s = (case rev (ls_db s) of [] \<Rightarrow> -1 | (h, _) # _ \<Rightarrow> h)"

definition FirstLightBlockHeight :: "light_store \<Rightarrow> int" where
  "FirstLightBlockHeight s = (case ls_db s of [] \<Rightarrow> -1 | (h, _) # _ \<Rightarrow> h)"

definition LightBlockBefore :: "crypto_env \<Rightarrow> light_store \<Rightarrow> int \<Rightarrow> (light_error + LightBlock) result" where
  "LightBlockBefore cr s height =
     (if height \<le> 0 then Panic ''negative or zero height''
      else (case rev (filter (\<lambda>(h, _). h < height) (ls_db s)) of
              [] \<Rightarrow> Ok (Inl ErrStoreLightBlockNotFound)
            | (h, _) # _ \<Rightarrow> Store_LightBlock cr s h))"

definition Store_Prune :: "light_store \<Rightarrow> nat \<Rightarrow> light_store" where
  "Store_Prune s keep =
     (if ls_size s \<le> keep then s
      else (let numToPrune = ls_size s - keep; pruned = min numToPrune (length (ls_db s))
            in \<lparr>ls_db = drop pruned (ls_db s), ls_size = (ls_size s + 65536 - pruned) mod 65536\<rparr>))"

section \<open>The contract of a store\<close>

text \<open>What a client relies on: a store holds blocks by height, saving adds one, pruning and deleting only remove.\<close>

locale block_store =
  fixes wf :: "'s \<Rightarrow> bool" and blocks :: "'s \<Rightarrow> int \<Rightarrow> 'b option"
    and save :: "'s \<Rightarrow> int \<Rightarrow> 'b \<Rightarrow> 's" and delete :: "'s \<Rightarrow> int \<Rightarrow> 's" and prune :: "'s \<Rightarrow> nat \<Rightarrow> 's"
  assumes save_wf: "wf s \<Longrightarrow> 0 < h \<Longrightarrow> wf (save s h b)"
    and delete_wf: "wf s \<Longrightarrow> wf (delete s h)"
    and prune_wf: "wf s \<Longrightarrow> wf (prune s n)"
    and blocks_save: "wf s \<Longrightarrow> blocks (save s h b) k = (if k = h then Some b else blocks s k)"
    and blocks_delete: "wf s \<Longrightarrow> blocks (delete s h) k = (if k = h then None else blocks s k)"
    and blocks_prune: "wf s \<Longrightarrow> blocks (prune s n) k = Some b \<Longrightarrow> blocks s k = Some b"
begin

definition holds :: "(int \<Rightarrow> 'b \<Rightarrow> bool) \<Rightarrow> 's \<Rightarrow> bool" where
  "holds P s \<longleftrightarrow> wf s \<and> (\<forall>k b. blocks s k = Some b \<longrightarrow> P k b)"

lemma holds_save: "holds P s \<Longrightarrow> 0 < h \<Longrightarrow> P h b \<Longrightarrow> holds P (save s h b)"
  by (auto simp: holds_def save_wf blocks_save)

lemma holds_delete: "holds P s \<Longrightarrow> holds P (delete s h)"
  by (auto simp: holds_def delete_wf blocks_delete)

lemma holds_prune: "holds P s \<Longrightarrow> holds P (prune s n)"
  by (auto simp: holds_def prune_wf dest: blocks_prune)

end

lemma db_set_keys: "set (map fst (db_set k v db)) = insert k (set (map fst db))"
  by (induction k v db rule: db_set.induct) auto

lemma db_set_sorted: "sorted_wrt (<) (map fst db) \<Longrightarrow> sorted_wrt (<) (map fst (db_set k v db))"
proof (induction k v db rule: db_set.induct)
  case (2 k v k' v' db)
  then show ?case using db_set_keys [of k v db] by (auto simp: image_iff)
qed simp

lemma db_set_map_of: "sorted_wrt (<) (map fst db) \<Longrightarrow> map_of (db_set k v db) = (map_of db)(k \<mapsto> v)"
  by (induction k v db rule: db_set.induct) (auto simp: fun_eq_iff)

lemma db_delete_map_of: "map_of (db_delete k db) = (map_of db)(k := None)"
  by (induction db) (auto simp: db_delete_def fun_eq_iff)

lemma map_of_drop: "distinct (map fst db) \<Longrightarrow> map_of (drop n db) k = Some v \<Longrightarrow> map_of db k = Some v"
proof -
  assume d: "distinct (map fst db)" and m: "map_of (drop n db) k = Some v"
  then have "(k, v) \<in> set db" by (meson in_set_dropD map_of_SomeD)
  then show ?thesis using d by simp
qed

definition store_wf :: "light_store \<Rightarrow> bool" where
  "store_wf s \<longleftrightarrow> sorted_wrt (<) (map fst (ls_db s)) \<and> (\<forall>k \<in> set (map fst (ls_db s)). 0 < k)"

interpretation ls: block_store store_wf "\<lambda>s. map_of (ls_db s)" store_save store_delete Store_Prune
proof unfold_locales
  fix s :: light_store and h k :: int and b :: LightBlockProto and n :: nat
  assume wf: "store_wf s"
  then have dist: "distinct (map fst (ls_db s))" by (simp add: store_wf_def strict_sorted_iff)
  show "0 < h \<Longrightarrow> store_wf (store_save s h b)"
    using wf db_set_keys [of h b "ls_db s"] by (simp add: store_wf_def store_save_def db_set_sorted)
  show "store_wf (store_delete s h)"
    using wf by (auto simp: store_wf_def store_delete_def db_delete_def sorted_wrt_filter sorted_wrt_map)
  show "store_wf (Store_Prune s n)"
    using wf by (auto simp: store_wf_def Store_Prune_def Let_def drop_map [symmetric] sorted_wrt_drop dest: in_set_dropD)
  show "map_of (ls_db (store_save s h b)) k = (if k = h then Some b else map_of (ls_db s) k)"
    using wf by (simp add: store_wf_def store_save_def db_set_map_of)
  show "map_of (ls_db (store_delete s h)) k = (if k = h then None else map_of (ls_db s) k)"
    by (simp add: store_delete_def db_delete_map_of)
  show "map_of (ls_db (Store_Prune s n)) k = Some b \<Longrightarrow> map_of (ls_db s) k = Some b"
    using dist by (auto simp: Store_Prune_def Let_def split: if_splits dest: map_of_drop map_of_SomeD)
qed

end
