(* ===== verification/Loops.thy ===== *)
theory Loops
  imports Main
begin

text \<open>
  Loops that may not end: the body gives the loop's result, or the state of the next turn, or does not return
  itself. A loop that never ends has the value none. An invariant of the body holds of the result of a loop that
  returns, and a loop whose body always returns and decreases a well-founded relation does return.
\<close>

partial_function (option) iterate :: "('s \<Rightarrow> ('r + 's) option) \<Rightarrow> 's \<Rightarrow> 'r option" where
  "iterate f s = (case f s of None \<Rightarrow> None | Some (Inl r) \<Rightarrow> Some r | Some (Inr s') \<Rightarrow> iterate f s')"

lemma iterate_inv:
  assumes "iterate f s = Some r" "I s"
    and "\<And>s s'. I s \<Longrightarrow> f s = Some (Inr s') \<Longrightarrow> I s'"
    and "\<And>s r. I s \<Longrightarrow> f s = Some (Inl r) \<Longrightarrow> Q r"
  shows "Q r"
proof -
  have "g = f \<longrightarrow> I t \<longrightarrow> Q u" if "iterate g t = Some u" for g t u
    using that
  proof (rule iterate.raw_induct [rotated])
    fix it g t u
    assume IH: "\<And>s b y. it s b = Some y \<Longrightarrow> s = f \<longrightarrow> I b \<longrightarrow> Q y"
      and "(case g t of None \<Rightarrow> None | Some (Inl r) \<Rightarrow> Some r | Some (Inr s') \<Rightarrow> it g s') = Some u"
    then show "g = f \<longrightarrow> I t \<longrightarrow> Q u" using assms(3,4) by (auto split: option.splits sum.splits)
  qed
  then show ?thesis using assms(1,2) by blast
qed

lemma iterate_returns:
  assumes "wf R" "I s"
    and "\<And>s. I s \<Longrightarrow> f s \<noteq> None"
    and "\<And>s s'. I s \<Longrightarrow> f s = Some (Inr s') \<Longrightarrow> I s' \<and> (s', s) \<in> R"
  shows "\<exists>r. iterate f s = Some r"
  using assms(1,2)
proof (induction s rule: wf_induct_rule)
  case (less s)
  show ?case
  proof (cases "f s")
    case None
    then show ?thesis using assms(3) less.prems by simp
  next
    case (Some x)
    then show ?thesis
    proof (cases x)
      case (Inr s')
      then have "\<exists>r. iterate f s' = Some r" using less assms(4) Some by blast
      then show ?thesis using Some Inr by (subst iterate.simps) simp
    qed (subst iterate.simps, simp)
  qed
qed

end
