(* ===== verification/Evidence.thy ===== *)
theory Evidence
  imports LightTypes
begin

text \<open>
  Evidence of misbehaviour (\<open>types/evidence.go\<close>): two conflicting votes of one validator, and a block that
  conflicts with the chain, signed by validators the chain once had. The list of the validators an attack is
  attributed to distinguishes the nil slice, so it is an option; its elements are pointers.
\<close>

section \<open>Wire format\<close>

definition Vote_Marshal :: "env \<Rightarrow> Vote \<Rightarrow> bytes result" where
  "Vote_Marshal e m =
     map_out (\<lambda>t. pb_varint 0x08 (to_uint64 (v_Type m)) @ pb_varint 0x10 (to_uint64 (v_Height m)) @
                  pb_varint 0x18 (to_uint64 (v_Round m)) @ pb_msg 0x22 (BlockID_Marshal (v_BlockID m)) @ pb_msg 0x2a t @
                  pb_bytes 0x32 (v_ValidatorAddress m) @ pb_varint 0x38 (to_uint64 (v_ValidatorIndex m)) @
                  pb_bytes 0x42 (v_Signature m) @ pb_bytes 0x4a (v_Extension m) @ pb_bytes 0x52 (v_ExtensionSignature m))
       (StdTimeMarshal e (v_Timestamp m))"

definition Header_Marshal :: "env \<Rightarrow> Header \<Rightarrow> bytes result" where
  "Header_Marshal e m =
     map_out (\<lambda>t. pb_msg 0x0a (Consensus_Marshal (h_Version_Block m) (h_Version_App m)) @ pb_bytes 0x12 (h_ChainID m) @
                  pb_varint 0x18 (to_uint64 (h_Height m)) @ pb_msg 0x22 t @ pb_msg 0x2a (BlockID_Marshal (h_LastBlockID m)) @
                  pb_bytes 0x32 (h_LastCommitHash m) @ pb_bytes 0x3a (h_DataHash m) @ pb_bytes 0x42 (h_ValidatorsHash m) @
                  pb_bytes 0x4a (h_NextValidatorsHash m) @ pb_bytes 0x52 (h_ConsensusHash m) @ pb_bytes 0x5a (h_AppHash m) @
                  pb_bytes 0x62 (h_LastResultsHash m) @ pb_bytes 0x6a (h_EvidenceHash m) @ pb_bytes 0x72 (h_ProposerAddress m))
       (StdTimeMarshal e (h_Time m))"

definition Commit_Marshal :: "env \<Rightarrow> Commit \<Rightarrow> bytes result" where
  "Commit_Marshal e m =
     map_out (\<lambda>sigs. pb_varint 0x08 (to_uint64 (cm_Height m)) @ pb_varint 0x10 (to_uint64 (cm_Round m)) @
                  pb_msg 0x1a (BlockID_Marshal (cm_BlockID m)) @ concat (map (pb_msg 0x22) sigs))
       (from_protos (CommitSig_Marshal e) (cm_Signatures m))"

definition opt_marshal :: "byte \<Rightarrow> ('a \<Rightarrow> bytes result) \<Rightarrow> 'a option \<Rightarrow> bytes result" where
  "opt_marshal tag f m = (case m of None \<Rightarrow> Ok [] | Some x \<Rightarrow> map_out (pb_msg tag) (f x))"

definition SignedHeader_Marshal :: "env \<Rightarrow> SignedHeader \<Rightarrow> bytes result" where
  "SignedHeader_Marshal e m =
     bind_out (opt_marshal 0x0a (Header_Marshal e) (sh_Header m)) (\<lambda>h.
     bind_out (opt_marshal 0x12 (Commit_Marshal e) (sh_Commit m)) (\<lambda>c. Ok (h @ c)))"

definition ValidatorProto_Marshal :: "ValidatorProto \<Rightarrow> bytes" where
  "ValidatorProto_Marshal m =
     pb_bytes 0x0a (vp_Address m) @
     pb_msg 0x12 (case vp_PubKey m of None \<Rightarrow> [] | Some pk \<Rightarrow> PublicKey_Marshal pk) @
     pb_varint 0x18 (to_uint64 (vp_VotingPower m)) @ pb_varint 0x20 (to_uint64 (vp_ProposerPriority m))"

definition ValidatorSetProto_Marshal :: "ValidatorSetProto \<Rightarrow> bytes" where
  "ValidatorSetProto_Marshal m =
     concat (map (\<lambda>v. pb_msg 0x0a (ValidatorProto_Marshal v)) (vsp_Validators m)) @
     pb_opt 0x12 (map_option ValidatorProto_Marshal (vsp_Proposer m)) @ pb_varint 0x18 (to_uint64 (vsp_TotalVotingPower m))"

definition LightBlockProto_Marshal :: "env \<Rightarrow> LightBlockProto \<Rightarrow> bytes result" where
  "LightBlockProto_Marshal e m =
     map_out (\<lambda>sh. sh @ pb_opt 0x12 (map_option ValidatorSetProto_Marshal (lbp_ValidatorSet m)))
       (opt_marshal 0x0a (SignedHeader_Marshal e) (lbp_SignedHeader m))"

section \<open>Misbehaviour reported to the application\<close>

datatype MisbehaviorType = DUPLICATE_VOTE | LIGHT_CLIENT_ATTACK

record Misbehavior =
  mb_Type :: MisbehaviorType
  mb_Address :: bytes
  mb_Power :: int
  mb_Height :: int
  mb_Time :: go_time
  mb_TotalVotingPower :: int

section \<open>Duplicate votes\<close>

record DuplicateVoteEvidence =
  dve_VoteA :: "Vote option"
  dve_VoteB :: "Vote option"
  dve_TotalVotingPower :: int
  dve_ValidatorPower :: int
  dve_Timestamp :: go_time

definition NewDuplicateVoteEvidence :: "Vote option \<Rightarrow> Vote option \<Rightarrow> go_time \<Rightarrow> ValidatorSet option \<Rightarrow> DuplicateVoteEvidence result" where
  "NewDuplicateVoteEvidence vote1 vote2 blockTime valSet =
     (case (vote1, vote2) of
        (Some v1, Some v2) \<Rightarrow>
          (case valSet of None \<Rightarrow> Err (Errorf ''missing validator set'')
           | Some vals \<Rightarrow>
               (case GetByAddress vals (v_ValidatorAddress v1) of (idx, val) \<Rightarrow>
                  if idx = -1 then Err (Errorf ''validator not in validator set'')
                  else (let (voteA, voteB) = (if BlockID_Key (v_BlockID v1) < BlockID_Key (v_BlockID v2) then (v1, v2) else (v2, v1))
                        in bind_out (TotalVotingPower vals) (\<lambda>(total, _).
                           Ok \<lparr>dve_VoteA = Some voteA, dve_VoteB = Some voteB, dve_TotalVotingPower = total,
                               dve_ValidatorPower = VotingPower (the val), dve_Timestamp = blockTime\<rparr>))))
      | _ \<Rightarrow> Err (Errorf ''missing vote''))"

definition dve_a :: "DuplicateVoteEvidence \<Rightarrow> Vote result" where
  "dve_a dve = (case dve_VoteA dve of None \<Rightarrow> Panic ''nil pointer dereference'' | Some v \<Rightarrow> Ok v)"

definition dve_b :: "DuplicateVoteEvidence \<Rightarrow> Vote result" where
  "dve_b dve = (case dve_VoteB dve of None \<Rightarrow> Panic ''nil pointer dereference'' | Some v \<Rightarrow> Ok v)"

definition DVE_ABCI :: "DuplicateVoteEvidence \<Rightarrow> (Misbehavior list) result" where
  "DVE_ABCI dve =
     bind_out (dve_a dve) (\<lambda>a.
     Ok [\<lparr>mb_Type = DUPLICATE_VOTE, mb_Address = v_ValidatorAddress a, mb_Power = dve_ValidatorPower dve, mb_Height = v_Height a,
         mb_Time = dve_Timestamp dve, mb_TotalVotingPower = dve_TotalVotingPower dve\<rparr>])"

text \<open>The message has the fields of the struct.\<close>

definition DVE_ToProto :: "DuplicateVoteEvidence \<Rightarrow> DuplicateVoteEvidence" where
  "DVE_ToProto dve = dve\<lparr>dve_VoteA := map_option Vote_ToProto (dve_VoteA dve), dve_VoteB := map_option Vote_ToProto (dve_VoteB dve)\<rparr>"

definition DuplicateVoteEvidence_Marshal :: "env \<Rightarrow> DuplicateVoteEvidence \<Rightarrow> bytes result" where
  "DuplicateVoteEvidence_Marshal e m =
     bind_out (opt_marshal 0x0a (Vote_Marshal e) (dve_VoteA m)) (\<lambda>a.
     bind_out (opt_marshal 0x12 (Vote_Marshal e) (dve_VoteB m)) (\<lambda>b.
     bind_out (StdTimeMarshal e (dve_Timestamp m)) (\<lambda>t.
     Ok (a @ b @ pb_varint 0x18 (to_uint64 (dve_TotalVotingPower m)) @ pb_varint 0x20 (to_uint64 (dve_ValidatorPower m)) @ pb_msg 0x2a t))))"

definition DVE_Bytes :: "env \<Rightarrow> DuplicateVoteEvidence \<Rightarrow> bytes result" where
  "DVE_Bytes e dve = must (DuplicateVoteEvidence_Marshal e (DVE_ToProto dve))"

definition DVE_Hash :: "env \<Rightarrow> DuplicateVoteEvidence \<Rightarrow> bytes result" where
  "DVE_Hash e dve = map_out (sha (crypto e)) (DVE_Bytes e dve)"

definition DVE_Height :: "DuplicateVoteEvidence \<Rightarrow> int result" where
  "DVE_Height dve = map_out v_Height (dve_a dve)"

definition DVE_ValidateBasic :: "DuplicateVoteEvidence option \<Rightarrow> unit result" where
  "DVE_ValidateBasic dve =
     (case dve of None \<Rightarrow> Err (Errorf ''empty duplicate vote evidence'')
      | Some d \<Rightarrow>
          (case (dve_VoteA d, dve_VoteB d) of
             (Some a, Some b) \<Rightarrow>
               bind_out (map_err (Wrapf ''invalid VoteA'') (Vote_ValidateBasic a)) (\<lambda>_.
               bind_out (map_err (Wrapf ''invalid VoteB'') (Vote_ValidateBasic b)) (\<lambda>_.
               if BlockID_Key (v_BlockID a) \<ge> BlockID_Key (v_BlockID b) then Err (Errorf ''duplicate votes in invalid order'') else Ok ()))
           | _ \<Rightarrow> Err (Errorf ''one or both of the votes are empty'')))"

definition dve_vote_from_proto :: "Vote option \<Rightarrow> (Vote option) result" where
  "dve_vote_from_proto pv =
     (case pv of None \<Rightarrow> Ok None
      | Some p \<Rightarrow> bind_out (VoteFromProto (Some p)) (\<lambda>v. bind_out (Vote_ValidateBasic v) (\<lambda>_. Ok (Some v))))"

definition DuplicateVoteEvidenceFromProto :: "DuplicateVoteEvidence option \<Rightarrow> DuplicateVoteEvidence result" where
  "DuplicateVoteEvidenceFromProto pb =
     (case pb of None \<Rightarrow> Err (Errorf ''nil duplicate vote evidence'')
      | Some p \<Rightarrow>
          bind_out (dve_vote_from_proto (dve_VoteA p)) (\<lambda>vA.
          bind_out (dve_vote_from_proto (dve_VoteB p)) (\<lambda>vB.
          let dve = \<lparr>dve_VoteA = vA, dve_VoteB = vB, dve_TotalVotingPower = dve_TotalVotingPower p,
                     dve_ValidatorPower = dve_ValidatorPower p, dve_Timestamp = dve_Timestamp p\<rparr>
          in bind_out (DVE_ValidateBasic (Some dve)) (\<lambda>_. Ok dve))))"

section \<open>Attacks on light clients\<close>

record LightClientAttackEvidence =
  lca_ConflictingBlock :: "LightBlock option"
  lca_CommonHeight :: int
  lca_ByzantineValidators :: "Validator option list option"
  lca_TotalVotingPower :: int
  lca_Timestamp :: go_time

definition slice :: "'a list option \<Rightarrow> 'a list" where
  "slice xs = (case xs of None \<Rightarrow> [] | Some ys \<Rightarrow> ys)"

definition conflicting :: "LightClientAttackEvidence \<Rightarrow> LightBlock result" where
  "conflicting l = (case lca_ConflictingBlock l of None \<Rightarrow> Panic ''nil pointer dereference'' | Some b \<Rightarrow> Ok b)"

definition lb_commit :: "LightBlock \<Rightarrow> Commit result" where
  "lb_commit lb =
     (case lb_SignedHeader lb of None \<Rightarrow> Panic ''nil pointer dereference''
      | Some sh \<Rightarrow> (case sh_Commit sh of None \<Rightarrow> Panic ''nil pointer dereference'' | Some c \<Rightarrow> Ok c))"

definition tm2pb_Validator :: "crypto_env \<Rightarrow> Validator option \<Rightarrow> (bytes \<times> int) result" where
  "tm2pb_Validator cr val =
     (case val of None \<Rightarrow> Panic ''nil pointer dereference''
      | Some v \<Rightarrow> (case PubKey v of None \<Rightarrow> Panic ''nil pointer dereference''
      | Some pk \<Rightarrow> bind_out (PubKey_Address cr pk) (\<lambda>addr. Ok (addr, VotingPower v))))"

definition LCA_ABCI :: "crypto_env \<Rightarrow> LightClientAttackEvidence \<Rightarrow> (Misbehavior list) result" where
  "LCA_ABCI cr l =
     from_protos (\<lambda>val. map_out (\<lambda>(addr, pow).
         \<lparr>mb_Type = LIGHT_CLIENT_ATTACK, mb_Address = addr, mb_Power = pow, mb_Height = lca_CommonHeight l,
          mb_Time = lca_Timestamp l, mb_TotalVotingPower = lca_TotalVotingPower l\<rparr>) (tm2pb_Validator cr val))
       (slice (lca_ByzantineValidators l))"

definition ConflictingHeaderIsInvalid :: "LightClientAttackEvidence \<Rightarrow> Header \<Rightarrow> bool result" where
  "ConflictingHeaderIsInvalid l trustedHeader =
     bind_out (conflicting l) (\<lambda>cb. bind_out (lb_hdr cb) (\<lambda>h.
     Ok (h_ValidatorsHash trustedHeader \<noteq> h_ValidatorsHash h \<or> h_NextValidatorsHash trustedHeader \<noteq> h_NextValidatorsHash h \<or>
         h_ConsensusHash trustedHeader \<noteq> h_ConsensusHash h \<or> h_AppHash trustedHeader \<noteq> h_AppHash h \<or>
         h_LastResultsHash trustedHeader \<noteq> h_LastResultsHash h)))"

text \<open>
  \<open>sort.Sort(ValidatorsByVotingPower(validators))\<close>: the comparison dereferences both elements, and every element
  of a slice of two or more is compared. A slice to which nothing was appended is still nil.
\<close>

definition sort_pointers :: "Validator option list \<Rightarrow> (Validator option list option) result" where
  "sort_pointers vs =
     (if vs = [] then Ok None
      else if length vs \<ge> 2 \<and> None \<in> set vs then Panic ''nil pointer dereference''
      else if length vs = 1 then Ok (Some vs)
      else Ok (Some (map Some (sort_by_power (map the vs)))))"

definition lunatic_signers :: "ValidatorSet \<Rightarrow> CommitSig list \<Rightarrow> Validator option list" where
  "lunatic_signers commonVals sigs =
     concat (map (\<lambda>commitSig.
       if cs_BlockIDFlag commitSig \<noteq> BlockIDFlagCommit then []
       else (case snd (GetByAddress commonVals (cs_ValidatorAddress commitSig)) of None \<Rightarrow> [] | Some val \<Rightarrow> [Some val])) sigs)"

fun equivocation_signers :: "ValidatorSet \<Rightarrow> CommitSig list \<Rightarrow> CommitSig list \<Rightarrow> (Validator option list) result" where
  "equivocation_signers vals [] sigsB = Ok []"
| "equivocation_signers vals (sigA # sigsA) sigsB =
     (if cs_BlockIDFlag sigA \<noteq> BlockIDFlagCommit then equivocation_signers vals sigsA (drop 1 sigsB)
      else (case sigsB of [] \<Rightarrow> Panic ''index out of range''
            | sigB # sigsB' \<Rightarrow>
                if cs_BlockIDFlag sigB \<noteq> BlockIDFlagCommit then equivocation_signers vals sigsA sigsB'
                else map_out ((#) (snd (GetByAddress vals (cs_ValidatorAddress sigA)))) (equivocation_signers vals sigsA sigsB')))"

definition GetByzantineValidators :: "LightClientAttackEvidence \<Rightarrow> ValidatorSet option \<Rightarrow> SignedHeader \<Rightarrow> (Validator option list option) result" where
  "GetByzantineValidators l commonVals trusted =
     bind_out (sh_hdr trusted) (\<lambda>th.
     bind_out (ConflictingHeaderIsInvalid l th) (\<lambda>invalid.
     bind_out (conflicting l) (\<lambda>cb.
     bind_out (lb_commit cb) (\<lambda>commit.
     if invalid
     then (case commonVals of None \<Rightarrow> Panic ''nil pointer dereference''
           | Some vals \<Rightarrow> sort_pointers (lunatic_signers vals (cm_Signatures commit)))
     else (case sh_Commit trusted of None \<Rightarrow> Panic ''nil pointer dereference''
           | Some tc \<Rightarrow>
               if cm_Round tc = cm_Round commit
               then (case lb_ValidatorSet cb of None \<Rightarrow> Panic ''nil pointer dereference''
                     | Some vals \<Rightarrow> bind_out (equivocation_signers vals (cm_Signatures commit) (cm_Signatures tc)) sort_pointers)
               else Ok None)))))"

text \<open>
  The hash copies the block hash into all but the last of the bytes reserved for it, and that byte stays zero.
\<close>

definition LCA_Hash :: "env \<Rightarrow> LightClientAttackEvidence \<Rightarrow> bytes result" where
  "LCA_Hash e l =
     bind_out (conflicting l) (\<lambda>cb. bind_out (lb_Hash e cb) (\<lambda>hash.
     let buf = varint (lca_CommonHeight l); pre = take 31 hash
     in Ok (sha (crypto e) (pre @ replicate (32 - length pre) 0 @ buf))))"

definition LCA_ValidateBasic :: "env \<Rightarrow> LightClientAttackEvidence \<Rightarrow> unit result" where
  "LCA_ValidateBasic e l =
     (case lca_ConflictingBlock l of None \<Rightarrow> Err (Errorf ''conflicting block is nil'')
      | Some cb \<Rightarrow> (case lb_SignedHeader cb of None \<Rightarrow> Err (Errorf ''conflicting block missing signed header'')
      | Some sh \<Rightarrow> (case sh_Header sh of None \<Rightarrow> Err (Errorf ''conflicting block missing header'')
      | Some h \<Rightarrow>
          if lca_TotalVotingPower l \<le> 0 then Err (Errorf ''negative or zero total voting power'')
          else if lca_CommonHeight l \<le> 0 then Err (Errorf ''negative or zero common height'')
          else if lca_CommonHeight l > h_Height h then Err (Errorf ''common height is ahead of the conflicting block height'')
          else map_err (Wrapf ''invalid conflicting light block'') (LB_ValidateBasic e cb (h_ChainID h)))))"

record LCAProto =
  lcap_ConflictingBlock :: "LightBlockProto option"
  lcap_CommonHeight :: int
  lcap_ByzantineValidators :: "ValidatorProto list"
  lcap_TotalVotingPower :: int
  lcap_Timestamp :: go_time

definition LCA_ToProto :: "LightClientAttackEvidence \<Rightarrow> LCAProto result" where
  "LCA_ToProto l =
     bind_out (case lca_ConflictingBlock l of None \<Rightarrow> Ok None | Some lb \<Rightarrow> map_out Some (LB_ToProto lb)) (\<lambda>cb.
     bind_out (from_protos Validator_ToProto (slice (lca_ByzantineValidators l))) (\<lambda>byzVals.
     Ok \<lparr>lcap_ConflictingBlock = cb, lcap_CommonHeight = lca_CommonHeight l, lcap_ByzantineValidators = byzVals,
         lcap_TotalVotingPower = lca_TotalVotingPower l, lcap_Timestamp = lca_Timestamp l\<rparr>))"

definition LCAProto_Marshal :: "env \<Rightarrow> LCAProto \<Rightarrow> bytes result" where
  "LCAProto_Marshal e m =
     bind_out (opt_marshal 0x0a (LightBlockProto_Marshal e) (lcap_ConflictingBlock m)) (\<lambda>cb.
     bind_out (StdTimeMarshal e (lcap_Timestamp m)) (\<lambda>t.
     Ok (cb @ pb_varint 0x10 (to_uint64 (lcap_CommonHeight m)) @
         concat (map (\<lambda>v. pb_msg 0x1a (ValidatorProto_Marshal v)) (lcap_ByzantineValidators m)) @
         pb_varint 0x20 (to_uint64 (lcap_TotalVotingPower m)) @ pb_msg 0x2a t)))"

definition LCA_Bytes :: "env \<Rightarrow> LightClientAttackEvidence \<Rightarrow> bytes result" where
  "LCA_Bytes e l = must (bind_out (LCA_ToProto l) (LCAProto_Marshal e))"

definition LightClientAttackEvidenceFromProto :: "env \<Rightarrow> LCAProto option \<Rightarrow> LightClientAttackEvidence result" where
  "LightClientAttackEvidenceFromProto e lpb =
     (case lpb of None \<Rightarrow> Err (Errorf ''empty light client attack evidence'')
      | Some p \<Rightarrow>
          bind_out (LightBlockFromProto (crypto e) (lcap_ConflictingBlock p)) (\<lambda>cb.
          bind_out (from_protos (\<lambda>v. map_out Some (ValidatorFromProto (Some v))) (lcap_ByzantineValidators p)) (\<lambda>byzVals.
          let l = \<lparr>lca_ConflictingBlock = Some cb, lca_CommonHeight = lcap_CommonHeight p, lca_ByzantineValidators = Some byzVals,
                   lca_TotalVotingPower = lcap_TotalVotingPower p, lca_Timestamp = lcap_Timestamp p\<rparr>
          in bind_out (LCA_ValidateBasic e l) (\<lambda>_. Ok l))))"

section \<open>Evidence of either kind\<close>

datatype Evidence = DuplicateVote DuplicateVoteEvidence | LightClientAttack LightClientAttackEvidence

datatype EvidenceProto = Evidence_DuplicateVote DuplicateVoteEvidence | Evidence_LightClientAttack LCAProto

fun Evidence_Bytes :: "env \<Rightarrow> Evidence \<Rightarrow> bytes result" where
  "Evidence_Bytes e (DuplicateVote d) = DVE_Bytes e d"
| "Evidence_Bytes e (LightClientAttack l) = LCA_Bytes e l"

fun Evidence_Hash :: "env \<Rightarrow> Evidence \<Rightarrow> bytes result" where
  "Evidence_Hash e (DuplicateVote d) = DVE_Hash e d"
| "Evidence_Hash e (LightClientAttack l) = LCA_Hash e l"

fun Evidence_Height :: "Evidence \<Rightarrow> int result" where
  "Evidence_Height (DuplicateVote d) = DVE_Height d"
| "Evidence_Height (LightClientAttack l) = Ok (lca_CommonHeight l)"

fun Evidence_Time :: "Evidence \<Rightarrow> go_time" where
  "Evidence_Time (DuplicateVote d) = dve_Timestamp d"
| "Evidence_Time (LightClientAttack l) = lca_Timestamp l"

fun Evidence_ValidateBasic :: "env \<Rightarrow> Evidence \<Rightarrow> unit result" where
  "Evidence_ValidateBasic e (DuplicateVote d) = DVE_ValidateBasic (Some d)"
| "Evidence_ValidateBasic e (LightClientAttack l) = LCA_ValidateBasic e l"

fun Evidence_ABCI :: "env \<Rightarrow> Evidence \<Rightarrow> (Misbehavior list) result" where
  "Evidence_ABCI e (DuplicateVote d) = DVE_ABCI d"
| "Evidence_ABCI e (LightClientAttack l) = LCA_ABCI (crypto e) l"

definition EvidenceList_Hash :: "env \<Rightarrow> Evidence list \<Rightarrow> bytes result" where
  "EvidenceList_Hash e evl = bind_out (from_protos (Evidence_Bytes e) evl) (HashFromByteSlices (sha (crypto e)))"

fun EvidenceList_Has :: "env \<Rightarrow> Evidence list \<Rightarrow> Evidence \<Rightarrow> bool result" where
  "EvidenceList_Has e [] evidence = Ok False"
| "EvidenceList_Has e (ev # evl) evidence =
     bind_out (Evidence_Hash e evidence) (\<lambda>a. bind_out (Evidence_Hash e ev) (\<lambda>b.
     if a = b then Ok True else EvidenceList_Has e evl evidence))"

definition EvidenceList_ToABCI :: "env \<Rightarrow> Evidence list \<Rightarrow> (Misbehavior list) result" where
  "EvidenceList_ToABCI e evl = map_out concat (from_protos (Evidence_ABCI e) evl)"

definition EvidenceToProto :: "Evidence option \<Rightarrow> EvidenceProto result" where
  "EvidenceToProto evidence =
     (case evidence of None \<Rightarrow> Err (Errorf ''nil evidence'')
      | Some (DuplicateVote d) \<Rightarrow> Ok (Evidence_DuplicateVote (DVE_ToProto d))
      | Some (LightClientAttack l) \<Rightarrow> map_out Evidence_LightClientAttack (LCA_ToProto l))"

text \<open>The message may have no sum set: the inner option.\<close>

definition EvidenceFromProto :: "env \<Rightarrow> EvidenceProto option option \<Rightarrow> Evidence result" where
  "EvidenceFromProto e evidence =
     (case evidence of None \<Rightarrow> Err (Errorf ''nil evidence'')
      | Some None \<Rightarrow> Err (Errorf ''evidence is not recognized'')
      | Some (Some (Evidence_DuplicateVote d)) \<Rightarrow> map_out DuplicateVote (DuplicateVoteEvidenceFromProto (Some d))
      | Some (Some (Evidence_LightClientAttack l)) \<Rightarrow> map_out LightClientAttack (LightClientAttackEvidenceFromProto e (Some l)))"

end
