(* ===== verification/LightClient.thy ===== *)
theory LightClient
  imports LightStore Loops Evidence
begin

text \<open>
  The light client (\<open>light/client.go\<close>) and its detector of attacks (\<open>light/detector.go\<close>).

  A provider is a name; what it answers to a request is a parameter, a function of the number of requests made
  so far, so that a provider may change its answers. The order in which the concurrent requests to the
  witnesses are answered is a parameter too. The state of the client has the number of requests and the
  evidence it has sent. An operation gives the new state with an error or a value, or does not return.
\<close>

type_synonym provider = nat

record light_env =
  le_env :: env
  le_batch :: batch_env
  le_block :: "nat \<Rightarrow> provider \<Rightarrow> int \<Rightarrow> light_error + LightBlock"
  le_chainID :: "provider \<Rightarrow> bytes"
  le_order :: "nat \<Rightarrow> nat \<Rightarrow> nat list"

datatype verification_mode = sequential | skipping

text \<open>The questions the client asks of its user: the numbers and hashes of the two messages.\<close>

datatype action = Rollback int bytes int bytes | RemoveAll bytes bytes

record Client =
  c_chainID :: bytes
  c_trustingPeriod :: int
  c_verificationMode :: verification_mode
  c_trustLevel :: Fraction
  c_maxClockDrift :: int
  c_maxBlockLag :: int
  c_primary :: provider
  c_witnesses :: "provider list"
  c_trustedStore :: light_store
  c_latestTrustedBlock :: "LightBlock option"
  c_pruningSize :: nat
  c_confirmationFn :: "action \<Rightarrow> bool"
  c_clock :: nat
  c_reports :: "(provider \<times> LightClientAttackEvidence) list"

section \<open>Operations on the client\<close>

type_synonym 'a lc = "Client \<Rightarrow> (Client \<times> (light_error + 'a)) result option"

definition lc_return :: "'a \<Rightarrow> 'a lc" where
  "lc_return x c = Some (Ok (c, Inr x))"

definition lc_fail :: "light_error \<Rightarrow> 'a lc" where
  "lc_fail e c = Some (Ok (c, Inl e))"

definition lc_panic :: "string \<Rightarrow> 'a lc" where
  "lc_panic s c = Some (Panic s)"

text \<open>The value and the error of a call, both handed to what follows.\<close>

definition lc_then :: "'a lc \<Rightarrow> (light_error + 'a \<Rightarrow> 'b lc) \<Rightarrow> 'b lc" where
  "lc_then m f c =
     (case m c of None \<Rightarrow> None
      | Some (Ok (c', r)) \<Rightarrow> f r c'
      | Some (Err e) \<Rightarrow> Some (Err e)
      | Some (Panic s) \<Rightarrow> Some (Panic s))"

definition lc_try :: "'a lc \<Rightarrow> (light_error \<Rightarrow> 'b lc) \<Rightarrow> ('a \<Rightarrow> 'b lc) \<Rightarrow> 'b lc" where
  "lc_try m h f = lc_then m (\<lambda>r. case r of Inl e \<Rightarrow> h e | Inr x \<Rightarrow> f x)"

definition lc_bind :: "'a lc \<Rightarrow> ('a \<Rightarrow> 'b lc) \<Rightarrow> 'b lc" where
  "lc_bind m f = lc_try m lc_fail f"

definition lc_pure :: "'a result \<Rightarrow> 'a lc" where
  "lc_pure r = (case r of Ok x \<Rightarrow> lc_return x | Err e \<Rightarrow> lc_fail (LightErr e) | Panic s \<Rightarrow> lc_panic s)"

definition lc_sum :: "(light_error + 'a) result \<Rightarrow> 'a lc" where
  "lc_sum r = lc_bind (lc_pure r) (\<lambda>s. case s of Inl e \<Rightarrow> lc_fail e | Inr x \<Rightarrow> lc_return x)"

definition lc_get :: "(Client \<Rightarrow> 'a) \<Rightarrow> 'a lc" where
  "lc_get f c = lc_return (f c) c"

definition lc_modify :: "(Client \<Rightarrow> Client) \<Rightarrow> unit lc" where
  "lc_modify f c = lc_return () (f c)"

definition lc_loop :: "('s \<Rightarrow> ('r + 's) lc) \<Rightarrow> 's \<Rightarrow> 'r lc" where
  "lc_loop body s c =
     iterate (\<lambda>(s, c). case body s c of None \<Rightarrow> None
        | Some (Ok (c', Inr (Inl r))) \<Rightarrow> Some (Inl (Ok (c', Inr r)))
        | Some (Ok (c', Inr (Inr s'))) \<Rightarrow> Some (Inr (s', c'))
        | Some (Ok (c', Inl e)) \<Rightarrow> Some (Inl (Ok (c', Inl e)))
        | Some (Err e) \<Rightarrow> Some (Inl (Err e))
        | Some (Panic m) \<Rightarrow> Some (Inl (Panic m))) (s, c)"

definition lc_query :: "light_env \<Rightarrow> provider \<Rightarrow> int \<Rightarrow> LightBlock lc" where
  "lc_query le p height c = Some (Ok (c\<lparr>c_clock := Suc (c_clock c)\<rparr>, le_block le (c_clock c) p height))"

definition lb_signed :: "LightBlock \<Rightarrow> SignedHeader result" where
  "lb_signed lb = (case lb_SignedHeader lb of None \<Rightarrow> Panic ''nil pointer dereference'' | Some sh \<Rightarrow> Ok sh)"

definition lb_Height :: "LightBlock \<Rightarrow> int result" where
  "lb_Height lb = map_out h_Height (lb_hdr lb)"

definition lb_Time :: "LightBlock \<Rightarrow> go_time result" where
  "lb_Time lb = map_out h_Time (lb_hdr lb)"

definition lb_Validators :: "LightBlock \<Rightarrow> ValidatorSet result" where
  "lb_Validators lb = (case lb_ValidatorSet lb of None \<Rightarrow> Panic ''nil pointer dereference'' | Some vals \<Rightarrow> Ok vals)"

fun light_Unwrap :: "light_error \<Rightarrow> light_error option" where
  "light_Unwrap (ErrVerificationFailed from to reason) = Some reason"
| "light_Unwrap (LightWrap s e) = Some e"
| "light_Unwrap _ = None"

fun light_Is :: "light_error \<Rightarrow> light_error \<Rightarrow> bool" where
  "light_Is (ErrVerificationFailed from to reason) target = (ErrVerificationFailed from to reason = target \<or> light_Is reason target)"
| "light_Is (LightWrap s e) target = (LightWrap s e = target \<or> light_Is e target)"
| "light_Is e target = (e = target)"

definition NewNotFound :: light_error where
  "NewNotFound = LightWrap ''stack'' ErrLightBlockNotFound"

definition benign :: "light_error \<Rightarrow> bool" where
  "benign e \<longleftrightarrow> e = ErrNoResponse \<or> e = ErrLightBlockNotFound \<or> e = ErrHeightTooHigh"

section \<open>The trusted store\<close>

definition restoreTrustedLightBlock :: "light_env \<Rightarrow> unit lc" where
  "restoreTrustedLightBlock le =
     lc_bind (lc_get c_trustedStore) (\<lambda>s.
     let lastHeight = LastLightBlockHeight s
     in if lastHeight > 0
        then lc_try (lc_sum (Store_LightBlock (crypto (le_env le)) s lastHeight))
               (\<lambda>e. lc_fail (LightWrap ''can't get last trusted light block'' e))
               (\<lambda>trustedBlock. lc_modify (c_latestTrustedBlock_update (\<lambda>_. Some trustedBlock)))
        else lc_return ())"

definition Cleanup :: "unit lc" where
  "Cleanup = lc_modify (\<lambda>c. c\<lparr>c_latestTrustedBlock := None, c_trustedStore := Store_Prune (c_trustedStore c) 0\<rparr>)"

definition latest_block :: "Client \<Rightarrow> LightBlock result" where
  "latest_block c = (case c_latestTrustedBlock c of None \<Rightarrow> Panic ''nil pointer dereference'' | Some lb \<Rightarrow> Ok lb)"

definition cleanup_step :: "light_env \<Rightarrow> int \<Rightarrow> int \<Rightarrow> (unit + int) lc" where
  "cleanup_step le height prevHeight =
     lc_bind (lc_get c_trustedStore) (\<lambda>s.
     lc_try (lc_sum (LightBlockBefore (crypto (le_env le)) s prevHeight))
       (\<lambda>e. if e = ErrStoreLightBlockNotFound then lc_return (Inl ()) else lc_fail (LightWrap ''failed to get header'' e))
       (\<lambda>h. lc_bind (lc_pure (lb_Height h)) (\<lambda>hh.
            if hh \<le> height then lc_return (Inl ())
            else lc_bind (lc_pure (DeleteLightBlock s hh)) (\<lambda>s'.
                 lc_bind (lc_modify (c_trustedStore_update (\<lambda>_. s'))) (\<lambda>_. lc_return (Inr hh))))))"

definition cleanupAfter :: "light_env \<Rightarrow> int \<Rightarrow> unit lc" where
  "cleanupAfter le height =
     lc_bind (lc_get latest_block) (\<lambda>latest.
     lc_bind (lc_pure (bind_out latest lb_Height)) (\<lambda>prevHeight.
     lc_bind (lc_loop (cleanup_step le height) prevHeight) (\<lambda>_.
     lc_bind (lc_modify (c_latestTrustedBlock_update (\<lambda>_. None))) (\<lambda>_.
     restoreTrustedLightBlock le))))"

definition updateTrustedLightBlock :: "LightBlock \<Rightarrow> unit lc" where
  "updateTrustedLightBlock l =
     lc_bind (lc_get c_trustedStore) (\<lambda>s.
     lc_bind (lc_pure (map_err (Wrapf ''failed to save trusted header'') (SaveLightBlock s l))) (\<lambda>s'.
     lc_bind (lc_modify (\<lambda>c. c\<lparr>c_trustedStore := (if c_pruningSize c > 0 then Store_Prune s' (c_pruningSize c) else s')\<rparr>)) (\<lambda>_.
     lc_bind (lc_get c_latestTrustedBlock) (\<lambda>latest.
     lc_bind (case latest of None \<Rightarrow> lc_return True
              | Some b \<Rightarrow> lc_pure (bind_out (lb_Height l) (\<lambda>lh. map_out (\<lambda>bh. lh > bh) (lb_Height b)))) (\<lambda>newer.
     if newer then lc_modify (c_latestTrustedBlock_update (\<lambda>_. Some l)) else lc_return ())))))"

definition compareWithLatestHeight :: "int \<Rightarrow> int lc" where
  "compareWithLatestHeight height =
     lc_bind (lc_get (\<lambda>c. LastLightBlockHeight (c_trustedStore c))) (\<lambda>latestHeight.
     if latestHeight = -1 then lc_fail (LightErr (Errorf ''no headers exist''))
     else if height > latestHeight then lc_fail (LightErr (Errorf ''unverified header/valset requested''))
     else if height = 0 then lc_return latestHeight
     else if height < 0 then lc_fail (LightErr (Errorf ''negative height''))
     else lc_return height)"

definition TrustedLightBlock :: "light_env \<Rightarrow> int \<Rightarrow> LightBlock lc" where
  "TrustedLightBlock le height =
     lc_bind (compareWithLatestHeight height) (\<lambda>height.
     lc_bind (lc_get c_trustedStore) (\<lambda>s. lc_sum (Store_LightBlock (crypto (le_env le)) s height)))"

section \<open>Providers\<close>

fun remove_at :: "nat list \<Rightarrow> provider list \<Rightarrow> (provider list) result" where
  "remove_at [] ws = Ok ws"
| "remove_at (i # is) ws =
     (if i \<ge> length ws then Panic ''index out of range'' else remove_at is (butlast (ws[i := List.last ws])))"

definition removeWitnesses :: "nat list \<Rightarrow> unit lc" where
  "removeWitnesses indexes =
     lc_bind (lc_get c_witnesses) (\<lambda>ws.
     if length ws \<le> length indexes then lc_fail ErrNoWitnesses
     else lc_bind (lc_pure (remove_at (rev (sort indexes)) ws)) (\<lambda>ws'. lc_modify (c_witnesses_update (\<lambda>_. ws'))))"

text \<open>The answers of the witnesses to one request, the one that arrives first at the front.\<close>

fun primary_loop :: "bool \<Rightarrow> (nat \<times> (light_error + LightBlock)) list \<Rightarrow> nat list \<Rightarrow> light_error \<Rightarrow> LightBlock lc" where
  "primary_loop remove [] toRemove lastError =
     lc_then (removeWitnesses toRemove) (\<lambda>_. lc_fail lastError)"
| "primary_loop remove ((i, r) # rs) toRemove lastError =
     (case r of
        Inr lb \<Rightarrow>
          lc_bind (if remove then lc_return () else lc_modify (\<lambda>c. c\<lparr>c_witnesses := c_witnesses c @ [c_primary c]\<rparr>)) (\<lambda>_.
          lc_bind (lc_get c_witnesses) (\<lambda>ws.
          lc_bind (lc_pure (index ws (int i))) (\<lambda>p.
          lc_bind (lc_modify (c_primary_update (\<lambda>_. p))) (\<lambda>_.
          lc_bind (removeWitnesses (toRemove @ [i])) (\<lambda>_.
          lc_return lb)))))
      | Inl e \<Rightarrow>
          if benign e then primary_loop remove rs toRemove (if e = ErrLightBlockNotFound then NewNotFound else e)
          else primary_loop remove rs (toRemove @ [i]) e)"

definition findNewPrimary :: "light_env \<Rightarrow> int \<Rightarrow> bool \<Rightarrow> LightBlock lc" where
  "findNewPrimary le height remove =
     lc_bind (lc_get c_witnesses) (\<lambda>ws.
     if length ws = 0 then lc_fail ErrNoWitnesses
     else lc_bind (lc_get c_clock) (\<lambda>t.
          lc_bind (lc_modify (c_clock_update (\<lambda>_. t + length ws))) (\<lambda>_.
          primary_loop remove (map (\<lambda>i. (i, le_block le (t + i) (ws ! i) height)) (le_order le t (length ws))) [] ErrNoWitnesses)))"

definition lightBlockFromPrimary :: "light_env \<Rightarrow> int \<Rightarrow> LightBlock lc" where
  "lightBlockFromPrimary le height =
     lc_bind (lc_get c_primary) (\<lambda>p.
     lc_try (lc_query le p height)
       (\<lambda>err. if err = ErrCanceled \<or> err = ErrDeadlineExceeded then lc_fail err
              else if benign err then findNewPrimary le height False
              else findNewPrimary le height True)
       lc_return)"

section \<open>Skipping verification\<close>

definition lc_verify :: "light_env \<Rightarrow> LightBlock \<Rightarrow> LightBlock \<Rightarrow> go_time \<Rightarrow> (light_error option) lc" where
  "lc_verify le trusted new now =
     lc_bind (lc_get id) (\<lambda>c.
     lc_pure (bind_out (lb_signed trusted) (\<lambda>th. bind_out (lb_signed new) (\<lambda>uh.
       Verify (le_env le) (le_batch le) th (lb_ValidatorSet trusted) uh (lb_ValidatorSet new)
         (c_trustingPeriod c) now (c_maxClockDrift c) (c_trustLevel c)))))"

definition pivotHeight :: "int \<Rightarrow> int \<Rightarrow> int" where
  "pivotHeight verified upper = i64 (verified + i64 (i64 (upper - verified) * 9) sdiv 16)"

text \<open>One turn of the loop: the cache of blocks, the depth, the block verified last and the trace.\<close>

type_synonym skip_state = "LightBlock list \<times> nat \<times> LightBlock \<times> LightBlock list"

definition skip_step :: "light_env \<Rightarrow> provider \<Rightarrow> LightBlock \<Rightarrow> go_time \<Rightarrow> skip_state \<Rightarrow> (LightBlock list + skip_state) lc" where
  "skip_step le source newLightBlock now = (\<lambda>(blockCache, depth, verifiedBlock, trace).
     lc_bind (lc_pure (index blockCache (int depth))) (\<lambda>cur.
     lc_bind (lc_verify le verifiedBlock cur now) (\<lambda>err.
     lc_bind (lc_pure (lb_Height verifiedBlock)) (\<lambda>vh.
     lc_bind (lc_pure (lb_Height cur)) (\<lambda>ch.
     case err of
       None \<Rightarrow>
         if depth = 0 then lc_return (Inl (trace @ [newLightBlock]))
         else lc_return (Inr (take depth blockCache, 0, cur, trace @ [cur]))
     | Some e \<Rightarrow>
         if e = ErrNewValSetCantBeTrusted
         then if depth = length blockCache - 1
              then lc_try (lc_query le source (pivotHeight vh ch))
                     (\<lambda>providerErr. if benign providerErr then lc_fail e else lc_fail (ErrVerificationFailed vh (pivotHeight vh ch) providerErr))
                     (\<lambda>interimBlock. lc_return (Inr (blockCache @ [interimBlock, interimBlock], depth + 1, verifiedBlock, trace)))
              else lc_return (Inr (blockCache, depth + 1, verifiedBlock, trace))
         else lc_fail (ErrVerificationFailed vh ch e))))))"

definition verifySkipping :: "light_env \<Rightarrow> provider \<Rightarrow> LightBlock \<Rightarrow> LightBlock \<Rightarrow> go_time \<Rightarrow> LightBlock list lc" where
  "verifySkipping le source trustedBlock newLightBlock now =
     lc_loop (skip_step le source newLightBlock now) ([newLightBlock], 0, trustedBlock, [trustedBlock])"

section \<open>Detecting attacks\<close>

definition getTargetBlockOrLatest :: "light_env \<Rightarrow> nat \<Rightarrow> int \<Rightarrow> provider \<Rightarrow> (light_error + bool \<times> LightBlock) result" where
  "getTargetBlockOrLatest le t height witness =
     (case le_block le t witness 0 of Inl e \<Rightarrow> Ok (Inl e)
      | Inr lightBlock \<Rightarrow> bind_out (lb_Height lightBlock) (\<lambda>lh.
          if lh = height then Ok (Inr (True, lightBlock))
          else if lh > height
          then Ok (case le_block le (t + 1) witness height of Inl e \<Rightarrow> Inl e | Inr b \<Rightarrow> Inr (True, b))
          else Ok (Inr (False, lightBlock))))"

text \<open>The comparison of the hashes at the end of \<open>compareNewLightBlockWithWitness\<close>.\<close>

definition compare_hashes :: "light_env \<Rightarrow> LightBlock \<Rightarrow> LightBlock \<Rightarrow> nat \<Rightarrow> (light_error option) result" where
  "compare_hashes le l lightBlock witnessIndex =
     bind_out (lb_Hash (le_env le) l) (\<lambda>h1. bind_out (lb_Hash (le_env le) lightBlock) (\<lambda>h2.
     if h1 \<noteq> h2 then Ok (Some (ErrConflictingHeaders lightBlock witnessIndex))
     else bind_out (lb_Validators l) (\<lambda>v1. bind_out (lb_Validators lightBlock) (\<lambda>v2.
          if ProposerPriorityHash (crypto (le_env le)) v1 \<noteq> ProposerPriorityHash (crypto (le_env le)) v2
          then Ok (Some (ErrProposerPrioritiesDiverge witnessIndex)) else Ok None))))"

text \<open>A comparison makes at most five requests: \<open>t\<close> is the time of the first.\<close>

definition compareNewLightBlockWithWitness :: "light_env \<Rightarrow> nat \<Rightarrow> LightBlock \<Rightarrow> provider \<Rightarrow> nat \<Rightarrow> (light_error option) result" where
  "compareNewLightBlockWithWitness le t l witness witnessIndex =
     bind_out (lb_hdr l) (\<lambda>h.
     case le_block le t witness (h_Height h) of
       Inr lightBlock \<Rightarrow> compare_hashes le l lightBlock witnessIndex
     | Inl err \<Rightarrow>
         if err = ErrNoResponse \<or> err = ErrLightBlockNotFound \<or> err = ErrDeadlineExceeded \<or> err = ErrCanceled
         then Ok (Some (if err = ErrLightBlockNotFound then NewNotFound else err))
         else if err \<noteq> ErrHeightTooHigh then Ok (Some (ErrBadWitness err witnessIndex))
         else bind_out (getTargetBlockOrLatest le (t + 1) (h_Height h) witness) (\<lambda>r.
              case r of Inl e \<Rightarrow> Ok (Some e)
              | Inr (isTargetHeight, lightBlock) \<Rightarrow>
                  if isTargetHeight then compare_hashes le l lightBlock witnessIndex
                  else bind_out (lb_Time lightBlock) (\<lambda>lt.
                       if \<not> lt < h_Time h then Ok (Some (ErrConflictingHeaders lightBlock witnessIndex))
                       else bind_out (getTargetBlockOrLatest le (t + 3) (h_Height h) witness) (\<lambda>r.
                            case r of
                              Inl e \<Rightarrow> Ok (Some (if light_Is e ErrCanceled \<or> light_Is e ErrDeadlineExceeded then e else ErrBadWitness e witnessIndex))
                            | Inr (isTargetHeight, lightBlock) \<Rightarrow>
                                if isTargetHeight then compare_hashes le l lightBlock witnessIndex
                                else bind_out (lb_Time lightBlock) (\<lambda>lt.
                                     if \<not> lt < h_Time h then Ok (Some (ErrConflictingHeaders lightBlock witnessIndex))
                                     else Ok (Some ErrNoResponse))))))"

text \<open>The comparisons with all witnesses, in the order in which they finish.\<close>

definition compare_witnesses :: "light_env \<Rightarrow> LightBlock \<Rightarrow> (nat \<times> (light_error option) result) list lc" where
  "compare_witnesses le l =
     lc_bind (lc_get c_witnesses) (\<lambda>ws.
     lc_bind (lc_get c_clock) (\<lambda>t.
     lc_bind (lc_modify (c_clock_update (\<lambda>_. t + 5 * length ws))) (\<lambda>_.
     lc_return (map (\<lambda>i. (i, compareNewLightBlockWithWitness le (t + 5 * i) l (ws ! i) i)) (le_order le t (length ws))))))"

definition newLightClientAttackEvidence :: "LightBlock \<Rightarrow> LightBlock \<Rightarrow> LightBlock \<Rightarrow> LightClientAttackEvidence result" where
  "newLightClientAttackEvidence conflicted trusted common =
     (let ev = \<lparr>lca_ConflictingBlock = Some conflicted, lca_CommonHeight = 0, lca_ByzantineValidators = None,
               lca_TotalVotingPower = 0, lca_Timestamp = 0\<rparr>
      in bind_out (lb_hdr trusted) (\<lambda>th.
         bind_out (ConflictingHeaderIsInvalid ev th) (\<lambda>invalid.
         let base = (if invalid then common else trusted)
         in bind_out (lb_hdr base) (\<lambda>bh.
            bind_out (bind_out (lb_Validators base) TotalVotingPower) (\<lambda>(total, _).
            let ev = ev\<lparr>lca_CommonHeight := h_Height bh, lca_Timestamp := h_Time bh, lca_TotalVotingPower := total\<rparr>
            in bind_out (lb_signed trusted) (\<lambda>tsh.
               map_out (\<lambda>byz. ev\<lparr>lca_ByzantineValidators := byz\<rparr>) (GetByzantineValidators ev (lb_ValidatorSet common) tsh)))))))"

definition sendEvidence :: "LightClientAttackEvidence \<Rightarrow> provider \<Rightarrow> unit lc" where
  "sendEvidence ev receiver = lc_modify (\<lambda>c. c\<lparr>c_reports := c_reports c @ [(receiver, ev)]\<rparr>)"

definition skipping_failed :: "light_error \<Rightarrow> 'a lc" where
  "skipping_failed e = lc_fail (LightWrap ''verifySkipping of conflicting header failed'' e)"

text \<open>The rest of the trace, the block verified last (nil before the first) and the trace of the source.\<close>

fun examine_loop :: "light_env \<Rightarrow> LightBlock \<Rightarrow> provider \<Rightarrow> go_time \<Rightarrow> LightBlock list \<Rightarrow> LightBlock option \<Rightarrow> LightBlock list \<Rightarrow>
    (LightBlock list \<times> LightBlock) lc" where
  "examine_loop le targetBlock source now [] prev sourceTrace = lc_fail ErrNoDivergence"
| "examine_loop le targetBlock source now (traceBlock # rest) prev sourceTrace =
     lc_bind (lc_pure (lb_hdr traceBlock)) (\<lambda>trh.
     lc_bind (lc_pure (lb_hdr targetBlock)) (\<lambda>tah.
     if h_Height trh > h_Height tah
     then if h_Time trh > h_Time tah then lc_fail (LightErr (Errorf ''sanity check failed: expected traceblock to have a lesser time''))
          else (case prev of None \<Rightarrow> lc_panic ''nil pointer dereference''
                | Some p \<Rightarrow> lc_bind (lc_pure (lb_Height p)) (\<lambda>ph.
                    if ph \<noteq> h_Height tah
                    then lc_try (verifySkipping le source p targetBlock now) skipping_failed (\<lambda>st. lc_return (st, traceBlock))
                    else lc_return (sourceTrace, traceBlock)))
     else lc_try (if h_Height trh = h_Height tah then lc_return targetBlock else lc_query le source (h_Height trh))
            (\<lambda>e. lc_fail (LightWrap ''failed to examine trace'' e)) (\<lambda>sourceBlock.
          lc_bind (lc_pure (lb_Hash (le_env le) sourceBlock)) (\<lambda>shash.
          lc_bind (lc_pure (lb_Hash (le_env le) traceBlock)) (\<lambda>thash.
          case prev of
            None \<Rightarrow>
              if shash \<noteq> thash then lc_fail (LightErr (Errorf ''trusted block is different to the source's first block''))
              else examine_loop le targetBlock source now rest (Some sourceBlock) sourceTrace
          | Some p \<Rightarrow>
              lc_try (verifySkipping le source p sourceBlock now) skipping_failed (\<lambda>st.
              if shash \<noteq> thash then lc_return (st, traceBlock)
              else examine_loop le targetBlock source now rest (Some sourceBlock) st))))))"

definition examineConflictingHeaderAgainstTrace ::
  "light_env \<Rightarrow> LightBlock list \<Rightarrow> LightBlock \<Rightarrow> provider \<Rightarrow> go_time \<Rightarrow> (LightBlock list \<times> LightBlock) lc" where
  "examineConflictingHeaderAgainstTrace le trace targetBlock source now =
     lc_bind (lc_pure (lb_Height targetBlock)) (\<lambda>tah.
     lc_bind (lc_pure (bind_out (index trace 0) lb_Height)) (\<lambda>trh.
     if tah < trh then lc_fail (LightErr (Errorf ''target block has a height lower than the trusted height''))
     else examine_loop le targetBlock source now trace None []))"

definition report_attack :: "LightBlock list \<Rightarrow> LightBlock \<Rightarrow> provider \<Rightarrow> unit lc" where
  "report_attack trace conflicted receiver =
     lc_bind (lc_pure (index trace 0)) (\<lambda>commonBlock.
     lc_bind (lc_pure (index trace (int (length trace) - 1))) (\<lambda>trustedBlock.
     lc_bind (lc_pure (newLightClientAttackEvidence conflicted trustedBlock commonBlock)) (\<lambda>ev.
     sendEvidence ev receiver)))"

definition handleConflictingHeaders :: "light_env \<Rightarrow> LightBlock list \<Rightarrow> LightBlock \<Rightarrow> nat \<Rightarrow> go_time \<Rightarrow> unit lc" where
  "handleConflictingHeaders le primaryTrace challengingBlock witnessIndex now =
     lc_bind (lc_get c_witnesses) (\<lambda>ws.
     lc_bind (lc_pure (index ws (int witnessIndex))) (\<lambda>supportingWitness.
     lc_try (examineConflictingHeaderAgainstTrace le primaryTrace challengingBlock supportingWitness now)
       (\<lambda>_. lc_return ())
       (\<lambda>(witnessTrace, primaryBlock).
          lc_bind (report_attack witnessTrace primaryBlock supportingWitness) (\<lambda>_.
          lc_bind (lc_get c_primary) (\<lambda>primary.
          lc_try (examineConflictingHeaderAgainstTrace le witnessTrace primaryBlock primary now)
            (\<lambda>_. lc_fail ErrLightClientAttack)
            (\<lambda>(primaryTrace, witnessBlock).
               lc_bind (report_attack primaryTrace witnessBlock primary) (\<lambda>_. lc_fail ErrLightClientAttack)))))))"

fun divergence_loop :: "light_env \<Rightarrow> LightBlock list \<Rightarrow> go_time \<Rightarrow> (nat \<times> (light_error option) result) list \<Rightarrow> bool \<Rightarrow> nat list \<Rightarrow> unit lc" where
  "divergence_loop le primaryTrace now [] headerMatched toRemove =
     lc_bind (removeWitnesses toRemove) (\<lambda>_.
     if headerMatched then lc_return () else lc_fail ErrFailedHeaderCrossReferencing)"
| "divergence_loop le primaryTrace now ((i, r) # rs) headerMatched toRemove =
     lc_bind (lc_pure r) (\<lambda>err.
     case err of
       None \<Rightarrow> divergence_loop le primaryTrace now rs True toRemove
     | Some (ErrConflictingHeaders block wi) \<Rightarrow>
         lc_bind (handleConflictingHeaders le primaryTrace block wi now) (\<lambda>_.
         divergence_loop le primaryTrace now rs headerMatched (toRemove @ [wi]))
     | Some (ErrBadWitness reason wi) \<Rightarrow> divergence_loop le primaryTrace now rs headerMatched (toRemove @ [wi])
     | Some (ErrProposerPrioritiesDiverge wi) \<Rightarrow> lc_fail (ErrProposerPrioritiesDiverge wi)
     | Some e \<Rightarrow>
         if light_Is e ErrCanceled \<or> light_Is e ErrDeadlineExceeded then lc_fail e
         else divergence_loop le primaryTrace now rs headerMatched toRemove)"

definition detectDivergence :: "light_env \<Rightarrow> LightBlock list \<Rightarrow> go_time \<Rightarrow> unit lc" where
  "detectDivergence le primaryTrace now =
     (if length primaryTrace < 2 then lc_fail (LightErr (Errorf ''nil or single block primary trace''))
      else lc_bind (lc_get c_witnesses) (\<lambda>ws.
           if length ws = 0 then lc_fail ErrNoWitnesses
           else lc_bind (compare_witnesses le (List.last primaryTrace)) (\<lambda>rs.
                divergence_loop le primaryTrace now rs False [])))"

section \<open>Verifying a light block\<close>

text \<open>
  A replacement of the primary in the middle of a verification: the original error unless the new primary has
  the same target block.
\<close>

definition replace_primary :: "light_env \<Rightarrow> int \<Rightarrow> bytes result \<Rightarrow> light_error \<Rightarrow> (LightBlock \<Rightarrow> 'a lc) \<Rightarrow> 'a lc" where
  "replace_primary le height hash err k =
     lc_try (findNewPrimary le height True) (\<lambda>_. lc_fail err) (\<lambda>replacementBlock.
     lc_bind (lc_pure (lb_Hash (le_env le) replacementBlock)) (\<lambda>rh.
     lc_bind (lc_pure hash) (\<lambda>nh.
     if rh \<noteq> nh then lc_fail err else k replacementBlock)))"

definition lc_verify_adjacent :: "light_env \<Rightarrow> LightBlock \<Rightarrow> LightBlock \<Rightarrow> go_time \<Rightarrow> (light_error option) lc" where
  "lc_verify_adjacent le trusted new now =
     lc_bind (lc_get id) (\<lambda>c.
     lc_pure (bind_out (lb_signed trusted) (\<lambda>th. bind_out (lb_signed new) (\<lambda>uh.
       VerifyAdjacent (le_env le) (le_batch le) th uh (lb_ValidatorSet new) (c_trustingPeriod c) now (c_maxClockDrift c)))))"

definition sequential_step :: "light_env \<Rightarrow> LightBlock \<Rightarrow> go_time \<Rightarrow> int \<times> LightBlock \<times> LightBlock list \<Rightarrow>
    (unit + int \<times> LightBlock \<times> LightBlock list) lc" where
  "sequential_step le newLightBlock now = (\<lambda>(height, verifiedBlock, trace).
     lc_bind (lc_pure (lb_Height newLightBlock)) (\<lambda>nh.
     if \<not> height \<le> nh then lc_bind (detectDivergence le trace now) (\<lambda>_. lc_return (Inl ()))
     else lc_bind (lc_pure (lb_Height verifiedBlock)) (\<lambda>vh.
          lc_try (if height = nh then lc_return newLightBlock else lightBlockFromPrimary le height)
            (\<lambda>err. lc_fail (ErrVerificationFailed vh height err)) (\<lambda>interimBlock.
          lc_bind (lc_verify_adjacent le verifiedBlock interimBlock now) (\<lambda>err.
          lc_bind (lc_pure (lb_Height interimBlock)) (\<lambda>ih.
          case err of
            None \<Rightarrow> lc_return (Inr (i64 (height + 1), interimBlock, trace @ [interimBlock]))
          | Some reason \<Rightarrow>
              (let err = ErrVerificationFailed vh ih reason
               in case reason of
                    ErrInvalidHeader _ \<Rightarrow>
                      if ih = nh then lc_fail err
                      else replace_primary le nh (lb_Hash (le_env le) newLightBlock) err
                             (\<lambda>_. lc_return (Inr (height, verifiedBlock, trace)))
                  | _ \<Rightarrow> lc_fail err)))))))"

definition verifySequential :: "light_env \<Rightarrow> LightBlock \<Rightarrow> LightBlock \<Rightarrow> go_time \<Rightarrow> unit lc" where
  "verifySequential le trustedBlock newLightBlock now =
     lc_bind (lc_pure (lb_Height trustedBlock)) (\<lambda>th.
     lc_loop (sequential_step le newLightBlock now) (i64 (th + 1), trustedBlock, [trustedBlock]))"

text \<open>
  \<open>errors.Unwrap\<close> of an error that does not wrap another is nil, so that the case of a nil error is also the
  case of \<open>ErrNewValSetCantBeTrusted\<close>: the trace is then nil.
\<close>

definition primary_step :: "light_env \<Rightarrow> LightBlock \<Rightarrow> go_time \<Rightarrow> LightBlock \<Rightarrow> (unit + LightBlock) lc" where
  "primary_step le trustedBlock now newLightBlock =
     lc_bind (lc_get c_primary) (\<lambda>primary.
     lc_then (verifySkipping le primary trustedBlock newLightBlock now) (\<lambda>r.
     case (case r of Inl err \<Rightarrow> light_Unwrap err | Inr _ \<Rightarrow> None) of
       None \<Rightarrow> lc_bind (detectDivergence le (case r of Inr trace \<Rightarrow> trace | Inl _ \<Rightarrow> []) now) (\<lambda>_. lc_return (Inl ()))
     | Some (ErrInvalidHeader _) \<Rightarrow>
         (case r of
            Inl (ErrVerificationFailed from to reason) \<Rightarrow>
              lc_bind (lc_pure (lb_Height newLightBlock)) (\<lambda>nh.
              if to = nh then lc_fail (ErrVerificationFailed from to reason)
              else replace_primary le nh (lb_Hash (le_env le) newLightBlock) (ErrVerificationFailed from to reason)
                     (\<lambda>replacementBlock. lc_return (Inr replacementBlock)))
          | _ \<Rightarrow> lc_panic ''interface conversion'')
     | Some _ \<Rightarrow> (case r of Inl err \<Rightarrow> lc_fail err | Inr _ \<Rightarrow> lc_return (Inl ()))))"

definition verifySkippingAgainstPrimary :: "light_env \<Rightarrow> LightBlock \<Rightarrow> LightBlock \<Rightarrow> go_time \<Rightarrow> unit lc" where
  "verifySkippingAgainstPrimary le trustedBlock newLightBlock now = lc_loop (primary_step le trustedBlock now) newLightBlock"

definition backwards_step :: "light_env \<Rightarrow> Header \<times> Header \<Rightarrow> (unit + Header \<times> Header) lc" where
  "backwards_step le = (\<lambda>(verifiedHeader, newHeader).
     if \<not> h_Height verifiedHeader > h_Height newHeader
     then lc_bind (lc_pure (Header_Hash (le_env le) (Some verifiedHeader))) (\<lambda>vhash.
          lc_bind (lc_pure (Header_Hash (le_env le) (Some newHeader))) (\<lambda>nhash.
          if vhash \<noteq> nhash then lc_fail (ErrInvalidHeader (Errorf ''header hash does not match the verified header hash''))
          else lc_return (Inl ())))
     else lc_try (lightBlockFromPrimary le (i64 (h_Height verifiedHeader - 1)))
            (\<lambda>err. lc_fail (LightWrap ''failed to obtain the header'' err)) (\<lambda>interimBlock.
          lc_bind (lc_pure (lb_hdr interimBlock)) (\<lambda>interimHeader.
          lc_bind (lc_pure (VerifyBackwards (le_env le) interimHeader verifiedHeader)) (\<lambda>err.
          case err of
            None \<Rightarrow> lc_return (Inr (interimHeader, newHeader))
          | Some e \<Rightarrow>
              replace_primary le (h_Height newHeader) (Header_Hash (le_env le) (Some newHeader)) e (\<lambda>newPrimarysBlock.
              lc_bind (lc_pure (lb_hdr newPrimarysBlock)) (\<lambda>nh. lc_return (Inr (verifiedHeader, nh))))))))"

definition backwards :: "light_env \<Rightarrow> Header \<Rightarrow> Header \<Rightarrow> unit lc" where
  "backwards le trustedHeader newHeader = lc_loop (backwards_step le) (trustedHeader, newHeader)"

definition verifyFunc :: "light_env \<Rightarrow> LightBlock \<Rightarrow> LightBlock \<Rightarrow> go_time \<Rightarrow> unit lc" where
  "verifyFunc le trusted new now =
     lc_bind (lc_get c_verificationMode) (\<lambda>m.
     case m of sequential \<Rightarrow> verifySequential le trusted new now | skipping \<Rightarrow> verifySkippingAgainstPrimary le trusted new now)"

definition verifyLightBlock :: "light_env \<Rightarrow> LightBlock \<Rightarrow> go_time \<Rightarrow> unit lc" where
  "verifyLightBlock le newLightBlock now =
     lc_bind (lc_pure (lb_hdr newLightBlock)) (\<lambda>nh.
     lc_bind (lc_get c_trustedStore) (\<lambda>s.
     lc_bind (lc_get latest_block) (\<lambda>latest.
     lc_bind (lc_pure latest) (\<lambda>latestBlock.
     lc_bind (lc_pure (lb_Height latestBlock)) (\<lambda>lh.
     lc_bind
       (if h_Height nh \<ge> lh then verifyFunc le latestBlock newLightBlock now
        else if h_Height nh < FirstLightBlockHeight s
        then lc_try (lc_sum (Store_LightBlock (crypto (le_env le)) s (FirstLightBlockHeight s)))
               (\<lambda>e. lc_fail (LightWrap ''can't get first light block'' e)) (\<lambda>firstBlock.
             lc_bind (lc_pure (lb_hdr firstBlock)) (\<lambda>fh. backwards le fh nh))
        else lc_try (lc_sum (LightBlockBefore (crypto (le_env le)) s (h_Height nh)))
               (\<lambda>e. lc_fail (LightWrap ''can't get signed header before height'' e)) (\<lambda>closestBlock.
             verifyFunc le closestBlock newLightBlock now)) (\<lambda>_.
     updateTrustedLightBlock newLightBlock))))))"

definition Update :: "light_env \<Rightarrow> go_time \<Rightarrow> LightBlock option lc" where
  "Update le now =
     lc_bind (lc_get (\<lambda>c. LastLightBlockHeight (c_trustedStore c))) (\<lambda>lastTrustedHeight.
     if lastTrustedHeight = -1 then lc_return None
     else lc_bind (lightBlockFromPrimary le 0) (\<lambda>latestBlock.
          lc_bind (lc_pure (lb_Height latestBlock)) (\<lambda>h.
          if h > lastTrustedHeight then lc_bind (verifyLightBlock le latestBlock now) (\<lambda>_. lc_return (Some latestBlock))
          else lc_return None)))"

definition VerifyLightBlockAtHeight :: "light_env \<Rightarrow> int \<Rightarrow> go_time \<Rightarrow> LightBlock lc" where
  "VerifyLightBlockAtHeight le height now =
     (if height \<le> 0 then lc_fail (LightErr (Errorf ''negative or zero height''))
      else lc_try (TrustedLightBlock le height)
             (\<lambda>_. lc_bind (lightBlockFromPrimary le height) (\<lambda>l.
                  lc_bind (verifyLightBlock le l now) (\<lambda>_. lc_return l)))
             lc_return)"

definition VerifyHeader :: "light_env \<Rightarrow> Header option \<Rightarrow> go_time \<Rightarrow> unit lc" where
  "VerifyHeader le newHeader now =
     (case newHeader of None \<Rightarrow> lc_fail (LightErr (Errorf ''nil header''))
      | Some nh \<Rightarrow>
          if h_Height nh \<le> 0 then lc_fail (LightErr (Errorf ''negative or zero height''))
          else lc_bind (lc_pure (Header_Hash (le_env le) newHeader)) (\<lambda>nhash.
               lc_try (TrustedLightBlock le (h_Height nh))
                 (\<lambda>_. lc_try (lightBlockFromPrimary le (h_Height nh))
                        (\<lambda>e. lc_fail (LightWrap ''failed to retrieve light block from primary to verify against'' e)) (\<lambda>l.
                      lc_bind (lc_pure (lb_Hash (le_env le) l)) (\<lambda>lhash.
                      if lhash \<noteq> nhash then lc_fail (LightErr (Errorf ''light block header does not match newHeader''))
                      else verifyLightBlock le l now)))
                 (\<lambda>l. lc_bind (lc_pure (lb_Hash (le_env le) l)) (\<lambda>lhash.
                      if lhash \<noteq> nhash then lc_fail (LightErr (Errorf ''existing trusted header does not match newHeader''))
                      else lc_return ()))))"

section \<open>Starting a client\<close>

fun first_block_loop :: "(nat \<times> (light_error option) result) list \<Rightarrow> nat list \<Rightarrow> unit lc" where
  "first_block_loop [] toRemove = lc_then (removeWitnesses toRemove) (\<lambda>_. lc_return ())"
| "first_block_loop ((i, r) # rs) toRemove =
     lc_bind (lc_pure r) (\<lambda>err.
     case err of
       None \<Rightarrow> first_block_loop rs toRemove
     | Some (ErrConflictingHeaders block wi) \<Rightarrow> lc_fail (ErrConflictingHeaders block wi)
     | Some (ErrBadWitness reason wi) \<Rightarrow> first_block_loop rs (toRemove @ [wi])
     | Some (ErrProposerPrioritiesDiverge wi) \<Rightarrow> lc_fail (ErrProposerPrioritiesDiverge wi)
     | Some e \<Rightarrow>
         if light_Is e ErrCanceled \<or> light_Is e ErrDeadlineExceeded then lc_fail e else first_block_loop rs toRemove)"

definition compareFirstLightBlockWithWitnesses :: "light_env \<Rightarrow> LightBlock \<Rightarrow> unit lc" where
  "compareFirstLightBlockWithWitnesses le l =
     lc_bind (lc_get c_witnesses) (\<lambda>ws.
     if length ws = 0 then lc_fail ErrNoWitnesses
     else lc_bind (compare_witnesses le l) (\<lambda>rs. first_block_loop rs []))"

definition initializeWithTrustOptions :: "light_env \<Rightarrow> TrustOptions \<Rightarrow> unit lc" where
  "initializeWithTrustOptions le options =
     lc_bind (lightBlockFromPrimary le (to_Height options)) (\<lambda>l.
     lc_bind (lc_get c_chainID) (\<lambda>chainID.
     lc_bind (lc_pure (LB_ValidateBasic (le_env le) l chainID)) (\<lambda>_.
     lc_bind (lc_pure (lb_Hash (le_env le) l)) (\<lambda>lhash.
     if lhash \<noteq> to_Hash options then lc_fail (LightErr (Errorf ''expected header's hash''))
     else lc_bind (lc_pure (lb_commit l)) (\<lambda>commit.
          lc_bind (lc_pure (lb_Height l)) (\<lambda>h.
          lc_bind (lc_pure (map_err (Wrapf ''invalid commit'')
            (VerifyCommitLight (le_env le) (le_batch le) chainID (lb_ValidatorSet l) (cm_BlockID commit) h (Some commit)))) (\<lambda>_.
          lc_bind (compareFirstLightBlockWithWitnesses le l) (\<lambda>_.
          updateTrustedLightBlock l))))))))"

definition checkTrustedHeaderUsingOptions :: "light_env \<Rightarrow> TrustOptions \<Rightarrow> unit lc" where
  "checkTrustedHeaderUsingOptions le options =
     lc_bind (lc_get latest_block) (\<lambda>latest.
     lc_bind (lc_pure latest) (\<lambda>latestBlock.
     lc_bind (lc_pure (lb_Height latestBlock)) (\<lambda>lh.
     lc_bind (lc_pure (lb_Hash (le_env le) latestBlock)) (\<lambda>lhash.
     lc_bind (lc_get c_confirmationFn) (\<lambda>confirm.
     lc_bind
       (if to_Height options > lh
        then lc_bind (lightBlockFromPrimary le lh) (\<lambda>h. lc_bind (lc_pure (lb_Hash (le_env le) h)) (\<lambda>hash. lc_return (Some hash)))
        else if to_Height options = lh then lc_return (Some (to_Hash options))
        else if confirm (Rollback (to_Height options) (to_Hash options) lh lhash)
        then lc_try (cleanupAfter le (to_Height options)) (\<lambda>e. lc_fail (LightWrap ''cleanupAfter'' e)) (\<lambda>_. lc_return (Some (to_Hash options)))
        else lc_return None) (\<lambda>primaryHash.
     case primaryHash of None \<Rightarrow> lc_return ()
     | Some hash \<Rightarrow>
         lc_bind (lc_get latest_block) (\<lambda>latest.
         lc_bind (lc_pure (bind_out latest (lb_Hash (le_env le)))) (\<lambda>lhash.
         if hash \<noteq> lhash
         then if confirm (RemoveAll lhash hash) then Cleanup
              else lc_fail (LightErr (Errorf ''refused to remove the stored light blocks despite hashes mismatch''))
         else lc_return ()))))))))"

definition new_client :: "bytes \<Rightarrow> int \<Rightarrow> provider \<Rightarrow> provider list \<Rightarrow> light_store \<Rightarrow> Client" where
  "new_client chainID trustingPeriod primary witnesses trustedStore =
     \<lparr>c_chainID = chainID, c_trustingPeriod = trustingPeriod, c_verificationMode = skipping, c_trustLevel = DefaultTrustLevel,
      c_maxClockDrift = 10000000000, c_maxBlockLag = 10000000000, c_primary = primary, c_witnesses = witnesses,
      c_trustedStore = trustedStore, c_latestTrustedBlock = None, c_pruningSize = 1000, c_confirmationFn = (\<lambda>_. True),
      c_clock = 0, c_reports = []\<rparr>"

definition NewClientFromTrustedStore ::
  "light_env \<Rightarrow> bytes \<Rightarrow> int \<Rightarrow> provider \<Rightarrow> provider list \<Rightarrow> light_store \<Rightarrow> (Client \<Rightarrow> Client) list \<Rightarrow>
     (Client \<times> (light_error + unit)) result option" where
  "NewClientFromTrustedStore le chainID trustingPeriod primary witnesses trustedStore options =
     (let c = fold (\<lambda>f c. f c) options (new_client chainID trustingPeriod primary witnesses trustedStore)
      in if length (c_witnesses c) = 0 then lc_fail ErrNoWitnesses c
         else if \<exists>w \<in> set witnesses. le_chainID le w \<noteq> chainID then lc_fail (LightErr (Errorf ''witness is on another chain'')) c
         else lc_bind (lc_pure (ValidateTrustLevel (c_trustLevel c))) (\<lambda>_. restoreTrustedLightBlock le) c)"

definition NewClient ::
  "light_env \<Rightarrow> bytes \<Rightarrow> TrustOptions \<Rightarrow> provider \<Rightarrow> provider list \<Rightarrow> light_store \<Rightarrow> (Client \<Rightarrow> Client) list \<Rightarrow>
     (Client \<times> (light_error + unit)) result option" where
  "NewClient le chainID trustOptions primary witnesses trustedStore options =
     (case TrustOptions_ValidateBasic trustOptions of
        Ok _ \<Rightarrow>
          lc_bind (\<lambda>_. NewClientFromTrustedStore le chainID (to_Period trustOptions) primary witnesses trustedStore options) (\<lambda>_.
          lc_bind (lc_get c_latestTrustedBlock) (\<lambda>latest.
          lc_bind (if latest \<noteq> None then checkTrustedHeaderUsingOptions le trustOptions else lc_return ()) (\<lambda>_.
          lc_bind (lc_get c_latestTrustedBlock) (\<lambda>latest.
          lc_bind (case latest of None \<Rightarrow> lc_return True | Some b \<Rightarrow> lc_pure (map_out (\<lambda>h. h < to_Height trustOptions) (lb_Height b))) (\<lambda>behind.
          if behind then initializeWithTrustOptions le trustOptions else lc_return ())))))
          (new_client chainID (to_Period trustOptions) primary witnesses trustedStore)
      | Err e \<Rightarrow> lc_fail (LightErr (Wrapf ''invalid TrustOptions'' e)) (new_client chainID (to_Period trustOptions) primary witnesses trustedStore)
      | Panic m \<Rightarrow> Some (Panic m))"

end
