(* ===== verification/LightVerifierProps.thy ===== *)
theory LightVerifierProps
  imports VerifiedCommits LightVerifier
begin

text \<open>What the light client learns from a header that verifies against a trusted one.\<close>

section \<open>What a verified header satisfies\<close>

lemma on_err_None [simp]: "on_err r f k = Ok None \<longleftrightarrow> r = Ok () \<and> k = Ok None"
  by (cases r) (auto simp: on_err_def)

lemma SH_ValidateBasic_Ok:
  assumes "SH_ValidateBasic e sh chainID = Ok ()"
  obtains h c where "sh_Header sh = Some h" "sh_Commit sh = Some c" "h_ChainID h = chainID" "cm_Height c = h_Height h"
    "Header_Hash e (Some h) = Ok (bid_Hash (cm_BlockID c))" "Header_ValidateBasic h = Ok ()" "Commit_ValidateBasic c = Ok ()"
  using assms unfolding SH_ValidateBasic_def by (auto split: option.splits if_splits)

lemma verifyNewHeaderAndVals_Ok:
  assumes "verifyNewHeaderAndVals e uh uv t now drift = Ok ()"
  obtains u c vals where "sh_Header uh = Some u" "sh_Commit uh = Some c" "uv = Some vals" "h_ChainID u = h_ChainID t" "cm_Height c = h_Height u"
    "Header_Hash e (Some u) = Ok (bid_Hash (cm_BlockID c))" "h_Height t < h_Height u" "h_Time t < h_Time u" "h_Time u < now + drift"
    "VS_Hash (crypto e) vals = Ok (h_ValidatorsHash u)" "Header_ValidateBasic u = Ok ()" "Commit_ValidateBasic c = Ok ()"
proof -
  have sh: "SH_ValidateBasic e uh (h_ChainID t) = Ok ()" using assms by (auto simp: verifyNewHeaderAndVals_def)
  obtain vals where "uv = Some vals"
    using assms by (auto simp: verifyNewHeaderAndVals_def split: option.splits if_splits)
  with assms show thesis
    by (rule_tac SH_ValidateBasic_Ok [OF sh])
      (rule that; auto simp: verifyNewHeaderAndVals_def sh_hdr_def split: if_splits option.splits)
qed

text \<open>
  What the light client learns from a successful \<open>Verify\<close>: the link between a trusted and a new light block.
\<close>

definition light_link :: "env \<Rightarrow> Header \<Rightarrow> ValidatorSet \<Rightarrow> Header \<Rightarrow> Commit \<Rightarrow> ValidatorSet \<Rightarrow> Fraction \<Rightarrow> bool" where
  "light_link e t tvals u c uvals l \<longleftrightarrow>
     h_ChainID u = h_ChainID t \<and> h_Height t < h_Height u \<and> h_Time t < h_Time u \<and>
     cm_Height c = h_Height u \<and> Header_Hash e (Some u) = Ok (bid_Hash (cm_BlockID c)) \<and>
     VS_Hash (crypto e) uvals = Ok (h_ValidatorsHash u) \<and>
     2 * total_power uvals < 3 * power_of uvals (\<lambda>i. precommit_signed e (h_ChainID t) c (Validators uvals ! i) i) \<and>
     (if h_Height u = h_Height t + 1 then h_ValidatorsHash u = h_NextValidatorsHash t
      else total_power tvals * sint (Numerator l) <
        sint (Denominator l) * power_of tvals (\<lambda>i. \<exists>idx. precommit_signed e (h_ChainID t) c (Validators tvals ! i) idx))"

lemma Verify_parts:
  assumes "Verify e be th tv uh uv period now drift l = Ok None"
  obtains t u c uvals where "sh_Header th = Some t" "sh_Header uh = Some u" "sh_Commit uh = Some c" "uv = Some uvals"
    "\<not> HeaderExpired t period now" "verifyNewHeaderAndVals e uh uv t now drift = Ok ()"
    "VerifyCommitLight e be (h_ChainID t) (Some uvals) (cm_BlockID c) (h_Height u) (Some c) = Ok ()"
    "if h_Height u = i64 (h_Height t + 1) then h_ValidatorsHash u = h_NextValidatorsHash t
     else VerifyCommitLightTrusting e be (h_ChainID t) tv (Some c) l = Ok ()"
proof -
  obtain t u where tu: "sh_Header th = Some t" "sh_Header uh = Some u"
    using assms by (auto simp: Verify_def sh_hdr_def split: option.splits)
  then have new: "verifyNewHeaderAndVals e uh uv t now drift = Ok ()"
    using assms by (auto simp: Verify_def VerifyAdjacent_def VerifyNonAdjacent_def sh_hdr_def split: if_splits)
  then obtain c uvals where "sh_Commit uh = Some c" "uv = Some uvals" by (rule verifyNewHeaderAndVals_Ok)
  then show thesis
    using assms tu new
    by (intro that [of t u c uvals])
      (auto simp: Verify_def VerifyAdjacent_def VerifyNonAdjacent_def sh_hdr_def commit_blockID_def split: if_splits)
qed

lemma Verify_link:
  assumes "Verify e be th (Some tvals) uh (Some uvals) period now drift l = Ok None"
    "sh_Header th = Some t" "sh_Header uh = Some u" "sh_Commit uh = Some c"
    "batch_verifier_ok (crypto e) be" "powers_ok tvals" "is_i32 (int (val_count tvals))" "powers_ok uvals" "is_i32 (int (val_count uvals))"
    "0 \<le> sint (Numerator l)" "0 \<le> sint (Denominator l)" "is_i64 (h_Height t)" "is_i64 (h_Height u)"
  shows "light_link e t tvals u c uvals l" "now < h_Time t + period" "h_Time u < now + drift"
proof -
  obtain "\<not> HeaderExpired t period now" and new: "verifyNewHeaderAndVals e uh (Some uvals) t now drift = Ok ()" and
    light: "VerifyCommitLight e be (h_ChainID t) (Some uvals) (cm_BlockID c) (h_Height u) (Some c) = Ok ()" and
    trust: "if h_Height u = i64 (h_Height t + 1) then h_ValidatorsHash u = h_NextValidatorsHash t
     else VerifyCommitLightTrusting e be (h_ChainID t) (Some tvals) (Some c) l = Ok ()"
    using Verify_parts [OF assms(1)] assms(2-4) by (metis option.sel)
  then show "now < h_Time t + period" by (simp add: HeaderExpired_def)
  have hdr: "h_ChainID u = h_ChainID t" "cm_Height c = h_Height u" "Header_Hash e (Some u) = Ok (bid_Hash (cm_BlockID c))"
    "h_Height t < h_Height u" "h_Time t < h_Time u" "h_Time u < now + drift" "VS_Hash (crypto e) uvals = Ok (h_ValidatorsHash u)"
    using verifyNewHeaderAndVals_Ok [OF new] assms(3,4) by (metis option.sel)+
  then show "h_Time u < now + drift" by simp
  have "i64 (h_Height t + 1) = h_Height t + 1"
    using assms(12,13) hdr(4) by (intro i64_idI) (auto simp: is_i64_def)
  moreover note two = commit_two_thirds [OF assms(5,8,9) disjI2 [OF disjI1 [OF light]]]
  moreover have "h_Height u \<noteq> h_Height t + 1 \<Longrightarrow> total_power tvals * sint (Numerator l) <
      sint (Denominator l) * power_of tvals (\<lambda>i. \<exists>idx. precommit_signed e (h_ChainID t) c (Validators tvals ! i) idx)"
    using trust two assms(9) calculation(1) by (intro commit_trusted_fraction [OF assms(5-7) _ assms(10,11)]) auto
  ultimately show "light_link e t tvals u c uvals l"
    using hdr trust by (auto simp: light_link_def)
qed

end
