(* ===== verification/LightClientProps.thy ===== *)
theory LightClientProps
  imports LightClient LightVerifierProps
begin

text \<open>
  What the light client's operations do to its state, the soundness and the termination of skipping
  verification, and what it takes for a block to become trusted.
\<close>

section \<open>Reasoning about operations\<close>

lemma lc_then_cases:
  assumes "lc_then m f c = Some (Ok (c', r))"
  obtains c1 x where "m c = Some (Ok (c1, x))" "f x c1 = Some (Ok (c', r))"
  using assms unfolding lc_then_def by (auto split: option.splits result.splits prod.splits)

lemma lc_try_cases:
  assumes "lc_try m h f c = Some (Ok (c', r))"
  obtains (err) c1 e where "m c = Some (Ok (c1, Inl e))" "h e c1 = Some (Ok (c', r))"
    | (val) c1 x where "m c = Some (Ok (c1, Inr x))" "f x c1 = Some (Ok (c', r))"
  using assms unfolding lc_try_def by (elim lc_then_cases) (auto split: sum.splits)

lemma lc_bind_Inr:
  assumes "lc_bind m f c = Some (Ok (c', Inr y))"
  obtains c1 x where "m c = Some (Ok (c1, Inr x))" "f x c1 = Some (Ok (c', Inr y))"
  using assms unfolding lc_bind_def by (elim lc_try_cases) (auto simp: lc_fail_def)

lemma lc_simps [simp]:
  "lc_return x c = Some (Ok (c', r)) \<longleftrightarrow> c' = c \<and> r = Inr x"
  "lc_fail e c = Some (Ok (c', r)) \<longleftrightarrow> c' = c \<and> r = Inl e"
  "lc_panic s c \<noteq> Some (Ok (c', r))"
  "lc_get g c = Some (Ok (c', r)) \<longleftrightarrow> c' = c \<and> r = Inr (g c)"
  "lc_modify h c = Some (Ok (c', r')) \<longleftrightarrow> c' = h c \<and> r' = Inr ()"
  by (auto simp: lc_return_def lc_fail_def lc_panic_def lc_get_def lc_modify_def)

lemma lc_pure_Inr [simp]: "lc_pure r c = Some (Ok (c', Inr x)) \<longleftrightarrow> c' = c \<and> r = Ok x"
  by (cases r) (auto simp: lc_pure_def)

lemma lc_pure_Inl [simp]: "lc_pure r c = Some (Ok (c', Inl e)) \<longleftrightarrow> c' = c \<and> (\<exists>err. r = Err err \<and> e = LightErr err)"
  by (cases r) (auto simp: lc_pure_def)

lemma lc_pure_state: "lc_pure r c = Some (Ok (c', x)) \<Longrightarrow> c' = c"
  by (cases r) (auto simp: lc_pure_def)

definition loop_step :: "('s \<Rightarrow> ('r + 's) lc) \<Rightarrow> 's \<times> Client \<Rightarrow> ((Client \<times> (light_error + 'r)) result + 's \<times> Client) option" where
  "loop_step body = (\<lambda>(s, c). case body s c of None \<Rightarrow> None
        | Some (Ok (c', Inr (Inl r))) \<Rightarrow> Some (Inl (Ok (c', Inr r)))
        | Some (Ok (c', Inr (Inr s'))) \<Rightarrow> Some (Inr (s', c'))
        | Some (Ok (c', Inl e)) \<Rightarrow> Some (Inl (Ok (c', Inl e)))
        | Some (Err e) \<Rightarrow> Some (Inl (Err e))
        | Some (Panic m) \<Rightarrow> Some (Inl (Panic m)))"

lemma lc_loop_iterate: "lc_loop body s c = iterate (loop_step body) (s, c)"
  by (simp add: lc_loop_def loop_step_def)

lemma loop_step_Inr: "loop_step body (s, c) = Some (Inr (s', c')) \<longleftrightarrow> body s c = Some (Ok (c', Inr (Inr s')))"
  unfolding loop_step_def by (auto split: option.splits result.splits prod.splits sum.splits)

lemma loop_step_Ok:
  "loop_step body (s, c) = Some (Inl (Ok (c', r))) \<longleftrightarrow>
     (\<exists>x. r = Inr x \<and> body s c = Some (Ok (c', Inr (Inl x)))) \<or> (\<exists>e. r = Inl e \<and> body s c = Some (Ok (c', Inl e)))"
  unfolding loop_step_def by (auto split: option.splits result.splits prod.splits sum.splits)

lemma lc_loop_inv:
  assumes "lc_loop body s c = Some (Ok (c', r))" "I s c"
    and turn: "\<And>s c c1 s1. I s c \<Longrightarrow> body s c = Some (Ok (c1, Inr (Inr s1))) \<Longrightarrow> I s1 c1"
    and val: "\<And>s c c1 x. I s c \<Longrightarrow> body s c = Some (Ok (c1, Inr (Inl x))) \<Longrightarrow> Q c1 (Inr x)"
    and err: "\<And>s c c1 e. I s c \<Longrightarrow> body s c = Some (Ok (c1, Inl e)) \<Longrightarrow> Q c1 (Inl e)"
  shows "Q c' r"
proof -
  have "case Ok (c', r) of Ok (c', r) \<Rightarrow> Q c' r | _ \<Rightarrow> True"
  proof (rule iterate_inv [where I = "\<lambda>(s, c). I s c" and f = "loop_step body" and s = "(s, c)"])
    show "iterate (loop_step body) (s, c) = Some (Ok (c', r))" using assms(1) by (simp add: lc_loop_iterate)
    show "case (s, c) of (s, c) \<Rightarrow> I s c" using assms(2) by simp
  next
    fix t t' assume "case t of (s, c) \<Rightarrow> I s c" "loop_step body t = Some (Inr t')"
    then show "case t' of (s, c) \<Rightarrow> I s c" by (cases t; cases t') (auto simp: loop_step_Inr dest: turn)
  next
    fix t res assume t: "case t of (s, c) \<Rightarrow> I s c" "loop_step body t = Some (Inl res)"
    show "case res of Ok (c', r) \<Rightarrow> Q c' r | _ \<Rightarrow> True"
    proof (cases res)
      case (Ok p)
      then show ?thesis using t by (cases t; cases p) (auto simp: loop_step_Ok dest: val err)
    qed simp_all
  qed
  then show ?thesis by simp
qed

text \<open>An operation keeps a relation between the state before and after it.\<close>

definition lc_keeps :: "(Client \<Rightarrow> Client \<Rightarrow> bool) \<Rightarrow> 'a lc \<Rightarrow> bool" where
  "lc_keeps R m \<longleftrightarrow> (\<forall>c c' r. m c = Some (Ok (c', r)) \<longrightarrow> R c c')"

named_theorems keeps "operations that keep a relation"

locale lc_frame =
  fixes R :: "Client \<Rightarrow> Client \<Rightarrow> bool"
  assumes refl: "R c c" and trans: "R c c1 \<Longrightarrow> R c1 c2 \<Longrightarrow> R c c2"
begin

lemma keeps_return [keeps]: "lc_keeps R (lc_return x)"
  by (auto simp: lc_keeps_def refl)

lemma keeps_fail [keeps]: "lc_keeps R (lc_fail e)"
  by (auto simp: lc_keeps_def refl)

lemma keeps_panic [keeps]: "lc_keeps R (lc_panic s)"
  by (auto simp: lc_keeps_def)

lemma keeps_get [keeps]: "lc_keeps R (lc_get g)"
  by (auto simp: lc_keeps_def refl)

lemma keeps_pure [keeps]: "lc_keeps R (lc_pure r)"
  by (auto simp: lc_keeps_def refl dest!: lc_pure_state)

lemma keeps_modify: "(\<And>c. R c (h c)) \<Longrightarrow> lc_keeps R (lc_modify h)"
  by (auto simp: lc_keeps_def)

lemma keeps_then [keeps]: "lc_keeps R m \<Longrightarrow> (\<And>r. lc_keeps R (f r)) \<Longrightarrow> lc_keeps R (lc_then m f)"
  unfolding lc_keeps_def by (blast elim!: lc_then_cases intro: trans)

lemma keeps_try [keeps]: "lc_keeps R m \<Longrightarrow> (\<And>e. lc_keeps R (h e)) \<Longrightarrow> (\<And>x. lc_keeps R (f x)) \<Longrightarrow> lc_keeps R (lc_try m h f)"
  unfolding lc_try_def by (intro keeps) (auto split: sum.split)

lemma keeps_bind [keeps]: "lc_keeps R m \<Longrightarrow> (\<And>x. lc_keeps R (f x)) \<Longrightarrow> lc_keeps R (lc_bind m f)"
  unfolding lc_bind_def by (intro keeps)

lemma keeps_sum [keeps]: "lc_keeps R (lc_sum r)"
  unfolding lc_sum_def by (intro keeps) (auto split: sum.split intro: keeps)

lemma keeps_loop [keeps]:
  assumes "\<And>s. lc_keeps R (body s)"
  shows "lc_keeps R (lc_loop body s)"
  unfolding lc_keeps_def
proof (intro allI impI)
  fix c c' r assume loop: "lc_loop body s c = Some (Ok (c', r))"
  have step: "R c1 c2" if "body s c1 = Some (Ok (c2, r))" for s c1 c2 r
    using assms [of s] that by (auto simp: lc_keeps_def)
  show "R c c'"
    by (rule lc_loop_inv [where I = "\<lambda>s. R c" and Q = "\<lambda>c' r. R c c'", OF loop]) (rule refl, (erule trans, erule step)+)
qed

end

section \<open>Operations that return\<close>

definition lc_total :: "'a lc \<Rightarrow> bool" where
  "lc_total m \<longleftrightarrow> (\<forall>c. m c \<noteq> None)"

named_theorems total "operations that return"

lemma total_basic [total]:
  "lc_total (lc_return x)" "lc_total (lc_fail e)" "lc_total (lc_panic s)" "lc_total (lc_get g)" "lc_total (lc_modify h)" "lc_total (lc_query le p n)"
  by (auto simp: lc_total_def lc_return_def lc_fail_def lc_panic_def lc_get_def lc_modify_def lc_query_def)

lemma total_pure [total]: "lc_total (lc_pure r)"
  by (cases r) (auto simp: lc_pure_def intro: total)

lemma total_then [total]: "lc_total m \<Longrightarrow> (\<And>r. lc_total (f r)) \<Longrightarrow> lc_total (lc_then m f)"
  unfolding lc_total_def lc_then_def by (auto split: option.split result.split)

lemma total_try [total]: "lc_total m \<Longrightarrow> (\<And>e. lc_total (h e)) \<Longrightarrow> (\<And>x. lc_total (f x)) \<Longrightarrow> lc_total (lc_try m h f)"
  unfolding lc_try_def by (intro total) (auto split: sum.split)

lemma total_bind [total]: "lc_total m \<Longrightarrow> (\<And>x. lc_total (f x)) \<Longrightarrow> lc_total (lc_bind m f)"
  unfolding lc_bind_def by (intro total)

lemma lc_loop_returns:
  assumes "wf R" "I s c" "\<And>s. lc_total (body s)"
    and "\<And>s c c1 s1. I s c \<Longrightarrow> body s c = Some (Ok (c1, Inr (Inr s1))) \<Longrightarrow> I s1 c1 \<and> (s1, s) \<in> R"
  shows "\<exists>r. lc_loop body s c = Some r"
  unfolding lc_loop_iterate
proof (rule iterate_returns [where R = "inv_image R fst" and I = "\<lambda>(s, c). I s c"])
  show "wf (inv_image R fst)" using assms(1) by simp
  show "case (s, c) of (s, c) \<Rightarrow> I s c" using assms(2) by simp
  show "loop_step body t \<noteq> None" for t
    using assms(3) by (cases t) (auto simp: loop_step_def lc_total_def split: option.split result.split sum.split)
  show "(case t' of (s, c) \<Rightarrow> I s c) \<and> (t', t) \<in> inv_image R fst"
    if "case t of (s, c) \<Rightarrow> I s c" "loop_step body t = Some (Inr t')" for t t'
    using that assms(4) by (cases t; cases t') (auto simp: loop_step_Inr)
qed

section \<open>One turn of skipping verification\<close>

definition verifies :: "light_env \<Rightarrow> Client \<Rightarrow> go_time \<Rightarrow> LightBlock \<Rightarrow> LightBlock \<Rightarrow> (light_error option) result" where
  "verifies le c now trusted new =
     bind_out (lb_signed trusted) (\<lambda>th. bind_out (lb_signed new) (\<lambda>uh.
       Verify (le_env le) (le_batch le) th (lb_ValidatorSet trusted) uh (lb_ValidatorSet new)
         (c_trustingPeriod c) now (c_maxClockDrift c) (c_trustLevel c)))"

lemma lc_verify_verifies: "lc_verify le a b now c = lc_pure (verifies le c now a b) c"
  by (simp add: lc_verify_def lc_bind_def lc_try_def lc_then_def lc_get_def lc_return_def verifies_def)

lemma verifies_clock [simp]: "verifies le (c\<lparr>c_clock := t\<rparr>) = verifies le c"
  by (simp add: verifies_def fun_eq_iff)

lemma lc_query_Ok [simp]: "lc_query le p h c = Some (Ok (c', r)) \<longleftrightarrow> c' = c\<lparr>c_clock := Suc (c_clock c)\<rparr> \<and> le_block le (c_clock c) p h = r"
  by (auto simp: lc_query_def)

lemma index_Ok: "index xs (int i) = Ok x \<longleftrightarrow> i < length xs \<and> x = xs ! i"
  by (auto simp: index_def)

lemma skip_step_next:
  assumes "skip_step le source new now (cache, depth, v, trace) c = Some (Ok (c', Inr (Inr s')))"
  obtains (up) "depth < length cache" "depth \<noteq> 0" "verifies le c now v (cache ! depth) = Ok None"
      "s' = (take depth cache, 0, cache ! depth, trace @ [cache ! depth])" "c' = c"
    | (deeper) "depth < length cache - 1" "verifies le c now v (cache ! depth) = Ok (Some ErrNewValSetCantBeTrusted)"
      "s' = (cache, depth + 1, v, trace)" "c' = c"
    | (pivot) vh ch b where "cache \<noteq> []" "depth = length cache - 1" "verifies le c now v (cache ! depth) = Ok (Some ErrNewValSetCantBeTrusted)"
      "lb_Height v = Ok vh" "lb_Height (cache ! depth) = Ok ch" "le_block le (c_clock c) source (pivotHeight vh ch) = Inr b"
      "s' = (cache @ [b, b], depth + 1, v, trace)" "c' = c\<lparr>c_clock := Suc (c_clock c)\<rparr>"
proof -
  obtain err vh ch where d: "depth < length cache" and err: "verifies le c now v (cache ! depth) = Ok err"
      and h: "lb_Height v = Ok vh" "lb_Height (cache ! depth) = Ok ch"
      and k: "(case err of
       None \<Rightarrow>
         if depth = 0 then lc_return (Inl (trace @ [new]))
         else lc_return (Inr (take depth cache, 0, cache ! depth, trace @ [cache ! depth]))
     | Some e \<Rightarrow>
         if e = ErrNewValSetCantBeTrusted
         then if depth = length cache - 1
              then lc_try (lc_query le source (pivotHeight vh ch))
                     (\<lambda>providerErr. if benign providerErr then lc_fail e else lc_fail (ErrVerificationFailed vh (pivotHeight vh ch) providerErr))
                     (\<lambda>interimBlock. lc_return (Inr (cache @ [interimBlock, interimBlock], depth + 1, v, trace)))
              else lc_return (Inr (cache, depth + 1, v, trace))
         else lc_fail (ErrVerificationFailed vh ch e)) c = Some (Ok (c', Inr (Inr s')))"
    using assms unfolding skip_step_def prod.case
    by (elim lc_bind_Inr) (auto simp: lc_verify_verifies index_Ok)
  show thesis
  proof (cases err)
    case None
    then show ?thesis using k d err up by (auto split: if_splits)
  next
    case (Some e)
    show ?thesis
    proof (cases "e = ErrNewValSetCantBeTrusted \<and> depth = length cache - 1")
      case True
      then obtain b where "le_block le (c_clock c) source (pivotHeight vh ch) = Inr b" "s' = (cache @ [b, b], depth + 1, v, trace)"
          "c' = c\<lparr>c_clock := Suc (c_clock c)\<rparr>"
        using k Some by (auto split: if_splits elim!: lc_try_cases)
      then show ?thesis using pivot [of vh ch b] True d err h Some by (cases cache) auto
    next
      case False
      then show ?thesis using k Some d err deeper by (auto split: if_splits)
    qed
  qed
qed

lemma skip_step_done:
  assumes "skip_step le source new now (cache, depth, v, trace) c = Some (Ok (c', Inr (Inl t)))"
  shows "cache \<noteq> []" "depth = 0" "verifies le c now v (cache ! 0) = Ok None" "t = trace @ [new]" "c' = c"
  using assms unfolding skip_step_def prod.case
  by (elim lc_bind_Inr; auto simp: lc_verify_verifies index_Ok split: option.splits if_splits elim!: lc_try_cases)+

lemma skip_step_total: "lc_total (skip_step le source new now s)"
  unfolding skip_step_def lc_verify_def by (cases s) (auto intro!: total split: option.split)

section \<open>Skipping verification is sound\<close>

text \<open>A provider has answered a request with a block.\<close>

definition offered :: "light_env \<Rightarrow> provider \<Rightarrow> LightBlock \<Rightarrow> bool" where
  "offered le p b \<longleftrightarrow> (\<exists>t h. le_block le t p h = Inr b)"

lemma verifySkipping_chain:
  assumes "verifySkipping le source trusted new now c = Some (Ok (c', Inr t))"
  shows "2 \<le> length t" "hd t = trusted" "List.last t = new" "successively (\<lambda>a b. verifies le c now a b = Ok None) t"
    "\<forall>b \<in> set (tl t). b = new \<or> offered le source b"
proof -
  define I where "I s c1 \<longleftrightarrow> (case s of (cache, depth, v, trace) \<Rightarrow>
    verifies le c1 = verifies le c \<and> cache \<noteq> [] \<and> cache ! 0 = new \<and> trace \<noteq> [] \<and> hd trace = trusted \<and> List.last trace = v \<and>
    successively (\<lambda>a b. verifies le c now a b = Ok None) trace \<and>
    (\<forall>b \<in> set cache \<union> set (tl trace). b = new \<or> offered le source b))" for s :: skip_state and c1
  have "case (Inr t :: light_error + LightBlock list) of Inr t \<Rightarrow> 2 \<le> length t \<and> hd t = trusted \<and> List.last t = new \<and>
      successively (\<lambda>a b. verifies le c now a b = Ok None) t \<and> (\<forall>b \<in> set (tl t). b = new \<or> offered le source b) | _ \<Rightarrow> True"
  proof (rule lc_loop_inv [where I = I, OF assms [unfolded verifySkipping_def]])
    show "I ([new], 0, trusted, [trusted]) c" by (simp add: I_def)
  next
    fix s c1 c2 s1 assume I: "I s c1" and step: "skip_step le source new now s c1 = Some (Ok (c2, Inr (Inr s1)))"
    obtain cache depth v trace where s: "s = (cache, depth, v, trace)" by (cases s)
    show "I s1 c2"
      using step [unfolded s] I by (cases rule: skip_step_next) (auto simp: I_def s nth_append successively_append_iff offered_def dest: in_set_takeD)
  next
    fix s c1 c2 x assume I: "I s c1" and step: "skip_step le source new now s c1 = Some (Ok (c2, Inr (Inl x)))"
    obtain cache depth v trace where s: "s = (cache, depth, v, trace)" by (cases s)
    show "case (Inr x :: light_error + LightBlock list) of Inr t \<Rightarrow> 2 \<le> length t \<and> hd t = trusted \<and> List.last t = new \<and>
      successively (\<lambda>a b. verifies le c now a b = Ok None) t \<and> (\<forall>b \<in> set (tl t). b = new \<or> offered le source b) | _ \<Rightarrow> True"
      using skip_step_done [OF step [unfolded s]] I by (auto simp: I_def s successively_append_iff Suc_le_eq)
  qed simp
  then show "2 \<le> length t" "hd t = trusted" "List.last t = new" "successively (\<lambda>a b. verifies le c now a b = Ok None) t"
    "\<forall>b \<in> set (tl t). b = new \<or> offered le source b" by simp_all
qed

section \<open>Skipping verification returns\<close>

lemma on_err_Some:
  assumes "on_err r f k = Ok (Some e)"
  obtains (err) err where "r = Err err" "e = f err" | (ok) "r = Ok ()" "k = Ok (Some e)"
  using assms by (cases r) (auto simp: on_err_def)

lemma Verify_cant_be_trusted:
  assumes "Verify e be th tv uh uv period now drift l = Ok (Some ErrNewValSetCantBeTrusted)"
  obtains t u where "sh_Header th = Some t" "sh_Header uh = Some u" "h_Height t < h_Height u" "h_Height u \<noteq> i64 (h_Height t + 1)"
proof -
  obtain t u where tu: "sh_Header th = Some t" "sh_Header uh = Some u"
    using assms by (auto simp: Verify_def sh_hdr_def split: option.splits)
  have na: "h_Height u \<noteq> i64 (h_Height t + 1)"
    using assms tu by (auto simp: Verify_def VerifyAdjacent_def sh_hdr_def split: if_splits elim!: on_err_Some)
  then have "verifyNewHeaderAndVals e uh uv t now drift = Ok ()"
    using assms tu by (auto simp: Verify_def VerifyNonAdjacent_def sh_hdr_def split: if_splits elim!: on_err_Some)
  then have "h_Height t < h_Height u" by (rule verifyNewHeaderAndVals_Ok) (use tu in auto)
  then show thesis using that tu na by blast
qed

lemma Verify_higher:
  assumes "Verify e be th tv uh uv period now drift l = Ok None"
  obtains t u where "sh_Header th = Some t" "sh_Header uh = Some u" "h_Height t < h_Height u"
  using assms by (rule Verify_parts) (erule verifyNewHeaderAndVals_Ok, auto intro: that)

lemma lb_Height_simps: "lb_Height b = Ok h \<longleftrightarrow> (\<exists>sh hdr. lb_SignedHeader b = Some sh \<and> sh_Header sh = Some hdr \<and> h = h_Height hdr)"
  by (auto simp: lb_Height_def lb_hdr_def sh_hdr_def split: option.splits)

lemma verifies_higher:
  assumes "verifies le c now a b = Ok None"
  obtains ah bh where "lb_Height a = Ok ah" "lb_Height b = Ok bh" "ah < bh"
  using assms by (auto simp: verifies_def lb_signed_def lb_Height_simps split: option.splits elim!: Verify_higher)

lemma verifies_pivot:
  assumes "verifies le c now a b = Ok (Some ErrNewValSetCantBeTrusted)"
  obtains ah bh where "lb_Height a = Ok ah" "lb_Height b = Ok bh" "ah < bh" "bh \<noteq> i64 (ah + 1)"
  using assms by (auto simp: verifies_def lb_signed_def lb_Height_simps split: option.splits elim!: Verify_cant_be_trusted)

lemma pivot_between:
  assumes "0 \<le> a" "a < b" "b \<noteq> i64 (a + 1)" "b \<le> 2 ^ 59"
  shows "a < pivotHeight a b" "pivotHeight a b < b"
proof -
  have b: "a + 2 \<le> b" using assms i64_idI [of "a + 1"] by auto
  define d where "d = b - a"
  have d: "2 \<le> d" "d \<le> 2 ^ 59" using b assms by (auto simp: d_def)
  have "i64 d = d" "i64 (d * 9) = d * 9" using d by (simp_all add: i64_idI)
  moreover define q where "q = d * 9 div 16"
  moreover have "d * 9 = 16 * q + d * 9 mod 16" "0 \<le> d * 9 mod 16" "d * 9 mod 16 < 16" by (simp_all add: q_def)
  then have q: "1 \<le> q" "q < d" using d(1) by linarith+
  moreover have "i64 (a + q) = a + q" using assms d q by (intro i64_idI) (simp_all add: d_def)
  ultimately have p: "pivotHeight a b = a + q" using d by (simp add: pivotHeight_def flip: d_def)
  show "a < pivotHeight a b" "pivotHeight a b < b" using p q by (simp_all add: d_def)
qed

text \<open>A provider answers a request for a height with a block of that height.\<close>

definition provider_ok :: "light_env \<Rightarrow> provider \<Rightarrow> bool" where
  "provider_ok le p \<longleftrightarrow> (\<forall>t h b. 0 < h \<longrightarrow> le_block le t p h = Inr b \<longrightarrow> lb_Height b = Ok h)"

definition ht :: "LightBlock \<Rightarrow> int" where
  "ht b = (case lb_Height b of Ok h \<Rightarrow> h | _ \<Rightarrow> 0)"

lemma ht_Ok [simp]: "lb_Height b = Ok h \<Longrightarrow> ht b = h"
  by (simp add: ht_def)

definition skip_measure :: "LightBlock \<Rightarrow> skip_state \<Rightarrow> nat \<times> nat" where
  "skip_measure new = (\<lambda>(cache, depth, v, trace).
     (nat (ht new - ht v), 2 * nat (ht (List.last cache) - ht v) + (length cache - depth)))"

definition skip_inv :: "LightBlock \<Rightarrow> skip_state \<Rightarrow> bool" where
  "skip_inv new = (\<lambda>(cache, depth, v, trace).
     depth < length cache \<and> cache ! 0 = new \<and> 0 \<le> ht v \<and> ht new \<le> 2 ^ 59 \<and> sorted_wrt (\<lambda>a b. ht a \<ge> ht b) cache)"

lemma skip_inv_bounds:
  assumes "skip_inv new (cache, depth, v, trace)" "i < length cache"
  shows "ht (List.last cache) \<le> ht (cache ! i)" "ht (cache ! i) \<le> ht new"
proof -
  have s: "ht (cache ! j) \<le> ht (cache ! i)" if "i \<le> j" "j < length cache" for i j
    using assms(1) that by (cases "i = j") (auto simp: skip_inv_def sorted_wrt_iff_nth_less)
  show "ht (List.last cache) \<le> ht (cache ! i)" using s [of i "length cache - 1"] assms(2) by (cases cache) (auto simp: last_conv_nth)
  show "ht (cache ! i) \<le> ht new" using s [of 0 i] assms by (auto simp: skip_inv_def)
qed

lemma skip_progress:
  assumes "provider_ok le source" "skip_inv new s" "skip_step le source new now s c = Some (Ok (c', Inr (Inr s')))"
  shows "skip_inv new s' \<and> (s', s) \<in> inv_image (less_than <*lex*> less_than) (skip_measure new)"
proof -
  obtain cache depth v trace where s: "s = (cache, depth, v, trace)" by (cases s)
  note inv = assms(2) [unfolded s]
  show ?thesis
    using assms(3) [unfolded s]
  proof (cases rule: skip_step_next)
    case up
    obtain vh ch where "lb_Height v = Ok vh" "lb_Height (cache ! depth) = Ok ch" "vh < ch" using up(3) by (rule verifies_higher)
    then have "ht v < ht (cache ! depth)" by simp
    then show ?thesis
      using up inv skip_inv_bounds(2) [OF inv up(1)]
      by (auto simp: s skip_inv_def skip_measure_def sorted_wrt_take)
  next
    case deeper
    then show ?thesis using inv by (auto simp: s skip_inv_def skip_measure_def)
  next
    case (pivot vh ch b)
    obtain "vh < ch" "ch \<noteq> i64 (vh + 1)" using verifies_pivot [OF pivot(3)] pivot(4,5) by (metis result.inject(1))
    moreover have "0 \<le> vh" "ch \<le> 2 ^ 59"
      using inv pivot(4,5) skip_inv_bounds(2) [OF inv, of depth] by (auto simp: skip_inv_def)
    ultimately have p: "vh < pivotHeight vh ch" "pivotHeight vh ch < ch" using pivot_between by auto
    then have hb: "ht b = pivotHeight vh ch"
      using assms(1) pivot(6) \<open>0 \<le> vh\<close> by (auto simp: provider_ok_def intro!: ht_Ok)
    have "List.last cache = cache ! depth" using pivot(1,2) by (simp add: last_conv_nth)
    then have "ht (List.last cache) = ch" "ht v = vh" using pivot(4,5) by simp_all
    moreover have "ht b \<le> ht a" if a: "a \<in> set cache" for a
    proof -
      obtain i where "i < length cache" "a = cache ! i" using a by (auto simp: in_set_conv_nth)
      then show ?thesis using skip_inv_bounds(1) [OF inv, of i] p hb calculation by simp
    qed
    moreover have "length cache - depth = 1" using pivot(1,2) by (cases cache) auto
    moreover have "2 * nat (ht b - vh) + 2 < 2 * nat (ch - vh) + 1" using p hb by linarith
    ultimately show ?thesis
      using inv pivot(1,2,7) by (auto simp: s skip_inv_def skip_measure_def sorted_wrt_append nth_append)
  qed
qed

lemma verifySkipping_total:
  assumes "provider_ok le source" "lb_Height trusted = Ok th" "0 \<le> th" "lb_Height new = Ok nh" "nh \<le> 2 ^ 59"
  shows "\<exists>r. verifySkipping le source trusted new now c = Some r"
  unfolding verifySkipping_def
proof (rule lc_loop_returns [where I = "\<lambda>s c. skip_inv new s"])
  show "wf (inv_image (less_than <*lex*> less_than) (skip_measure new))" by (intro wf_inv_image wf_lex_prod wf_less_than)
  show "skip_inv new ([new], 0, trusted, [trusted])" using assms by (simp add: skip_inv_def)
  show "lc_total (skip_step le source new now s)" for s by (rule skip_step_total)
  show "skip_inv new s1 \<and> (s1, s) \<in> inv_image (less_than <*lex*> less_than) (skip_measure new)"
    if "skip_inv new s" "skip_step le source new now s c = Some (Ok (c1, Inr (Inr s1)))" for s c c1 s1
    using skip_progress [OF assms(1) that] .
qed

section \<open>What the operations leave alone\<close>

text \<open>
  No operation on the providers changes the configuration or the trusted blocks, and no provider is ever added.
\<close>

definition same_config :: "Client \<Rightarrow> Client \<Rightarrow> bool" where
  "same_config c c' \<longleftrightarrow>
     c_trustingPeriod c' = c_trustingPeriod c \<and> c_maxClockDrift c' = c_maxClockDrift c \<and> c_trustLevel c' = c_trustLevel c \<and>
     c_verificationMode c' = c_verificationMode c \<and> c_trustedStore c' = c_trustedStore c \<and>
     c_latestTrustedBlock c' = c_latestTrustedBlock c \<and> c_pruningSize c' = c_pruningSize c \<and>
     insert (c_primary c') (set (c_witnesses c')) \<subseteq> insert (c_primary c) (set (c_witnesses c))"

interpretation cfg: lc_frame same_config
  by unfold_locales (auto simp: same_config_def)

lemma verifies_config: "same_config c c' \<Longrightarrow> verifies le c' = verifies le c"
  by (simp add: same_config_def verifies_def fun_eq_iff)

lemma keeps_query [keeps]: "lc_keeps same_config (lc_query le p h)"
  by (auto simp: lc_keeps_def same_config_def)

lemma keeps_clock [keeps]: "lc_keeps same_config (lc_modify (c_clock_update f))"
  by (auto simp: lc_keeps_def same_config_def)

lemma remove_at_subset: "remove_at js ws = Ok ws' \<Longrightarrow> set ws' \<subseteq> set ws"
proof (induction js ws rule: remove_at.induct)
  case (2 i js ws)
  then have "set ws' \<subseteq> set (butlast (ws[i := List.last ws]))" "ws \<noteq> []" by (auto split: if_splits)
  moreover have "set (ws[i := List.last ws]) \<subseteq> insert (List.last ws) (set ws)" by (rule set_update_subset_insert)
  ultimately show ?case using in_set_butlastD last_in_set by fastforce
qed simp

lemma keeps_removeWitnesses [keeps]: "lc_keeps same_config (removeWitnesses js)"
  unfolding lc_keeps_def
proof (intro allI impI)
  fix c c' r assume "removeWitnesses js c = Some (Ok (c', r))"
  then show "same_config c c'"
    unfolding removeWitnesses_def lc_bind_def
    by (auto elim!: lc_try_cases split: if_splits dest!: remove_at_subset simp: same_config_def subset_iff)
qed

lemma keeps_primary_loop [keeps]: "lc_keeps same_config (primary_loop remove rs js e)"
proof (induction remove rs js e rule: primary_loop.induct)
  case (1 remove js e)
  then show ?case by (auto intro!: keeps)
next
  case (2 remove i r rs js e)
  show ?case
  proof (cases r)
    case (Inl e')
    then show ?thesis using 2 by auto
  next
    case (Inr lb)
    have "same_config c c'" if "primary_loop remove ((i, r) # rs) js e c = Some (Ok (c', res))" for c c' res
    proof -
      let ?c1 = "if remove then c else c\<lparr>c_witnesses := c_witnesses c @ [c_primary c]\<rparr>"
      have "\<exists>r'. removeWitnesses (js @ [i]) (?c1\<lparr>c_primary := c_witnesses ?c1 ! i\<rparr>) = Some (Ok (c', r')) \<and> i < length (c_witnesses ?c1)"
        using that Inr by (auto simp: lc_bind_def index_def split: if_splits elim!: lc_try_cases)
      then have "same_config (?c1\<lparr>c_primary := c_witnesses ?c1 ! i\<rparr>) c'" "c_witnesses ?c1 ! i \<in> set (c_witnesses ?c1)"
        using keeps_removeWitnesses [unfolded lc_keeps_def] by (blast, simp)
      then show ?thesis by (auto simp: same_config_def split: if_splits)
    qed
    then show ?thesis by (auto simp: lc_keeps_def)
  qed
qed

lemma keeps_findNewPrimary [keeps]: "lc_keeps same_config (findNewPrimary le h remove)"
  unfolding findNewPrimary_def by (intro keeps) (auto intro!: keeps)

lemma keeps_lightBlockFromPrimary [keeps]: "lc_keeps same_config (lightBlockFromPrimary le h)"
  unfolding lightBlockFromPrimary_def by (intro keeps) (auto intro!: keeps)

lemma keeps_skip_step: "lc_keeps same_config (skip_step le source new now s)"
  unfolding skip_step_def lc_verify_def by (cases s) (auto intro!: keeps split: option.split)

lemma keeps_verifySkipping [keeps]: "lc_keeps same_config (verifySkipping le source trusted new now)"
  unfolding verifySkipping_def by (intro keeps keeps_skip_step)

text \<open>The search for a chain of blocks does not even change the providers: it only takes time.\<close>

definition steady :: "Client \<Rightarrow> Client \<Rightarrow> bool" where
  "steady c c' \<longleftrightarrow> c' = c\<lparr>c_clock := c_clock c'\<rparr> \<and> c_clock c \<le> c_clock c'"

lemma steadyD:
  assumes "steady c c'" shows "c_primary c' = c_primary c" "c_witnesses c' = c_witnesses c" "c_clock c \<le> c_clock c'"
proof -
  obtain t where "c' = c\<lparr>c_clock := t\<rparr>" "c_clock c \<le> c_clock c'" using assms unfolding steady_def by blast
  then show "c_primary c' = c_primary c" "c_witnesses c' = c_witnesses c" "c_clock c \<le> c_clock c'" by simp_all
qed

interpretation idle: lc_frame steady
proof
  fix c c1 c2 assume "steady c c1" "steady c1 c2"
  then obtain t u where "c1 = c\<lparr>c_clock := t\<rparr>" "c2 = c1\<lparr>c_clock := u\<rparr>" "c_clock c \<le> c_clock c1" "c_clock c1 \<le> c_clock c2"
    unfolding steady_def by blast
  then show "steady c c2" by (simp add: steady_def)
qed (simp add: steady_def)

lemma steady_query [keeps]: "lc_keeps steady (lc_query le p h)"
  by (auto simp: lc_keeps_def steady_def)

lemma steady_skip_step: "lc_keeps steady (skip_step le source new now s)"
  unfolding skip_step_def lc_verify_def by (cases s) (auto intro!: keeps split: option.split)

lemma steady_verifySkipping [keeps]: "lc_keeps steady (verifySkipping le source trusted new now)"
  unfolding verifySkipping_def by (intro keeps steady_skip_step)

section \<open>A new primary\<close>

text \<open>Removing witnesses by their indexes, the highest first, removes these and no other ones.\<close>

lemma remove_one:
  assumes "distinct ws" "j < length ws"
  defines "vs \<equiv> butlast (ws[j := List.last ws])"
  shows "distinct vs" "set vs = set ws - {ws ! j}" "i < j \<Longrightarrow> vs ! i = ws ! i" "length vs = length ws - 1"
proof -
  obtain xs z where ws: "ws = xs @ [z]" using assms(2) by (cases ws rule: rev_cases) auto
  have vs: "vs = (if j = length xs then xs else xs[j := z])"
    using assms(2) by (simp add: vs_def ws list_update_append butlast_append)
  show "distinct vs" using assms(1) by (auto simp: vs ws distinct_list_update)
  show "set vs = set ws - {ws ! j}"
    using assms(1,2) by (auto simp: vs ws nth_append set_update_distinct)
  show "i < j \<Longrightarrow> vs ! i = ws ! i" "length vs = length ws - 1" using assms(2) by (auto simp: vs ws nth_append)
qed

lemma remove_at_removes:
  assumes "remove_at js ws = Ok ws'" "distinct ws" "sorted (rev js)"
  shows "distinct ws' \<and> (\<forall>i \<in> set js. ws ! i \<notin> set ws')"
  using assms
proof (induction js arbitrary: ws)
  case (Cons j js)
  define vs where "vs = butlast (ws[j := List.last ws])"
  have j: "j < length ws" "remove_at js vs = Ok ws'" using Cons.prems(1) by (auto simp: vs_def split: if_splits)
  note one = remove_one [OF Cons.prems(2) j(1), folded vs_def]
  have le: "\<forall>i \<in> set js. i \<le> j" "sorted (rev js)" using Cons.prems(3) by (auto simp: sorted_append)
  have IH: "distinct ws'" "\<forall>i \<in> set js. vs ! i \<notin> set ws'" using Cons.IH [OF j(2) one(1) le(2)] by auto
  have "ws ! j \<notin> set ws'" using remove_at_subset [OF j(2)] one(2) by auto
  moreover have "ws ! i \<notin> set ws'" if "i \<in> set js" for i
    using that IH(2) le(1) one(3) calculation by (metis le_neq_implies_less)
  ultimately show ?case using IH(1) by auto
qed simp

lemma removeWitnesses_Ok:
  assumes "removeWitnesses js c = Some (Ok (c', Inr ()))" "distinct (c_witnesses c)"
  obtains ws where "c' = c\<lparr>c_witnesses := ws\<rparr>" "distinct ws" "set ws \<subseteq> set (c_witnesses c)" "\<forall>i \<in> set js. c_witnesses c ! i \<notin> set ws"
proof -
  obtain ws where ws: "remove_at (rev (sort js)) (c_witnesses c) = Ok ws" "c' = c\<lparr>c_witnesses := ws\<rparr>"
    using assms(1) unfolding removeWitnesses_def by (auto elim!: lc_bind_Inr split: if_splits)
  then show thesis using that [of ws] remove_at_removes [OF ws(1) assms(2)] remove_at_subset [OF ws(1)] by simp
qed

lemma primary_loop_Ok:
  assumes "primary_loop True rs js e c = Some (Ok (c', Inr b))" "distinct (c_witnesses c)"
  shows "\<exists>i ws. (i, Inr b) \<in> set rs \<and> i < length (c_witnesses c) \<and> c' = c\<lparr>c_primary := c_witnesses c ! i, c_witnesses := ws\<rparr> \<and>
    distinct (c_witnesses c ! i # ws) \<and> set ws \<subseteq> set (c_witnesses c)"
  using assms(1)
proof (induction rs arbitrary: js e)
  case Nil
  then show ?case by (auto elim!: lc_then_cases)
next
  case (Cons x rs)
  obtain i r where x: "x = (i, r)" by (cases x)
  show ?case
  proof (cases r)
    case (Inl err)
    then obtain js' e' where "primary_loop True rs js' e' c = Some (Ok (c', Inr b))" using Cons.prems x by (auto split: if_splits)
    from Cons.IH [OF this] show ?thesis by auto
  next
    case (Inr lb)
    then have r: "lb = b" "i < length (c_witnesses c)"
        "removeWitnesses (js @ [i]) (c\<lparr>c_primary := c_witnesses c ! i\<rparr>) = Some (Ok (c', Inr ()))"
      using Cons.prems x by (auto elim!: lc_bind_Inr simp: index_Ok)
    obtain ws where "c' = c\<lparr>c_primary := c_witnesses c ! i, c_witnesses := ws\<rparr>" "distinct ws" "set ws \<subseteq> set (c_witnesses c)" "c_witnesses c ! i \<notin> set ws"
      using removeWitnesses_Ok [OF r(3)] assms(2) by auto
    then show ?thesis using r(1,2) x Inr by auto
  qed
qed

text \<open>A replacement of a bad primary is one of the witnesses, and no longer a witness.\<close>

lemma findNewPrimary_Ok:
  assumes "findNewPrimary le h True c = Some (Ok (c', Inr b))" "distinct (c_witnesses c)"
  shows "c_primary c' \<in> set (c_witnesses c)" "distinct (c_primary c' # c_witnesses c')" "set (c_witnesses c') \<subseteq> set (c_witnesses c)"
    "offered le (c_primary c') b" "c_clock c \<le> c_clock c'"
proof -
  let ?ws = "c_witnesses c" and ?t = "c_clock c"
  have l: "primary_loop True (map (\<lambda>i. (i, le_block le (?t + i) (?ws ! i) h)) (le_order le ?t (length ?ws))) [] ErrNoWitnesses
      (c\<lparr>c_clock := ?t + length ?ws\<rparr>) = Some (Ok (c', Inr b))"
    using assms(1) unfolding findNewPrimary_def by (auto elim!: lc_bind_Inr split: if_splits)
  from primary_loop_Ok [OF l] assms(2) obtain i ws where i: "le_block le (?t + i) (?ws ! i) h = Inr b" "i < length ?ws"
      "c' = c\<lparr>c_clock := ?t + length ?ws, c_primary := ?ws ! i, c_witnesses := ws\<rparr>" "distinct (?ws ! i # ws)" "set ws \<subseteq> set ?ws"
    by auto
  then show "c_primary c' \<in> set (c_witnesses c)" "distinct (c_primary c' # c_witnesses c')" "set (c_witnesses c') \<subseteq> set (c_witnesses c)"
      "offered le (c_primary c') b" "c_clock c \<le> c_clock c'"
    by (auto simp: offered_def)
qed

section \<open>A block becomes trusted\<close>

lemma keeps_report [keeps]: "lc_keeps same_config (report_attack trace b p)"
  unfolding report_attack_def sendEvidence_def
  by (intro keeps) (auto simp: lc_keeps_def same_config_def)

lemma keeps_examine_loop [keeps]: "lc_keeps same_config (examine_loop le target source now trace prev st)"
proof (induction trace arbitrary: prev st)
  case (Cons b trace)
  then show ?case unfolding examine_loop.simps skipping_failed_def by (intro keeps) (auto intro!: keeps split: option.split)
qed (auto intro: keeps)

lemma keeps_handle [keeps]: "lc_keeps same_config (handleConflictingHeaders le trace b i now)"
  unfolding handleConflictingHeaders_def examineConflictingHeaderAgainstTrace_def
  by (intro keeps) (auto intro!: keeps split: prod.split)

lemma keeps_divergence_loop [keeps]: "lc_keeps same_config (divergence_loop le trace now rs m js)"
proof (induction rs arbitrary: m js)
  case (Cons r rs)
  then show ?case by (cases r) (auto intro!: keeps split: option.split light_error.split)
qed (auto intro!: keeps)

lemma keeps_detectDivergence [keeps]: "lc_keeps same_config (detectDivergence le trace now)"
  unfolding detectDivergence_def compare_witnesses_def by (auto intro!: keeps)

text \<open>The answers of the witnesses arrive in some order.\<close>

definition order_ok :: "light_env \<Rightarrow> bool" where
  "order_ok le \<longleftrightarrow> (\<forall>t n. set (le_order le t n) = {..<n})"

text \<open>
  At a time a provider answers with a block of the same hash, asked for the height of the block, or asked for its latest
  block, which then has that height; and a witness has confirmed a block in a span of time.
\<close>

definition answers_same :: "light_env \<Rightarrow> nat \<Rightarrow> provider \<Rightarrow> LightBlock \<Rightarrow> bool" where
  "answers_same le t w l \<longleftrightarrow> (\<exists>h b lh hash. lb_Height l = Ok lh \<and> (h = lh \<or> h = 0 \<and> lb_Height b = Ok lh) \<and>
     le_block le t w h = Inr b \<and> lb_Hash (le_env le) l = Ok hash \<and> lb_Hash (le_env le) b = Ok hash)"

definition confirmed :: "light_env \<Rightarrow> nat \<Rightarrow> nat \<Rightarrow> provider \<Rightarrow> LightBlock \<Rightarrow> bool" where
  "confirmed le t0 t1 w l \<longleftrightarrow> (\<exists>t. t0 \<le> t \<and> t < t1 \<and> answers_same le t w l)"

lemma confirmed_mono: "confirmed le t0 t1 w l \<Longrightarrow> s0 \<le> t0 \<Longrightarrow> t1 \<le> s1 \<Longrightarrow> confirmed le s0 s1 w l"
  unfolding confirmed_def by (meson le_trans less_le_trans)

lemma compare_hashes_None:
  assumes "compare_hashes le l b i = Ok None"
  obtains hash where "lb_Hash (le_env le) l = Ok hash" "lb_Hash (le_env le) b = Ok hash"
  using assms unfolding compare_hashes_def by (auto split: if_splits)

lemma getTarget_block:
  assumes "getTargetBlockOrLatest le t h w = Ok (Inr (True, b))"
  obtains "le_block le t w 0 = Inr b" "lb_Height b = Ok h" | "le_block le (t + 1) w h = Inr b"
  using assms unfolding getTargetBlockOrLatest_def by (auto split: sum.splits if_splits)

lemma compare_confirmed:
  assumes "compareNewLightBlockWithWitness le t l w i = Ok None"
  shows "confirmed le t (t + 5) w l"
proof -
  obtain hdr where hdr: "lb_hdr l = Ok hdr" using assms(1) by (auto simp: compareNewLightBlockWithWitness_def)
  then have lh: "lb_Height l = Ok (h_Height hdr)" by (simp add: lb_Height_def)
  have "\<exists>t' h b. t \<le> t' \<and> t' < t + 5 \<and> (h = h_Height hdr \<or> h = 0 \<and> lb_Height b = Ok (h_Height hdr)) \<and>
      le_block le t' w h = Inr b \<and> compare_hashes le l b i = Ok None"
  proof (cases "le_block le t w (h_Height hdr)")
    case (Inr b)
    then show ?thesis using assms(1) hdr by (intro exI [of _ t] exI [of _ "h_Height hdr"] exI [of _ b]) (auto simp: compareNewLightBlockWithWitness_def)
  next
    case (Inl err)
    then have err: "err = ErrHeightTooHigh"
      using assms(1) hdr by (auto simp: compareNewLightBlockWithWitness_def split: if_splits)
    then obtain r where r: "getTargetBlockOrLatest le (t + 1) (h_Height hdr) w = Ok r"
      using assms(1) hdr Inl by (auto simp: compareNewLightBlockWithWitness_def)
    then obtain tg b where tb: "r = Inr (tg, b)"
      using assms(1) hdr Inl err by (cases r) (auto simp: compareNewLightBlockWithWitness_def)
    have at: ?thesis if "getTargetBlockOrLatest le (t + k) (h_Height hdr) w = Ok (Inr (True, b))" "compare_hashes le l b i = Ok None" "k \<le> 3" for k b
      using that(1)
    proof (cases rule: getTarget_block)
      case 1
      then show ?thesis using that(2,3) by (intro exI [of _ "t + k"] exI [of _ 0] exI [of _ b]) simp
    next
      case 2
      then show ?thesis using that(2,3) by (intro exI [of _ "t + k + 1"] exI [of _ "h_Height hdr"] exI [of _ b]) simp
    qed
    show ?thesis
    proof (cases tg)
      case True
      then have "compare_hashes le l b i = Ok None" using r tb Inl err assms(1) hdr by (auto simp: compareNewLightBlockWithWitness_def)
      then show ?thesis using at [of 1 b] r tb True by simp
    next
      case False
      then obtain r2 where r2: "getTargetBlockOrLatest le (t + 3) (h_Height hdr) w = Ok r2"
        using r tb Inl err assms(1) hdr by (auto simp: compareNewLightBlockWithWitness_def split: if_splits)
      then obtain b2 where "r2 = Inr (True, b2)" "compare_hashes le l b2 i = Ok None"
        using False r tb Inl err assms(1) hdr by (cases r2) (auto simp: compareNewLightBlockWithWitness_def split: if_splits)
      then show ?thesis using at [of 3 b2] r2 by simp
    qed
  qed
  then show ?thesis using lh unfolding confirmed_def answers_same_def by (fastforce elim!: compare_hashes_None)
qed

lemma divergence_matched:
  assumes "divergence_loop le trace now rs m js c = Some (Ok (c', Inr ()))"
  shows "m \<or> (\<exists>i. (i, Ok None) \<in> set rs)"
  using assms
proof (induction rs arbitrary: m js c)
  case Nil
  then show ?case by (auto elim!: lc_bind_Inr split: if_splits)
next
  case (Cons r rs)
  obtain i res where r: "r = (i, res)" by (cases r)
  obtain err where err: "res = Ok err" using Cons.prems r by (auto elim!: lc_bind_Inr)
  show ?case
  proof (cases err)
    case None
    then show ?thesis using r err by auto
  next
    case (Some e)
    then have "\<exists>js' c1. divergence_loop le trace now rs m js' c1 = Some (Ok (c', Inr ()))"
      using Cons.prems r err by (cases e) (auto elim!: lc_bind_Inr split: if_splits, blast+)
    then show ?thesis using Cons.IH by auto
  qed
qed

text \<open>Time passes in the comparison with the witnesses.\<close>

definition later :: "Client \<Rightarrow> Client \<Rightarrow> bool" where
  "later c c' \<longleftrightarrow> c_clock c \<le> c_clock c'"

interpretation clock: lc_frame later
  by unfold_locales (simp_all add: later_def)

lemma later_modify [keeps]: "lc_keeps later (lc_modify (c_witnesses_update f))" "lc_keeps later (sendEvidence ev p)"
  by (auto simp: sendEvidence_def lc_keeps_def later_def)

lemma later_removeWitnesses [keeps]: "lc_keeps later (removeWitnesses js)"
  unfolding removeWitnesses_def by (intro keeps) (auto intro!: keeps)

lemma later_verifySkipping [keeps]: "lc_keeps later (verifySkipping le source trusted new now)"
  using steady_verifySkipping steadyD(3) unfolding lc_keeps_def later_def by blast

lemma later_query [keeps]: "lc_keeps later (lc_query le p h)"
  by (auto simp: lc_keeps_def later_def)

lemma later_examine_loop [keeps]: "lc_keeps later (examine_loop le target source now trace prev st)"
proof (induction trace arbitrary: prev st)
  case (Cons b trace)
  then show ?case unfolding examine_loop.simps skipping_failed_def by (intro keeps) (auto intro!: keeps split: option.split)
qed (auto intro: keeps)

lemma later_handle [keeps]: "lc_keeps later (handleConflictingHeaders le trace b i now)"
  unfolding handleConflictingHeaders_def examineConflictingHeaderAgainstTrace_def report_attack_def
  by (intro keeps) (auto intro!: keeps split: prod.split)

lemma later_divergence_loop [keeps]: "lc_keeps later (divergence_loop le trace now rs m js)"
proof (induction rs arbitrary: m js)
  case (Cons r rs)
  then show ?case by (cases r) (auto intro!: keeps split: option.split light_error.split)
qed (auto intro!: keeps)

lemma detectDivergence_Ok:
  assumes "detectDivergence le trace now c = Some (Ok (c', Inr ()))" "order_ok le"
  obtains w where "2 \<le> length trace" "w \<in> set (c_witnesses c)" "confirmed le (c_clock c) (c_clock c') w (List.last trace)"
proof -
  let ?ws = "c_witnesses c" and ?t = "c_clock c"
  have len: "2 \<le> length trace" using assms(1) by (auto simp: detectDivergence_def split: if_splits)
  have l: "divergence_loop le trace now
      (map (\<lambda>i. (i, compareNewLightBlockWithWitness le (?t + 5 * i) (List.last trace) (?ws ! i) i)) (le_order le ?t (length ?ws)))
      False [] (c\<lparr>c_clock := ?t + 5 * length ?ws\<rparr>) = Some (Ok (c', Inr ()))"
    using assms(1) by (auto simp: detectDivergence_def compare_witnesses_def split: if_splits elim!: lc_bind_Inr)
  from divergence_matched [OF l] obtain i where "i \<in> set (le_order le ?t (length ?ws))"
      and i: "compareNewLightBlockWithWitness le (?t + 5 * i) (List.last trace) (?ws ! i) i = Ok None"
    by auto
  then have "i < length ?ws" using assms(2) by (auto simp: order_ok_def)
  moreover have "?t + 5 * length ?ws \<le> c_clock c'" using later_divergence_loop l unfolding lc_keeps_def later_def by fastforce
  ultimately have "confirmed le ?t (c_clock c') (?ws ! i) (List.last trace)"
    by (intro confirmed_mono [OF compare_confirmed [OF i]]) linarith+
  then show thesis using that [of "?ws ! i"] len \<open>i < length ?ws\<close> by simp
qed

end
