(* ===== verification/LightTrust.thy ===== *)
theory LightTrust
  imports LightClientProps
begin

text \<open>The properties of the light client: what a block it trusts has behind it, and that it finds out.\<close>

section \<open>A trusted block\<close>

lemma keepsD: "lc_keeps R m \<Longrightarrow> m c = Some (Ok (c', r)) \<Longrightarrow> R c c'"
  by (auto simp: lc_keeps_def)

lemma replace_primary_cases:
  assumes "replace_primary le h hash err k c = Some (Ok (c', Inr x))"
  obtains c1 b where "findNewPrimary le h True c = Some (Ok (c1, Inr b))" "\<exists>rh. lb_Hash (le_env le) b = Ok rh \<and> hash = Ok rh" "k b c1 = Some (Ok (c', Inr x))"
  using assms unfolding replace_primary_def
  by (auto elim!: lc_try_cases lc_bind_Inr split: if_splits)

lemma primary_step_cases:
  assumes "primary_step le trusted now b c = Some (Ok (c', Inr x))"
  obtains (fin) trace c1 u where "verifySkipping le (c_primary c) trusted b now c = Some (Ok (c1, Inr trace))"
      "detectDivergence le trace now c1 = Some (Ok (c', Inr ()))" "x = Inl u"
    | (again) c1 r h b' where "verifySkipping le (c_primary c) trusted b now c = Some (Ok (c1, r))"
      "findNewPrimary le h True c1 = Some (Ok (c', Inr b'))" "lb_Hash (le_env le) b' = lb_Hash (le_env le) b" "x = Inr b'"
proof -
  obtain r c1 where r: "verifySkipping le (c_primary c) trusted b now c = Some (Ok (c1, r))"
    using assms unfolding primary_step_def by (auto elim!: lc_bind_Inr lc_then_cases)
  then have step: "primary_step le trusted now b c = (\<lambda>f. f r c1) (\<lambda>r. case (case r of Inl err \<Rightarrow> light_Unwrap err | Inr _ \<Rightarrow> None) of
       None \<Rightarrow> lc_bind (detectDivergence le (case r of Inr trace \<Rightarrow> trace | Inl _ \<Rightarrow> []) now) (\<lambda>_. lc_return (Inl ()))
     | Some (ErrInvalidHeader _) \<Rightarrow>
         (case r of
            Inl (ErrVerificationFailed from to reason) \<Rightarrow>
              lc_bind (lc_pure (lb_Height b)) (\<lambda>nh.
              if to = nh then lc_fail (ErrVerificationFailed from to reason)
              else replace_primary le nh (lb_Hash (le_env le) b) (ErrVerificationFailed from to reason)
                     (\<lambda>replacementBlock. lc_return (Inr replacementBlock)))
          | _ \<Rightarrow> lc_panic ''interface conversion'')
     | Some _ \<Rightarrow> (case r of Inl err \<Rightarrow> lc_fail err | Inr _ \<Rightarrow> lc_return (Inl ())))"
    unfolding primary_step_def lc_bind_def lc_try_def lc_then_def lc_get_def lc_return_def by simp
  show thesis
  proof (cases r)
    case (Inr trace)
    then show ?thesis using assms step r fin by (auto elim!: lc_bind_Inr)
  next
    case (Inl err)
    show ?thesis
    proof (cases "light_Unwrap err")
      case None
      then show ?thesis using assms step Inl by (auto simp: detectDivergence_def elim!: lc_bind_Inr)
    next
      case (Some e)
      then consider a z where "err = ErrVerificationFailed a z e" | m where "err = LightWrap m e" by (cases err) auto
      then have "\<exists>h b'. findNewPrimary le h True c1 = Some (Ok (c', Inr b')) \<and> lb_Hash (le_env le) b' = lb_Hash (le_env le) b \<and> x = Inr b'"
      proof cases
        case 1
        then show ?thesis using assms step Inl by (cases e) (auto split: if_splits elim!: lc_bind_Inr replace_primary_cases, blast)
      next
        case 2
        then show ?thesis using assms step Inl by (cases e) auto
      qed
      then show ?thesis using r again by blast
    qed
  qed
qed

lemma primary_step_done:
  assumes "primary_step le trusted now b c = Some (Ok (c', Inr (Inl x)))"
  obtains trace c1 where "verifySkipping le (c_primary c) trusted b now c = Some (Ok (c1, Inr trace))"
    "detectDivergence le trace now c1 = Some (Ok (c', Inr ()))"
  using assms by (cases rule: primary_step_cases) (auto intro: that)

text \<open>
  In the course of a verification the primary is the first one with the block to verify, or one of the witnesses, with
  its own block of the same hash; it is never one of the witnesses left.
\<close>

definition asked :: "light_env \<Rightarrow> Client \<Rightarrow> LightBlock \<Rightarrow> provider \<Rightarrow> LightBlock \<Rightarrow> bool" where
  "asked le c new source b \<longleftrightarrow> lb_Hash (le_env le) b = lb_Hash (le_env le) new \<and>
     (source = c_primary c \<and> b = new \<or> source \<in> set (c_witnesses c) \<and> offered le source b)"

definition in_course :: "light_env \<Rightarrow> Client \<Rightarrow> LightBlock \<Rightarrow> LightBlock \<Rightarrow> Client \<Rightarrow> bool" where
  "in_course le c new b c1 \<longleftrightarrow> same_config c c1 \<and> later c c1 \<and> distinct (c_primary c1 # c_witnesses c1) \<and>
     set (c_witnesses c1) \<subseteq> set (c_witnesses c) \<and> asked le c new (c_primary c1) b"

lemma primary_step_next:
  assumes "primary_step le trusted now b c1 = Some (Ok (c2, Inr (Inr b')))" "in_course le c new b c1"
  shows "in_course le c new b' c2"
  using assms(1)
proof (cases rule: primary_step_cases)
  case (again c3 r h b'')
  note st = steadyD [OF keepsD [OF steady_verifySkipping again(1)]]
  have d: "distinct (c_witnesses c3)" "set (c_witnesses c3) \<subseteq> set (c_witnesses c)" using assms(2) st by (simp_all add: in_course_def)
  note new = findNewPrimary_Ok [OF again(2) d(1)]
  have "same_config c c2"
    using assms(2) keepsD [OF keeps_verifySkipping again(1)] keepsD [OF keeps_findNewPrimary again(2)] cfg.trans
    unfolding in_course_def by blast
  then show ?thesis using assms(2) new d(2) st(3) again(3,4) by (auto simp: in_course_def asked_def later_def)
qed simp

definition trust_path :: "light_env \<Rightarrow> Client \<Rightarrow> nat \<Rightarrow> go_time \<Rightarrow> LightBlock \<Rightarrow> LightBlock \<Rightarrow> LightBlock list \<Rightarrow> provider \<Rightarrow> provider \<Rightarrow> bool" where
  "trust_path le c t now trusted new trace source w \<longleftrightarrow>
     2 \<le> length trace \<and> hd trace = trusted \<and> asked le c new source (List.last trace) \<and>
     (\<forall>b \<in> set (tl trace). b = List.last trace \<or> offered le source b) \<and>
     successively (\<lambda>a b. verifies le c now a b = Ok None) trace \<and>
     w \<in> set (c_witnesses c) \<and> w \<noteq> source \<and> confirmed le (c_clock c) t w (List.last trace)"

lemma primary_step_path:
  assumes "primary_step le trusted now b c1 = Some (Ok (c2, Inr (Inl x)))" "in_course le c new b c1" "order_ok le"
  shows "\<exists>trace source w. trust_path le c (c_clock c2) now trusted new trace source w"
proof -
  obtain trace c3 where t: "verifySkipping le (c_primary c1) trusted b now c1 = Some (Ok (c3, Inr trace))"
      "detectDivergence le trace now c3 = Some (Ok (c2, Inr ()))"
    using assms(1) by (rule primary_step_done)
  note st = steadyD [OF keepsD [OF steady_verifySkipping t(1)]] and ch = verifySkipping_chain [OF t(1)]
  obtain w where w: "w \<in> set (c_witnesses c3)" "confirmed le (c_clock c3) (c_clock c2) w (List.last trace)"
    using t(2) assms(3) by (rule detectDivergence_Ok)
  have "verifies le c1 = verifies le c" using assms(2) by (simp add: in_course_def verifies_config)
  moreover have "confirmed le (c_clock c) (c_clock c2) w (List.last trace)"
    using w(2) assms(2) st(3) by (intro confirmed_mono [OF w(2)]) (simp_all add: in_course_def later_def)
  ultimately have "trust_path le c (c_clock c2) now trusted new trace (c_primary c1) w"
    using ch w(1) assms(2) st(2) by (auto simp: trust_path_def in_course_def)
  then show ?thesis by blast
qed

lemma againstPrimary_path:
  assumes "verifySkippingAgainstPrimary le trusted new now c = Some (Ok (c', Inr ()))" "order_ok le" "distinct (c_primary c # c_witnesses c)"
  shows "\<exists>trace source w. trust_path le c (c_clock c') now trusted new trace source w"
proof -
  have "(Inr () :: light_error + unit) = Inr () \<longrightarrow> (\<exists>trace source w. trust_path le c (c_clock c') now trusted new trace source w)"
  proof (rule lc_loop_inv [where I = "in_course le c new" and
        Q = "\<lambda>c' r. r = Inr () \<longrightarrow> (\<exists>trace source w. trust_path le c (c_clock c') now trusted new trace source w)",
        OF assms(1) [unfolded verifySkippingAgainstPrimary_def]])
    show "in_course le c new new c" using assms(3) by (auto simp: in_course_def asked_def intro: cfg.refl clock.refl)
  qed (use primary_step_next primary_step_path [OF _ _ assms(2)] in blast)+
  then show ?thesis by simp
qed

lemma keeps_replace_primary [keeps]: "(\<And>b. lc_keeps same_config (k b)) \<Longrightarrow> lc_keeps same_config (replace_primary le h hash err k)"
  unfolding replace_primary_def by (intro keeps) (auto intro: keeps)

lemma keeps_primary_step: "lc_keeps same_config (primary_step le trusted now b)"
  unfolding primary_step_def
  by (intro keeps) (auto intro!: keeps split: option.split sum.split light_error.split)

lemma keeps_againstPrimary [keeps]: "lc_keeps same_config (verifySkippingAgainstPrimary le trusted new now)"
  unfolding verifySkippingAgainstPrimary_def by (intro keeps keeps_primary_step)

text \<open>A light block whose numbers fit their types and whose validator set has a valid total power.\<close>

definition block_ok :: "LightBlock \<Rightarrow> bool" where
  "block_ok b \<longleftrightarrow> (\<exists>vals h. lb_ValidatorSet b = Some vals \<and> powers_ok vals \<and> is_i32 (int (val_count vals)) \<and> lb_Height b = Ok h \<and> is_i64 h)"

definition linked :: "env \<Rightarrow> Fraction \<Rightarrow> LightBlock \<Rightarrow> LightBlock \<Rightarrow> bool" where
  "linked e l a b \<longleftrightarrow> (\<exists>t u c tvals uvals. lb_hdr a = Ok t \<and> lb_ValidatorSet a = Some tvals \<and>
     lb_hdr b = Ok u \<and> lb_commit b = Ok c \<and> lb_ValidatorSet b = Some uvals \<and> light_link e t tvals u c uvals l)"

lemma verifies_linked:
  assumes "verifies le c now a b = Ok None" "block_ok a" "block_ok b" "batch_verifier_ok (crypto (le_env le)) (le_batch le)"
    "0 \<le> sint (Numerator (c_trustLevel c))" "0 \<le> sint (Denominator (c_trustLevel c))"
  shows "linked (le_env le) (c_trustLevel c) a b"
proof -
  obtain th uh where sh: "lb_SignedHeader a = Some th" "lb_SignedHeader b = Some uh"
      "Verify (le_env le) (le_batch le) th (lb_ValidatorSet a) uh (lb_ValidatorSet b)
         (c_trustingPeriod c) now (c_maxClockDrift c) (c_trustLevel c) = Ok None"
    using assms(1) by (auto simp: verifies_def lb_signed_def split: option.splits)
  obtain t u cm where h: "sh_Header th = Some t" "sh_Header uh = Some u" "sh_Commit uh = Some cm"
    using sh(3) by (rule Verify_parts)
  obtain tv uv where v: "lb_ValidatorSet a = Some tv" "lb_ValidatorSet b = Some uv" "powers_ok tv" "powers_ok uv"
      "is_i32 (int (val_count tv))" "is_i32 (int (val_count uv))" "is_i64 (h_Height t)" "is_i64 (h_Height u)"
    using assms(2,3) sh h by (auto simp: block_ok_def lb_Height_simps)
  have "light_link (le_env le) t tv u cm uv (c_trustLevel c)"
    using Verify_link(1) [OF sh(3) [unfolded v(1,2)] h assms(4) v(3,5,4,6) assms(5,6) v(7,8)] .
  then show ?thesis using sh h v by (auto simp: linked_def lb_hdr_def sh_hdr_def lb_commit_def)
qed

lemma trusted_path:
  assumes "verifyLightBlock le new now c = Some (Ok (c', Inr ()))" "c_verificationMode c = skipping"
    "c_latestTrustedBlock c = Some latest" "lb_Height latest = Ok lh" "lb_Height new = Ok nh" "lh \<le> nh" "order_ok le" "distinct (c_primary c # c_witnesses c)"
  obtains trace source w c1 where "trust_path le c (c_clock c1) now latest new trace source w" "same_config c c1" "updateTrustedLightBlock new c1 = Some (Ok (c', Inr ()))"
proof -
  have nh: "\<exists>hdr. lb_hdr new = Ok hdr \<and> h_Height hdr = nh" using assms(5) by (auto simp: lb_Height_def)
  obtain c1 where c1: "verifySkippingAgainstPrimary le latest new now c = Some (Ok (c1, Inr ()))"
      "updateTrustedLightBlock new c1 = Some (Ok (c', Inr ()))"
    using assms(1-6) nh unfolding verifyLightBlock_def verifyFunc_def
    by (auto elim!: lc_bind_Inr simp: latest_block_def)
  then show thesis using againstPrimary_path [OF c1(1) assms(7,8)] keepsD [OF keeps_againstPrimary c1(1)] that by blast
qed

lemma updateTrusted_latest:
  assumes "updateTrustedLightBlock new c = Some (Ok (c', Inr ()))" "lb_Height new = Ok nh"
  shows "c_latestTrustedBlock c' = (case c_latestTrustedBlock c of None \<Rightarrow> Some new | Some b \<Rightarrow> if ht b < nh then Some new else Some b)"
    "c_clock c' = c_clock c"
  using assms unfolding updateTrustedLightBlock_def by (auto elim!: lc_bind_Inr split: option.splits if_splits)

section \<open>A small network\<close>

text \<open>One validator, two providers, and a trusted block two heights below a new one.\<close>

definition demo_header :: "int \<Rightarrow> Header" where
  "demo_header h = \<lparr>h_Version_Block = 11, h_Version_App = 0, h_ChainID = [99], h_Height = h, h_Time = h,
     h_LastBlockID = empty_BlockID, h_LastCommitHash = [], h_DataHash = [], h_ValidatorsHash = replicate 32 1,
     h_NextValidatorsHash = replicate 32 1, h_ConsensusHash = [], h_AppHash = [], h_LastResultsHash = [], h_EvidenceHash = [],
     h_ProposerAddress = replicate 20 7\<rparr>"

definition demo_light :: "int \<Rightarrow> LightBlock" where
  "demo_light h = \<lparr>lb_SignedHeader = Some \<lparr>sh_Header = Some (demo_header h), sh_Commit = Some (demo_commit [])\<rparr>,
     lb_ValidatorSet = Some demo_vals\<rparr>"

definition demo_light_env :: light_env where
  "demo_light_env = \<lparr>le_env = demo_env [demo_bytes 1], le_batch = demo_batch (crypto (demo_env [demo_bytes 1])),
     le_block = (\<lambda>t p h. if h = 5 then Inr (demo_light 5) else Inl ErrLightBlockNotFound), le_chainID = (\<lambda>p. [99]),
     le_order = (\<lambda>t n. [0..<n])\<rparr>"

definition demo_client :: Client where
  "demo_client = (new_client [99] 1000 0 [1, 2] \<lparr>ls_db = [], ls_size = 0\<rparr>)\<lparr>c_latestTrustedBlock := Some (demo_light 3)\<rparr>"

lemma demo_light_simps [simp]:
  "lb_SignedHeader (demo_light h) = Some \<lparr>sh_Header = Some (demo_header h), sh_Commit = Some (demo_commit [])\<rparr>"
  "lb_ValidatorSet (demo_light h) = Some demo_vals" "lb_hdr (demo_light h) = Ok (demo_header h)" "h_Height (demo_header h) = h"
  "lb_Height (demo_light h) = Ok h" "h_Time (demo_header h) = h" "h_ChainID (demo_header h) = [99]" "h_ValidatorsHash (demo_header h) = replicate 32 1"
  by (simp_all add: demo_light_def lb_hdr_def sh_hdr_def lb_Height_def demo_header_def)

lemma demo_env_simps [simp]: "sha (crypto (demo_env ms)) = demo_hash" "StdTimeMarshal (demo_env ms) = StdTimeMarshal toy_env"
  "StringValue_Marshal (demo_env ms) = StringValue_Marshal toy_env" "Int64Value_Marshal (demo_env ms) = Int64Value_Marshal toy_env"
  "BytesValue_Marshal (demo_env ms) = BytesValue_Marshal toy_env"
  by (simp_all add: demo_env_def)

lemma tree_root_length:
  assumes "\<And>m. length (hf m) = 32" "\<forall>h \<in> set hs. length h = 32" "hs \<noteq> []"
  shows "length (tree_root hf hs) = 32"
proof (cases "length hs = 1")
  case True
  then show ?thesis using assms(2) by (cases hs) auto
next
  case False
  then have "2 \<le> length hs" using assms(3) by (cases hs) (auto simp: Suc_le_eq)
  then show ?thesis using assms(1) by (simp add: tree_root_split innerHash_def)
qed

lemma demo_hash_length [simp]: "length (demo_hash m) = 32"
  by (simp add: demo_hash_def)

lemma demo_root:
  assumes "2 \<le> length xs"
  shows "HashFromByteSlices demo_hash xs = Ok (replicate 32 1)"
proof -
  let ?hs = "map (leafHash demo_hash) xs" and ?k = "split_point (length xs)"
  have "0 < ?k" "?k < length xs" using split_point_less [OF assms] by auto
  then have "length (tree_root demo_hash (take ?k ?hs)) = 32" "length (tree_root demo_hash (drop ?k ?hs)) = 32"
    by (auto intro!: tree_root_length simp: leafHash_def dest!: in_set_takeD in_set_dropD)
  then show ?thesis
    using assms by (simp add: HashFromByteSlices_def hashFromByteSlices_root merkle_root_def tree_root_split innerHash_def innerPrefix_def)
      (simp add: demo_hash_def)
qed

lemma demo_header_hash: "Header_Hash (demo_env ms) (Some (demo_header h)) = Ok (replicate 32 1)"
  by (simp add: Header_Hash_def toy_env_def header_leaves_def demo_root cdcEncode_string_def cdcEncode_int64_def cdcEncode_bytes_def nil_on_err_def)

lemma demo_vals_hash: "VS_Hash (crypto (demo_env ms)) demo_vals = Ok (replicate 32 1)"
  by (simp add: VS_Hash_def demo_vals_def Validator_Bytes_def demo_val_def HashFromByteSlices_def hashFromByteSlices.simps
    leafHash_def leafPrefix_def index_def)
    (simp add: demo_hash_def pb_msg_def pb_varint_def uvarint.simps to_uint64_def)

lemma demo_signed_ok:
  assumes "sh_Header sh = Some (demo_header 5)" "sh_Commit sh = Some (demo_commit [])"
  shows "SH_ValidateBasic (demo_env ms) sh [99] = Ok ()"
proof -
  have "BlockID_ValidateBasic (demo_bid 1) = Ok ()" "\<not> BlockID_IsZero (demo_bid 1)" "BlockID_ValidateBasic empty_BlockID = Ok ()"
    by (simp_all add: BlockID_ValidateBasic_def PSH_ValidateBasic_def ValidateHash_def demo_bid_def BlockID_IsZero_def empty_BlockID_def)
  then have "Commit_ValidateBasic (demo_commit []) = Ok ()" "Header_ValidateBasic (demo_header 5) = Ok ()"
    by (simp_all add: Commit_ValidateBasic_def demo_commit_def Header_ValidateBasic_def demo_header_def ValidateHash_def)
  moreover have "cm_Height (demo_commit []) = 5" "bid_Hash (cm_BlockID (demo_commit [])) = replicate 32 1"
    by (simp_all add: demo_commit_def demo_bid_def)
  ultimately show ?thesis using assms by (simp add: SH_ValidateBasic_def demo_header_hash)
qed

lemma demo_commit_light:
  "VerifyCommitLight (demo_env [demo_bytes 1]) be [99] (Some demo_vals) (demo_bid 1) 5 (Some (demo_commit [])) = Ok ()"
  "VerifyCommitLightTrusting (demo_env [demo_bytes 1]) be [99] (Some demo_vals) (Some (demo_commit [])) DefaultTrustLevel = Ok ()"
proof -
  have c: "length (cm_Signatures (demo_commit [])) = 1" "cm_Height (demo_commit []) = 5" "cm_BlockID (demo_commit []) = demo_bid 1"
      "cs_BlockIDFlag demo_commit_sig = BlockIDFlagCommit"
    by (simp_all add: demo_commit_def demo_commit_sig_def)
  show "VerifyCommitLight (demo_env [demo_bytes 1]) be [99] (Some demo_vals) (demo_bid 1) 5 (Some (demo_commit [])) = Ok ()"
    using c TotalVotingPower_total [OF demo_vals(1)]
    by (simp add: VerifyCommitLight_def verifyCommitLightInternal_def basic_ok verify_batch_or_single_def shouldBatchVerify_def i64_idI
      demo_loop [where sigs = "[]"])
  show "VerifyCommitLightTrusting (demo_env [demo_bytes 1]) be [99] (Some demo_vals) (Some (demo_commit [])) DefaultTrustLevel = Ok ()"
    using c TotalVotingPower_total [OF demo_vals(1)]
    by (simp add: VerifyCommitLightTrusting_def verifyCommitLightTrustingInternal_def verify_batch_or_single_def shouldBatchVerify_def
      safeMul_eq i64_idI DefaultTrustLevel_def demo_loop [where sigs = "[]"])
qed

lemma demo_verifies: "verifies demo_light_env demo_client 10 (demo_light 3) (demo_light 5) = Ok None"
proof -
  have "cm_BlockID (demo_commit []) = demo_bid 1" by (simp add: demo_commit_def)
  moreover have "h_ValidatorsHash (demo_header 5) = replicate 32 1" by simp
  ultimately show ?thesis
    using demo_signed_ok [of "\<lparr>sh_Header = Some (demo_header 5), sh_Commit = Some (demo_commit [])\<rparr>" "[demo_bytes 1]"]
    by (simp add: verifies_def lb_signed_def demo_light_env_def demo_client_def new_client_def Verify_def VerifyNonAdjacent_def sh_hdr_def
      HeaderExpired_def verifyNewHeaderAndVals_def demo_vals_hash demo_commit_light commit_blockID_def i64_idI)
qed

lemmas lc_eval = lc_bind_def lc_try_def lc_then_def lc_get_def lc_return_def lc_pure_def lc_modify_def

lemma lc_loop_return:
  assumes "body s c = Some (Ok (c', Inr (Inl r)))"
  shows "lc_loop body s c = Some (Ok (c', Inr r))"
  unfolding lc_loop_iterate by (subst iterate.simps) (simp add: loop_step_def assms)

lemma demo_skipping: "verifySkipping demo_light_env p (demo_light 3) (demo_light 5) 10 demo_client = Some (Ok (demo_client, Inr [demo_light 3, demo_light 5]))"
  unfolding verifySkipping_def
  by (rule lc_loop_return) (simp add: skip_step_def lc_eval lc_verify_verifies demo_verifies index_def)

lemma demo_same: "compare_hashes demo_light_env (demo_light 5) (demo_light 5) i = Ok None"
  by (simp add: compare_hashes_def lb_Hash_def demo_header_hash demo_light_env_def lb_Validators_def)

lemma demo_block: "le_block demo_light_env t w 5 = Inr (demo_light 5)"
  by (simp add: demo_light_env_def)

lemma demo_divergence: "detectDivergence demo_light_env [demo_light 3, demo_light 5] 10 demo_client =
  Some (Ok (demo_client\<lparr>c_clock := 10\<rparr>, Inr ()))"
proof -
  have "compareNewLightBlockWithWitness demo_light_env t (demo_light 5) w i = Ok None" for t w i
    using demo_same demo_block by (simp add: compareNewLightBlockWithWitness_def)
  moreover have "c_witnesses demo_client = [1, 2]" "c_clock demo_client = 0" "le_order demo_light_env 0 2 = [0, 1]"
    by (simp_all add: demo_client_def new_client_def demo_light_env_def upt_rec)
  ultimately show ?thesis
    by (simp add: detectDivergence_def compare_witnesses_def lc_eval removeWitnesses_def numeral_2_eq_2)
qed

lemma demo_trusted: "\<exists>c'. verifyLightBlock demo_light_env (demo_light 5) 10 demo_client = Some (Ok (c', Inr ()))"
proof -
  have "primary_step demo_light_env (demo_light 3) 10 (demo_light 5) demo_client = Some (Ok (demo_client\<lparr>c_clock := 10\<rparr>, Inr (Inl ())))"
    by (simp add: primary_step_def lc_eval demo_skipping demo_divergence)
  then have "verifySkippingAgainstPrimary demo_light_env (demo_light 3) (demo_light 5) 10 demo_client = Some (Ok (demo_client\<lparr>c_clock := 10\<rparr>, Inr ()))"
    unfolding verifySkippingAgainstPrimary_def by (rule lc_loop_return)
  moreover have "c_verificationMode demo_client = skipping" "c_latestTrustedBlock demo_client = Some (demo_light 3)" "c_trustedStore demo_client = \<lparr>ls_db = [], ls_size = 0\<rparr>"
    by (simp_all add: demo_client_def new_client_def)
  moreover have "\<exists>p. LB_ToProto (demo_light 5) = Ok p"
    by (simp add: LB_ToProto_def VS_ToProto_def IsNilOrEmpty_def demo_vals_def from_protos_def Validator_ToProto_def demo_val_def)
  ultimately show ?thesis
    by (auto simp: verifyLightBlock_def lc_eval latest_block_def verifyFunc_def updateTrustedLightBlock_def SaveLightBlock_def)
qed

section \<open>Trusted blocks\<close>

text \<open>C4. A block the light client has verified forwards in skipping mode and saved is at the end of a path from the
  latest trusted block, when the primary and the witnesses are different providers. The path comes from one source: the
  primary, and then its last block is the new block, or a witness that has taken the place of the primary, with a last
  block of the same hash. Each block of the path is linked to the one before it by more than two thirds of its own
  validators and either the announced validator set or more than the trust level of the earlier validators. And a
  witness other than the source has, in the course of this verification, been asked for the block of that height, or for
  its latest block, which is of that height, and has answered with a block of the same hash.\<close>

theorem light_client_trust:
  assumes "verifyLightBlock le new now c = Some (Ok (c', Inr ()))" "c_verificationMode c = skipping"
    "c_latestTrustedBlock c = Some latest" "lb_Height latest = Ok lh" "lb_Height new = Ok nh" "lh \<le> nh"
    "order_ok le" "distinct (c_primary c # c_witnesses c)" "batch_verifier_ok (crypto (le_env le)) (le_batch le)"
    "0 \<le> sint (Numerator (c_trustLevel c))" "0 \<le> sint (Denominator (c_trustLevel c))"
  shows "\<exists>trace source w. 2 \<le> length trace \<and> hd trace = latest \<and> lb_Hash (le_env le) (List.last trace) = lb_Hash (le_env le) new \<and>
      (source = c_primary c \<and> List.last trace = new \<or> source \<in> set (c_witnesses c) \<and> offered le source (List.last trace)) \<and>
      (\<forall>b \<in> set (tl trace). b = List.last trace \<or> offered le source b) \<and>
      successively (\<lambda>a b. block_ok a \<and> block_ok b \<longrightarrow> linked (le_env le) (c_trustLevel c) a b) trace \<and>
      w \<in> set (c_witnesses c) \<and> w \<noteq> source \<and> confirmed le (c_clock c) (c_clock c') w (List.last trace) \<and>
      c_latestTrustedBlock c' = (if lh < nh then Some new else Some latest)"
proof -
  obtain trace source w c1 where t: "trust_path le c (c_clock c1) now latest new trace source w" "same_config c c1"
      "updateTrustedLightBlock new c1 = Some (Ok (c', Inr ()))"
    by (rule trusted_path [OF assms(1-8)])
  note up = updateTrusted_latest [OF t(3) assms(5)]
  have "successively (\<lambda>a b. block_ok a \<and> block_ok b \<longrightarrow> linked (le_env le) (c_trustLevel c) a b) trace"
    using t(1) verifies_linked [OF _ _ _ assms(9-11)] unfolding trust_path_def by (blast intro: successively_mono)
  moreover have "c_latestTrustedBlock c' = (if lh < nh then Some new else Some latest)"
    using up(1) t(2) assms(3,4) by (simp add: same_config_def)
  ultimately show ?thesis using t(1) unfolding trust_path_def asked_def up(2) by blast
qed

theorem light_client_trust_witness:
  "\<exists>c' trace source w. verifyLightBlock demo_light_env (demo_light 5) 10 demo_client = Some (Ok (c', Inr ())) \<and>
     hd trace = demo_light 3 \<and> lb_Hash (demo_env [demo_bytes 1]) (List.last trace) = Ok (replicate 32 1) \<and>
     w \<in> {1, 2} \<and> w \<noteq> source \<and> confirmed demo_light_env 0 (c_clock c') w (List.last trace) \<and> c_latestTrustedBlock c' = Some (demo_light 5)"
proof -
  obtain c' where c': "verifyLightBlock demo_light_env (demo_light 5) 10 demo_client = Some (Ok (c', Inr ()))" using demo_trusted by blast
  have "order_ok demo_light_env" by (auto simp: order_ok_def demo_light_env_def)
  moreover have "batch_verifier_ok (crypto (le_env demo_light_env)) (le_batch demo_light_env)" by (simp add: demo_light_env_def demo_batch_ok)
  moreover have "c_verificationMode demo_client = skipping" "c_latestTrustedBlock demo_client = Some (demo_light 3)" "c_primary demo_client = 0"
      "c_witnesses demo_client = [1, 2]" "c_trustLevel demo_client = DefaultTrustLevel" "c_clock demo_client = 0"
    by (simp_all add: demo_client_def new_client_def)
  moreover have "lb_Hash (le_env demo_light_env) (demo_light 5) = Ok (replicate 32 1)" by (simp add: demo_light_env_def lb_Hash_def demo_header_hash)
  moreover have "le_env demo_light_env = demo_env [demo_bytes 1]" by (simp add: demo_light_env_def)
  ultimately show ?thesis
    using light_client_trust [OF c', of "demo_light 3" 3 5] c' by (auto simp: DefaultTrustLevel_def)
qed

text \<open>C18. Skipping verification returns: with a source that answers a request for a height with a block of that
  height, whatever that block is, the search for a chain of trusted blocks ends.\<close>

theorem skipping_terminates:
  assumes "provider_ok le source" "lb_Height trusted = Ok th" "0 \<le> th" "lb_Height new = Ok nh" "nh \<le> 2 ^ 59"
  shows "\<exists>r. verifySkipping le source trusted new now c = Some r"
  using assms by (rule verifySkipping_total)

theorem skipping_terminates_witness:
  "\<exists>r. verifySkipping demo_light_env 0 (demo_light 3) (demo_light 5) 10 demo_client = Some r"
proof -
  have "provider_ok demo_light_env 0" by (auto simp: provider_ok_def demo_light_env_def split: if_splits)
  then show ?thesis by (intro skipping_terminates [of _ _ _ 3 _ 5]) simp_all
qed

end
