(* ===== verification/PartSet.thy ===== *)
theory PartSet
  imports BlockTypes BitArray MerkleParallel
begin

text \<open>
  Block parts and part sets (\<open>types/part_set.go\<close>): the chunks in which a block is gossiped, with the Merkle proof
  of each, and their erasure code. The buffer is one list of bytes. \<open>uint32\<close> values are integers and \<open>u32\<close> is
  the wrap-around. The Reed-Solomon library is a parameter, and so are the number of processors and the order in
  which the workers of the parallel Merkle tree run.
\<close>

definition u32 :: "int \<Rightarrow> int" where
  "u32 x = x mod 4294967296"

abbreviation BlockPartSizeBytes :: int where "BlockPartSizeBytes \<equiv> 65536"

record Part =
  part_Index :: int
  part_Bytes :: bytes
  part_Proof :: Proof

definition validateBasicWithPartSize :: "Part \<Rightarrow> int \<Rightarrow> unit result" where
  "validateBasicWithPartSize part partSize =
     (if int (length (part_Bytes part)) > partSize then Err (Errorf ''error part size too big'')
      else if part_Index part < i64 (proof_Total (part_Proof part) - 1) \<and> int (length (part_Bytes part)) \<noteq> partSize
      then Err (Errorf ''error inner part with invalid size'')
      else if part_Index part \<noteq> proof_Index (part_Proof part) then Err (Errorf ''part index != proof index'')
      else map_err (Wrapf ''wrong Proof'') (Proof_ValidateBasic (part_Proof part)))"

definition Part_ValidateBasic :: "Part \<Rightarrow> unit result" where
  "Part_ValidateBasic part = validateBasicWithPartSize part BlockPartSizeBytes"

text \<open>The message has the fields of the struct.\<close>

definition Part_ToProto :: "Part option \<Rightarrow> Part result" where
  "Part_ToProto part =
     (case part of None \<Rightarrow> Err (Errorf ''nil part'')
      | Some p \<Rightarrow> Ok \<lparr>part_Index = part_Index p, part_Bytes = part_Bytes p, part_Proof = the (Proof_ToProto (Some (part_Proof p)))\<rparr>)"

definition PartFromProto :: "Part option \<Rightarrow> Part result" where
  "PartFromProto pb =
     (case pb of None \<Rightarrow> Err (Errorf ''nil part'')
      | Some p \<Rightarrow>
          bind_out (ProofFromProto (Some (part_Proof p)) False) (\<lambda>sp.
          let part = \<lparr>part_Index = part_Index p, part_Bytes = part_Bytes p, part_Proof = the sp\<rparr>
          in bind_out (Part_ValidateBasic part) (\<lambda>_. Ok part)))"

record PartSet =
  ps_total :: int
  ps_hash :: bytes
  ps_buffer :: bytes
  ps_partSize :: int
  ps_lastPartSize :: int
  ps_proofs :: "Proof list"
  ps_partsBitArray :: "BitArray option"
  ps_count :: int
  ps_byteSize :: int

definition empty_proof :: Proof where
  "empty_proof = \<lparr>proof_Total = 0, proof_Index = 0, proof_LeafHash = [], proof_Aunts = []\<rparr>"

definition NewPartSetFromHeader :: "PartSetHeader \<Rightarrow> int \<Rightarrow> PartSet result" where
  "NewPartSetFromHeader header partSize =
     bind_out (NewBitArray (psh_Total header)) (\<lambda>ba.
     Ok \<lparr>ps_total = psh_Total header, ps_hash = psh_Hash header, ps_buffer = replicate (nat (psh_Total header * partSize)) 0,
         ps_partSize = partSize, ps_lastPartSize = 0, ps_proofs = replicate (nat (psh_Total header)) empty_proof,
         ps_partsBitArray = ba, ps_count = 0, ps_byteSize = 0\<rparr>)"

text \<open>A slice expression \<open>s[low:high]\<close>; the capacity of a slice is its length.\<close>

definition subslice :: "'a list \<Rightarrow> int \<Rightarrow> int \<Rightarrow> ('a list) result" where
  "subslice xs low high =
     (if 0 \<le> low \<and> low \<le> high \<and> high \<le> int (length xs) then Ok (take (nat (high - low)) (drop (nat low) xs))
      else Panic ''slice bounds out of range'')"

definition data_chunks :: "bytes \<Rightarrow> int \<Rightarrow> int \<Rightarrow> (bytes list) result" where
  "data_chunks bz partSize tot =
     fold_out (\<lambda>i chunks. map_out (\<lambda>c. chunks @ [c]) (subslice bz (u32 (i * partSize)) (min (int (length bz)) (u32 (u32 (i + 1) * partSize)))))
       (map int [0..<nat tot]) []"

text \<open>Filling the bit array of an empty part set dereferences a nil pointer.\<close>

definition fill_bits :: "BitArray option \<Rightarrow> (BitArray option) result" where
  "fill_bits ba = (case ba of None \<Rightarrow> Panic ''nil pointer dereference'' | Some b \<Rightarrow> map_out Some (Fill b))"

definition NewPartSetFromData :: "hash_fn \<Rightarrow> int \<Rightarrow> nat list \<Rightarrow> bytes \<Rightarrow> int \<Rightarrow> PartSet result" where
  "NewPartSetFromData hf numCPU order bz partSize =
     (if partSize = 0 then Panic ''integer divide by zero''
      else
       (let total = u32 (u32 (u32 (int (length bz)) + partSize) - 1) div partSize in
        bind_out (data_chunks bz partSize total) (\<lambda>chunks.
        bind_out (ParallelProofsFromByteSlices hf numCPU order chunks) (\<lambda>(root, proofs).
        bind_out (NewPartSetFromHeader \<lparr>psh_Total = total, psh_Hash = root\<rparr> partSize) (\<lambda>ops.
        if length (ps_buffer ops) < length bz then Err (Errorf ''copy failed'')
        else bind_out (fill_bits (ps_partsBitArray ops)) (\<lambda>ba.
             Ok (ops\<lparr>ps_buffer := go_copy (ps_buffer ops) bz,
                     ps_lastPartSize := (if total > 0 then int (length (chunks ! nat (total - 1))) else 0),
                     ps_proofs := proofs, ps_partsBitArray := ba, ps_count := total, ps_byteSize := int (length bz)\<rparr>)))))))"

definition PS_Header :: "PartSet option \<Rightarrow> PartSetHeader" where
  "PS_Header ps = (case ps of None \<Rightarrow> \<lparr>psh_Total = 0, psh_Hash = []\<rparr> | Some p \<Rightarrow> \<lparr>psh_Total = ps_total p, psh_Hash = ps_hash p\<rparr>)"

definition HasHeader :: "PartSet option \<Rightarrow> PartSetHeader \<Rightarrow> bool" where
  "HasHeader ps header = (case ps of None \<Rightarrow> False | Some p \<Rightarrow> PSH_Equals (PS_Header (Some p)) header)"

definition PS_Hash :: "hash_fn \<Rightarrow> PartSet option \<Rightarrow> bytes result" where
  "PS_Hash hf ps = (case ps of None \<Rightarrow> HashFromByteSlices hf [] | Some p \<Rightarrow> Ok (ps_hash p))"

definition PS_HashesTo :: "PartSet option \<Rightarrow> bytes \<Rightarrow> bool" where
  "PS_HashesTo ps hash = (case ps of None \<Rightarrow> False | Some p \<Rightarrow> ps_hash p = hash)"

definition PS_Count :: "PartSet option \<Rightarrow> int" where
  "PS_Count ps = (case ps of None \<Rightarrow> 0 | Some p \<Rightarrow> ps_count p)"

definition PS_ByteSize :: "PartSet option \<Rightarrow> int" where
  "PS_ByteSize ps = (case ps of None \<Rightarrow> 0 | Some p \<Rightarrow> ps_byteSize p)"

definition PS_Total :: "PartSet option \<Rightarrow> int" where
  "PS_Total ps = (case ps of None \<Rightarrow> 0 | Some p \<Rightarrow> ps_total p)"

definition addPart :: "PartSet \<Rightarrow> Part option \<Rightarrow> (PartSet \<times> bool) result" where
  "addPart ps part =
     (case part of None \<Rightarrow> Err (Errorf ''nil part'')
      | Some p \<Rightarrow>
          if part_Index p \<ge> ps_total ps then Err (Errorf ''error part set unexpected index'')
          else bind_out (GetIndex (ps_partsBitArray ps) (part_Index p)) (\<lambda>has.
          if has then Ok (ps, False)
          else (let start = part_Index p * ps_partSize ps; end' = start + int (length (part_Bytes p))
                in if end' > int (length (ps_buffer ps)) then Err (Errorf ''part data exceeds buffer bounds'')
                   else bind_out (SetIndex (ps_partsBitArray ps) (part_Index p) True) (\<lambda>(ba, _).
                        Ok (ps\<lparr>ps_buffer := take (nat start) (ps_buffer ps) @ part_Bytes p @ drop (nat end') (ps_buffer ps),
                               ps_proofs := (ps_proofs ps)[nat (part_Index p) := part_Proof p],
                               ps_lastPartSize := (if part_Index p = u32 (ps_total ps - 1) then int (length (part_Bytes p)) else ps_lastPartSize ps),
                               ps_count := u32 (ps_count ps + 1), ps_byteSize := i64 (ps_byteSize ps + int (length (part_Bytes p))),
                               ps_partsBitArray := ba\<rparr>, True)))))"

definition AddPart :: "hash_fn \<Rightarrow> PartSet option \<Rightarrow> Part option \<Rightarrow> (PartSet option \<times> bool) result" where
  "AddPart hf ps part =
     (case ps of None \<Rightarrow> Ok (None, False)
      | Some s \<Rightarrow> (case part of None \<Rightarrow> Err (Errorf ''nil part'')
      | Some p \<Rightarrow>
          bind_out (validateBasicWithPartSize p (ps_partSize s)) (\<lambda>_.
          bind_out (GetIndex (ps_partsBitArray s) (part_Index p)) (\<lambda>has.
          if has then Ok (ps, False)
          else if proof_Total (part_Proof p) \<noteq> ps_total s then Err (Errorf ''error part set invalid proof: wrong total'')
          else bind_out (map_err (Wrapf ''error part set invalid proof: wrong hash'') (Proof_Verify hf (part_Proof p) (Some (ps_hash s)) (part_Bytes p))) (\<lambda>_.
               map_out (\<lambda>(s', added). (Some s', added)) (addPart s part))))))"

definition AddPartWithoutProof :: "PartSet \<Rightarrow> Part option \<Rightarrow> (PartSet \<times> bool) result" where
  "AddPartWithoutProof ps part = addPart ps part"

text \<open>The nil slice of a part that is absent is none.\<close>

definition getPartBytes :: "PartSet \<Rightarrow> int \<Rightarrow> (bytes option) result" where
  "getPartBytes ps ix =
     bind_out (GetIndex (ps_partsBitArray ps) ix) (\<lambda>has.
     if \<not> has then Ok None
     else (let start = ix * ps_partSize ps;
               end' = start + (if ix = ps_total ps - 1 then ps_lastPartSize ps else ps_partSize ps)
           in if start \<ge> int (length (ps_buffer ps)) \<or> end' > int (length (ps_buffer ps)) then Ok None
              else map_out Some (subslice (ps_buffer ps) start end')))"

definition GetPartBytes :: "PartSet \<Rightarrow> int \<Rightarrow> (bytes option) result" where
  "GetPartBytes ps ix = getPartBytes ps ix"

definition GetPart :: "PartSet \<Rightarrow> int \<Rightarrow> (Part option) result" where
  "GetPart ps ix =
     bind_out (getPartBytes ps ix) (\<lambda>bz.
     case bz of None \<Rightarrow> Ok None
     | Some b \<Rightarrow> bind_out (index (ps_proofs ps) ix) (\<lambda>sp. Ok (Some \<lparr>part_Index = u32 ix, part_Bytes = b, part_Proof = sp\<rparr>)))"

definition HasPart :: "PartSet \<Rightarrow> int \<Rightarrow> bool result" where
  "HasPart ps ix = GetIndex (ps_partsBitArray ps) ix"

definition PS_IsComplete :: "PartSet \<Rightarrow> bool" where
  "PS_IsComplete ps \<longleftrightarrow> ps_count ps = ps_total ps"

definition IsReadyForDecoding :: "PartSet \<Rightarrow> bool" where
  "IsReadyForDecoding ps = PS_IsComplete ps"

definition GetBytes :: "PartSet \<Rightarrow> bytes result" where
  "GetBytes ps =
     (if \<not> PS_IsComplete ps then Panic ''Cannot GetBytes() on incomplete PartSet''
      else subslice (ps_buffer ps) 0 (u32 (ps_total ps - 1) * ps_partSize ps + ps_lastPartSize ps))"

section \<open>Erasure coding\<close>

text \<open>
  The code with as many parity shards as data shards: \<open>rs_new\<close> may refuse the numbers, \<open>rs_encode\<close> fills the
  parity shards and \<open>rs_reconstruct\<close> the shards that are absent.
\<close>

record rs_env =
  rs_new :: "int \<Rightarrow> int \<Rightarrow> unit result"
  rs_encode :: "bytes list \<Rightarrow> (bytes list) result"
  rs_reconstruct :: "bytes option list \<Rightarrow> (bytes list) result"

definition pad_to :: "nat \<Rightarrow> bytes \<Rightarrow> bytes" where
  "pad_to n bz = go_copy (replicate n 0) bz"

definition segmentedEncodeOK :: "int \<Rightarrow> int \<Rightarrow> bool" where
  "segmentedEncodeOK tot procs \<longleftrightarrow> tot \<ge> 129 \<and> procs > 1"

definition chunksAreFull :: "bytes list \<Rightarrow> int \<Rightarrow> bool" where
  "chunksAreFull chunks partSize \<longleftrightarrow> (\<forall>chunk \<in> set chunks. int (length chunk) = partSize)"

text \<open>The segments of 1024 bytes are encoded one by one and joined.\<close>

fun encode_segments :: "rs_env \<Rightarrow> bytes list \<Rightarrow> nat \<Rightarrow> nat \<Rightarrow> (bytes list) result" where
  "encode_segments rs chunks len 0 = Ok (map (\<lambda>_. []) chunks)"
| "encode_segments rs chunks len (Suc n) =
     bind_out (encode_segments rs chunks len n) (\<lambda>done_chunks.
     bind_out (rs_encode rs (map (\<lambda>c. take 1024 (drop (1024 * n) (take len c))) chunks)) (\<lambda>seg.
     Ok (map2 (@) done_chunks seg)))"

definition PS_Encode :: "hash_fn \<Rightarrow> rs_env \<Rightarrow> int \<Rightarrow> nat list \<Rightarrow> PartSet \<Rightarrow> int \<Rightarrow> (PartSet \<times> int) result" where
  "PS_Encode hf rs numCPU order ops partSize =
     (let total = ps_total ops in
      bind_out (fold_out (\<lambda>i cs. map_out (\<lambda>c. cs @ [case c of None \<Rightarrow> [] | Some b \<Rightarrow> b]) (getPartBytes ops i)) (map int [0..<nat total]) []) (\<lambda>chunks.
      bind_out (getPartBytes ops (total - 1)) (\<lambda>lastBz.
      let lastLen = (case lastBz of None \<Rightarrow> 0 | Some b \<Rightarrow> length b) in
      bind_out (if int lastLen < partSize
                then if total \<le> 0 then Panic ''index out of range''
                     else Ok (chunks[nat (total - 1) := pad_to (nat partSize) (chunks ! nat (total - 1))])
                else Ok chunks) (\<lambda>chunks.
      bind_out (rs_new rs total total) (\<lambda>_.
      let shards = chunks @ replicate (nat total) (replicate (nat partSize) 0) in
      bind_out (if segmentedEncodeOK total numCPU \<and> chunksAreFull shards partSize
                then encode_segments rs shards (nat partSize) ((nat partSize + 1023) div 1024)
                else rs_encode rs shards) (\<lambda>shards.
      let parity = drop (nat total) shards in
      bind_out (ParallelProofsFromByteSlices hf numCPU order parity) (\<lambda>(eroot, eproofs).
      if int (length eproofs) \<noteq> total then Err (Errorf ''parity proofs'')
      else bind_out (NewBitArray total) (\<lambda>ba. bind_out (fill_bits ba) (\<lambda>ba.
           Ok (\<lparr>ps_total = total, ps_hash = eroot, ps_buffer = concat parity, ps_partSize = partSize, ps_lastPartSize = partSize,
                ps_proofs = eproofs, ps_partsBitArray = ba, ps_count = total, ps_byteSize = int (length (concat parity))\<rparr>, int lastLen))))))))))"

definition pruneLastPart :: "bytes list \<Rightarrow> int \<Rightarrow> int \<Rightarrow> (bytes list) result" where
  "pruneLastPart bzs lastIndex lastPartLen =
     bind_out (index bzs lastIndex) (\<lambda>l.
     if int (length l) \<noteq> lastPartLen
     then bind_out (subslice l 0 lastPartLen) (\<lambda>l'. Ok (bzs[nat lastIndex := l']))
     else Ok bzs)"

definition pad_part :: "bytes \<Rightarrow> bytes result" where
  "pad_part c =
     (if int (length c) \<noteq> BlockPartSizeBytes
      then if int (length c) > BlockPartSizeBytes then Err (Errorf ''unpadded part copy failed'') else Ok (pad_to (nat BlockPartSizeBytes) c)
      else Ok c)"

definition read_parts :: "(bytes \<Rightarrow> bytes result) \<Rightarrow> PartSet \<Rightarrow> (bytes option list) result" where
  "read_parts f ps =
     fold_out (\<lambda>i cs. bind_out (getPartBytes ps i) (\<lambda>c.
       case c of None \<Rightarrow> Ok (cs @ [None]) | Some b \<Rightarrow> map_out (\<lambda>b'. cs @ [Some b']) (f b))) (map int [0..<nat (ps_total ps)]) []"

text \<open>
  The workers that add the missing parts take the lock of the set one after another. A decoding that fails
  returns no set; the parts it may have added to its arguments before are not part of the result.
\<close>

definition add_missing :: "hash_fn \<Rightarrow> bytes list \<Rightarrow> Proof list \<Rightarrow> PartSet \<Rightarrow> PartSet result" where
  "add_missing hf bzs proofs ps =
     fold_out (\<lambda>i ps. bind_out (HasPart ps (int i)) (\<lambda>has.
       if has then Ok ps
       else bind_out (AddPart hf (Some ps) (Some \<lparr>part_Index = int i, part_Bytes = bzs ! i, part_Proof = proofs ! i\<rparr>)) (\<lambda>(ps', added).
            if \<not> added then Err (Errorf ''couldn't add part when decoding'') else Ok (the ps'))))
       [0..<nat (ps_total ps)] ps"

definition PS_Decode :: "hash_fn \<Rightarrow> rs_env \<Rightarrow> int \<Rightarrow> nat list \<Rightarrow> nat list \<Rightarrow> PartSet \<Rightarrow> PartSet \<Rightarrow> int \<Rightarrow> (PartSet \<times> PartSet) result" where
  "PS_Decode hf rs numCPU order order' ops eps lastPartLen =
     bind_out (rs_new rs (ps_total ops) (ps_total eps)) (\<lambda>_.
     bind_out (read_parts pad_part ops) (\<lambda>d1.
     bind_out (read_parts Ok eps) (\<lambda>d2.
     bind_out (rs_reconstruct rs (d1 @ d2)) (\<lambda>bzs.
     bind_out (pruneLastPart bzs (u32 (ps_total ops - 1)) lastPartLen) (\<lambda>bzs.
     bind_out (ParallelProofsFromByteSlices hf numCPU order (take (nat (ps_total ops)) bzs)) (\<lambda>(root, proofs).
     if root \<noteq> ps_hash ops then Err (Errorf ''reconstructed data has different hash!!'')
     else bind_out (add_missing hf (take (nat (ps_total ops)) bzs) proofs ops) (\<lambda>ops'.
          bind_out (ParallelProofsFromByteSlices hf numCPU order' (drop (nat (ps_total ops)) bzs)) (\<lambda>(eroot, eproofs).
          if eroot \<noteq> ps_hash eps then Err (Errorf ''reconstructed parity data has different hash!!'')
          else bind_out (add_missing hf (drop (nat (ps_total ops)) bzs) eproofs eps) (\<lambda>eps'.
               Ok (ops', eps'))))))))))"

end
