(* ===== verification/PartSetProps.thy ===== *)
theory PartSetProps
  imports PartSet
begin

text \<open>A part set that is complete holds the data whose parts it was made for, whoever sent the parts.\<close>

section \<open>Chunks\<close>

definition chunk :: "nat \<Rightarrow> bytes \<Rightarrow> nat \<Rightarrow> bytes" where
  "chunk p bz i = take p (drop (i * p) bz)"

definition chunk_count :: "nat \<Rightarrow> bytes \<Rightarrow> nat" where
  "chunk_count p bz = (length bz + p - 1) div p"

definition chunks_of :: "nat \<Rightarrow> bytes \<Rightarrow> bytes list" where
  "chunks_of p bz = map (chunk p bz) [0..<chunk_count p bz]"

lemma chunk_count_bounds:
  assumes "0 < p" "bz \<noteq> []"
  shows "0 < chunk_count p bz" "(chunk_count p bz - 1) * p < length bz" "length bz \<le> chunk_count p bz * p"
proof -
  define n where "n = chunk_count p bz"
  have "n * p + (length bz + p - 1) mod p = length bz + p - 1" by (simp add: n_def chunk_count_def)
  moreover have "(length bz + p - 1) mod p < p" using assms by simp
  moreover have "0 < length bz" using assms by simp
  ultimately have 1: "n * p \<le> length bz + p - 1" and 2: "length bz \<le> n * p" using assms by linarith+
  then show "length bz \<le> chunk_count p bz * p" by (simp add: n_def)
  show n: "0 < chunk_count p bz" using 2 \<open>0 < length bz\<close> by (cases n) (auto simp: n_def)
  have "n * p - p < length bz" using 1 assms(1) \<open>0 < length bz\<close> by linarith
  then show "(chunk_count p bz - 1) * p < length bz" by (simp add: n_def diff_mult_distrib)
qed

lemma chunk_length:
  assumes "0 < p" "bz \<noteq> []" "i < chunk_count p bz"
  shows "length (chunk p bz i) = (if i = chunk_count p bz - 1 then length bz - i * p else p)" "length (chunk p bz i) \<le> p"
    "i * p + length (chunk p bz i) \<le> length bz" "i * p < length bz"
proof -
  note b = chunk_count_bounds [OF assms(1,2)]
  have 1: "(i + 1) * p \<le> length bz" if "i \<noteq> chunk_count p bz - 1"
  proof -
    have "(i + 1) * p \<le> (chunk_count p bz - 1) * p" using that assms(3) by (intro mult_right_mono) auto
    then show ?thesis using b(2) by linarith
  qed
  have 2: "length bz - i * p \<le> p" if "i = chunk_count p bz - 1"
    using that b by (auto simp: diff_mult_distrib)
  show 3: "i * p < length bz" using 1 b(2) assms(1) by (cases "i = chunk_count p bz - 1") auto
  show "length (chunk p bz i) = (if i = chunk_count p bz - 1 then length bz - i * p else p)"
    using 1 2 by (auto simp: chunk_def min_def)
  show "i * p + length (chunk p bz i) \<le> length bz" using 3 by (auto simp: chunk_def min_def)
  show "length (chunk p bz i) \<le> p" by (simp add: chunk_def)
qed

lemma concat_chunks: "concat (map (chunk p bz) [0..<n]) = take (n * p) bz"
proof (induction n)
  case (Suc n)
  then show ?case using take_add [of "n * p" p bz] by (simp add: chunk_def add.commute)
qed simp

lemma concat_chunks_of:
  assumes "0 < p" "bz \<noteq> []"
  shows "concat (chunks_of p bz) = bz"
  using chunk_count_bounds(3) [OF assms] by (simp add: chunks_of_def concat_chunks)

lemma chunks_of_simps [simp]:
  "length (chunks_of p bz) = chunk_count p bz" "i < chunk_count p bz \<Longrightarrow> chunks_of p bz ! i = chunk p bz i"
  by (simp_all add: chunks_of_def)

lemma u32_id [simp]: "0 \<le> x \<Longrightarrow> x < 4294967296 \<Longrightarrow> u32 x = x"
  by (simp add: u32_def)

lemma u32_nat: "n < 4294967296 \<Longrightarrow> u32 (int n) = int n"
  by simp

lemma subslice_nat:
  "a \<le> b \<Longrightarrow> b \<le> length xs \<Longrightarrow> subslice xs (int a) (int b) = Ok (take (b - a) (drop a xs))"
  by (simp add: subslice_def nat_diff_distrib)

lemma data_chunks_eq:
  assumes "0 < p" "bz \<noteq> []" "length bz + p < 4294967296" "n \<le> chunk_count p bz"
  shows "data_chunks bz (int p) (int n) = Ok (map (chunk p bz) [0..<n])"
  using assms(4)
proof (induction n)
  case 0
  then show ?case by (simp add: data_chunks_def)
next
  case (Suc n)
  have n: "n < chunk_count p bz" using Suc.prems by simp
  note b = chunk_length(4) [OF assms(1,2) n]
  have c: "n * p + p < 4294967296" using b assms(3) by simp
  have "n \<le> n * p" using assms(1) by simp
  then have "n + 1 < 4294967296" using c assms(1) by linarith
  then have "u32 (int n + 1) = int (n + 1)" by simp
  moreover have "u32 (int (n * p)) = int (n * p)" "u32 (int (n * p + p)) = int (n * p + p)"
    by (rule u32_nat, use c in linarith) (rule u32_nat, rule c)
  moreover have "int n * int p = int (n * p)" "int (n + 1) * int p = int (n * p + p)" by (simp_all add: distrib_right)
  ultimately have u: "u32 (int n * int p) = int (n * p)" "u32 (u32 (int n + 1) * int p) = int (n * p + p)"
    by (simp_all only:)
  have "min (int (length bz)) (int (n * p + p)) = int (min (length bz) (n * p + p))" by (simp only: of_nat_min)
  then have "subslice bz (u32 (int n * int p)) (min (int (length bz)) (u32 (u32 (int n + 1) * int p))) = Ok (chunk p bz n)"
    unfolding u using b by (simp only:) (subst subslice_nat; simp add: chunk_def min_def)
  moreover have "n \<le> chunk_count p bz" using n by simp
  ultimately show ?case
    using Suc.IH by (simp add: data_chunks_def del: of_nat_Suc)
qed

section \<open>Assembling\<close>

text \<open>The indices of the parts a set has, and what a set for the parts of some data keeps while parts come in.\<close>

definition got :: "PartSet \<Rightarrow> nat set" where
  "got ps = (case ps_partsBitArray ps of None \<Rightarrow> {} | Some b \<Rightarrow> {i. i < nat (Bits b) \<and> ba_bit b i})"

definition assembles :: "hash_fn \<Rightarrow> nat \<Rightarrow> bytes \<Rightarrow> PartSet \<Rightarrow> bool" where
  "assembles hf p bz ps \<longleftrightarrow>
     ps_total ps = int (chunk_count p bz) \<and> ps_partSize ps = int p \<and> ps_hash ps = merkle_root hf (chunks_of p bz) \<and>
     length (ps_buffer ps) = chunk_count p bz * p \<and>
     (\<exists>b. ps_partsBitArray ps = Some b \<and> ba_wf b \<and> Bits b = int (chunk_count p bz)) \<and>
     ps_count ps = int (card (got ps)) \<and>
     (\<forall>i \<in> got ps. take (length (chunk p bz i)) (drop (i * p) (ps_buffer ps)) = chunk p bz i) \<and>
     (chunk_count p bz - 1 \<in> got ps \<longrightarrow> ps_lastPartSize ps = int (length (chunk p bz (chunk_count p bz - 1))))"

lemma got_bound: "assembles hf p bz ps \<Longrightarrow> got ps \<subseteq> {..<chunk_count p bz}"
  by (auto simp: assembles_def got_def)

lemma patch_other:
  assumes "s + l \<le> a \<or> a + length ys \<le> s" "a + length ys \<le> length xs"
  shows "take l (drop s (take a xs @ ys @ drop (a + length ys) xs)) = take l (drop s xs)"
  using assms by (intro nth_equalityI) (auto simp: nth_append)

lemma patch_same:
  assumes "a + length ys \<le> length xs"
  shows "take (length ys) (drop a (take a xs @ ys @ drop (a + length ys) xs)) = ys"
  using assms by simp

lemma got_set:
  assumes "ps_partsBitArray ps = Some b" "ba_wf b" "i < nat (Bits b)"
  shows "GetIndex (ps_partsBitArray ps) (int i) = Ok (i \<in> got ps)"
    "\<exists>b'. SetIndex (ps_partsBitArray ps) (int i) True = Ok (Some b', True) \<and> ba_wf b' \<and> Bits b' = Bits b \<and>
       {j. j < nat (Bits b') \<and> ba_bit b' j} = insert i (got ps)"
proof -
  show "GetIndex (ps_partsBitArray ps) (int i) = Ok (i \<in> got ps)"
    using assms getIndex_wf [OF assms(2,3)] by (simp add: GetIndex_def got_def)
  obtain b' where b': "setIndex b (int i) True = Ok (b', True)" "ba_wf b'" "Bits b' = Bits b" "ba_bits b' = (ba_bits b)[i := True]"
    using setIndex_wf [OF assms(2,3)] by blast
  have "ba_bit b' j = (j = i \<or> ba_bit b j)" if "j < nat (Bits b)" for j
    using that assms(3) b' nth_ba_bits [of j b'] by (auto simp: nth_list_update split: if_splits)
  then have "{j. j < nat (Bits b') \<and> ba_bit b' j} = insert i (got ps)" using assms(1,3) b'(3) by (auto simp: got_def)
  with b' show "\<exists>b'. SetIndex (ps_partsBitArray ps) (int i) True = Ok (Some b', True) \<and> ba_wf b' \<and> Bits b' = Bits b \<and>
       {j. j < nat (Bits b') \<and> ba_bit b' j} = insert i (got ps)"
    using assms(1) by (auto simp: SetIndex_def)
qed

lemma chunks_apart:
  assumes "0 < p" "bz \<noteq> []" "i < chunk_count p bz" "j < chunk_count p bz" "i \<noteq> j"
  shows "j * p + length (chunk p bz j) \<le> i * p \<or> i * p + length (chunk p bz i) \<le> j * p"
proof (cases "j < i")
  case True
  then have "(j + 1) * p \<le> i * p" by (intro mult_right_mono) auto
  then show ?thesis using chunk_length(2) [OF assms(1,2,4)] by simp
next
  case False
  then have "(i + 1) * p \<le> j * p" using assms(5) by (intro mult_right_mono) auto
  then show ?thesis using chunk_length(2) [OF assms(1,2,3)] by simp
qed

lemma addPart_chunk:
  assumes "0 < p" "bz \<noteq> []" "length bz + p < 4294967296" "assembles hf p bz ps" "i < chunk_count p bz" "i \<notin> got ps"
    and "part_Index part = int i" "part_Bytes part = chunk p bz i"
  shows "\<exists>ps'. addPart ps (Some part) = Ok (ps', True) \<and> assembles hf p bz ps' \<and> got ps' = insert i (got ps)"
proof -
  define n where "n = chunk_count p bz"
  note a = assms(4) [unfolded assembles_def, folded n_def]
  obtain b where b: "ps_partsBitArray ps = Some b" "ba_wf b" "Bits b = int n" using a by blast
  have ib: "i < nat (Bits b)" using b(3) assms(5) n_def by simp
  note g = got_set [OF b(1,2) ib]
  obtain b' where b': "SetIndex (ps_partsBitArray ps) (int i) True = Ok (Some b', True)" "ba_wf b'" "Bits b' = Bits b"
    "{j. j < nat (Bits b') \<and> ba_bit b' j} = insert i (got ps)" using g(2) by blast
  have "i * p + length (chunk p bz i) \<le> n * p"
    using chunk_length(3) [OF assms(1,2,5)] chunk_count_bounds(3) [OF assms(1,2)] unfolding n_def by linarith
  then have e: "i * p + length (chunk p bz i) \<le> length (ps_buffer ps)" using a by simp
  define buf where "buf = take (i * p) (ps_buffer ps) @ chunk p bz i @ drop (i * p + length (chunk p bz i)) (ps_buffer ps)"
  define ps' where "ps' = ps\<lparr>ps_buffer := buf, ps_proofs := (ps_proofs ps)[i := part_Proof part],
    ps_lastPartSize := (if int i = u32 (int n - 1) then int (length (chunk p bz i)) else ps_lastPartSize ps),
    ps_count := u32 (ps_count ps + 1), ps_byteSize := i64 (ps_byteSize ps + int (length (chunk p bz i))), ps_partsBitArray := Some b'\<rparr>"
  have n1: "int i * int p = int (i * p)" "int (i * p) + int (length (chunk p bz i)) = int (i * p + length (chunk p bz i))" by simp_all
  have "int (i * p + length (chunk p bz i)) \<le> int (length (ps_buffer ps))" using e by (simp only: of_nat_le_iff)
  then have "\<not> int (i * p + length (chunk p bz i)) > int (length (ps_buffer ps))" by simp
  moreover have "ps_total ps = int n" "ps_partSize ps = int p" "\<not> int n \<le> int i" using a assms(5) n_def by auto
  ultimately have "addPart ps (Some part) = Ok (ps', True)"
    using assms(6-8) g(1) b'(1)
    unfolding addPart_def option.case by (simp only: n1 Let_def bind_out.simps nat_int if_False) (simp add: ps'_def buf_def)
  moreover have got: "got ps' = insert i (got ps)" using b'(4) by (simp add: got_def ps'_def)
  moreover have "assembles hf p bz ps'"
  proof -
    have le: "got ps \<subseteq> {..<n}" using got_bound [OF assms(4)] n_def by simp
    have "card (insert i (got ps)) = card (got ps) + 1" using finite_subset [OF le] assms(6) by simp
    moreover have "card (insert i (got ps)) \<le> n"
      using card_mono [of "{..<n}" "insert i (got ps)"] le assms(5) n_def by simp
    moreover have n: "n < 4294967296" "0 < n"
    proof -
      have "n - 1 \<le> (n - 1) * p" using assms(1) by simp
      then show "n < 4294967296" using chunk_count_bounds(2) [OF assms(1,2)] assms(3) unfolding n_def by linarith
      show "0 < n" using assms(5) n_def by simp
    qed
    ultimately have "ps_count ps' = int (card (got ps'))" using a unfolding got by (simp add: ps'_def)
    moreover have "take (length (chunk p bz j)) (drop (j * p) buf) = chunk p bz j" if "j \<in> insert i (got ps)" for j
    proof (cases "j = i")
      case True
      then show ?thesis using patch_same [OF e] by (simp add: buf_def)
    next
      case False
      then have "j \<in> got ps" "j < n" using that le by auto
      then show ?thesis
        using False a patch_other [OF chunks_apart [OF assms(1,2,5)] e, of j] n_def by (simp add: buf_def)
    qed
    moreover have "length buf = n * p" using e a by (simp add: buf_def)
    moreover have "u32 (int n - 1) = int (n - 1)" using n by (simp add: of_nat_diff)
    moreover have "ps_total ps' = int n" "ps_partSize ps' = int p" "ps_hash ps' = merkle_root hf (chunks_of p bz)" "ps_buffer ps' = buf"
      "ps_partsBitArray ps' = Some b'" "Bits b' = int n" "ps_lastPartSize ps' = (if int i = u32 (int n - 1) then int (length (chunk p bz i)) else ps_lastPartSize ps)"
      using a b'(3) b(3) by (simp_all add: ps'_def)
    moreover have "n - 1 \<in> got ps \<Longrightarrow> ps_lastPartSize ps = int (length (chunk p bz (n - 1)))" using a by blast
    ultimately show ?thesis using b'(2) unfolding assembles_def n_def [symmetric] got by (simp split: if_splits)
  qed
  ultimately show ?thesis by blast
qed

section \<open>Receiving\<close>

definition forged :: "hash_fn \<Rightarrow> nat \<Rightarrow> bytes \<Rightarrow> Part \<Rightarrow> bool" where
  "forged hf p bz part \<longleftrightarrow>
     collides hf (tree_inputs hf (chunks_of p bz))
       (proof_inputs hf (proof_Index (part_Proof part)) (proof_Total (part_Proof part)) (part_Bytes part) (proof_Aunts (part_Proof part)))"

text \<open>A receiver offers each part that comes in to the set; a part that is refused leaves the set as it is.\<close>

definition receive_part :: "hash_fn \<Rightarrow> Part \<Rightarrow> PartSet \<Rightarrow> PartSet" where
  "receive_part hf part ps = (case AddPart hf (Some ps) (Some part) of Ok (Some ps', _) \<Rightarrow> ps' | _ \<Rightarrow> ps)"

lemma bind_OkE: "bind_out x f = Ok y \<Longrightarrow> (\<And>a. x = Ok a \<Longrightarrow> f a = Ok y \<Longrightarrow> P) \<Longrightarrow> P"
  by (cases x) auto

lemma validateBasic_index:
  assumes "validateBasicWithPartSize part ps = Ok ()"
  shows "part_Index part = proof_Index (part_Proof part)" "0 \<le> part_Index part"
  using assms by (cases "Proof_ValidateBasic (part_Proof part)"; auto simp: validateBasicWithPartSize_def Proof_ValidateBasic_def split: if_splits)+

lemma AddPart_accepts:
  assumes "\<And>x. length (hf x) = m" "assembles hf p bz ps" "AddPart hf (Some ps) (Some part) = Ok (r, a)" "\<not> forged hf p bz part"
  shows "r = Some ps \<or> (\<exists>i ps'. i < chunk_count p bz \<and> i \<notin> got ps \<and> part_Index part = int i \<and> part_Bytes part = chunk p bz i \<and>
    addPart ps (Some part) = Ok (ps', a) \<and> r = Some ps')"
proof -
  note as = assms(2) [unfolded assembles_def]
  obtain has where v: "validateBasicWithPartSize part (ps_partSize ps) = Ok ()" "GetIndex (ps_partsBitArray ps) (part_Index part) = Ok has"
    "(if has then Ok (Some ps, False)
      else if proof_Total (part_Proof part) \<noteq> ps_total ps then Err (Errorf ''error part set invalid proof: wrong total'')
      else bind_out (map_err (Wrapf ''error part set invalid proof: wrong hash'') (Proof_Verify hf (part_Proof part) (Some (ps_hash ps)) (part_Bytes part))) (\<lambda>_.
           map_out (\<lambda>(s', added). (Some s', added)) (addPart ps (Some part)))) = Ok (r, a)"
    using assms(3) unfolding AddPart_def option.case by (elim bind_OkE) auto
  show ?thesis
  proof (cases has)
    case False
    obtain ps' where w: "proof_Total (part_Proof part) = ps_total ps" "Proof_Verify hf (part_Proof part) (Some (ps_hash ps)) (part_Bytes part) = Ok ()"
      "addPart ps (Some part) = Ok (ps', a)" "r = Some ps'"
      using v(3) False by (cases "Proof_Verify hf (part_Proof part) (Some (ps_hash ps)) (part_Bytes part)"; cases "addPart ps (Some part)")
        (auto split: if_splits)
    obtain i where i: "part_Index part = int i" using validateBasic_index(2) [OF v(1)] nonneg_int_cases by blast
    have "part_Index part < ps_total ps" using w(3) by (auto simp: addPart_def split: if_splits)
    then have n: "i < chunk_count p bz" using as i by simp
    have "in_tree (chunks_of p bz) (proof_Index (part_Proof part)) (proof_Total (part_Proof part)) (part_Bytes part)"
      using Proof_Verify_sound [of hf, OF assms(1)] w(2) as assms(4) unfolding forged_def by metis
    moreover have "nat (proof_Index (part_Proof part)) = i" using validateBasic_index(1) [OF v(1)] i by simp
    ultimately have "part_Bytes part = chunk p bz i" using w(1) as n by (simp add: in_tree_def)
    moreover have "i \<notin> got ps" using as v(2) False n i got_set(1) [of ps _ i] by force
    ultimately show ?thesis using n i w by blast
  qed (use v(3) in simp)
qed

lemma receive_keeps:
  assumes "0 < p" "bz \<noteq> []" "length bz + p < 4294967296" "\<And>x. length (hf x) = m" "assembles hf p bz ps" "\<not> forged hf p bz part"
  shows "assembles hf p bz (receive_part hf part ps)" "got ps \<subseteq> got (receive_part hf part ps)"
proof -
  have "assembles hf p bz (receive_part hf part ps) \<and> got ps \<subseteq> got (receive_part hf part ps)"
  proof (cases "AddPart hf (Some ps) (Some part)")
    case (Ok ra)
    obtain r a where ra: "ra = (r, a)" by (cases ra)
    note ok = Ok [unfolded ra]
    from AddPart_accepts [OF assms(4,5) ok assms(6)] show ?thesis
    proof
      assume "r = Some ps"
      then show ?thesis using ok assms(5) by (simp add: receive_part_def)
    next
      assume "\<exists>i ps'. i < chunk_count p bz \<and> i \<notin> got ps \<and> part_Index part = int i \<and> part_Bytes part = chunk p bz i \<and>
        addPart ps (Some part) = Ok (ps', a) \<and> r = Some ps'"
      then show ?thesis using addPart_chunk [OF assms(1-3,5)] ok by (force simp: receive_part_def)
    qed
  qed (use assms(5) in \<open>simp_all add: receive_part_def\<close>)
  then show "assembles hf p bz (receive_part hf part ps)" "got ps \<subseteq> got (receive_part hf part ps)" by simp_all
qed

lemma receive_all_keeps:
  assumes "0 < p" "bz \<noteq> []" "length bz + p < 4294967296" "\<And>x. length (hf x) = m" "assembles hf p bz ps" "\<forall>part \<in> set parts. \<not> forged hf p bz part"
  shows "assembles hf p bz (fold (receive_part hf) parts ps) \<and> got ps \<subseteq> got (fold (receive_part hf) parts ps)"
  using assms(5,6)
proof (induction parts arbitrary: ps)
  case (Cons part parts)
  have k: "assembles hf p bz (receive_part hf part ps)" "got ps \<subseteq> got (receive_part hf part ps)"
    using receive_keeps [OF assms(1-4) Cons.prems(1), of part] Cons.prems(2) by auto
  from Cons.IH [OF k(1)] Cons.prems(2) k(2) show ?case by auto
qed simp

lemma buffer_prefix:
  assumes "0 < p" "bz \<noteq> []" "assembles hf p bz ps" "{..<k} \<subseteq> got ps" "k < chunk_count p bz"
  shows "take (k * p) (ps_buffer ps) = take (k * p) bz"
  using assms(4,5)
proof (induction k)
  case (Suc k)
  have "take p (drop (k * p) (ps_buffer ps)) = take p (drop (k * p) bz)"
  proof -
    have "k \<in> got ps" using Suc.prems(1) by auto
    then have "take (length (chunk p bz k)) (drop (k * p) (ps_buffer ps)) = chunk p bz k" using assms(3) by (simp add: assembles_def)
    moreover have "k < chunk_count p bz" "k \<noteq> chunk_count p bz - 1" using Suc.prems(2) by linarith+
    then have "length (chunk p bz k) = p" using chunk_length(1) [OF assms(1,2), of k] by simp
    ultimately show ?thesis by (simp add: chunk_def)
  qed
  moreover have "take (k * p) (ps_buffer ps) = take (k * p) bz" using Suc by (simp add: subset_iff)
  ultimately show ?case using take_add [of "k * p" p "ps_buffer ps"] take_add [of "k * p" p bz] by (simp add: add.commute)
qed simp

lemma complete_bytes:
  assumes "0 < p" "bz \<noteq> []" "length bz + p < 4294967296" "assembles hf p bz ps" "PS_IsComplete ps"
  shows "GetBytes ps = Ok bz"
proof -
  define n where "n = chunk_count p bz"
  note a = assms(4) [unfolded assembles_def, folded n_def]
  note cb = chunk_count_bounds [OF assms(1,2), folded n_def]
  have "got ps \<subseteq> {..<n}" "card (got ps) = n" using got_bound [OF assms(4)] a assms(5) n_def by (auto simp: PS_IsComplete_def)
  then have all: "got ps = {..<n}" by (simp add: card_subset_eq)
  define l where "l = length (chunk p bz (n - 1))"
  have l: "l = length bz - (n - 1) * p" using chunk_length(1) [OF assms(1,2), of "n - 1"] cb n_def by (simp add: l_def)
  have "take ((n - 1) * p) (ps_buffer ps) = take ((n - 1) * p) bz"
    using buffer_prefix [OF assms(1,2,4), of "n - 1"] all cb(1) n_def by auto
  moreover have "n - 1 \<in> got ps" using all cb(1) by simp
  then have "take l (drop ((n - 1) * p) (ps_buffer ps)) = chunk p bz (n - 1)" "ps_lastPartSize ps = int l"
    using a by (simp_all add: l_def)
  moreover have "chunk p bz (n - 1) = drop ((n - 1) * p) bz"
    using l chunk_length(2) [OF assms(1,2), of "n - 1"] cb n_def by (simp add: chunk_def l_def)
  ultimately have t: "take ((n - 1) * p + l) (ps_buffer ps) = bz"
    using take_add [of "(n - 1) * p" l "ps_buffer ps"] by simp
  have "n - 1 \<le> (n - 1) * p" using assms(1) by simp
  then have "n - 1 < 4294967296" using cb(2) assms(3) by linarith
  then have "u32 (ps_total ps - 1) = int (n - 1)" using a cb(1) by (simp add: of_nat_diff)
  then have "u32 (ps_total ps - 1) * ps_partSize ps + ps_lastPartSize ps = int ((n - 1) * p + l)"
    using a \<open>ps_lastPartSize ps = int l\<close> by simp
  moreover have "(n - 1) * p + l \<le> length (ps_buffer ps)" using l cb a by simp
  ultimately show ?thesis using assms(5) t subslice_nat [of 0 "(n - 1) * p + l" "ps_buffer ps"] by (simp add: GetBytes_def)
qed

section \<open>Sending\<close>

lemma got_full:
  assumes "0 < n" "n \<le> MaxInt64 - 63"
  shows "\<exists>ba b. NewBitArray n = Ok (Some ba) \<and> fill_bits (Some ba) = Ok (Some b) \<and> ba_wf b \<and> Bits b = n \<and> {i. i < nat (Bits b) \<and> ba_bit b i} = {..<nat n}"
proof -
  obtain ba where ba: "NewBitArray n = Ok (Some ba)" "ba_wf ba" "Bits ba = n" using NewBitArray_wf [OF assms] by blast
  obtain b where b: "Fill ba = Ok b" "ba_wf b" "ba_bits b = replicate (nat n) True" using Fill_wf [OF ba(2)] ba(3) by auto
  have "nat (Bits b) = nat n" using b(3) length_ba_bits [of b] by simp
  then have n: "Bits b = n" using b(2) assms(1) by (simp add: ba_wf_def)
  have "ba_bit b i" if "i < nat n" for i using that b(3) n nth_ba_bits [of i b] by simp
  then show ?thesis using ba(1) b n by (auto simp: fill_bits_def)
qed

lemma chunk_count_small:
  assumes "0 < p" "bz \<noteq> []" "length bz + p < 4294967296"
  shows "chunk_count p bz < 4294967296"
proof -
  have "chunk_count p bz - 1 \<le> (chunk_count p bz - 1) * p" using assms(1) by simp
  then show ?thesis using chunk_count_bounds(2) [OF assms(1,2)] assms(3) by linarith
qed

lemma NewPartSetFromHeader_assembles:
  assumes "0 < p" "bz \<noteq> []" "length bz + p < 4294967296"
  shows "\<exists>ps. NewPartSetFromHeader \<lparr>psh_Total = int (chunk_count p bz), psh_Hash = merkle_root hf (chunks_of p bz)\<rparr> (int p) = Ok ps \<and>
    assembles hf p bz ps \<and> got ps = {}"
proof -
  have n: "0 < int (chunk_count p bz)" "int (chunk_count p bz) \<le> MaxInt64 - 63"
    using chunk_count_small [OF assms] chunk_count_bounds(1) [OF assms(1,2)] by simp_all
  obtain b where b: "NewBitArray (int (chunk_count p bz)) = Ok (Some b)" "ba_wf b" "Bits b = int (chunk_count p bz)" "\<forall>i. \<not> ba_bit b i"
    using NewBitArray_wf [OF n] by blast
  have "nat (int (chunk_count p bz) * int p) = chunk_count p bz * p" by (simp add: nat_mult_distrib)
  then show ?thesis using b by (simp add: NewPartSetFromHeader_def assembles_def got_def)
qed

lemma NewPartSetFromData_eq:
  assumes "0 < p" "bz \<noteq> []" "length bz + p < 4294967296" "mset order = mset [0..<chunk_count p bz]"
  shows "\<exists>ps. NewPartSetFromData hf numCPU order bz (int p) = Ok ps \<and> assembles hf p bz ps \<and> got ps = {..<chunk_count p bz} \<and>
    ps_proofs ps = map (spec_proof hf (map (leafHash hf) (chunks_of p bz))) [0..<chunk_count p bz]"
proof -
  define n where "n = chunk_count p bz"
  note cb = chunk_count_bounds [OF assms(1,2), folded n_def] and small = chunk_count_small [OF assms(1-3), folded n_def]
  have "u32 (u32 (u32 (int (length bz)) + int p) - 1) = int (length bz + p - 1)"
    using assms(1-3) by (simp add: of_nat_diff)
  then have tot: "u32 (u32 (u32 (int (length bz)) + int p) - 1) div int p = int n" by (simp add: n_def chunk_count_def zdiv_int)
  have chunks: "data_chunks bz (int p) (int n) = Ok (chunks_of p bz)"
    using data_chunks_eq [OF assms(1-3), of n] by (simp add: n_def chunks_of_def)
  have proofs: "ParallelProofsFromByteSlices hf numCPU order (chunks_of p bz) =
      Ok (merkle_root hf (chunks_of p bz), map (spec_proof hf (map (leafHash hf) (chunks_of p bz))) [0..<n])"
    using assms(4) by (simp add: ParallelProofsFromByteSlices_eq ProofsFromByteSlices_eq ProofsFromLeafHashes_eq merkle_root_def n_def)
  obtain ba b where b: "NewBitArray (int n) = Ok (Some ba)" "fill_bits (Some ba) = Ok (Some b)" "ba_wf b" "Bits b = int n"
    "{i. i < nat (Bits b) \<and> ba_bit b i} = {..<n}"
    using got_full [of "int n"] cb(1) small by auto
  have last: "chunks_of p bz ! (n - Suc 0) = chunk p bz (n - Suc 0)" using cb(1) n_def by simp
  have "nat (int n * int p) = n * p" by (simp add: nat_mult_distrib)
  then obtain ps where ps: "NewPartSetFromData hf numCPU order bz (int p) = Ok ps" "ps_total ps = int n" "ps_partSize ps = int p"
    "ps_hash ps = merkle_root hf (chunks_of p bz)" "ps_buffer ps = go_copy (replicate (n * p) 0) bz" "ps_partsBitArray ps = Some b"
    "ps_count ps = int n" "ps_lastPartSize ps = int (length (chunk p bz (n - 1)))"
    "ps_proofs ps = map (spec_proof hf (map (leafHash hf) (chunks_of p bz))) [0..<n]"
    using assms(1) cb b(1,2) small last
    by (simp add: NewPartSetFromData_def tot chunks proofs NewPartSetFromHeader_def Let_def nat_diff_distrib)
  have "take (length (chunk p bz i)) (drop (i * p) (ps_buffer ps)) = chunk p bz i" if "i < n" for i
    using chunk_length(3,4) [OF assms(1,2), of i] that cb(3) unfolding ps(5) go_copy_def n_def by (simp add: chunk_def min_def)
  then have "assembles hf p bz ps" "got ps = {..<n}"
    using ps b cb(1) unfolding assembles_def n_def [symmetric] by (simp_all add: got_def go_copy_def cb(3))
  then show ?thesis using ps n_def by blast
qed

definition sent_part :: "hash_fn \<Rightarrow> nat \<Rightarrow> bytes \<Rightarrow> nat \<Rightarrow> Part" where
  "sent_part hf p bz i =
     \<lparr>part_Index = int i, part_Bytes = chunk p bz i, part_Proof = spec_proof hf (map (leafHash hf) (chunks_of p bz)) i\<rparr>"

lemma GetPart_sent:
  assumes "0 < p" "bz \<noteq> []" "length bz + p < 4294967296" "assembles hf p bz ps" "i < chunk_count p bz" "got ps = {..<chunk_count p bz}"
    "ps_proofs ps = map (spec_proof hf (map (leafHash hf) (chunks_of p bz))) [0..<chunk_count p bz]"
  shows "GetPart ps (int i) = Ok (Some (sent_part hf p bz i))"
proof -
  define l where "l = length (chunk p bz i)"
  note a = assms(4) [unfolded assembles_def]
  note c = chunk_length [OF assms(1,2,5)] and cb = chunk_count_bounds [OF assms(1,2)]
  obtain b where b: "ps_partsBitArray ps = Some b" "ba_wf b" "Bits b = int (chunk_count p bz)" using a by blast
  have has: "GetIndex (ps_partsBitArray ps) (int i) = Ok True" using got_set(1) [OF b(1,2), of i] b(3) assms(5,6) by simp
  have "(if int i = ps_total ps - 1 then ps_lastPartSize ps else ps_partSize ps) = int l"
    using a c(1) cb(1) assms(5,6) by (auto simp: l_def of_nat_diff)
  moreover have "int i * ps_partSize ps = int (i * p)" using a by simp
  moreover have len: "length (ps_buffer ps) = chunk_count p bz * p" using a by blast
  have le: "i * p < length (ps_buffer ps)" "i * p + l \<le> length (ps_buffer ps)" unfolding len l_def using c(3,4) cb(3) by linarith+
  moreover have "\<not> int (length (ps_buffer ps)) \<le> int (i * p)" "\<not> int (length (ps_buffer ps)) < int (i * p + l)"
    using le by (simp_all only: of_nat_le_iff of_nat_less_iff)
  moreover have "subslice (ps_buffer ps) (int (i * p)) (int (i * p + l)) = Ok (chunk p bz i)"
    using subslice_nat [OF _ le(2), of "i * p"] a assms(5,6) by (simp add: l_def)
  ultimately have "getPartBytes ps (int i) = Ok (Some (chunk p bz i))"
    unfolding getPartBytes_def has Let_def by (simp only: bind_out.simps of_nat_add [symmetric] disj_not1 if_False not_True_eq_False map_out.simps simp_thms)
  moreover have "u32 (int i) = int i" using chunk_count_small [OF assms(1-3)] assms(5) by simp
  ultimately show ?thesis using assms(5,7) by (simp add: GetPart_def sent_part_def)
qed

lemma receive_sent:
  assumes "0 < p" "bz \<noteq> []" "length bz + p < 4294967296" "\<And>x. length (hf x) = tmhash_Size" "assembles hf p bz ps" "i < chunk_count p bz"
  shows "i \<in> got (receive_part hf (sent_part hf p bz i) ps)"
proof -
  note a = assms(5) [unfolded assembles_def]
  have small: "chunk_count p bz \<le> 2 ^ MaxAunts" using chunk_count_small [OF assms(1-3)] by simp
  have pv: "Proof_ValidateBasic (spec_proof hf (map (leafHash hf) (chunks_of p bz)) i) = Ok ()"
    using small assms(6) by (intro spec_proof_valid assms(4)) simp_all
  have tot: "proof_Total (spec_proof hf (map (leafHash hf) (chunks_of p bz)) i) = int (chunk_count p bz)"
    "proof_Index (spec_proof hf (map (leafHash hf) (chunks_of p bz)) i) = int i" by (simp_all add: spec_proof_def)
  have "is_i64 (int (chunk_count p bz) - 1)" using chunk_count_small [OF assms(1-3)] by (simp add: is_i64_def)
  then have vb: "validateBasicWithPartSize (sent_part hf p bz i) (ps_partSize ps) = Ok ()"
    using chunk_length(1,2) [OF assms(1,2,6)] chunk_count_bounds(1) [OF assms(1,2)] a pv tot
    by (auto simp: validateBasicWithPartSize_def sent_part_def of_nat_diff)
  obtain b where b: "ps_partsBitArray ps = Some b" "ba_wf b" "Bits b = int (chunk_count p bz)" using a by blast
  have has: "GetIndex (ps_partsBitArray ps) (int i) = Ok (i \<in> got ps)" using got_set(1) [OF b(1,2), of i] b(3) assms(6) by simp
  have ver: "Proof_Verify hf (spec_proof hf (map (leafHash hf) (chunks_of p bz)) i) (Some (ps_hash ps)) (chunk p bz i) = Ok ()"
    using spec_proof_verifies [of i "chunks_of p bz" hf] a assms(6) by simp
  show ?thesis
  proof (cases "i \<in> got ps")
    case True
    then show ?thesis using vb has by (simp add: receive_part_def AddPart_def sent_part_def)
  next
    case False
    then obtain ps' where "addPart ps (Some (sent_part hf p bz i)) = Ok (ps', True)" "got ps' = insert i (got ps)"
      using addPart_chunk [OF assms(1-3,5,6) False, of "sent_part hf p bz i"] by (auto simp: sent_part_def)
    then show ?thesis using vb has ver False a tot by (simp add: receive_part_def AddPart_def) (simp add: sent_part_def)
  qed
qed

lemma receive_all_sent:
  assumes "0 < p" "bz \<noteq> []" "length bz + p < 4294967296" "\<And>x. length (hf x) = tmhash_Size" "assembles hf p bz ps"
    "\<forall>part \<in> set parts. \<not> forged hf p bz part" "\<forall>i < chunk_count p bz. i \<in> got ps \<or> sent_part hf p bz i \<in> set parts"
  shows "PS_IsComplete (fold (receive_part hf) parts ps)"
  using assms(5-7)
proof (induction parts arbitrary: ps)
  case Nil
  then have "got ps = {..<chunk_count p bz}" using got_bound by fastforce
  with Nil.prems(1) show ?case by (simp add: PS_IsComplete_def assembles_def)
next
  case (Cons part parts)
  have k: "assembles hf p bz (receive_part hf part ps)" "got ps \<subseteq> got (receive_part hf part ps)"
    using receive_keeps [OF assms(1-4) Cons.prems(1), of part] Cons.prems(2) by auto
  have "i \<in> got (receive_part hf part ps) \<or> sent_part hf p bz i \<in> set parts" if "i < chunk_count p bz" for i
    using Cons.prems(3) that k(2) receive_sent [OF assms(1-4) Cons.prems(1) that] by auto
  with Cons.IH [OF k(1)] Cons.prems(2) show ?case by simp
qed

text \<open>C14. A block cut into parts is put together again by any receiver that knows the header of the part set: whatever
  parts it is offered, in whatever order, a complete set holds the original bytes, and it is complete once every
  part the sender has was offered, unless one of the offered parts comes with a hash collision.\<close>

theorem part_set_reassembled:
  assumes "\<forall>x. length (hf x) = tmhash_Size" "0 < p" "bz \<noteq> []" "length bz + p < 4294967296" "mset order = mset [0..<chunk_count p bz]"
  shows "\<exists>sent recv. NewPartSetFromData hf numCPU order bz (int p) = Ok sent \<and> GetBytes sent = Ok bz \<and>
    NewPartSetFromHeader (PS_Header (Some sent)) (int p) = Ok recv \<and>
    (\<forall>parts. (\<forall>part \<in> set parts. \<not> forged hf p bz part) \<longrightarrow>
      (PS_IsComplete (fold (receive_part hf) parts recv) \<longrightarrow> GetBytes (fold (receive_part hf) parts recv) = Ok bz) \<and>
      ((\<forall>i < chunk_count p bz. \<exists>part \<in> set parts. GetPart sent (int i) = Ok (Some part)) \<longrightarrow>
        PS_IsComplete (fold (receive_part hf) parts recv)))"
proof -
  have len: "\<And>x. length (hf x) = tmhash_Size" using assms(1) by blast
  obtain sent where s: "NewPartSetFromData hf numCPU order bz (int p) = Ok sent" "assembles hf p bz sent" "got sent = {..<chunk_count p bz}"
    "ps_proofs sent = map (spec_proof hf (map (leafHash hf) (chunks_of p bz))) [0..<chunk_count p bz]"
    using NewPartSetFromData_eq [OF assms(2-5)] by blast
  obtain recv where r: "NewPartSetFromHeader (PS_Header (Some sent)) (int p) = Ok recv" "assembles hf p bz recv"
    using NewPartSetFromHeader_assembles [OF assms(2-4), of hf] s(2) by (auto simp: PS_Header_def assembles_def)
  have "PS_IsComplete sent" using s(2,3) by (simp add: PS_IsComplete_def assembles_def)
  then have "GetBytes sent = Ok bz" by (rule complete_bytes [OF assms(2-4) s(2)])
  moreover have "GetBytes (fold (receive_part hf) parts recv) = Ok bz"
    if "\<forall>part \<in> set parts. \<not> forged hf p bz part" "PS_IsComplete (fold (receive_part hf) parts recv)" for parts
    using complete_bytes [OF assms(2-4)] receive_all_keeps [OF assms(2-4) len r(2) that(1)] that(2) by blast
  moreover have "PS_IsComplete (fold (receive_part hf) parts recv)"
    if "\<forall>part \<in> set parts. \<not> forged hf p bz part" "\<forall>i < chunk_count p bz. \<exists>part \<in> set parts. GetPart sent (int i) = Ok (Some part)" for parts
    using receive_all_sent [OF assms(2-4) len r(2) that(1)] that(2) GetPart_sent [OF assms(2-4) s(2) _ s(3,4)] by force
  ultimately show ?thesis using s(1) r(1) by blast
qed

definition pad_hash :: "bytes \<Rightarrow> bytes" where
  "pad_hash m = take 32 (m @ replicate 32 0)"

theorem part_set_reassembled_witness:
  "\<exists>sent recv. NewPartSetFromData pad_hash 4 [1, 0] [1, 2, 3] 2 = Ok sent \<and> NewPartSetFromHeader (PS_Header (Some sent)) 2 = Ok recv \<and>
     GetBytes (fold (receive_part pad_hash) [sent_part pad_hash 2 [1, 2, 3] 1, sent_part pad_hash 2 [1, 2, 3] 0] recv) = Ok [1, 2, 3]"
proof -
  have n: "chunk_count 2 [1, 2, 3] = 2" by (simp add: chunk_count_def)
  have f: "\<not> forged pad_hash 2 [1, 2, 3] (sent_part pad_hash 2 [1, 2, 3] 0)" "\<not> forged pad_hash 2 [1, 2, 3] (sent_part pad_hash 2 [1, 2, 3] 1)"
    by code_simp+
  have g: "(case NewPartSetFromData pad_hash 4 [1, 0] [1, 2, 3] 2 of
      Ok sent \<Rightarrow> GetPart sent 0 = Ok (Some (sent_part pad_hash 2 [1, 2, 3] 0)) \<and> GetPart sent 1 = Ok (Some (sent_part pad_hash 2 [1, 2, 3] 1)))"
    by code_simp
  have l: "\<forall>x. length (pad_hash x) = tmhash_Size" by (simp add: pad_hash_def min_def)
  have ord: "mset [1, 0] = mset [0..<chunk_count 2 [1, 2, 3]]" unfolding n by (simp add: upt_rec)
  obtain sent recv where s: "NewPartSetFromData pad_hash 4 [1, 0] [1, 2, 3] 2 = Ok sent" "NewPartSetFromHeader (PS_Header (Some sent)) 2 = Ok recv"
    and r: "\<forall>parts. (\<forall>part \<in> set parts. \<not> forged pad_hash 2 [1, 2, 3] part) \<longrightarrow>
      (PS_IsComplete (fold (receive_part pad_hash) parts recv) \<longrightarrow> GetBytes (fold (receive_part pad_hash) parts recv) = Ok [1, 2, 3]) \<and>
      ((\<forall>i < chunk_count 2 [1, 2, 3]. \<exists>part \<in> set parts. GetPart sent (int i) = Ok (Some part)) \<longrightarrow>
        PS_IsComplete (fold (receive_part pad_hash) parts recv))"
    using part_set_reassembled [OF l _ _ _ ord, of 4] by auto
  let ?parts = "[sent_part pad_hash 2 [1, 2, 3] 1, sent_part pad_hash 2 [1, 2, 3] 0]"
  have "GetPart sent 0 = Ok (Some (sent_part pad_hash 2 [1, 2, 3] 0))" "GetPart sent 1 = Ok (Some (sent_part pad_hash 2 [1, 2, 3] 1))"
    using g s(1) by simp_all
  then have "\<forall>i < chunk_count 2 [1, 2, 3]. \<exists>part \<in> set ?parts. GetPart sent (int i) = Ok (Some part)"
    unfolding n by (auto simp: less_2_cases_iff)
  moreover have "\<forall>part \<in> set ?parts. \<not> forged pad_hash 2 [1, 2, 3] part" using f by simp
  ultimately show ?thesis using r s by blast
qed

end
