(* ===== verification/BlobTx.thy ===== *)
theory BlobTx
  imports ProtoReader
begin

text \<open>
  Transactions and their hashes (\<open>types/tx.go\<close>, \<open>types/blob_tx.go\<close>): a transaction that carries blobs is hashed
  without them. The unwrapping scans the fields in place; where the scan is not sure it decodes the message.

  The wire format library (\<open>protowire\<close>) and the square library (\<open>go-square\<close>) are parameters. A negative length
  of the wire format library is none. A scan takes at least one byte in each turn of its loops, so a number of
  turns above the number of bytes is never used up.
\<close>

record tx_env =
  pw_ConsumeTag :: "bytes \<Rightarrow> (int \<times> uint64 \<times> nat) option"
  pw_ConsumeBytes :: "bytes \<Rightarrow> (bytes \<times> nat) option"
  pw_ConsumeFieldValue :: "int \<Rightarrow> uint64 \<Rightarrow> bytes \<Rightarrow> nat option"
  sq_ProtoBlobTxTypeID :: bytes
  sq_ProtoIndexWrapperTypeID :: bytes
  sq_NamespaceIDSize :: nat
  sq_UnmarshalBlobTxNoCopy :: "bytes \<Rightarrow> bytes option"

section \<open>The generated decoders\<close>

record BlobProto =
  bl_NamespaceId :: bytes
  bl_Data :: bytes
  bl_ShareVersion :: int
  bl_NamespaceVersion :: int

definition empty_BlobProto :: BlobProto where
  "empty_BlobProto = \<lparr>bl_NamespaceId = [], bl_Data = [], bl_ShareVersion = 0, bl_NamespaceVersion = 0\<rparr>"

definition Blob_Unmarshal :: "bytes \<Rightarrow> BlobProto \<Rightarrow> BlobProto result" where
  "Blob_Unmarshal = pb_unmarshal [
     1 \<mapsto> BytesField (\<lambda>bz m. Ok (m\<lparr>bl_NamespaceId := bz\<rparr>)),
     2 \<mapsto> BytesField (\<lambda>bz m. Ok (m\<lparr>bl_Data := bz\<rparr>)),
     3 \<mapsto> VarintField (\<lambda>v m. m\<lparr>bl_ShareVersion := uint (ucast v :: 32 word)\<rparr>),
     4 \<mapsto> VarintField (\<lambda>v m. m\<lparr>bl_NamespaceVersion := uint (ucast v :: 32 word)\<rparr>)]"

record BlobTxProto =
  bt_Tx :: bytes
  bt_Blobs :: "BlobProto list"
  bt_TypeId :: bytes

definition empty_BlobTxProto :: BlobTxProto where
  "empty_BlobTxProto = \<lparr>bt_Tx = [], bt_Blobs = [], bt_TypeId = []\<rparr>"

definition BlobTx_Unmarshal :: "bytes \<Rightarrow> BlobTxProto \<Rightarrow> BlobTxProto result" where
  "BlobTx_Unmarshal = pb_unmarshal [
     1 \<mapsto> BytesField (\<lambda>bz m. Ok (m\<lparr>bt_Tx := bz\<rparr>)),
     2 \<mapsto> BytesField (\<lambda>bz m. map_out (\<lambda>b. m\<lparr>bt_Blobs := bt_Blobs m @ [b]\<rparr>) (Blob_Unmarshal bz empty_BlobProto)),
     3 \<mapsto> BytesField (\<lambda>bz m. Ok (m\<lparr>bt_TypeId := bz\<rparr>))]"

record IndexWrapper =
  iw_Tx :: bytes
  iw_ShareIndexes :: "int list"
  iw_TypeId :: bytes

definition IndexWrapper_Unmarshal :: "bytes \<Rightarrow> IndexWrapper \<Rightarrow> IndexWrapper result" where
  "IndexWrapper_Unmarshal = pb_unmarshal [
     1 \<mapsto> BytesField (\<lambda>bz m. Ok (m\<lparr>iw_Tx := bz\<rparr>)),
     2 \<mapsto> PackedField (\<lambda>vs m. m\<lparr>iw_ShareIndexes := iw_ShareIndexes m @ map (\<lambda>v. uint (ucast v :: 32 word)) vs\<rparr>),
     3 \<mapsto> BytesField (\<lambda>bz m. Ok (m\<lparr>iw_TypeId := bz\<rparr>))]"

section \<open>Unwrapping\<close>

definition decodeLegacyBlobTx :: "tx_env \<Rightarrow> bytes \<Rightarrow> bytes \<times> bool" where
  "decodeLegacyBlobTx te tx =
     (case BlobTx_Unmarshal tx empty_BlobTxProto of
        Ok bTx \<Rightarrow>
          if bt_TypeId bTx \<noteq> sq_ProtoBlobTxTypeID te \<or> bt_Blobs bTx = [] then (tx, False)
          else if \<exists>b \<in> set (bt_Blobs bTx). length (bl_NamespaceId b) \<noteq> sq_NamespaceIDSize te then (tx, False)
          else (bt_Tx bTx, True)
      | _ \<Rightarrow> (tx, False))"

text \<open>The result is whether the blob is valid and whether the scan could decide.\<close>

fun scan_blob :: "tx_env \<Rightarrow> nat \<Rightarrow> bytes \<Rightarrow> nat \<Rightarrow> (bool \<times> bool) result" where
  "scan_blob te 0 b nsLen = Panic ''out of turns''"
| "scan_blob te (Suc k) b nsLen =
     (if b = [] then Ok (nsLen = sq_NamespaceIDSize te, True)
      else case pw_ConsumeTag te b of
        None \<Rightarrow> Ok (False, False)
      | Some (num, typ, n) \<Rightarrow>
          let b = drop n b; want = (if num = 1 \<or> num = 2 then 2 else if num = 3 \<or> num = 4 then 0 else typ)
          in if typ \<noteq> want then Ok (False, True)
             else case pw_ConsumeFieldValue te num typ b of
               None \<Rightarrow> Ok (False, False)
             | Some n \<Rightarrow>
                 scan_blob te k (drop n b)
                   (if num = 1 then (case pw_ConsumeBytes te b of None \<Rightarrow> 0 | Some (v, _) \<Rightarrow> length v) else nsLen))"

definition scanLegacyBlob :: "tx_env \<Rightarrow> bytes \<Rightarrow> (bool \<times> bool) result" where
  "scanLegacyBlob te blob = scan_blob te (Suc (length blob)) blob 0"

text \<open>The first pass ends early with whether it could decide, or finds the inner transaction and the type identifier.\<close>

fun scan_fields :: "tx_env \<Rightarrow> nat \<Rightarrow> bytes \<Rightarrow> bytes \<Rightarrow> bytes \<Rightarrow> (bool + bytes \<times> bytes) result" where
  "scan_fields te 0 b inner typeID = Panic ''out of turns''"
| "scan_fields te (Suc k) b inner typeID =
     (if b = [] then Ok (Inr (inner, typeID))
      else case pw_ConsumeTag te b of
        None \<Rightarrow> Ok (Inl False)
      | Some (num, typ, n) \<Rightarrow>
          let b = drop n b
          in if num = 1 \<or> num = 2 \<or> num = 3
             then if typ \<noteq> 2 then Ok (Inl True)
                  else case pw_ConsumeBytes te b of
                    None \<Rightarrow> Ok (Inl False)
                  | Some (v, n) \<Rightarrow> scan_fields te k (drop n b) (if num = 1 then v else inner) (if num = 3 then v else typeID)
             else case pw_ConsumeFieldValue te num typ b of
                    None \<Rightarrow> Ok (Inl False)
                  | Some n \<Rightarrow> scan_fields te k (drop n b) inner typeID)"

fun scan_blobs :: "tx_env \<Rightarrow> nat \<Rightarrow> bytes \<Rightarrow> nat \<Rightarrow> (bool + nat) result" where
  "scan_blobs te 0 b blobs = Panic ''out of turns''"
| "scan_blobs te (Suc k) b blobs =
     (if b = [] then Ok (Inr blobs)
      else case pw_ConsumeTag te b of
        None \<Rightarrow> Panic ''slice bounds out of range''
      | Some (num, typ, n) \<Rightarrow>
          let b = drop n b
          in if num \<noteq> 2
             then case pw_ConsumeFieldValue te num typ b of
                    None \<Rightarrow> Panic ''slice bounds out of range''
                  | Some n \<Rightarrow> scan_blobs te k (drop n b) blobs
             else case pw_ConsumeBytes te b of
                    None \<Rightarrow> Panic ''slice bounds out of range''
                  | Some (v, n) \<Rightarrow>
                      bind_out (scanLegacyBlob te v) (\<lambda>(valid, ok).
                      if \<not> ok then Ok (Inl False) else if \<not> valid then Ok (Inl True) else scan_blobs te k (drop n b) (Suc blobs)))"

definition scanLegacyBlobTx :: "tx_env \<Rightarrow> bytes \<Rightarrow> (bytes \<times> bool \<times> bool) result" where
  "scanLegacyBlobTx te tx =
     bind_out (scan_fields te (Suc (length tx)) tx [] []) (\<lambda>r. case r of
       Inl ok \<Rightarrow> Ok ([], False, ok)
     | Inr (inner, typeID) \<Rightarrow>
         if typeID \<noteq> sq_ProtoBlobTxTypeID te then Ok ([], False, True)
         else bind_out (scan_blobs te (Suc (length tx)) tx 0) (\<lambda>r. case r of
                Inl ok \<Rightarrow> Ok ([], False, ok)
              | Inr blobs \<Rightarrow> if blobs = 0 then Ok ([], False, True) else Ok (inner, True, True)))"

definition unwrapLegacyBlobTx :: "tx_env \<Rightarrow> bytes \<Rightarrow> (bytes \<times> bool) result" where
  "unwrapLegacyBlobTx te tx =
     bind_out (scanLegacyBlobTx te tx) (\<lambda>(inner, isBlobTx, ok).
     if \<not> ok then Ok (decodeLegacyBlobTx te tx) else if \<not> isBlobTx then Ok (tx, False) else Ok (inner, True))"

definition UnwrapBlobTx :: "tx_env \<Rightarrow> bytes \<Rightarrow> int \<Rightarrow> (bytes \<times> bool) result" where
  "UnwrapBlobTx te tx appVersion =
     (if appVersion < 11
      then bind_out (unwrapLegacyBlobTx te tx) (\<lambda>(inner, isBlobTx). if \<not> isBlobTx then Ok (tx, False) else Ok (inner, True))
      else case sq_UnmarshalBlobTxNoCopy te tx of None \<Rightarrow> Ok (tx, False) | Some inner \<Rightarrow> Ok (inner, True))"

definition UnmarshalIndexWrapper :: "tx_env \<Rightarrow> bytes \<Rightarrow> IndexWrapper option" where
  "UnmarshalIndexWrapper te tx =
     (case IndexWrapper_Unmarshal tx \<lparr>iw_Tx = [], iw_ShareIndexes = [], iw_TypeId = []\<rparr> of
        Ok w \<Rightarrow> if iw_TypeId w \<noteq> sq_ProtoIndexWrapperTypeID te then None else Some w
      | _ \<Rightarrow> None)"

section \<open>Hashes\<close>

definition Tx_Hash :: "tx_env \<Rightarrow> hash_fn \<Rightarrow> bytes \<Rightarrow> bytes result" where
  "Tx_Hash te hf tx =
     bind_out (unwrapLegacyBlobTx te tx) (\<lambda>(innerTx, isBlobTx).
     if isBlobTx then Ok (hf innerTx)
     else case UnmarshalIndexWrapper te tx of Some w \<Rightarrow> Ok (hf (iw_Tx w)) | None \<Rightarrow> Ok (hf tx))"

definition Tx_Key :: "tx_env \<Rightarrow> hash_fn \<Rightarrow> bytes \<Rightarrow> bytes result" where
  "Tx_Key te hf tx =
     bind_out (unwrapLegacyBlobTx te tx) (\<lambda>(innerTx, isBlobTx).
     if isBlobTx then Ok (hf innerTx)
     else case UnmarshalIndexWrapper te tx of Some w \<Rightarrow> Ok (hf (iw_Tx w)) | None \<Rightarrow> Ok (hf tx))"

definition TxKeyFromBytes :: "bytes \<Rightarrow> bytes result" where
  "TxKeyFromBytes bz = (if length bz \<noteq> 32 then Err (Errorf ''incorrect tx key size'') else Ok bz)"

fun hashList :: "tx_env \<Rightarrow> hash_fn \<Rightarrow> bytes list \<Rightarrow> (bytes list) result" where
  "hashList te hf [] = Ok []"
| "hashList te hf (tx # txs) = bind_out (Tx_Hash te hf tx) (\<lambda>h. map_out ((#) h) (hashList te hf txs))"

definition Txs_Hash :: "tx_env \<Rightarrow> hash_fn \<Rightarrow> bytes list \<Rightarrow> bytes result" where
  "Txs_Hash te hf txs = bind_out (hashList te hf txs) (HashFromByteSlices hf)"

fun Txs_Index :: "bytes list \<Rightarrow> bytes \<Rightarrow> int" where
  "Txs_Index [] tx = -1"
| "Txs_Index (t # txs) tx = (if t = tx then 0 else let i = Txs_Index txs tx in if i < 0 then i else i + 1)"

fun Txs_IndexByHash :: "tx_env \<Rightarrow> hash_fn \<Rightarrow> bytes list \<Rightarrow> bytes \<Rightarrow> int result" where
  "Txs_IndexByHash te hf [] hash = Ok (-1)"
| "Txs_IndexByHash te hf (t # txs) hash =
     bind_out (Tx_Hash te hf t) (\<lambda>h. if h = hash then Ok 0
       else map_out (\<lambda>i. if i < 0 then i else i + 1) (Txs_IndexByHash te hf txs hash))"

text \<open>The protobuf size of a transaction in the data of a block.\<close>

definition ComputeProtoSizeForTxs :: "bytes list \<Rightarrow> int" where
  "ComputeProtoSizeForTxs txs = int (length (concat (map (\<lambda>tx. pb_msg 0x0a tx) txs)))"

fun validate_txs :: "bytes list \<Rightarrow> int \<Rightarrow> int \<Rightarrow> unit result" where
  "validate_txs [] maxSizeBytes sz = Ok ()"
| "validate_txs (tx # txs) maxSizeBytes sz =
     (let sz = i64 (sz + ComputeProtoSizeForTxs [tx])
      in if sz > maxSizeBytes then Err (Errorf ''transaction data size exceeds maximum'') else validate_txs txs maxSizeBytes sz)"

definition Txs_Validate :: "bytes list \<Rightarrow> int \<Rightarrow> unit result" where
  "Txs_Validate txs maxSizeBytes = validate_txs txs maxSizeBytes 0"

record TxProof =
  txp_RootHash :: bytes
  txp_Data :: bytes
  txp_Proof :: Proof

definition Txs_Proof :: "tx_env \<Rightarrow> hash_fn \<Rightarrow> bytes list \<Rightarrow> int \<Rightarrow> TxProof result" where
  "Txs_Proof te hf txs i =
     bind_out (hashList te hf txs) (\<lambda>hl.
     bind_out (ProofsFromByteSlices hf hl) (\<lambda>(root, proofs).
     bind_out (index txs i) (\<lambda>d. bind_out (index proofs i) (\<lambda>p.
     Ok \<lparr>txp_RootHash = root, txp_Data = d, txp_Proof = p\<rparr>))))"

definition TxProof_Leaf :: "tx_env \<Rightarrow> hash_fn \<Rightarrow> TxProof \<Rightarrow> bytes result" where
  "TxProof_Leaf te hf tp = Tx_Hash te hf (txp_Data tp)"

definition TxProof_Validate :: "tx_env \<Rightarrow> hash_fn \<Rightarrow> TxProof \<Rightarrow> bytes \<Rightarrow> unit result" where
  "TxProof_Validate te hf tp dataHash =
     (if dataHash \<noteq> txp_RootHash tp then Err (Errorf ''proof matches different data hash'')
      else if proof_Index (txp_Proof tp) < 0 then Err (Errorf ''proof index cannot be negative'')
      else if proof_Total (txp_Proof tp) \<le> 0 then Err (Errorf ''proof total must be positive'')
      else bind_out (TxProof_Leaf te hf tp) (\<lambda>leaf.
           map_err (\<lambda>_. Errorf ''proof is not internally consistent'') (Proof_Verify hf (txp_Proof tp) (Some (txp_RootHash tp)) leaf)))"

definition TxProof_ToProto :: "TxProof \<Rightarrow> TxProof" where
  "TxProof_ToProto tp = \<lparr>txp_RootHash = txp_RootHash tp, txp_Data = txp_Data tp, txp_Proof = the (Proof_ToProto (Some (txp_Proof tp)))\<rparr>"

definition TxProofFromProto :: "bytes \<Rightarrow> bytes \<Rightarrow> Proof option \<Rightarrow> TxProof result" where
  "TxProofFromProto rootHash d pf =
     bind_out (ProofFromProto pf False) (\<lambda>sp. Ok \<lparr>txp_RootHash = rootHash, txp_Data = d, txp_Proof = the sp\<rparr>)"

end
