(* ===== verification/BlobTxProps.thy ===== *)
theory BlobTxProps
  imports BlobTx
begin

text \<open>The scan of a transaction for blobs gives the result of the decoder it stands for.\<close>

text \<open>
  What the scan relies on: what the wire format library accepts, the generated code reads the same way. A tag is a
  varint with a positive field number, a value of type bytes is read by \<open>ConsumeBytes\<close>, and a value is skipped as the
  generated code skips it.
\<close>

definition skip_from :: "uint64 \<Rightarrow> bytes \<Rightarrow> bytes result" where
  "skip_from typ b = bind_out (skip_value typ 0 b) (\<lambda>(d, rest). if d = 0 then Ok rest else skipCanonical d rest)"

definition protowire_ok :: "tx_env \<Rightarrow> bool" where
  "protowire_ok te \<longleftrightarrow>
     (\<forall>b num typ n. pw_ConsumeTag te b = Some (num, typ, n) \<longrightarrow>
        (\<exists>wire. rd_varint 0 0 b = Ok (wire, drop n b) \<and> num = field_num wire \<and> 0 < num \<and> typ = wire AND 7)) \<and>
     (\<forall>b v n. pw_ConsumeBytes te b = Some (v, n) \<longrightarrow> rd_bytes b = Ok (v, drop n b)) \<and>
     (\<forall>num b. pw_ConsumeFieldValue te num 2 b = map_option snd (pw_ConsumeBytes te b)) \<and>
     (\<forall>num typ b n. pw_ConsumeFieldValue te num typ b = Some n \<longrightarrow> skip_from typ b = Ok (drop n b))"

lemma protowireD:
  assumes "protowire_ok te"
  shows "pw_ConsumeTag te b = Some (num, typ, n) \<Longrightarrow>
      \<exists>wire. rd_varint 0 0 b = Ok (wire, drop n b) \<and> num = field_num wire \<and> 0 < num \<and> typ = wire AND 7"
    and "pw_ConsumeBytes te b = Some (v, n) \<Longrightarrow> rd_bytes b = Ok (v, drop n b)"
    and "pw_ConsumeFieldValue te num 2 b = map_option snd (pw_ConsumeBytes te b)"
    and "pw_ConsumeFieldValue te num typ b = Some n \<Longrightarrow> skip_from typ b = Ok (drop n b)"
  using assms unfolding protowire_ok_def by blast+

lemma skip_from_not_group: "skip_from typ b = Ok rest \<Longrightarrow> typ \<noteq> 4"
  by (auto simp: skip_from_def skip_value_def)

lemma skipCanonical_from:
  assumes "rd_varint 0 0 b = Ok (wire, r)"
  shows "skipCanonical 0 b = skip_from (wire AND 7) r"
  using assms by (subst skipCanonical.simps) (auto simp: skip_from_def)

text \<open>One field of a message.\<close>

lemma unmarshal_unknown:
  assumes "rd_varint 0 0 b = Ok (wire, r)" "0 < field_num wire" "tbl (field_num wire) = None" "skip_from (wire AND 7) r = Ok rest" "b \<noteq> []"
  shows "pb_unmarshal tbl b m = pb_unmarshal tbl rest m"
  using assms skip_from_not_group [OF assms(4)] by (subst pb_unmarshal.simps) (simp add: skipCanonical_from)

lemma unmarshal_known:
  assumes "rd_varint 0 0 b = Ok (wire, r)" "0 < field_num wire" "tbl (field_num wire) = Some f" "b \<noteq> []" "wire AND 7 \<noteq> 4"
  shows "pb_unmarshal tbl b m = bind_out (rd_field f (wire AND 7) r m) (\<lambda>(m', rest). pb_unmarshal tbl rest m')"
  using assms by (subst pb_unmarshal.simps) simp

lemma unmarshal_wrong_type:
  assumes "rd_varint 0 0 b = Ok (wire, r)" "0 < field_num wire" "tbl (field_num wire) = Some (BytesField f)" "b \<noteq> []" "wire AND 7 \<noteq> 2"
  shows "\<exists>e. pb_unmarshal tbl b m = Err e"
  using assms by (subst pb_unmarshal.simps) auto

lemma unmarshal_wrong_varint:
  assumes "rd_varint 0 0 b = Ok (wire, r)" "0 < field_num wire" "tbl (field_num wire) = Some (VarintField f)" "b \<noteq> []" "wire AND 7 \<noteq> 0"
  shows "\<exists>e. pb_unmarshal tbl b m = Err e"
  using assms by (subst pb_unmarshal.simps) auto

lemma skip_from_varint: "skip_from 0 b = Ok rest \<longleftrightarrow> (\<exists>v. rd_varint 0 0 b = Ok (v, rest))"
  by (cases "rd_varint 0 0 b") (auto simp: skip_from_def skip_value_def)

section \<open>One blob\<close>

lemma blob_bytes:
  assumes "rd_varint 0 0 b = Ok (wire, r)" "field_num wire = 1 \<or> field_num wire = 2" "wire AND 7 = 2" "rd_bytes r = Ok (v, rest)" "b \<noteq> []"
  shows "Blob_Unmarshal b m = Blob_Unmarshal rest (if field_num wire = 1 then m\<lparr>bl_NamespaceId := v\<rparr> else m\<lparr>bl_Data := v\<rparr>)"
  using assms(2-5) unfolding Blob_Unmarshal_def
  by (auto simp: unmarshal_known [OF assms(1), where m = m])

lemma blob_varint:
  assumes "rd_varint 0 0 b = Ok (wire, r)" "field_num wire = 3 \<or> field_num wire = 4" "wire AND 7 = 0" "rd_varint 0 0 r = Ok (v, rest)" "b \<noteq> []"
  shows "\<exists>m'. Blob_Unmarshal b m = Blob_Unmarshal rest m' \<and> bl_NamespaceId m' = bl_NamespaceId m"
proof -
  let ?m = "if field_num wire = 3 then m\<lparr>bl_ShareVersion := uint (ucast v :: 32 word)\<rparr> else m\<lparr>bl_NamespaceVersion := uint (ucast v :: 32 word)\<rparr>"
  have "Blob_Unmarshal b m = Blob_Unmarshal rest ?m"
    using assms(2-5) unfolding Blob_Unmarshal_def by (auto simp: unmarshal_known [OF assms(1), where m = m])
  then show ?thesis by (intro exI [of _ ?m]) simp
qed

lemma blob_unknown:
  assumes "rd_varint 0 0 b = Ok (wire, r)" "field_num wire \<notin> {1, 2, 3, 4}" "0 < field_num wire" "skip_from (wire AND 7) r = Ok rest" "b \<noteq> []"
  shows "Blob_Unmarshal b m = Blob_Unmarshal rest m"
  using assms(2-5) unfolding Blob_Unmarshal_def by (intro unmarshal_unknown [OF assms(1)]) auto

definition blob_type :: "int \<Rightarrow> uint64 \<Rightarrow> uint64" where
  "blob_type num ty = (if num = 1 \<or> num = 2 then 2 else if num = 3 \<or> num = 4 then 0 else ty)"

lemma blob_wrong_type:
  assumes "rd_varint 0 0 b = Ok (wire, r)" "0 < field_num wire" "blob_type (field_num wire) (wire AND 7) \<noteq> wire AND 7" "b \<noteq> []"
  shows "\<exists>e. Blob_Unmarshal b m = Err e"
proof (cases "field_num wire = 1 \<or> field_num wire = 2")
  case True
  then show ?thesis using assms(2-4) unfolding Blob_Unmarshal_def blob_type_def
    by (auto intro!: unmarshal_wrong_type [OF assms(1)])
next
  case False
  then show ?thesis using assms(2-4) unfolding Blob_Unmarshal_def blob_type_def
    by (auto intro!: unmarshal_wrong_varint [OF assms(1)] split: if_splits)
qed

lemma scan_blob_field:
  assumes "protowire_ok te" "pw_ConsumeTag te b = Some (num, ty, n)" "blob_type num ty = ty" "b \<noteq> []"
    "pw_ConsumeFieldValue te num ty (drop n b) = Some n2" "length (bl_NamespaceId m) = nsLen"
  shows "\<exists>m'. Blob_Unmarshal b m = Blob_Unmarshal (drop n2 (drop n b)) m' \<and> length (bl_NamespaceId m') =
    (if num = 1 then (case pw_ConsumeBytes te (drop n b) of None \<Rightarrow> 0 | Some (v, _) \<Rightarrow> length v) else nsLen)"
proof -
  obtain wire where w: "rd_varint 0 0 b = Ok (wire, drop n b)" "num = field_num wire" "0 < num" "ty = wire AND 7"
    using protowireD(1) [OF assms(1,2)] by blast
  have skip: "skip_from ty (drop n b) = Ok (drop n2 (drop n b))" by (rule protowireD(4) [OF assms(1,5)])
  consider "num = 1 \<or> num = 2" | "num = 3 \<or> num = 4" | "num \<notin> {1, 2, 3, 4}" by fastforce
  then show ?thesis
  proof cases
    case 1
    then have "ty = 2" using assms(3) by (simp add: blob_type_def)
    then obtain v where v: "pw_ConsumeBytes te (drop n b) = Some (v, n2)" using assms(5) protowireD(3) [OF assms(1)] by fastforce
    then have "rd_bytes (drop n b) = Ok (v, drop n2 (drop n b))" by (rule protowireD(2) [OF assms(1)])
    then show ?thesis using blob_bytes [OF w(1) _ _ _ assms(4), of v _ m] 1 \<open>ty = 2\<close> w(2,4) v assms(6) by auto
  next
    case 2
    then have "ty = 0" using assms(3) by (auto simp: blob_type_def)
    then obtain v where "rd_varint 0 0 (drop n b) = Ok (v, drop n2 (drop n b))" using skip by (auto simp: skip_from_varint)
    then show ?thesis using blob_varint [OF w(1) _ _ _ assms(4), of v _ m] 2 \<open>ty = 0\<close> w(2,4) assms(6) by fastforce
  next
    case 3
    then show ?thesis using blob_unknown [OF w(1) _ _ _ assms(4), of _ m] w(2-4) skip assms(6) by auto
  qed
qed

lemma scan_blob_step:
  assumes "b \<noteq> []" "pw_ConsumeTag te b = Some (num, ty, n)"
  shows "scan_blob te (Suc k) b nsLen =
    (if blob_type num ty \<noteq> ty then Ok (False, True)
     else case pw_ConsumeFieldValue te num ty (drop n b) of
       None \<Rightarrow> Ok (False, False)
     | Some n2 \<Rightarrow> scan_blob te k (drop n2 (drop n b))
         (if num = 1 then (case pw_ConsumeBytes te (drop n b) of None \<Rightarrow> 0 | Some (v, _) \<Rightarrow> length v) else nsLen))"
  using assms by (simp add: blob_type_def Let_def)

lemma scan_blob_decodes:
  assumes "protowire_ok te" "length b < k" "length (bl_NamespaceId m) = nsLen"
  shows "\<exists>valid ok. scan_blob te k b nsLen = Ok (valid, ok) \<and>
    (ok \<longrightarrow> (valid \<longleftrightarrow> (\<exists>m'. Blob_Unmarshal b m = Ok m' \<and> length (bl_NamespaceId m') = sq_NamespaceIDSize te)))"
  using assms(2,3)
proof (induction k arbitrary: b m nsLen)
  case (Suc k)
  consider "b = []" | "b \<noteq> []" "pw_ConsumeTag te b = None" | num ty n where "b \<noteq> []" "pw_ConsumeTag te b = Some (num, ty, n)"
    by (cases "pw_ConsumeTag te b") auto
  then show ?case
  proof cases
    case 1
    then show ?thesis using Suc.prems(2) by (auto simp: Blob_Unmarshal_def pb_unmarshal_Nil)
  next
    case 2
    then show ?thesis by auto
  next
    case (3 num ty n)
    note step = scan_blob_step [OF 3]
    obtain wire where w: "rd_varint 0 0 b = Ok (wire, drop n b)" "num = field_num wire" "0 < num" "ty = wire AND 7"
      using protowireD(1) [OF assms(1) 3(2)] by blast
    consider "blob_type num ty \<noteq> ty" | "blob_type num ty = ty" "pw_ConsumeFieldValue te num ty (drop n b) = None"
      | n2 where "blob_type num ty = ty" "pw_ConsumeFieldValue te num ty (drop n b) = Some n2"
      by (cases "pw_ConsumeFieldValue te num ty (drop n b)") auto
    then show ?thesis
    proof cases
      case 1
      then have "\<exists>e. Blob_Unmarshal b m = Err e" using blob_wrong_type [OF w(1) _ _ 3(1), of m] w(2-4) by simp
      moreover have "scan_blob te (Suc k) b nsLen = Ok (False, True)" unfolding step using 1 by (simp del: scan_blob.simps)
      ultimately show ?thesis by (intro exI [of _ False] exI [of _ True]) (auto simp del: scan_blob.simps)
    next
      case 2
      then have "scan_blob te (Suc k) b nsLen = Ok (False, False)" unfolding step by (simp del: scan_blob.simps)
      then show ?thesis by (intro exI [of _ False]) (simp del: scan_blob.simps)
    next
      case (3 n2)
      have "length (drop n2 (drop n b)) < k" using rd_varint_shorter [OF w(1)] Suc.prems(1) by auto
      note IH = Suc.IH [OF this]
      obtain m' where m': "Blob_Unmarshal b m = Blob_Unmarshal (drop n2 (drop n b)) m'" "length (bl_NamespaceId m') =
          (if num = 1 then (case pw_ConsumeBytes te (drop n b) of None \<Rightarrow> 0 | Some (v, _) \<Rightarrow> length v) else nsLen)"
        using scan_blob_field [OF assms(1) \<open>pw_ConsumeTag te b = Some (num, ty, n)\<close> 3(1) \<open>b \<noteq> []\<close> 3(2) Suc.prems(2)] by blast
      have "scan_blob te (Suc k) b nsLen = scan_blob te k (drop n2 (drop n b))
          (if num = 1 then (case pw_ConsumeBytes te (drop n b) of None \<Rightarrow> 0 | Some (v, _) \<Rightarrow> length v) else nsLen)"
        unfolding step using 3 by (simp del: scan_blob.simps)
      then show ?thesis using IH [OF m'(2)] m'(1) by (simp del: scan_blob.simps)
    qed
  qed
qed simp

section \<open>The fields of a transaction with blobs\<close>

lemma tx_field:
  assumes "rd_varint 0 0 b = Ok (wire, r)" "field_num wire = 1 \<or> field_num wire = 2 \<or> field_num wire = 3" "wire AND 7 = 2" "rd_bytes r = Ok (v, rest)" "b \<noteq> []"
  shows "BlobTx_Unmarshal b m =
    (if field_num wire = 1 then BlobTx_Unmarshal rest (m\<lparr>bt_Tx := v\<rparr>)
     else if field_num wire = 3 then BlobTx_Unmarshal rest (m\<lparr>bt_TypeId := v\<rparr>)
     else bind_out (Blob_Unmarshal v empty_BlobProto) (\<lambda>bl. BlobTx_Unmarshal rest (m\<lparr>bt_Blobs := bt_Blobs m @ [bl]\<rparr>)))"
  using assms(2-5) unfolding BlobTx_Unmarshal_def
  by (cases "Blob_Unmarshal v empty_BlobProto") (auto simp: unmarshal_known [OF assms(1), where m = m])

lemma tx_unknown:
  assumes "rd_varint 0 0 b = Ok (wire, r)" "field_num wire \<notin> {1, 2, 3}" "0 < field_num wire" "skip_from (wire AND 7) r = Ok rest" "b \<noteq> []"
  shows "BlobTx_Unmarshal b m = BlobTx_Unmarshal rest m"
  using assms(2-5) unfolding BlobTx_Unmarshal_def by (intro unmarshal_unknown [OF assms(1)]) auto

lemma tx_wrong_type:
  assumes "rd_varint 0 0 b = Ok (wire, r)" "field_num wire = 1 \<or> field_num wire = 2 \<or> field_num wire = 3" "wire AND 7 \<noteq> 2" "b \<noteq> []"
  shows "\<exists>e. BlobTx_Unmarshal b m = Err e"
  using assms(2-4) unfolding BlobTx_Unmarshal_def by (auto intro!: unmarshal_wrong_type [OF assms(1)])

text \<open>The next field, as both passes see it: a value of one of the three fields, or a field to skip.\<close>

inductive tx_next :: "tx_env \<Rightarrow> bytes \<Rightarrow> (int \<times> bytes) option \<Rightarrow> bytes \<Rightarrow> bool" for te where
  known: "b \<noteq> [] \<Longrightarrow> pw_ConsumeTag te b = Some (num, 2, n) \<Longrightarrow> num = 1 \<or> num = 2 \<or> num = 3 \<Longrightarrow>
    pw_ConsumeBytes te (drop n b) = Some (v, n2) \<Longrightarrow> tx_next te b (Some (num, v)) (drop n2 (drop n b))"
| skipped: "b \<noteq> [] \<Longrightarrow> pw_ConsumeTag te b = Some (num, ty, n) \<Longrightarrow> num \<notin> {1, 2, 3} \<Longrightarrow>
    pw_ConsumeFieldValue te num ty (drop n b) = Some n2 \<Longrightarrow> tx_next te b None (drop n2 (drop n b))"

definition tx_set :: "(int \<times> bytes) option \<Rightarrow> BlobTxProto \<Rightarrow> BlobTxProto result" where
  "tx_set f m =
     (case f of None \<Rightarrow> Ok m
      | Some (num, v) \<Rightarrow> if num = 1 then Ok (m\<lparr>bt_Tx := v\<rparr>) else if num = 3 then Ok (m\<lparr>bt_TypeId := v\<rparr>)
          else map_out (\<lambda>bl. m\<lparr>bt_Blobs := bt_Blobs m @ [bl]\<rparr>) (Blob_Unmarshal v empty_BlobProto))"

lemma tx_next_unmarshal:
  assumes "protowire_ok te" "tx_next te b f rest"
  shows "BlobTx_Unmarshal b m = bind_out (tx_set f m) (BlobTx_Unmarshal rest) \<and> length rest < length b"
  using assms(2)
proof (cases)
  case (known num n v n2)
  obtain wire where w: "rd_varint 0 0 b = Ok (wire, drop n b)" "num = field_num wire" "2 = wire AND 7"
    using protowireD(1) [OF assms(1) known(4)] by blast
  have v: "rd_bytes (drop n b) = Ok (v, rest)" using protowireD(2) [OF assms(1) known(6)] known(2) by simp
  have "BlobTx_Unmarshal b m = bind_out (tx_set f m) (BlobTx_Unmarshal rest)"
    using tx_field [OF w(1) _ _ v known(3), of m] known(1,5) w(2,3) by (cases "Blob_Unmarshal v empty_BlobProto") (auto simp: tx_set_def)
  then show ?thesis using rd_varint_shorter [OF w(1)] rd_bytes_shorter [OF v] by simp
next
  case (skipped num ty n n2)
  obtain wire where w: "rd_varint 0 0 b = Ok (wire, drop n b)" "num = field_num wire" "0 < num" "ty = wire AND 7"
    using protowireD(1) [OF assms(1) skipped(4)] by blast
  have "skip_from ty (drop n b) = Ok rest" using protowireD(4) [OF assms(1) skipped(6)] skipped(2) by simp
  then have "BlobTx_Unmarshal b m = bind_out (tx_set f m) (BlobTx_Unmarshal rest)"
    using tx_unknown [OF w(1) _ _ _ skipped(3), of rest m] skipped(1,5) w(2-4) by (auto simp: tx_set_def)
  then show ?thesis using rd_varint_shorter [OF w(1)] skipped(2) by auto
qed

lemma scan_fields_cases:
  assumes "protowire_ok te"
  obtains "b = []" "scan_fields te (Suc k) b inner ty = Ok (Inr (inner, ty))"
    | "scan_fields te (Suc k) b inner ty = Ok (Inl False)"
    | "b \<noteq> []" "scan_fields te (Suc k) b inner ty = Ok (Inl True)" "\<And>m. \<exists>e. BlobTx_Unmarshal b m = Err e"
    | f rest where "tx_next te b f rest" "scan_fields te (Suc k) b inner ty = scan_fields te k rest
        (case f of Some (num, v) \<Rightarrow> if num = 1 then v else inner | None \<Rightarrow> inner) (case f of Some (num, v) \<Rightarrow> if num = 3 then v else ty | None \<Rightarrow> ty)"
proof -
  consider "b = []" | "b \<noteq> []" "pw_ConsumeTag te b = None" | num ty' n where "b \<noteq> []" "pw_ConsumeTag te b = Some (num, ty', n)"
    by (cases "pw_ConsumeTag te b") auto
  then show thesis
  proof cases
    case 1
    then show thesis using that(1) by simp
  next
    case 2
    then show thesis using that(2) by simp
  next
    case t: (3 num ty' n)
  show thesis
  proof (cases "num = 1 \<or> num = 2 \<or> num = 3")
    case known: True
    show thesis
    proof (cases "ty' = 2")
      case False
      obtain wire where w: "rd_varint 0 0 b = Ok (wire, drop n b)" "num = field_num wire" "ty' = wire AND 7"
        using protowireD(1) [OF assms t(2)] by blast
      show thesis
      proof (rule that(3) [OF t(1)])
        show "scan_fields te (Suc k) b inner ty = Ok (Inl True)" using t known False by (simp add: Let_def)
        show "\<exists>e. BlobTx_Unmarshal b m = Err e" for m using tx_wrong_type [OF w(1) _ _ t(1)] known False w(2,3) by simp
      qed
    next
      case True
      show thesis
      proof (cases "pw_ConsumeBytes te (drop n b)")
        case None
        then show thesis using that(2) t known True by (simp add: Let_def)
      next
        case (Some vn)
        obtain v n2 where "pw_ConsumeBytes te (drop n b) = Some (v, n2)" using Some by (cases vn) auto
        then show thesis using that(4) [OF tx_next.known [OF t(1) _ known]] t True known by (simp add: Let_def)
      qed
    qed
  next
    case skipped: False
    show thesis
    proof (cases "pw_ConsumeFieldValue te num ty' (drop n b)")
      case None
      then show thesis using that(2) t skipped by (simp add: Let_def)
    next
      case (Some n2)
      then show thesis using that(4) [OF tx_next.skipped [OF t _ Some]] t skipped by (simp add: Let_def)
    qed
  qed
  qed
qed

lemma scan_fields_decodes:
  assumes "protowire_ok te" "length b < k"
  shows "\<exists>r. scan_fields te k b inner ty = Ok r \<and>
    (r = Inl True \<longrightarrow> (\<forall>m. \<nexists>m'. BlobTx_Unmarshal b m = Ok m')) \<and>
    (\<forall>inner' ty'. r = Inr (inner', ty') \<longrightarrow> (\<forall>m m'. bt_Tx m = inner \<longrightarrow> bt_TypeId m = ty \<longrightarrow> BlobTx_Unmarshal b m = Ok m' \<longrightarrow> bt_Tx m' = inner' \<and> bt_TypeId m' = ty'))"
  using assms(2)
proof (induction k arbitrary: b inner ty)
  case (Suc k)
  show ?case
  proof (rule scan_fields_cases [OF assms(1), of b k inner ty])
    assume "b = []" "scan_fields te (Suc k) b inner ty = Ok (Inr (inner, ty))"
    then show ?thesis by (auto simp: BlobTx_Unmarshal_def pb_unmarshal_Nil simp del: scan_fields.simps)
  next
    assume "scan_fields te (Suc k) b inner ty = Ok (Inl False)"
    then show ?thesis by (simp del: scan_fields.simps)
  next
    assume "scan_fields te (Suc k) b inner ty = Ok (Inl True)" "\<And>m. \<exists>e. BlobTx_Unmarshal b m = Err e"
    then have "\<forall>m. \<nexists>m'. BlobTx_Unmarshal b m = Ok m'" by (metis result.distinct(1))
    then show ?thesis using \<open>scan_fields te (Suc k) b inner ty = Ok (Inl True)\<close> by (simp del: scan_fields.simps)
  next
    fix f rest
    assume n: "tx_next te b f rest" "scan_fields te (Suc k) b inner ty = scan_fields te k rest
        (case f of Some (num, v) \<Rightarrow> if num = 1 then v else inner | None \<Rightarrow> inner) (case f of Some (num, v) \<Rightarrow> if num = 3 then v else ty | None \<Rightarrow> ty)"
    note u = tx_next_unmarshal [OF assms(1) n(1)]
    have "length rest < k" using u Suc.prems by fastforce
    from Suc.IH [OF this, of "case f of Some (num, v) \<Rightarrow> if num = 1 then v else inner | None \<Rightarrow> inner" "case f of Some (num, v) \<Rightarrow> if num = 3 then v else ty | None \<Rightarrow> ty"]
    obtain r where r: "scan_fields te (Suc k) b inner ty = Ok r" "r = Inl True \<longrightarrow> (\<forall>m. \<nexists>m'. BlobTx_Unmarshal rest m = Ok m')"
      "\<And>inner' ty' m m'. r = Inr (inner', ty') \<Longrightarrow> bt_Tx m = (case f of Some (num, v) \<Rightarrow> if num = 1 then v else inner | None \<Rightarrow> inner) \<Longrightarrow>
        bt_TypeId m = (case f of Some (num, v) \<Rightarrow> if num = 3 then v else ty | None \<Rightarrow> ty) \<Longrightarrow> BlobTx_Unmarshal rest m = Ok m' \<Longrightarrow> bt_Tx m' = inner' \<and> bt_TypeId m' = ty'"
      unfolding n(2) by blast
    have "\<exists>m1. tx_set f m = Ok m1 \<and> BlobTx_Unmarshal rest m1 = Ok m'" if "BlobTx_Unmarshal b m = Ok m'" for m m'
      using that u [of m] by auto
    note u1 = this
    have s1: "bt_Tx m1 = (case f of Some (num, v) \<Rightarrow> if num = 1 then v else inner | None \<Rightarrow> inner)"
      "bt_TypeId m1 = (case f of Some (num, v) \<Rightarrow> if num = 3 then v else ty | None \<Rightarrow> ty)"
      if "tx_set f m = Ok m1" "bt_Tx m = inner" "bt_TypeId m = ty" for m m1
      using that by (auto simp: tx_set_def split: option.splits prod.splits if_splits)
    show ?thesis
    proof (intro exI [of _ r] conjI allI impI)
      show "\<nexists>m'. BlobTx_Unmarshal b m = Ok m'" if "r = Inl True" for m using r(2) that u1 by blast
      show "bt_Tx m' = inner'" "bt_TypeId m' = ty'"
        if "r = Inr (inner', ty')" "bt_Tx m = inner" "bt_TypeId m = ty" "BlobTx_Unmarshal b m = Ok m'" for inner' ty' m m'
        using u1 [OF that(4)] s1 [OF _ that(2,3)] r(3) [OF that(1)] by blast+
    qed (rule r(1))
  qed
qed simp

section \<open>The blobs\<close>

definition good_blobs :: "tx_env \<Rightarrow> BlobTxProto \<Rightarrow> bool" where
  "good_blobs te m \<longleftrightarrow> (\<forall>b \<in> set (bt_Blobs m). length (bl_NamespaceId b) = sq_NamespaceIDSize te)"

text \<open>A transaction whose fields the first pass has gone through.\<close>

inductive framed :: "tx_env \<Rightarrow> bytes \<Rightarrow> bool" for te where
  framed_Nil: "framed te []"
| framed_Cons: "tx_next te b f rest \<Longrightarrow> framed te rest \<Longrightarrow> framed te b"

lemma scan_fields_framed:
  assumes "protowire_ok te" "scan_fields te k b inner ty = Ok (Inr p)"
  shows "framed te b"
  using assms(2)
proof (induction k arbitrary: b inner ty)
  case (Suc k)
  show ?case
  proof (rule scan_fields_cases [OF assms(1), of b k inner ty])
    assume "b = []"
    then show ?thesis by (simp add: framed_Nil)
  next
    fix f rest
    assume "tx_next te b f rest" "scan_fields te (Suc k) b inner ty = scan_fields te k rest
        (case f of Some (num, v) \<Rightarrow> if num = 1 then v else inner | None \<Rightarrow> inner) (case f of Some (num, v) \<Rightarrow> if num = 3 then v else ty | None \<Rightarrow> ty)"
    then show ?thesis using Suc.IH Suc.prems by (metis framed_Cons)
  qed (use Suc.prems in simp_all)
qed simp

lemma framed_blobs_kept:
  assumes "protowire_ok te" "framed te b" "BlobTx_Unmarshal b m = Ok m'"
  shows "set (bt_Blobs m) \<subseteq> set (bt_Blobs m')"
  using assms(2,3)
proof (induction arbitrary: m)
  case framed_Nil
  then show ?case by (simp add: BlobTx_Unmarshal_def pb_unmarshal_Nil)
next
  case (framed_Cons b f rest)
  then obtain m1 where m1: "tx_set f m = Ok m1" "BlobTx_Unmarshal rest m1 = Ok m'"
    using tx_next_unmarshal [OF assms(1) framed_Cons.hyps(1), of m] by auto
  have "set (bt_Blobs m) \<subseteq> set (bt_Blobs m1)" using m1(1) by (auto simp: tx_set_def split: option.splits prod.splits if_splits)
  with framed_Cons.IH [OF m1(2)] show ?case by blast
qed

lemma scan_blobs_next:
  assumes "protowire_ok te" "tx_next te b f rest"
  shows "scan_blobs te (Suc k) b n = (case f of
      Some (num, v) \<Rightarrow> if num = 2 then bind_out (scanLegacyBlob te v) (\<lambda>(valid, ok).
          if \<not> ok then Ok (Inl False) else if \<not> valid then Ok (Inl True) else scan_blobs te k rest (Suc n))
        else scan_blobs te k rest n
    | None \<Rightarrow> scan_blobs te k rest n)"
  using assms(2)
proof cases
  case (known num m v n2)
  then show ?thesis using protowireD(3) [OF assms(1)] by (auto simp: Let_def simp del: drop_drop)
next
  case (skipped num ty m n2)
  then show ?thesis by (auto simp: Let_def)
qed

lemma scanLegacyBlob_decodes:
  assumes "protowire_ok te"
  obtains valid ok where "scanLegacyBlob te v = Ok (valid, ok)"
    "ok \<Longrightarrow> valid \<longleftrightarrow> (\<exists>m'. Blob_Unmarshal v empty_BlobProto = Ok m' \<and> length (bl_NamespaceId m') = sq_NamespaceIDSize te)"
  using scan_blob_decodes [OF assms, of v "Suc (length v)" empty_BlobProto 0] that
  by (auto simp: scanLegacyBlob_def empty_BlobProto_def)

lemma scan_blobs_decodes:
  assumes "protowire_ok te" "framed te b" "length b < k"
  shows "\<exists>r. scan_blobs te k b n = Ok r \<and>
    (r = Inl True \<longrightarrow> (\<forall>m m'. BlobTx_Unmarshal b m = Ok m' \<longrightarrow> \<not> good_blobs te m')) \<and>
    (\<forall>n'. r = Inr n' \<longrightarrow> (\<forall>m. \<exists>m'. BlobTx_Unmarshal b m = Ok m' \<and> length (bt_Blobs m') + n = length (bt_Blobs m) + n' \<and> (good_blobs te m \<longrightarrow> good_blobs te m')))"
  using assms(2,3)
proof (induction arbitrary: k n)
  case framed_Nil
  then show ?case by (cases k) (auto simp: BlobTx_Unmarshal_def pb_unmarshal_Nil)
next
  case (framed_Cons b f rest)
  note u = tx_next_unmarshal [OF assms(1) framed_Cons.hyps(1)]
  obtain k' where k: "k = Suc k'" "length rest < k'" using u framed_Cons.prems by (cases k) force+
  note IH = framed_Cons.IH [OF k(2)] and next_eq = scan_blobs_next [OF assms(1) framed_Cons.hyps(1), of k' n, folded k(1)]
  show ?case
  proof (cases "\<exists>v. f = Some (2, v)")
    case True
    then obtain v where f: "f = Some (2, v)" by blast
    obtain valid ok where s: "scanLegacyBlob te v = Ok (valid, ok)"
      "ok \<Longrightarrow> valid \<longleftrightarrow> (\<exists>m'. Blob_Unmarshal v empty_BlobProto = Ok m' \<and> length (bl_NamespaceId m') = sq_NamespaceIDSize te)"
      using scanLegacyBlob_decodes [OF assms(1)] by blast
    have next_blob: "scan_blobs te k b n = (if \<not> ok then Ok (Inl False) else if \<not> valid then Ok (Inl True) else scan_blobs te k' rest (Suc n))"
      using next_eq f s(1) by simp
    consider "\<not> ok" | "ok" "\<not> valid" | "ok" "valid" by blast
    then show ?thesis
    proof cases
      case 1
      then show ?thesis using next_blob by simp
    next
      case 2
      have "\<not> good_blobs te m'" if dec: "BlobTx_Unmarshal b m = Ok m'" for m m'
      proof -
        obtain bl where bl: "Blob_Unmarshal v empty_BlobProto = Ok bl" "BlobTx_Unmarshal rest (m\<lparr>bt_Blobs := bt_Blobs m @ [bl]\<rparr>) = Ok m'"
          using dec u [of m] f by (cases "Blob_Unmarshal v empty_BlobProto") (auto simp: tx_set_def)
        have "bl \<in> set (bt_Blobs m')" using framed_blobs_kept [OF assms(1) framed_Cons.hyps(2) bl(2)] by simp
        then show ?thesis using bl(1) s(2) 2 by (auto simp: good_blobs_def)
      qed
      then show ?thesis using next_blob 2 by simp
    next
      case 3
      then obtain bl where bl: "Blob_Unmarshal v empty_BlobProto = Ok bl" "length (bl_NamespaceId bl) = sq_NamespaceIDSize te" using s(2) by blast
      have u': "BlobTx_Unmarshal b m = BlobTx_Unmarshal rest (m\<lparr>bt_Blobs := bt_Blobs m @ [bl]\<rparr>)" for m
        using u [of m] f bl(1) by (simp add: tx_set_def)
      have g: "good_blobs te (m\<lparr>bt_Blobs := bt_Blobs m @ [bl]\<rparr>) = good_blobs te m" for m using bl(2) by (auto simp: good_blobs_def)
      show ?thesis using IH [of "Suc n"] next_blob 3 unfolding u' by (fastforce simp: g dest: spec [where x = "m\<lparr>bt_Blobs := bt_Blobs m @ [bl]\<rparr>" for m])
    qed
  next
    case False
    have "\<exists>m1. (\<forall>m'. BlobTx_Unmarshal b m = Ok m' \<longleftrightarrow> BlobTx_Unmarshal rest m1 = Ok m') \<and> bt_Blobs m1 = bt_Blobs m" for m
      using framed_Cons.hyps(1) u [of m] False by (cases rule: tx_next.cases) (auto simp: tx_set_def)
    then obtain g where g: "\<And>m m'. BlobTx_Unmarshal b m = Ok m' \<longleftrightarrow> BlobTx_Unmarshal rest (g m) = Ok m'" "\<And>m. bt_Blobs (g m) = bt_Blobs m" by metis
    have "good_blobs te (g m) = good_blobs te m" for m by (simp add: good_blobs_def g(2))
    moreover have "scan_blobs te k b n = scan_blobs te k' rest n"
      using next_eq False by (auto split: option.splits)
    ultimately show ?thesis using IH [of n] unfolding g(1) by (metis g(2))
  qed
qed

section \<open>The two passes decide what the decoder decides\<close>

lemma decode_eq:
  "decodeLegacyBlobTx te tx =
     (case BlobTx_Unmarshal tx empty_BlobTxProto of
        Ok m \<Rightarrow> if bt_TypeId m = sq_ProtoBlobTxTypeID te \<and> bt_Blobs m \<noteq> [] \<and> good_blobs te m then (bt_Tx m, True) else (tx, False)
      | _ \<Rightarrow> (tx, False))"
  by (auto simp: decodeLegacyBlobTx_def good_blobs_def split: result.splits)

text \<open>C16. Recognising a blob transaction by two passes over its bytes, without allocating the blobs, gives on every byte
  string exactly what decoding the whole message gives: the same verdict and the same inner transaction, and no panic.\<close>

theorem blob_scan_decodes:
  assumes "protowire_ok te"
  shows "unwrapLegacyBlobTx te tx = Ok (decodeLegacyBlobTx te tx)"
proof -
  have e: "bt_Tx empty_BlobTxProto = []" "bt_TypeId empty_BlobTxProto = []" "bt_Blobs empty_BlobTxProto = []"
    by (simp_all add: empty_BlobTxProto_def)
  obtain r where r: "scan_fields te (Suc (length tx)) tx [] [] = Ok r" "r = Inl True \<Longrightarrow> (\<forall>m. \<nexists>m'. BlobTx_Unmarshal tx m = Ok m')"
    "\<And>inner ty m m'. r = Inr (inner, ty) \<Longrightarrow> bt_Tx m = [] \<Longrightarrow> bt_TypeId m = [] \<Longrightarrow> BlobTx_Unmarshal tx m = Ok m' \<Longrightarrow> bt_Tx m' = inner \<and> bt_TypeId m' = ty"
    using scan_fields_decodes [OF assms lessI, of tx "[]" "[]"] by blast
  consider "r = Inl False" | "r = Inl True" | inner ty where "r = Inr (inner, ty)" by (cases r) auto
  then show ?thesis
  proof cases
    case 2
    then show ?thesis using r(1,2) by (auto simp: unwrapLegacyBlobTx_def scanLegacyBlobTx_def decode_eq split: result.splits)
  next
    case (3 inner ty)
    obtain q where q: "scan_blobs te (Suc (length tx)) tx 0 = Ok q"
      "q = Inl True \<Longrightarrow> (\<forall>m m'. BlobTx_Unmarshal tx m = Ok m' \<longrightarrow> \<not> good_blobs te m')"
      "\<And>n m. q = Inr n \<Longrightarrow> \<exists>m'. BlobTx_Unmarshal tx m = Ok m' \<and> length (bt_Blobs m') + 0 = length (bt_Blobs m) + n \<and> (good_blobs te m \<longrightarrow> good_blobs te m')"
      using scan_blobs_decodes [OF assms scan_fields_framed [OF assms r(1) [unfolded 3]] lessI, of 0] by blast
    note i = r(3) [OF 3 e(1,2)]
    note d = unwrapLegacyBlobTx_def scanLegacyBlobTx_def decode_eq
    consider "ty \<noteq> sq_ProtoBlobTxTypeID te" | "ty = sq_ProtoBlobTxTypeID te" "q = Inl False" | "ty = sq_ProtoBlobTxTypeID te" "q = Inl True"
      | n where "ty = sq_ProtoBlobTxTypeID te" "q = Inr n" by (cases q) auto
    then show ?thesis
    proof cases
      case (4 n)
      obtain m where m: "BlobTx_Unmarshal tx empty_BlobTxProto = Ok m" "length (bt_Blobs m) = n" "good_blobs te m"
        using q(3) [OF 4(2), of empty_BlobTxProto] e(3) by (auto simp: good_blobs_def)
      then show ?thesis using r(1) i [OF m(1)] q(1) 3 4 by (auto simp: d)
    qed (use r(1) i q(1,2) 3 in \<open>auto simp: d split: result.splits\<close>)
  qed (use r(1) in \<open>auto simp: unwrapLegacyBlobTx_def scanLegacyBlobTx_def\<close>)
qed

text \<open>A wire reader built from the decoder's own primitives, which takes no groups.\<close>

definition demo_tag :: "bytes \<Rightarrow> (int \<times> uint64 \<times> nat) option" where
  "demo_tag b = (case rd_varint 0 0 b of
     Ok (wire, r) \<Rightarrow> if 0 < field_num wire \<and> drop (length b - length r) b = r then Some (field_num wire, wire AND 7, length b - length r) else None
   | _ \<Rightarrow> None)"

definition demo_bytes :: "bytes \<Rightarrow> (bytes \<times> nat) option" where
  "demo_bytes b = (case rd_bytes b of
     Ok (v, r) \<Rightarrow> if drop (length b - length r) b = r then Some (v, length b - length r) else None
   | _ \<Rightarrow> None)"

definition demo_value :: "int \<Rightarrow> uint64 \<Rightarrow> bytes \<Rightarrow> nat option" where
  "demo_value num ty b = (if ty = 2 then map_option snd (demo_bytes b) else case skip_from ty b of
     Ok r \<Rightarrow> if drop (length b - length r) b = r then Some (length b - length r) else None
   | _ \<Rightarrow> None)"

definition demo_tx_env :: tx_env where
  "demo_tx_env = \<lparr>pw_ConsumeTag = demo_tag, pw_ConsumeBytes = demo_bytes, pw_ConsumeFieldValue = demo_value,
     sq_ProtoBlobTxTypeID = [66], sq_ProtoIndexWrapperTypeID = [73], sq_NamespaceIDSize = 2, sq_UnmarshalBlobTxNoCopy = (\<lambda>_. None)\<rparr>"

lemma demo_value_skip: "demo_value num ty b = Some n \<Longrightarrow> skip_from ty b = Ok (drop n b)"
  by (cases "rd_bytes b") (auto simp: demo_value_def demo_bytes_def skip_from_def skip_value_def split: if_splits result.splits)

lemma demo_tx_env_ok: "protowire_ok demo_tx_env"
  unfolding protowire_ok_def
  by (auto simp: demo_tx_env_def demo_value_skip) (auto simp: demo_tag_def demo_bytes_def demo_value_def split: if_splits result.splits)

definition demo_blob_tx :: bytes where
  "demo_blob_tx = [10, 3, 7, 8, 9, 18, 4, 10, 2, 5, 6, 26, 1, 66]"

theorem blob_scan_decodes_witness:
  "protowire_ok demo_tx_env \<and> unwrapLegacyBlobTx demo_tx_env demo_blob_tx = Ok ([7, 8, 9], True)"
proof -
  have "decodeLegacyBlobTx demo_tx_env demo_blob_tx = ([7, 8, 9], True)" by code_simp
  then show ?thesis using blob_scan_decodes [OF demo_tx_env_ok, of demo_blob_tx] demo_tx_env_ok by simp
qed

end
