(* ===== verification/Block.thy ===== *)
theory Block
  imports BlockWire BlobTx PartSet
begin

text \<open>
  Blocks (\<open>types/block.go\<close>, \<open>types/marshalling.go\<close>, \<open>MakeBlock\<close> of \<open>types/test_util.go\<close>).

  A hash of the header that is set but empty is not told from one that is nil, except the hash of the data, which
  the message carries. The hashes of the data, the evidence, the commit and the block are cached: an operation that
  fills a cache returns the block with it where a later result may depend on it; filling the cache of the commit does
  not change any result, since the signatures do not change. The locks and the printing are left out.
\<close>

record Data =
  d_Txs :: "bytes list"
  d_SquareSize :: int
  d_hash :: "bytes option"

record EvidenceData =
  ed_Evidence :: "Evidence list"
  ed_hash :: "bytes option"
  ed_byteSize :: int

record Block =
  b_verifiedHash :: bytes
  b_Header :: Header
  b_Data :: Data
  b_Evidence :: EvidenceData
  b_LastCommit :: "Commit option"
  b_cachedHashes :: "bytes list"

section \<open>Data and evidence\<close>

definition NewData :: "bytes list \<Rightarrow> int \<Rightarrow> bytes option \<Rightarrow> Data" where
  "NewData txs squareSize hash = \<lparr>d_Txs = txs, d_SquareSize = squareSize, d_hash = hash\<rparr>"

definition Data_Hash :: "tx_env \<Rightarrow> hash_fn \<Rightarrow> Data \<Rightarrow> (bytes \<times> Data) result" where
  "Data_Hash te hf data =
     (case d_hash data of
        Some h \<Rightarrow> Ok (h, data)
      | None \<Rightarrow> bind_out (Txs_Hash te hf (d_Txs data)) (\<lambda>h. Ok (h, data\<lparr>d_hash := Some h\<rparr>)))"

definition Data_ToProto :: "Data \<Rightarrow> DataProto" where
  "Data_ToProto data = \<lparr>dp_Txs = d_Txs data, dp_SquareSize = d_SquareSize data, dp_Hash = d_hash data\<rparr>"

definition DataFromProto :: "DataProto option \<Rightarrow> Data result" where
  "DataFromProto dp =
     (case dp of None \<Rightarrow> Err (Errorf ''nil data'')
      | Some p \<Rightarrow> Ok \<lparr>d_Txs = dp_Txs p, d_SquareSize = dp_SquareSize p, d_hash = dp_Hash p\<rparr>)"

definition EvidenceData_Hash :: "env \<Rightarrow> EvidenceData \<Rightarrow> (bytes \<times> EvidenceData) result" where
  "EvidenceData_Hash e data =
     (case ed_hash data of
        Some h \<Rightarrow> Ok (h, data)
      | None \<Rightarrow> bind_out (EvidenceList_Hash e (ed_Evidence data)) (\<lambda>h. Ok (h, data\<lparr>ed_hash := Some h\<rparr>)))"

definition EvidenceData_ToProto :: "EvidenceData \<Rightarrow> (EvidenceProto option list) result" where
  "EvidenceData_ToProto data = from_protos (\<lambda>ev. map_out Some (EvidenceToProto (Some ev))) (ed_Evidence data)"

text \<open>The size of a message is the length of its encoding, where a time that cannot be encoded takes no bytes.\<close>

definition size_env :: "env \<Rightarrow> env" where
  "size_env e = e\<lparr>StdTimeMarshal := (\<lambda>t. case StdTimeMarshal e t of Ok bz \<Rightarrow> Ok bz | _ \<Rightarrow> Ok [])\<rparr>"

definition EvidenceList_Size :: "env \<Rightarrow> EvidenceProto option list \<Rightarrow> int result" where
  "EvidenceList_Size e evl = map_out (\<lambda>bz. int (length bz)) (EvidenceList_Marshal (size_env e) evl)"

definition EvidenceData_ByteSize :: "env \<Rightarrow> EvidenceData \<Rightarrow> (int \<times> EvidenceData) result" where
  "EvidenceData_ByteSize e data =
     (if ed_byteSize data = 0 \<and> ed_Evidence data \<noteq> []
      then bind_out (must (EvidenceData_ToProto data)) (\<lambda>pb.
           bind_out (EvidenceList_Size e pb) (\<lambda>n. Ok (n, data\<lparr>ed_byteSize := n\<rparr>)))
      else Ok (ed_byteSize data, data))"

definition EvidenceData_FromProto :: "env \<Rightarrow> EvidenceData \<Rightarrow> EvidenceProto option list \<Rightarrow> EvidenceData result" where
  "EvidenceData_FromProto e data eviData =
     bind_out (from_protos (\<lambda>p. EvidenceFromProto e (Some p)) eviData) (\<lambda>eviBzs.
     bind_out (EvidenceList_Size e eviData) (\<lambda>n.
     Ok (data\<lparr>ed_Evidence := eviBzs, ed_byteSize := n\<rparr>)))"

section \<open>Blocks\<close>

definition Block_ValidateBasic :: "tx_env \<Rightarrow> env \<Rightarrow> Block option \<Rightarrow> unit result" where
  "Block_ValidateBasic te e blk =
     (case blk of None \<Rightarrow> Err (Errorf ''nil block'')
      | Some b \<Rightarrow>
          bind_out (map_err (Wrapf ''invalid header'') (Header_ValidateBasic (b_Header b))) (\<lambda>_.
          case b_LastCommit b of None \<Rightarrow> Err (Errorf ''nil LastCommit'')
          | Some lc \<Rightarrow>
              bind_out (map_err (\<lambda>_. Errorf ''wrong LastCommit'') (Commit_ValidateBasic lc)) (\<lambda>_.
              bind_out (Commit_Hash e (Some lc)) (\<lambda>(lch, _).
              if h_LastCommitHash (b_Header b) \<noteq> lch then Err (Errorf ''wrong Header.LastCommitHash'')
              else bind_out (Data_Hash te (sha (crypto e)) (b_Data b)) (\<lambda>(dh, _).
              if h_DataHash (b_Header b) \<noteq> dh then Err (Errorf ''wrong Header.DataHash'')
              else bind_out (fold_out (\<lambda>ev _. map_err (\<lambda>_. Errorf ''invalid evidence'') (Evidence_ValidateBasic e ev)) (ed_Evidence (b_Evidence b)) ()) (\<lambda>_.
              bind_out (EvidenceData_Hash e (b_Evidence b)) (\<lambda>(eh, _).
              if h_EvidenceHash (b_Header b) \<noteq> eh then Err (Errorf ''wrong Header.EvidenceHash'') else Ok ())))))))"

text \<open>A hash is computed where the header has none; the cache that is filled goes back into the block.\<close>

definition fillHeader :: "tx_env \<Rightarrow> env \<Rightarrow> Block \<Rightarrow> Block result" where
  "fillHeader te e b =
     bind_out (if h_LastCommitHash (b_Header b) = [] then Commit_Hash e (b_LastCommit b) else Ok (h_LastCommitHash (b_Header b), b_LastCommit b)) (\<lambda>(lh, lc).
     bind_out (if h_DataHash (b_Header b) = [] then Data_Hash te (sha (crypto e)) (b_Data b) else Ok (h_DataHash (b_Header b), b_Data b)) (\<lambda>(dh, d).
     bind_out (if h_EvidenceHash (b_Header b) = [] then EvidenceData_Hash e (b_Evidence b) else Ok (h_EvidenceHash (b_Header b), b_Evidence b)) (\<lambda>(eh, ed).
     Ok (b\<lparr>b_Header := (b_Header b)\<lparr>h_LastCommitHash := lh, h_DataHash := dh, h_EvidenceHash := eh\<rparr>, b_LastCommit := lc, b_Data := d, b_Evidence := ed\<rparr>))))"

definition Block_Hash :: "tx_env \<Rightarrow> env \<Rightarrow> Block option \<Rightarrow> (bytes \<times> Block option) result" where
  "Block_Hash te e blk =
     (case blk of None \<Rightarrow> Ok ([], None)
      | Some b \<Rightarrow>
          if b_LastCommit b = None then Ok ([], blk)
          else if b_verifiedHash b \<noteq> [] then Ok (b_verifiedHash b, blk)
          else bind_out (fillHeader te e b) (\<lambda>b.
               bind_out (Header_Hash e (Some (b_Header b))) (\<lambda>hash.
               Ok (hash, Some (b\<lparr>b_verifiedHash := hash\<rparr>)))))"

definition HashesTo :: "tx_env \<Rightarrow> env \<Rightarrow> Block option \<Rightarrow> bytes \<Rightarrow> bool result" where
  "HashesTo te e blk hash =
     (if length hash = 0 then Ok False
      else if blk = None then Ok False
      else map_out (\<lambda>(h, _). h = hash) (Block_Hash te e blk))"

definition Block_ToProto :: "Block option \<Rightarrow> BlockProto result" where
  "Block_ToProto blk =
     (case blk of None \<Rightarrow> Err (Errorf ''nil Block'')
      | Some b \<Rightarrow>
          bind_out (EvidenceData_ToProto (b_Evidence b)) (\<lambda>ev.
          Ok \<lparr>bp_Header = the (Header_ToProto (Some (b_Header b))), bp_Data = Data_ToProto (b_Data b), bp_Evidence = ev,
              bp_LastCommit = Commit_ToProto (b_LastCommit b)\<rparr>))"

definition Block_Size :: "env \<Rightarrow> Block option \<Rightarrow> int result" where
  "Block_Size e blk =
     (case Block_ToProto blk of
        Err _ \<Rightarrow> Ok 0
      | Panic s \<Rightarrow> Panic s
      | Ok pbb \<Rightarrow> map_out (\<lambda>bz. int (length bz)) (Block_Marshal (size_env e) pbb))"

definition FillCachedHashes :: "tx_env \<Rightarrow> hash_fn \<Rightarrow> Block \<Rightarrow> Block result" where
  "FillCachedHashes te hf b =
     (if length (b_cachedHashes b) = length (d_Txs (b_Data b)) then Ok b
      else map_out (\<lambda>hashes. b\<lparr>b_cachedHashes := hashes\<rparr>) (hashList te hf (d_Txs (b_Data b))))"

definition CachedTxs :: "tx_env \<Rightarrow> hash_fn \<Rightarrow> Block \<Rightarrow> ((bytes \<times> bytes) list \<times> Block) result" where
  "CachedTxs te hf b = map_out (\<lambda>b. (zip (d_Txs (b_Data b)) (b_cachedHashes b), b)) (FillCachedHashes te hf b)"

text \<open>The result is the block and the error of its validation.\<close>

definition BlockFromProto :: "tx_env \<Rightarrow> env \<Rightarrow> BlockProto option \<Rightarrow> Block result" where
  "BlockFromProto te e bp =
     (case bp of None \<Rightarrow> Err (Errorf ''nil block'')
      | Some p \<Rightarrow>
          bind_out (HeaderFromProto (Some (bp_Header p))) (\<lambda>h.
          bind_out (DataFromProto (Some (bp_Data p))) (\<lambda>data.
          bind_out (EvidenceData_FromProto e \<lparr>ed_Evidence = [], ed_hash = None, ed_byteSize = 0\<rparr> (bp_Evidence p)) (\<lambda>ev.
          bind_out (case bp_LastCommit p of None \<Rightarrow> Ok None | Some c \<Rightarrow> map_out Some (CommitFromProto (Some c))) (\<lambda>lc.
          let b = \<lparr>b_verifiedHash = [], b_Header = h, b_Data = data, b_Evidence = ev, b_LastCommit = lc, b_cachedHashes = []\<rparr>
          in bind_out (Block_ValidateBasic te e (Some b)) (\<lambda>_. Ok b))))))"

definition MakeBlock :: "tx_env \<Rightarrow> env \<Rightarrow> int \<Rightarrow> Data \<Rightarrow> Commit option \<Rightarrow> Evidence list \<Rightarrow> Block result" where
  "MakeBlock te e height data lastCommit evidence =
     fillHeader te e \<lparr>b_verifiedHash = [], b_Header = zero_Header\<lparr>h_Version_Block := BlockProtocol, h_Version_App := 0, h_Height := height\<rparr>,
       b_Data = data, b_Evidence = \<lparr>ed_Evidence = evidence, ed_hash = None, ed_byteSize = 0\<rparr>, b_LastCommit = lastCommit, b_cachedHashes = []\<rparr>"

section \<open>Positions of the transactions in the encoded block\<close>

record TxPosition =
  tp_Start :: int
  tp_End :: int

definition safeAddUint32 :: "int \<Rightarrow> int \<Rightarrow> int result" where
  "safeAddUint32 a b = (if a > 4294967295 - b then Err (Errorf ''integer overflow'') else Ok (a + b))"

text \<open>\<open>binary.Uvarint\<close> reads as \<open>binary.ReadUvarint\<close>.\<close>

definition readVarint :: "bytes \<Rightarrow> (uint64 \<times> int) result" where
  "readVarint b =
     (case ReadUvarint 0 0 b of
        Ok (v, rest) \<Rightarrow> Ok (v, int (length b - length rest))
      | _ \<Rightarrow> Err (Errorf ''failed to read varint''))"

definition slice_from :: "bytes \<Rightarrow> int \<Rightarrow> bytes result" where
  "slice_from b off = subslice b off (int (length b))"

text \<open>
  A length of 2 to the 63 or more would move the offset back, so the loop takes a number of turns; as many as there are
  bytes are enough where the lengths are right.
\<close>

fun find_loop :: "nat \<Rightarrow> bytes \<Rightarrow> int \<Rightarrow> int \<Rightarrow> (int \<times> int \<times> bytes) result" where
  "find_loop 0 b targetField offset = Panic ''out of turns''"
| "find_loop (Suc k) b targetField offset =
     (if \<not> offset < int (length b) then Err (Errorf ''field not found'')
      else bind_out (slice_from b offset) (\<lambda>s.
           bind_out (readVarint s) (\<lambda>(tag, n).
           let offset = i64 (offset + n); fieldNum = sint (drop_bit 3 tag); wireType = sint (tag AND 7)
           in if wireType = 2
              then bind_out (slice_from b offset) (\<lambda>s.
                   bind_out (readVarint s) (\<lambda>(len, n).
                   let offset = i64 (offset + n); start = offset; stop = i64 (offset + sint len)
                   in if fieldNum = targetField then map_out (\<lambda>content. (start, stop, content)) (subslice b start stop)
                      else find_loop k b targetField stop))
              else if wireType = 0
              then bind_out (slice_from b offset) (\<lambda>s. bind_out (readVarint s) (\<lambda>(_, n). find_loop k b targetField (i64 (offset + n))))
              else if wireType = 1 then find_loop k b targetField (i64 (offset + 8))
              else if wireType = 5 then find_loop k b targetField (i64 (offset + 4))
              else Err (Errorf ''unsupported wire type''))))"

definition findField :: "bytes \<Rightarrow> int \<Rightarrow> (int \<times> int \<times> bytes) result" where
  "findField b targetField = find_loop (Suc (length b)) b targetField 0"

fun position_loop :: "nat \<Rightarrow> bytes \<Rightarrow> int \<Rightarrow> int \<Rightarrow> nat \<Rightarrow> TxPosition list \<Rightarrow> (TxPosition list) result" where
  "position_loop 0 dataContent dataContentOffset offset txIndex positions = Panic ''out of turns''"
| "position_loop (Suc k) dataContent dataContentOffset offset txIndex positions =
     (if \<not> offset < u32 (int (length dataContent)) then Ok positions
      else bind_out (slice_from dataContent offset) (\<lambda>s.
           bind_out (readVarint s) (\<lambda>(tag, n).
           let fieldStartInData = offset
           in bind_out (safeAddUint32 offset (u32 n)) (\<lambda>offset.
              let fieldNum = sint (drop_bit 3 tag); wireType = sint (tag AND 7)
              in if wireType = 2
                 then bind_out (slice_from dataContent offset) (\<lambda>s.
                      bind_out (readVarint s) (\<lambda>(len, n).
                      bind_out (safeAddUint32 offset (u32 n)) (\<lambda>offset.
                      bind_out (safeAddUint32 offset (uint (ucast len :: 32 word))) (\<lambda>newOffset.
                      if fieldNum = 1
                      then bind_out (safeAddUint32 (u32 dataContentOffset) fieldStartInData) (\<lambda>overallStart.
                           bind_out (safeAddUint32 (u32 dataContentOffset) newOffset) (\<lambda>overallEnd.
                           bind_out (store positions (int txIndex) \<lparr>tp_Start = overallStart, tp_End = overallEnd\<rparr>) (\<lambda>positions.
                           position_loop k dataContent dataContentOffset newOffset (Suc txIndex) positions)))
                      else position_loop k dataContent dataContentOffset newOffset txIndex positions))))
                 else if wireType = 0
                 then bind_out (slice_from dataContent offset) (\<lambda>s. bind_out (readVarint s) (\<lambda>(_, n).
                      bind_out (safeAddUint32 offset (u32 n)) (\<lambda>offset. position_loop k dataContent dataContentOffset offset txIndex positions)))
                 else if wireType = 1
                 then bind_out (safeAddUint32 offset 8) (\<lambda>offset. position_loop k dataContent dataContentOffset offset txIndex positions)
                 else if wireType = 5
                 then bind_out (safeAddUint32 offset 4) (\<lambda>offset. position_loop k dataContent dataContentOffset offset txIndex positions)
                 else Err (Errorf ''unsupported wire type'')))))"

definition MarshalBlockWithTxPositions :: "env \<Rightarrow> BlockProto \<Rightarrow> nat \<Rightarrow> (bytes \<times> TxPosition list) result" where
  "MarshalBlockWithTxPositions e block txsCount =
     bind_out (Block_Marshal e block) (\<lambda>b.
     bind_out (findField b 2) (\<lambda>(dataContentOffset, _, dataContent).
     map_out (\<lambda>positions. (b, positions))
       (position_loop (Suc (length dataContent)) dataContent dataContentOffset 0 0 (replicate txsCount \<lparr>tp_Start = 0, tp_End = 0\<rparr>))))"

text \<open>The part set and its positions; \<open>numCPU\<close> and the order of the workers as in \<open>NewPartSetFromData\<close>.\<close>

definition MakePartSet :: "env \<Rightarrow> int \<Rightarrow> nat list \<Rightarrow> Block option \<Rightarrow> int \<Rightarrow> (PartSet \<times> TxPosition list) result" where
  "MakePartSet e numCPU order blk partSize =
     (case blk of None \<Rightarrow> Err (Errorf ''nil block'')
      | Some b \<Rightarrow>
          bind_out (Block_ToProto blk) (\<lambda>pbb.
          bind_out (MarshalBlockWithTxPositions e pbb (length (d_Txs (b_Data b)))) (\<lambda>(bz, pos).
          map_out (\<lambda>ops. (ops, pos)) (NewPartSetFromData (sha (crypto e)) numCPU order bz partSize))))"

end
