(* ===== verification/BlockWireProps.thy ===== *)
theory BlockWireProps
  imports BlockWire
begin

text \<open>Every decoder of a message of a block gives back what the encoder wrote, and a block is cut and put together again.\<close>

section \<open>Lengths\<close>

text \<open>The length of a message fits into the integers of the decoder.\<close>

definition short :: "bytes \<Rightarrow> bool" where
  "short bz \<longleftrightarrow> length bz < 2 ^ 63"

lemma short_append: "short (xs @ ys) \<Longrightarrow> short xs \<and> short ys"
  by (simp add: short_def)

lemma short_msg: "short (pb_msg t bz) \<Longrightarrow> short bz"
  by (simp add: short_def pb_msg_def)

lemma short_bytes: "short (pb_bytes t bz) \<Longrightarrow> short bz"
  by (auto simp: short_def pb_bytes_def pb_msg_def split: if_splits)

lemma short_concat: "short (concat (map (pb_msg t) bzs)) \<Longrightarrow> b \<in> set bzs \<Longrightarrow> short b"
  by (induction bzs) (auto simp: short_def pb_msg_def)

lemmas short_parts = short_append short_msg short_bytes

section \<open>One field\<close>

lemma msg_tags [simp]:
  "tag_is 0x10 2 0" "tag_is 0x18 3 0" "tag_is 0x28 5 0" "tag_is 0x38 7 0" "tag_is 0x1a 3 2" "tag_is 0x42 8 2" "tag_is 0x4a 9 2" "tag_is 0x52 10 2"
  "tag_is 0x5a 11 2" "tag_is 0x62 12 2" "tag_is 0x6a 13 2" "tag_is 0x72 14 2"
  by (simp_all add: tag_is_def field_num_def)

lemma bytes_step:
  assumes "tag_is t num 2" "tbl num = Some (bytes_field put)" "short bz" "put [] m = m"
  shows "pb_unmarshal tbl (pb_bytes t bz @ xs) m = pb_unmarshal tbl xs (put bz m)"
  using pb_unmarshal_bytes [where tbl = tbl, OF assms(1), of put bz xs m] assms(2-4) by (auto simp: bytes_field_def short_def)

lemma int64_step:
  assumes "tag_is t num 0" "tbl num = Some (int64_field put)" "is_i64 v" "put 0 m = m"
  shows "pb_unmarshal tbl (pb_varint t (to_uint64 v) @ xs) m = pb_unmarshal tbl xs (put v m)"
  using pb_unmarshal_varint [where tbl = tbl, OF assms(1), of "\<lambda>v m. put (sint v) m" "to_uint64 v" xs m] assms(2-4)
    sint_to_uint64 [OF assms(3)] to_uint64_bound [of v] to_uint64_0 [OF assms(3)] by (auto simp: int64_field_def)

lemma int32_step:
  assumes "tag_is t num 0" "tbl num = Some (int32_field put)" "is_i32 v" "put 0 m = m"
  shows "pb_unmarshal tbl (pb_varint t (to_uint64 v) @ xs) m = pb_unmarshal tbl xs (put v m)"
  using pb_unmarshal_varint [where tbl = tbl, OF assms(1), of "\<lambda>v m. put (sint (ucast v :: 32 word)) m" "to_uint64 v" xs m] assms(2-4)
    sint_i32 [OF assms(3)] to_uint64_bound [of v] to_uint64_0 [of v] by (auto simp: int32_field_def)

definition is_u64 :: "int \<Rightarrow> bool" where
  "is_u64 x \<longleftrightarrow> 0 \<le> x \<and> x < 2 ^ 64"

lemma uint64_step:
  assumes "tag_is t num 0" "tbl num = Some (uint64_field put)" "is_u64 v" "put 0 m = m"
  shows "pb_unmarshal tbl (pb_varint t (to_uint64 v) @ xs) m = pb_unmarshal tbl xs (put v m)"
proof -
  have v: "to_uint64 v = nat v" "uint (of_nat (nat v) :: uint64) = v" "nat v = 0 \<longrightarrow> v = 0"
    using assms(3) by (simp_all add: is_u64_def to_uint64_def uint_word_of_int)
  show ?thesis
    using pb_unmarshal_varint [where tbl = tbl, OF assms(1), of "\<lambda>v m. put (uint v) m" "to_uint64 v" xs m] assms(2,4) v
      to_uint64_bound [of v] by (auto simp: uint64_field_def)
qed

lemma uint32_step:
  assumes "tag_is t num 0" "tbl num = Some (uint32_field put)" "is_u32 v" "put 0 m = m"
  shows "pb_unmarshal tbl (pb_varint t (to_uint64 v) @ xs) m = pb_unmarshal tbl xs (put v m)"
  using pb_unmarshal_varint [where tbl = tbl, OF assms(1), of "\<lambda>v m. put (uint (ucast v :: 32 word)) m" "to_uint64 v" xs m] assms(2-4)
    uint_u32 [OF assms(3)] to_uint64_bound [of v] to_uint64_0 [of v] by (auto simp: uint32_field_def)

lemma time_step:
  assumes "tag_is t num 2" "tbl num = Some (time_field tu put)" "time_decodes e tu" "StdTimeMarshal e x = Ok bz" "short bz"
  shows "pb_unmarshal tbl (pb_msg t bz @ xs) m = pb_unmarshal tbl xs (put x m)"
  using pb_unmarshal_msg [where tbl = tbl, OF assms(1), of "\<lambda>bz m. map_out (\<lambda>t. put t m) (tu bz)" bz m "put x m" xs] assms(2-5)
  by (simp add: time_field_def time_decodes_def short_def)

definition tag_num :: "byte \<Rightarrow> int" where
  "tag_num t = field_num (ucast (t AND 0x7F))"

lemma tag_nums [simp]:
  "tag_num 0x08 = 1" "tag_num 0x10 = 2" "tag_num 0x18 = 3" "tag_num 0x20 = 4" "tag_num 0x28 = 5" "tag_num 0x38 = 7" "tag_num 0x0a = 1" "tag_num 0x12 = 2"
  "tag_num 0x1a = 3" "tag_num 0x22 = 4" "tag_num 0x2a = 5" "tag_num 0x32 = 6" "tag_num 0x3a = 7" "tag_num 0x42 = 8" "tag_num 0x4a = 9" "tag_num 0x52 = 10"
  "tag_num 0x5a = 11" "tag_num 0x62 = 12" "tag_num 0x6a = 13" "tag_num 0x72 = 14"
  by (simp_all add: tag_num_def field_num_def)

lemmas steps = bytes_step [where t = t and num = "tag_num t" for t] int64_step [where t = t and num = "tag_num t" for t]
  int32_step [where t = t and num = "tag_num t" for t] uint64_step [where t = t and num = "tag_num t" for t]
  uint32_step [where t = t and num = "tag_num t" for t] time_step [where t = t and num = "tag_num t" for t]

lemmas last_steps = steps [where xs = "[]", unfolded append_Nil2 pb_unmarshal_Nil]

lemma only_step:
  assumes "tag_is t (tag_num t) 2" "tbl (tag_num t) = Some (BytesField f)" "f bz m = Ok m'" "short bz"
  shows "pb_unmarshal tbl (pb_msg t bz) m = Ok m'"
  using pb_unmarshal_msg [where tbl = tbl and xs = "[]", OF assms(1,2,3)] assms(4) by (simp add: short_def)

section \<open>Messages within messages\<close>

lemma from_protos_acc:
  "fold_out (\<lambda>x ys. map_out (\<lambda>y. ys @ [y]) (f x)) xs zs = map_out ((@) zs) (from_protos f xs)"
proof (induction xs arbitrary: zs)
  case (Cons x xs)
  show ?case using Cons.IH [of "zs @ [y]" for y] Cons.IH [of "[y]" for y]
    by (cases "f x"; cases "from_protos f xs") (simp_all add: from_protos_def)
qed (simp add: from_protos_def)

lemma from_protos_simps [simp]:
  "from_protos f [] = Ok []"
  "from_protos f (x # xs) = bind_out (f x) (\<lambda>y. map_out ((#) y) (from_protos f xs))"
proof -
  show "from_protos f (x # xs) = bind_out (f x) (\<lambda>y. map_out ((#) y) (from_protos f xs))"
    using from_protos_acc [of f xs "[y]" for y] by (cases "f x"; cases "from_protos f xs") (auto simp: from_protos_def)
qed (simp add: from_protos_def)

locale codec =
  fixes marshal :: "'a \<Rightarrow> bytes result" and unmarshal :: "bytes \<Rightarrow> 'a \<Rightarrow> 'a result" and zero :: 'a and fits :: "'a \<Rightarrow> bool"
  assumes decode: "marshal x = Ok bz \<Longrightarrow> fits x \<Longrightarrow> short bz \<Longrightarrow> unmarshal bz zero = Ok x"
begin

lemma emb_step:
  assumes "tag_is t num 2" "tbl num = Some (emb_field get put unmarshal)" "marshal x = Ok bz" "get m = zero" "fits x" "short bz"
  shows "pb_unmarshal tbl (pb_msg t bz @ xs) m = pb_unmarshal tbl xs (put x m)"
  using assms decode [OF assms(3,5,6)] by (intro pb_unmarshal_msg [where tbl = tbl and num = num, OF assms(1) assms(2) [unfolded emb_field_def]]) (simp_all add: short_def)

lemma opt_step:
  assumes "tag_is t num 2" "tbl num = Some (opt_field get put zero unmarshal)" "opt_marshal t marshal x = Ok bz" "get m = None" "put None m = m"
    "\<And>y. x = Some y \<Longrightarrow> fits y" "short bz"
  shows "pb_unmarshal tbl (bz @ xs) m = pb_unmarshal tbl xs (put x m)"
proof (cases x)
  case None
  then show ?thesis using assms(3,5) by (simp add: opt_marshal_def)
next
  case (Some y)
  then obtain b where b: "marshal y = Ok b" "bz = pb_msg t b" using assms(3) by (auto simp: opt_marshal_def)
  then have "short b" using assms(7) by (auto dest: short_msg)
  then show ?thesis using assms decode [OF b(1)] Some unfolding b(2)
    by (intro pb_unmarshal_msg [where tbl = tbl and num = num, OF assms(1) assms(2) [unfolded opt_field_def]]) (simp_all add: short_def)
qed

lemma rep_step:
  assumes "tag_is t num 2" "tbl num = Some (rep_field get put zero unmarshal)" "from_protos marshal ys = Ok bzs"
    "\<And>y. y \<in> set ys \<Longrightarrow> fits y" "\<And>b. b \<in> set bzs \<Longrightarrow> short b"
    "\<And>m z. get (put z m) = z" "\<And>m z w. put z (put w m) = put z m" "put (get m) m = m"
  shows "pb_unmarshal tbl (concat (map (pb_msg t) bzs) @ xs) m = pb_unmarshal tbl xs (put (get m @ ys) m)"
  using assms(3-5,8)
proof (induction ys arbitrary: bzs m)
  case (Cons y ys)
  then obtain b bzs' where b: "bzs = b # bzs'" "marshal y = Ok b" "from_protos marshal ys = Ok bzs'" by auto
  have "pb_unmarshal tbl (pb_msg t b @ concat (map (pb_msg t) bzs') @ xs) m = pb_unmarshal tbl (concat (map (pb_msg t) bzs') @ xs) (put (get m @ [y]) m)"
    using decode [OF b(2)] Cons.prems b by (intro pb_unmarshal_msg [where tbl = tbl and num = num, OF assms(1) assms(2) [unfolded rep_field_def]]) (auto simp: short_def)
  also have "\<dots> = pb_unmarshal tbl xs (put (get m @ y # ys) m)"
    using Cons.IH [OF b(3), of "put (get m @ [y]) m"] Cons.prems(2,3) assms(6,7) b(1) by simp
  finally show ?case using b(1) by simp
qed simp

lemma sum:
  assumes "tag_is t (tag_num t) 2" "tbl (tag_num t) = Some (sum_field con zero unmarshal)" "marshal x = Ok bz" "fits x" "short bz"
  shows "pb_unmarshal tbl (pb_msg t bz) m = Ok (con x)"
  using decode [OF assms(3-5)] assms(5) by (intro only_step [where tbl = tbl, OF assms(1) assms(2) [unfolded sum_field_def]]) simp_all

lemmas emb = emb_step [where t = t and num = "tag_num t" for t]

lemmas opt = opt_step [where t = t and num = "tag_num t" for t]

lemmas rep = rep_step [where t = t and num = "tag_num t" for t]

end


interpretation psh: codec "\<lambda>m. Ok (PartSetHeader_Marshal m)" PartSetHeader_Unmarshal "\<lparr>psh_Total = 0, psh_Hash = []\<rparr>" "\<lambda>m. is_u32 (psh_Total m)"
proof
  fix x bz
  assume a: "Ok (PartSetHeader_Marshal x) = Ok bz" "is_u32 (psh_Total x)" "short bz"
  then have l: "short (psh_Hash x)" by (auto simp: PartSetHeader_Marshal_def dest!: short_parts)
  have bz: "bz = PartSetHeader_Marshal x" using a(1) by simp
  show "PartSetHeader_Unmarshal bz \<lparr>psh_Total = 0, psh_Hash = []\<rparr> = Ok x"
    unfolding bz PartSetHeader_Unmarshal_def PartSetHeader_Marshal_def using a(2) l by (simp add: steps last_steps)
qed

definition version_in_range :: "int \<times> int \<Rightarrow> bool" where
  "version_in_range v \<longleftrightarrow> is_u64 (fst v) \<and> is_u64 (snd v)"

interpretation version: codec "\<lambda>v. Ok (Consensus_Marshal (fst v) (snd v))" Consensus_Unmarshal "(0, 0)" version_in_range
  by standard (auto simp: Consensus_Marshal_def Consensus_Unmarshal_def version_in_range_def steps last_steps)

interpretation bid: codec "\<lambda>m. Ok (BlockID_Marshal m)" BlockID_Unmarshal empty_BlockID bid_in_range
proof
  fix x bz
  assume a: "Ok (BlockID_Marshal x) = Ok bz" "bid_in_range x" "short bz"
  then have bz: "bz = BlockID_Marshal x" by simp
  then have l: "short (bid_Hash x)" "short (PartSetHeader_Marshal (bid_PartSetHeader x))"
    using a(3) by (auto simp: BlockID_Marshal_def dest!: short_parts)
  note p = psh.emb [where x = "bid_PartSetHeader x" and xs = "[]", OF _ _ refl, unfolded append_Nil2 pb_unmarshal_Nil]
  show "BlockID_Unmarshal bz empty_BlockID = Ok x"
    unfolding bz BlockID_Unmarshal_def BlockID_Marshal_def empty_BlockID_def using a(2) l by (simp add: steps p bid_in_range_def)
qed

definition header_in_range :: "Header \<Rightarrow> bool" where
  "header_in_range h \<longleftrightarrow> is_u64 (h_Version_Block h) \<and> is_u64 (h_Version_App h) \<and> is_i64 (h_Height h) \<and> bid_in_range (h_LastBlockID h)"

interpretation header: codec "Header_Marshal e" "Header_Unmarshal tu" zero_Header "\<lambda>h. time_decodes e tu \<and> header_in_range h" for e tu
proof
  fix x bz
  assume a: "Header_Marshal e x = Ok bz" "time_decodes e tu \<and> header_in_range x" "short bz"
  obtain t where t: "StdTimeMarshal e (h_Time x) = Ok t" using a(1) by (auto simp: Header_Marshal_def)
  then have bz: "bz = pb_msg 0x0a (Consensus_Marshal (h_Version_Block x) (h_Version_App x)) @ pb_bytes 0x12 (h_ChainID x) @
                  pb_varint 0x18 (to_uint64 (h_Height x)) @ pb_msg 0x22 t @ pb_msg 0x2a (BlockID_Marshal (h_LastBlockID x)) @
                  pb_bytes 0x32 (h_LastCommitHash x) @ pb_bytes 0x3a (h_DataHash x) @ pb_bytes 0x42 (h_ValidatorsHash x) @
                  pb_bytes 0x4a (h_NextValidatorsHash x) @ pb_bytes 0x52 (h_ConsensusHash x) @ pb_bytes 0x5a (h_AppHash x) @
                  pb_bytes 0x62 (h_LastResultsHash x) @ pb_bytes 0x6a (h_EvidenceHash x) @ pb_bytes 0x72 (h_ProposerAddress x)"
    using a(1) by (simp add: Header_Marshal_def)
  have l: "short (Consensus_Marshal (h_Version_Block x) (h_Version_App x))" "short (h_ChainID x)" "short t"
    "short (BlockID_Marshal (h_LastBlockID x))" "short (h_LastCommitHash x)" "short (h_DataHash x)"
    "short (h_ValidatorsHash x)" "short (h_NextValidatorsHash x)" "short (h_ConsensusHash x)" "short (h_AppHash x)"
    "short (h_LastResultsHash x)" "short (h_EvidenceHash x)" "short (h_ProposerAddress x)"
    using a(3) unfolding bz by (auto dest!: short_parts)
  have r: "version_in_range (h_Version_Block x, h_Version_App x)" "is_i64 (h_Height x)" "bid_in_range (h_LastBlockID x)" "time_decodes e tu"
    using a(2) by (simp_all add: header_in_range_def version_in_range_def)
  note s = version.emb [where x = "(h_Version_Block x, h_Version_App x)", OF _ _ refl, unfolded fst_conv snd_conv] bid.emb [where x = "h_LastBlockID x", OF _ _ refl]
    time_step [where t = t' and num = "tag_num t'" for t', OF _ _ r(4) t l(3)]
  show "Header_Unmarshal tu bz zero_Header = Ok x"
    unfolding bz Header_Unmarshal_def zero_Header_def using r(1-3) l by (simp add: s steps(1-2) last_steps(1))
qed

definition vote_fits :: "Vote \<Rightarrow> bool" where
  "vote_fits v \<longleftrightarrow> vote_in_range v \<and> is_i32 (v_ValidatorIndex v)"

interpretation vote: codec "Vote_Marshal e" "Vote_Unmarshal tu" zero_Vote "\<lambda>v. time_decodes e tu \<and> vote_fits v" for e tu
proof
  fix x bz
  assume a: "Vote_Marshal e x = Ok bz" "time_decodes e tu \<and> vote_fits x" "short bz"
  obtain t where t: "StdTimeMarshal e (v_Timestamp x) = Ok t" using a(1) by (auto simp: Vote_Marshal_def)
  then have bz: "bz = pb_varint 0x08 (to_uint64 (v_Type x)) @ pb_varint 0x10 (to_uint64 (v_Height x)) @
                  pb_varint 0x18 (to_uint64 (v_Round x)) @ pb_msg 0x22 (BlockID_Marshal (v_BlockID x)) @ pb_msg 0x2a t @
                  pb_bytes 0x32 (v_ValidatorAddress x) @ pb_varint 0x38 (to_uint64 (v_ValidatorIndex x)) @
                  pb_bytes 0x42 (v_Signature x) @ pb_bytes 0x4a (v_Extension x) @ pb_bytes 0x52 (v_ExtensionSignature x)"
    using a(1) by (simp add: Vote_Marshal_def)
  have l: "short (BlockID_Marshal (v_BlockID x))" "short t" "short (v_ValidatorAddress x)" "short (v_Signature x)" "short (v_Extension x)"
    "short (v_ExtensionSignature x)"
    using a(3) unfolding bz by (auto dest!: short_parts)
  have r: "is_i32 (v_Type x)" "is_i64 (v_Height x)" "is_i32 (v_Round x)" "bid_in_range (v_BlockID x)" "is_i32 (v_ValidatorIndex x)" "time_decodes e tu"
    using a(2) by (simp_all add: vote_fits_def vote_in_range_def)
  note s = bid.emb [where x = "v_BlockID x", OF _ _ refl] time_step [where t = t' and num = "tag_num t'" for t', OF _ _ r(6) t l(2)]
  show "Vote_Unmarshal tu bz zero_Vote = Ok x"
    unfolding bz Vote_Unmarshal_def zero_Vote_def using r(1-5) l by (simp add: s steps(1-3) last_steps(1))
qed

interpretation commit_sig: codec "CommitSig_Marshal e" "CommitSig_Unmarshal tu" zero_CommitSig
  "\<lambda>s. time_decodes e tu \<and> is_i32 (cs_BlockIDFlag s)" for e tu
proof
  fix x bz
  assume a: "CommitSig_Marshal e x = Ok bz" "time_decodes e tu \<and> is_i32 (cs_BlockIDFlag x)" "short bz"
  obtain t where t: "StdTimeMarshal e (cs_Timestamp x) = Ok t" using a(1) by (auto simp: CommitSig_Marshal_def)
  then have bz: "bz = pb_varint 0x08 (to_uint64 (cs_BlockIDFlag x)) @ pb_bytes 0x12 (cs_ValidatorAddress x) @ pb_msg 0x1a t @ pb_bytes 0x22 (cs_Signature x)"
    using a(1) by (simp add: CommitSig_Marshal_def)
  have l: "short (cs_ValidatorAddress x)" "short t" "short (cs_Signature x)" using a(3) unfolding bz by (auto dest!: short_parts)
  have r: "time_decodes e tu" using a(2) by simp
  note s = time_step [where t = t' and num = "tag_num t'" for t', OF _ _ r t l(2)]
  show "CommitSig_Unmarshal tu bz zero_CommitSig = Ok x"
    unfolding bz CommitSig_Unmarshal_def zero_CommitSig_def using a(2) l by (simp add: s steps(1-3) last_steps(1))
qed

definition commit_fits :: "Commit \<Rightarrow> bool" where
  "commit_fits c \<longleftrightarrow> is_i64 (cm_Height c) \<and> is_i32 (cm_Round c) \<and> bid_in_range (cm_BlockID c) \<and>
     (\<forall>s \<in> set (cm_Signatures c). is_i32 (cs_BlockIDFlag s)) \<and> cm_hash c = None"

interpretation commit: codec "Commit_Marshal e" "Commit_Unmarshal tu" zero_Commit "\<lambda>c. time_decodes e tu \<and> commit_fits c" for e tu
proof
  fix x bz
  assume a: "Commit_Marshal e x = Ok bz" "time_decodes e tu \<and> commit_fits x" "short bz"
  obtain sigs where sg: "from_protos (CommitSig_Marshal e) (cm_Signatures x) = Ok sigs" using a(1) by (auto simp: Commit_Marshal_def)
  then have bz: "bz = pb_varint 0x08 (to_uint64 (cm_Height x)) @ pb_varint 0x10 (to_uint64 (cm_Round x)) @
                  pb_msg 0x1a (BlockID_Marshal (cm_BlockID x)) @ concat (map (pb_msg 0x22) sigs)"
    using a(1) by (simp add: Commit_Marshal_def)
  have l: "short (BlockID_Marshal (cm_BlockID x))" "\<And>b. b \<in> set sigs \<Longrightarrow> short b"
    using a(3) unfolding bz by (auto dest!: short_parts short_concat)
  have r: "is_i64 (cm_Height x)" "is_i32 (cm_Round x)" "bid_in_range (cm_BlockID x)"
    "\<And>s. s \<in> set (cm_Signatures x) \<Longrightarrow> time_decodes e tu \<and> is_i32 (cs_BlockIDFlag s)" "cm_hash x = None"
    using a(2) by (simp_all add: commit_fits_def)
  note s = bid.emb [where x = "cm_BlockID x", OF _ _ refl]
    commit_sig.rep [where xs = "[]", OF _ _ sg r(4) l(2), unfolded append_Nil2 pb_unmarshal_Nil]
  show "Commit_Unmarshal tu bz zero_Commit = Ok x"
    unfolding bz Commit_Unmarshal_def zero_Commit_def using r l(1) by (simp add: s steps(2-3))
qed

section \<open>Light blocks and evidence\<close>

interpretation pub_key: codec "\<lambda>k. Ok (case k of None \<Rightarrow> [] | Some pk \<Rightarrow> PublicKey_Marshal pk)" PublicKey_Unmarshal None "\<lambda>_. True"
proof
  fix x :: "PublicKey_Sum option" and bz
  assume a: "Ok (case x of None \<Rightarrow> [] | Some pk \<Rightarrow> PublicKey_Marshal pk) = Ok bz" "short bz"
  consider "x = None" | k where "x = Some (PublicKey_Ed25519 k)" | k where "x = Some (PublicKey_Secp256K1 k)" by (metis PublicKey_Sum.exhaust option.exhaust)
  then show "PublicKey_Unmarshal bz None = Ok x"
  proof cases
    case 1
    then show ?thesis using a(1) by (simp add: PublicKey_Unmarshal_def)
  next
    case (2 k)
    then have bz: "bz = pb_msg 0x0a k" using a(1) by simp
    then show ?thesis using short_msg a(2) 2 unfolding bz PublicKey_Unmarshal_def bytes_field_def by (intro only_step) auto
  next
    case (3 k)
    then have bz: "bz = pb_msg 0x12 k" using a(1) by simp
    then show ?thesis using short_msg a(2) 3 unfolding bz PublicKey_Unmarshal_def bytes_field_def by (intro only_step) auto
  qed
qed

definition val_fits :: "ValidatorProto \<Rightarrow> bool" where
  "val_fits v \<longleftrightarrow> is_i64 (vp_VotingPower v) \<and> is_i64 (vp_ProposerPriority v)"

interpretation validator: codec "\<lambda>v. Ok (ValidatorProto_Marshal v)" Validator_Unmarshal zero_ValidatorProto val_fits
proof
  fix x bz
  assume a: "Ok (ValidatorProto_Marshal x) = Ok bz" "val_fits x" "short bz"
  then have bz: "bz = ValidatorProto_Marshal x" by simp
  have l: "short (vp_Address x)" "short (case vp_PubKey x of None \<Rightarrow> [] | Some pk \<Rightarrow> PublicKey_Marshal pk)"
    using a(3) unfolding bz ValidatorProto_Marshal_def by (auto dest!: short_parts)
  note k = pub_key.emb [where x = "vp_PubKey x", OF _ _ refl]
  show "Validator_Unmarshal bz zero_ValidatorProto = Ok x"
    unfolding bz Validator_Unmarshal_def ValidatorProto_Marshal_def zero_ValidatorProto_def using a(2) l
    by (simp add: k steps(1-2) last_steps(2) val_fits_def)
qed

lemma from_protos_pure: "from_protos (\<lambda>x. Ok (f x)) xs = Ok (map f xs)"
  by (induction xs) simp_all

definition vals_fit :: "ValidatorSetProto \<Rightarrow> bool" where
  "vals_fit vs \<longleftrightarrow> (\<forall>v \<in> set (vsp_Validators vs). val_fits v) \<and> (\<forall>v. vsp_Proposer vs = Some v \<longrightarrow> val_fits v) \<and> is_i64 (vsp_TotalVotingPower vs)"

interpretation validator_set: codec "\<lambda>v. Ok (ValidatorSetProto_Marshal v)" ValidatorSet_Unmarshal zero_ValidatorSetProto vals_fit
proof
  fix x bz
  assume a: "Ok (ValidatorSetProto_Marshal x) = Ok bz" "vals_fit x" "short bz"
  define p where "p = pb_opt 0x12 (map_option ValidatorProto_Marshal (vsp_Proposer x))"
  define vs where "vs = map ValidatorProto_Marshal (vsp_Validators x)"
  have vs: "from_protos (\<lambda>v. Ok (ValidatorProto_Marshal v)) (vsp_Validators x) = Ok vs" by (simp add: from_protos_pure vs_def)
  have bz: "bz = concat (map (pb_msg 0x0a) vs) @ p @ pb_varint 0x18 (to_uint64 (vsp_TotalVotingPower x))"
    using a(1) by (simp add: ValidatorSetProto_Marshal_def p_def vs_def comp_def)
  have l: "\<And>b. b \<in> set vs \<Longrightarrow> short b" "short p"
    using a(3) short_concat unfolding bz by (blast dest!: short_parts)+
  have r: "\<And>v. v \<in> set (vsp_Validators x) \<Longrightarrow> val_fits v" "\<And>v. vsp_Proposer x = Some v \<Longrightarrow> val_fits v" "is_i64 (vsp_TotalVotingPower x)"
    using a(2) by (auto simp: vals_fit_def)
  have o: "opt_marshal 0x12 (\<lambda>v. Ok (ValidatorProto_Marshal v)) (vsp_Proposer x) = Ok p" by (simp add: opt_marshal_def p_def pb_opt_def split: option.splits)
  note s = validator.rep [OF _ _ vs r(1) l(1)] validator.opt [where t = "0x12", OF _ _ o _ _ r(2) l(2)]
  show "ValidatorSet_Unmarshal bz zero_ValidatorSetProto = Ok x"
    unfolding bz ValidatorSet_Unmarshal_def zero_ValidatorSetProto_def using r(3) by (simp add: s last_steps(2))
qed

definition signed_fits :: "SignedHeader \<Rightarrow> bool" where
  "signed_fits sh \<longleftrightarrow> (\<forall>h. sh_Header sh = Some h \<longrightarrow> header_in_range h) \<and> (\<forall>c. sh_Commit sh = Some c \<longrightarrow> commit_fits c)"

interpretation signed_header: codec "SignedHeader_Marshal e" "SignedHeader_Unmarshal tu" "\<lparr>sh_Header = None, sh_Commit = None\<rparr>"
  "\<lambda>sh. time_decodes e tu \<and> signed_fits sh" for e tu
proof
  fix x bz
  assume a: "SignedHeader_Marshal e x = Ok bz" "time_decodes e tu \<and> signed_fits x" "short bz"
  obtain h c where m: "opt_marshal 0x0a (Header_Marshal e) (sh_Header x) = Ok h" "opt_marshal 0x12 (Commit_Marshal e) (sh_Commit x) = Ok c" "bz = h @ c"
    using a(1) by (auto simp: SignedHeader_Marshal_def)
  have r: "\<And>h. sh_Header x = Some h \<Longrightarrow> time_decodes e tu \<and> header_in_range h" "\<And>c. sh_Commit x = Some c \<Longrightarrow> time_decodes e tu \<and> commit_fits c"
    using a(2) by (auto simp: signed_fits_def)
  have l: "short h" "short c" using a(3) unfolding m(3) by (auto dest!: short_parts)
  note s = header.opt [where t = "0x0a", OF _ _ m(1) _ _ r(1) l(1)]
    commit.opt [where t = "0x12" and xs = "[]", OF _ _ m(2) _ _ r(2) l(2), unfolded append_Nil2 pb_unmarshal_Nil]
  show "SignedHeader_Unmarshal tu bz \<lparr>sh_Header = None, sh_Commit = None\<rparr> = Ok x"
    unfolding m(3) SignedHeader_Unmarshal_def by (simp add: s)
qed

definition light_fits :: "LightBlockProto \<Rightarrow> bool" where
  "light_fits lb \<longleftrightarrow> (\<forall>sh. lbp_SignedHeader lb = Some sh \<longrightarrow> signed_fits sh) \<and> (\<forall>vs. lbp_ValidatorSet lb = Some vs \<longrightarrow> vals_fit vs)"

interpretation light_block: codec "LightBlockProto_Marshal e" "LightBlock_Unmarshal tu" "\<lparr>lbp_SignedHeader = None, lbp_ValidatorSet = None\<rparr>"
  "\<lambda>lb. time_decodes e tu \<and> light_fits lb" for e tu
proof
  fix x bz
  assume a: "LightBlockProto_Marshal e x = Ok bz" "time_decodes e tu \<and> light_fits x" "short bz"
  define v where "v = pb_opt 0x12 (map_option ValidatorSetProto_Marshal (lbp_ValidatorSet x))"
  obtain sh where m: "opt_marshal 0x0a (SignedHeader_Marshal e) (lbp_SignedHeader x) = Ok sh" "bz = sh @ v"
    using a(1) by (auto simp: LightBlockProto_Marshal_def v_def)
  have v: "opt_marshal 0x12 (\<lambda>v. Ok (ValidatorSetProto_Marshal v)) (lbp_ValidatorSet x) = Ok v"
    by (simp add: opt_marshal_def v_def pb_opt_def split: option.splits)
  have r: "\<And>sh. lbp_SignedHeader x = Some sh \<Longrightarrow> time_decodes e tu \<and> signed_fits sh" "\<And>vs. lbp_ValidatorSet x = Some vs \<Longrightarrow> vals_fit vs"
    using a(2) by (auto simp: light_fits_def)
  have l: "short sh" "short v" using a(3) unfolding m(2) by (auto dest!: short_parts)
  note s = signed_header.opt [where t = "0x0a", OF _ _ m(1) _ _ r(1) l(1)]
    validator_set.opt [where t = "0x12" and xs = "[]", OF _ _ v _ _ r(2) l(2), unfolded append_Nil2 pb_unmarshal_Nil]
  show "LightBlock_Unmarshal tu bz \<lparr>lbp_SignedHeader = None, lbp_ValidatorSet = None\<rparr> = Ok x"
    unfolding m(2) LightBlock_Unmarshal_def by (simp add: s)
qed

definition dve_fits :: "DuplicateVoteEvidence \<Rightarrow> bool" where
  "dve_fits d \<longleftrightarrow> (\<forall>v. dve_VoteA d = Some v \<longrightarrow> vote_fits v) \<and> (\<forall>v. dve_VoteB d = Some v \<longrightarrow> vote_fits v) \<and>
     is_i64 (dve_TotalVotingPower d) \<and> is_i64 (dve_ValidatorPower d)"

interpretation duplicate_vote: codec "DuplicateVoteEvidence_Marshal e" "DuplicateVoteEvidence_Unmarshal tu" zero_DVE
  "\<lambda>d. time_decodes e tu \<and> dve_fits d" for e tu
proof
  fix x bz
  assume a: "DuplicateVoteEvidence_Marshal e x = Ok bz" "time_decodes e tu \<and> dve_fits x" "short bz"
  obtain va vb t where m: "opt_marshal 0x0a (Vote_Marshal e) (dve_VoteA x) = Ok va" "opt_marshal 0x12 (Vote_Marshal e) (dve_VoteB x) = Ok vb"
    "StdTimeMarshal e (dve_Timestamp x) = Ok t"
    "bz = va @ vb @ pb_varint 0x18 (to_uint64 (dve_TotalVotingPower x)) @ pb_varint 0x20 (to_uint64 (dve_ValidatorPower x)) @ pb_msg 0x2a t"
    using a(1) by (auto simp: DuplicateVoteEvidence_Marshal_def)
  have r: "\<And>v. dve_VoteA x = Some v \<Longrightarrow> time_decodes e tu \<and> vote_fits v" "\<And>v. dve_VoteB x = Some v \<Longrightarrow> time_decodes e tu \<and> vote_fits v"
    "is_i64 (dve_TotalVotingPower x)" "is_i64 (dve_ValidatorPower x)" "time_decodes e tu"
    using a(2) by (auto simp: dve_fits_def)
  have l: "short va" "short vb" "short t" using a(3) unfolding m(4) by (auto dest!: short_parts)
  note s = vote.opt [where t = "0x0a", OF _ _ m(1) _ _ r(1) l(1)] vote.opt [where t = "0x12", OF _ _ m(2) _ _ r(2) l(2)]
    time_step [where t = t' and num = "tag_num t'" and xs = "[]" for t', OF _ _ r(5) m(3) l(3), unfolded append_Nil2 pb_unmarshal_Nil]
  show "DuplicateVoteEvidence_Unmarshal tu bz zero_DVE = Ok x"
    unfolding m(4) DuplicateVoteEvidence_Unmarshal_def zero_DVE_def using r(3,4) by (simp add: s steps(2))
qed

definition lca_fits :: "LCAProto \<Rightarrow> bool" where
  "lca_fits l \<longleftrightarrow> (\<forall>b. lcap_ConflictingBlock l = Some b \<longrightarrow> light_fits b) \<and> is_i64 (lcap_CommonHeight l) \<and>
     (\<forall>v \<in> set (lcap_ByzantineValidators l). val_fits v) \<and> is_i64 (lcap_TotalVotingPower l)"

interpretation light_attack: codec "LCAProto_Marshal e" "LightClientAttackEvidence_Unmarshal tu" zero_LCAProto
  "\<lambda>l. time_decodes e tu \<and> lca_fits l" for e tu
proof
  fix x bz
  assume a: "LCAProto_Marshal e x = Ok bz" "time_decodes e tu \<and> lca_fits x" "short bz"
  define vs where "vs = map ValidatorProto_Marshal (lcap_ByzantineValidators x)"
  have vs: "from_protos (\<lambda>v. Ok (ValidatorProto_Marshal v)) (lcap_ByzantineValidators x) = Ok vs" by (simp add: from_protos_pure vs_def)
  obtain cb t where m: "opt_marshal 0x0a (LightBlockProto_Marshal e) (lcap_ConflictingBlock x) = Ok cb" "StdTimeMarshal e (lcap_Timestamp x) = Ok t"
    "bz = cb @ pb_varint 0x10 (to_uint64 (lcap_CommonHeight x)) @ concat (map (pb_msg 0x1a) vs) @
         pb_varint 0x20 (to_uint64 (lcap_TotalVotingPower x)) @ pb_msg 0x2a t"
    using a(1) by (auto simp: LCAProto_Marshal_def vs_def comp_def)
  have r: "\<And>b. lcap_ConflictingBlock x = Some b \<Longrightarrow> time_decodes e tu \<and> light_fits b" "\<And>v. v \<in> set (lcap_ByzantineValidators x) \<Longrightarrow> val_fits v"
    "is_i64 (lcap_CommonHeight x)" "is_i64 (lcap_TotalVotingPower x)" "time_decodes e tu"
    using a(2) by (auto simp: lca_fits_def)
  have l: "short cb" "\<And>b. b \<in> set vs \<Longrightarrow> short b" "short t"
    using a(3) short_concat unfolding m(3) by (blast dest!: short_parts)+
  note s = light_block.opt [where t = "0x0a", OF _ _ m(1) _ _ r(1) l(1)] validator.rep [OF _ _ vs r(2) l(2)]
    time_step [where t = t' and num = "tag_num t'" and xs = "[]" for t', OF _ _ r(5) m(2) l(3), unfolded append_Nil2 pb_unmarshal_Nil]
  show "LightClientAttackEvidence_Unmarshal tu bz zero_LCAProto = Ok x"
    unfolding m(3) LightClientAttackEvidence_Unmarshal_def zero_LCAProto_def using r(3,4) by (simp add: s steps(2))
qed

fun evidence_fits :: "EvidenceProto option \<Rightarrow> bool" where
  "evidence_fits None = True"
| "evidence_fits (Some (Evidence_DuplicateVote d)) = dve_fits d"
| "evidence_fits (Some (Evidence_LightClientAttack l)) = lca_fits l"

interpretation evidence: codec "Evidence_Marshal e" "Evidence_Unmarshal tu" None "\<lambda>ev. time_decodes e tu \<and> evidence_fits ev" for e tu
proof
  fix x bz
  assume a: "Evidence_Marshal e x = Ok bz" "time_decodes e tu \<and> evidence_fits x" "short bz"
  show "Evidence_Unmarshal tu bz None = Ok x"
    using a
  proof (cases x rule: evidence_fits.cases)
    case (2 d)
    obtain b where b: "DuplicateVoteEvidence_Marshal e d = Ok b" "bz = pb_msg 0x0a b" using a(1) 2 by (auto simp: Evidence_Marshal_def)
    have "short b" using a(3) b(2) short_msg by blast
    then show ?thesis using a(2) 2 unfolding b(2) Evidence_Unmarshal_def by (simp add: duplicate_vote.sum [OF _ _ b(1)])
  next
    case (3 l)
    obtain b where b: "LCAProto_Marshal e l = Ok b" "bz = pb_msg 0x12 b" using a(1) 3 by (auto simp: Evidence_Marshal_def)
    have "short b" using a(3) b(2) short_msg by blast
    then show ?thesis using a(2) 3 unfolding b(2) Evidence_Unmarshal_def by (simp add: light_attack.sum [OF _ _ b(1)])
  qed (simp add: Evidence_Marshal_def Evidence_Unmarshal_def)
qed

interpretation evidence_list: codec "EvidenceList_Marshal e" "EvidenceList_Unmarshal tu" "[]"
  "\<lambda>evs. time_decodes e tu \<and> (\<forall>ev \<in> set evs. evidence_fits ev)" for e tu
proof
  fix x bz
  assume a: "EvidenceList_Marshal e x = Ok bz" "time_decodes e tu \<and> (\<forall>ev \<in> set x. evidence_fits ev)" "short bz"
  obtain bzs where m: "from_protos (Evidence_Marshal e) x = Ok bzs" "bz = concat (map (pb_msg 0x0a) bzs)"
    using a(1) by (auto simp: EvidenceList_Marshal_def)
  have r: "\<And>ev. ev \<in> set x \<Longrightarrow> time_decodes e tu \<and> evidence_fits ev" using a(2) by simp
  have l: "\<And>b. b \<in> set bzs \<Longrightarrow> short b" using a(3) short_concat unfolding m(2) by blast
  show "EvidenceList_Unmarshal tu bz [] = Ok x"
    unfolding m(2) EvidenceList_Unmarshal_def
    by (rule trans [OF evidence.rep [where xs = "[]" and get = "\<lambda>m. m" and put = "\<lambda>x m. x", OF _ _ m(1) r l, unfolded append_Nil2 pb_unmarshal_Nil]]) simp_all
qed

section \<open>Blocks\<close>

interpretation raw: codec Ok "\<lambda>bz _. Ok bz" "[]" "\<lambda>_. True"
  by standard simp

lemma raw_field: "bytes_field (\<lambda>bz m. m\<lparr>dp_Txs := dp_Txs m @ [bz]\<rparr>) = rep_field dp_Txs (\<lambda>x m. m\<lparr>dp_Txs := x\<rparr>) [] (\<lambda>bz _. Ok bz)"
  by (simp add: bytes_field_def rep_field_def)

definition data_fits :: "DataProto \<Rightarrow> bool" where
  "data_fits d \<longleftrightarrow> is_u64 (dp_SquareSize d) \<and> dp_Hash d \<noteq> Some []"

interpretation data: codec "\<lambda>d. Ok (Data_Marshal d)" Data_Unmarshal zero_DataProto data_fits
proof
  fix x bz
  assume a: "Ok (Data_Marshal x) = Ok bz" "data_fits x" "short bz"
  define h where "h = (case dp_Hash x of None \<Rightarrow> [] | Some h \<Rightarrow> h)"
  have bz: "bz = concat (map (pb_msg 0x0a) (dp_Txs x)) @ pb_varint 0x28 (to_uint64 (dp_SquareSize x)) @ pb_bytes 0x32 h"
    using a(1) by (simp add: Data_Marshal_def h_def)
  have tx: "from_protos Ok (dp_Txs x) = Ok (dp_Txs x)" using from_protos_pure [of "\<lambda>x. x"] by simp
  have l: "\<And>b. b \<in> set (dp_Txs x) \<Longrightarrow> short b" "short h" using a(3) short_concat unfolding bz by (blast dest!: short_parts)+
  note s = raw.rep [OF _ _ tx TrueI l(1)]
  let ?t = "[1 \<mapsto> rep_field dp_Txs (\<lambda>x m. m\<lparr>dp_Txs := x\<rparr>) [] (\<lambda>bz _. Ok bz), 5 \<mapsto> uint64_field (\<lambda>v m. m\<lparr>dp_SquareSize := v\<rparr>),
     6 \<mapsto> BytesField (\<lambda>bz m. Ok (m\<lparr>dp_Hash := Some bz\<rparr>))]"
  have "pb_unmarshal ?t (pb_bytes 0x32 h) m = Ok (if h = [] then m else m\<lparr>dp_Hash := Some h\<rparr>)" for m
    using l(2) pb_unmarshal_last [where tbl = ?t and num = 6 and t = "0x32" and bz = h and m = m and f = "\<lambda>bz m. m\<lparr>dp_Hash := Some bz\<rparr>"]
    by (simp add: short_def)
  moreover have "(if h = [] then None else Some h) = dp_Hash x" using a(2) by (auto simp: data_fits_def h_def split: option.splits)
  moreover have "Data_Unmarshal bz zero_DataProto =
      pb_unmarshal ?t (pb_bytes 0x32 h) \<lparr>dp_Txs = dp_Txs x, dp_SquareSize = dp_SquareSize x, dp_Hash = None\<rparr>"
    unfolding bz Data_Unmarshal_def zero_DataProto_def raw_field using a(2) by (simp add: s steps(4) data_fits_def bytes_field_def)
  ultimately show "Data_Unmarshal bz zero_DataProto = Ok x" by (cases x) (auto split: if_splits)
qed

definition block_fits :: "BlockProto \<Rightarrow> bool" where
  "block_fits b \<longleftrightarrow> header_in_range (bp_Header b) \<and> data_fits (bp_Data b) \<and> (\<forall>ev \<in> set (bp_Evidence b). evidence_fits ev) \<and>
     (\<forall>c. bp_LastCommit b = Some c \<longrightarrow> commit_fits c)"

interpretation block: codec "Block_Marshal e" "Block_Unmarshal tu" zero_BlockProto "\<lambda>b. time_decodes e tu \<and> block_fits b" for e tu
proof
  fix x bz
  assume a: "Block_Marshal e x = Ok bz" "time_decodes e tu \<and> block_fits x" "short bz"
  obtain h ev c where m: "Header_Marshal e (bp_Header x) = Ok h" "EvidenceList_Marshal e (bp_Evidence x) = Ok ev"
    "opt_marshal 0x22 (Commit_Marshal e) (bp_LastCommit x) = Ok c" "bz = pb_msg 0x0a h @ pb_msg 0x12 (Data_Marshal (bp_Data x)) @ pb_msg 0x1a ev @ c"
    using a(1) by (auto simp: Block_Marshal_def)
  have r: "time_decodes e tu \<and> header_in_range (bp_Header x)" "data_fits (bp_Data x)" "time_decodes e tu \<and> (\<forall>ev \<in> set (bp_Evidence x). evidence_fits ev)"
    "\<And>c. bp_LastCommit x = Some c \<Longrightarrow> time_decodes e tu \<and> commit_fits c"
    using a(2) by (auto simp: block_fits_def)
  have l: "short h" "short (Data_Marshal (bp_Data x))" "short ev" "short c" using a(3) unfolding m(4) by (auto dest!: short_parts)
  note s = header.emb [OF _ _ m(1) _ r(1) l(1)] data.emb [where x = "bp_Data x", OF _ _ refl _ r(2) l(2)] evidence_list.emb [OF _ _ m(2) _ r(3) l(3)]
    commit.opt [where t = "0x22" and xs = "[]", OF _ _ m(3) _ _ r(4) l(4), unfolded append_Nil2 pb_unmarshal_Nil]
  show "Block_Unmarshal tu bz zero_BlockProto = Ok x"
    unfolding m(4) Block_Unmarshal_def zero_BlockProto_def by (simp add: s)
qed

end
