(* ===== verification/EvidenceWire.thy ===== *)
theory EvidenceWire
  imports BlockWireProps ValidatorUpdate
begin

text \<open>
  The way of evidence through its message: what \<open>EvidenceFromProto\<close> makes of the message \<open>EvidenceToProto\<close> has made
  is the same evidence, up to what the message does not carry. It has no cached hash of the conflicting commit, the
  total power and the mark for keys of one type are computed anew, and no byzantine validators are an empty list.
\<close>

section \<open>Values without a cache\<close>

lemma BlockIDFromProto_valid: "BlockID_ValidateBasic b = Ok () \<Longrightarrow> BlockIDFromProto (Some b) = Ok b"
  by (cases b; cases "bid_PartSetHeader b") (auto simp: BlockIDFromProto_def PartSetHeaderFromProto_def BlockID_ValidateBasic_def Let_def)

lemma Commit_ValidateBasic_hash [simp]: "Commit_ValidateBasic (c\<lparr>cm_hash := h\<rparr>) = Commit_ValidateBasic c"
  by (simp add: Commit_ValidateBasic_def)

lemma HeaderFromProto_valid: "Header_ValidateBasic h = Ok () \<Longrightarrow> HeaderFromProto (Header_ToProto (Some h)) = Ok h"
  using BlockIDFromProto_valid [of "h_LastBlockID h"]
  by (cases "BlockID_ValidateBasic (h_LastBlockID h)") (auto simp: HeaderFromProto_def Header_ToProto_def Header_ValidateBasic_def split: if_splits)

lemma CommitSig_FromProto_valid: "CommitSig_ValidateBasic s = Ok () \<Longrightarrow> CommitSig_FromProto s = Ok s"
  by (cases s) (auto simp: CommitSig_FromProto_def CommitSig_ValidateBasic_def split: if_splits)

lemma fold_out_check: "fold_out (\<lambda>x _. map_err g (f x)) xs () = Ok () \<longleftrightarrow> (\<forall>x \<in> set xs. f x = Ok ())"
proof (induction xs)
  case (Cons x xs)
  then show ?case by (cases "f x") auto
qed simp

text \<open>The commit for height 0 of a first block has no block and no signatures; \<open>ValidateBasic\<close> does not look at them.\<close>

definition commit_travels :: "Commit \<Rightarrow> bool" where
  "commit_travels c \<longleftrightarrow> length (cm_Signatures c) \<le> MaxVotesCount \<and>
     (cm_Height c = 0 \<longrightarrow> BlockID_ValidateBasic (cm_BlockID c) = Ok () \<and> cm_Signatures c = [])"

lemma CommitFromProto_valid:
  assumes "Commit_ValidateBasic c = Ok ()" "commit_travels c"
  shows "CommitFromProto (Commit_ToProto (Some c)) = Ok (c\<lparr>cm_hash := None\<rparr>)"
proof -
  have s: "BlockID_ValidateBasic (cm_BlockID c) = Ok ()" "\<forall>s \<in> set (cm_Signatures c). CommitSig_ValidateBasic s = Ok ()"
    using assms by (cases "cm_Height c = 0"; auto simp: Commit_ValidateBasic_def commit_travels_def fold_out_check split: if_splits)+
  have "(\<lambda>s. the (CommitSig_ToProto (Some s))) = (\<lambda>s. s)" by (simp add: fun_eq_iff CommitSig_ToProto_def)
  then have "map (\<lambda>s. the (CommitSig_ToProto (Some s))) xs = xs" for xs by simp
  moreover have "from_protos CommitSig_FromProto xs = Ok xs" if "\<forall>s \<in> set xs. CommitSig_ValidateBasic s = Ok ()" for xs
    using that by (induction xs) (auto simp: CommitSig_FromProto_valid)
  moreover have "Commit_ValidateBasic (c\<lparr>cm_hash := None\<rparr>) = Ok ()" using assms(1) by simp
  ultimately show ?thesis
    using assms(2) s BlockIDFromProto_valid [OF s(1)] by (cases c) (auto simp: CommitFromProto_def Commit_ToProto_def commit_travels_def)
qed

section \<open>Validators\<close>

definition key_travels :: "Validator \<Rightarrow> bool" where
  "key_travels v \<longleftrightarrow> (\<exists>pk. PubKey v = Some pk \<and> validatePubKeySize pk = Ok ())"

lemma Validator_ValidateBasic_key: "Validator_ValidateBasic cr (Some v) = Ok () \<Longrightarrow> key_travels v \<and> 0 \<le> VotingPower v"
  by (auto simp: Validator_ValidateBasic_def key_travels_def split: option.splits if_splits)

lemma ValidatorFromProto_ToProto:
  assumes "Validator_ToProto (Some v) = Ok p" "key_travels v"
  shows "ValidatorFromProto (Some p) = Ok v"
proof -
  obtain pk where "PubKey v = Some pk" "validatePubKeySize pk = Ok ()" using assms(2) by (auto simp: key_travels_def)
  then show ?thesis
    using assms(1) by (cases v; cases pk) (auto simp: Validator_ToProto_def ValidatorFromProto_def split: if_splits)
qed

lemma validators_back:
  assumes "from_protos (\<lambda>v. Validator_ToProto (Some v)) vs = Ok ps" "\<forall>v \<in> set vs. key_travels v"
  shows "from_protos (\<lambda>v. ValidatorFromProto (Some v)) ps = Ok vs"
  using assms
proof (induction vs arbitrary: ps)
  case (Cons v vs)
  then show ?case using ValidatorFromProto_ToProto by fastforce
qed simp

lemma pointers_back:
  assumes "from_protos Validator_ToProto vs = Ok ps" "\<forall>v. Some v \<in> set vs \<longrightarrow> key_travels v"
  shows "from_protos (\<lambda>v. map_out Some (ValidatorFromProto (Some v))) ps = Ok vs"
  using assms
proof (induction vs arbitrary: ps)
  case (Cons v vs)
  then obtain p ps' where p: "Validator_ToProto v = Ok p" "from_protos Validator_ToProto vs = Ok ps'" "ps = p # ps'" by auto
  then obtain w where "v = Some w" by (cases v) (auto simp: Validator_ToProto_def)
  then show ?case using ValidatorFromProto_ToProto [of w p] Cons p by simp
qed simp

definition wire_vals :: "ValidatorSet \<Rightarrow> ValidatorSet" where
  "wire_vals vals = vals\<lparr>totalVotingPower := power_sum (Validators vals), allKeysHaveSameType := (same_type_loop (Validators vals) [] = Ok True)\<rparr>"

lemma VS_ValidateBasic_Ok:
  assumes "VS_ValidateBasic cr (Some vals) = Ok ()"
  obtains p where "Validators vals \<noteq> []" "\<forall>v \<in> set (Validators vals). key_travels v \<and> 0 \<le> VotingPower v" "Proposer vals = Some p" "key_travels p"
proof -
  have "\<forall>v \<in> set (Validators vals). Validator_ValidateBasic cr (Some v) = Ok ()" "Validators vals \<noteq> []"
    using assms by (auto simp: VS_ValidateBasic_def fold_out_check split: if_splits)
  moreover obtain p where "Proposer vals = Some p" "Validator_ValidateBasic cr (Some p) = Ok ()"
    using assms by (cases "Proposer vals") (auto simp: VS_ValidateBasic_def split: if_splits)
  ultimately show thesis using that Validator_ValidateBasic_key by blast
qed

lemma VS_ValidateBasic_wire [simp]: "VS_ValidateBasic cr (Some (wire_vals vals)) = VS_ValidateBasic cr (Some vals)"
  by (cases "Proposer vals") (simp_all add: VS_ValidateBasic_def wire_vals_def)

lemma VS_Hash_wire [simp]: "VS_Hash cr (wire_vals vals) = VS_Hash cr vals"
  by (simp add: VS_Hash_def wire_vals_def)

lemma VS_ToProto_wire [simp]: "VS_ToProto (Some (wire_vals vals)) = VS_ToProto (Some vals)"
  by (simp add: VS_ToProto_def IsNilOrEmpty_def wire_vals_def)

lemma ValidatorSet_back:
  assumes "VS_ToProto (Some vals) = Ok p" "VS_ValidateBasic cr (Some vals) = Ok ()" "power_sum (Validators vals) \<le> MaxTotalVotingPower"
  shows "ValidatorSetFromProto cr (Some p) = Ok (wire_vals vals)"
proof -
  obtain q where v: "Validators vals \<noteq> []" "\<forall>v \<in> set (Validators vals). key_travels v \<and> 0 \<le> VotingPower v" "Proposer vals = Some q" "key_travels q"
    using assms(2) by (rule VS_ValidateBasic_Ok)
  obtain ps pq where p: "from_protos (\<lambda>v. Validator_ToProto (Some v)) (Validators vals) = Ok ps" "Validator_ToProto (Some q) = Ok pq"
      "p = \<lparr>vsp_Validators = ps, vsp_Proposer = Some pq, vsp_TotalVotingPower = 0\<rparr>"
    using assms(1) v(1,3) by (auto simp: VS_ToProto_def IsNilOrEmpty_def)
  have "keys_ok (Validators vals)" using v(2) by (auto simp: keys_ok_def key_travels_def)
  then obtain b where b: "same_type_loop (Validators vals) [] = Ok b" using same_type_loop_ok by (auto simp: is_Ok_iff)
  have "\<forall>v \<in> set (Validators vals). 0 \<le> VotingPower v \<and> VotingPower v \<le> MaxTotalVotingPower"
    using v(2) power_le_sum [of "Validators vals"] assms(3) by fastforce
  then have "fold_out (\<lambda>val s. sum_power s val) (Validators vals) 0 = Ok (power_sum (Validators vals))"
    using sum_power_fold [of "Validators vals" 0] assms(3) by simp
  moreover have "from_protos (\<lambda>v. ValidatorFromProto (Some v)) ps = Ok (Validators vals)" using validators_back [OF p(1)] v(2) by blast
  moreover have "ValidatorFromProto (Some pq) = Ok q" by (rule ValidatorFromProto_ToProto [OF p(2) v(4)])
  moreover have "wire_vals vals = \<lparr>Validators = Validators vals, Proposer = Some q, totalVotingPower = power_sum (Validators vals), allKeysHaveSameType = b\<rparr>"
    using b v(3) by (cases vals) (simp add: wire_vals_def)
  ultimately show ?thesis
    using assms(2) VS_ValidateBasic_wire [of cr vals] b p(3)
    by (simp add: ValidatorSetFromProto_def checkAllKeysHaveSameType_def TotalVotingPowerSafe_def updateTotalVotingPower_def)
qed

section \<open>Light blocks\<close>

definition wire_light :: "LightBlock \<Rightarrow> LightBlock" where
  "wire_light lb = \<lparr>lb_SignedHeader = map_option (\<lambda>sh. sh\<lparr>sh_Commit := map_option (cm_hash_update (\<lambda>_. None)) (sh_Commit sh)\<rparr>) (lb_SignedHeader lb),
     lb_ValidatorSet = map_option wire_vals (lb_ValidatorSet lb)\<rparr>"

definition light_travels :: "LightBlock \<Rightarrow> bool" where
  "light_travels lb \<longleftrightarrow>
     (\<forall>sh c. lb_SignedHeader lb = Some sh \<longrightarrow> sh_Commit sh = Some c \<longrightarrow> length (cm_Signatures c) \<le> MaxVotesCount) \<and>
     (\<forall>vals. lb_ValidatorSet lb = Some vals \<longrightarrow> power_sum (Validators vals) \<le> MaxTotalVotingPower)"

lemma LB_ValidateBasic_Ok:
  assumes "LB_ValidateBasic e lb chainID = Ok ()"
  obtains sh vals h c where "lb_SignedHeader lb = Some sh" "lb_ValidatorSet lb = Some vals" "VS_ValidateBasic (crypto e) (Some vals) = Ok ()"
    "sh_Header sh = Some h" "sh_Commit sh = Some c" "Header_ValidateBasic h = Ok ()" "Commit_ValidateBasic c = Ok ()" "cm_Height c = h_Height h"
proof -
  obtain sh vals where s: "lb_SignedHeader lb = Some sh" "lb_ValidatorSet lb = Some vals" "SH_ValidateBasic e sh chainID = Ok ()"
      "VS_ValidateBasic (crypto e) (Some vals) = Ok ()"
    using assms by (auto simp: LB_ValidateBasic_def split: option.splits)
  obtain h c where "sh_Header sh = Some h" "sh_Commit sh = Some c" "Header_ValidateBasic h = Ok ()" "Commit_ValidateBasic c = Ok ()" "cm_Height c = h_Height h"
    using s(3) by (auto simp: SH_ValidateBasic_def split: option.splits if_splits)
  then show thesis using that s by blast
qed

lemma SH_ValidateBasic_wire [simp]:
  "SH_ValidateBasic e (sh\<lparr>sh_Commit := map_option (cm_hash_update (\<lambda>_. None)) (sh_Commit sh)\<rparr>) chainID = SH_ValidateBasic e sh chainID"
  by (cases "sh_Commit sh"; cases "sh_Header sh") (simp_all add: SH_ValidateBasic_def)

lemma LB_ValidateBasic_wire [simp]: "LB_ValidateBasic e (wire_light lb) chainID = LB_ValidateBasic e lb chainID"
  by (cases "lb_SignedHeader lb"; cases "lb_ValidatorSet lb") (simp_all add: LB_ValidateBasic_def wire_light_def)

lemma Commit_ToProto_hash: "Commit_ToProto (map_option (cm_hash_update f) c) = Commit_ToProto c"
  by (cases c) (simp_all add: Commit_ToProto_def)

lemma LB_ToProto_wire [simp]: "LB_ToProto (wire_light lb) = LB_ToProto lb"
  by (cases "lb_ValidatorSet lb"; cases "lb_SignedHeader lb") (simp_all add: LB_ToProto_def wire_light_def SH_ToProto_def Commit_ToProto_hash)

lemma LightBlock_back:
  assumes "LB_ToProto lb = Ok p" "LB_ValidateBasic e lb chainID = Ok ()" "light_travels lb" "\<And>h. lb_hdr lb = Ok h \<Longrightarrow> 0 < h_Height h"
  shows "LightBlockFromProto (crypto e) (Some p) = Ok (wire_light lb)"
proof -
  obtain sh vals h c where s: "lb_SignedHeader lb = Some sh" "lb_ValidatorSet lb = Some vals" "VS_ValidateBasic (crypto e) (Some vals) = Ok ()"
      "sh_Header sh = Some h" "sh_Commit sh = Some c" "Header_ValidateBasic h = Ok ()" "Commit_ValidateBasic c = Ok ()" "cm_Height c = h_Height h"
    using assms(2) by (rule LB_ValidateBasic_Ok)
  have "0 < h_Height h" using assms(4) s(1,4) by (simp add: lb_hdr_def sh_hdr_def)
  then have "commit_travels c" using assms(3) s(1,5,8) by (simp add: light_travels_def commit_travels_def)
  then have c: "CommitFromProto (Commit_ToProto (Some c)) = Ok (c\<lparr>cm_hash := None\<rparr>)" by (rule CommitFromProto_valid [OF s(7)])
  obtain pv where pv: "VS_ToProto (Some vals) = Ok pv" "p = \<lparr>lbp_SignedHeader = SH_ToProto (Some sh), lbp_ValidatorSet = Some pv\<rparr>"
    using assms(1) s(1,2) by (auto simp: LB_ToProto_def)
  have "power_sum (Validators vals) \<le> MaxTotalVotingPower" using assms(3) s(2) by (simp add: light_travels_def)
  then have "ValidatorSetFromProto (crypto e) (Some pv) = Ok (wire_vals vals)" by (rule ValidatorSet_back [OF pv(1) s(3)])
  moreover obtain ch cc where "Header_ToProto (Some h) = Some ch" "Commit_ToProto (Some c) = Some cc"
    by (simp add: Header_ToProto_def Commit_ToProto_def)
  ultimately show ?thesis
    using c HeaderFromProto_valid [OF s(6)] s(1,2,4,5) pv(2)
    by (cases sh) (simp add: LightBlockFromProto_def SH_ToProto_def SignedHeaderFromProto_def wire_light_def)
qed

section \<open>Evidence\<close>

fun wire_evidence :: "Evidence \<Rightarrow> Evidence" where
  "wire_evidence (DuplicateVote d) = DuplicateVote d"
| "wire_evidence (LightClientAttack l) = LightClientAttack (l\<lparr>lca_ConflictingBlock := map_option wire_light (lca_ConflictingBlock l),
     lca_ByzantineValidators := Some (slice (lca_ByzantineValidators l))\<rparr>)"

text \<open>The limits a receiver checks and a sender does not: signatures, total power, and the size of the byzantine validators' keys.\<close>

fun evidence_travels :: "Evidence \<Rightarrow> bool" where
  "evidence_travels (DuplicateVote d) = True"
| "evidence_travels (LightClientAttack l) = ((\<forall>lb. lca_ConflictingBlock l = Some lb \<longrightarrow> light_travels lb) \<and>
     (\<forall>v. Some v \<in> set (slice (lca_ByzantineValidators l)) \<longrightarrow> key_travels v))"

lemma slice_Some [simp]: "slice (Some xs) = xs"
  by (simp add: slice_def)

lemma LCA_ValidateBasic_wire:
  "LCA_ValidateBasic e (l\<lparr>lca_ConflictingBlock := map_option wire_light (lca_ConflictingBlock l), lca_ByzantineValidators := x\<rparr>) = LCA_ValidateBasic e l"
proof (cases "lca_ConflictingBlock l")
  case (Some lb)
  then show ?thesis
    using LB_ValidateBasic_wire [of e lb] by (cases "lb_SignedHeader lb") (simp_all add: LCA_ValidateBasic_def wire_light_def split: option.split)
qed (simp add: LCA_ValidateBasic_def)

lemma Evidence_ValidateBasic_wire [simp]: "Evidence_ValidateBasic e (wire_evidence ev) = Evidence_ValidateBasic e ev"
  by (cases ev) (simp_all add: LCA_ValidateBasic_wire)

lemma Evidence_Bytes_wire [simp]: "Evidence_Bytes e (wire_evidence ev) = Evidence_Bytes e ev"
proof (cases ev)
  case (LightClientAttack l)
  then show ?thesis by (cases "lca_ConflictingBlock l") (simp_all add: LCA_Bytes_def LCA_ToProto_def)
qed simp

lemma EvidenceList_Hash_wire [simp]: "EvidenceList_Hash e (map wire_evidence evs) = EvidenceList_Hash e evs"
proof -
  have "from_protos (Evidence_Bytes e) (map wire_evidence evs) = from_protos (Evidence_Bytes e) evs" by (induction evs) simp_all
  then show ?thesis by (simp add: EvidenceList_Hash_def)
qed

lemma dve_vote_back: "Vote_ValidateBasic v = Ok () \<Longrightarrow> dve_vote_from_proto (Some v) = Ok (Some v)"
  using BlockIDFromProto_valid [of "v_BlockID v"]
  by (cases "BlockID_ValidateBasic (v_BlockID v)")
     (auto simp: dve_vote_from_proto_def VoteFromProto_def Vote_ValidateBasic_def split: if_splits)

lemma Evidence_back:
  assumes "EvidenceToProto (Some ev) = Ok p" "Evidence_ValidateBasic e ev = Ok ()" "evidence_travels ev"
  shows "EvidenceFromProto e (Some (Some p)) = Ok (wire_evidence ev)"
proof (cases ev)
  case (DuplicateVote d)
  obtain a b where v: "dve_VoteA d = Some a" "dve_VoteB d = Some b" "Vote_ValidateBasic a = Ok ()" "Vote_ValidateBasic b = Ok ()"
    using assms(2) DuplicateVote by (auto simp: DVE_ValidateBasic_def split: option.splits)
  moreover have "DVE_ValidateBasic (Some d) = Ok ()" using assms(2) DuplicateVote by simp
  ultimately show ?thesis
    using assms(1) DuplicateVote by (cases d) (auto simp: EvidenceToProto_def EvidenceFromProto_def DVE_ToProto_def DuplicateVoteEvidenceFromProto_def dve_vote_back)
next
  case (LightClientAttack l)
  obtain lb h where lb: "lca_ConflictingBlock l = Some lb" "lb_hdr lb = Ok h" "LB_ValidateBasic e lb (h_ChainID h) = Ok ()"
      "0 < lca_CommonHeight l" "lca_CommonHeight l \<le> h_Height h"
    using assms(2) LightClientAttack by (auto simp: LCA_ValidateBasic_def lb_hdr_def sh_hdr_def split: option.splits if_splits)
  obtain plb pvs where q: "LB_ToProto lb = Ok plb" "from_protos Validator_ToProto (slice (lca_ByzantineValidators l)) = Ok pvs"
      "p = Evidence_LightClientAttack \<lparr>lcap_ConflictingBlock = Some plb, lcap_CommonHeight = lca_CommonHeight l, lcap_ByzantineValidators = pvs,
         lcap_TotalVotingPower = lca_TotalVotingPower l, lcap_Timestamp = lca_Timestamp l\<rparr>"
    using assms(1) LightClientAttack lb(1) by (auto simp: EvidenceToProto_def LCA_ToProto_def)
  have "LightBlockFromProto (crypto e) (Some plb) = Ok (wire_light lb)"
    using LightBlock_back [OF q(1) lb(3)] assms(3) LightClientAttack lb by simp
  moreover have "from_protos (\<lambda>v. map_out Some (ValidatorFromProto (Some v))) pvs = Ok (slice (lca_ByzantineValidators l))"
    using pointers_back [OF q(2)] assms(3) LightClientAttack by simp
  moreover have "LCA_ValidateBasic e (l\<lparr>lca_ConflictingBlock := Some (wire_light lb), lca_ByzantineValidators := Some (slice (lca_ByzantineValidators l))\<rparr>) = Ok ()"
    using LCA_ValidateBasic_wire [where e = e and l = l] assms(2) LightClientAttack lb(1) by simp
  ultimately show ?thesis
    using q(3) LightClientAttack lb(1) by (cases l) (simp add: EvidenceFromProto_def LightClientAttackEvidenceFromProto_def)
qed

end
