(* ===== verification/BlockProps.thy ===== *)
theory BlockProps
  imports Block EvidenceWire PartSetProps SignerSafety BlobTxProps
begin

text \<open>A hash computed again is the cached one; the positions of the transactions; the way of a block to its receivers.\<close>

section \<open>Cached hashes\<close>

lemma Commit_Hash_again: "Commit_Hash e lc = Ok (h, lc') \<Longrightarrow> Commit_Hash e lc' = Ok (h, lc')"
  by (auto simp: Commit_Hash_def split: option.splits)

lemma Data_Hash_again: "Data_Hash te hf d = Ok (h, d') \<Longrightarrow> Data_Hash te hf d' = Ok (h, d')"
  by (auto simp: Data_Hash_def split: option.splits)

lemma EvidenceData_Hash_again: "EvidenceData_Hash e d = Ok (h, d') \<Longrightarrow> EvidenceData_Hash e d' = Ok (h, d')"
  by (auto simp: EvidenceData_Hash_def split: option.splits)

lemma fillHeader_again:
  assumes "fillHeader te e b = Ok b'"
  shows "fillHeader te e b' = Ok b'"
proof -
  obtain lh lc dh d eh ed where f:
    "(if h_LastCommitHash (b_Header b) = [] then Commit_Hash e (b_LastCommit b) else Ok (h_LastCommitHash (b_Header b), b_LastCommit b)) = Ok (lh, lc)"
    "(if h_DataHash (b_Header b) = [] then Data_Hash te (sha (crypto e)) (b_Data b) else Ok (h_DataHash (b_Header b), b_Data b)) = Ok (dh, d)"
    "(if h_EvidenceHash (b_Header b) = [] then EvidenceData_Hash e (b_Evidence b) else Ok (h_EvidenceHash (b_Header b), b_Evidence b)) = Ok (eh, ed)"
    "b' = b\<lparr>b_Header := (b_Header b)\<lparr>h_LastCommitHash := lh, h_DataHash := dh, h_EvidenceHash := eh\<rparr>, b_LastCommit := lc, b_Data := d, b_Evidence := ed\<rparr>"
    using assms by (auto simp: fillHeader_def simp del: if_split_asm)
  have "lh = [] \<Longrightarrow> Commit_Hash e lc = Ok (lh, lc)" "dh = [] \<Longrightarrow> Data_Hash te (sha (crypto e)) d = Ok (dh, d)" "eh = [] \<Longrightarrow> EvidenceData_Hash e ed = Ok (eh, ed)"
    using f(1-3) Commit_Hash_again Data_Hash_again EvidenceData_Hash_again by (auto split: if_splits)
  then show ?thesis unfolding f(4) by (simp add: fillHeader_def)
qed

lemma Commit_Hash_None: "Commit_Hash e lc = Ok (h, lc') \<Longrightarrow> lc' = None \<longleftrightarrow> lc = None"
  by (auto simp: Commit_Hash_def split: option.splits)

lemma fillHeader_kept:
  assumes "fillHeader te e b = Ok b'"
  shows "b_verifiedHash b' = b_verifiedHash b \<and> (b_LastCommit b' = None \<longleftrightarrow> b_LastCommit b = None)"
proof -
  obtain lh lc where "(if h_LastCommitHash (b_Header b) = [] then Commit_Hash e (b_LastCommit b) else Ok (h_LastCommitHash (b_Header b), b_LastCommit b)) = Ok (lh, lc)"
    "b_verifiedHash b' = b_verifiedHash b" "b_LastCommit b' = lc"
    using assms by (auto simp: fillHeader_def)
  then show ?thesis using Commit_Hash_None by (auto split: if_splits)
qed

lemma Block_Hash_again:
  assumes "Block_Hash te e blk = Ok (h, blk')"
  shows "Block_Hash te e blk' = Ok (h, blk')"
proof (cases "\<exists>b. blk = Some b \<and> b_LastCommit b \<noteq> None \<and> b_verifiedHash b = []")
  case True
  then obtain b where b: "blk = Some b" "b_LastCommit b \<noteq> None" "b_verifiedHash b = []" by blast
  then obtain a where a: "fillHeader te e b = Ok a" "Header_Hash e (Some (b_Header a)) = Ok h" "blk' = Some (a\<lparr>b_verifiedHash := h\<rparr>)"
    using assms by (auto simp: Block_Hash_def)
  have l: "b_LastCommit a \<noteq> None" "b_verifiedHash a = []" using fillHeader_kept [OF a(1)] b(2,3) by auto
  show ?thesis
  proof (cases "h = []")
    case True
    then have "blk' = Some a" using a(3) l(2) by (cases a) simp
    then show ?thesis using a(2) l fillHeader_again [OF a(1)] True by (auto simp: Block_Hash_def)
  qed (use a(3) l(1) in \<open>auto simp: Block_Hash_def\<close>)
qed (use assms in \<open>auto simp: Block_Hash_def split: option.splits if_splits\<close>)

section \<open>Positions of the transactions\<close>

lemma readVarint_uvarint: "n < 2 ^ 64 \<Longrightarrow> readVarint (uvarint n @ xs) = Ok (of_nat n, int (length (uvarint n)))"
  using ReadUvarint_uvarint [of n 0 0 xs] by (simp add: readVarint_def)

lemma readVarint_byte: "t < 0x80 \<Longrightarrow> readVarint (t # xs) = Ok (ucast t, 1)"
  by (simp add: readVarint_def)

lemma slice_from_append [simp]: "slice_from (pre @ xs) (int (length pre)) = Ok xs"
  by (simp add: slice_from_def subslice_def)

lemma slice_at: "b = pre @ xs \<Longrightarrow> n = int (length pre) \<Longrightarrow> slice_from b n = Ok xs"
  by simp

lemma subslice_at: "b = pre @ d @ rest \<Longrightarrow> n = length pre \<Longrightarrow> subslice b (int n) (int (n + length d)) = Ok d \<and> take (length d) (drop n b) = d"
  by (simp add: subslice_def)

lemma safeAddUint32_nat: "m + n < 4294967296 \<Longrightarrow> safeAddUint32 (int m) (int n) = Ok (int (m + n))"
  by (simp add: safeAddUint32_def)

lemma uint_len: "n < 4294967296 \<Longrightarrow> uint (ucast (of_nat n :: uint64) :: 32 word) = int n"
  using uint_u32 [of "int n"] by (simp add: is_u32_def to_uint64_def)

lemma position_tx:
  assumes "content = pre @ pb_msg 0x0a tx @ suf" "off + length content < 4294967296" "i < length pos"
  shows "position_loop (Suc k) content (int off) (int (length pre)) i pos =
    position_loop k content (int off) (int (length (pre @ pb_msg 0x0a tx))) (Suc i)
      (pos[i := \<lparr>tp_Start = int (off + length pre), tp_End = int (off + length (pre @ pb_msg 0x0a tx))\<rparr>])"
proof -
  let ?u = "uvarint (length tx)"
  have c: "content = (pre @ [0x0a]) @ ?u @ tx @ suf" "content = pre @ 0x0a # ?u @ tx @ suf" using assms(1) by (simp_all add: pb_msg_def)
  have l: "length content = length pre + 1 + length ?u + length tx + length suf" unfolding c(1) by simp
  have s: "slice_from content (int (length pre)) = Ok (0x0a # ?u @ tx @ suf)" "slice_from content (int (Suc (length pre))) = Ok (?u @ tx @ suf)"
    using slice_from_append [of pre "0x0a # ?u @ tx @ suf"] slice_from_append [of "pre @ [0x0a]" "?u @ tx @ suf"] c by simp_all
  have r: "readVarint (?u @ tx @ suf) = Ok (of_nat (length tx), int (length ?u))" using assms(2) l by (intro readVarint_uvarint) simp
  have a: "safeAddUint32 (int (length pre)) 1 = Ok (int (Suc (length pre)))"
    "safeAddUint32 (int (Suc (length pre))) (u32 (int (length ?u))) = Ok (int (Suc (length pre + length ?u)))"
    "safeAddUint32 (int (Suc (length pre + length ?u))) (uint (ucast (of_nat (length tx) :: uint64) :: 32 word)) = Ok (int (length pre + length (pb_msg 0x0a tx)))"
    "safeAddUint32 (u32 (int off)) (int (length pre)) = Ok (int (off + length pre))"
    "safeAddUint32 (u32 (int off)) (int (length pre + length (pb_msg 0x0a tx))) = Ok (int (off + (length pre + length (pb_msg 0x0a tx))))"
    using assms(2) l by (simp_all add: u32_nat uint_len safeAddUint32_def pb_msg_def)
  have o: "int (length pre) < u32 (int (length content))" using assms(2) l by (simp add: u32_nat)
  show ?thesis using assms(3) by (simp add: o s r a readVarint_byte Let_def del: of_nat_add of_nat_Suc)
qed

lemma position_txs:
  assumes "content = pre @ concat (map (pb_msg 0x0a) txs) @ suf" "off + length content < 4294967296" "length pos = i + length txs"
  shows "\<exists>ps. position_loop (k + length txs) content (int off) (int (length pre)) i pos =
      position_loop k content (int off) (int (length (pre @ concat (map (pb_msg 0x0a) txs)))) (i + length txs) (take i pos @ ps) \<and> length ps = length txs \<and>
    (\<forall>j < length txs. \<exists>a. ps ! j = \<lparr>tp_Start = int (off + a), tp_End = int (off + a + length (pb_msg 0x0a (txs ! j)))\<rparr> \<and> take (length (pb_msg 0x0a (txs ! j))) (drop a content) = pb_msg 0x0a (txs ! j))"
  using assms
proof (induction txs arbitrary: pre i pos)
  case Nil
  then show ?case by (auto intro!: exI [of _ "[]"])
next
  case (Cons tx txs)
  let ?p = "\<lparr>tp_Start = int (off + length pre), tp_End = int (off + length (pre @ pb_msg 0x0a tx))\<rparr>"
  let ?pos = "pos[i := ?p]"
  have i: "i < length pos" using Cons.prems(3) by simp
  have t: "take (Suc i) ?pos = take i pos @ [?p]" using i by (simp add: take_Suc_conv_app_nth)
  have c: "content = (pre @ pb_msg 0x0a tx) @ concat (map (pb_msg 0x0a) txs) @ suf" using Cons.prems(1) by simp
  have "length ?pos = Suc i + length txs" using Cons.prems(3) by simp
  from Cons.IH [OF c Cons.prems(2) this] obtain ps where ps: "position_loop (k + length txs) content (int off) (int (length (pre @ pb_msg 0x0a tx))) (Suc i) ?pos =
      position_loop k content (int off) (int (length ((pre @ pb_msg 0x0a tx) @ concat (map (pb_msg 0x0a) txs)))) (Suc i + length txs) (take (Suc i) ?pos @ ps)" "length ps = length txs"
    "\<forall>j < length txs. \<exists>a. ps ! j = \<lparr>tp_Start = int (off + a), tp_End = int (off + a + length (pb_msg 0x0a (txs ! j)))\<rparr> \<and> take (length (pb_msg 0x0a (txs ! j))) (drop a content) = pb_msg 0x0a (txs ! j)"
    by blast
  have "position_loop (k + length (tx # txs)) content (int off) (int (length pre)) i pos = position_loop (k + length txs) content (int off) (int (length (pre @ pb_msg 0x0a tx))) (Suc i) ?pos"
    using position_tx [of content pre tx "concat (map (pb_msg 0x0a) txs) @ suf" off i pos "k + length txs"] Cons.prems(1,2) i by simp
  also note ps(1)
  finally show ?case
    unfolding t
  proof (intro exI [of _ "?p # ps"] conjI allI impI)
    fix j assume "j < length (tx # txs)"
    then show "\<exists>a. (?p # ps) ! j = \<lparr>tp_Start = int (off + a), tp_End = int (off + a + length (pb_msg 0x0a ((tx # txs) ! j)))\<rparr> \<and>
        take (length (pb_msg 0x0a ((tx # txs) ! j))) (drop a content) = pb_msg 0x0a ((tx # txs) ! j)"
      using ps(3) Cons.prems(1) by (cases j) (auto intro!: exI [of _ "length pre"])
  qed (use ps(2) in simp_all)
qed

lemma position_size:
  assumes "content = pre @ 0x28 # uvarint v @ suf" "length content < 4294967296" "v < 2 ^ 64"
  shows "position_loop (Suc k) content off (int (length pre)) i pos = position_loop k content off (int (length (pre @ 0x28 # uvarint v))) i pos"
proof -
  have l: "length content = Suc (length pre + length (uvarint v) + length suf)" using assms(1) by simp
  have s: "slice_from content (int (length pre)) = Ok (0x28 # uvarint v @ suf)" "slice_from content (int (Suc (length pre))) = Ok (uvarint v @ suf)"
    using slice_from_append [of pre "0x28 # uvarint v @ suf"] slice_from_append [of "pre @ [0x28]" "uvarint v @ suf"] assms(1) by simp_all
  have a: "safeAddUint32 (int (length pre)) 1 = Ok (int (Suc (length pre)))"
    "safeAddUint32 (int (Suc (length pre))) (u32 (int (length (uvarint v)))) = Ok (int (Suc (length pre + length (uvarint v))))"
    using assms(2) l by (simp_all add: u32_nat safeAddUint32_def)
  have o: "int (length pre) < u32 (int (length content))" using assms(2) l by (simp add: u32_nat)
  show ?thesis by (simp add: o s a readVarint_byte readVarint_uvarint [OF assms(3)] Let_def del: of_nat_add of_nat_Suc)
qed

lemma position_hash:
  assumes "content = pre @ pb_msg 0x32 h @ suf" "length content < 4294967296"
  shows "position_loop (Suc k) content off (int (length pre)) i pos = position_loop k content off (int (length (pre @ pb_msg 0x32 h))) i pos"
proof -
  let ?u = "uvarint (length h)"
  have c: "content = (pre @ [0x32]) @ ?u @ h @ suf" "content = pre @ 0x32 # ?u @ h @ suf" using assms(1) by (simp_all add: pb_msg_def)
  have l: "length content = length pre + 1 + length ?u + length h + length suf" unfolding c(1) by simp
  have s: "slice_from content (int (length pre)) = Ok (0x32 # ?u @ h @ suf)" "slice_from content (int (Suc (length pre))) = Ok (?u @ h @ suf)"
    using slice_from_append [of pre "0x32 # ?u @ h @ suf"] slice_from_append [of "pre @ [0x32]" "?u @ h @ suf"] c by simp_all
  have r: "readVarint (?u @ h @ suf) = Ok (of_nat (length h), int (length ?u))" using assms(2) l by (intro readVarint_uvarint) simp
  have a: "safeAddUint32 (int (length pre)) 1 = Ok (int (Suc (length pre)))"
    "safeAddUint32 (int (Suc (length pre))) (u32 (int (length ?u))) = Ok (int (Suc (length pre + length ?u)))"
    "safeAddUint32 (int (Suc (length pre + length ?u))) (uint (ucast (of_nat (length h) :: uint64) :: 32 word)) = Ok (int (length pre + length (pb_msg 0x32 h)))"
    using assms(2) l by (simp_all add: u32_nat uint_len safeAddUint32_def pb_msg_def)
  have o: "int (length pre) < u32 (int (length content))" using assms(2) l by (simp add: u32_nat)
  show ?thesis by (simp add: o s r a readVarint_byte Let_def del: of_nat_add of_nat_Suc)
qed

lemma position_end: "length content < 4294967296 \<Longrightarrow> position_loop (Suc k) content off (int (length content)) i pos = Ok pos"
  by (simp add: u32_nat)

lemma position_tail:
  assumes "content = pre @ pb_varint 0x28 v @ pb_bytes 0x32 h" "length content < 4294967296" "v < 2 ^ 64" "length content - length pre < k"
  shows "position_loop k content off (int (length pre)) i pos = Ok pos"
proof -
  have hash: "position_loop k content off (int (length pre)) i pos = Ok pos" if more: "content = pre @ pb_bytes 0x32 h" "length content - length pre < k" for k pre
  proof (cases "h = []")
    case True
    then show ?thesis using more position_end [OF assms(2)] by (cases k) (auto simp: pb_bytes_def)
  next
    case False
    then have c: "content = pre @ pb_msg 0x32 h" using more(1) by (simp add: pb_bytes_def)
    obtain k' where k: "k = Suc (Suc k')" using more(2) unfolding c by (cases k; cases "k - 1") (auto simp: pb_msg_def)
    show ?thesis using position_hash [of content pre h "[]" "Suc k'"] position_end [OF assms(2)] c assms(2) unfolding k by simp
  qed
  show ?thesis
  proof (cases "v = 0")
    case False
    then have c: "content = pre @ 0x28 # uvarint v @ pb_bytes 0x32 h" using assms(1) by (simp add: pb_varint_def)
    obtain k' where k: "k = Suc k'" using assms(4) by (cases k) auto
    have "length content - length (pre @ 0x28 # uvarint v) < k'" using assms(4) unfolding k c by simp
    then show ?thesis using position_size [OF c assms(2,3)] hash [of "pre @ 0x28 # uvarint v" k'] c unfolding k by simp
  qed (use assms hash in \<open>simp add: pb_varint_def\<close>)
qed

lemma find_data:
  assumes "b = pb_msg 0x0a h @ pb_msg 0x12 d @ rest" "length b < 4294967296"
  shows "\<exists>off. findField b 2 = Ok (int off, int (off + length d), d) \<and> off + length d \<le> length b \<and> take (length d) (drop off b) = d"
proof -
  let ?h = "uvarint (length h)" and ?d = "uvarint (length d)"
  let ?p = "pb_msg 0x0a h"
  define off where "off = length ?p + 1 + length ?d"
  have l: "length b = off + length d + length rest" "off + length d + length rest < 4294967296" using assms by (simp_all add: pb_msg_def off_def)
  have b: "b = 0x0a # ?h @ h @ pb_msg 0x12 d @ rest" "b = [0x0a] @ ?h @ h @ pb_msg 0x12 d @ rest" "b = ?p @ 0x12 # ?d @ d @ rest" "b = (?p @ [0x12]) @ ?d @ d @ rest"
    "b = (?p @ 0x12 # ?d) @ d @ rest"
    using assms(1) by (simp_all add: pb_msg_def)
  have s: "slice_from b 0 = Ok (0x0a # ?h @ h @ pb_msg 0x12 d @ rest)" "slice_from b 1 = Ok (?h @ h @ pb_msg 0x12 d @ rest)"
    "slice_from b (int (length ?p)) = Ok (0x12 # ?d @ d @ rest)" "slice_from b (int (Suc (length ?p))) = Ok (?d @ d @ rest)"
    by (rule slice_at [where pre = "[]"], simp add: b(1), simp, rule slice_at [OF b(2)], simp, rule slice_at [OF b(3)], simp, rule slice_at [OF b(4)], simp)
  have n: "length h < 4294967296" "length d < 4294967296" "length ?p < 4294967296" using l(2) by (simp_all add: off_def pb_msg_def)
  have r: "readVarint (?h @ xs) = Ok (of_nat (length h), int (length ?h))" "readVarint (?d @ xs) = Ok (of_nat (length d), int (length ?d))" for xs
    using n by (simp_all add: readVarint_uvarint)
  have i: "sint (of_nat (length h) :: uint64) = int (length h)" "sint (of_nat (length d) :: uint64) = int (length d)"
    using n by (simp_all add: signed_of_nat signed_take_bit_int_eq_self)
  have j: "i64 1 = 1" "i64 (1 + int (length ?h)) = 1 + int (length ?h)" "i64 (1 + int (length ?h) + int (length h)) = int (length ?p)" "i64 (int (length ?p) + 1) = int (Suc (length ?p))"
    "i64 (int (Suc (length ?p)) + int (length ?d)) = int off" "i64 (int off + int (length d)) = int (off + length d)"
    using l(2) by (simp_all add: off_def pb_msg_def is_i64_def)
  obtain k where k: "length b = Suc k" using b(1) by (cases "length b") auto
  have t: "subslice b (int off) (int (off + length d)) = Ok d" "take (length d) (drop off b) = d"
    using subslice_at [OF b(5), of off] by (simp_all add: off_def)
  have o: "int (length ?p) < int (length b)" using b(3) by simp
  have f: "find_loop (Suc k) b 2 (int (length ?p)) = Ok (int off, int (off + length d), d)"
    using l(1) o by (simp add: s r i j t readVarint_byte Let_def del: of_nat_add of_nat_Suc)
  have "findField b 2 = find_loop (Suc k) b 2 (int (length ?p))"
    unfolding findField_def k using o by (subst find_loop.simps) (auto simp add: s r i j readVarint_byte Let_def simp del: find_loop.simps of_nat_add of_nat_Suc)
  then show ?thesis using f t(2) l(1) by auto
qed

lemma tx_positions_exist:
  assumes "Block_Marshal e m = Ok bz" "length bz < 4294967296"
  shows "\<exists>pos. MarshalBlockWithTxPositions e m (length (dp_Txs (bp_Data m))) = Ok (bz, pos) \<and> length pos = length (dp_Txs (bp_Data m)) \<and>
    (\<forall>i < length pos. subslice bz (tp_Start (pos ! i)) (tp_End (pos ! i)) = Ok (pb_msg 0x0a (dp_Txs (bp_Data m) ! i)))"
proof -
  let ?txs = "dp_Txs (bp_Data m)" and ?d = "Data_Marshal (bp_Data m)" and ?v = "to_uint64 (dp_SquareSize (bp_Data m))"
  obtain h rest where "bz = pb_msg 0x0a h @ pb_msg 0x12 ?d @ rest" using assms(1) by (auto simp: Block_Marshal_def)
  then obtain off where off: "findField bz 2 = Ok (int off, int (off + length ?d), ?d)" "off + length ?d \<le> length bz" "take (length ?d) (drop off bz) = ?d"
    using find_data assms(2) by blast
  define tail where "tail = pb_varint 0x28 ?v @ pb_bytes 0x32 (case dp_Hash (bp_Data m) of None \<Rightarrow> [] | Some h \<Rightarrow> h)"
  have d: "?d = [] @ concat (map (pb_msg 0x0a) ?txs) @ tail" by (simp add: Data_Marshal_def tail_def)
  have l: "length ?txs \<le> length (concat (map (pb_msg 0x0a) ?txs))" by (induction ?txs) (auto simp: pb_msg_def length_concat comp_def sum_list_Suc)
  define k where "k = Suc (length ?d) - length ?txs"
  have k: "Suc (length ?d) = k + length ?txs" "length ?d - length (concat (map (pb_msg 0x0a) ?txs)) < k" using l by (simp_all add: k_def d)
  obtain ps where ps: "position_loop (k + length ?txs) ?d (int off) (int (length ([] :: bytes))) 0 (replicate (length ?txs) \<lparr>tp_Start = 0, tp_End = 0\<rparr>) =
      position_loop k ?d (int off) (int (length ([] @ concat (map (pb_msg 0x0a) ?txs)))) (0 + length ?txs) (take 0 (replicate (length ?txs) \<lparr>tp_Start = 0, tp_End = 0\<rparr>) @ ps)"
    "length ps = length ?txs"
    "\<forall>j < length ?txs. \<exists>a. ps ! j = \<lparr>tp_Start = int (off + a), tp_End = int (off + a + length (pb_msg 0x0a (?txs ! j)))\<rparr> \<and>
      take (length (pb_msg 0x0a (?txs ! j))) (drop a ?d) = pb_msg 0x0a (?txs ! j)"
    using position_txs [OF d, of off "replicate (length ?txs) \<lparr>tp_Start = 0, tp_End = 0\<rparr>" 0 k] off(2) assms(2) by auto
  have "position_loop k ?d (int off) (int (length (concat (map (pb_msg 0x0a) ?txs)))) (length ?txs) ps = Ok ps"
    using d tail_def off(2) assms(2) k(2) to_uint64_bound by (intro position_tail) simp_all
  with ps(1) have "MarshalBlockWithTxPositions e m (length ?txs) = Ok (bz, ps)"
    using assms(1) off(1) k(1) by (simp add: MarshalBlockWithTxPositions_def del: position_loop.simps)
  moreover have "subslice bz (tp_Start (ps ! i)) (tp_End (ps ! i)) = Ok (pb_msg 0x0a (?txs ! i))" if i: "i < length ps" for i
  proof -
    let ?f = "pb_msg 0x0a (?txs ! i)"
    obtain a where a: "ps ! i = \<lparr>tp_Start = int (off + a), tp_End = int (off + a + length ?f)\<rparr>" "take (length ?f) (drop a ?d) = ?f"
      using ps(3) [rule_format, of i] i ps(2) by metis
    have n: "a + length ?f \<le> length ?d" using arg_cong [OF a(2), of length] by (simp add: min_def pb_msg_def split: if_splits)
    have "?f = take (length ?f) (drop a (take (length ?d) (drop off bz)))" using a(2) off(3) by simp
    also have "\<dots> = take (length ?f) (drop (off + a) bz)" using n by (simp add: drop_take min_def add.commute)
    finally show ?thesis using a(1) n off(2) by (simp add: subslice_def nat_add_distrib)
  qed
  ultimately show ?thesis using ps(2) by blast
qed

text \<open>C33. The positions that go with an encoded block are those of its transactions: they are computed without an error or a
  panic, there is one for each transaction, and the bytes of the block between its bounds are the field of that
  transaction.\<close>

theorem tx_positions:
  assumes "Block_Marshal e m = Ok bz" "length bz < 4294967296"
  shows "\<exists>pos. MarshalBlockWithTxPositions e m (length (dp_Txs (bp_Data m))) = Ok (bz, pos) \<and> length pos = length (dp_Txs (bp_Data m)) \<and>
    (\<forall>i < length pos. subslice bz (tp_Start (pos ! i)) (tp_End (pos ! i)) = Ok (pb_msg 0x0a (dp_Txs (bp_Data m) ! i)))"
  by (rule tx_positions_exist [OF assms])

section \<open>The way of a block\<close>

lemma Block_Marshal_not_Nil: "Block_Marshal e m = Ok bz \<Longrightarrow> bz \<noteq> []"
  by (auto simp: Block_Marshal_def pb_msg_def)

lemma MakePartSet_data:
  assumes "Block_ToProto (Some b) = Ok pbb" "Block_Marshal e pbb = Ok bz" "length bz < 4294967296"
  shows "\<exists>pos. MakePartSet e numCPU order (Some b) p = map_out (\<lambda>ops. (ops, pos)) (NewPartSetFromData (sha (crypto e)) numCPU order bz p)"
proof -
  have "dp_Txs (bp_Data pbb) = d_Txs (b_Data b)" using assms(1) by (auto simp: Block_ToProto_def Data_ToProto_def)
  then show ?thesis using tx_positions_exist [OF assms(2,3)] assms(1) by (auto simp: MakePartSet_def)
qed

text \<open>
  The block as a receiver builds it. The message has the hash of the data, and the size of the evidence is known; no other hash
  is cached, and the evidence is without its caches too.
\<close>

definition received_block :: "Block \<Rightarrow> int \<Rightarrow> Block" where
  "received_block b n = b\<lparr>b_verifiedHash := [], b_Evidence := \<lparr>ed_Evidence = map wire_evidence (ed_Evidence (b_Evidence b)), ed_hash = None, ed_byteSize = n\<rparr>,
     b_LastCommit := map_option (\<lambda>c. c\<lparr>cm_hash := None\<rparr>) (b_LastCommit b), b_cachedHashes := []\<rparr>"

text \<open>A hash that the sender has cached is the one it would compute.\<close>

definition caches_ok :: "env \<Rightarrow> Block \<Rightarrow> bool" where
  "caches_ok e b \<longleftrightarrow>
     (\<forall>c h. b_LastCommit b = Some c \<longrightarrow> cm_hash c = Some h \<longrightarrow> map_out fst (Commit_Hash e (Some (c\<lparr>cm_hash := None\<rparr>))) = Ok h) \<and>
     (\<forall>h. ed_hash (b_Evidence b) = Some h \<longrightarrow> EvidenceList_Hash e (ed_Evidence (b_Evidence b)) = Ok h)"

lemma Block_ValidateBasic_iff:
  "Block_ValidateBasic te e (Some b) = Ok () \<longleftrightarrow> Header_ValidateBasic (b_Header b) = Ok () \<and>
     (\<exists>c. b_LastCommit b = Some c \<and> Commit_ValidateBasic c = Ok () \<and> map_out fst (Commit_Hash e (Some c)) = Ok (h_LastCommitHash (b_Header b))) \<and>
     map_out fst (Data_Hash te (sha (crypto e)) (b_Data b)) = Ok (h_DataHash (b_Header b)) \<and>
     (\<forall>ev \<in> set (ed_Evidence (b_Evidence b)). Evidence_ValidateBasic e ev = Ok ()) \<and>
     map_out fst (EvidenceData_Hash e (b_Evidence b)) = Ok (h_EvidenceHash (b_Header b))"
proof -
  have [simp]: "(\<exists>x. r = Ok x \<and> (case x of (h, y) \<Rightarrow> Q h y)) \<longleftrightarrow> (\<exists>h y. r = Ok (h, y) \<and> Q h y)" for r :: "('a \<times> 'b) result" and Q by auto
  show ?thesis
    unfolding Block_ValidateBasic_def by (auto simp: fold_out_check split: option.splits if_splits)
qed

lemma received_valid:
  assumes "Block_ValidateBasic te e (Some b) = Ok ()" "caches_ok e b"
  shows "Block_ValidateBasic te e (Some (received_block b n)) = Ok ()"
proof -
  note v = assms(1) [unfolded Block_ValidateBasic_iff]
  obtain c where c: "b_LastCommit b = Some c" "Commit_ValidateBasic c = Ok ()" "map_out fst (Commit_Hash e (Some c)) = Ok (h_LastCommitHash (b_Header b))"
    using v by blast
  have "map_out fst (Commit_Hash e (Some (c\<lparr>cm_hash := None\<rparr>))) = Ok (h_LastCommitHash (b_Header b))"
  proof (cases "cm_hash c")
    case None
    then have "c\<lparr>cm_hash := None\<rparr> = c" by (cases c) simp
    then show ?thesis using c(3) by simp
  next
    case (Some h)
    then show ?thesis using c(1,3) assms(2) by (simp add: caches_ok_def Commit_Hash_def)
  qed
  moreover have "EvidenceList_Hash e (ed_Evidence (b_Evidence b)) = Ok (h_EvidenceHash (b_Header b))"
  proof (cases "ed_hash (b_Evidence b)")
    case None
    then show ?thesis using v by (auto simp: EvidenceData_Hash_def)
  next
    case (Some h)
    then show ?thesis using v assms(2) by (simp add: caches_ok_def EvidenceData_Hash_def)
  qed
  ultimately show ?thesis
    using v c(1,2) unfolding Block_ValidateBasic_iff by (simp add: received_block_def EvidenceData_Hash_def)
qed

lemma evidence_back:
  assumes "from_protos (\<lambda>ev. map_out Some (EvidenceToProto (Some ev))) evs = Ok ps" "\<forall>ev \<in> set evs. Evidence_ValidateBasic e ev = Ok () \<and> evidence_travels ev"
  shows "from_protos (\<lambda>p. EvidenceFromProto e (Some p)) ps = Ok (map wire_evidence evs)"
  using assms
proof (induction evs arbitrary: ps)
  case (Cons ev evs)
  then obtain p qs where "EvidenceToProto (Some ev) = Ok p" "from_protos (\<lambda>ev. map_out Some (EvidenceToProto (Some ev))) evs = Ok qs" "ps = Some p # qs" by auto
  then show ?case using Evidence_back [of ev p e] Cons by simp
qed simp

lemma BlockFromProto_ToProto:
  assumes "Block_ToProto (Some b) = Ok pbb" "EvidenceList_Size e (bp_Evidence pbb) = Ok n" "Block_ValidateBasic te e (Some b) = Ok ()" "caches_ok e b"
    "\<forall>c. b_LastCommit b = Some c \<longrightarrow> commit_travels c" "\<forall>ev \<in> set (ed_Evidence (b_Evidence b)). evidence_travels ev"
  shows "BlockFromProto te e (Some pbb) = Ok (received_block b n)"
proof -
  obtain ps where p: "from_protos (\<lambda>ev. map_out Some (EvidenceToProto (Some ev))) (ed_Evidence (b_Evidence b)) = Ok ps" "bp_Evidence pbb = ps"
    "Header_ToProto (Some (b_Header b)) = Some (bp_Header pbb)" "bp_Data pbb = Data_ToProto (b_Data b)" "bp_LastCommit pbb = Commit_ToProto (b_LastCommit b)"
    using assms(1) by (auto simp: Block_ToProto_def EvidenceData_ToProto_def Header_ToProto_def)
  note v = assms(3) [unfolded Block_ValidateBasic_iff]
  obtain c c' where c: "b_LastCommit b = Some c" "Commit_ValidateBasic c = Ok ()" "Commit_ToProto (Some c) = Some c'"
    using v by (auto simp: Commit_ToProto_def)
  have "EvidenceData_FromProto e \<lparr>ed_Evidence = [], ed_hash = None, ed_byteSize = 0\<rparr> (bp_Evidence pbb) =
      Ok \<lparr>ed_Evidence = map wire_evidence (ed_Evidence (b_Evidence b)), ed_hash = None, ed_byteSize = n\<rparr>"
    using evidence_back [OF p(1)] v assms(2,6) p(2) by (simp add: EvidenceData_FromProto_def)
  moreover have "HeaderFromProto (Some (bp_Header pbb)) = Ok (b_Header b)" using HeaderFromProto_valid [of "b_Header b"] v p(3) by simp
  moreover have "DataFromProto (Some (bp_Data pbb)) = Ok (b_Data b)" by (simp add: DataFromProto_def p(4) Data_ToProto_def)
  moreover have "(case bp_LastCommit pbb of None \<Rightarrow> Ok None | Some c \<Rightarrow> map_out Some (CommitFromProto (Some c))) = Ok (b_LastCommit (received_block b n))"
    using CommitFromProto_valid [OF c(2)] c(1,3) assms(5) by (simp add: p(5) received_block_def)
  ultimately show ?thesis
    using received_valid [OF assms(3,4)] by (cases b) (simp add: BlockFromProto_def Let_def received_block_def)
qed

text \<open>C7. A receiver that knows the part set header of a proposed block and has a complete set of parts has the proposed block, whatever else it
  was offered, unless an offered part comes with a hash collision: the bytes it puts together decode to the message the proposer encoded, and
  the block built from it is valid and is the proposed one, evidence included, up to what the message does not carry. Nothing is cached but the
  hash of the data and the size of the evidence, and in the evidence of an attack on a light client the total power and the mark for keys of
  one type are computed anew. The proposed block passes \<open>ValidateBasic\<close> with hashes that are right where they are cached, and keeps to the
  limits that a receiver checks and \<open>ValidateBasic\<close> does not.\<close>

theorem block_transfer:
  assumes "\<forall>x. length (sha (crypto e) x) = tmhash_Size" "0 < p" "time_decodes e tu" "Block_ToProto (Some b) = Ok pbb" "block_fits pbb"
    "Block_Marshal e pbb = Ok bz" "length bz + p < 4294967296" "mset order = mset [0..<chunk_count p bz]"
    "EvidenceList_Size e (bp_Evidence pbb) = Ok n" "Block_ValidateBasic te e (Some b) = Ok ()" "caches_ok e b"
    "\<forall>c. b_LastCommit b = Some c \<longrightarrow> commit_travels c" "\<forall>ev \<in> set (ed_Evidence (b_Evidence b)). evidence_travels ev"
  shows "\<exists>sent pos recv. MakePartSet e numCPU order (Some b) (int p) = Ok (sent, pos) \<and> NewPartSetFromHeader (PS_Header (Some sent)) (int p) = Ok recv \<and>
    (\<forall>parts. (\<forall>part \<in> set parts. \<not> forged (sha (crypto e)) p bz part) \<longrightarrow> PS_IsComplete (fold (receive_part (sha (crypto e))) parts recv) \<longrightarrow>
      bind_out (GetBytes (fold (receive_part (sha (crypto e))) parts recv)) (\<lambda>bytes.
      bind_out (Block_Unmarshal tu bytes zero_BlockProto) (\<lambda>pb. BlockFromProto te e (Some pb))) = Ok (received_block b n))"
proof -
  let ?hf = "sha (crypto e)"
  have len: "\<And>x. length (?hf x) = tmhash_Size" using assms(1) by blast
  have nil: "bz \<noteq> []" by (rule Block_Marshal_not_Nil [OF assms(6)])
  obtain sent where s: "NewPartSetFromData ?hf numCPU order bz (int p) = Ok sent" "assembles ?hf p bz sent"
    using NewPartSetFromData_eq [OF assms(2) nil assms(7,8)] by blast
  obtain pos where m: "MakePartSet e numCPU order (Some b) (int p) = Ok (sent, pos)"
    using MakePartSet_data [OF assms(4,6), of numCPU order "int p"] assms(7) s(1) by auto
  obtain recv where r: "NewPartSetFromHeader (PS_Header (Some sent)) (int p) = Ok recv" "assembles ?hf p bz recv"
    using NewPartSetFromHeader_assembles [OF assms(2) nil assms(7), of ?hf] s(2) by (auto simp: PS_Header_def assembles_def)
  have "short bz" using assms(7) by (simp add: short_def)
  then have u: "Block_Unmarshal tu bz zero_BlockProto = Ok pbb" using block.decode [OF assms(6)] assms(3,5) by blast
  have "GetBytes (fold (receive_part ?hf) parts recv) = Ok bz"
    if "\<forall>part \<in> set parts. \<not> forged ?hf p bz part" "PS_IsComplete (fold (receive_part ?hf) parts recv)" for parts
    using complete_bytes [OF assms(2) nil assms(7)] receive_all_keeps [OF assms(2) nil assms(7) len r(2) that(1)] that(2) by blast
  then show ?thesis using m r(1) u BlockFromProto_ToProto [OF assms(4,9-13)] by auto
qed

definition demo_data_hash :: bytes where
  "demo_data_hash = replicate 32 3"

definition plain_env :: env where
  "plain_env = toy_env\<lparr>crypto := toy_crypto\<lparr>sha := pad_hash\<rparr>\<rparr>"

definition plain_block :: Block where
  "plain_block = \<lparr>b_verifiedHash = [], b_Header = zero_Header\<lparr>h_Version_Block := 11, h_ChainID := [99], h_Height := 1, h_LastCommitHash := pad_hash [],
       h_DataHash := demo_data_hash, h_ValidatorsHash := replicate 32 1, h_EvidenceHash := pad_hash [], h_ProposerAddress := replicate 20 1\<rparr>,
     b_Data = \<lparr>d_Txs = [[1, 2]], d_SquareSize = 1, d_hash = Some demo_data_hash\<rparr>,
     b_Evidence = \<lparr>ed_Evidence = [], ed_hash = None, ed_byteSize = 0\<rparr>, b_LastCommit = Some zero_Commit, b_cachedHashes = []\<rparr>"


definition plain_proto :: BlockProto where
  "plain_proto = \<lparr>bp_Header = b_Header plain_block, bp_Data = Data_ToProto (b_Data plain_block), bp_Evidence = [], bp_LastCommit = Some zero_Commit\<rparr>"

lemma plain_Marshal: "\<exists>bz. Block_Marshal plain_env plain_proto = Ok bz \<and> length bz < 1000"
  by (simp add: Block_Marshal_def plain_proto_def plain_block_def Header_Marshal_def zero_Header_def plain_env_def toy_env_def zigzag_def
    EvidenceList_Marshal_def opt_marshal_def Commit_Marshal_def zero_Commit_def Data_Marshal_def Data_ToProto_def pb_msg_def pb_bytes_def pb_varint_def uvarint.simps
    to_uint64_def demo_data_hash_def pad_hash_def BlockID_Marshal_def empty_BlockID_def PartSetHeader_Marshal_def Consensus_Marshal_def)

theorem tx_positions_witness:
  "\<exists>bz pos. MarshalBlockWithTxPositions plain_env plain_proto 1 = Ok (bz, pos) \<and> subslice bz (tp_Start (pos ! 0)) (tp_End (pos ! 0)) = Ok [10, 2, 1, 2]"
proof -
  obtain bz where bz: "Block_Marshal plain_env plain_proto = Ok bz" "length bz < 4294967296" using plain_Marshal by fastforce
  moreover have "dp_Txs (bp_Data plain_proto) = [[1, 2]]" by (simp add: plain_proto_def plain_block_def Data_ToProto_def)
  moreover have "pb_msg 0x0a [1, 2] = [10, 2, 1, 2]" by (simp add: pb_msg_def uvarint.simps)
  ultimately show ?thesis using tx_positions [OF bz] by fastforce
qed

text \<open>A block with evidence of a double vote, and with cached hashes.\<close>

definition accused_vote :: "byte \<Rightarrow> Vote" where
  "accused_vote k = \<lparr>v_Type = PrevoteType, v_Height = 1, v_Round = 0, v_BlockID = demo_bid k, v_Timestamp = 7, v_ValidatorAddress = replicate 20 7,
     v_ValidatorIndex = 0, v_Signature = [1], v_Extension = [], v_ExtensionSignature = []\<rparr>"

definition accusation :: DuplicateVoteEvidence where
  "accusation = \<lparr>dve_VoteA = Some (accused_vote 1), dve_VoteB = Some (accused_vote 2), dve_TotalVotingPower = 5, dve_ValidatorPower = 1, dve_Timestamp = 7\<rparr>"

definition accusation_hash :: bytes where
  "accusation_hash = (case EvidenceList_Hash plain_env [DuplicateVote accusation] of Ok h \<Rightarrow> h | _ \<Rightarrow> [])"

definition accusing_block :: Block where
  "accusing_block = plain_block\<lparr>b_Header := (b_Header plain_block)\<lparr>h_EvidenceHash := accusation_hash\<rparr>,
     b_Evidence := \<lparr>ed_Evidence = [DuplicateVote accusation], ed_hash = Some accusation_hash, ed_byteSize = 0\<rparr>,
     b_LastCommit := Some (zero_Commit\<lparr>cm_hash := Some (pad_hash [])\<rparr>), b_verifiedHash := [5]\<rparr>"

definition accusing_proto :: BlockProto where
  "accusing_proto = \<lparr>bp_Header = b_Header accusing_block, bp_Data = Data_ToProto (b_Data plain_block), bp_Evidence = [Some (Evidence_DuplicateVote accusation)],
     bp_LastCommit = Some zero_Commit\<rparr>"

lemma accusing_ToProto: "Block_ToProto (Some accusing_block) = Ok accusing_proto"
  by (simp add: Block_ToProto_def EvidenceData_ToProto_def accusing_block_def plain_block_def accusing_proto_def Header_ToProto_def Commit_ToProto_def zero_Commit_def
    EvidenceToProto_def DVE_ToProto_def accusation_def)

lemma accusation_bytes: "\<exists>bz. DuplicateVoteEvidence_Marshal plain_env accusation = Ok bz \<and> length bz < 400"
  by (simp add: DuplicateVoteEvidence_Marshal_def accusation_def opt_marshal_def Vote_Marshal_def accused_vote_def plain_env_def toy_env_def zigzag_def demo_bid_def
    BlockID_Marshal_def PartSetHeader_Marshal_def pb_msg_def pb_bytes_def pb_varint_def uvarint.simps to_uint64_def)

lemma accusation_hashed: "EvidenceList_Hash plain_env [DuplicateVote accusation] = Ok accusation_hash" "length accusation_hash = 32"
proof -
  obtain bz where "DuplicateVoteEvidence_Marshal plain_env accusation = Ok bz" using accusation_bytes by blast
  moreover have "DVE_ToProto accusation = accusation" by (simp add: DVE_ToProto_def accusation_def)
  ultimately have "EvidenceList_Hash plain_env [DuplicateVote accusation] = Ok (pad_hash (leafPrefix @ bz))"
    by (simp add: EvidenceList_Hash_def DVE_Bytes_def HashFromByteSlices_def hashFromByteSlices.simps index_def leafHash_def) (simp add: plain_env_def)
  then show "EvidenceList_Hash plain_env [DuplicateVote accusation] = Ok accusation_hash" "length accusation_hash = 32"
    by (simp_all add: accusation_hash_def pad_hash_def)
qed

lemma accusing_Marshal: "\<exists>bz. Block_Marshal plain_env accusing_proto = Ok bz \<and> length bz < 1000"
proof -
  obtain d where d: "DuplicateVoteEvidence_Marshal plain_env accusation = Ok d" "length d < 400" using accusation_bytes by blast
  have u: "length (uvarint n) \<le> 2" if "n < 16384" for n using that by (auto simp: uvarint.simps)
  have "\<exists>ev. EvidenceList_Marshal plain_env [Some (Evidence_DuplicateVote accusation)] = Ok ev \<and> length ev < 410"
    using d u [of "length d"] u [of "length (pb_msg 0x0a d)"] by (auto simp: EvidenceList_Marshal_def Evidence_Marshal_def pb_msg_def)
  then obtain ev where ev: "EvidenceList_Marshal plain_env [Some (Evidence_DuplicateVote accusation)] = Ok ev" "length ev < 410" by blast
  then have "length (pb_msg 0x1a ev) < 415" using u [of "length ev"] by (simp add: pb_msg_def)
  with ev(1) accusation_hashed(2) show ?thesis
    by (simp add: Block_Marshal_def accusing_proto_def accusing_block_def plain_block_def Header_Marshal_def zero_Header_def zigzag_def
      opt_marshal_def Commit_Marshal_def zero_Commit_def Data_Marshal_def Data_ToProto_def)
      (simp add: plain_env_def toy_env_def zigzag_def pb_bytes_def pb_varint_def uvarint.simps
      to_uint64_def demo_data_hash_def pad_hash_def BlockID_Marshal_def empty_BlockID_def PartSetHeader_Marshal_def Consensus_Marshal_def pb_msg_def)
qed

lemma accusing_size: "\<exists>n. EvidenceList_Size plain_env (bp_Evidence accusing_proto) = Ok n"
  by (simp add: EvidenceList_Size_def accusing_proto_def EvidenceList_Marshal_def Evidence_Marshal_def DuplicateVoteEvidence_Marshal_def size_env_def
    accusation_def opt_marshal_def Vote_Marshal_def accused_vote_def plain_env_def toy_env_def)

lemma accused_vote_valid: "Vote_ValidateBasic (accused_vote k) = Ok ()"
  by (simp add: Vote_ValidateBasic_def accused_vote_def demo_bid_def BlockID_ValidateBasic_def PSH_ValidateBasic_def ValidateHash_def BlockID_IsZero_def
    BlockID_IsComplete_def IsVoteTypeValid_def)

lemma accusation_valid: "DVE_ValidateBasic (Some accusation) = Ok ()"
proof -
  have "BlockID_Key (demo_bid 1) < BlockID_Key (demo_bid 2)" by (simp add: BlockID_Key_def demo_bid_def numeral_eq_Suc)
  then show ?thesis using accused_vote_valid [of 1] accused_vote_valid [of 2] by (simp add: DVE_ValidateBasic_def accusation_def) (simp add: accused_vote_def)
qed

lemma accusing_valid: "Block_ValidateBasic te plain_env (Some accusing_block) = Ok ()" "caches_ok plain_env accusing_block"
proof -
  have h: "HashFromByteSlices pad_hash [] = Ok (pad_hash [])" by (simp add: HashFromByteSlices_def emptyHash_def hashFromByteSlices.simps)
  show "Block_ValidateBasic te plain_env (Some accusing_block) = Ok ()"
    using accusation_valid accusation_hashed
    by (simp add: Block_ValidateBasic_iff accusing_block_def plain_block_def Header_ValidateBasic_def zero_Header_def BlockID_ValidateBasic_def empty_BlockID_def
      PSH_ValidateBasic_def ValidateHash_def demo_data_hash_def pad_hash_def Commit_ValidateBasic_def zero_Commit_def Commit_Hash_def Data_Hash_def EvidenceData_Hash_def)
  show "caches_ok plain_env accusing_block"
    using accusation_hashed(1) h by (simp add: caches_ok_def accusing_block_def Commit_Hash_def zero_Commit_def) (simp add: plain_env_def)
qed

lemma accusing_fits: "block_fits accusing_proto"
  by (simp add: block_fits_def accusing_proto_def accusing_block_def plain_block_def header_in_range_def zero_Header_def is_u64_def is_i64_def bid_in_range_def
    empty_BlockID_def is_u32_def data_fits_def Data_ToProto_def demo_data_hash_def commit_fits_def zero_Commit_def is_i32_def dve_fits_def accusation_def
    vote_fits_def vote_in_range_def accused_vote_def demo_bid_def)

theorem block_transfer_witness:
  "\<exists>sent pos recv bz n. MakePartSet plain_env 4 [0] (Some accusing_block) 1000 = Ok (sent, pos) \<and> NewPartSetFromHeader (PS_Header (Some sent)) 1000 = Ok recv \<and>
    (\<forall>parts. (\<forall>part \<in> set parts. \<not> forged (sha (crypto plain_env)) 1000 bz part) \<longrightarrow> PS_IsComplete (fold (receive_part (sha (crypto plain_env))) parts recv) \<longrightarrow>
      bind_out (GetBytes (fold (receive_part (sha (crypto plain_env))) parts recv)) (\<lambda>bytes.
      bind_out (Block_Unmarshal toy_time bytes zero_BlockProto) (\<lambda>pb. BlockFromProto demo_tx_env plain_env (Some pb))) = Ok (received_block accusing_block n))"
proof -
  obtain bz where bz: "Block_Marshal plain_env accusing_proto = Ok bz" "length bz < 1000" using accusing_Marshal by blast
  obtain n where n: "EvidenceList_Size plain_env (bp_Evidence accusing_proto) = Ok n" using accusing_size by blast
  have "bz \<noteq> []" by (rule Block_Marshal_not_Nil [OF bz(1)])
  then have "chunk_count 1000 bz = 1" using bz(2) by (cases bz) (auto simp: chunk_count_def div_eq_dividend_iff intro!: div_nat_eqI)
  then have o: "mset [0] = mset [0..<chunk_count 1000 bz]" by simp
  have "time_decodes plain_env toy_time" using toy_time_decodes by (simp add: time_decodes_def plain_env_def)
  moreover have "\<forall>x. length (sha (crypto plain_env) x) = tmhash_Size" by (simp add: plain_env_def pad_hash_def min_def)
  moreover have "\<forall>c. b_LastCommit accusing_block = Some c \<longrightarrow> commit_travels c" "\<forall>ev \<in> set (ed_Evidence (b_Evidence accusing_block)). evidence_travels ev"
    by (simp_all add: accusing_block_def commit_travels_def zero_Commit_def BlockID_ValidateBasic_def empty_BlockID_def PSH_ValidateBasic_def ValidateHash_def)
  ultimately show ?thesis
    using block_transfer [OF _ _ _ accusing_ToProto accusing_fits bz(1) _ o n accusing_valid, of toy_time 4 demo_tx_env] bz(2) by auto
qed

end
