(* ===== verification/State.thy ===== *)
theory State
  imports Block CommitVerification Params
begin

text \<open>
  The state of the chain between two blocks (\<open>state/state.go\<close>), the genesis it starts from (\<open>types/genesis.go\<close>), the median
  of the times of a commit (\<open>types/time/time.go\<close>) and the validation of a block against the state (\<open>state/validation.go\<close>).

  A validator set is a pointer, so it is an option. Durations are nanoseconds. The hashes that the state only compares
  are byte strings, and nil is the empty one. \<open>maxBlockSizeBytes\<close> is the package variable of that name.
\<close>

definition deref :: "'a option \<Rightarrow> 'a result" where
  "deref p = (case p of None \<Rightarrow> Panic ''nil pointer dereference'' | Some x \<Rightarrow> Ok x)"

lemma deref_simps [simp]: "deref (Some x) = Ok x" "deref p = Ok x \<longleftrightarrow> p = Some x"
  by (auto simp: deref_def split: option.splits)

section \<open>The state\<close>

record TimeoutInfo =
  TimeoutPropose :: int
  TimeoutCommit :: int
  TimeoutProposeDelta :: int
  TimeoutPrevote :: int
  TimeoutPrevoteDelta :: int
  TimeoutPrecommit :: int
  TimeoutPrecommitDelta :: int
  DelayedPrecommitTimeout :: int

definition zero_TimeoutInfo :: TimeoutInfo where
  "zero_TimeoutInfo = \<lparr>TimeoutPropose = 0, TimeoutCommit = 0, TimeoutProposeDelta = 0, TimeoutPrevote = 0, TimeoutPrevoteDelta = 0,
     TimeoutPrecommit = 0, TimeoutPrecommitDelta = 0, DelayedPrecommitTimeout = 0\<rparr>"

record StateVersion =
  sv_Block :: int
  sv_App :: int
  sv_Software :: bytes

record State =
  st_Version :: StateVersion
  st_ChainID :: bytes
  st_InitialHeight :: int
  st_LastBlockHeight :: int
  st_LastBlockID :: BlockID
  st_LastBlockTime :: go_time
  st_NextValidators :: "ValidatorSet option"
  st_Validators :: "ValidatorSet option"
  st_LastValidators :: "ValidatorSet option"
  st_LastHeightValidatorsChanged :: int
  st_ConsensusParams :: ConsensusParams
  st_LastHeightConsensusParamsChanged :: int
  st_LastResultsHash :: bytes
  st_AppHash :: bytes
  st_Timeouts :: TimeoutInfo

definition InitStateVersion :: "bytes \<Rightarrow> int \<Rightarrow> StateVersion" where
  "InitStateVersion software appVersion = \<lparr>sv_Block = BlockProtocol, sv_App = appVersion, sv_Software = software\<rparr>"

definition State_Propose :: "State \<Rightarrow> int \<Rightarrow> int" where
  "State_Propose state round = i64 (TimeoutPropose (st_Timeouts state) + i64 (TimeoutProposeDelta (st_Timeouts state) * round))"

definition State_Prevote :: "State \<Rightarrow> int \<Rightarrow> int" where
  "State_Prevote state round = i64 (TimeoutPrevote (st_Timeouts state) + i64 (TimeoutPrevoteDelta (st_Timeouts state) * round))"

definition State_Precommit :: "State \<Rightarrow> int \<Rightarrow> int" where
  "State_Precommit state round = i64 (TimeoutPrecommit (st_Timeouts state) + i64 (TimeoutPrecommitDelta (st_Timeouts state) * round))"

definition State_Commit :: "State \<Rightarrow> go_time \<Rightarrow> go_time" where
  "State_Commit state t = t + TimeoutCommit (st_Timeouts state)"

definition State_Copy :: "State \<Rightarrow> State result" where
  "State_Copy state =
     bind_out (deref (st_NextValidators state)) (\<lambda>nv. bind_out (deref (st_Validators state)) (\<lambda>v. bind_out (deref (st_LastValidators state)) (\<lambda>lv.
     Ok (state\<lparr>st_NextValidators := Some (VS_Copy nv), st_Validators := Some (VS_Copy v), st_LastValidators := Some (VS_Copy lv)\<rparr>))))"

definition State_IsEmpty :: "State \<Rightarrow> bool" where
  "State_IsEmpty state \<longleftrightarrow> st_Validators state = None"

record StateProto =
  sp_Version :: StateVersion
  sp_ChainID :: bytes
  sp_InitialHeight :: int
  sp_LastBlockHeight :: int
  sp_LastBlockID :: BlockID
  sp_LastBlockTime :: go_time
  sp_NextValidators :: "ValidatorSetProto option"
  sp_Validators :: "ValidatorSetProto option"
  sp_LastValidators :: "ValidatorSetProto option"
  sp_LastHeightValidatorsChanged :: int
  sp_ConsensusParams :: ConsensusParamsProto
  sp_LastHeightConsensusParamsChanged :: int
  sp_LastResultsHash :: bytes
  sp_AppHash :: bytes
  sp_TimeoutInfo :: TimeoutInfo

definition State_ToProto :: "State option \<Rightarrow> StateProto result" where
  "State_ToProto s =
     (case s of None \<Rightarrow> Err (Errorf ''state is nil'')
      | Some state \<Rightarrow>
          bind_out (VS_ToProto (st_Validators state)) (\<lambda>vals.
          bind_out (VS_ToProto (st_NextValidators state)) (\<lambda>nVals.
          bind_out (if st_LastBlockHeight state \<ge> 1 then map_out Some (VS_ToProto (st_LastValidators state)) else Ok None) (\<lambda>lVals.
          Ok \<lparr>sp_Version = st_Version state, sp_ChainID = st_ChainID state, sp_InitialHeight = st_InitialHeight state,
              sp_LastBlockHeight = st_LastBlockHeight state, sp_LastBlockID = BlockID_ToProto (Some (st_LastBlockID state)),
              sp_LastBlockTime = st_LastBlockTime state, sp_NextValidators = Some nVals, sp_Validators = Some vals, sp_LastValidators = lVals,
              sp_LastHeightValidatorsChanged = st_LastHeightValidatorsChanged state, sp_ConsensusParams = CP_ToProto (st_ConsensusParams state),
              sp_LastHeightConsensusParamsChanged = st_LastHeightConsensusParamsChanged state, sp_LastResultsHash = st_LastResultsHash state,
              sp_AppHash = st_AppHash state, sp_TimeoutInfo = st_Timeouts state\<rparr>))))"

definition State_FromProto :: "crypto_env \<Rightarrow> StateProto option \<Rightarrow> State result" where
  "State_FromProto cr pb =
     (case pb of None \<Rightarrow> Err (Errorf ''nil State'')
      | Some p \<Rightarrow>
          bind_out (BlockIDFromProto (Some (sp_LastBlockID p))) (\<lambda>bi.
          bind_out (ValidatorSetFromProto cr (sp_Validators p)) (\<lambda>vals.
          bind_out (ValidatorSetFromProto cr (sp_NextValidators p)) (\<lambda>nVals.
          bind_out (if sp_LastBlockHeight p \<ge> 1 then ValidatorSetFromProto cr (sp_LastValidators p) else NewValidatorSet []) (\<lambda>lVals.
          bind_out (ConsensusParamsFromProto (sp_ConsensusParams p)) (\<lambda>params.
          Ok \<lparr>st_Version = sp_Version p, st_ChainID = sp_ChainID p, st_InitialHeight = sp_InitialHeight p,
              st_LastBlockHeight = sp_LastBlockHeight p, st_LastBlockID = bi, st_LastBlockTime = sp_LastBlockTime p,
              st_NextValidators = Some nVals, st_Validators = Some vals, st_LastValidators = Some lVals,
              st_LastHeightValidatorsChanged = sp_LastHeightValidatorsChanged p, st_ConsensusParams = params,
              st_LastHeightConsensusParamsChanged = sp_LastHeightConsensusParamsChanged p, st_LastResultsHash = sp_LastResultsHash p,
              st_AppHash = sp_AppHash p, st_Timeouts = sp_TimeoutInfo p\<rparr>))))))"

section \<open>Median time\<close>

record WeightedTime =
  wt_Time :: go_time
  wt_Weight :: int

fun median_loop :: "WeightedTime list \<Rightarrow> int \<Rightarrow> go_time" where
  "median_loop [] median = 0"
| "median_loop (w # ws) median = (if median < wt_Weight w then wt_Time w else median_loop ws (i64 (median - wt_Weight w)))"

text \<open>
  The nil entries are sorted behind the others and skipped. The order of entries of the same time depends on the sorting
  algorithm and does not change the result; here they keep their order.
\<close>

definition WeightedMedian :: "WeightedTime option list \<Rightarrow> int \<Rightarrow> go_time" where
  "WeightedMedian weightedTimes pow = median_loop (sort_key wt_Time (List.map_filter id weightedTimes)) (pow sdiv 2)"

fun weigh_sigs :: "CommitSig list \<Rightarrow> ValidatorSet option \<Rightarrow> WeightedTime option list \<Rightarrow> int \<Rightarrow> (WeightedTime option list \<times> int) result" where
  "weigh_sigs [] validators weightedTimes pow = Ok (weightedTimes, pow)"
| "weigh_sigs (commitSig # sigs) validators weightedTimes pow =
     (if cs_BlockIDFlag commitSig = BlockIDFlagAbsent then weigh_sigs sigs validators (weightedTimes @ [None]) pow
      else bind_out (deref validators) (\<lambda>vals.
           case GetByAddress vals (cs_ValidatorAddress commitSig) of (_, validator) \<Rightarrow>
           (case validator of
              None \<Rightarrow> Err (Errorf ''commit validator not found in validator set'')
            | Some val \<Rightarrow> weigh_sigs sigs validators
                (weightedTimes @ [Some \<lparr>wt_Time = cs_Timestamp commitSig, wt_Weight = VotingPower val\<rparr>]) (i64 (pow + VotingPower val)))))"

definition MedianTime :: "Commit option \<Rightarrow> ValidatorSet option \<Rightarrow> go_time result" where
  "MedianTime commit validators =
     bind_out (deref commit) (\<lambda>c.
     map_out (\<lambda>(weightedTimes, pow). WeightedMedian weightedTimes pow) (weigh_sigs (cm_Signatures c) validators [] 0))"

section \<open>Making blocks\<close>

definition vals_hash :: "crypto_env \<Rightarrow> ValidatorSet option \<Rightarrow> bytes result" where
  "vals_hash cr vals = bind_out (deref vals) (VS_Hash cr)"

definition MakeBlockWithoutPartset ::
  "tx_env \<Rightarrow> env \<Rightarrow> State \<Rightarrow> int \<Rightarrow> Data \<Rightarrow> Commit option \<Rightarrow> Evidence list \<Rightarrow> bytes \<Rightarrow> Block result" where
  "MakeBlockWithoutPartset te e state height data lastCommit evidence proposerAddress =
     bind_out (MakeBlock te e height data lastCommit evidence) (\<lambda>block.
     bind_out (if height = st_InitialHeight state then Ok (st_LastBlockTime state)
               else map_err (Wrapf ''error making block while calculating median time'') (MedianTime lastCommit (st_LastValidators state))) (\<lambda>timestamp.
     bind_out (vals_hash (crypto e) (st_Validators state)) (\<lambda>vh.
     bind_out (vals_hash (crypto e) (st_NextValidators state)) (\<lambda>nvh.
     Ok (block\<lparr>b_Header := Header_Populate (b_Header block) (sv_Block (st_Version state), sv_App (st_Version state)) (st_ChainID state)
           timestamp (st_LastBlockID state) vh nvh (CP_Hash (crypto e) (st_ConsensusParams state)) (st_AppHash state)
           (st_LastResultsHash state) proposerAddress\<rparr>)))))"

definition State_MakeBlock ::
  "tx_env \<Rightarrow> env \<Rightarrow> int \<Rightarrow> nat list \<Rightarrow> State \<Rightarrow> int \<Rightarrow> Data \<Rightarrow> Commit option \<Rightarrow> Evidence list \<Rightarrow> bytes \<Rightarrow> (Block \<times> PartSet) result" where
  "State_MakeBlock te e numCPU order state height data lastCommit evidence proposerAddress =
     bind_out (MakeBlockWithoutPartset te e state height data lastCommit evidence proposerAddress) (\<lambda>block.
     map_out (\<lambda>(ops, _). (block, ops)) (MakePartSet e numCPU order (Some block) BlockPartSizeBytes))"

section \<open>Genesis\<close>

record GenesisValidator =
  gv_Address :: bytes
  gv_PubKey :: PubKey
  gv_Power :: int

text \<open>The nil slice of validators is an own case. The state of the application is only handed on.\<close>

record GenesisDoc =
  gd_GenesisTime :: go_time
  gd_ChainID :: bytes
  gd_InitialHeight :: int
  gd_ConsensusParams :: "ConsensusParams option"
  gd_Validators :: "GenesisValidator list option"
  gd_AppHash :: bytes
  gd_AppState :: bytes

fun check_genesis_vals :: "crypto_env \<Rightarrow> GenesisValidator list \<Rightarrow> (GenesisValidator list) result" where
  "check_genesis_vals cr [] = Ok []"
| "check_genesis_vals cr (v # vs) =
     (if gv_Power v = 0 then Err (Errorf ''the genesis file cannot contain validators with no voting power'')
      else bind_out (PubKey_Address cr (gv_PubKey v)) (\<lambda>addr.
           if length (gv_Address v) > 0 \<and> addr \<noteq> gv_Address v then Err (Errorf ''incorrect address for validator in the genesis file'')
           else map_out ((#) (if length (gv_Address v) = 0 then v\<lparr>gv_Address := addr\<rparr> else v)) (check_genesis_vals cr vs)))"

definition ValidateAndComplete :: "crypto_env \<Rightarrow> int \<Rightarrow> go_time \<Rightarrow> GenesisDoc \<Rightarrow> GenesisDoc result" where
  "ValidateAndComplete cr maxBlockSizeBytes now genDoc =
     (if gd_ChainID genDoc = [] then Err (Errorf ''genesis doc must include non-empty chain_id'')
      else if length (gd_ChainID genDoc) > MaxChainIDLen then Err (Errorf ''chain_id in genesis doc is too long'')
      else if gd_InitialHeight genDoc < 0 then Err (Errorf ''initial_height cannot be negative'')
      else bind_out (case gd_ConsensusParams genDoc of None \<Rightarrow> Ok DefaultConsensusParams
                     | Some p \<Rightarrow> map_out (\<lambda>_. p) (CP_ValidateBasic maxBlockSizeBytes p)) (\<lambda>params.
           bind_out (case gd_Validators genDoc of None \<Rightarrow> Ok None | Some vs \<Rightarrow> map_out Some (check_genesis_vals cr vs)) (\<lambda>vals.
           Ok (genDoc\<lparr>gd_InitialHeight := (if gd_InitialHeight genDoc = 0 then 1 else gd_InitialHeight genDoc),
                 gd_ConsensusParams := Some params, gd_Validators := vals,
                 gd_GenesisTime := (if gd_GenesisTime genDoc = 0 then now else gd_GenesisTime genDoc)\<rparr>))))"

definition GenesisDoc_ValidatorHash :: "crypto_env \<Rightarrow> GenesisDoc \<Rightarrow> bytes result" where
  "GenesisDoc_ValidatorHash cr genDoc =
     bind_out (from_protos (\<lambda>v. NewValidator cr (gv_PubKey v) (gv_Power v)) (case gd_Validators genDoc of None \<Rightarrow> [] | Some vs \<Rightarrow> vs)) (\<lambda>vals.
     bind_out (NewValidatorSet vals) (VS_Hash cr))"

definition getAppVersion :: "GenesisDoc \<Rightarrow> int" where
  "getAppVersion genDoc =
     (case gd_ConsensusParams genDoc of None \<Rightarrow> 1
      | Some p \<Rightarrow> if vp_App (cp_Version p) \<noteq> 0 then uint (vp_App (cp_Version p)) else 1)"

definition MakeGenesisState :: "crypto_env \<Rightarrow> int \<Rightarrow> bytes \<Rightarrow> go_time \<Rightarrow> GenesisDoc \<Rightarrow> State result" where
  "MakeGenesisState cr maxBlockSizeBytes software now doc =
     bind_out (map_err (Wrapf ''error in genesis doc'') (ValidateAndComplete cr maxBlockSizeBytes now doc)) (\<lambda>genDoc.
     bind_out (case gd_Validators genDoc of
         None \<Rightarrow> bind_out (NewValidatorSet []) (\<lambda>a. bind_out (NewValidatorSet []) (\<lambda>b. Ok (a, b)))
       | Some vs \<Rightarrow>
           bind_out (from_protos (\<lambda>v. NewValidator cr (gv_PubKey v) (gv_Power v)) vs) (\<lambda>validators.
           bind_out (NewValidatorSet validators) (\<lambda>a.
           bind_out (NewValidatorSet validators) (\<lambda>b. bind_out (CopyIncrementProposerPriority b 1) (\<lambda>b. Ok (a, b)))))) (\<lambda>(validatorSet, nextValidatorSet).
     bind_out (NewValidatorSet []) (\<lambda>lastValidators.
     bind_out (deref (gd_ConsensusParams genDoc)) (\<lambda>params.
     Ok \<lparr>st_Version = InitStateVersion software (getAppVersion genDoc), st_ChainID = gd_ChainID genDoc, st_InitialHeight = gd_InitialHeight genDoc,
         st_LastBlockHeight = 0, st_LastBlockID = empty_BlockID, st_LastBlockTime = gd_GenesisTime genDoc,
         st_NextValidators = Some nextValidatorSet, st_Validators = Some validatorSet, st_LastValidators = Some lastValidators,
         st_LastHeightValidatorsChanged = gd_InitialHeight genDoc, st_ConsensusParams = params,
         st_LastHeightConsensusParamsChanged = gd_InitialHeight genDoc, st_LastResultsHash = [], st_AppHash = gd_AppHash genDoc,
         st_Timeouts = zero_TimeoutInfo\<rparr>))))"

section \<open>Validation of a block\<close>

definition maxBlockTimeTolerance :: int where
  "maxBlockTimeTolerance = 60 * 1000000000"

text \<open>The times of a block: after the last one and the median of its last commit, or the time of the genesis.\<close>

definition validate_time :: "go_time \<Rightarrow> State \<Rightarrow> Block \<Rightarrow> unit result" where
  "validate_time now state block =
     (let h = b_Header block
      in if \<not> h_Time h < now + maxBlockTimeTolerance then Err (Errorf ''block time is too far in the future'')
         else if h_Height h > st_InitialHeight state
         then if \<not> h_Time h > st_LastBlockTime state then Err (Errorf ''block time not greater than last block time'')
              else bind_out (map_err (Wrapf ''error validating block while calculating median time'') (MedianTime (b_LastCommit block) (st_LastValidators state))) (\<lambda>medianTime.
                   if h_Time h \<noteq> medianTime then Err (Errorf ''invalid block time'') else Ok ())
         else if h_Height h = st_InitialHeight state
         then if h_Time h \<noteq> st_LastBlockTime state then Err (Errorf ''block time is not equal to genesis time'') else Ok ()
         else Err (Errorf ''block height lower than initial height''))"

definition validate_proposer :: "State \<Rightarrow> Block \<Rightarrow> unit result" where
  "validate_proposer state block =
     (if length (h_ProposerAddress (b_Header block)) \<noteq> AddressSize then Err (Errorf ''expected ProposerAddress size'')
      else bind_out (deref (st_Validators state)) (\<lambda>vals.
           if \<not> HasAddress vals (h_ProposerAddress (b_Header block)) then Err (Errorf ''block.Header.ProposerAddress is not a validator'') else Ok ()))"

definition validate_last_commit :: "env \<Rightarrow> batch_env \<Rightarrow> State \<Rightarrow> Block \<Rightarrow> bool \<Rightarrow> unit result" where
  "validate_last_commit e be state block skipLastCommitVerification =
     (if h_Height (b_Header block) = st_InitialHeight state
      then bind_out (deref (b_LastCommit block)) (\<lambda>lc.
           if length (cm_Signatures lc) \<noteq> 0 then Err (Errorf ''initial block can't have LastCommit signatures'') else Ok ())
      else if \<not> skipLastCommitVerification
      then VerifyCommit e be (st_ChainID state) (st_LastValidators state) (st_LastBlockID state) (i64 (h_Height (b_Header block) - 1)) (b_LastCommit block)
      else Ok ())"

definition validateBlock :: "tx_env \<Rightarrow> env \<Rightarrow> batch_env \<Rightarrow> go_time \<Rightarrow> State \<Rightarrow> Block option \<Rightarrow> bool \<Rightarrow> unit result" where
  "validateBlock te e be now state blk skipLastCommitVerification =
     bind_out (Block_ValidateBasic te e blk) (\<lambda>_.
     bind_out (deref blk) (\<lambda>block.
     let h = b_Header block
     in if h_Version_App h \<noteq> sv_App (st_Version state) \<or> h_Version_Block h \<noteq> sv_Block (st_Version state) then Err (Errorf ''wrong Block.Header.Version'')
        else if h_ChainID h \<noteq> st_ChainID state then Err (Errorf ''wrong Block.Header.ChainID'')
        else if st_LastBlockHeight state = 0 \<and> h_Height h \<noteq> st_InitialHeight state then Err (Errorf ''wrong Block.Header.Height'')
        else if st_LastBlockHeight state > 0 \<and> h_Height h \<noteq> i64 (st_LastBlockHeight state + 1) then Err (Errorf ''wrong Block.Header.Height'')
        else if \<not> BlockID_Equals (h_LastBlockID h) (st_LastBlockID state) then Err (Errorf ''wrong Block.Header.LastBlockID'')
        else if h_AppHash h \<noteq> st_AppHash state then Err (Errorf ''ErrAppHashMismatch'')
        else if h_ConsensusHash h \<noteq> CP_Hash (crypto e) (st_ConsensusParams state) then Err (Errorf ''wrong Block.Header.ConsensusHash'')
        else if h_LastResultsHash h \<noteq> st_LastResultsHash state then Err (Errorf ''wrong Block.Header.LastResultsHash'')
        else bind_out (vals_hash (crypto e) (st_Validators state)) (\<lambda>vh.
             if h_ValidatorsHash h \<noteq> vh then Err (Errorf ''wrong Block.Header.ValidatorsHash'')
             else bind_out (vals_hash (crypto e) (st_NextValidators state)) (\<lambda>nvh.
             if h_NextValidatorsHash h \<noteq> nvh then Err (Errorf ''wrong Block.Header.NextValidatorsHash'')
             else bind_out (validate_last_commit e be state block skipLastCommitVerification) (\<lambda>_.
             bind_out (validate_proposer state block) (\<lambda>_.
             bind_out (validate_time now state block) (\<lambda>_.
             bind_out (EvidenceData_ByteSize e (b_Evidence block)) (\<lambda>(got, _).
             if got > ep_MaxBytes (cp_Evidence (st_ConsensusParams state)) then Err (Errorf ''evidence overflow'') else Ok ()))))))))"

end
