(* ===== verification/StateProps.thy ===== *)
theory StateProps
  imports State VerifiedCommits
begin

text \<open>
  The median of the times of a commit lies between times of honest validators, and what the validation of a block
  against the state guarantees.
\<close>

section \<open>The weighted median\<close>

abbreviation weight_sum :: "WeightedTime list \<Rightarrow> int" where
  "weight_sum ws \<equiv> sum_list (map wt_Weight ws)"

lemma weight_sum_nonneg: "\<forall>w \<in> set ws. 0 \<le> wt_Weight w \<Longrightarrow> 0 \<le> weight_sum ws"
  by (induction ws) auto

lemma median_loop_split:
  assumes "0 \<le> m" "m < weight_sum ws" "weight_sum ws \<le> MaxInt64" "\<forall>w \<in> set ws. 0 \<le> wt_Weight w"
  shows "\<exists>pre w post. ws = pre @ w # post \<and> median_loop ws m = wt_Time w \<and> weight_sum pre \<le> m \<and> m < weight_sum pre + wt_Weight w"
  using assms
proof (induction ws arbitrary: m)
  case (Cons w ws)
  show ?case
  proof (cases "m < wt_Weight w")
    case True
    then show ?thesis using Cons.prems(1) by (intro exI [of _ "[]"]) simp
  next
    case False
    have "0 \<le> wt_Weight w" "0 \<le> weight_sum ws" using Cons.prems(4) weight_sum_nonneg by auto
    then have i: "i64 (m - wt_Weight w) = m - wt_Weight w" using False Cons.prems by (intro i64_id) (simp add: is_i64_def)
    obtain pre x post where "ws = pre @ x # post" "median_loop ws (m - wt_Weight w) = wt_Time x" "weight_sum pre \<le> m - wt_Weight w" "m - wt_Weight w < weight_sum pre + wt_Weight x"
      using Cons.IH [of "m - wt_Weight w"] False Cons.prems \<open>0 \<le> wt_Weight w\<close> by auto
    then show ?thesis using False i by (intro exI [of _ "w # pre"]) auto
  qed
qed simp

lemma weight_filter_le: "\<forall>w \<in> set ws. 0 \<le> wt_Weight w \<Longrightarrow> weight_sum (filter P ws) \<le> weight_sum ws"
  by (induction ws) auto

lemma weight_sum_sort: "weight_sum (filter P (sort_key wt_Time ws)) = weight_sum (filter P ws)"
proof -
  have "mset (filter P (sort_key wt_Time ws)) = mset (filter P ws)" by simp
  then show ?thesis by (metis mset_map sum_mset_sum_list)
qed

lemma median_between:
  assumes "\<forall>w \<in> set ws. 0 < wt_Weight w" "ws \<noteq> []" "weight_sum ws \<le> MaxInt64"
  defines "t \<equiv> median_loop (sort_key wt_Time ws) (weight_sum ws sdiv 2)"
  shows "weight_sum (filter (\<lambda>w. wt_Time w < t) ws) \<le> weight_sum ws div 2" "weight_sum ws div 2 < weight_sum (filter (\<lambda>w. wt_Time w \<le> t) ws)"
proof -
  let ?s = "sort_key wt_Time ws"
  have nn: "\<forall>w \<in> set ?s. 0 \<le> wt_Weight w" using assms(1) by (auto simp: less_imp_le)
  have pos: "0 < weight_sum ws" using assms(1,2) weight_sum_nonneg [of "tl ws"] by (cases ws) (auto simp: less_imp_le add_pos_nonneg)
  have sum: "weight_sum ?s = weight_sum ws" using weight_sum_sort [of "\<lambda>_. True" ws] by simp
  have half: "weight_sum ws sdiv 2 = weight_sum ws div 2" using pos by (simp add: signed_divide_int_def)
  have "\<exists>pre w post. ?s = pre @ w # post \<and> median_loop ?s (weight_sum ws div 2) = wt_Time w \<and> weight_sum pre \<le> weight_sum ws div 2 \<and> weight_sum ws div 2 < weight_sum pre + wt_Weight w"
    using pos sum assms(3) nn by (intro median_loop_split) auto
  then obtain pre w post where s: "?s = pre @ w # post" "t = wt_Time w" "weight_sum pre \<le> weight_sum ws div 2" "weight_sum ws div 2 < weight_sum pre + wt_Weight w"
    unfolding t_def half by blast
  have sorted: "sorted (map wt_Time (pre @ w # post))" unfolding s(1) [symmetric] by simp
  have lt: "filter (\<lambda>x. wt_Time x < t) (w # post) = []" using sorted s(2) by (auto simp: sorted_append filter_empty_conv)
  have le: "filter (\<lambda>x. wt_Time x \<le> t) (pre @ [w]) = pre @ [w]" using sorted s(2) by (auto simp: sorted_append filter_id_conv)
  have nn': "\<forall>x \<in> set pre. 0 \<le> wt_Weight x" "\<forall>x \<in> set post. 0 \<le> wt_Weight x" using nn unfolding s(1) by auto
  have "weight_sum (filter (\<lambda>x. wt_Time x < t) ?s) \<le> weight_sum pre" unfolding s(1) filter_append using lt weight_filter_le [OF nn'(1)] by simp
  then show "weight_sum (filter (\<lambda>w. wt_Time w < t) ws) \<le> weight_sum ws div 2" using s(3) weight_sum_sort by simp
  have "?s = (pre @ [w]) @ post" using s(1) by simp
  then have "filter (\<lambda>x. wt_Time x \<le> t) ?s = (pre @ [w]) @ filter (\<lambda>x. wt_Time x \<le> t) post" using le by (metis filter_append)
  then have "weight_sum pre + wt_Weight w \<le> weight_sum (filter (\<lambda>x. wt_Time x \<le> t) ?s)"
    using weight_sum_nonneg [of "filter (\<lambda>x. wt_Time x \<le> t) post"] nn'(2) by simp
  then show "weight_sum ws div 2 < weight_sum (filter (\<lambda>w. wt_Time w \<le> t) ws)" using s(4) weight_sum_sort by simp
qed

section \<open>The median of a verified commit\<close>

definition voted :: "Commit \<Rightarrow> nat \<Rightarrow> bool" where
  "voted c i \<longleftrightarrow> cs_BlockIDFlag (cm_Signatures c ! i) \<noteq> BlockIDFlagAbsent"

definition vote_time :: "Commit \<Rightarrow> nat \<Rightarrow> go_time" where
  "vote_time c i = cs_Timestamp (cm_Signatures c ! i)"

text \<open>Every vote in a verified commit stands at the index of its validator.\<close>

lemma spec_loop_addresses:
  assumes "spec_loop e f xs seen t" "xs = drop k (enumerate 0 (cm_Signatures (vf_commit f)))" "vf_lookUpByIndex f" "vf_countAllSignatures f"
    "is_i32 (int (val_count (vf_vals f)))" "k \<le> i" "i < length (cm_Signatures (vf_commit f))" "\<not> vf_ignoreSig f (cm_Signatures (vf_commit f) ! i)"
  shows "Address (Validators (vf_vals f) ! i) = cs_ValidatorAddress (cm_Signatures (vf_commit f) ! i)"
  using assms(1,2,6)
proof (induction xs arbitrary: seen t k)
  case Nil
  then have "length (enumerate 0 (cm_Signatures (vf_commit f))) \<le> k" by (metis drop_eq_Nil)
  then show ?case using assms(7) Nil.prems(3) by simp
next
  case (Cons x xs)
  let ?sigs = "cm_Signatures (vf_commit f)"
  have k: "k < length ?sigs" using Cons.prems(2) by (cases "k < length ?sigs") auto
  have "drop k (enumerate 0 ?sigs) = (k, ?sigs ! k) # drop (Suc k) (enumerate 0 ?sigs)"
    using k by (simp add: Cons_nth_drop_Suc [symmetric] nth_enumerate_eq)
  then have x: "x = (k, ?sigs ! k)" and xs: "xs = drop (Suc k) (enumerate 0 ?sigs)" using Cons.prems(2) by auto
  show ?case
  proof (cases "vf_ignoreSig f (?sigs ! k)")
    case True
    then have "spec_loop e f xs seen t" "i \<noteq> k" using Cons.prems(1) assms(8) unfolding x by auto
    then show ?thesis using Cons.IH [OF _ xs] Cons.prems(3) by simp
  next
    case False
    then obtain r where r: "find_validator f k (?sigs ! k) seen = Ok r"
      using Cons.prems(1) unfolding x by (cases "find_validator f k (?sigs ! k) seen") simp_all
    show ?thesis
    proof (cases r)
      case None
      then show ?thesis using r assms(3) by (auto simp: find_validator_def split: if_splits)
    next
      case (Some p)
      obtain val s where p: "p = (val, s)" by (cases p)
      have "spec_loop e f xs s (tally_sig f (?sigs ! k) val t)" using Cons.prems(1) False r Some p assms(4) unfolding x by simp
      then have "i \<noteq> k \<Longrightarrow> ?thesis" using Cons.IH [OF _ xs] Cons.prems(3) by simp
      moreover have "i = k \<Longrightarrow> ?thesis"
        using find_validator_cases [OF r [unfolded Some p] assms(5)] assms(3) by metis
      ultimately show ?thesis by blast
    qed
  qed
qed

lemma verified_addresses:
  assumes "batch_verifier_ok (crypto e) be" "is_i32 (int (val_count vals))" "powers_ok vals"
    "VerifyCommit e be chainID (Some vals) b h (Some c) = Ok ()" "i < val_count vals" "voted c i"
  shows "Address (Validators vals ! i) = cs_ValidatorAddress (cm_Signatures c ! i)"
proof -
  let ?f = "\<lparr>vf_chainID = chainID, vf_vals = vals, vf_commit = c, vf_votingPowerNeeded = i64 (total_power vals * 2) sdiv 3,
        vf_ignoreSig = (\<lambda>c. cs_BlockIDFlag c = BlockIDFlagAbsent), vf_countSig = (\<lambda>c. cs_BlockIDFlag c = BlockIDFlagCommit),
        vf_countAllSignatures = True, vf_lookUpByIndex = True\<rparr>"
  have "verifyBasicValsAndCommit (Some vals) (Some c) h b = Ok ()" "verify_batch_or_single e be ?f = Ok ()"
    using assms(4) TotalVotingPower_total [OF assms(3)] by (auto simp: VerifyCommit_def)
  then show ?thesis
    using spec_loop_addresses [OF verify_accepts [OF assms(1)], of ?f 0 i] assms(2,5,6) by (simp add: basic_ok voted_def)
qed

lemma weigh_sigs_ok:
  assumes "distinct (addrs (Validators vals))" "powers_ok vals" "length sigs + k = val_count vals"
    "\<And>i. i < length sigs \<Longrightarrow> cs_BlockIDFlag (sigs ! i) \<noteq> BlockIDFlagAbsent \<Longrightarrow> Address (Validators vals ! (k + i)) = cs_ValidatorAddress (sigs ! i)"
    "pw = power_of vals (\<lambda>i. i < k \<and> P i)" "\<And>i. i < length sigs \<Longrightarrow> P (k + i) \<longleftrightarrow> cs_BlockIDFlag (sigs ! i) \<noteq> BlockIDFlagAbsent"
  shows "weigh_sigs sigs (Some vals) ws pw = Ok (ws @ map (\<lambda>i. if cs_BlockIDFlag (sigs ! i) \<noteq> BlockIDFlagAbsent
      then Some \<lparr>wt_Time = cs_Timestamp (sigs ! i), wt_Weight = val_power vals (k + i)\<rparr> else None) [0..<length sigs],
    power_of vals P)"
  using assms(3-6)
proof (induction sigs arbitrary: k ws pw)
  case Nil
  then show ?case by (auto intro: power_of_cong)
next
  case (Cons s sigs)
  let ?e = "\<lambda>s k. if cs_BlockIDFlag s \<noteq> BlockIDFlagAbsent then Some \<lparr>wt_Time = cs_Timestamp s, wt_Weight = val_power vals k\<rparr> else None"
  let ?p = "\<lambda>k. power_of vals (\<lambda>i. i < k \<and> P i)"
  have k: "k < val_count vals" "k < length (Validators vals)" using Cons.prems(1) by (simp_all add: val_count_def)
  have m: "map (\<lambda>i. ?e ((s # sigs) ! i) (k + i)) [0..<length (s # sigs)] = ?e s k # map (\<lambda>i. ?e (sigs ! i) (Suc k + i)) [0..<length sigs]"
    by (simp add: upt_conv_Cons map_Suc_upt [symmetric] comp_def del: upt_Suc)
  have IH: "weigh_sigs sigs (Some vals) ws' (?p (Suc k)) = Ok (ws' @ map (\<lambda>i. ?e (sigs ! i) (Suc k + i)) [0..<length sigs], power_of vals P)" for ws'
    using Cons.prems(1) Cons.prems(2) [of "Suc i" for i] Cons.prems(4) [of "Suc i" for i] by (intro Cons.IH) simp_all
  have P0: "P k \<longleftrightarrow> cs_BlockIDFlag s \<noteq> BlockIDFlagAbsent" using Cons.prems(4) [of 0] by simp
  show ?case
  proof (cases "P k")
    case True
    then have "Address (Validators vals ! k) = cs_ValidatorAddress s" using Cons.prems(2) [of 0] P0 by simp
    then have g: "snd (GetByAddress vals (cs_ValidatorAddress s)) = Some (Validators vals ! k)"
      using GetByAddress_Some [OF assms(1), of "Validators vals ! k"] k(2) by simp
    have "?p (Suc k) = power_of vals (\<lambda>i. (i < k \<and> P i) \<or> i = k)" using True by (intro power_of_cong) (auto simp: less_Suc_eq)
    also have "\<dots> = ?p k + val_power vals k" using k(1) by (intro power_of_add) simp_all
    finally have p: "?p (Suc k) = ?p k + val_power vals k" .
    have "i64 (?p k + val_power vals k) = ?p k + val_power vals k" using power_of_bounds [OF assms(2), of "\<lambda>i. i < Suc k \<and> P i"] p by (intro i64_id) (simp add: is_i64_def)
    then show ?thesis using m IH [of "ws @ [?e s k]"] True P0 g Cons.prems(3) p by (auto simp: val_power_def split: prod.splits)
  next
    case False
    then have "?p (Suc k) = ?p k" by (intro power_of_cong) (auto simp: less_Suc_eq)
    then show ?thesis using m IH [of "ws @ [None]"] False P0 Cons.prems(3) by simp
  qed
qed

section \<open>The time of a commit\<close>

definition vote_weights :: "Commit \<Rightarrow> ValidatorSet \<Rightarrow> WeightedTime list" where
  "vote_weights c vals = map (\<lambda>i. \<lparr>wt_Time = vote_time c i, wt_Weight = val_power vals i\<rparr>) (filter (voted c) [0..<val_count vals])"

lemma vote_weights_power:
  "weight_sum (filter (\<lambda>w. Q (wt_Time w)) (vote_weights c vals)) = power_of vals (\<lambda>i. voted c i \<and> Q (vote_time c i))"
proof -
  have "weight_sum (filter (\<lambda>w. Q (wt_Time w)) (vote_weights c vals)) = sum_list (map (val_power vals) (filter (\<lambda>i. voted c i \<and> Q (vote_time c i)) [0..<val_count vals]))"
    by (simp add: vote_weights_def filter_map comp_def conj_commute)
  then show ?thesis by (simp add: power_of_def wsum_def sum_list_map_filter' interv_sum_list_conv_sum_set_nat atLeast0LessThan)
qed

lemma MedianTime_weights:
  assumes "distinct (addrs (Validators vals))" "powers_ok vals" "length (cm_Signatures c) = val_count vals"
    "\<And>i. i < val_count vals \<Longrightarrow> voted c i \<Longrightarrow> Address (Validators vals ! i) = cs_ValidatorAddress (cm_Signatures c ! i)"
  shows "MedianTime (Some c) (Some vals) = Ok (median_loop (sort_key wt_Time (vote_weights c vals)) (weight_sum (vote_weights c vals) sdiv 2))"
proof -
  let ?e = "\<lambda>i. if voted c i then Some \<lparr>wt_Time = vote_time c i, wt_Weight = val_power vals i\<rparr> else None"
  have "weigh_sigs (cm_Signatures c) (Some vals) [] 0 = Ok (map ?e [0..<val_count vals], power_of vals (voted c))"
    using weigh_sigs_ok [OF assms(1,2), of "cm_Signatures c" 0 0 "voted c" "[]"] assms(3,4) by (simp add: voted_def vote_time_def)
  moreover have "List.map_filter id (map ?e [0..<val_count vals]) = vote_weights c vals"
    by (simp add: vote_weights_def map_filter_def filter_map comp_def)
  moreover have "power_of vals (voted c) = weight_sum (vote_weights c vals)" using vote_weights_power [of "\<lambda>_. True"] by simp
  ultimately show ?thesis by (simp add: MedianTime_def WeightedMedian_def)
qed

lemma MedianTime_honest:
  assumes "batch_verifier_ok (crypto e) be" "powers_ok vals" "is_i32 (int (val_count vals))" "distinct (addrs (Validators vals))"
    "VerifyCommit e be chainID (Some vals) b h (Some c) = Ok ()" "3 * power_of vals faulty < total_power vals"
  shows "\<exists>t. MedianTime (Some c) (Some vals) = Ok t \<and> (\<exists>i < val_count vals. \<not> faulty i \<and> voted c i \<and> vote_time c i \<le> t) \<and>
    (\<exists>j < val_count vals. \<not> faulty j \<and> voted c j \<and> t \<le> vote_time c j)"
proof -
  let ?ws = "vote_weights c vals" and ?S = "power_of vals (voted c)" and ?F = "power_of vals faulty"
  define t where "t = median_loop (sort_key wt_Time ?ws) (weight_sum ?ws sdiv 2)"
  have c: "length (cm_Signatures c) = val_count vals" "2 * total_power vals < 3 * power_of vals (\<lambda>i. precommit_signed e chainID c (Validators vals ! i) i)"
    using commit_two_thirds [OF assms(1-3)] assms(5) by blast+
  have S: "weight_sum ?ws = ?S" using vote_weights_power [of "\<lambda>_. True"] by simp
  have q: "2 * total_power vals < 3 * ?S"
    using c(2) power_of_mono [OF assms(2), of "\<lambda>i. precommit_signed e chainID c (Validators vals ! i) i" "voted c"]
    by (fastforce simp: precommit_signed_def voted_def)
  have half: "?F \<le> ?S div 2" "?F < ?S - ?S div 2" using q assms(6) by simp_all
  have pos: "\<forall>w \<in> set ?ws. 0 < wt_Weight w" using vp.weight_pos [OF assms(2)] by (auto simp: vote_weights_def)
  have "0 < ?S" using half power_of_nonneg [OF assms(2), of faulty] by linarith
  then have ne: "?ws \<noteq> []" using S by auto
  have m: "MedianTime (Some c) (Some vals) = Ok t"
    using MedianTime_weights [OF assms(4,2) c(1)] verified_addresses [OF assms(1,3,2,5)] by (simp add: t_def)
  have "weight_sum ?ws \<le> MaxInt64" using S power_of_bounds(2) [OF assms(2), of "voted c"] by simp
  from median_between [OF pos ne this]
  have b: "power_of vals (\<lambda>i. voted c i \<and> vote_time c i < t) \<le> ?S div 2" "?S div 2 < power_of vals (\<lambda>i. voted c i \<and> vote_time c i \<le> t)"
    using vote_weights_power [of "\<lambda>x. x < t"] vote_weights_power [of "\<lambda>x. x \<le> t"] S by (simp_all add: t_def)
  have split: "?S = power_of vals (\<lambda>i. voted c i \<and> vote_time c i < t) + power_of vals (\<lambda>i. voted c i \<and> t \<le> vote_time c i)"
    unfolding power_of_def wsum_def sum.distrib [symmetric] by (intro sum.cong) auto
  have "\<exists>i < val_count vals. \<not> faulty i \<and> voted c i \<and> Q (vote_time c i)" if Q: "?F < power_of vals (\<lambda>i. voted c i \<and> Q (vote_time c i))" for Q
    using Q power_of_mono [OF assms(2), of "\<lambda>i. voted c i \<and> Q (vote_time c i)" faulty] by fastforce
  from this [of "\<lambda>x. x \<le> t"] this [of "\<lambda>x. t \<le> x"] show ?thesis using m b split half by (intro exI [of _ t]) auto
qed

section \<open>Accepted blocks\<close>

lemma validateBlock_Ok:
  "validateBlock te e be now state (Some b) False = Ok () \<longleftrightarrow>
     Block_ValidateBasic te e (Some b) = Ok () \<and> h_Version_App (b_Header b) = sv_App (st_Version state) \<and> h_Version_Block (b_Header b) = sv_Block (st_Version state) \<and>
     h_ChainID (b_Header b) = st_ChainID state \<and> (st_LastBlockHeight state = 0 \<longrightarrow> h_Height (b_Header b) = st_InitialHeight state) \<and>
     (st_LastBlockHeight state > 0 \<longrightarrow> h_Height (b_Header b) = i64 (st_LastBlockHeight state + 1)) \<and>
     BlockID_Equals (h_LastBlockID (b_Header b)) (st_LastBlockID state) \<and> h_AppHash (b_Header b) = st_AppHash state \<and>
     h_ConsensusHash (b_Header b) = CP_Hash (crypto e) (st_ConsensusParams state) \<and> h_LastResultsHash (b_Header b) = st_LastResultsHash state \<and>
     vals_hash (crypto e) (st_Validators state) = Ok (h_ValidatorsHash (b_Header b)) \<and> vals_hash (crypto e) (st_NextValidators state) = Ok (h_NextValidatorsHash (b_Header b)) \<and>
     validate_last_commit e be state b False = Ok () \<and> validate_proposer state b = Ok () \<and> validate_time now state b = Ok () \<and>
     (\<exists>n d. EvidenceData_ByteSize e (b_Evidence b) = Ok (n, d) \<and> n \<le> ep_MaxBytes (cp_Evidence (st_ConsensusParams state)))"
  unfolding validateBlock_def Let_def by (auto simp: not_less split: if_splits)

text \<open>A block at a height after the first, accepted against the state.\<close>

lemma accepted_block:
  assumes "batch_verifier_ok (crypto e) be" "st_LastValidators state = Some lvals" "powers_ok lvals" "is_i32 (int (val_count lvals))" "distinct (addrs (Validators lvals))"
    "3 * power_of lvals faulty < total_power lvals" "0 < st_InitialHeight state" "st_InitialHeight state \<le> st_LastBlockHeight state" "st_LastBlockHeight state < MaxInt64"
    "validateBlock te e be now state (Some b) False = Ok ()"
  defines "h \<equiv> b_Header b"
  shows "h_Height h = st_LastBlockHeight state + 1 \<and> h_ChainID h = st_ChainID state \<and> h_LastBlockID h = st_LastBlockID state \<and>
    vals_hash (crypto e) (st_Validators state) = Ok (h_ValidatorsHash h) \<and> vals_hash (crypto e) (st_NextValidators state) = Ok (h_NextValidatorsHash h) \<and>
    h_AppHash h = st_AppHash state \<and> h_LastResultsHash h = st_LastResultsHash state \<and> h_ConsensusHash h = CP_Hash (crypto e) (st_ConsensusParams state) \<and>
    (\<exists>vals. st_Validators state = Some vals \<and> HasAddress vals (h_ProposerAddress h)) \<and>
    (\<exists>c. b_LastCommit b = Some c \<and> map_out fst (Commit_Hash e (Some c)) = Ok (h_LastCommitHash h) \<and> cm_Height c = st_LastBlockHeight state \<and> cm_BlockID c = st_LastBlockID state \<and>
       2 * total_power lvals < 3 * power_of lvals (\<lambda>i. precommit_signed e (st_ChainID state) c (Validators lvals ! i) i) \<and>
       st_LastBlockTime state < h_Time h \<and> (\<exists>i < val_count lvals. \<not> faulty i \<and> voted c i \<and> vote_time c i \<le> h_Time h) \<and>
       (\<exists>j < val_count lvals. \<not> faulty j \<and> voted c j \<and> h_Time h \<le> vote_time c j))"
proof -
  have i64: "i64 (st_LastBlockHeight state + 1) = st_LastBlockHeight state + 1" "i64 (st_LastBlockHeight state + 1 - 1) = st_LastBlockHeight state"
    using assms(7-9) by (simp_all add: i64_id is_i64_def)
  note v = assms(10) [unfolded validateBlock_Ok, folded h_def]
  have height: "h_Height h = st_LastBlockHeight state + 1" using v i64 assms(7,8) by simp
  obtain c where c: "b_LastCommit b = Some c" "map_out fst (Commit_Hash e (Some c)) = Ok (h_LastCommitHash h)"
    using v by (auto simp: Block_ValidateBasic_def h_def split: option.splits if_splits)
  have vc: "VerifyCommit e be (st_ChainID state) (Some lvals) (st_LastBlockID state) (st_LastBlockHeight state) (Some c) = Ok ()"
    using v height i64 assms(2,8) c by (auto simp: validate_last_commit_def h_def split: if_splits)
  have time: "st_LastBlockTime state < h_Time h" "MedianTime (Some c) (Some lvals) = Ok (h_Time h)"
    using v height assms(2,8) c by (auto simp: validate_time_def Let_def h_def split: if_splits)
  have "\<exists>vals. st_Validators state = Some vals \<and> HasAddress vals (h_ProposerAddress h)"
    using v by (auto simp: validate_proposer_def h_def split: if_splits)
  then show ?thesis
    using v c height time commit_two_thirds [OF assms(1,3,4)] vc MedianTime_honest [OF assms(1,3,4,5) vc assms(6)]
    by (auto simp: BlockID_Equals_def PSH_Equals_def)
qed

section \<open>Blocks made by a proposer\<close>

definition state_ok :: "State \<Rightarrow> bool" where
  "state_ok state \<longleftrightarrow> sv_Block (st_Version state) = BlockProtocol \<and> length (st_ChainID state) \<le> MaxChainIDLen \<and> BlockID_ValidateBasic (st_LastBlockID state) = Ok () \<and>
     ValidateHash (st_LastResultsHash state) = Ok () \<and> 0 < st_InitialHeight state \<and> st_InitialHeight state \<le> st_LastBlockHeight state \<and> st_LastBlockHeight state < MaxInt64"

lemma length_HashFromByteSlices: "(\<And>x. length (hf x) = tmhash_Size) \<Longrightarrow> HashFromByteSlices hf items = Ok h \<Longrightarrow> length h = tmhash_Size"
  using length_merkle_root by (fastforce simp: HashFromByteSlices_def hashFromByteSlices_root)

lemma validate_hash_of: "(\<And>x. length (hf x) = tmhash_Size) \<Longrightarrow> HashFromByteSlices hf items = Ok h \<Longrightarrow> ValidateHash h = Ok () \<and> h \<noteq> []"
  using length_HashFromByteSlices by (fastforce simp: ValidateHash_def)

text \<open>The hash cached in a commit takes no part in its verification.\<close>

lemma cached_commit [simp]:
  "Commit_VoteSignBytes e (c\<lparr>cm_hash := x\<rparr>) = Commit_VoteSignBytes e c" "Commit_ValidateBasic (c\<lparr>cm_hash := x\<rparr>) = Commit_ValidateBasic c"
  by (simp_all add: fun_eq_iff Commit_VoteSignBytes_def Commit_GetVote_def Commit_ValidateBasic_def)

lemma cached_loops:
  assumes "\<And>chainID i. Commit_VoteSignBytes e c chainID i = Commit_VoteSignBytes e (vf_commit f) chainID i"
  shows "single_loop e (f\<lparr>vf_commit := c\<rparr>) xs seen t = single_loop e f xs seen t"
    "batch_loop e be k (f\<lparr>vf_commit := c\<rparr>) xs seen t batch = batch_loop e be k f xs seen t batch"
proof -
  have [simp]: "find_validator (f\<lparr>vf_commit := c\<rparr>) = find_validator f" "tally_sig (f\<lparr>vf_commit := c\<rparr>) = tally_sig f"
    by (simp_all add: fun_eq_iff find_validator_def tally_sig_def)
  show "single_loop e (f\<lparr>vf_commit := c\<rparr>) xs seen t = single_loop e f xs seen t"
    "batch_loop e be k (f\<lparr>vf_commit := c\<rparr>) xs seen t batch = batch_loop e be k f xs seen t batch"
    by (induction xs arbitrary: seen t batch) (simp_all add: assms split_paired_all Let_def cong: if_cong option.case_cong prod.case_cong)
qed

lemma VerifyCommit_cached: "VerifyCommit e be chainID vals b h (Some (c\<lparr>cm_hash := x\<rparr>)) = VerifyCommit e be chainID vals b h (Some c)"
proof -
  have [simp]: "verifyCommitBatch e be (f\<lparr>vf_commit := (vf_commit f)\<lparr>cm_hash := x\<rparr>\<rparr>) = verifyCommitBatch e be f"
      "verifyCommitSingle e (f\<lparr>vf_commit := (vf_commit f)\<lparr>cm_hash := x\<rparr>\<rparr>) = verifyCommitSingle e f" for f
    by (simp_all add: verifyCommitBatch_def verifyCommitSingle_def cached_loops cong: if_cong prod.case_cong)
  have "verify_batch_or_single e be (f\<lparr>vf_commit := (vf_commit f)\<lparr>cm_hash := x\<rparr>\<rparr>) = verify_batch_or_single e be f" for f
    by (simp add: verify_batch_or_single_def shouldBatchVerify_def cong: if_cong)
  from this [of "\<lparr>vf_chainID = chainID, vf_vals = v, vf_commit = c, vf_votingPowerNeeded = p,
        vf_ignoreSig = (\<lambda>c. cs_BlockIDFlag c = BlockIDFlagAbsent), vf_countSig = (\<lambda>c. cs_BlockIDFlag c = BlockIDFlagCommit),
        vf_countAllSignatures = True, vf_lookUpByIndex = True\<rparr>" for v p]
  show ?thesis by (simp add: VerifyCommit_def verifyBasicValsAndCommit_def split: option.splits)
qed

text \<open>A cached hash of the commit is the computed one; the hash of the data may be one the application has chosen.\<close>

lemma Commit_Hash_filled:
  assumes "\<And>x. length (sha (crypto e) x) = tmhash_Size" "map_out fst (Commit_Hash e (Some (c\<lparr>cm_hash := None\<rparr>))) = Ok lh" "cm_hash c \<in> {None, Some lh}"
  shows "Commit_Hash e (Some c) = Ok (lh, Some (c\<lparr>cm_hash := Some lh\<rparr>))" "ValidateHash lh = Ok () \<and> lh \<noteq> []"
  using assms(2,3) by (cases c; auto simp: Commit_Hash_def dest!: validate_hash_of [OF assms(1)])+

lemma Data_Hash_filled:
  assumes "\<And>x. length (hf x) = tmhash_Size" "Data_Hash te hf data = Ok (dh, data')" "\<forall>r. d_hash data = Some r \<longrightarrow> ValidateHash r = Ok ()"
  shows "ValidateHash dh = Ok ()" "d_hash data' = Some dh"
  using assms(2,3) by (auto simp: Data_Hash_def Txs_Hash_def split: option.splits dest!: validate_hash_of [OF assms(1)])

lemma made_block_accepted:
  assumes "batch_verifier_ok (crypto e) be" "st_LastValidators state = Some lvals" "powers_ok lvals" "is_i32 (int (val_count lvals))" "distinct (addrs (Validators lvals))"
    "3 * power_of lvals faulty < total_power lvals" "state_ok state" "\<And>x. length (sha (crypto e) x) = tmhash_Size"
    "VerifyCommit e be (st_ChainID state) (Some lvals) (st_LastBlockID state) (st_LastBlockHeight state) (Some c) = Ok ()" "Commit_ValidateBasic c = Ok ()"
    "\<And>i. i < val_count lvals \<Longrightarrow> \<not> faulty i \<Longrightarrow> voted c i \<Longrightarrow> st_LastBlockTime state < vote_time c i \<and> vote_time c i < now + maxBlockTimeTolerance"
    "map_out fst (Commit_Hash e (Some (c\<lparr>cm_hash := None\<rparr>))) = Ok lh" "cm_hash c \<in> {None, Some lh}"
    "is_Ok (Data_Hash te (sha (crypto e)) data)" "\<forall>r. d_hash data = Some r \<longrightarrow> ValidateHash r = Ok ()"
    "\<forall>ev \<in> set evs. Evidence_ValidateBasic e ev = Ok ()" "is_Ok (EvidenceList_Hash e evs)"
    "EvidenceData_ByteSize e \<lparr>ed_Evidence = evs, ed_hash = None, ed_byteSize = 0\<rparr> = Ok (n, ed)" "n \<le> ep_MaxBytes (cp_Evidence (st_ConsensusParams state))"
    "st_Validators state = Some vals" "is_Ok (VS_Hash (crypto e) vals)" "st_NextValidators state = Some nvals" "is_Ok (VS_Hash (crypto e) nvals)"
    "HasAddress vals addr" "length addr = AddressSize"
  shows "\<exists>b. MakeBlockWithoutPartset te e state (st_LastBlockHeight state + 1) data (Some c) evs addr = Ok b \<and> validateBlock te e be now state (Some b) False = Ok ()"
proof -
  obtain t where t: "MedianTime (Some c) (Some lvals) = Ok t" "st_LastBlockTime state < t" "t < now + maxBlockTimeTolerance"
    using MedianTime_honest [OF assms(1,3,4,5,9,6)] assms(11) by (meson dual_order.strict_trans1 dual_order.strict_trans2)
  define lc where "lc = Some (c\<lparr>cm_hash := Some lh\<rparr>)"
  have lh: "Commit_Hash e (Some c) = Ok (lh, lc)" "ValidateHash lh = Ok () \<and> lh \<noteq> []"
    using Commit_Hash_filled [OF assms(8,12,13)] by (simp_all add: lc_def)
  obtain dh data' where dh: "Data_Hash te (sha (crypto e)) data = Ok (dh, data')" using assms(14) by (auto simp: is_Ok_iff)
  then have dhv: "ValidateHash dh = Ok ()" "d_hash data' = Some dh" using Data_Hash_filled [OF assms(8) dh assms(15)] by simp_all
  obtain eh where eh: "EvidenceList_Hash e evs = Ok eh" using assms(17) by (auto simp: is_Ok_iff)
  then have ehv: "ValidateHash eh = Ok ()" "eh \<noteq> []" by (auto simp: EvidenceList_Hash_def dest!: validate_hash_of [OF assms(8)])
  obtain vh where vh: "VS_Hash (crypto e) vals = Ok vh" using assms(21) by (auto simp: is_Ok_iff)
  then have vhv: "ValidateHash vh = Ok ()" by (auto simp: VS_Hash_def dest!: validate_hash_of [OF assms(8)])
  obtain nh where nh: "VS_Hash (crypto e) nvals = Ok nh" using assms(23) by (auto simp: is_Ok_iff)
  then have nhv: "ValidateHash nh = Ok ()" by (auto simp: VS_Hash_def dest!: validate_hash_of [OF assms(8)])
  define b where "b = \<lparr>b_verifiedHash = [], b_Header = Header_Populate (zero_Header\<lparr>h_Height := st_LastBlockHeight state + 1, h_LastCommitHash := lh, h_DataHash := dh, h_EvidenceHash := eh\<rparr>)
      (sv_Block (st_Version state), sv_App (st_Version state)) (st_ChainID state) t (st_LastBlockID state) vh nh (CP_Hash (crypto e) (st_ConsensusParams state)) (st_AppHash state)
      (st_LastResultsHash state) addr, b_Data = data', b_Evidence = \<lparr>ed_Evidence = evs, ed_hash = Some eh, ed_byteSize = 0\<rparr>, b_LastCommit = lc, b_cachedHashes = []\<rparr>"
  note st = assms(7) [unfolded state_ok_def]
  have made: "MakeBlockWithoutPartset te e state (st_LastBlockHeight state + 1) data (Some c) evs addr = Ok b"
    using st assms(2,20,22) t(1) lh(1) dh eh vh nh
    by (simp add: MakeBlockWithoutPartset_def MakeBlock_def fillHeader_def zero_Header_def EvidenceData_Hash_def vals_hash_def b_def Header_Populate_def)
  have "Header_ValidateBasic (b_Header b) = Ok ()"
    using st lh dhv ehv vhv nhv assms(8,25) by (simp add: Header_ValidateBasic_def b_def Header_Populate_def zero_Header_def CP_Hash_def) (simp add: ValidateHash_def)
  moreover have "fold_out (\<lambda>ev _. map_err (\<lambda>_. Errorf ''invalid evidence'') (Evidence_ValidateBasic e ev)) evs () = Ok ()"
    using assms(16) by (induction evs) auto
  ultimately have "Block_ValidateBasic te e (Some b) = Ok ()"
    using lh dhv eh assms(10) by (simp add: Block_ValidateBasic_def b_def lc_def Header_Populate_def Commit_Hash_def Data_Hash_def EvidenceData_Hash_def)
  moreover have "EvidenceData_ByteSize e (b_Evidence b) = Ok (n, ed\<lparr>ed_hash := Some eh\<rparr>)"
    using assms(18) by (auto simp: EvidenceData_ByteSize_def EvidenceData_ToProto_def b_def split: if_splits)
  moreover have "VerifyCommit e be (st_ChainID state) (Some lvals) (st_LastBlockID state) (st_LastBlockHeight state) lc = Ok ()"
    using assms(9) VerifyCommit_cached by (simp add: lc_def)
  moreover have "MedianTime lc (Some lvals) = Ok t" using t(1) by (simp add: MedianTime_def lc_def)
  moreover have "i64 (st_LastBlockHeight state + 1) = st_LastBlockHeight state + 1" "i64 (st_LastBlockHeight state) = st_LastBlockHeight state"
    using st by (simp_all add: i64_id is_i64_def)
  ultimately have "validateBlock te e be now state (Some b) False = Ok ()"
    unfolding validateBlock_Ok using st assms(2,19,20,22,24,25) t(2,3) vh nh
    by (auto simp: b_def Header_Populate_def BlockID_Equals_def PSH_Equals_def vals_hash_def validate_last_commit_def validate_proposer_def validate_time_def)
  then show ?thesis using made by blast
qed

section \<open>The properties\<close>

definition demo_state :: State where
  "demo_state = \<lparr>st_Version = \<lparr>sv_Block = BlockProtocol, sv_App = 1, sv_Software = []\<rparr>, st_ChainID = [99], st_InitialHeight = 1, st_LastBlockHeight = 5,
     st_LastBlockID = demo_bid 1, st_LastBlockTime = 3, st_NextValidators = Some demo_vals, st_Validators = Some demo_vals, st_LastValidators = Some demo_vals,
     st_LastHeightValidatorsChanged = 1, st_ConsensusParams = \<lparr>cp_Block = \<lparr>bp_MaxBytes = 1000, bp_MaxGas = 1\<rparr>, cp_Evidence = \<lparr>ep_MaxAgeNumBlocks = 10, ep_MaxAgeDuration = 10, ep_MaxBytes = 100\<rparr>,
       cp_Validator = \<lparr>PubKeyTypes = []\<rparr>, cp_Version = \<lparr>vp_App = 1\<rparr>, cp_ABCI = \<lparr>VoteExtensionsEnableHeight = 0\<rparr>\<rparr>, st_LastHeightConsensusParamsChanged = 1,
     st_LastResultsHash = [], st_AppHash = [], st_Timeouts = zero_TimeoutInfo\<rparr>"

lemma demo_verified:
  "VerifyCommit (demo_env [demo_bytes 1]) (demo_batch (crypto (demo_env [demo_bytes 1]))) [99] (Some demo_vals) (demo_bid 1) 5 (Some (demo_commit [])) = Ok ()"
proof -
  have "length (cm_Signatures (demo_commit [])) = 1" "cm_Height (demo_commit []) = 5" "cm_BlockID (demo_commit []) = demo_bid 1" "cs_BlockIDFlag demo_commit_sig = BlockIDFlagCommit"
    by (simp_all add: demo_commit_def demo_commit_sig_def)
  then show ?thesis
    using TotalVotingPower_total [OF demo_vals(1)]
    by (simp add: VerifyCommit_def basic_ok verify_batch_or_single_def shouldBatchVerify_def i64_idI demo_loop [where sigs = "[]"])
qed

lemma demo_faulty: "3 * power_of demo_vals (\<lambda>_. False) < total_power demo_vals"
  by simp

definition demo_te :: tx_env where
  "demo_te = \<lparr>pw_ConsumeTag = (\<lambda>_. None), pw_ConsumeBytes = (\<lambda>_. None), pw_ConsumeFieldValue = (\<lambda>_ _ _. None), sq_ProtoBlobTxTypeID = [66],
     sq_ProtoIndexWrapperTypeID = [73], sq_NamespaceIDSize = 2, sq_UnmarshalBlobTxNoCopy = (\<lambda>_. None)\<rparr>"

definition demo_data :: Data where
  "demo_data = \<lparr>d_Txs = [[1, 2]], d_SquareSize = 1, d_hash = Some (replicate 32 9)\<rparr>"

definition demo_commit_hash :: bytes where
  "demo_commit_hash = merkle_root demo_hash [pb_varint 8 (to_uint64 BlockIDFlagCommit) @ pb_bytes 18 (replicate AddressSize 7) @
     pb_msg 26 (uvarint (zigzag 7)) @ pb_bytes 34 (demo_sign (demo_bytes 1))]"

lemma demo_state_simps: "st_LastValidators demo_state = Some demo_vals" "st_Validators demo_state = Some demo_vals" "st_NextValidators demo_state = Some demo_vals"
    "st_LastBlockHeight demo_state = 5" "st_InitialHeight demo_state = 1" "st_LastBlockTime demo_state = 3" "st_ChainID demo_state = [99]" "st_LastBlockID demo_state = demo_bid 1"
    "ep_MaxBytes (cp_Evidence (st_ConsensusParams demo_state)) = 100"
  by (simp_all add: demo_state_def)

text \<open>The commit with its hash cached.\<close>

definition demo_cached :: Commit where
  "demo_cached = (demo_commit [])\<lparr>cm_hash := Some demo_commit_hash\<rparr>"

lemma demo_made:
  defines "e \<equiv> demo_env [demo_bytes 1]"
  shows "batch_verifier_ok (crypto e) (demo_batch (crypto e))" "st_LastValidators demo_state = Some demo_vals" "powers_ok demo_vals" "is_i32 (int (val_count demo_vals))"
    "distinct (addrs (Validators demo_vals))" "3 * power_of demo_vals (\<lambda>_. False) < total_power demo_vals" "state_ok demo_state" "\<And>x. length (sha (crypto e) x) = tmhash_Size"
    "VerifyCommit e (demo_batch (crypto e)) (st_ChainID demo_state) (Some demo_vals) (st_LastBlockID demo_state) (st_LastBlockHeight demo_state) (Some demo_cached) = Ok ()"
    "Commit_ValidateBasic demo_cached = Ok ()"
    "\<And>i. i < val_count demo_vals \<Longrightarrow> \<not> False \<Longrightarrow> voted demo_cached i \<Longrightarrow>
      st_LastBlockTime demo_state < vote_time demo_cached i \<and> vote_time demo_cached i < 10 + maxBlockTimeTolerance"
    "map_out fst (Commit_Hash e (Some (demo_cached\<lparr>cm_hash := None\<rparr>))) = Ok demo_commit_hash" "cm_hash demo_cached \<in> {None, Some demo_commit_hash}"
    "is_Ok (Data_Hash demo_te (sha (crypto e)) demo_data)" "\<forall>r. d_hash demo_data = Some r \<longrightarrow> ValidateHash r = Ok ()"
    "\<forall>ev \<in> set []. Evidence_ValidateBasic e ev = Ok ()" "is_Ok (EvidenceList_Hash e [])"
    "EvidenceData_ByteSize e \<lparr>ed_Evidence = [], ed_hash = None, ed_byteSize = 0\<rparr> = Ok (0, \<lparr>ed_Evidence = [], ed_hash = None, ed_byteSize = 0\<rparr>)"
    "0 \<le> ep_MaxBytes (cp_Evidence (st_ConsensusParams demo_state))" "st_Validators demo_state = Some demo_vals" "is_Ok (VS_Hash (crypto e) demo_vals)"
    "st_NextValidators demo_state = Some demo_vals" "is_Ok (VS_Hash (crypto e) demo_vals)" "HasAddress demo_vals (replicate 20 7)" "length (replicate 20 (7 :: byte)) = AddressSize"
  using demo_verified demo_faulty demo_batch_ok unfolding e_def demo_cached_def VerifyCommit_cached
  by (simp_all add: demo_state_simps is_i32_def addrs_def state_ok_def demo_state_def demo_bid_def BlockID_ValidateBasic_def PSH_ValidateBasic_def ValidateHash_def
    Commit_ValidateBasic_def demo_commit_def BlockID_IsZero_def Commit_Hash_def CommitSig_Marshal_def demo_commit_sig_def HashFromByteSlices_def hashFromByteSlices_root
    demo_env_def toy_env_def is_Ok_iff VS_Hash_def Validator_Bytes_def demo_val_def demo_hash_def demo_data_def Data_Hash_def demo_commit_hash_def EvidenceList_Hash_def EvidenceData_ByteSize_def
    HasAddress_def vote_time_def maxBlockTimeTolerance_def from_protos_def demo_sig_basic [unfolded demo_commit_sig_def])

text \<open>C17. The time of a commit is bounded by honest clocks (BFT time): when \<open>VerifyCommit\<close> accepts a commit and validators with less
  than a third of the voting power are faulty, \<open>MedianTime\<close> returns a time that lies between the times of two votes of the
  commit by validators that are not faulty.\<close>

theorem median_time_honest:
  assumes "batch_verifier_ok (crypto e) be" "powers_ok vals" "is_i32 (int (val_count vals))" "distinct (addrs (Validators vals))"
    "VerifyCommit e be chainID (Some vals) b h (Some c) = Ok ()" "3 * power_of vals faulty < total_power vals"
  shows "\<exists>t. MedianTime (Some c) (Some vals) = Ok t \<and> (\<exists>i < val_count vals. \<not> faulty i \<and> voted c i \<and> vote_time c i \<le> t) \<and>
    (\<exists>j < val_count vals. \<not> faulty j \<and> voted c j \<and> t \<le> vote_time c j)"
  using assms by (rule MedianTime_honest)

theorem median_time_honest_witness:
  "\<exists>t. MedianTime (Some (demo_commit [])) (Some demo_vals) = Ok t \<and> (\<exists>i < 1. voted (demo_commit []) i \<and> vote_time (demo_commit []) i \<le> t)"
  using median_time_honest [OF demo_batch_ok demo_vals(1) _ _ demo_verified demo_faulty] by (auto simp: is_i32_def addrs_def)

text \<open>C5. An accepted block extends the chain: when \<open>validateBlock\<close> accepts a block after the first one, its header has the next height and
  the state's chain, last block, application hash, results hash and parameters hash, and the hashes of the current and the next
  validator set; its proposer is a validator; its last commit, the one its header has the hash of, is for the last block and signed
  by more than two thirds of the last validator set; and its time is later than the last one's and between the times of two honest votes.\<close>

theorem accepted_block_sound:
  assumes "batch_verifier_ok (crypto e) be" "st_LastValidators state = Some lvals" "powers_ok lvals" "is_i32 (int (val_count lvals))" "distinct (addrs (Validators lvals))"
    "3 * power_of lvals faulty < total_power lvals" "0 < st_InitialHeight state" "st_InitialHeight state \<le> st_LastBlockHeight state" "st_LastBlockHeight state < MaxInt64"
    "validateBlock te e be now state (Some b) False = Ok ()"
  defines "h \<equiv> b_Header b"
  shows "h_Height h = st_LastBlockHeight state + 1 \<and> h_ChainID h = st_ChainID state \<and> h_LastBlockID h = st_LastBlockID state \<and>
    vals_hash (crypto e) (st_Validators state) = Ok (h_ValidatorsHash h) \<and> vals_hash (crypto e) (st_NextValidators state) = Ok (h_NextValidatorsHash h) \<and>
    h_AppHash h = st_AppHash state \<and> h_LastResultsHash h = st_LastResultsHash state \<and> h_ConsensusHash h = CP_Hash (crypto e) (st_ConsensusParams state) \<and>
    (\<exists>vals. st_Validators state = Some vals \<and> HasAddress vals (h_ProposerAddress h)) \<and>
    (\<exists>c. b_LastCommit b = Some c \<and> map_out fst (Commit_Hash e (Some c)) = Ok (h_LastCommitHash h) \<and> cm_Height c = st_LastBlockHeight state \<and> cm_BlockID c = st_LastBlockID state \<and>
       2 * total_power lvals < 3 * power_of lvals (\<lambda>i. precommit_signed e (st_ChainID state) c (Validators lvals ! i) i) \<and>
       st_LastBlockTime state < h_Time h \<and> (\<exists>i < val_count lvals. \<not> faulty i \<and> voted c i \<and> vote_time c i \<le> h_Time h) \<and>
       (\<exists>j < val_count lvals. \<not> faulty j \<and> voted c j \<and> h_Time h \<le> vote_time c j))"
  unfolding h_def using assms(1-10) by (rule accepted_block)

theorem accepted_block_sound_witness:
  "\<exists>b. validateBlock demo_te (demo_env [demo_bytes 1]) (demo_batch (crypto (demo_env [demo_bytes 1]))) 10 demo_state (Some b) False = Ok () \<and>
     h_Height (b_Header b) = 6 \<and> h_LastBlockID (b_Header b) = demo_bid 1 \<and> 3 < h_Time (b_Header b)"
proof -
  obtain b where b: "validateBlock demo_te (demo_env [demo_bytes 1]) (demo_batch (crypto (demo_env [demo_bytes 1]))) 10 demo_state (Some b) False = Ok ()"
    using made_block_accepted [OF demo_made] by blast
  then show ?thesis using accepted_block_sound [OF demo_made(1-6) _ _ _ b] by (auto simp: demo_state_simps)
qed

text \<open>C10. A block made by a correct proposer is accepted: from a well-formed state after the first block and a verified last commit whose honest
  votes are timed after the last block and not too far in the future, with valid evidence that fits, \<open>MakeBlock\<close> returns a block that
  \<open>validateBlock\<close> accepts against that state, whatever times the faulty validators put in their votes. The data may carry a root chosen by
  the application, as \<open>CreateProposalBlock\<close> passes it on, or none; the commit may have its hash cached, as a commit does that was hashed before.\<close>

theorem honest_block_accepted:
  assumes "batch_verifier_ok (crypto e) be" "st_LastValidators state = Some lvals" "powers_ok lvals" "is_i32 (int (val_count lvals))" "distinct (addrs (Validators lvals))"
    "3 * power_of lvals faulty < total_power lvals" "state_ok state" "\<And>x. length (sha (crypto e) x) = tmhash_Size"
    "VerifyCommit e be (st_ChainID state) (Some lvals) (st_LastBlockID state) (st_LastBlockHeight state) (Some c) = Ok ()" "Commit_ValidateBasic c = Ok ()"
    "\<And>i. i < val_count lvals \<Longrightarrow> \<not> faulty i \<Longrightarrow> voted c i \<Longrightarrow> st_LastBlockTime state < vote_time c i \<and> vote_time c i < now + maxBlockTimeTolerance"
    "map_out fst (Commit_Hash e (Some (c\<lparr>cm_hash := None\<rparr>))) = Ok lh" "cm_hash c \<in> {None, Some lh}"
    "is_Ok (Data_Hash te (sha (crypto e)) data)" "\<forall>r. d_hash data = Some r \<longrightarrow> ValidateHash r = Ok ()"
    "\<forall>ev \<in> set evs. Evidence_ValidateBasic e ev = Ok ()" "is_Ok (EvidenceList_Hash e evs)"
    "EvidenceData_ByteSize e \<lparr>ed_Evidence = evs, ed_hash = None, ed_byteSize = 0\<rparr> = Ok (n, ed)" "n \<le> ep_MaxBytes (cp_Evidence (st_ConsensusParams state))"
    "st_Validators state = Some vals" "is_Ok (VS_Hash (crypto e) vals)" "st_NextValidators state = Some nvals" "is_Ok (VS_Hash (crypto e) nvals)"
    "HasAddress vals addr" "length addr = AddressSize"
  shows "\<exists>b. MakeBlockWithoutPartset te e state (st_LastBlockHeight state + 1) data (Some c) evs addr = Ok b \<and> validateBlock te e be now state (Some b) False = Ok ()"
  using assms by (rule made_block_accepted)

theorem honest_block_accepted_witness:
  "\<exists>b. MakeBlockWithoutPartset demo_te (demo_env [demo_bytes 1]) demo_state 6 demo_data (Some demo_cached) [] (replicate 20 7) = Ok b \<and>
     validateBlock demo_te (demo_env [demo_bytes 1]) (demo_batch (crypto (demo_env [demo_bytes 1]))) 10 demo_state (Some b) False = Ok ()"
  using honest_block_accepted [OF demo_made] by (simp add: demo_state_simps)

end
