(* ===== verification/Spec2Isabelle.thy ===== *)
theory Spec2Isabelle
  imports
    BitArray
    SafeMath
    MerkleParallel
    ProofOps
    ValidatorUpdate
    VerifiedCommits
    SignerSafety
    LightTrust
    PartSetProps
    BlobTxProps
    BlockProps
    StateProps
begin

text \<open>
  Celestia-core, a fork of CometBFT: the data structures and the rules of its consensus, checked against the Go
  sources under \<open>src/\<close>.

  \<^bold>\<open>The program.\<close> Validators agree on one block per height. A block is encoded, cut into parts with Merkle proofs and
  sent to the other nodes, which put it together again and validate it against their state. Validators sign prevotes
  and precommits with a signer that keeps its last signature on disk. Nodes collect the votes in vote sets; more than
  two thirds of the voting power is a majority, and the precommits of a majority are the commit that goes into the next
  block. Block sync, light clients and evidence rely on commits alone. The validator set changes with each block and its
  proposer rotates. The theories follow these parts, bottom up; a theory \<open>XProps\<close> has the lemmas on the definitions of
  the theory \<open>X\<close>.

  \<^bold>\<open>Conventions.\<close> \<open>Prelude\<close> has the shared vocabulary. Go's signed integers are integers with the wrap-around
  written out by \<open>i64\<close> and \<open>i32\<close>, \<open>uint64\<close> is a 64-bit word, a byte slice is a list of 8-bit words, a pointer that may
  be nil is an option. A call that can fail has a \<open>result\<close>: a value, an error, or a panic; so every early return,
  every failed index and every nil dereference of the source is a branch of the model. A method that changes its
  receiver returns the changed value. Names are those of the source, with a prefix where several types have the same
  method. Locks are left out: each method is one atomic step of the object it locks.

  \<^bold>\<open>Code outside the repository\<close> is a parameter of the definitions that use it: hashing, signatures and addresses in
  \<open>crypto_env\<close>, the encoding of times and of the well-known protobuf types in \<open>env\<close>, batch verifiers in
  \<open>batch_env\<close>, the clock, the decoding of times and the equality of messages in \<open>pv_env\<close>, providers and goroutine
  order in \<open>light_env\<close>, the Reed-Solomon code in \<open>rs_env\<close>, the wire primitives of
  protobuf and the codec of the square module in \<open>tx_env\<close>. What a property needs of them is a named hypothesis:
  \<open>batch_verifier_ok\<close>, \<open>time_decodes\<close>, \<open>time_encoding_inj\<close>, \<open>pv_lib_ok\<close>, \<open>keys_consistent\<close>, \<open>provider_ok\<close>,
  \<open>order_ok\<close>, \<open>protowire_ok\<close>. No hypothesis says that the hash has no collisions: a property says instead that a
  violation exhibits two different inputs with one hash. The witness of a property instantiates the parameters with
  functions that meet the hypotheses. \<open>batch_verifier_ok\<close> has a batch verify when it is not empty and all its
  signatures do; \<open>order_ok\<close> has the answers of all goroutines arrive, in some order.

  \<^bold>\<open>The parts.\<close>

  \<^item> \<open>BitArray\<close> (\<open>libs/bits/bit_array.go\<close>) and \<open>SafeMath\<close> (\<open>libs/math\<close> and the checked arithmetic of
    \<open>types/validator_set.go\<close>): bits and bounds of each operation, on 64-bit elements and integers as the code has
    them. The locale \<open>bit_vector\<close> states what indexed bits promise; it is interpreted on the arrays of the code.
  \<^item> \<open>Merkle\<close>, \<open>MerkleProof\<close>, \<open>MerkleParallel\<close>, \<open>ProofOps\<close> (\<open>crypto/merkle\<close>): the recursive, the iterative and the
    parallel trees equal one specification \<open>tree_root\<close>; proofs are generated over a heap of trail nodes with parent
    and sibling pointers, as in the code; verification is sound and complete. The workers of the parallel tree run in
    any order, which is an argument.
  \<^item> \<open>Proto\<close>, \<open>ProtoReader\<close>, \<open>BlockWire\<close>, \<open>BlockWireProps\<close> (\<open>proto/tendermint/**.pb.go\<close>, \<open>libs/protoio\<close>): the
    generated encoders and decoders. One generic \<open>pb_unmarshal\<close> runs the loop every generated \<open>Unmarshal\<close> has over a
    table of the fields of the message. The locale \<open>codec\<close> states that a decoder gives back what its encoder wrote,
    also when the message is one field among others; it is interpreted for every message of a block, the larger ones
    from the smaller ones.
  \<^item> \<open>Validator\<close>, \<open>ValidatorSet\<close>, \<open>ValidatorSetProps\<close>, \<open>ProposerRotation\<close>, \<open>ValidatorUpdate\<close>, \<open>VotingPower\<close>
    (\<open>types/validator.go\<close>, \<open>types/validator_set.go\<close>, keys from \<open>crypto/*\<close>): an update is the override of a map from
    addresses to powers or changes nothing; advancing the proposer refines a weighted round robin without clipping.
    The locale \<open>weighted\<close> has the arithmetic of quorums; vote sets, commits and the median time use its
    interpretation on voting powers.
  \<^item> \<open>BlockTypes\<close>, \<open>Vote\<close>, \<open>Commit\<close>, \<open>Params\<close> (\<open>types/block.go\<close>, \<open>types/vote.go\<close>, \<open>types/proposal.go\<close>,
    \<open>types/canonical.go\<close>, \<open>types/params.go\<close>): headers, votes, commits and parameters with validation, hashes and
    protobuf forms; sign bytes determine what is signed.
  \<^item> \<open>VoteSet\<close>, \<open>VoteSetProps\<close>, \<open>VoteSetMajority\<close> (\<open>types/vote_set.go\<close>): the invariant \<open>voteset_wf\<close> holds of every
    set reached by the steps \<open>vs_steps\<close>, in which votes and claims of peers arrive in any order; from it follow that
    a reported majority is one, that it is final, and who is to blame for two of them.
  \<^item> \<open>CommitVerification\<close>, \<open>CommitVerificationProps\<close>, \<open>VerifiedCommits\<close> (\<open>types/validation.go\<close>, \<open>crypto/batch\<close>):
    the single and the batch loop are compared to the reference \<open>spec_loop\<close>.
  \<^item> \<open>PrivVal\<close>, \<open>PrivValProps\<close>, \<open>SignerSafety\<close> (\<open>privval/file.go\<close>): a signer with requests, crashes between any two
    effects, and restarts is the step relation \<open>pv_steps\<close>; a ledger with one signed message for each height, round and
    step is kept. Together with the vote sets: no two nodes see different majorities in a round.
  \<^item> \<open>LightTypes\<close>, \<open>LightVerifier\<close>, \<open>LightStore\<close>, \<open>Evidence\<close>, \<open>LightClient\<close>, \<open>LightClientProps\<close>, \<open>LightTrust\<close>
    (\<open>types/light.go\<close>, \<open>types/evidence.go\<close>, \<open>light\<close>): the client threads its state through every operation. The
    locale \<open>block_store\<close> is the contract of the store of trusted blocks, \<open>lc_frame\<close> collects what all operations keep
    of the client. What a trusted block has behind it is stated as a path of verified links from one source and the
    answer of a witness that is not that source, made while the block was verified.
  \<^item> \<open>PartSet\<close>, \<open>PartSetProps\<close>, \<open>BlobTx\<close>, \<open>BlobTxProps\<close>, \<open>Block\<close>, \<open>EvidenceWire\<close>, \<open>BlockProps\<close>
    (\<open>types/part_set.go\<close>, \<open>types/tx.go\<close>, \<open>types/blob_tx.go\<close>, \<open>types/block.go\<close>, \<open>types/evidence.go\<close>,
    \<open>types/marshalling.go\<close>): the way of a block with its evidence from its proposer over the parts to its receivers,
    up to the caches a message does not carry (\<open>received_block\<close>, \<open>wire_evidence\<close>); the scan for blob transactions
    equals the decoder it replaces.
  \<^item> \<open>State\<close>, \<open>StateProps\<close> (\<open>state/state.go\<close>, \<open>state/validation.go\<close>, \<open>types/genesis.go\<close>): what an accepted block
    satisfies, that blocks of correct proposers are accepted, and the bounds of the median time.

  \<^bold>\<open>Loops and turns.\<close> Loops over a slice are recursion on the list or \<open>fold_out\<close>, which stops at the first error or
  panic. Loops with another measure are functions with a termination proof. The loops of the light client, which wait
  for providers, are \<open>iterate\<close> of \<open>Loops\<close> and have no value when they do not end; \<open>skipping_terminates\<close> proves that
  the skipping verification returns. The scans of encoded transactions and blocks (\<open>scan_fields\<close>, \<open>find_loop\<close>,
  \<open>position_loop\<close>) count turns up to one more than the bytes there are: every turn that goes on consumes a byte, and
  the properties prove that the turns are never used up.

  The body of a loop and the constants of a function stand in the development as definitions of their own where
  lemmas are stated about them.

  \<^bold>\<open>Not modelled\<close>: the goroutines of the consensus state machine with its write-ahead log, ticker, reactor and block
  propagation, and the execution of blocks by the application; the network, the mempool, block sync, state sync, the
  stores on disk, the evidence pool, indexers, RPC and the assembly of a node, which are I/O around the rules above; the
  curves and ciphers; proofs over the namespaced tree of another module.
  Printing for humans, metrics, logging and tracing are left out
  everywhere.
\<close>

end
